(* ===== verification/Prelude.thy ===== *)
theory Prelude
  imports Main "HOL-Library.Word" "HOL-Library.Char_ord" "HOL-Library.List_Lexorder"
    "HOL-Library.Sublist"
begin

text \<open>
  Shared vocabulary of the development: the machine types of the Go sources, the conversion
  between Go strings and byte slices, big-endian integer encodings of
  \<^verbatim>\<open>encoding/binary\<close>, and the generic list lemmas the components use.

  A Go \<^verbatim>\<open>string\<close> is a sequence of bytes and is modelled as \<^typ>\<open>string\<close> (a list of 8-bit
  characters); \<^verbatim>\<open>[]byte\<close> is a list of 8-bit words. \<open>bytes_of\<close> is the conversion
  \<^verbatim>\<open>[]byte(s)\<close>, \<open>string_of\<close> the conversion \<^verbatim>\<open>string(b)\<close>; they are inverse to each other.
  The ordering of strings is the bytewise lexicographic one of Go's \<^verbatim>\<open><\<close>
  (theories Char\_ord and List\_Lexorder).
\<close>

unbundle bit_operations_syntax

named_theorems go_defs
  \<open>definitions of the small helpers that evaluate away on concrete inputs\<close>

type_synonym byte = "8 word"
type_synonym bytes = "byte list"
type_synonym u32 = "32 word"
type_synonym u64 = "64 word"

section \<open>Strings and bytes\<close>

definition byte_of_char :: "char \<Rightarrow> byte" where
  "byte_of_char c = word_of_nat (of_char c)"

definition char_of_byte :: "byte \<Rightarrow> char" where
  "char_of_byte b = char_of (unat b)"

definition bytes_of :: "string \<Rightarrow> bytes" where
  "bytes_of s = map byte_of_char s"

definition string_of :: "bytes \<Rightarrow> string" where
  "string_of b = map char_of_byte b"

lemma of_char_less_256 [simp]: "(of_char c :: nat) < 256"
  using of_char_mod_256 [of c] by (metis mod_less_divisor zero_less_numeral)

lemma char_of_byte_of_char [simp]: "char_of_byte (byte_of_char c) = c"
  by (simp add: char_of_byte_def byte_of_char_def unat_of_nat)

lemma unat_byte_less [simp]: "unat (b :: byte) < 256"
  using unsigned_less [of b] by simp

lemma byte_of_char_of_byte [simp]: "byte_of_char (char_of_byte b) = b"
  by (simp add: char_of_byte_def byte_of_char_def)

lemma string_of_bytes_of [simp]: "string_of (bytes_of s) = s"
  by (induction s) (simp_all add: string_of_def bytes_of_def)

lemma bytes_of_string_of [simp]: "bytes_of (string_of b) = b"
  by (induction b) (simp_all add: string_of_def bytes_of_def)

lemma length_bytes_of [simp]: "length (bytes_of s) = length s"
  by (simp add: bytes_of_def)

lemma length_string_of [simp]: "length (string_of b) = length b"
  by (simp add: string_of_def)

lemma bytes_of_eq_iff [simp]: "bytes_of s = bytes_of t \<longleftrightarrow> s = t"
  by (metis string_of_bytes_of)

section \<open>Big-endian integers (\<^verbatim>\<open>encoding/binary\<close>)\<close>

definition put_uint32 :: "u32 \<Rightarrow> bytes" where
  "put_uint32 v = [ucast (drop_bit 24 v), ucast (drop_bit 16 v), ucast (drop_bit 8 v), ucast v]"

definition get_uint32 :: "bytes \<Rightarrow> u32" where
  "get_uint32 b = push_bit 24 (ucast (b ! 0)) OR push_bit 16 (ucast (b ! 1))
     OR push_bit 8 (ucast (b ! 2)) OR ucast (b ! 3)"

definition put_uint64 :: "u64 \<Rightarrow> bytes" where
  "put_uint64 v = put_uint32 (ucast (drop_bit 32 v)) @ put_uint32 (ucast v)"

definition get_uint64 :: "bytes \<Rightarrow> u64" where
  "get_uint64 b = push_bit 32 (ucast (get_uint32 b)) OR ucast (get_uint32 (drop 4 b))"

lemma length_put_uint32 [simp]: "length (put_uint32 v) = 4"
  by (simp add: put_uint32_def)

lemma length_put_uint64 [simp]: "length (put_uint64 v) = 8"
  by (simp add: put_uint64_def)

lemma get_put_uint32 [simp]: "get_uint32 (put_uint32 v @ r) = v"
proof (rule bit_word_eqI)
  fix n assume "n < LENGTH(32)"
  then consider "n < 8" | "8 \<le> n" "n < 16" | "16 \<le> n" "n < 24" | "24 \<le> n" "n < 32"
    by fastforce
  then show "bit (get_uint32 (put_uint32 v @ r)) n = bit v n"
    unfolding get_uint32_def put_uint32_def
    by cases (auto simp: bit_simps)
qed

lemma put_get_uint32:
  assumes "length b = 4"
  shows "put_uint32 (get_uint32 b) = b"
proof -
  obtain b0 b1 b2 b3 where b: "b = [b0, b1, b2, b3]"
    using assms by (auto simp: length_Suc_conv numeral_eq_Suc)
  have "ucast (drop_bit 24 (get_uint32 b)) = b0" "ucast (drop_bit 16 (get_uint32 b)) = b1"
    "ucast (drop_bit 8 (get_uint32 b)) = b2" "ucast (get_uint32 b) = b3"
    by (rule bit_word_eqI, auto simp: b get_uint32_def bit_simps dest: bit_imp_le_length)+
  then show ?thesis
    by (simp add: put_uint32_def b)
qed

lemma get_put_uint64 [simp]: "get_uint64 (put_uint64 v @ r) = v"
proof -
  have "get_uint64 (put_uint64 v @ r)
      = push_bit 32 (ucast (ucast (drop_bit 32 v) :: u32)) OR ucast (ucast v :: u32)"
    by (simp add: get_uint64_def put_uint64_def)
  also have "\<dots> = v"
    by (rule bit_word_eqI) (auto simp: bit_simps)
  finally show ?thesis .
qed

lemma put_get_uint64:
  assumes "length b = 8"
  shows "put_uint64 (get_uint64 b) = b"
proof -
  have b: "put_uint32 (get_uint32 b) = take 4 b" "put_uint32 (get_uint32 (drop 4 b)) = drop 4 b"
    using assms put_get_uint32 [of "take 4 b"] put_get_uint32 [of "drop 4 b"]
    by (simp_all add: get_uint32_def)
  have "(ucast (drop_bit 32 (get_uint64 b)) :: u32) = get_uint32 b"
    "(ucast (get_uint64 b) :: u32) = get_uint32 (drop 4 b)"
    by (rule bit_word_eqI, auto simp: get_uint64_def bit_simps dest: bit_imp_le_length)+
  with b show ?thesis
    by (simp add: put_uint64_def)
qed

section \<open>Lists\<close>

lemma filter_eq_distinct: "distinct xs \<Longrightarrow> k \<in> set xs \<Longrightarrow> filter (\<lambda>x. k = x) xs = [k]"
  by (induction xs) (auto simp: filter_empty_conv)

section \<open>Go maps\<close>

text \<open>
  A Go map is an association list read through \<^const>\<open>map_of\<close>: \<^verbatim>\<open>m[k] = v\<close> conses a pair, the first
  pair of a key counts. \<open>go_entries\<close> are the pairs a \<^verbatim>\<open>range\<close> loop visits, in one order of many;
  \<open>sorted_entries\<close> those pairs in key order, which is how \<^verbatim>\<open>encoding/json\<close> writes them.
\<close>

definition go_entries :: "('k \<times> 'v) list \<Rightarrow> ('k \<times> 'v) list" where
  "go_entries m = map (\<lambda>k. (k, the (map_of m k))) (remdups (map fst m))"

definition sorted_entries :: "('k :: linorder \<times> 'v) list \<Rightarrow> ('k \<times> 'v) list" where
  "sorted_entries m = map (\<lambda>k. (k, the (map_of m k))) (sort (remdups (map fst m)))"

lemma map_of_Some_key: "map_of m k = Some v \<Longrightarrow> k \<in> fst ` set m"
  by (metis domI dom_map_of_conv_image_fst)

lemma map_of_Some_iff: "k \<in> fst ` set m \<and> the (map_of m k) = v \<longleftrightarrow> map_of m k = Some v"
  by (metis map_of_Some_key map_of_eq_None_iff option.exhaust_sel option.sel)

lemma in_go_entries [simp]: "(k, v) \<in> set (go_entries m) \<longleftrightarrow> map_of m k = Some v"
  unfolding map_of_Some_iff [symmetric] by (auto simp: go_entries_def)

lemma in_sorted_entries [simp]: "(k, v) \<in> set (sorted_entries m) \<longleftrightarrow> map_of m k = Some v"
  unfolding map_of_Some_iff [symmetric] by (auto simp: sorted_entries_def)

lemma go_entries_Nil_iff [simp]: "go_entries m = [] \<longleftrightarrow> m = []"
  by (simp add: go_entries_def)

lemma sorted_entries_eq_iff: "sorted_entries m = sorted_entries n \<longleftrightarrow> map_of m = map_of n"
proof
  assume "sorted_entries m = sorted_entries n"
  then have "map_of m k = Some v \<longleftrightarrow> map_of n k = Some v" for k v
    by (metis in_sorted_entries)
  then show "map_of m = map_of n"
    by (metis not_Some_eq ext)
next
  assume e: "map_of m = map_of n"
  then have "set (map fst m) = set (map fst n)"
    by (metis dom_map_of_conv_image_fst set_map)
  then have "sort (remdups (map fst m)) = sort (remdups (map fst n))"
    by (intro sorted_distinct_set_unique) simp_all
  with e show "sorted_entries m = sorted_entries n"
    by (simp add: sorted_entries_def)
qed

lemma sorted_entries_map:
  "map (\<lambda>(k, v). (k, f v)) (sorted_entries m) = sorted_entries (map (\<lambda>(k, v). (k, f v)) m)"
proof -
  let ?ks = "sort (remdups (map fst m))"
  have "map fst (map (\<lambda>(k, v). (k, f v)) m) = map fst m"
    by (induction m) auto
  then have "sorted_entries (map (\<lambda>(k, v). (k, f v)) m) = map (\<lambda>k. (k, the (map_option f (map_of m k)))) ?ks"
    by (simp add: sorted_entries_def map_of_map del: map_map)
  also have "\<dots> = map (\<lambda>k. (k, f (the (map_of m k)))) ?ks"
    by (simp add: option.map_sel map_of_eq_None_iff)
  finally show ?thesis
    by (simp add: sorted_entries_def)
qed

lemma list_all_go_entries: "list_all (\<lambda>(k, v). P k v) (go_entries m) \<longleftrightarrow> (\<forall>k v. map_of m k = Some v \<longrightarrow> P k v)"
  by (auto simp: list_all_iff)

text \<open>A slice or map that may be nil, where the code or its JSON tells nil from empty; \<open>None\<close> is nil.\<close>

definition elems :: "'a list option \<Rightarrow> 'a list" where
  "elems s = (case s of None \<Rightarrow> [] | Some xs \<Rightarrow> xs)"

lemma elems_simps [simp]: "elems None = []" "elems (Some xs) = xs"
  by (simp_all add: elems_def)

end
