(* ===== verification/Merkle.thy ===== *)
theory Merkle
  imports Prelude "HOL-Library.Multiset"
begin

text \<open>
  The Merkle tree of \<^verbatim>\<open>commitment/tree.go\<close>. A leaf, a proof step and a tree are records with the
  source's fields; \<open>build\<close>, \<open>tree_root\<close>, \<open>proof_for\<close> and \<open>verify_proof\<close> follow the Go functions.
  SHA-256 is a parameter \<open>H\<close>. What the security of the tree needs of it is stated where it is
  used: 32-byte outputs and no collision among the messages the tree and the proof really hash
  (\<open>build_messages\<close>, \<open>verify_messages\<close>), never injectivity on all inputs.
\<close>

section \<open>Data\<close>

record leaf =
  leaf_tool :: string
  leaf_id :: string
  leaf_kind :: string
  leaf_payload :: bytes

abbreviation kind_command :: string where "kind_command \<equiv> ''command''"
abbreviation kind_policy :: string where "kind_policy \<equiv> ''policy''"

type_synonym hash = bytes

record proof_step =
  step_hash :: hash
  step_left :: bool
  step_carry :: bool

type_synonym merkle_proof = "proof_step list"

record tree =
  tree_levels :: "hash list list"
  tree_index :: "string \<rightharpoonup> nat"

datatype commitment_error = ZeroLeaves | DuplicateKey string | NoSuchLeaf string

definition leaf_key :: "leaf \<Rightarrow> string" where
  "leaf_key l = leaf_tool l @ [CHR 0x00] @ leaf_kind l @ [CHR 0x00] @ leaf_id l"

definition write_len_prefixed :: "bytes \<Rightarrow> bytes" where
  "write_len_prefixed b = put_uint32 (of_nat (length b)) @ b"

definition leaf_message :: "leaf \<Rightarrow> bytes" where
  "leaf_message l = 0 # write_len_prefixed (bytes_of (leaf_tool l))
     @ write_len_prefixed (bytes_of (leaf_kind l))
     @ write_len_prefixed (bytes_of (leaf_id l))
     @ write_len_prefixed (leaf_payload l)"

definition leaf_hash :: "(bytes \<Rightarrow> hash) \<Rightarrow> leaf \<Rightarrow> hash" where
  "leaf_hash H l = H (leaf_message l)"

definition node_message :: "hash \<Rightarrow> hash \<Rightarrow> bytes" where
  "node_message a b = 1 # a @ b"

definition node_hash :: "(bytes \<Rightarrow> hash) \<Rightarrow> hash \<Rightarrow> hash \<Rightarrow> hash" where
  "node_hash H a b = H (node_message a b)"

section \<open>Operations\<close>

text \<open>The loop of \<^verbatim>\<open>Build\<close> that fills the index: \<open>i\<close> is the position, \<open>m\<close> the index so far.\<close>

fun index_leaves :: "nat \<Rightarrow> (string \<rightharpoonup> nat) \<Rightarrow> leaf list \<Rightarrow> commitment_error + (string \<rightharpoonup> nat)" where
  "index_leaves i m [] = Inr m"
| "index_leaves i m (l # ls) =
     (if m (leaf_key l) \<noteq> None then Inl (DuplicateKey (leaf_key l))
      else index_leaves (Suc i) (m(leaf_key l \<mapsto> i)) ls)"

fun next_level :: "(bytes \<Rightarrow> hash) \<Rightarrow> hash list \<Rightarrow> hash list" where
  "next_level H [] = []"
| "next_level H [x] = [x]"
| "next_level H (x # y # zs) = node_hash H x y # next_level H zs"

lemma length_next_level [simp]: "length (next_level H xs) = (length xs + 1) div 2"
  by (induction H xs rule: next_level.induct) auto

function build_levels :: "(bytes \<Rightarrow> hash) \<Rightarrow> hash list \<Rightarrow> hash list list" where
  "build_levels H cur = (if length cur > 1 then cur # build_levels H (next_level H cur) else [cur])"
  by pat_completeness auto
termination
  by (relation "measure (\<lambda>(H, cur). length cur)") auto

declare build_levels.simps [simp del]

definition build :: "(bytes \<Rightarrow> hash) \<Rightarrow> leaf list \<Rightarrow> commitment_error + tree" where
  "build H ls =
     (if ls = [] then Inl ZeroLeaves
      else let sls = sort_key leaf_key ls in
        case index_leaves 0 Map.empty sls of
          Inl e \<Rightarrow> Inl e
        | Inr m \<Rightarrow> Inr \<lparr>tree_levels = build_levels H (map (leaf_hash H) sls), tree_index = m\<rparr>)"

definition tree_root :: "tree \<Rightarrow> hash" where
  "tree_root t = hd (last (tree_levels t))"

fun proof_steps :: "nat \<Rightarrow> hash list list \<Rightarrow> merkle_proof" where
  "proof_steps i (lv # lv' # lvs) =
     (if i mod 2 = 1 then \<lparr>step_hash = lv ! (i - 1), step_left = True, step_carry = False\<rparr>
      else if i + 1 < length lv then \<lparr>step_hash = lv ! (i + 1), step_left = False, step_carry = False\<rparr>
      else \<lparr>step_hash = replicate 32 0, step_left = False, step_carry = True\<rparr>)
     # proof_steps (i div 2) (lv' # lvs)"
| "proof_steps i _ = []"

definition proof_for :: "tree \<Rightarrow> string \<Rightarrow> commitment_error + merkle_proof" where
  "proof_for t key = (case tree_index t key of None \<Rightarrow> Inl (NoSuchLeaf key)
     | Some i \<Rightarrow> Inr (proof_steps i (tree_levels t)))"

definition apply_step :: "(bytes \<Rightarrow> hash) \<Rightarrow> hash \<Rightarrow> proof_step \<Rightarrow> hash" where
  "apply_step H cur s =
     (if step_carry s then cur
      else if step_left s then node_hash H (step_hash s) cur
      else node_hash H cur (step_hash s))"

definition verify_proof :: "(bytes \<Rightarrow> hash) \<Rightarrow> leaf \<Rightarrow> merkle_proof \<Rightarrow> hash \<Rightarrow> bool" where
  "verify_proof H l p r \<longleftrightarrow> foldl (apply_step H) (leaf_hash H l) p = r"

section \<open>Structure of the levels\<close>

lemma build_levels_not_Nil [simp]: "build_levels H cur \<noteq> []"
  by (simp add: build_levels.simps)

lemma hd_build_levels [simp]: "hd (build_levels H cur) = cur"
  by (simp add: build_levels.simps)

lemma build_levels_long: "length cur > 1 \<Longrightarrow> build_levels H cur = cur # build_levels H (next_level H cur)"
  by (simp add: build_levels.simps)

lemma build_levels_short: "\<not> length cur > 1 \<Longrightarrow> build_levels H cur = [cur]"
  by (simp add: build_levels.simps)

lemma last_build_levels_length: "0 < length cur \<Longrightarrow> length (last (build_levels H cur)) = 1"
proof (induction H cur rule: build_levels.induct)
  case (1 H cur)
  show ?case
  proof (cases "length cur > 1")
    case True
    then have "0 < length (next_level H cur)"
      by simp
    with 1 True show ?thesis
      by (simp add: build_levels_long)
  next
    case False
    with 1 show ?thesis
      by (cases cur) (simp_all add: build_levels_short)
  qed
qed

lemma next_level_nth_left:
  "2 * i + 1 < length xs \<Longrightarrow> next_level H xs ! i = node_hash H (xs ! (2 * i)) (xs ! (2 * i + 1))"
proof (induction H xs arbitrary: i rule: next_level.induct)
  case (3 H x y zs)
  then show ?case
    by (cases i) auto
qed auto

lemma next_level_nth_carry:
  "length xs = 2 * i + 1 \<Longrightarrow> next_level H xs ! i = xs ! (2 * i)"
proof (induction H xs arbitrary: i rule: next_level.induct)
  case (3 H x y zs)
  then show ?case
    by (cases i) (simp_all add: nth_Cons')
qed auto

lemma proof_step_correct:
  fixes cur :: "hash list" and H i lvs
  assumes "i < length cur" "1 < length cur"
  defines "s \<equiv> hd (proof_steps i (cur # next_level H cur # lvs))"
  shows "apply_step H (cur ! i) s = next_level H cur ! (i div 2)"
proof -
  consider (odd) "i mod 2 = 1" | (even) "i mod 2 = 0" "i + 1 < length cur"
    | (carry) "i mod 2 = 0" "i + 1 = length cur"
    using assms(1) by linarith
  then show ?thesis
  proof cases
    case odd
    then have i: "i - 1 = 2 * (i div 2)" "i = 2 * (i div 2) + 1"
      by presburger+
    then have "next_level H cur ! (i div 2) = node_hash H (cur ! (i - 1)) (cur ! i)"
      using assms(1) next_level_nth_left [of "i div 2" cur H] by metis
    with odd show ?thesis
      by (simp add: s_def apply_step_def)
  next
    case even
    then have i: "i = 2 * (i div 2)"
      by presburger
    then have "next_level H cur ! (i div 2) = node_hash H (cur ! i) (cur ! (i + 1))"
      using even(2) next_level_nth_left [of "i div 2" cur H] by metis
    with even show ?thesis
      by (simp add: s_def apply_step_def)
  next
    case carry
    then have i: "i = 2 * (i div 2)"
      by presburger
    then have "next_level H cur ! (i div 2) = cur ! i"
      using carry(2) next_level_nth_carry [of cur "i div 2" H] by metis
    with carry show ?thesis
      by (simp add: s_def apply_step_def)
  qed
qed

lemma proof_steps_reach_root:
  "i < length cur \<Longrightarrow> foldl (apply_step H) (cur ! i) (proof_steps i (build_levels H cur))
    = hd (last (build_levels H cur))"
proof (induction H cur arbitrary: i rule: build_levels.induct)
  case (1 H cur)
  show ?case
  proof (cases "length cur > 1")
    case False
    then obtain x where "cur = [x]"
      using "1.prems" by (cases cur; cases "tl cur") auto
    with "1.prems" show ?thesis
      by (simp add: build_levels_short)
  next
    case True
    obtain rest where rest: "build_levels H (next_level H cur) = next_level H cur # rest"
      by (metis build_levels_not_Nil hd_build_levels list.collapse)
    have "i div 2 < length (next_level H cur)"
      using "1.prems" by simp
    from "1.IH" [OF True this] show ?thesis
      using proof_step_correct [OF "1.prems" True, of H rest] True rest
      by (simp add: build_levels_long)
  qed
qed

section \<open>The index\<close>

lemma index_leaves_Inr_iff:
  "index_leaves i m ls = Inr m' \<longleftrightarrow>
     distinct (map leaf_key ls) \<and> (\<forall>l \<in> set ls. m (leaf_key l) = None)
     \<and> m' = m(map leaf_key ls [\<mapsto>] [i..<i + length ls])"
proof (induction i m ls rule: index_leaves.induct)
  case (2 i m l ls)
  show ?case
  proof (cases "m (leaf_key l)")
    case None
    let ?m = "m(leaf_key l \<mapsto> i)"
    have u: "[i..<i + length (l # ls)] = i # [Suc i..<Suc i + length ls]"
      by (simp add: upt_conv_Cons del: upt_Suc)
    have "(\<forall>l' \<in> set ls. ?m (leaf_key l') = None)
        \<longleftrightarrow> leaf_key l \<notin> leaf_key ` set ls \<and> (\<forall>l' \<in> set ls. m (leaf_key l') = None)"
      by (auto simp: image_iff)
    moreover have "index_leaves i m (l # ls) = index_leaves (Suc i) ?m ls"
      using None by simp
    ultimately show ?thesis
      using 2 None unfolding u by (simp del: fun_upd_apply) blast
  qed simp
qed auto

lemma map_upds_nth:
  "distinct ks \<Longrightarrow> j < length ks \<Longrightarrow> length vs = length ks \<Longrightarrow> (m(ks [\<mapsto>] vs)) (ks ! j) = Some (vs ! j)"
proof (induction ks arbitrary: j m vs)
  case (Cons k ks)
  then show ?case
    by (cases vs; cases j) auto
qed simp

lemma build_InrE:
  assumes "build H ls = Inr t"
  obtains "ls \<noteq> []" "distinct (map leaf_key (sort_key leaf_key ls))"
    "tree_levels t = build_levels H (map (leaf_hash H) (sort_key leaf_key ls))"
    "\<And>i. i < length ls \<Longrightarrow> tree_index t (leaf_key (sort_key leaf_key ls ! i)) = Some i"
proof -
  let ?s = "sort_key leaf_key ls"
  from assms obtain m where m: "index_leaves 0 Map.empty ?s = Inr m" "ls \<noteq> []"
    and t: "t = \<lparr>tree_levels = build_levels H (map (leaf_hash H) ?s), tree_index = m\<rparr>"
    by (auto simp: build_def Let_def split: if_splits sum.splits)
  from m(1) have d: "distinct (map leaf_key ?s)"
    and eq: "m = Map.empty(map leaf_key ?s [\<mapsto>] [0..<0 + length ?s])"
    by (simp_all add: index_leaves_Inr_iff)
  have "tree_index t (leaf_key (?s ! i)) = Some i" if "i < length ls" for i
    using that map_upds_nth [OF d, of i "[0..<0 + length ?s]" Map.empty] t eq by simp
  with d m(2) t show thesis
    by (intro that) simp_all
qed

section \<open>Completeness: every committed leaf has a proof that verifies\<close>

lemma proof_for_verifies:
  assumes "build H ls = Inr t" "l \<in> set ls"
  shows "\<exists>p. proof_for t (leaf_key l) = Inr p \<and> verify_proof H l p (tree_root t)"
  using assms(1)
proof (rule build_InrE)
  let ?s = "sort_key leaf_key ls"
  assume lv: "tree_levels t = build_levels H (map (leaf_hash H) ?s)"
    and ix: "\<And>i. i < length ls \<Longrightarrow> tree_index t (leaf_key (?s ! i)) = Some i"
  obtain i where i: "i < length ls" "?s ! i = l"
    using assms(2) by (metis in_set_conv_nth length_sort set_sort)
  then have "foldl (apply_step H) (leaf_hash H l) (proof_steps i (tree_levels t)) = tree_root t"
    using proof_steps_reach_root [of i "map (leaf_hash H) ?s" H] by (simp add: lv tree_root_def)
  with i ix [OF i(1)] show ?thesis
    by (simp add: proof_for_def verify_proof_def)
qed

section \<open>Order independence\<close>

lemma index_leaves_keys:
  "map leaf_key ls = map leaf_key ls' \<Longrightarrow> index_leaves i m ls = index_leaves i m ls'"
proof (induction i m ls arbitrary: ls' rule: index_leaves.induct)
  case (1 i m)
  then show ?case by simp
next
  case (2 i m l ls)
  then show ?case by (cases ls') (auto simp del: fun_upd_apply)
qed

lemma sort_key_unique:
  assumes "mset xs = mset ys" "distinct (map f xs)"
  shows "sort_key f xs = sort_key f ys"
proof (rule properties_for_sort_key)
  have "inj_on f (set (sort_key f ys))" "set (sort_key f ys) = set xs" "distinct xs" "distinct ys"
    using assms by (auto simp: distinct_map dest: mset_eq_setD mset_eq_imp_distinct_iff)
  then have "filter (\<lambda>x. f k = f x) zs = [k]" if "k \<in> set ys" "mset zs = mset ys" for k zs
  proof -
    have "filter (\<lambda>x. f k = f x) zs = filter (\<lambda>x. k = x) zs"
      using that \<open>inj_on f (set (sort_key f ys))\<close> mset_eq_setD [OF that(2)]
      by (intro filter_cong) (auto simp: inj_on_def)
    also have "\<dots> = [k]"
      using that \<open>distinct ys\<close> mset_eq_imp_distinct_iff [OF that(2)] mset_eq_setD [OF that(2)]
      by (intro filter_eq_distinct) simp_all
    finally show ?thesis .
  qed
  then show "\<And>k. k \<in> set (sort_key f ys) \<Longrightarrow>
      filter (\<lambda>x. f k = f x) (sort_key f ys) = filter (\<lambda>x. f k = f x) xs"
    using assms(1) by simp
qed (use assms in simp_all)

lemma build_perm:
  assumes "mset ls = mset ls'"
  shows "build H ls = build H ls'"
proof -
  let ?s = "sort_key leaf_key ls" and ?s' = "sort_key leaf_key ls'"
  have k: "map leaf_key ?s = map leaf_key ?s'"
  proof (rule trans)
    show "map leaf_key ?s = sort (map leaf_key ls)"
      by (rule sym, rule properties_for_sort) simp_all
    show "sort (map leaf_key ls) = map leaf_key ?s'"
      using assms by (intro properties_for_sort) simp_all
  qed
  have e: "ls = [] \<longleftrightarrow> ls' = []"
    using assms by auto
  show ?thesis
  proof (cases "index_leaves 0 Map.empty ?s")
    case (Inl err)
    then show ?thesis
      using index_leaves_keys [OF k, of 0 Map.empty] e by (simp add: build_def)
  next
    case (Inr m)
    then have "distinct (map leaf_key ?s)"
      by (simp add: index_leaves_Inr_iff)
    then have "distinct (map leaf_key ls)"
      by (metis distinct_map distinct_sort set_sort)
    then have "?s = ?s'"
      using assms by (rule sort_key_unique [rotated])
    with e show ?thesis
      by (simp add: build_def)
  qed
qed

section \<open>Soundness: a proof that verifies is a proof of a committed leaf\<close>

text \<open>The messages \<open>build\<close> hashes, and those \<open>verify_proof\<close> hashes.\<close>

fun node_messages :: "hash list \<Rightarrow> bytes list" where
  "node_messages (x # y # zs) = node_message x y # node_messages zs"
| "node_messages _ = []"

definition build_messages :: "(bytes \<Rightarrow> hash) \<Rightarrow> leaf list \<Rightarrow> bytes list" where
  "build_messages H ls = (let sls = sort_key leaf_key ls in
     map leaf_message sls
     @ concat (map node_messages (build_levels H (map (leaf_hash H) sls))))"

fun path_messages :: "(bytes \<Rightarrow> hash) \<Rightarrow> hash \<Rightarrow> merkle_proof \<Rightarrow> bytes list" where
  "path_messages H cur [] = []"
| "path_messages H cur (s # ss) =
     (if step_carry s then []
      else [if step_left s then node_message (step_hash s) cur else node_message cur (step_hash s)])
     @ path_messages H (apply_step H cur s) ss"

definition verify_messages :: "(bytes \<Rightarrow> hash) \<Rightarrow> leaf \<Rightarrow> merkle_proof \<Rightarrow> bytes list" where
  "verify_messages H l p = leaf_message l # path_messages H (leaf_hash H l) p"

text \<open>Every field of the leaf is short enough for its four-byte length prefix.\<close>

definition leaf_sized :: "leaf \<Rightarrow> bool" where
  "leaf_sized l \<longleftrightarrow> length (leaf_tool l) < 2 ^ 32 \<and> length (leaf_kind l) < 2 ^ 32
     \<and> length (leaf_id l) < 2 ^ 32 \<and> length (leaf_payload l) < 2 ^ 32"

text \<open>Where a value of the tree comes from: it is a leaf hash, or the hash of a node message of
  two other values of the tree.\<close>

definition node_value :: "(bytes \<Rightarrow> hash) \<Rightarrow> hash set \<Rightarrow> bytes set \<Rightarrow> hash \<Rightarrow> bool" where
  "node_value H V M v \<longleftrightarrow>
     (\<exists>a \<in> V. \<exists>b \<in> V. v = node_hash H a b \<and> node_message a b \<in> M)"

lemma node_value_mono: "node_value H V M v \<Longrightarrow> V \<subseteq> V' \<Longrightarrow> M \<subseteq> M' \<Longrightarrow> node_value H V' M' v"
  by (auto simp: node_value_def)

lemma next_level_origin:
  "v \<in> set (next_level H xs) \<Longrightarrow> v \<in> set xs \<or> node_value H (set xs) (set (node_messages xs)) v"
proof (induction H xs rule: next_level.induct)
  case (3 H x y zs)
  then consider "v = node_hash H x y" | "v \<in> set zs" | "node_value H (set zs) (set (node_messages zs)) v"
    by auto
  then show ?case
  proof cases
    case 3
    then have "node_value H (set (x # y # zs)) (set (node_messages (x # y # zs))) v"
      by (rule node_value_mono) auto
    then show ?thesis ..
  qed (auto simp: node_value_def)
qed auto

lemma tree_value_origin:
  defines "vals \<equiv> \<lambda>H cur. set (concat (build_levels H cur))"
    and "msgs \<equiv> \<lambda>H cur. set (concat (map node_messages (build_levels H cur)))"
  shows "v \<in> vals H cur \<Longrightarrow> v \<in> set cur \<or> node_value H (vals H cur) (msgs H cur) v"
proof (induction H cur rule: build_levels.induct)
  case (1 H cur)
  show ?case
  proof (cases "length cur > 1")
    case False
    with "1.prems" show ?thesis
      by (simp add: vals_def build_levels_short)
  next
    case True
    let ?nx = "next_level H cur"
    have lv: "build_levels H cur = cur # build_levels H ?nx"
      using True by (rule build_levels_long)
    have nx: "set ?nx \<subseteq> vals H ?nx"
      by (metis build_levels_not_Nil concat.simps(2) hd_build_levels list.collapse set_append
          sup_ge1 vals_def)
    have sub: "vals H ?nx \<subseteq> vals H cur" "set cur \<subseteq> vals H cur"
      "msgs H ?nx \<subseteq> msgs H cur" "set (node_messages cur) \<subseteq> msgs H cur"
      by (auto simp: vals_def msgs_def lv)
    from "1.prems" have "v \<in> set cur \<or> v \<in> vals H ?nx"
      by (simp add: vals_def lv)
    moreover have "v \<in> vals H ?nx \<Longrightarrow> v \<in> set ?nx \<or> node_value H (vals H ?nx) (msgs H ?nx) v"
      by (rule "1.IH" [OF True])
    moreover note next_level_origin [of v H cur]
    ultimately show ?thesis
      using sub by (metis node_value_mono)
  qed
qed

lemma leaf_message_not_node [simp]: "leaf_message l \<noteq> node_message a b"
  by (simp add: leaf_message_def node_message_def)

lemma node_value_pre:
  assumes "node_value H V M (node_hash H x y)" "inj_on H (M \<union> N)" "node_message x y \<in> N"
    and "\<And>v. v \<in> V \<Longrightarrow> length v = length x"
  shows "x \<in> V \<and> y \<in> V"
proof -
  obtain a b where ab: "a \<in> V" "b \<in> V" "H (node_message x y) = H (node_message a b)" "node_message a b \<in> M"
    using assms(1) by (auto simp: node_value_def node_hash_def)
  then have "node_message x y = node_message a b"
    using inj_onD [OF assms(2), of "node_message x y" "node_message a b"] assms(3) by simp
  then have "x = a \<and> y = b"
    using assms(4) [OF ab(1)] by (simp add: node_message_def)
  with ab(1,2) show ?thesis
    by simp
qed

lemma leaf_hash_not_node_hash:
  assumes "inj_on H (M \<union> N)" "leaf_message l \<in> M" "node_message x y \<in> N"
  shows "node_hash H x y \<noteq> leaf_hash H l"
proof
  assume "node_hash H x y = leaf_hash H l"
  then have "leaf_message l = node_message x y"
    using inj_onD [OF assms(1), of "leaf_message l" "node_message x y"] assms(2,3)
    by (simp add: node_hash_def leaf_hash_def)
  then show False
    by simp
qed

lemma path_backward:
  assumes H32: "\<And>m. length (H m) = 32"
    and V32: "\<And>v. v \<in> V \<Longrightarrow> length v = 32"
    and origin: "\<And>v. v \<in> V \<Longrightarrow>
      (\<exists>l. v = leaf_hash H l \<and> leaf_message l \<in> M) \<or> node_value H V M v"
  shows "foldl (apply_step H) cur p \<in> V \<Longrightarrow> length cur = 32
    \<Longrightarrow> \<forall>s \<in> set p. length (step_hash s) = 32
    \<Longrightarrow> inj_on H (M \<union> set (path_messages H cur p)) \<Longrightarrow> cur \<in> V"
proof (induction p arbitrary: cur)
  case (Cons s ss)
  let ?cur = "apply_step H cur s" and ?N = "set (path_messages H cur (s # ss))"
  have "foldl (apply_step H) ?cur ss \<in> V" "\<forall>s \<in> set ss. length (step_hash s) = 32"
    using Cons.prems(1,3) by simp_all
  moreover have "length ?cur = 32"
    using Cons.prems(2) H32 by (simp add: apply_step_def node_hash_def)
  moreover have "inj_on H (M \<union> set (path_messages H ?cur ss))"
    using Cons.prems(4) by (rule inj_on_subset) auto
  ultimately have V: "?cur \<in> V"
    using Cons.IH by blast
  show ?case
  proof (cases "step_carry s")
    case True
    with V show ?thesis
      by (simp add: apply_step_def)
  next
    case False
    define x where "x = (if step_left s then step_hash s else cur)"
    define y where "y = (if step_left s then cur else step_hash s)"
    have xy: "?cur = node_hash H x y" "node_message x y \<in> ?N" "length x = 32"
      "cur = x \<or> cur = y"
      using False Cons.prems(2,3) by (simp_all add: apply_step_def x_def y_def)
    have "node_hash H x y \<noteq> leaf_hash H l'" if "leaf_message l' \<in> M" for l'
      using Cons.prems(4) that xy(2) by (rule leaf_hash_not_node_hash)
    then have "node_value H V M (node_hash H x y)"
      using origin [OF V] xy(1) by auto
    then have "x \<in> V \<and> y \<in> V"
      using Cons.prems(4) xy(2) by (rule node_value_pre) (simp add: V32 xy(3))
    with xy(4) show ?thesis
      by auto
  qed
qed simp

lemma write_len_prefixed_eq:
  assumes "write_len_prefixed a @ r = write_len_prefixed b @ s"
    and "length a < 2 ^ 32" "length b < 2 ^ 32"
  shows "a = b \<and> r = s"
proof -
  have "put_uint32 (of_nat (length a)) = put_uint32 (of_nat (length b))" "a @ r = b @ s"
    using assms(1) by (simp_all add: write_len_prefixed_def)
  then have "(of_nat (length a) :: u32) = of_nat (length b)"
    by (metis append_Nil2 get_put_uint32)
  then have "unat (of_nat (length a) :: u32) = unat (of_nat (length b) :: u32)"
    by (rule arg_cong)
  then have "length a mod 2 ^ 32 = length b mod 2 ^ 32"
    by (simp add: unat_of_nat)
  then have "length a = length b"
    using assms(2,3) by simp
  with \<open>a @ r = b @ s\<close> show ?thesis
    by simp
qed

lemma leaf_message_inj:
  assumes "leaf_message l = leaf_message l'" "leaf_sized l" "leaf_sized l'"
  shows "l = l'"
proof -
  let ?w = write_len_prefixed
  have 1: "leaf_tool l = leaf_tool l'" and e1: "?w (bytes_of (leaf_kind l)) @ ?w (bytes_of (leaf_id l)) @ ?w (leaf_payload l)
      = ?w (bytes_of (leaf_kind l')) @ ?w (bytes_of (leaf_id l')) @ ?w (leaf_payload l')"
    using assms write_len_prefixed_eq [of "bytes_of (leaf_tool l)" _ "bytes_of (leaf_tool l')"]
    by (simp_all add: leaf_message_def leaf_sized_def)
  have 2: "leaf_kind l = leaf_kind l'" and e2: "?w (bytes_of (leaf_id l)) @ ?w (leaf_payload l)
      = ?w (bytes_of (leaf_id l')) @ ?w (leaf_payload l')"
    using write_len_prefixed_eq [OF e1] assms(2,3) by (simp_all add: leaf_sized_def)
  have 3: "leaf_id l = leaf_id l'" and e3: "?w (leaf_payload l) = ?w (leaf_payload l')"
    using write_len_prefixed_eq [OF e2] assms(2,3) by (simp_all add: leaf_sized_def)
  have "leaf_payload l = leaf_payload l'"
    using write_len_prefixed_eq [of "leaf_payload l" "[]" "leaf_payload l'" "[]"] e3 assms(2,3)
    by (simp add: leaf_sized_def)
  with 1 2 3 show ?thesis
    by (cases l; cases l') simp
qed

lemma verify_only_committed:
  assumes build: "build H ls = Inr t" and ver: "verify_proof H l p (tree_root t)"
    and H32: "\<And>m. length (H m) = 32" and p32: "\<forall>s \<in> set p. length (step_hash s) = 32"
    and inj: "inj_on H (set (build_messages H ls) \<union> set (verify_messages H l p))"
  shows "\<exists>l' \<in> set ls. leaf_message l' = leaf_message l"
  using build
proof (rule build_InrE)
  define cur where "cur = map (leaf_hash H) (sort_key leaf_key ls)"
  define V where "V = set (concat (build_levels H cur))"
  define M where "M = set (build_messages H ls)"
  assume ne: "ls \<noteq> []" and lv: "tree_levels t = build_levels H (map (leaf_hash H) (sort_key leaf_key ls))"
  have cur: "set cur = leaf_hash H ` set ls"
    by (simp add: cur_def)
  have msgs: "set (concat (map node_messages (build_levels H cur))) \<subseteq> M" "leaf_message ` set ls \<subseteq> M"
    by (auto simp: M_def build_messages_def cur_def Let_def)
  have origin: "(\<exists>l \<in> set ls. v = leaf_hash H l) \<or> node_value H V M v" if "v \<in> V" for v
    using tree_value_origin [of v H cur] that cur node_value_mono [OF _ subset_refl msgs(1)]
    by (auto simp: V_def)
  have origin': "(\<exists>l. v = leaf_hash H l \<and> leaf_message l \<in> M) \<or> node_value H V M v" if "v \<in> V" for v
    using origin [OF that] msgs(2) by blast
  have len: "length v = 32" if "v \<in> V" for v
    using origin [OF that] H32 by (auto simp: leaf_hash_def node_hash_def node_value_def)
  have "last (build_levels H cur) \<noteq> []"
    using last_build_levels_length [of cur H] ne by (auto simp: cur_def)
  then have "tree_root t \<in> V"
    using lv by (auto simp: tree_root_def V_def cur_def intro!: bexI [of _ "last (build_levels H cur)"])
  moreover have "foldl (apply_step H) (leaf_hash H l) p = tree_root t"
    using ver by (simp add: verify_proof_def)
  moreover have "inj_on H (M \<union> set (path_messages H (leaf_hash H l) p))"
    using inj by (rule inj_on_subset) (auto simp: M_def verify_messages_def)
  ultimately have "leaf_hash H l \<in> V"
    using origin' len H32 p32 by (intro path_backward [of H V M "leaf_hash H l" p])
      (simp_all add: leaf_hash_def)
  from origin [OF this] show ?thesis
  proof
    assume "\<exists>l' \<in> set ls. leaf_hash H l = leaf_hash H l'"
    then obtain l' where l': "l' \<in> set ls" "H (leaf_message l) = H (leaf_message l')"
      by (auto simp: leaf_hash_def)
    then have "leaf_message l = leaf_message l'"
      using inj_onD [OF inj, of "leaf_message l" "leaf_message l'"] msgs(2)
      by (auto simp: verify_messages_def M_def)
    with l' show ?thesis
      by auto
  next
    assume "node_value H V M (leaf_hash H l)"
    then obtain a b where "H (leaf_message l) = H (node_message a b)" "node_message a b \<in> M"
      by (auto simp: node_value_def leaf_hash_def node_hash_def)
    then have "leaf_message l = node_message a b"
      using inj_onD [OF inj, of "leaf_message l" "node_message a b"]
      by (auto simp: verify_messages_def M_def)
    then show ?thesis
      by simp
  qed
qed

section \<open>Properties\<close>

text \<open>C2: Completeness of the Merkle tree. For every leaf a tree was built from, \<^verbatim>\<open>ProofFor\<close> succeeds on the
  leaf's key and \<^verbatim>\<open>VerifyProof\<close> accepts its proof against the root.\<close>

theorem every_leaf_verifies:
  assumes "build H ls = Inr t" "l \<in> set ls"
  shows "\<exists>p. proof_for t (leaf_key l) = Inr p \<and> verify_proof H l p (tree_root t)"
  using assms by (rule proof_for_verifies)

definition sample_leaf :: "string \<Rightarrow> leaf" where
  "sample_leaf i = \<lparr>leaf_tool = ''pulse'', leaf_id = i, leaf_kind = kind_command, leaf_payload = [1, 2]\<rparr>"

definition sample_hash :: "bytes \<Rightarrow> hash" where
  "sample_hash m = replicate 31 0 @ [foldl (\<lambda>a b. 3 * a + b) 7 m]"

lemma every_leaf_verifies_witness:
  "\<exists>t p. build sample_hash (map sample_leaf [''b'', ''a'', ''c'']) = Inr t
     \<and> proof_for t (leaf_key (sample_leaf ''c'')) = Inr p
     \<and> verify_proof sample_hash (sample_leaf ''c'') p (tree_root t)"
proof -
  have "case build sample_hash (map sample_leaf [''b'', ''a'', ''c'']) of Inl _ \<Rightarrow> False | Inr _ \<Rightarrow> True"
    by code_simp
  then obtain t where "build sample_hash (map sample_leaf [''b'', ''a'', ''c'']) = Inr t"
    by (auto split: sum.splits)
  with every_leaf_verifies [OF this, of "sample_leaf ''c''"] show ?thesis
    by auto
qed

text \<open>C1: Soundness of the Merkle tree. If SHA-256 has no collision among the messages that building the
  tree and checking the proof hash, an accepted leaf is one the tree was built from.\<close>

theorem only_committed_leaves_verify:
  assumes "build H ls = Inr t" "verify_proof H l p (tree_root t)"
    and "\<And>m. length (H m) = 32" "\<forall>s \<in> set p. length (step_hash s) = 32"
    and "inj_on H (set (build_messages H ls) \<union> set (verify_messages H l p))"
    and "leaf_sized l" "\<forall>l' \<in> set ls. leaf_sized l'"
  shows "l \<in> set ls"
  using verify_only_committed [OF assms(1-5)] assms(6,7) leaf_message_inj by blast

lemma only_committed_leaves_verify_witness: "sample_leaf ''a'' \<in> set [sample_leaf ''a'']"
proof (rule only_committed_leaves_verify)
  let ?m = "\<lparr>tree_levels = build_levels sample_hash [leaf_hash sample_hash (sample_leaf ''a'')],
    tree_index = [leaf_key (sample_leaf ''a'') \<mapsto> 0]\<rparr>"
  show "build sample_hash [sample_leaf ''a''] = Inr ?m"
    by (simp add: build_def)
  show "verify_proof sample_hash (sample_leaf ''a'') [] (tree_root ?m)"
    by (simp add: verify_proof_def tree_root_def build_levels.simps)
  show "inj_on sample_hash (set (build_messages sample_hash [sample_leaf ''a''])
      \<union> set (verify_messages sample_hash (sample_leaf ''a'') []))"
    by (simp add: build_messages_def verify_messages_def build_levels.simps)
qed (simp_all add: sample_hash_def sample_leaf_def leaf_sized_def)

text \<open>The tree does not depend on the order in which the leaves were discovered: \<^verbatim>\<open>Build\<close> gives the
  same tree, or the same error, for every permutation of its input.\<close>

theorem build_order_independent:
  assumes "mset ls = mset ls'"
  shows "build H ls = build H ls'"
  using assms by (rule build_perm)

lemma build_order_independent_witness:
  "build sample_hash [sample_leaf ''b'', sample_leaf ''a''] = build sample_hash [sample_leaf ''a'', sample_leaf ''b'']"
  by (rule build_order_independent) (simp add: add_mset_commute)

end
