(* ===== verification/Go_Strings.thy ===== *)
theory Go_Strings
  imports Prelude
begin

text \<open>
  The functions of Go's packages \<^verbatim>\<open>strings\<close>, \<^verbatim>\<open>strconv\<close> and \<^verbatim>\<open>bufio\<close> the modelled code
  calls, on byte strings. White space is Go's \<^verbatim>\<open>unicode.IsSpace\<close> over UTF-8: the six ASCII
  spaces and the multi-byte encodings of U+0085, U+00A0, U+1680, U+2000 to U+200A, U+2028,
  U+2029, U+202F, U+205F and U+3000. Case mapping (\<^verbatim>\<open>ToLower\<close>, \<^verbatim>\<open>EqualFold\<close>) covers the
  ASCII letters; other runes are left alone.
\<close>

section \<open>Prefixes, suffixes, substrings\<close>

definition has_prefix :: "string \<Rightarrow> string \<Rightarrow> bool" where
  "has_prefix s p \<longleftrightarrow> take (length p) s = p"

definition has_suffix :: "string \<Rightarrow> string \<Rightarrow> bool" where
  "has_suffix s p \<longleftrightarrow> length p \<le> length s \<and> drop (length s - length p) s = p"

definition trim_prefix :: "string \<Rightarrow> string \<Rightarrow> string" where
  "trim_prefix s p = (if has_prefix s p then drop (length p) s else s)"

definition trim_suffix :: "string \<Rightarrow> string \<Rightarrow> string" where
  "trim_suffix s p = (if has_suffix s p then take (length s - length p) s else s)"

fun index_of :: "string \<Rightarrow> string \<Rightarrow> nat option" where
  "index_of [] p = (if p = [] then Some 0 else None)"
| "index_of (x # xs) p =
     (if has_prefix (x # xs) p then Some 0 else map_option Suc (index_of xs p))"

definition contains_str :: "string \<Rightarrow> string \<Rightarrow> bool" where
  "contains_str s p \<longleftrightarrow> index_of s p \<noteq> None"

definition contains_any :: "string \<Rightarrow> string \<Rightarrow> bool" where
  "contains_any s cs \<longleftrightarrow> list_ex (\<lambda>c. c \<in> set cs) s"

lemma has_prefix_iff: "has_prefix s p \<longleftrightarrow> (\<exists>r. s = p @ r)"
  by (metis append_eq_conv_conj append_take_drop_id has_prefix_def)

lemma has_prefix_append [simp]: "has_prefix (p @ r) p"
  by (simp add: has_prefix_def)

lemma has_prefix_Nil [simp]: "has_prefix s []"
  by (simp add: has_prefix_def)

lemma Nil_has_prefix [simp]: "has_prefix [] p \<longleftrightarrow> p = []"
  by (auto simp: has_prefix_def)

lemma Cons_has_prefix [simp]: "has_prefix (x # xs) (y # ys) \<longleftrightarrow> x = y \<and> has_prefix xs ys"
  by (auto simp: has_prefix_def)

lemma has_prefix_refl [simp]: "has_prefix s s"
  by (simp add: has_prefix_def)

lemma has_prefix_trans: "has_prefix s p \<Longrightarrow> has_prefix p q \<Longrightarrow> has_prefix s q"
  by (auto simp: has_prefix_iff)

lemma has_suffix_iff: "has_suffix s p \<longleftrightarrow> (\<exists>r. s = r @ p)"
proof
  assume "has_suffix s p"
  then have "s = take (length s - length p) s @ p"
    by (metis append_take_drop_id has_suffix_def)
  then show "\<exists>r. s = r @ p" ..
qed (auto simp: has_suffix_def)

lemma trim_suffix_append [simp]: "trim_suffix (r @ p) p = r"
  by (simp add: trim_suffix_def has_suffix_def)

lemma trim_prefix_append [simp]: "trim_prefix (p @ r) p = r"
  by (simp add: trim_prefix_def)

lemma index_of_Some: "index_of s p = Some i \<Longrightarrow> i \<le> length s \<and> has_prefix (drop i s) p"
  by (induction s arbitrary: i) (auto split: if_splits)

lemma index_of_least: "index_of s p = Some i \<Longrightarrow> j < i \<Longrightarrow> \<not> has_prefix (drop j s) p"
proof (induction s arbitrary: i j)
  case (Cons x xs)
  then show ?case
    by (cases j) (auto split: if_splits)
qed (auto split: if_splits)

lemma index_of_None: "index_of s p = None \<Longrightarrow> \<not> has_prefix (drop j s) p"
proof (induction s arbitrary: j)
  case (Cons x xs)
  then show ?case
    by (cases j) (auto split: if_splits)
qed (auto split: if_splits)

lemma contains_str_iff: "contains_str s p \<longleftrightarrow> (\<exists>a b. s = a @ p @ b)"
proof
  assume "contains_str s p"
  then obtain i where "has_prefix (drop i s) p"
    by (auto simp: contains_str_def dest: index_of_Some)
  then show "\<exists>a b. s = a @ p @ b"
    by (metis append_take_drop_id has_prefix_iff)
next
  assume "\<exists>a b. s = a @ p @ b"
  then obtain a b where "s = a @ p @ b"
    by blast
  then have "has_prefix (drop (length a) s) p"
    by simp
  then show "contains_str s p"
    unfolding contains_str_def using index_of_None by blast
qed

section \<open>Split, Cut, Join\<close>

fun split_on :: "char \<Rightarrow> string \<Rightarrow> string list" where
  "split_on c [] = [[]]"
| "split_on c (x # xs) =
     (if x = c then [] # split_on c xs
      else (case split_on c xs of [] \<Rightarrow> [[x]] | p # ps \<Rightarrow> (x # p) # ps))"

fun join :: "string \<Rightarrow> string list \<Rightarrow> string" where
  "join sep [] = []"
| "join sep [p] = p"
| "join sep (p # q # ps) = p @ sep @ join sep (q # ps)"

definition cut :: "char \<Rightarrow> string \<Rightarrow> string \<times> string \<times> bool" where
  "cut c s = (if c \<in> set s then (takeWhile (\<lambda>x. x \<noteq> c) s, tl (dropWhile (\<lambda>x. x \<noteq> c) s), True)
     else (s, [], False))"

lemma split_on_not_Nil [simp]: "split_on c s \<noteq> []"
  by (cases s) (auto split: list.splits)

lemma split_on_no_sep: "c \<notin> set s \<Longrightarrow> split_on c s = [s]"
  by (induction s) auto

lemma split_on_append: "c \<notin> set p \<Longrightarrow> split_on c (p @ c # r) = p # split_on c r"
  by (induction p) auto

lemma split_on_elem: "p \<in> set (split_on c s) \<Longrightarrow> c \<notin> set p \<and> set p \<subseteq> set s"
proof (induction s arbitrary: p)
  case (Cons x xs)
  then show ?case
    by (cases "split_on c xs") (fastforce split: if_splits)+
qed simp

lemma join_split_on [simp]: "join [c] (split_on c s) = s"
proof (induction s)
  case (Cons x xs)
  then show ?case
    by (cases "split_on c xs"; cases "tl (split_on c xs)") auto
qed simp

lemma split_on_join:
  "ps \<noteq> [] \<Longrightarrow> \<forall>p \<in> set ps. c \<notin> set p \<Longrightarrow> split_on c (join [c] ps) = ps"
  by (induction "[c]" ps rule: join.induct) (simp_all add: split_on_no_sep split_on_append)

lemma cut_append: "c \<notin> set k \<Longrightarrow> cut c (k @ c # v) = (k, v, True)"
proof -
  assume "c \<notin> set k"
  then have "takeWhile (\<lambda>x. x \<noteq> c) (k @ c # v) = k" "dropWhile (\<lambda>x. x \<noteq> c) (k @ c # v) = c # v"
    by (induction k) auto
  then show ?thesis
    by (simp add: cut_def)
qed

section \<open>White space\<close>

definition space_runes :: "string list" where
  "space_runes =
     [[CHR 0x09], [CHR 0x0A], [CHR 0x0B], [CHR 0x0C], [CHR 0x0D], [CHR 0x20],
      [CHR 0xC2, CHR 0x85], [CHR 0xC2, CHR 0xA0], [CHR 0xE1, CHR 0x9A, CHR 0x80],
      [CHR 0xE2, CHR 0x80, CHR 0x80], [CHR 0xE2, CHR 0x80, CHR 0x81],
      [CHR 0xE2, CHR 0x80, CHR 0x82], [CHR 0xE2, CHR 0x80, CHR 0x83],
      [CHR 0xE2, CHR 0x80, CHR 0x84], [CHR 0xE2, CHR 0x80, CHR 0x85],
      [CHR 0xE2, CHR 0x80, CHR 0x86], [CHR 0xE2, CHR 0x80, CHR 0x87],
      [CHR 0xE2, CHR 0x80, CHR 0x88], [CHR 0xE2, CHR 0x80, CHR 0x89],
      [CHR 0xE2, CHR 0x80, CHR 0x8A], [CHR 0xE2, CHR 0x80, CHR 0xA8],
      [CHR 0xE2, CHR 0x80, CHR 0xA9], [CHR 0xE2, CHR 0x80, CHR 0xAF],
      [CHR 0xE2, CHR 0x81, CHR 0x9F], [CHR 0xE3, CHR 0x80, CHR 0x80]]"

definition leading_rune :: "string list \<Rightarrow> string \<Rightarrow> nat" where
  "leading_rune ps s = (case find (has_prefix s) ps of None \<Rightarrow> 0 | Some p \<Rightarrow> length p)"

function trim_left_with :: "string list \<Rightarrow> string \<Rightarrow> string" where
  "trim_left_with ps s =
     (if s = [] \<or> leading_rune ps s = 0 then s
      else trim_left_with ps (drop (leading_rune ps s) s))"
  by pat_completeness auto
termination
  by (relation "measure (\<lambda>(ps, s). length s)") auto

declare trim_left_with.simps [simp del]

definition trim_left_space :: "string \<Rightarrow> string" where
  "trim_left_space s = trim_left_with space_runes s"

definition trim_right_space :: "string \<Rightarrow> string" where
  "trim_right_space s = rev (trim_left_with (map rev space_runes) (rev s))"

definition trim_space :: "string \<Rightarrow> string" where
  "trim_space s = trim_right_space (trim_left_space s)"

lemma leading_rune_antimono:
  "has_prefix s t \<Longrightarrow> leading_rune ps s = 0 \<Longrightarrow> [] \<notin> set ps \<Longrightarrow> leading_rune ps t = 0"
  by (auto simp: leading_rune_def find_None_iff find_Some_iff split: option.splits
      intro: has_prefix_trans dest: has_prefix_trans) (metis has_prefix_trans nth_mem)

lemma trim_left_with_fix [simp]: "leading_rune ps s = 0 \<Longrightarrow> trim_left_with ps s = s"
  by (simp add: trim_left_with.simps)

lemma trim_left_with_Nil [simp]: "trim_left_with ps [] = []"
  by (simp add: trim_left_with.simps)

lemma trim_left_with_suffix: "\<exists>r. s = r @ trim_left_with ps s"
proof (induction ps s rule: trim_left_with.induct)
  case (1 ps s)
  show ?case
  proof (cases "s = [] \<or> leading_rune ps s = 0")
    case False
    with 1 obtain r where "drop (leading_rune ps s) s = r @ trim_left_with ps s"
      by (auto simp: trim_left_with.simps [of ps s])
    then have "s = (take (leading_rune ps s) s @ r) @ trim_left_with ps s"
      by (metis append.assoc append_take_drop_id)
    then show ?thesis ..
  qed (auto simp: trim_left_with.simps [of ps s])
qed

lemma leading_rune_Nil: "[] \<notin> set ps \<Longrightarrow> leading_rune ps [] = 0"
  by (auto simp: leading_rune_def find_Some_iff split: option.splits)

lemma leading_rune_trim_left_with:
  "[] \<notin> set ps \<Longrightarrow> leading_rune ps (trim_left_with ps s) = 0"
proof (induction ps s rule: trim_left_with.induct)
  case (1 ps s)
  then show ?case
    by (cases "s = [] \<or> leading_rune ps s = 0")
      (auto simp: trim_left_with.simps [of ps s] leading_rune_Nil)
qed

lemma Nil_not_space_rune [simp]: "[] \<notin> set space_runes" "[] \<notin> set (map rev space_runes)"
  by (auto simp: space_runes_def)

lemma trim_right_space_prefix: "has_prefix s (trim_right_space s)"
proof -
  obtain r where "rev s = r @ trim_left_with (map rev space_runes) (rev s)"
    using trim_left_with_suffix by blast
  then have "s = trim_right_space s @ rev r"
    unfolding trim_right_space_def by (metis rev_append rev_rev_ident)
  then show ?thesis
    by (metis has_prefix_append)
qed

lemma leading_rune_trim_space: "leading_rune space_runes (trim_space s) = 0"
  unfolding trim_space_def
  by (rule leading_rune_antimono [OF trim_right_space_prefix])
    (simp_all add: trim_left_space_def leading_rune_trim_left_with)

lemma trailing_rune_trim_space: "leading_rune (map rev space_runes) (rev (trim_space s)) = 0"
  by (simp only: trim_space_def trim_right_space_def rev_rev_ident leading_rune_trim_left_with
      Nil_not_space_rune not_False_eq_True)

lemma trim_space_fixI:
  "leading_rune space_runes s = 0 \<Longrightarrow> leading_rune (map rev space_runes) (rev s) = 0
     \<Longrightarrow> trim_space s = s"
  by (simp add: trim_space_def trim_left_space_def trim_right_space_def)

text \<open>A string that begins and ends with a visible ASCII character is trimmed already.\<close>

definition visible :: "char \<Rightarrow> bool" where
  "visible c \<longleftrightarrow> 32 < (of_char c :: nat) \<and> (of_char c :: nat) < 128"

lemma space_runes_not_visible:
  "list_all (\<lambda>p. p \<noteq> [] \<and> \<not> visible (hd p) \<and> \<not> visible (last p)) space_runes"
  by (simp add: space_runes_def visible_def)

lemma leading_rune_0: "\<forall>p \<in> set ps. p \<noteq> [] \<and> \<not> visible (hd p) \<Longrightarrow> s = [] \<or> visible (hd s) \<Longrightarrow> leading_rune ps s = 0"
  by (auto simp: leading_rune_def has_prefix_iff find_Some_iff neq_Nil_conv split: option.splits)

lemma trim_space_visible:
  assumes "visible (hd s)" "visible (last s)"
  shows "trim_space s = s"
proof (rule trim_space_fixI)
  show "leading_rune space_runes s = 0"
    using assms(1) space_runes_not_visible unfolding list_all_iff by (intro leading_rune_0) blast+
  have "s = [] \<or> visible (hd (rev s))"
    using assms(2) by (cases "s = []") (simp_all only: hd_rev simp_thms)
  moreover have "\<forall>p \<in> set (map rev space_runes). p \<noteq> [] \<and> \<not> visible (hd p)"
    using space_runes_not_visible unfolding list_all_iff set_map by (simp only: ball_simps rev_is_Nil_conv hd_rev) blast
  ultimately show "leading_rune (map rev space_runes) (rev s) = 0"
    by (intro leading_rune_0) simp_all
qed

lemma trim_space_idem [simp]: "trim_space (trim_space s) = trim_space s"
  by (rule trim_space_fixI [OF leading_rune_trim_space trailing_rune_trim_space])

lemma trim_space_Nil [simp]: "trim_space [] = []"
  by (simp add: trim_space_def trim_left_space_def trim_right_space_def)

lemma set_trim_space: "set (trim_space s) \<subseteq> set s"
proof -
  obtain r where "s = r @ trim_left_space s"
    using trim_left_with_suffix unfolding trim_left_space_def by blast
  moreover obtain r' where "trim_left_space s = trim_space s @ r'"
    using trim_right_space_prefix unfolding has_prefix_iff trim_space_def by blast
  ultimately show ?thesis
    by (metis Un_iff set_append subsetI)
qed

text \<open>\<^verbatim>\<open>strings.Fields\<close>: the maximal runs of non-space bytes; the accumulator is the current
  run, reversed.\<close>

fun str_fields_from :: "string \<Rightarrow> string \<Rightarrow> string list" where
  "str_fields_from cur [] = (if cur = [] then [] else [rev cur])"
| "str_fields_from cur (x # xs) =
     (case leading_rune space_runes (x # xs) of
        0 \<Rightarrow> str_fields_from (x # cur) xs
      | Suc k \<Rightarrow> (if cur = [] then [] else [rev cur]) @ str_fields_from [] (drop k xs))"

definition str_fields :: "string \<Rightarrow> string list" where
  "str_fields s = str_fields_from [] s"

lemma fields_from_not_Nil: "[] \<notin> set (str_fields_from cur s)"
  by (induction cur s rule: str_fields_from.induct) (auto split: nat.splits)

section \<open>Case mapping, replacement, lines, numbers\<close>

definition lower_char :: "char \<Rightarrow> char" where
  "lower_char c = (if 65 \<le> (of_char c :: nat) \<and> (of_char c :: nat) \<le> 90
     then char_of (of_char c + 32 :: nat) else c)"

definition to_lower :: "string \<Rightarrow> string" where
  "to_lower s = map lower_char s"

definition upper_char :: "char \<Rightarrow> char" where
  "upper_char c = (if 97 \<le> (of_char c :: nat) \<and> (of_char c :: nat) \<le> 122
     then char_of (of_char c - 32 :: nat) else c)"

definition to_upper :: "string \<Rightarrow> string" where
  "to_upper s = map upper_char s"

definition equal_fold :: "string \<Rightarrow> string \<Rightarrow> bool" where
  "equal_fold s t \<longleftrightarrow> to_lower s = to_lower t"

text \<open>\<^verbatim>\<open>strings.ReplaceAll\<close> with a non-empty pattern, as the sources use it.\<close>

function replace_all :: "string \<Rightarrow> string \<Rightarrow> string \<Rightarrow> string" where
  "replace_all p n [] = []"
| "replace_all p n (x # xs) =
     (if p \<noteq> [] \<and> has_prefix (x # xs) p then n @ replace_all p n (drop (length p) (x # xs))
      else x # replace_all p n xs)"
  by pat_completeness auto
termination
  by (relation "measure (\<lambda>(p, n, s). length s)") auto

text \<open>
  \<^verbatim>\<open>bufio.Scanner\<close> over lines: the lines without their line feed and one trailing carriage
  return, the last one only if it is not empty. A line of 65536 bytes or more ends the scan
  with \<^verbatim>\<open>ErrTooLong\<close> (second component False).
\<close>

definition raw_lines :: "string \<Rightarrow> string list" where
  "raw_lines s = (let ls = split_on (CHR 0x0A) s in if last ls = [] then butlast ls else ls)"

definition drop_cr :: "string \<Rightarrow> string" where
  "drop_cr l = trim_suffix l [CHR 0x0D]"

definition max_scan_token_size :: nat where
  "max_scan_token_size = 65536"

definition scan_lines :: "string \<Rightarrow> string list \<times> bool" where
  "scan_lines s = (let raw = raw_lines s;
       ok = takeWhile (\<lambda>l. length l < max_scan_token_size) raw
     in (map drop_cr ok, length ok = length raw))"

definition is_digit :: "char \<Rightarrow> bool" where
  "is_digit c \<longleftrightarrow> 48 \<le> (of_char c :: nat) \<and> (of_char c :: nat) \<le> 57"

definition digit_val :: "char \<Rightarrow> int" where
  "digit_val c = of_char c - 48"

definition digits_val :: "string \<Rightarrow> int" where
  "digits_val s = foldl (\<lambda>n c. 10 * n + digit_val c) 0 s"

definition max_int64 :: int where
  "max_int64 = 9223372036854775807"

text \<open>\<^verbatim>\<open>strconv.Atoi\<close>: the value and whether there was no error; out of range it returns the
  nearest bound together with the error, on bad syntax 0.\<close>

definition clamp_int64 :: "int \<Rightarrow> int \<times> bool" where
  "clamp_int64 v = (if v > max_int64 then (max_int64, False)
     else if v < - max_int64 - 1 then (- max_int64 - 1, False) else (v, True))"

definition atoi :: "string \<Rightarrow> int \<times> bool" where
  "atoi s = (let neg = has_prefix s ''-'';
       ds = (if neg \<or> has_prefix s ''+'' then tl s else s)
     in if ds = [] \<or> \<not> list_all is_digit ds then (0, False)
        else clamp_int64 (if neg then - digits_val ds else digits_val ds))"

lemma clamp_int64_range: "- max_int64 - 1 \<le> fst (clamp_int64 v) \<and> fst (clamp_int64 v) \<le> max_int64"
  by (simp add: clamp_int64_def max_int64_def)

lemma atoi_range: "- max_int64 - 1 \<le> fst (atoi s) \<and> fst (atoi s) \<le> max_int64"
  using clamp_int64_range by (simp add: atoi_def Let_def) (simp add: max_int64_def)

end
