(* ===== verification/Commit_Encoding.thy ===== *)
theory Commit_Encoding
  imports Merkle Go_Strings
begin

text \<open>
  The payload encodings of \<^verbatim>\<open>commitment/encode.go\<close> and the interface between the commitment and
  its users. A Go map is an association list read through \<^const>\<open>map_of\<close>: \<^verbatim>\<open>m[k] = v\<close> conses a
  pair. Both encodings are length-prefixed, so they determine the map, respectively the set,
  they encode; that is what makes a committed leaf say something about the configuration it was
  made from. The locale \<open>committed_item\<close> states that contract of a \<^verbatim>\<open>CommitLeaf\<close> method once, and
  every configuration type of the repository interprets it.
\<close>

section \<open>Encodings\<close>

definition encode_kv :: "(string \<times> string) list \<Rightarrow> bytes" where
  "encode_kv kvs = concat (map (\<lambda>k. write_len_prefixed (bytes_of k)
      @ write_len_prefixed (bytes_of (the (map_of kvs k)))) (sort (remdups (map fst kvs))))"

text \<open>The deduplicating loop, which keeps first occurrences; \<open>seen\<close> is the Go map of that name.\<close>

fun dedup :: "string list \<Rightarrow> string list \<Rightarrow> string list" where
  "dedup seen [] = []"
| "dedup seen (x # xs) = (if x \<in> set seen then dedup seen xs else x # dedup (x # seen) xs)"

definition encode_string_set :: "string list \<Rightarrow> bytes" where
  "encode_string_set items =
     concat (map (\<lambda>s. write_len_prefixed (bytes_of s)) (sort (dedup [] items)))"

lemma set_dedup [simp]: "set (dedup seen xs) = set xs - set seen"
  by (induction seen xs rule: dedup.induct) auto

lemma distinct_dedup [simp]: "distinct (dedup seen xs)"
  by (induction seen xs rule: dedup.induct) auto

lemma sort_dedup: "sort (dedup [] xs) = sorted_list_of_set (set xs)"
  by (rule sorted_distinct_set_unique) simp_all

lemma sort_remdups: "sort (remdups xs) = sorted_list_of_set (set xs)"
  by (rule sorted_distinct_set_unique) simp_all

text \<open>A sequence of length-prefixed items is uniquely decodable.\<close>

lemma write_len_prefixed_not_Nil [simp]: "write_len_prefixed a \<noteq> []"
  by (simp add: write_len_prefixed_def put_uint32_def)

lemma concat_len_prefixed_inj:
  assumes "concat (map write_len_prefixed xs) = concat (map write_len_prefixed ys)"
    and "\<forall>x \<in> set xs. length x < 2 ^ 32" "\<forall>y \<in> set ys. length y < 2 ^ 32"
  shows "xs = ys"
  using assms
proof (induction xs arbitrary: ys)
  case Nil
  then show ?case
    by (cases ys) auto
next
  case (Cons x xs)
  show ?case
  proof (cases ys)
    case Nil
    with Cons.prems show ?thesis
      by simp
  next
    case (Cons y ys')
    have "x = y \<and> concat (map write_len_prefixed xs) = concat (map write_len_prefixed ys')"
      using Cons.prems unfolding Cons by (intro write_len_prefixed_eq) simp_all
    with Cons Cons.IH [of ys'] Cons.prems show ?thesis
      by simp
  qed
qed

definition strings_sized :: "string list \<Rightarrow> bool" where
  "strings_sized xs \<longleftrightarrow> list_all (\<lambda>s. length s < 2 ^ 32) xs"

definition kv_sized :: "(string \<times> string) list \<Rightarrow> bool" where
  "kv_sized kvs \<longleftrightarrow> strings_sized (map fst kvs) \<and> strings_sized (map snd kvs)"

lemma encode_string_set_eq_iff:
  assumes "strings_sized xs" "strings_sized ys"
  shows "encode_string_set xs = encode_string_set ys \<longleftrightarrow> set xs = set ys"
proof
  assume "encode_string_set xs = encode_string_set ys"
  then have "concat (map write_len_prefixed (map bytes_of (sort (dedup [] xs))))
      = concat (map write_len_prefixed (map bytes_of (sort (dedup [] ys))))"
    by (simp add: encode_string_set_def comp_def)
  then have "map bytes_of (sort (dedup [] xs)) = map bytes_of (sort (dedup [] ys))"
    using assms by (intro concat_len_prefixed_inj) (auto simp: strings_sized_def list_all_iff)
  then have "sort (dedup [] xs) = sort (dedup [] ys)"
    by (simp add: inj_map_eq_map inj_def)
  then show "set xs = set ys"
    by (metis set_dedup set_sort Diff_empty list.set(1))
qed (simp add: encode_string_set_def sort_dedup)

definition kv_items :: "(string \<rightharpoonup> string) \<Rightarrow> string list \<Rightarrow> bytes list" where
  "kv_items m ks = concat (map (\<lambda>k. [bytes_of k, bytes_of (the (m k))]) ks)"

lemma encode_kv_items:
  "encode_kv kvs = concat (map write_len_prefixed
     (kv_items (map_of kvs) (sorted_list_of_set (dom (map_of kvs)))))"
proof -
  have *: "concat (map (\<lambda>k. write_len_prefixed (bytes_of k) @ write_len_prefixed (bytes_of (the (m k)))) ks)
      = concat (map write_len_prefixed (kv_items m ks))" for m :: "string \<rightharpoonup> string" and ks
    by (induction ks) (simp_all add: kv_items_def)
  show ?thesis
    unfolding encode_kv_def sort_remdups * by (simp add: dom_map_of_conv_image_fst)
qed

lemma encode_kv_map_of: "map_of f = map_of g \<Longrightarrow> encode_kv f = encode_kv g"
  by (simp add: encode_kv_items)

lemma kv_items_inj:
  "kv_items m ks = kv_items n ls \<Longrightarrow> ks = ls \<and> (\<forall>k \<in> set ks. the (m k) = the (n k))"
proof (induction ks arbitrary: ls)
  case Nil
  then show ?case
    by (cases ls) (simp_all add: kv_items_def)
next
  case (Cons k ks)
  then show ?case
    by (cases ls) (auto simp: kv_items_def)
qed

lemma encode_kv_inj:
  assumes "encode_kv f = encode_kv g" "kv_sized f" "kv_sized g"
  shows "map_of f = map_of g"
proof -
  have sized: "\<forall>x \<in> set (kv_items (map_of h) (sorted_list_of_set (dom (map_of h)))). length x < 2 ^ 32"
    if "kv_sized h" for h
    using that by (fastforce simp: kv_items_def kv_sized_def strings_sized_def list_all_iff finite_dom_map_of
        dest: map_of_SomeD)
  have "kv_items (map_of f) (sorted_list_of_set (dom (map_of f)))
      = kv_items (map_of g) (sorted_list_of_set (dom (map_of g)))"
    by (rule concat_len_prefixed_inj) (use assms sized in \<open>simp_all add: encode_kv_items\<close>)
  then have ks: "sorted_list_of_set (dom (map_of f)) = sorted_list_of_set (dom (map_of g))"
    and eq: "\<forall>k \<in> set (sorted_list_of_set (dom (map_of f))). the (map_of f k) = the (map_of g k)"
    by (blast dest: kv_items_inj)+
  have "dom (map_of f) = dom (map_of g)"
    using arg_cong [OF ks, of set] by (simp add: finite_dom_map_of)
  with eq show ?thesis
    by (intro ext) (metis domIff finite_dom_map_of option.expand set_sorted_list_of_set)
qed

section \<open>The contract of a committed configuration item\<close>

text \<open>
  \<open>leaf_of\<close> is a \<^verbatim>\<open>CommitLeaf\<close> method, \<open>view\<close> the part of an item its leaf commits to, \<open>good\<close> the
  items whose fields fit their length prefixes, \<open>tools\<close> the tool names the items register under.
\<close>

locale committed_item =
  fixes leaf_of :: "'a \<Rightarrow> leaf" and view :: "'a \<Rightarrow> 'v" and good :: "'a \<Rightarrow> bool"
    and tools :: "string set"
  assumes leaf_of_inj: "good x \<Longrightarrow> good y \<Longrightarrow> leaf_of x = leaf_of y \<Longrightarrow> view x = view y"
    and leaf_of_sized: "good x \<Longrightarrow> leaf_sized (leaf_of x)"
    and leaf_of_tool: "good x \<Longrightarrow> leaf_tool (leaf_of x) \<in> tools"
begin

lemma verified_was_committed:
  assumes build: "build H (map leaf_of xs @ others) = Inr t"
    and ver: "verify_proof H (leaf_of x) p (tree_root t)"
    and good: "good x" "\<forall>y \<in> set xs. good y"
    and others: "\<forall>l \<in> set others. leaf_sized l \<and> leaf_tool l \<notin> tools"
    and H32: "\<And>m. length (H m) = 32" and p32: "\<forall>s \<in> set p. length (step_hash s) = 32"
    and inj: "inj_on H (set (build_messages H (map leaf_of xs @ others))
      \<union> set (verify_messages H (leaf_of x) p))"
  shows "\<exists>y \<in> set xs. view y = view x"
proof -
  obtain l where l: "l \<in> set (map leaf_of xs @ others)" "leaf_message l = leaf_message (leaf_of x)"
    using verify_only_committed [OF build ver H32 p32 inj] by blast
  have "leaf_sized l"
    using l(1) good(2) others leaf_of_sized by auto
  then have eq: "l = leaf_of x"
    using l(2) leaf_of_sized [OF good(1)] leaf_message_inj by blast
  then have "l \<notin> set others"
    using others leaf_of_tool [OF good(1)] by auto
  then obtain y where "y \<in> set xs" "leaf_of y = leaf_of x"
    using l(1) eq by auto
  with good show ?thesis
    using leaf_of_inj [of y x] by auto
qed

lemma committed_verifies:
  assumes "build H (map leaf_of xs @ others) = Inr t" "x \<in> set xs"
  shows "\<exists>p. proof_for t (leaf_key (leaf_of x)) = Inr p \<and> verify_proof H (leaf_of x) p (tree_root t)"
  using assms by (intro proof_for_verifies) auto

end

section \<open>Properties\<close>

text \<open>The key-value payload of a leaf determines the map it encodes, and nothing else does: two maps
  whose strings fit their length prefixes have the same \<^verbatim>\<open>EncodeKV\<close> bytes exactly if they are equal.\<close>

theorem encode_kv_determines:
  assumes "kv_sized f" "kv_sized g"
  shows "encode_kv f = encode_kv g \<longleftrightarrow> map_of f = map_of g"
  using assms encode_kv_inj encode_kv_map_of by blast

lemma encode_kv_determines_witness:
  "encode_kv [(''a'', ''1''), (''b'', ''2'')] \<noteq> encode_kv [(''a'', ''12''), (''b'', '''')]"
proof -
  have "map_of [(''a'', ''1''), (''b'', ''2'')] \<noteq> map_of [(''a'', ''12''), (''b'', '''')]"
    by (auto simp: fun_eq_iff intro: exI [of _ "''a''"])
  then show ?thesis
    using encode_kv_determines [of "[(''a'', ''1''), (''b'', ''2'')]" "[(''a'', ''12''), (''b'', '''')]"]
    by (simp add: kv_sized_def strings_sized_def)
qed

end
