(* ===== verification/Go_Path.thy ===== *)
theory Go_Path
  imports Go_Strings
begin

text \<open>
  The lexical part of Go's \<^verbatim>\<open>path/filepath\<close> on a Unix system: \<open>clean\<close>, \<open>path_join\<close>, \<open>path_base\<close>,
  \<open>path_dir\<close>, \<open>path_ext\<close>, \<open>is_abs\<close>. Cleaning is defined over the components of the path, which is what
  the library's byte loop computes. The laws proved here (a clean path is a fixed point, keeps
  its absoluteness and is never empty) are what the path checks of the sandbox rest on.
\<close>

definition is_abs :: "string \<Rightarrow> bool" where
  "is_abs p \<longleftrightarrow> has_prefix p ''/''"

fun clean_step :: "bool \<Rightarrow> string list \<Rightarrow> string \<Rightarrow> string list" where
  "clean_step rooted st c =
     (if c = [] \<or> c = ''.'' then st
      else if c = ''..'' then
        (case st of [] \<Rightarrow> if rooted then [] else [''..'']
         | t # ts \<Rightarrow> if t = ''..'' then ''..'' # st else ts)
      else c # st)"

definition clean_comps :: "bool \<Rightarrow> string list \<Rightarrow> string list" where
  "clean_comps rooted cs = rev (foldl (clean_step rooted) [] cs)"

definition clean :: "string \<Rightarrow> string" where
  "clean p =
     (if p = [] then ''.''
      else let out = join ''/'' (clean_comps (is_abs p) (split_on (CHR ''/'') p))
        in if is_abs p then CHR ''/'' # out else if out = [] then ''.'' else out)"

definition path_join :: "string list \<Rightarrow> string" where
  "path_join es = (let rest = dropWhile (\<lambda>e. e = []) es
     in if rest = [] then [] else clean (join ''/'' rest))"

definition strip_slashes :: "string \<Rightarrow> string" where
  "strip_slashes p = rev (dropWhile (\<lambda>c. c = CHR ''/'') (rev p))"

definition path_base :: "string \<Rightarrow> string" where
  "path_base p = (if p = [] then ''.''
     else let q = last (split_on (CHR ''/'') (strip_slashes p)) in if q = [] then ''/'' else q)"

definition path_dir :: "string \<Rightarrow> string" where
  "path_dir p = clean (rev (dropWhile (\<lambda>c. c \<noteq> CHR ''/'') (rev p)))"

definition path_ext :: "string \<Rightarrow> string" where
  "path_ext p = (let q = last (split_on (CHR ''/'') p)
     in if CHR ''.'' \<in> set q
        then CHR ''.'' # rev (takeWhile (\<lambda>c. c \<noteq> CHR ''.'') (rev q)) else [])"

section \<open>Normal component stacks\<close>

definition plain_comp :: "string \<Rightarrow> bool" where
  "plain_comp c \<longleftrightarrow> c \<noteq> [] \<and> c \<noteq> ''.'' \<and> CHR ''/'' \<notin> set c"

fun normal_stack :: "bool \<Rightarrow> string list \<Rightarrow> bool" where
  "normal_stack rooted [] = True"
| "normal_stack rooted (c # st) = (plain_comp c \<and> normal_stack rooted st \<and>
     (c = ''..'' \<longrightarrow> \<not> rooted \<and> (\<forall>d \<in> set st. d = ''..'')))"

lemma dots_plain [simp]: "plain_comp ''..''"
  by (simp add: plain_comp_def)

lemma normal_stack_clean_step:
  assumes "normal_stack rooted st" "CHR ''/'' \<notin> set c"
  shows "normal_stack rooted (clean_step rooted st c)"
proof -
  consider "c = [] \<or> c = ''.''" | "c = ''..''" | "c \<noteq> ''..''" "plain_comp c"
    using assms(2) by (auto simp: plain_comp_def)
  then show ?thesis
  proof cases
    case 2
    then show ?thesis
      using assms(1) by (cases st; cases rooted) simp_all
  next
    case 3
    then show ?thesis
      using assms(1) by (simp add: plain_comp_def)
  qed (use assms(1) in auto)
qed

lemma normal_stack_foldl:
  "normal_stack rooted st \<Longrightarrow> \<forall>c \<in> set cs. CHR ''/'' \<notin> set c
     \<Longrightarrow> normal_stack rooted (foldl (clean_step rooted) st cs)"
  by (induction cs arbitrary: st) (simp_all add: normal_stack_clean_step del: clean_step.simps)

lemma normal_stack_clean_comps:
  "normal_stack rooted (rev (clean_comps rooted (split_on (CHR ''/'') p)))"
  unfolding clean_comps_def
  by (simp add: normal_stack_foldl split_on_elem)

lemma plain_compD: "plain_comp c \<Longrightarrow> c \<noteq> [] \<and> c \<noteq> ''.'' \<and> CHR ''/'' \<notin> set c"
  by (simp add: plain_comp_def)

lemma clean_step_push:
  assumes "normal_stack rooted (c # st)"
  shows "clean_step rooted st c = c # st"
proof (cases "c = ''..''")
  case True
  then show ?thesis
    using assms by (cases st) simp_all
next
  case False
  then show ?thesis
    using assms by (simp add: plain_compD)
qed

lemma clean_comps_fix: "normal_stack rooted (rev cs) \<Longrightarrow> clean_comps rooted cs = cs"
proof -
  have "foldl (clean_step rooted) [] cs = rev cs" if "normal_stack rooted (rev cs)"
    using that
  proof (induction cs rule: rev_induct)
    case (snoc c cs)
    then show ?case
      by (simp add: clean_step_push del: clean_step.simps)
  qed simp
  then show "normal_stack rooted (rev cs) \<Longrightarrow> ?thesis"
    by (simp add: clean_comps_def)
qed

lemma normal_stack_plain: "normal_stack rooted st \<Longrightarrow> c \<in> set st \<Longrightarrow> plain_comp c"
  by (induction st) auto

lemma join_eq_Nil: "\<forall>c \<in> set cs. plain_comp c \<Longrightarrow> join sep cs = [] \<longleftrightarrow> cs = []"
  by (induction sep cs rule: join.induct) (auto simp: plain_comp_def)

lemma hd_join: "\<forall>c \<in> set cs. plain_comp c \<Longrightarrow> \<not> has_prefix (join ''/'' cs) ''/''"
proof (induction "''/''" cs rule: join.induct)
  case (2 p)
  then show ?case
    by (cases p) (auto simp: plain_comp_def)
next
  case (3 p q ps)
  then show ?case
    by (cases p) (auto simp: plain_comp_def)
qed simp

lemma split_on_join_plain:
  "cs \<noteq> [] \<Longrightarrow> \<forall>c \<in> set cs. plain_comp c \<Longrightarrow> split_on (CHR ''/'') (join ''/'' cs) = cs"
  by (rule split_on_join) (auto simp: plain_comp_def)

section \<open>Laws of clean\<close>

lemma clean_not_Nil [simp]: "clean p \<noteq> []"
  by (simp add: clean_def Let_def)

lemma clean_cases:
  obtains (dot) "clean p = ''.''" "\<not> is_abs p"
  | (rel) cs where "clean p = join ''/'' cs" "cs \<noteq> []" "normal_stack False (rev cs)" "\<not> is_abs p"
  | (abs) cs where "clean p = CHR ''/'' # join ''/'' cs" "normal_stack True (rev cs)" "is_abs p"
proof (cases "p = []")
  case True
  then show ?thesis
    using dot by (simp add: clean_def is_abs_def)
next
  case False
  let ?cs = "clean_comps (is_abs p) (split_on (CHR ''/'') p)"
  have n: "normal_stack (is_abs p) (rev ?cs)"
    by (rule normal_stack_clean_comps)
  then have "join ''/'' ?cs = [] \<longleftrightarrow> ?cs = []"
    by (intro join_eq_Nil) (auto dest: normal_stack_plain)
  with False n show ?thesis
    using dot rel [of ?cs] abs [of ?cs]
    by (cases "is_abs p"; cases "?cs = []") (simp_all add: clean_def Let_def)
qed

lemma is_abs_clean [simp]: "is_abs (clean p) \<longleftrightarrow> is_abs p"
proof (cases p rule: clean_cases)
  case (rel cs)
  then show ?thesis
    using hd_join [of cs] normal_stack_plain [of False "rev cs"] by (auto simp: is_abs_def)
qed (auto simp: is_abs_def)

lemma clean_rel_fix:
  assumes "cs \<noteq> []" "normal_stack False (rev cs)"
  shows "clean (join ''/'' cs) = join ''/'' cs"
proof -
  have p: "\<forall>c \<in> set cs. plain_comp c"
    using assms(2) normal_stack_plain by auto
  then have "join ''/'' cs \<noteq> []" "\<not> is_abs (join ''/'' cs)"
    using assms(1) by (simp_all add: join_eq_Nil hd_join is_abs_def)
  then show ?thesis
    using assms p by (simp add: clean_def Let_def split_on_join_plain clean_comps_fix)
qed

lemma clean_abs_fix:
  assumes "normal_stack True (rev cs)"
  shows "clean (CHR ''/'' # join ''/'' cs) = CHR ''/'' # join ''/'' cs"
proof -
  have p: "\<forall>c \<in> set cs. plain_comp c"
    using assms normal_stack_plain by auto
  have a: "is_abs (CHR ''/'' # join ''/'' cs)"
    by (simp add: is_abs_def)
  have "clean_comps True (split_on (CHR ''/'') (CHR ''/'' # join ''/'' cs)) = cs"
  proof (cases "cs = []")
    case True
    then show ?thesis
      by (simp add: clean_comps_def)
  next
    case False
    then have "clean_comps True ([] # cs) = clean_comps True cs"
      by (simp add: clean_comps_def)
    with False p assms show ?thesis
      by (simp add: split_on_join_plain clean_comps_fix)
  qed
  with a show ?thesis
    by (simp add: clean_def)
qed

lemma clean_idem [simp]: "clean (clean p) = clean p"
proof (cases p rule: clean_cases)
  case dot
  then show ?thesis
    by (simp add: clean_def is_abs_def clean_comps_def)
qed (simp_all add: clean_rel_fix clean_abs_fix)

lemma is_abs_path_join: "is_abs h \<Longrightarrow> is_abs (path_join (h # es))"
proof -
  assume a: "is_abs h"
  then obtain h' where h: "h = CHR ''/'' # h'"
    by (auto simp: is_abs_def has_prefix_iff)
  then have "is_abs (join ''/'' (h # es))"
    by (cases es) (simp_all add: is_abs_def)
  with h show ?thesis
    by (simp add: path_join_def)
qed

lemma clean_path_join [simp]: "path_join es \<noteq> [] \<Longrightarrow> clean (path_join es) = path_join es"
  by (auto simp: path_join_def Let_def split: if_splits)

end
