(* ===== verification/Commit_Anchor.thy ===== *)
theory Commit_Anchor
  imports Commit_Encoding Go_Path
begin

text \<open>
  The proof sidecar of \<^verbatim>\<open>commitment/proof_file.go\<close> and the anchor reader of
  \<^verbatim>\<open>commitment/anchor/anchor.go\<close>. The wire structs (\<open>proof_step_json\<close>, \<open>proof_file_json\<close>) are
  what \<^verbatim>\<open>encoding/json\<close> reads and writes; the model goes from them to the proofs and back, and
  the JSON text itself is left to the library. The file system, \<^verbatim>\<open>plutil\<close> and the JSON decoding
  of the plist are parameters of \<open>read_root\<close>.
\<close>

section \<open>Hexadecimal (\<^verbatim>\<open>encoding/hex\<close>)\<close>

definition hex_digit :: "nat \<Rightarrow> char" where
  "hex_digit n = (if n < 10 then char_of (48 + n) else char_of (87 + n))"

definition hex_val :: "char \<Rightarrow> nat option" where
  "hex_val c = (let n = of_char c :: nat in
     if 48 \<le> n \<and> n \<le> 57 then Some (n - 48)
     else if 97 \<le> n \<and> n \<le> 102 then Some (n - 87)
     else if 65 \<le> n \<and> n \<le> 70 then Some (n - 55)
     else None)"

definition hex_encode :: "bytes \<Rightarrow> string" where
  "hex_encode b = concat (map (\<lambda>w. [hex_digit (unat w div 16), hex_digit (unat w mod 16)]) b)"

fun hex_decode :: "string \<Rightarrow> bytes option" where
  "hex_decode [] = Some []"
| "hex_decode [x] = None"
| "hex_decode (x # y # s) =
     (case (hex_val x, hex_val y) of
        (Some a, Some b) \<Rightarrow> map_option (\<lambda>r. of_nat (16 * a + b) # r) (hex_decode s)
      | _ \<Rightarrow> None)"

lemma hex_val_digit [simp]: "n < 16 \<Longrightarrow> hex_val (hex_digit n) = Some n"
  by (auto simp: hex_val_def hex_digit_def Let_def)

lemma hex_decode_encode [simp]: "hex_decode (hex_encode b) = Some b"
  by (induction b) (simp_all add: hex_encode_def less_mult_imp_div_less)

lemma length_hex_encode [simp]: "length (hex_encode b) = 2 * length b"
  by (induction b) (simp_all add: hex_encode_def)

lemma hex_decode_length: "hex_decode s = Some b \<Longrightarrow> length s = 2 * length b"
  by (induction s arbitrary: b rule: hex_decode.induct) (auto split: option.splits)

lemma hex_val_less: "hex_val c = Some n \<Longrightarrow> n < 16"
  by (auto simp: hex_val_def Let_def split: if_splits)

text \<open>A string is in lower case when decoding and re-encoding gives it back.\<close>

definition lower_hex_char :: "char \<Rightarrow> bool" where
  "lower_hex_char c \<longleftrightarrow> is_digit c \<or> (97 \<le> (of_char c :: nat) \<and> (of_char c :: nat) \<le> 102)"

lemma hex_digit_val: "hex_val c = Some n \<Longrightarrow> lower_hex_char c \<Longrightarrow> hex_digit n = c"
  by (auto simp: hex_val_def hex_digit_def lower_hex_char_def is_digit_def Let_def split: if_splits)

lemma hex_encode_decode:
  "hex_decode s = Some b \<Longrightarrow> list_all lower_hex_char s \<Longrightarrow> hex_encode b = s"
proof (induction s arbitrary: b rule: hex_decode.induct)
  case (3 x y s)
  then obtain m n r where h: "hex_val x = Some m" "hex_val y = Some n" "hex_decode s = Some r"
    and b: "b = of_nat (16 * m + n) # r"
    by (auto split: option.splits)
  have "m < 16" "n < 16"
    using h hex_val_less by auto
  then have "unat (word_of_nat (16 * m + n) :: byte) = 16 * m + n"
    by (simp only: unat_of_nat) simp
  then have "hex_encode b = [hex_digit m, hex_digit n] @ hex_encode r"
    using \<open>n < 16\<close> by (simp add: b hex_encode_def)
  with 3 h show ?case
    by (simp add: hex_digit_val)
qed (simp_all add: hex_encode_def)

section \<open>Proof steps and proof files\<close>

datatype proof_error = InvalidHex string | WrongLength nat

definition zero_hash :: hash where
  "zero_hash = replicate 32 0"

record proof_step_json =
  pj_hash :: string
  pj_left :: bool
  pj_carry :: bool

definition marshal_step :: "proof_step \<Rightarrow> proof_step_json" where
  "marshal_step s = \<lparr>pj_hash = (if step_carry s then [] else hex_encode (step_hash s)),
     pj_left = step_left s, pj_carry = step_carry s\<rparr>"

definition unmarshal_step :: "proof_step_json \<Rightarrow> proof_error + proof_step" where
  "unmarshal_step w =
     (if pj_carry w then Inr \<lparr>step_hash = zero_hash, step_left = pj_left w, step_carry = True\<rparr>
      else case hex_decode (pj_hash w) of
        None \<Rightarrow> Inl (InvalidHex (pj_hash w))
      | Some b \<Rightarrow> if length b \<noteq> 32 then Inl (WrongLength (length b))
                  else Inr \<lparr>step_hash = b, step_left = pj_left w, step_carry = False\<rparr>)"

fun unmarshal_steps :: "proof_step_json list \<Rightarrow> proof_error + merkle_proof" where
  "unmarshal_steps [] = Inr []"
| "unmarshal_steps (w # ws) =
     (case unmarshal_step w of Inl e \<Rightarrow> Inl e
      | Inr s \<Rightarrow> (case unmarshal_steps ws of Inl e \<Rightarrow> Inl e | Inr ss \<Rightarrow> Inr (s # ss)))"

record proof_file =
  pf_root :: string
  pf_entries :: "(string \<times> merkle_proof) list"

record proof_file_json =
  pfj_root :: string
  pfj_entries :: "(string \<times> proof_step_json list) list"

definition root_hex :: "hash \<Rightarrow> string" where
  "root_hex r = hex_encode r"

definition parse_root_hex :: "string \<Rightarrow> proof_error + hash" where
  "parse_root_hex s = (case hex_decode s of None \<Rightarrow> Inl (InvalidHex s)
     | Some b \<Rightarrow> if length b \<noteq> 32 then Inl (WrongLength (length b)) else Inr b)"

definition encode_proof_file :: "hash \<Rightarrow> (string \<times> merkle_proof) list \<Rightarrow> proof_file_json" where
  "encode_proof_file r entries =
     \<lparr>pfj_root = root_hex r, pfj_entries = map (\<lambda>(k, p). (k, map marshal_step p)) entries\<rparr>"

fun decode_entries :: "(string \<times> proof_step_json list) list
    \<Rightarrow> proof_error + (string \<times> merkle_proof) list" where
  "decode_entries [] = Inr []"
| "decode_entries ((k, ws) # es) =
     (case unmarshal_steps ws of Inl e \<Rightarrow> Inl e
      | Inr p \<Rightarrow> (case decode_entries es of Inl e \<Rightarrow> Inl e | Inr ps \<Rightarrow> Inr ((k, p) # ps)))"

definition decode_proof_file :: "proof_file_json \<Rightarrow> proof_error + proof_file" where
  "decode_proof_file w = (case decode_entries (pfj_entries w) of Inl e \<Rightarrow> Inl e
     | Inr es \<Rightarrow> Inr \<lparr>pf_root = pfj_root w, pf_entries = es\<rparr>)"

text \<open>The steps a Go value of type \<^verbatim>\<open>ProofStep\<close> can be: the hash is a \<^verbatim>\<open>[32]byte\<close>, and a carry step
  built by \<^verbatim>\<open>ProofFor\<close> leaves it zero.\<close>

definition step_wf :: "proof_step \<Rightarrow> bool" where
  "step_wf s \<longleftrightarrow> length (step_hash s) = 32 \<and> (step_carry s \<longrightarrow> step_hash s = zero_hash)"

lemma unmarshal_marshal_step: "step_wf s \<Longrightarrow> unmarshal_step (marshal_step s) = Inr s"
  by (cases s) (simp add: unmarshal_step_def marshal_step_def step_wf_def)

lemma unmarshal_step_wf: "unmarshal_step w = Inr s \<Longrightarrow> step_wf s"
  by (auto simp: unmarshal_step_def step_wf_def zero_hash_def split: if_splits option.splits)

lemma unmarshal_marshal_steps: "list_all step_wf p \<Longrightarrow> unmarshal_steps (map marshal_step p) = Inr p"
  by (induction p) (simp_all add: unmarshal_marshal_step)

lemma unmarshal_steps_wf: "unmarshal_steps ws = Inr p \<Longrightarrow> list_all step_wf p"
  by (induction ws arbitrary: p) (auto split: sum.splits dest: unmarshal_step_wf)

lemma decode_entries_wf: "decode_entries es = Inr ps \<Longrightarrow> (k, p) \<in> set ps \<Longrightarrow> list_all step_wf p"
proof (induction es arbitrary: ps rule: decode_entries.induct)
  case (2 k' ws es)
  then obtain q qs where "unmarshal_steps ws = Inr q" "decode_entries es = Inr qs" "ps = (k', q) # qs"
    by (auto split: sum.splits)
  with 2 show ?case
    using unmarshal_steps_wf by auto
qed simp

lemma decode_entries_encode:
  "list_all (\<lambda>(k, p). list_all step_wf p) es
     \<Longrightarrow> decode_entries (map (\<lambda>(k, p). (k, map marshal_step p)) es) = Inr es"
  by (induction es) (auto simp: unmarshal_marshal_steps)

lemma decode_proof_file_wf:
  "decode_proof_file w = Inr pf \<Longrightarrow> map_of (pf_entries pf) k = Some p \<Longrightarrow> list_all step_wf p"
  by (auto simp: decode_proof_file_def split: sum.splits dest!: map_of_SomeD intro: decode_entries_wf)

lemma step_wf_length: "list_all step_wf p \<Longrightarrow> \<forall>s \<in> set p. length (step_hash s) = 32"
  by (simp add: list_all_iff step_wf_def)

lemma proof_steps_wf:
  "list_all (list_all (\<lambda>h. length h = 32)) lvs \<Longrightarrow> i < length (hd lvs)
    \<Longrightarrow> (\<And>j. Suc j < length lvs \<Longrightarrow> length (lvs ! Suc j) = (length (lvs ! j) + 1) div 2)
    \<Longrightarrow> list_all step_wf (proof_steps i lvs)"
proof (induction i lvs rule: proof_steps.induct)
  case (1 i lv lv' lvs)
  have "length lv' = (length lv + 1) div 2"
    using "1.prems"(3) [of 0] by simp
  then have "i div 2 < length (hd (lv' # lvs))"
    using "1.prems"(2) by simp
  moreover have "length ((lv' # lvs) ! Suc j) = (length ((lv' # lvs) ! j) + 1) div 2"
    if "Suc j < length (lv' # lvs)" for j
    using "1.prems"(3) [of "Suc j"] that by simp
  ultimately have "list_all step_wf (proof_steps (i div 2) (lv' # lvs))"
    using "1.prems"(1) by (intro "1.IH") auto
  moreover have "length (lv ! j) = 32" if "j < length lv" for j
    using "1.prems"(1) that by (simp add: list_all_iff)
  moreover have "step_wf (hd (proof_steps i (lv # lv' # lvs)))"
    using "1.prems"(2) calculation(2) by (simp add: step_wf_def zero_hash_def)
  ultimately show ?case
    by simp
qed simp_all

section \<open>The anchor\<close>

datatype stat_outcome = StatOk | StatNotExist | StatFailed

datatype anchor_error = AnchorNotInstalled | StatError string | ConvertError string
  | PlistError string | RootError string proof_error | NoRootArgument string

definition anchor_label :: string where
  "anchor_label = ''com.gkgoat.scripts.agentcommit-anchor''"

definition plist_path :: "string \<Rightarrow> string" where
  "plist_path home = path_join [home, ''Library'', ''LaunchAgents'', anchor_label @ ''.plist'']"

fun find_root_arg :: "string list \<Rightarrow> string option" where
  "find_root_arg (a # b # as) = (if a = ''-root'' then Some b else find_root_arg (b # as))"
| "find_root_arg _ = None"

text \<open>
  \<open>stat\<close> is \<^verbatim>\<open>os.Stat\<close>, \<open>convert\<close> the injected \<^verbatim>\<open>PlistToJSON\<close>, \<open>program_args\<close> the JSON decoding of
  the document into its \<^verbatim>\<open>ProgramArguments\<close>; \<open>path\<close> is the reader's \<^verbatim>\<open>Path\<close> field.
\<close>

definition read_root :: "string \<Rightarrow> (string \<Rightarrow> stat_outcome) \<Rightarrow> (string \<Rightarrow> bytes option)
    \<Rightarrow> (bytes \<Rightarrow> string list option) \<Rightarrow> string \<Rightarrow> anchor_error + hash" where
  "read_root home stat convert program_args path0 =
     (let path = (if path0 = [] then plist_path home else path0) in
      case stat path of
        StatNotExist \<Rightarrow> Inl AnchorNotInstalled
      | StatFailed \<Rightarrow> Inl (StatError path)
      | StatOk \<Rightarrow>
          (case convert path of None \<Rightarrow> Inl (ConvertError path)
           | Some data \<Rightarrow>
               (case program_args data of None \<Rightarrow> Inl (PlistError path)
                | Some args \<Rightarrow>
                    (case find_root_arg args of None \<Rightarrow> Inl (NoRootArgument path)
                     | Some h \<Rightarrow>
                         (case parse_root_hex h of Inl e \<Rightarrow> Inl (RootError path e)
                          | Inr r \<Rightarrow> Inr r)))))"

lemma parse_root_hex_length: "parse_root_hex s = Inr r \<Longrightarrow> length r = 32"
  by (auto simp: parse_root_hex_def split: option.splits if_splits)

lemma parse_root_hex_root_hex: "length r = 32 \<Longrightarrow> parse_root_hex (root_hex r) = Inr r"
  by (simp add: parse_root_hex_def root_hex_def)

lemma find_root_arg_SomeI: "''-root'' \<notin> set pre \<Longrightarrow> find_root_arg (pre @ ''-root'' # h # post) = Some h"
  by (induction pre rule: find_root_arg.induct) auto

lemma find_root_arg_SomeD:
  "find_root_arg args = Some h \<Longrightarrow> \<exists>pre post. args = pre @ ''-root'' # h # post \<and> ''-root'' \<notin> set pre"
proof (induction args rule: find_root_arg.induct)
  case (1 a b as)
  show ?case
  proof (cases "a = ''-root''")
    case True
    with "1.prems" have "a # b # as = [] @ ''-root'' # h # as"
      by simp
    then show ?thesis
      by (metis empty_iff empty_set)
  next
    case False
    with 1 obtain pre post where "b # as = pre @ ''-root'' # h # post" "''-root'' \<notin> set pre"
      by auto
    with False have "a # b # as = (a # pre) @ ''-root'' # h # post" "''-root'' \<notin> set (a # pre)"
      by auto
    then show ?thesis
      by blast
  qed
qed simp_all

end
