(* ===== verification/Protocol.thy ===== *)
theory Protocol
  imports Prelude
begin

text \<open>
  The guest/daemon exec protocol of \<^verbatim>\<open>sandbox/protocol/protocol.go\<close>. The encoder and the decoder
  are the Go structs, their methods are state transformers, and errors are sticky fields as in
  the source (a later error may replace an earlier one, none is ever cleared). The locale
  \<open>field_codec\<close> states what an encode/decode method pair owes the messages built from it; pairs
  and isomorphic images of codecs are codecs again, so each of the four messages is one
  interpretation, and decoding is exactly the inverse of encoding.
\<close>

section \<open>Constants, messages, errors\<close>

abbreviation magic :: string where "magic \<equiv> ''SBX1''"
abbreviation max_frame :: nat where "max_frame \<equiv> 1048576"
abbreviation max_string :: nat where "max_string \<equiv> 65536"
abbreviation max_vector :: nat where "max_vector \<equiv> 256"
abbreviation type_exec_req :: byte where "type_exec_req \<equiv> 1"
abbreviation type_exec_res :: byte where "type_exec_res \<equiv> 2"
abbreviation type_op_req :: byte where "type_op_req \<equiv> 3"
abbreviation type_op_res :: byte where "type_op_res \<equiv> 4"
abbreviation kind_run :: byte where "kind_run \<equiv> 1"
abbreviation kind_read :: byte where "kind_read \<equiv> 2"
abbreviation kind_confirm :: byte where "kind_confirm \<equiv> 3"

record exec_request =
  xr_path :: string
  xr_dir :: string
  xr_argv :: "string list"
  xr_env :: "string list"

record exec_result =
  xs_allowed :: bool
  xs_path :: string
  xs_argv :: "string list"
  xs_env :: "string list"
  xs_message :: string

record operation =
  op_id :: u64
  op_kind :: byte
  op_path :: string
  op_args :: "string list"
  op_dir :: string
  op_env :: "string list"
  op_prompt :: string
  op_capture :: bool

record operation_result =
  or_id :: u64
  or_ok :: bool
  or_exit_code :: u32
  or_data :: bytes
  or_message :: string

datatype protocol_error = ValueTooLong | VectorTooLong | Truncated | InvalidBoolean
  | TrailingData | FrameTooLarge | InvalidFrameLength u32 | MagicMismatch | EndOfStream

section \<open>Encoder and decoder\<close>

record encoder =
  e_b :: bytes
  e_err :: "protocol_error option"

record decoder =
  d_b :: bytes
  d_off :: nat
  d_err :: "protocol_error option"

definition enc_u8 :: "byte \<Rightarrow> encoder \<Rightarrow> encoder" where
  "enc_u8 v e = e\<lparr>e_b := e_b e @ [v]\<rparr>"

definition enc_bool :: "bool \<Rightarrow> encoder \<Rightarrow> encoder" where
  "enc_bool v e = (if v then enc_u8 1 e else enc_u8 0 e)"

definition enc_u32 :: "u32 \<Rightarrow> encoder \<Rightarrow> encoder" where
  "enc_u32 v e = e\<lparr>e_b := e_b e @ put_uint32 v\<rparr>"

definition enc_u64 :: "u64 \<Rightarrow> encoder \<Rightarrow> encoder" where
  "enc_u64 v e = e\<lparr>e_b := e_b e @ put_uint64 v\<rparr>"

definition enc_i32 :: "u32 \<Rightarrow> encoder \<Rightarrow> encoder" where
  "enc_i32 v e = enc_u32 v e"

definition enc_blob :: "bytes \<Rightarrow> encoder \<Rightarrow> encoder" where
  "enc_blob v e =
     (if length v > max_string then e\<lparr>e_err := Some ValueTooLong\<rparr>
      else let e' = enc_u32 (of_nat (length v)) e in e'\<lparr>e_b := e_b e' @ v\<rparr>)"

definition enc_str :: "string \<Rightarrow> encoder \<Rightarrow> encoder" where
  "enc_str v e = enc_blob (bytes_of v) e"

definition enc_vec :: "string list \<Rightarrow> encoder \<Rightarrow> encoder" where
  "enc_vec v e =
     (if length v > max_vector then e\<lparr>e_err := Some VectorTooLong\<rparr>
      else fold enc_str v (enc_u32 (of_nat (length v)) e))"

definition dec_take :: "nat \<Rightarrow> decoder \<Rightarrow> bytes \<times> decoder" where
  "dec_take n d =
     (if d_err d \<noteq> None \<or> length (d_b d) < d_off d + n then ([], d\<lparr>d_err := Some Truncated\<rparr>)
      else (take n (drop (d_off d) (d_b d)), d\<lparr>d_off := d_off d + n\<rparr>))"

definition dec_u8 :: "decoder \<Rightarrow> byte \<times> decoder" where
  "dec_u8 d = (let (v, d') = dec_take 1 d in (if length v = 0 then 0 else hd v, d'))"

definition dec_bool :: "decoder \<Rightarrow> bool \<times> decoder" where
  "dec_bool d = (let (v, d') = dec_u8 d
     in (v = 1, if v > 1 then d'\<lparr>d_err := Some InvalidBoolean\<rparr> else d'))"

definition dec_u32 :: "decoder \<Rightarrow> u32 \<times> decoder" where
  "dec_u32 d = (let (v, d') = dec_take 4 d in (if length v < 4 then 0 else get_uint32 v, d'))"

definition dec_u64 :: "decoder \<Rightarrow> u64 \<times> decoder" where
  "dec_u64 d = (let (v, d') = dec_take 8 d in (if length v < 8 then 0 else get_uint64 v, d'))"

definition dec_i32 :: "decoder \<Rightarrow> u32 \<times> decoder" where
  "dec_i32 d = dec_u32 d"

definition dec_blob :: "decoder \<Rightarrow> bytes \<times> decoder" where
  "dec_blob d = (let (n, d') = dec_u32 d in
     if unat n > max_string then ([], d'\<lparr>d_err := Some ValueTooLong\<rparr>) else dec_take (unat n) d')"

definition dec_str :: "decoder \<Rightarrow> string \<times> decoder" where
  "dec_str d = (let (v, d') = dec_blob d in (string_of v, d'))"

fun dec_strs :: "nat \<Rightarrow> decoder \<Rightarrow> string list \<times> decoder" where
  "dec_strs 0 d = ([], d)"
| "dec_strs (Suc n) d = (let (s, d1) = dec_str d; (ss, d2) = dec_strs n d1 in (s # ss, d2))"

definition dec_vec :: "decoder \<Rightarrow> string list \<times> decoder" where
  "dec_vec d = (let (n, d') = dec_u32 d in
     if unat n > max_vector then ([], d'\<lparr>d_err := Some VectorTooLong\<rparr>) else dec_strs (unat n) d')"

definition dec_done :: "decoder \<Rightarrow> protocol_error option" where
  "dec_done d = (if d_err d \<noteq> None then d_err d
     else if d_off d \<noteq> length (d_b d) then Some TrailingData else None)"

section \<open>Messages\<close>

definition enc_exec_request :: "exec_request \<Rightarrow> encoder \<Rightarrow> encoder" where
  "enc_exec_request v e = enc_vec (xr_env v) (enc_vec (xr_argv v)
     (enc_str (xr_dir v) (enc_str (xr_path v) e)))"

definition dec_exec_request :: "decoder \<Rightarrow> exec_request \<times> decoder" where
  "dec_exec_request d = (let (p, d1) = dec_str d; (dr, d2) = dec_str d1; (a, d3) = dec_vec d2;
       (en, d4) = dec_vec d3 in (\<lparr>xr_path = p, xr_dir = dr, xr_argv = a, xr_env = en\<rparr>, d4))"

definition enc_exec_result :: "exec_result \<Rightarrow> encoder \<Rightarrow> encoder" where
  "enc_exec_result v e = enc_str (xs_message v) (enc_vec (xs_env v) (enc_vec (xs_argv v)
     (enc_str (xs_path v) (enc_bool (xs_allowed v) e))))"

definition dec_exec_result :: "decoder \<Rightarrow> exec_result \<times> decoder" where
  "dec_exec_result d = (let (al, d1) = dec_bool d; (p, d2) = dec_str d1; (a, d3) = dec_vec d2;
       (en, d4) = dec_vec d3; (m, d5) = dec_str d4
     in (\<lparr>xs_allowed = al, xs_path = p, xs_argv = a, xs_env = en, xs_message = m\<rparr>, d5))"

definition enc_operation :: "operation \<Rightarrow> encoder \<Rightarrow> encoder" where
  "enc_operation v e = enc_bool (op_capture v) (enc_str (op_prompt v) (enc_vec (op_env v)
     (enc_str (op_dir v) (enc_vec (op_args v) (enc_str (op_path v) (enc_u8 (op_kind v)
     (enc_u64 (op_id v) e)))))))"

definition dec_operation :: "decoder \<Rightarrow> operation \<times> decoder" where
  "dec_operation d = (let (i, d1) = dec_u64 d; (k, d2) = dec_u8 d1; (p, d3) = dec_str d2;
       (a, d4) = dec_vec d3; (dr, d5) = dec_str d4; (en, d6) = dec_vec d5; (pr, d7) = dec_str d6;
       (c, d8) = dec_bool d7
     in (\<lparr>op_id = i, op_kind = k, op_path = p, op_args = a, op_dir = dr, op_env = en,
          op_prompt = pr, op_capture = c\<rparr>, d8))"

definition enc_operation_result :: "operation_result \<Rightarrow> encoder \<Rightarrow> encoder" where
  "enc_operation_result v e = enc_str (or_message v) (enc_blob (or_data v)
     (enc_i32 (or_exit_code v) (enc_bool (or_ok v) (enc_u64 (or_id v) e))))"

definition dec_operation_result :: "decoder \<Rightarrow> operation_result \<times> decoder" where
  "dec_operation_result d = (let (i, d1) = dec_u64 d; (k, d2) = dec_bool d1; (x, d3) = dec_i32 d2;
       (b, d4) = dec_blob d3; (m, d5) = dec_str d4
     in (\<lparr>or_id = i, or_ok = k, or_exit_code = x, or_data = b, or_message = m\<rparr>, d5))"

definition run_encoder :: "('a \<Rightarrow> encoder \<Rightarrow> encoder) \<Rightarrow> 'a \<Rightarrow> protocol_error + bytes" where
  "run_encoder enc v = (let e = enc v \<lparr>e_b = [], e_err = None\<rparr>
     in case e_err e of None \<Rightarrow> Inr (e_b e) | Some x \<Rightarrow> Inl x)"

definition run_decoder :: "(decoder \<Rightarrow> 'a \<times> decoder) \<Rightarrow> bytes \<Rightarrow> protocol_error + 'a" where
  "run_decoder dec b = (let (v, d) = dec \<lparr>d_b = b, d_off = 0, d_err = None\<rparr>
     in case dec_done d of None \<Rightarrow> Inr v | Some x \<Rightarrow> Inl x)"

definition encode_exec_request :: "exec_request \<Rightarrow> protocol_error + bytes" where
  "encode_exec_request v = run_encoder enc_exec_request v"

definition decode_exec_request :: "bytes \<Rightarrow> protocol_error + exec_request" where
  "decode_exec_request b = run_decoder dec_exec_request b"

definition encode_exec_result :: "exec_result \<Rightarrow> protocol_error + bytes" where
  "encode_exec_result v = run_encoder enc_exec_result v"

definition decode_exec_result :: "bytes \<Rightarrow> protocol_error + exec_result" where
  "decode_exec_result b = run_decoder dec_exec_result b"

definition encode_operation :: "operation \<Rightarrow> protocol_error + bytes" where
  "encode_operation v = run_encoder enc_operation v"

definition decode_operation :: "bytes \<Rightarrow> protocol_error + operation" where
  "decode_operation b = run_decoder dec_operation b"

definition encode_operation_result :: "operation_result \<Rightarrow> protocol_error + bytes" where
  "encode_operation_result v = run_encoder enc_operation_result v"

definition decode_operation_result :: "bytes \<Rightarrow> protocol_error + operation_result" where
  "decode_operation_result b = run_decoder dec_operation_result b"

section \<open>Frames\<close>

text \<open>The bytes written to, respectively left on, the stream.\<close>

definition write_frame :: "byte \<Rightarrow> bytes \<Rightarrow> protocol_error + bytes" where
  "write_frame typ payload =
     (if length payload + 1 > max_frame then Inl FrameTooLarge
      else Inr (put_uint32 (of_nat (length payload + 1)) @ [typ] @ payload))"

definition read_full :: "nat \<Rightarrow> bytes \<Rightarrow> protocol_error + bytes \<times> bytes" where
  "read_full n s = (if length s < n then Inl EndOfStream else Inr (take n s, drop n s))"

definition read_frame :: "bytes \<Rightarrow> protocol_error + byte \<times> bytes \<times> bytes" where
  "read_frame s =
     (case read_full 4 s of Inl e \<Rightarrow> Inl e
      | Inr (hdr, s1) \<Rightarrow>
          (let n = get_uint32 hdr in
           if n = 0 \<or> unat n > max_frame then Inl (InvalidFrameLength n)
           else case read_full (unat n) s1 of Inl e \<Rightarrow> Inl e
             | Inr (body, s2) \<Rightarrow> Inr (body ! 0, drop 1 body, s2)))"

definition read_magic :: "bytes \<Rightarrow> protocol_error + bytes" where
  "read_magic s = (case read_full 4 s of Inl e \<Rightarrow> Inl e
     | Inr (got, s') \<Rightarrow> if string_of got = magic then Inr s' else Inl MagicMismatch)"

definition write_magic :: bytes where
  "write_magic = bytes_of magic"

section \<open>The codec contract\<close>

abbreviation rest :: "decoder \<Rightarrow> bytes" where
  "rest d \<equiv> drop (d_off d) (d_b d)"

abbreviation advance :: "nat \<Rightarrow> decoder \<Rightarrow> decoder" where
  "advance n d \<equiv> d\<lparr>d_off := d_off d + n\<rparr>"

text \<open>
  \<open>good\<close> are the values the encoder accepts and \<open>wire\<close> their encoding. The decoder is exact: it
  consumes the wire form of a good value and nothing else, and keeps an earlier error.
\<close>

locale field_codec =
  fixes enc :: "'a \<Rightarrow> encoder \<Rightarrow> encoder" and dec :: "decoder \<Rightarrow> 'a \<times> decoder"
    and good :: "'a \<Rightarrow> bool" and wire :: "'a \<Rightarrow> bytes"
  assumes enc_good: "good v \<Longrightarrow> enc v e = e\<lparr>e_b := e_b e @ wire v\<rparr>"
    and enc_bad: "\<not> good v \<Longrightarrow> e_err (enc v e) \<noteq> None"
    and dec_wire: "good v \<Longrightarrow> d_err d = None \<Longrightarrow> rest d = wire v @ r
      \<Longrightarrow> dec d = (v, advance (length (wire v)) d)"
    and dec_exact: "dec d = (v, d') \<Longrightarrow> d_err d' = None
      \<Longrightarrow> d_err d = None \<and> good v \<and> d' = advance (length (wire v)) d \<and> (\<exists>r. rest d = wire v @ r)"
begin

lemma enc_sticky: "e_err e \<noteq> None \<Longrightarrow> e_err (enc v e) \<noteq> None"
  by (cases "good v") (simp_all add: enc_good enc_bad)

lemma run_encoder_good: "good v \<Longrightarrow> run_encoder enc v = Inr (wire v)"
  by (simp add: run_encoder_def enc_good)

lemma run_encoder_Inr_iff: "run_encoder enc v = Inr b \<longleftrightarrow> good v \<and> b = wire v"
  using enc_bad [of v "\<lparr>e_b = [], e_err = None\<rparr>"] run_encoder_good [of v]
  by (cases "good v") (auto simp: run_encoder_def Let_def split: option.splits)

lemma run_decoder_wire: "good v \<Longrightarrow> run_decoder dec (wire v) = Inr v"
  using dec_wire [of v "\<lparr>d_b = wire v, d_off = 0, d_err = None\<rparr>" "[]"]
  by (simp add: run_decoder_def dec_done_def)

lemma run_decoder_Inr_iff: "run_decoder dec b = Inr v \<longleftrightarrow> run_encoder enc v = Inr b"
proof
  assume r: "run_decoder dec b = Inr v"
  let ?d = "\<lparr>d_b = b, d_off = 0, d_err = None\<rparr>"
  obtain d' where d': "dec ?d = (v, d')" "dec_done d' = None"
    using r by (auto simp: run_decoder_def split: prod.splits option.splits)
  then have "d_err d' = None" and off: "d_off d' = length (d_b d')"
    by (auto simp: dec_done_def split: if_splits)
  then obtain r where "good v" "d' = advance (length (wire v)) ?d" "b = wire v @ r"
    using dec_exact [OF d'(1)] by auto
  with off show "run_encoder enc v = Inr b"
    by (simp add: run_encoder_good)
next
  assume "run_encoder enc v = Inr b"
  then show "run_decoder dec b = Inr v"
    by (simp add: run_encoder_Inr_iff run_decoder_wire)
qed

end

section \<open>The field codecs\<close>

lemma advance_advance [simp]: "advance m (advance n d) = advance (n + m) d"
  by simp

lemma dec_take_wire:
  "d_err d = None \<Longrightarrow> rest d = v @ r \<Longrightarrow> v \<noteq> [] \<or> d_off d \<le> length (d_b d)
     \<Longrightarrow> dec_take (length v) d = (v, advance (length v) d)"
proof -
  assume a: "d_err d = None" "rest d = v @ r" "v \<noteq> [] \<or> d_off d \<le> length (d_b d)"
  then have "length (d_b d) - d_off d = length v + length r"
    by (metis length_append length_drop)
  with a(3) have "\<not> length (d_b d) < d_off d + length v"
    by (cases v) auto
  with a show ?thesis
    by (simp add: dec_take_def)
qed

lemma dec_take_exact:
  "dec_take n d = (v, d') \<Longrightarrow> d_err d' = None
     \<Longrightarrow> d_err d = None \<and> length v = n \<and> d' = advance n d \<and> (\<exists>r. rest d = v @ r)"
  by (auto simp: dec_take_def split: if_splits) (metis append_take_drop_id)

interpretation u8: field_codec enc_u8 dec_u8 "\<lambda>_. True" "\<lambda>v. [v]"
proof
  fix v d r assume "d_err d = None" "rest d = [v] @ r"
  then show "dec_u8 d = (v, advance (length [v]) d)"
    using dec_take_wire [of d "[v]"] by (simp add: dec_u8_def)
next
  fix d v d' assume a: "dec_u8 d = (v, d')" "d_err d' = None"
  then obtain w where w: "dec_take 1 d = (w, d')" "v = (if length w = 0 then 0 else hd w)"
    by (auto simp: dec_u8_def split: prod.splits)
  with dec_take_exact [OF w(1) a(2)]
  show "d_err d = None \<and> True \<and> d' = advance (length [v]) d \<and> (\<exists>r. rest d = [v] @ r)"
    by (cases w) auto
qed (simp_all add: enc_u8_def)

interpretation bool: field_codec enc_bool dec_bool "\<lambda>_. True" "\<lambda>v. [if v then 1 else 0]"
proof
  fix v d r assume "d_err d = None" "rest d = [if v then 1 else 0] @ r"
  then show "dec_bool d = (v, advance (length [if v then 1 else 0 :: byte]) d)"
    using u8.dec_wire [of d "if v then 1 else 0"] by (simp add: dec_bool_def)
next
  fix d v d' assume a: "dec_bool d = (v, d')" "d_err d' = None"
  then obtain w d1 where w: "dec_u8 d = (w, d1)" "v = (w = 1)"
    "d' = (if w > 1 then d1\<lparr>d_err := Some InvalidBoolean\<rparr> else d1)"
    by (auto simp: dec_bool_def split: prod.splits)
  with a(2) have "w \<le> 1" "d' = d1"
    by (auto split: if_splits)
  then have "unat w = 0 \<or> unat w = 1"
    by (auto simp: word_le_nat_alt)
  then have "w = 0 \<or> w = 1"
    by (metis unsigned_0 unsigned_1 word_unat_eq_iff)
  then have "w = (if v then 1 else 0)"
    using w(2) by auto
  with u8.dec_exact [OF w(1)] a(2) \<open>d' = d1\<close>
  show "d_err d = None \<and> True \<and> d' = advance (length [if v then 1 else 0 :: byte]) d
      \<and> (\<exists>r. rest d = [if v then 1 else 0] @ r)"
    by auto
qed (simp_all add: enc_bool_def u8.enc_good)

lemma put_uint32_not_Nil [simp]: "put_uint32 v \<noteq> []"
  by (simp add: put_uint32_def)

lemma put_uint64_not_Nil [simp]: "put_uint64 v \<noteq> []"
  by (simp add: put_uint64_def)

interpretation u32: field_codec enc_u32 dec_u32 "\<lambda>_. True" put_uint32
proof
  fix v d r assume "d_err d = None" "rest d = put_uint32 v @ r"
  then show "dec_u32 d = (v, advance (length (put_uint32 v)) d)"
    using dec_take_wire [of d "put_uint32 v"] get_put_uint32 [of v "[]"] put_uint32_not_Nil
    by (simp add: dec_u32_def)
next
  fix d v d' assume a: "dec_u32 d = (v, d')" "d_err d' = None"
  then obtain w where w: "dec_take 4 d = (w, d')" "v = (if length w < 4 then 0 else get_uint32 w)"
    by (auto simp: dec_u32_def split: prod.splits)
  with dec_take_exact [OF w(1) a(2)]
  show "d_err d = None \<and> True \<and> d' = advance (length (put_uint32 v)) d \<and> (\<exists>r. rest d = put_uint32 v @ r)"
    by (auto simp: put_get_uint32)
qed (simp_all add: enc_u32_def)

interpretation u64: field_codec enc_u64 dec_u64 "\<lambda>_. True" put_uint64
proof
  fix v d r assume "d_err d = None" "rest d = put_uint64 v @ r"
  then show "dec_u64 d = (v, advance (length (put_uint64 v)) d)"
    using dec_take_wire [of d "put_uint64 v"] get_put_uint64 [of v "[]"] put_uint64_not_Nil
    by (simp add: dec_u64_def)
next
  fix d v d' assume a: "dec_u64 d = (v, d')" "d_err d' = None"
  then obtain w where w: "dec_take 8 d = (w, d')" "v = (if length w < 8 then 0 else get_uint64 w)"
    by (auto simp: dec_u64_def split: prod.splits)
  with dec_take_exact [OF w(1) a(2)]
  show "d_err d = None \<and> True \<and> d' = advance (length (put_uint64 v)) d \<and> (\<exists>r. rest d = put_uint64 v @ r)"
    by (auto simp: put_get_uint64)
qed (simp_all add: enc_u64_def)

lemma i32_eq: "enc_i32 = enc_u32" "dec_i32 = dec_u32"
  by (simp_all add: enc_i32_def dec_i32_def fun_eq_iff)

interpretation i32: field_codec enc_i32 dec_i32 "\<lambda>_. True" put_uint32
  unfolding i32_eq by (rule u32.field_codec_axioms)

definition wire_blob :: "bytes \<Rightarrow> bytes" where
  "wire_blob v = put_uint32 (of_nat (length v)) @ v"

definition good_blob :: "bytes \<Rightarrow> bool" where
  "good_blob v \<longleftrightarrow> length v \<le> max_string"

lemma rest_advance: "rest d = a @ b \<Longrightarrow> rest (advance (length a) d) = b"
proof -
  assume "rest d = a @ b"
  then have "drop (length a) (rest d) = b"
    by simp
  then show ?thesis
    by (simp add: add.commute)
qed

interpretation blob: field_codec enc_blob dec_blob good_blob wire_blob
proof
  fix v d r assume g: "good_blob v" and e: "d_err d = None" and w: "rest d = wire_blob v @ r"
  let ?n = "of_nat (length v) :: u32" and ?d = "advance 4 d"
  have n: "unat ?n = length v"
    using g by (simp add: good_blob_def unat_of_nat)
  have w': "rest d = put_uint32 ?n @ v @ r"
    using w by (simp add: wire_blob_def)
  have "d_off ?d \<le> length (d_b ?d)"
    using arg_cong [OF w', of length] by simp
  moreover have "rest ?d = v @ r"
    using rest_advance [OF w'] by simp
  ultimately have "dec_take (length v) ?d = (v, advance (length v) ?d)"
    using e by (intro dec_take_wire) simp_all
  with u32.dec_wire [OF TrueI e w'] g n
  show "dec_blob d = (v, advance (length (wire_blob v)) d)"
    by (simp add: dec_blob_def wire_blob_def good_blob_def add.assoc)
next
  fix d v d' assume a: "dec_blob d = (v, d')" "d_err d' = None"
  then obtain n d1 where n: "dec_u32 d = (n, d1)" "\<not> unat n > max_string" "dec_take (unat n) d1 = (v, d')"
    by (auto simp: dec_blob_def split: prod.splits if_splits)
  from dec_take_exact [OF n(3) a(2)] obtain r where
    t: "d_err d1 = None" "length v = unat n" "d' = advance (unat n) d1" "rest d1 = v @ r"
    by auto
  from u32.dec_exact [OF n(1) t(1)] obtain r' where
    u: "d_err d = None" "d1 = advance 4 d" "rest d = put_uint32 n @ r'"
    by auto
  have "rest d1 = r'"
    using rest_advance [OF u(3)] u(2) by simp
  then have "rest d = wire_blob v @ r"
    using u(3) t(2,4) by (simp add: wire_blob_def)
  then have "\<exists>r. rest d = wire_blob v @ r" ..
  moreover have "good_blob v" "d' = advance (length (wire_blob v)) d"
    using t(2,3) u(2) n(2) by (simp_all add: good_blob_def wire_blob_def add.assoc)
  ultimately show "d_err d = None \<and> good_blob v \<and> d' = advance (length (wire_blob v)) d
      \<and> (\<exists>r. rest d = wire_blob v @ r)"
    using u(1) by blast
qed (auto simp: enc_blob_def good_blob_def wire_blob_def u32.enc_good Let_def)

section \<open>Derived codecs: isomorphic images, pairs, vectors\<close>

definition enc_pair :: "('a \<Rightarrow> encoder \<Rightarrow> encoder) \<Rightarrow> ('b \<Rightarrow> encoder \<Rightarrow> encoder)
    \<Rightarrow> 'a \<times> 'b \<Rightarrow> encoder \<Rightarrow> encoder" where
  "enc_pair f g v e = g (snd v) (f (fst v) e)"

definition dec_pair :: "(decoder \<Rightarrow> 'a \<times> decoder) \<Rightarrow> (decoder \<Rightarrow> 'b \<times> decoder)
    \<Rightarrow> decoder \<Rightarrow> ('a \<times> 'b) \<times> decoder" where
  "dec_pair f g d = (let (a, d1) = f d; (b, d2) = g d1 in ((a, b), d2))"

definition good_pair :: "('a \<Rightarrow> bool) \<Rightarrow> ('b \<Rightarrow> bool) \<Rightarrow> 'a \<times> 'b \<Rightarrow> bool" where
  "good_pair p q v \<longleftrightarrow> p (fst v) \<and> q (snd v)"

definition wire_pair :: "('a \<Rightarrow> bytes) \<Rightarrow> ('b \<Rightarrow> bytes) \<Rightarrow> 'a \<times> 'b \<Rightarrow> bytes" where
  "wire_pair f g v = f (fst v) @ g (snd v)"

lemma field_codec_pair:
  assumes "field_codec e1 d1 g1 w1" "field_codec e2 d2 g2 w2"
  shows "field_codec (enc_pair e1 e2) (dec_pair d1 d2) (good_pair g1 g2) (wire_pair w1 w2)"
proof (rule field_codec.intro)
  note c1 = field_codec.enc_good [OF assms(1)] field_codec.enc_bad [OF assms(1)]
  note c2 = field_codec.enc_good [OF assms(2)] field_codec.enc_bad [OF assms(2)]
  fix v :: "'a \<times> 'b" and e d d' r
  show "good_pair g1 g2 v \<Longrightarrow> enc_pair e1 e2 v e = e\<lparr>e_b := e_b e @ wire_pair w1 w2 v\<rparr>"
    by (simp add: good_pair_def enc_pair_def wire_pair_def c1 c2)
  show "\<not> good_pair g1 g2 v \<Longrightarrow> e_err (enc_pair e1 e2 v e) \<noteq> None"
    using field_codec.enc_sticky [OF assms(2)] c1 c2 unfolding good_pair_def enc_pair_def by blast
  { assume g: "good_pair g1 g2 v" and n: "d_err d = None" and r: "rest d = wire_pair w1 w2 v @ r"
    have r1: "rest d = w1 (fst v) @ w2 (snd v) @ r"
      using r by (simp add: wire_pair_def)
    have "d1 d = (fst v, advance (length (w1 (fst v))) d)"
      using field_codec.dec_wire [OF assms(1) _ n r1] g by (simp add: good_pair_def)
    moreover have "d2 (advance (length (w1 (fst v))) d)
        = (snd v, advance (length (w2 (snd v))) (advance (length (w1 (fst v))) d))"
      using field_codec.dec_wire [OF assms(2) _ _ rest_advance [OF r1]] g n by (simp add: good_pair_def)
    ultimately show "dec_pair d1 d2 d = (v, advance (length (wire_pair w1 w2 v)) d)"
      by (simp add: dec_pair_def wire_pair_def add.assoc) }
  { assume "dec_pair d1 d2 d = (v, d')" and n: "d_err d' = None"
    then obtain dm where x1: "d1 d = (fst v, dm)" and x2: "d2 dm = (snd v, d')"
      by (auto simp: dec_pair_def split: prod.splits)
    from field_codec.dec_exact [OF assms(2) x2 n] obtain r2 where
      y2: "d_err dm = None" "g2 (snd v)" "d' = advance (length (w2 (snd v))) dm"
        "rest dm = w2 (snd v) @ r2"
      by blast
    from field_codec.dec_exact [OF assms(1) x1 y2(1)] obtain r1 where
      y1: "d_err d = None" "g1 (fst v)" "dm = advance (length (w1 (fst v))) d"
        "rest d = w1 (fst v) @ r1"
      by blast
    have "rest dm = r1"
      using rest_advance [OF y1(4)] y1(3) by simp
    then have "rest d = wire_pair w1 w2 v @ r2"
      using y1(4) y2(4) by (simp add: wire_pair_def)
    then have "\<exists>r. rest d = wire_pair w1 w2 v @ r" ..
    moreover have "d' = advance (length (wire_pair w1 w2 v)) d"
      using y1(3) y2(3) by (simp add: wire_pair_def add.assoc)
    ultimately show "d_err d = None \<and> good_pair g1 g2 v \<and> d' = advance (length (wire_pair w1 w2 v)) d
        \<and> (\<exists>r. rest d = wire_pair w1 w2 v @ r)"
      using y1(1,2) y2(2) by (simp add: good_pair_def) }
qed

lemma field_codec_iso:
  assumes c: "field_codec e d g w" and inv: "\<And>x. f (h x) = x" "\<And>y. h (f y) = y"
    and eq: "e' = (\<lambda>v. e (f v))" "d' = (\<lambda>s. let (v, s') = d s in (h v, s'))"
  shows "field_codec e' d' (\<lambda>v. g (f v)) (\<lambda>v. w (f v))"
proof (rule field_codec.intro)
  fix v s s' x r
  show "g (f v) \<Longrightarrow> e' v x = x\<lparr>e_b := e_b x @ w (f v)\<rparr>"
    by (simp add: eq field_codec.enc_good [OF c])
  show "\<not> g (f v) \<Longrightarrow> e_err (e' v x) \<noteq> None"
    using field_codec.enc_bad [OF c] by (simp add: eq)
  show "g (f v) \<Longrightarrow> d_err s = None \<Longrightarrow> rest s = w (f v) @ r \<Longrightarrow> d' s = (v, advance (length (w (f v))) s)"
    using field_codec.dec_wire [OF c] by (simp add: eq inv)
  assume "d' s = (v, s')" "d_err s' = None"
  moreover then have "d s = (f v, s')"
    by (auto simp: eq inv split: prod.splits)
  ultimately show "d_err s = None \<and> g (f v) \<and> s' = advance (length (w (f v))) s
      \<and> (\<exists>r. rest s = w (f v) @ r)"
    using field_codec.dec_exact [OF c] by blast
qed

definition good_str :: "string \<Rightarrow> bool" where
  "good_str s \<longleftrightarrow> length s \<le> max_string"

definition wire_str :: "string \<Rightarrow> bytes" where
  "wire_str s = wire_blob (bytes_of s)"

interpretation str: field_codec enc_str dec_str good_str wire_str
proof -
  have eq: "good_str = (\<lambda>v. good_blob (bytes_of v))" "wire_str = (\<lambda>v. wire_blob (bytes_of v))"
    by (simp_all add: good_str_def wire_str_def good_blob_def fun_eq_iff)
  show "field_codec enc_str dec_str good_str wire_str"
    unfolding eq
    by (rule field_codec_iso [OF blob.field_codec_axioms, where h = string_of])
      (simp_all add: enc_str_def dec_str_def fun_eq_iff)
qed

definition good_vec :: "string list \<Rightarrow> bool" where
  "good_vec v \<longleftrightarrow> length v \<le> max_vector \<and> list_all good_str v"

definition wire_vec :: "string list \<Rightarrow> bytes" where
  "wire_vec v = put_uint32 (of_nat (length v)) @ concat (map wire_str v)"

lemma enc_strs_good: "list_all good_str v \<Longrightarrow> fold enc_str v e = e\<lparr>e_b := e_b e @ concat (map wire_str v)\<rparr>"
  by (induction v arbitrary: e) (simp_all add: str.enc_good)

lemma enc_strs_sticky: "e_err e \<noteq> None \<Longrightarrow> e_err (fold enc_str v e) \<noteq> None"
proof (induction v arbitrary: e)
  case (Cons s v)
  then show ?case
    using str.enc_sticky [of e s] by simp
qed simp

lemma enc_strs_bad: "\<not> list_all good_str v \<Longrightarrow> e_err (fold enc_str v e) \<noteq> None"
proof (induction v arbitrary: e)
  case (Cons s v)
  then show ?case
    using str.enc_bad [of s e] enc_strs_sticky [of "enc_str s e" v]
    by (cases "good_str s") simp_all
qed simp

lemma dec_strs_wire:
  "list_all good_str v \<Longrightarrow> d_err d = None \<Longrightarrow> rest d = concat (map wire_str v) @ r
     \<Longrightarrow> dec_strs (length v) d = (v, advance (length (concat (map wire_str v))) d)"
proof (induction v arbitrary: d)
  case (Cons s v)
  have r: "rest d = wire_str s @ concat (map wire_str v) @ r"
    using Cons.prems(3) by simp
  have "dec_str d = (s, advance (length (wire_str s)) d)"
    using Cons.prems str.dec_wire [OF _ _ r] by simp
  moreover have "dec_strs (length v) (advance (length (wire_str s)) d)
      = (v, advance (length (concat (map wire_str v))) (advance (length (wire_str s)) d))"
    using Cons.prems rest_advance [OF r] by (intro Cons.IH) simp_all
  ultimately show ?case
    by (simp add: add.assoc)
qed simp

lemma dec_strs_exact:
  "dec_strs n d = (v, d') \<Longrightarrow> d_err d' = None \<Longrightarrow> d_err d = None \<and> length v = n
     \<and> list_all good_str v \<and> d' = advance (length (concat (map wire_str v))) d
     \<and> (\<exists>r. rest d = concat (map wire_str v) @ r)"
proof (induction n arbitrary: d v)
  case (Suc n)
  then obtain s ss d1 where x: "dec_str d = (s, d1)" "dec_strs n d1 = (ss, d')" "v = s # ss"
    by (auto split: prod.splits)
  from Suc.IH [OF x(2) Suc.prems(2)] obtain r where
    y: "d_err d1 = None" "length ss = n" "list_all good_str ss"
      "d' = advance (length (concat (map wire_str ss))) d1" "rest d1 = concat (map wire_str ss) @ r"
    by blast
  from str.dec_exact [OF x(1) y(1)] obtain r' where
    z: "d_err d = None" "good_str s" "d1 = advance (length (wire_str s)) d" "rest d = wire_str s @ r'"
    by blast
  have "rest d1 = r'"
    using rest_advance [OF z(4)] z(3) by simp
  then have "rest d = concat (map wire_str v) @ r"
    using z(4) y(5) x(3) by simp
  then have "\<exists>r. rest d = concat (map wire_str v) @ r" ..
  moreover have "d' = advance (length (concat (map wire_str v))) d"
    using y(4) z(3) x(3) by (simp add: add.assoc)
  ultimately show ?case
    using y(2,3) z(1,2) x(3) by simp
qed simp

interpretation vec: field_codec enc_vec dec_vec good_vec wire_vec
proof
  fix v d r assume g: "good_vec v" and e: "d_err d = None" and w: "rest d = wire_vec v @ r"
  let ?n = "of_nat (length v) :: u32"
  have n: "unat ?n = length v"
    using g by (simp add: good_vec_def unat_of_nat)
  have w': "rest d = put_uint32 ?n @ concat (map wire_str v) @ r"
    using w by (simp add: wire_vec_def)
  have "dec_strs (length v) (advance 4 d) = (v, advance (length (concat (map wire_str v))) (advance 4 d))"
    using rest_advance [OF w'] g e by (intro dec_strs_wire) (simp_all add: good_vec_def)
  with u32.dec_wire [OF TrueI e w'] g n
  show "dec_vec d = (v, advance (length (wire_vec v)) d)"
    by (simp add: dec_vec_def wire_vec_def good_vec_def add.assoc)
next
  fix d v d' assume a: "dec_vec d = (v, d')" "d_err d' = None"
  then obtain n d1 where n: "dec_u32 d = (n, d1)" "\<not> unat n > max_vector" "dec_strs (unat n) d1 = (v, d')"
    by (auto simp: dec_vec_def split: prod.splits if_splits)
  from dec_strs_exact [OF n(3) a(2)] obtain r where
    t: "d_err d1 = None" "length v = unat n" "list_all good_str v"
      "d' = advance (length (concat (map wire_str v))) d1" "rest d1 = concat (map wire_str v) @ r"
    by blast
  from u32.dec_exact [OF n(1) t(1)] obtain r' where
    u: "d_err d = None" "d1 = advance 4 d" "rest d = put_uint32 n @ r'"
    by auto
  have "rest d1 = r'"
    using rest_advance [OF u(3)] u(2) by simp
  then have "rest d = wire_vec v @ r"
    using u(3) t(2,5) by (simp add: wire_vec_def)
  then have "\<exists>r. rest d = wire_vec v @ r" ..
  moreover have "good_vec v" "d' = advance (length (wire_vec v)) d"
    using t(2-4) u(2) n(2) by (simp_all add: good_vec_def wire_vec_def add.assoc)
  ultimately show "d_err d = None \<and> good_vec v \<and> d' = advance (length (wire_vec v)) d
      \<and> (\<exists>r. rest d = wire_vec v @ r)"
    using u(1) by blast
next
  fix v e
  show "good_vec v \<Longrightarrow> enc_vec v e = e\<lparr>e_b := e_b e @ wire_vec v\<rparr>"
    by (simp add: enc_vec_def good_vec_def wire_vec_def enc_strs_good u32.enc_good)
  show "\<not> good_vec v \<Longrightarrow> e_err (enc_vec v e) \<noteq> None"
    using enc_strs_bad [of v "enc_u32 (of_nat (length v)) e"] by (auto simp: enc_vec_def good_vec_def)
qed

section \<open>The four messages\<close>

abbreviation "tuple_exec_request v \<equiv> (xr_path v, xr_dir v, xr_argv v, xr_env v)"

interpretation exec_request: field_codec enc_exec_request dec_exec_request
  "\<lambda>v. good_pair good_str (good_pair good_str (good_pair good_vec good_vec)) (tuple_exec_request v)"
  "\<lambda>v. wire_pair wire_str (wire_pair wire_str (wire_pair wire_vec wire_vec)) (tuple_exec_request v)"
  by (rule field_codec_iso [where h = "\<lambda>(p, dr, a, e). \<lparr>xr_path = p, xr_dir = dr, xr_argv = a, xr_env = e\<rparr>",
        OF field_codec_pair [OF str.field_codec_axioms field_codec_pair [OF str.field_codec_axioms
          field_codec_pair [OF vec.field_codec_axioms vec.field_codec_axioms]]]])
    (auto simp: enc_exec_request_def dec_exec_request_def enc_pair_def dec_pair_def fun_eq_iff
      split: prod.splits)

abbreviation "tuple_exec_result v \<equiv> (xs_allowed v, xs_path v, xs_argv v, xs_env v, xs_message v)"

interpretation exec_result: field_codec enc_exec_result dec_exec_result
  "\<lambda>v. good_pair (\<lambda>_. True) (good_pair good_str (good_pair good_vec (good_pair good_vec good_str)))
     (tuple_exec_result v)"
  "\<lambda>v. wire_pair (\<lambda>b. [if b then 1 else 0]) (wire_pair wire_str (wire_pair wire_vec
     (wire_pair wire_vec wire_str))) (tuple_exec_result v)"
  by (rule field_codec_iso [where h = "\<lambda>(al, p, a, e, m). \<lparr>xs_allowed = al, xs_path = p,
          xs_argv = a, xs_env = e, xs_message = m\<rparr>",
        OF field_codec_pair [OF bool.field_codec_axioms field_codec_pair [OF str.field_codec_axioms
          field_codec_pair [OF vec.field_codec_axioms field_codec_pair [OF vec.field_codec_axioms
          str.field_codec_axioms]]]]])
    (auto simp: enc_exec_result_def dec_exec_result_def enc_pair_def dec_pair_def fun_eq_iff
      split: prod.splits)

abbreviation "tuple_operation v \<equiv> (op_id v, op_kind v, op_path v, op_args v, op_dir v, op_env v,
  op_prompt v, op_capture v)"

interpretation operation: field_codec enc_operation dec_operation
  "\<lambda>v. good_pair (\<lambda>_. True) (good_pair (\<lambda>_. True) (good_pair good_str (good_pair good_vec
     (good_pair good_str (good_pair good_vec (good_pair good_str (\<lambda>_. True))))))) (tuple_operation v)"
  "\<lambda>v. wire_pair put_uint64 (wire_pair (\<lambda>b. [b]) (wire_pair wire_str (wire_pair wire_vec
     (wire_pair wire_str (wire_pair wire_vec (wire_pair wire_str (\<lambda>b. [if b then 1 else 0])))))))
     (tuple_operation v)"
  by (rule field_codec_iso [where h = "\<lambda>(i, k, p, a, dr, e, pr, c). \<lparr>op_id = i, op_kind = k,
          op_path = p, op_args = a, op_dir = dr, op_env = e, op_prompt = pr, op_capture = c\<rparr>",
        OF field_codec_pair [OF u64.field_codec_axioms field_codec_pair [OF u8.field_codec_axioms
          field_codec_pair [OF str.field_codec_axioms field_codec_pair [OF vec.field_codec_axioms
          field_codec_pair [OF str.field_codec_axioms field_codec_pair [OF vec.field_codec_axioms
          field_codec_pair [OF str.field_codec_axioms bool.field_codec_axioms]]]]]]]])
    (auto simp: enc_operation_def dec_operation_def enc_pair_def dec_pair_def fun_eq_iff
      split: prod.splits)

abbreviation "tuple_operation_result v \<equiv> (or_id v, or_ok v, or_exit_code v, or_data v, or_message v)"

interpretation operation_result: field_codec enc_operation_result dec_operation_result
  "\<lambda>v. good_pair (\<lambda>_. True) (good_pair (\<lambda>_. True) (good_pair (\<lambda>_. True) (good_pair good_blob good_str)))
     (tuple_operation_result v)"
  "\<lambda>v. wire_pair put_uint64 (wire_pair (\<lambda>b. [if b then 1 else 0]) (wire_pair put_uint32
     (wire_pair wire_blob wire_str))) (tuple_operation_result v)"
  by (rule field_codec_iso [where h = "\<lambda>(i, k, x, b, m). \<lparr>or_id = i, or_ok = k, or_exit_code = x,
          or_data = b, or_message = m\<rparr>",
        OF field_codec_pair [OF u64.field_codec_axioms field_codec_pair [OF bool.field_codec_axioms
          field_codec_pair [OF i32.field_codec_axioms field_codec_pair [OF blob.field_codec_axioms
          str.field_codec_axioms]]]]])
    (auto simp: enc_operation_result_def dec_operation_result_def enc_pair_def dec_pair_def fun_eq_iff
      split: prod.splits)

section \<open>Frames\<close>

lemma read_write_frame:
  assumes "write_frame t p = Inr w"
  shows "read_frame (w @ s) = Inr (t, p, s)"
proof -
  have len: "length p + 1 \<le> max_frame" and w: "w = put_uint32 (of_nat (length p + 1)) @ [t] @ p"
    using assms by (auto simp: write_frame_def split: if_splits)
  let ?n = "of_nat (length p + 1) :: u32"
  have n: "unat ?n = length p + 1"
    using len by (simp only: unat_of_nat) simp
  then have "?n \<noteq> 0"
    by (metis add_is_0 unsigned_0 zero_neq_one)
  moreover have "get_uint32 (put_uint32 ?n) = ?n"
    using get_put_uint32 [of ?n "[]"] by simp
  ultimately show ?thesis
    using len n unfolding w by (simp add: read_frame_def read_full_def Let_def del: of_nat_add of_nat_Suc)
qed

lemma read_full_Inr: "read_full n s = Inr (a, b) \<Longrightarrow> s = a @ b \<and> length a = n"
  by (auto simp: read_full_def split: if_splits)

lemma read_frame_exact:
  assumes "read_frame s = Inr (t, p, s')"
  obtains w where "write_frame t p = Inr w" "s = w @ s'"
proof -
  obtain hdr s1 body where h: "read_full 4 s = Inr (hdr, s1)" "get_uint32 hdr \<noteq> 0"
    "unat (get_uint32 hdr) \<le> max_frame" "read_full (unat (get_uint32 hdr)) s1 = Inr (body, s')"
    "t = body ! 0" "p = drop 1 body"
    using assms by (auto simp: read_frame_def Let_def split: sum.splits if_splits)
  let ?n = "get_uint32 hdr"
  have s: "s = hdr @ s1" "length hdr = 4" and s1: "s1 = body @ s'" "length body = unat ?n"
    using read_full_Inr [OF h(1)] read_full_Inr [OF h(4)] by simp_all
  have "0 < unat ?n"
    using h(2) by (metis gr0I unsigned_0 word_unat_eq_iff)
  then have body: "body = [t] @ p" "unat ?n = length p + 1"
    using s1(2) h(5,6) by (cases body; simp)+
  then have "?n = of_nat (length p + 1)"
    by (metis of_nat_unat ucast_id)
  then have "hdr = put_uint32 (of_nat (length p + 1))"
    using put_get_uint32 [OF s(2)] by simp
  then show thesis
    using that [of "put_uint32 (of_nat (length p + 1)) @ [t] @ p"] h(3) body s(1) s1(1)
    by (simp add: write_frame_def)
qed

section \<open>Properties\<close>

text \<open>C6: The four message codecs of the exec protocol are exact: a payload decodes to a message if and only
  if it is that message's encoding. So decoding inverts encoding, and no second payload (with
  trailing bytes, other boolean bytes or other lengths) is accepted for the same message.\<close>

theorem message_codecs_exact:
  "(decode_exec_request b = Inr v1 \<longleftrightarrow> encode_exec_request v1 = Inr b)
   \<and> (decode_exec_result b = Inr v2 \<longleftrightarrow> encode_exec_result v2 = Inr b)
   \<and> (decode_operation b = Inr v3 \<longleftrightarrow> encode_operation v3 = Inr b)
   \<and> (decode_operation_result b = Inr v4 \<longleftrightarrow> encode_operation_result v4 = Inr b)"
  unfolding decode_exec_request_def encode_exec_request_def decode_exec_result_def encode_exec_result_def
    decode_operation_def encode_operation_def decode_operation_result_def encode_operation_result_def
  by (intro conjI exec_request.run_decoder_Inr_iff exec_result.run_decoder_Inr_iff
      operation.run_decoder_Inr_iff operation_result.run_decoder_Inr_iff)

text \<open>Framing is exact: \<^verbatim>\<open>readFrame\<close> takes a frame off the stream exactly if the stream starts with what
  \<^verbatim>\<open>writeFrame\<close> writes for that type and payload, and it leaves the rest of the stream untouched.\<close>

theorem frames_exact:
  "read_frame s = Inr (typ, payload, s') \<longleftrightarrow> (\<exists>w. write_frame typ payload = Inr w \<and> s = w @ s')"
  by (metis read_frame_exact read_write_frame)

end
