(* ===== verification/Go_Json.thy ===== *)
theory Go_Json
  imports Commit_Anchor
begin

text \<open>
  The compact output of Go's \<^verbatim>\<open>encoding/json.Marshal\<close> (Go 1.25), as far as the repository
  uses it: null, booleans, integers, strings with HTML escaping and UTF-8 repair, arrays and
  objects. Two trees whose strings are valid UTF-8 have the same text only if they are equal
  (\<open>json_text_inj\<close>); with invalid UTF-8 that fails, since every bad byte is written \<^verbatim>\<open>\ufffd\<close>.
\<close>

section \<open>UTF-8\<close>

definition byte_in :: "nat \<Rightarrow> nat \<Rightarrow> char \<Rightarrow> bool" where
  "byte_in lo hi c \<longleftrightarrow> lo \<le> (of_char c :: nat) \<and> (of_char c :: nat) \<le> hi"

abbreviation is_cont :: "char \<Rightarrow> bool" where "is_cont \<equiv> byte_in 128 191"

text \<open>The length the first byte announces, and the range it leaves to the second byte: the tables
  \<^verbatim>\<open>first\<close> and \<^verbatim>\<open>acceptRanges\<close> of \<^verbatim>\<open>unicode/utf8\<close>.\<close>

definition lead_len :: "char \<Rightarrow> nat" where
  "lead_len c = (if byte_in 0 127 c then 1 else if byte_in 194 223 c then 2
     else if byte_in 224 239 c then 3 else if byte_in 240 244 c then 4 else 0)"

definition second_ok :: "char \<Rightarrow> char \<Rightarrow> bool" where
  "second_ok x y \<longleftrightarrow> (let n = of_char x :: nat in
     byte_in (if n = 224 then 160 else if n = 240 then 144 else 128)
       (if n = 237 then 159 else if n = 244 then 143 else 191) y)"

text \<open>The length of a well-formed encoding at the front of the string, 0 if there is none.\<close>

fun rune_len :: "string \<Rightarrow> nat" where
  "rune_len [] = 0"
| "rune_len (x # xs) = (let n = lead_len x in
     if n \<le> 1 then n
     else if n - 1 \<le> length xs \<and> second_ok x (xs ! 0) \<and> list_all is_cont (take (n - 1) xs) then n
     else 0)"

declare rune_len.simps(2) [simp del]

text \<open>The runes of a string; an ill-formed byte is a rune of its own, as for \<^verbatim>\<open>range\<close>.\<close>

function runes :: "string \<Rightarrow> string list" where
  "runes [] = []"
| "runes (x # xs) = (let n = max 1 (rune_len (x # xs))
     in take n (x # xs) # runes (drop n (x # xs)))"
  by pat_completeness auto
termination
  by (relation "measure length") (auto simp: Let_def)

definition valid_rune :: "string \<Rightarrow> bool" where
  "valid_rune t \<longleftrightarrow> t \<noteq> [] \<and> rune_len t = length t"

definition valid_utf8 :: "string \<Rightarrow> bool" where
  "valid_utf8 s \<longleftrightarrow> list_all valid_rune (runes s)"

section \<open>Text\<close>

definition json_escape :: "char \<Rightarrow> string" where
  "json_escape c =
     (let n = of_char c :: nat; bs = CHR 0x5C in
      if n = 34 \<or> n = 92 then [bs, c]
      else if n = 8 then [bs, CHR ''b''] else if n = 12 then [bs, CHR ''f'']
      else if n = 10 then [bs, CHR ''n''] else if n = 13 then [bs, CHR ''r'']
      else if n = 9 then [bs, CHR ''t'']
      else if n < 32 \<or> n = 60 \<or> n = 62 \<or> n = 38
        then [bs, CHR ''u'', CHR ''0'', CHR ''0'', hex_digit (n div 16), hex_digit (n mod 16)]
      else [c])"

definition json_rune :: "string \<Rightarrow> string" where
  "json_rune t =
     (if length t = 1 then
        (if byte_in 0 127 (hd t) then json_escape (hd t) else CHR 0x5C # ''ufffd'')
      else if t = map char_of [226, 128, 168 :: nat] then CHR 0x5C # ''u2028''
      else if t = map char_of [226, 128, 169 :: nat] then CHR 0x5C # ''u2029''
      else t)"

definition json_body :: "string \<Rightarrow> string" where
  "json_body s = concat (map json_rune (runes s))"

definition json_string :: "string \<Rightarrow> string" where
  "json_string s = CHR 0x22 # json_body s @ [CHR 0x22]"

fun show_nat :: "nat \<Rightarrow> string" where
  "show_nat n = (if n < 10 then [char_of (48 + n)] else show_nat (n div 10) @ [char_of (48 + n mod 10)])"

declare show_nat.simps [simp del]

definition show_int :: "int \<Rightarrow> string" where
  "show_int i = (if i < 0 then CHR ''-'' # show_nat (nat (- i)) else show_nat (nat i))"

datatype json = JNull | JBool bool | JNum int | JStr string | JArr "json list"
  | JObj "(string \<times> json) list"

fun json_text :: "json \<Rightarrow> string" where
  "json_text JNull = ''null''"
| "json_text (JBool b) = (if b then ''true'' else ''false'')"
| "json_text (JNum i) = show_int i"
| "json_text (JStr s) = json_string s"
| "json_text (JArr js) = ''['' @ join '','' (map json_text js) @ '']''"
| "json_text (JObj ms) =
     ''{'' @ join '','' (map (\<lambda>(k, j). json_string k @ '':'' @ json_text j) ms) @ ''}''"

section \<open>Strings are uniquely readable\<close>

lemma rune_len_lead: "rune_len (x # xs) \<noteq> 0 \<Longrightarrow> rune_len (x # xs) = lead_len x"
  by (auto simp: rune_len.simps(2) Let_def split: if_splits)

lemma valid_rune_lead: "valid_rune (x # xs) \<Longrightarrow> length (x # xs) = lead_len x"
  unfolding valid_rune_def by (metis length_0_conv list.discI rune_len_lead)

lemma valid_rune_prefix_free:
  assumes "valid_rune t" "valid_rune t'" "t @ r = t' @ r'"
  shows "t = t' \<and> r = r'"
proof -
  obtain x xs where t: "t = x # xs"
    using assms(1) by (cases t) (auto simp: valid_rune_def)
  obtain x' xs' where t': "t' = x' # xs'"
    using assms(2) by (cases t') (auto simp: valid_rune_def)
  have "length t = length t'"
    using assms valid_rune_lead [of x xs] valid_rune_lead [of x' xs'] by (simp add: t t')
  with assms(3) show ?thesis
    by simp
qed

lemma lead_len_eq_1: "lead_len c = 1 \<longleftrightarrow> byte_in 0 127 c"
  by (simp add: lead_len_def)

lemma valid_rune_single: "valid_rune [c] \<Longrightarrow> byte_in 0 127 c"
  using valid_rune_lead [of c "[]"] lead_len_eq_1 [of c] by simp

lemma valid_rune_multi: "valid_rune (x # xs) \<Longrightarrow> xs \<noteq> [] \<Longrightarrow> \<not> byte_in 0 127 x"
  using valid_rune_lead [of x xs] lead_len_eq_1 [of x] by (cases xs) simp_all

text \<open>Reading back one escaped rune.\<close>

definition read_escape :: "string \<Rightarrow> string \<times> string" where
  "read_escape s =
     (if take 1 s \<noteq> [CHR 0x5C] then (take (lead_len (hd s)) s, drop (lead_len (hd s)) s)
      else case drop 1 s of
        [] \<Rightarrow> ([], [])
      | y # ys \<Rightarrow>
         if y = CHR ''u'' then
           (if take 3 ys = ''202'' then (map char_of [226, 128, 160 + the (hex_val (ys ! 3))], drop 4 ys)
            else ([char_of (16 * the (hex_val (ys ! 2)) + the (hex_val (ys ! 3)))], drop 4 ys))
         else if y = CHR ''b'' then ([char_of (8 :: nat)], ys)
         else if y = CHR ''f'' then ([char_of (12 :: nat)], ys)
         else if y = CHR ''n'' then ([char_of (10 :: nat)], ys)
         else if y = CHR ''r'' then ([char_of (13 :: nat)], ys)
         else if y = CHR ''t'' then ([char_of (9 :: nat)], ys)
         else ([y], ys))"

lemma read_escape_ascii:
  assumes "byte_in 0 127 c"
  shows "read_escape (json_escape c @ r) = ([c], r)"
proof -
  define n where "n = (of_char c :: nat)"
  have c: "c = char_of n" and n: "n < 128"
    using assms by (simp_all add: n_def byte_in_def)
  consider (quoted) "c = CHR 0x22 \<or> c = CHR 0x5C" | "n = 8" | "n = 12" | "n = 10" | "n = 13" | "n = 9"
    | (hex) "n \<notin> {34, 92, 8, 12, 10, 13, 9}" "n < 32 \<or> n = 60 \<or> n = 62 \<or> n = 38"
    | (plain) "n \<notin> {34, 92}" "\<not> (n < 32 \<or> n = 60 \<or> n = 62 \<or> n = 38)"
    using of_char_eqI [of c "CHR 0x22", where 'a = nat] of_char_eqI [of c "CHR 0x5C", where 'a = nat]
    unfolding n_def by fastforce
  then show ?thesis
  proof cases
    case quoted
    then show ?thesis
      by (elim disjE) (simp_all add: json_escape_def read_escape_def Let_def)
  next
    case hex
    then have "json_escape c @ r = [CHR 0x5C, CHR ''u'', CHR ''0'', CHR ''0'',
        hex_digit (n div 16), hex_digit (n mod 16)] @ r"
      by (simp add: json_escape_def flip: n_def)
    moreover have "n div 16 < 16"
      using n by simp
    ultimately show ?thesis
      using c by (simp add: read_escape_def)
  next
    case plain
    then have "json_escape c = [c]"
      by (auto simp: json_escape_def simp flip: n_def)
    moreover have "c \<noteq> CHR 0x5C"
      using plain n_def by auto
    moreover have "lead_len c = 1"
      using assms by (simp add: lead_len_def)
    ultimately show ?thesis
      by (simp add: read_escape_def)
  qed (simp_all add: json_escape_def read_escape_def c)
qed

lemma read_escape_rune:
  assumes "valid_rune t"
  shows "read_escape (json_rune t @ r) = (t, r)"
proof -
  obtain x xs where t: "t = x # xs"
    using assms by (cases t) (auto simp: valid_rune_def)
  show ?thesis
  proof (cases xs)
    case Nil
    with assms t have "byte_in 0 127 x"
      using valid_rune_single by simp
    with t Nil show ?thesis
      by (simp add: json_rune_def read_escape_ascii)
  next
    case (Cons y ys)
    then have x: "\<not> byte_in 0 127 x" and len: "length t = lead_len x"
      using assms t valid_rune_multi [of x xs] valid_rune_lead [of x xs] by simp_all
    from x have "x \<noteq> CHR 0x5C"
      by (auto simp: byte_in_def)
    then have "read_escape (t @ r) = (t, r)"
      using t by (simp add: read_escape_def flip: len)
    moreover have "length t \<noteq> 1"
      using t Cons by simp
    moreover have "hex_val (CHR ''8'') = Some 8" "hex_val (CHR ''9'') = Some 9"
      by (simp_all add: hex_val_def)
    ultimately show ?thesis
      by (cases "t = map char_of [226, 128, 168 :: nat]"; cases "t = map char_of [226, 128, 169 :: nat]")
        (simp_all add: json_rune_def read_escape_def)
  qed
qed

lemma json_rune_not_quote: "valid_rune t \<Longrightarrow> json_rune t @ r \<noteq> CHR 0x22 # r'"
proof
  assume v: "valid_rune t" and e: "json_rune t @ r = CHR 0x22 # r'"
  have "read_escape (CHR 0x22 # r') = ([CHR 0x22], r')"
    by (simp add: read_escape_def lead_len_def byte_in_def)
  then have "t = [CHR 0x22]"
    using read_escape_rune [OF v, of r] e by simp
  with e show False
    by (simp add: json_rune_def json_escape_def byte_in_def)
qed

lemma json_runes_inj:
  assumes "concat (map json_rune ts) @ CHR 0x22 # r = concat (map json_rune ts') @ CHR 0x22 # r'"
    and "list_all valid_rune ts" "list_all valid_rune ts'"
  shows "ts = ts' \<and> r = r'"
  using assms
proof (induction ts arbitrary: ts')
  case Nil
  then show ?case
    using json_rune_not_quote [of "hd ts'" "concat (map json_rune (tl ts')) @ CHR 0x22 # r'" r]
    by (cases ts') auto
next
  case (Cons t ts)
  show ?case
  proof (cases ts')
    case Nil
    with Cons.prems show ?thesis
      using json_rune_not_quote [of t "concat (map json_rune ts) @ CHR 0x22 # r" r'] by simp
  next
    case (Cons t' us)
    with Cons.prems have e: "json_rune t @ concat (map json_rune ts) @ CHR 0x22 # r
        = json_rune t' @ concat (map json_rune us) @ CHR 0x22 # r'" "valid_rune t" "valid_rune t'"
      by simp_all
    then have "t = t' \<and> concat (map json_rune ts) @ CHR 0x22 # r = concat (map json_rune us) @ CHR 0x22 # r'"
      by (metis prod.inject read_escape_rune)
    with Cons Cons.IH [of us] Cons.prems show ?thesis
      by simp
  qed
qed

lemma concat_runes [simp]: "concat (runes s) = s"
  by (induction s rule: runes.induct) (simp_all add: Let_def)

lemma json_string_inj:
  assumes "json_string s @ r = json_string s' @ r'" "valid_utf8 s" "valid_utf8 s'"
  shows "s = s' \<and> r = r'"
proof -
  have "runes s = runes s' \<and> r = r'"
    using assms by (intro json_runes_inj) (simp_all add: json_string_def json_body_def valid_utf8_def)
  then show ?thesis
    by (metis concat_runes)
qed

section \<open>Trees are uniquely readable\<close>

fun json_valid :: "json \<Rightarrow> bool" where
  "json_valid (JStr s) = valid_utf8 s"
| "json_valid (JArr js) = list_all json_valid js"
| "json_valid (JObj ms) = list_all (\<lambda>(k, j). valid_utf8 k \<and> json_valid j) ms"
| "json_valid _ = True"

definition delim :: "string \<Rightarrow> bool" where
  "delim r \<longleftrightarrow> (\<forall>c s. r = c # s \<longrightarrow> c \<in> set '',]}'')"

definition prints :: "('a \<Rightarrow> string) \<Rightarrow> ('a \<Rightarrow> bool) \<Rightarrow> 'a \<Rightarrow> bool" where
  "prints f valid x \<longleftrightarrow> (\<forall>x' r r'. valid x' \<longrightarrow> delim r \<longrightarrow> delim r' \<longrightarrow> f x @ r = f x' @ r'
     \<longrightarrow> x = x' \<and> r = r')"

lemma printsD:
  "prints f valid x \<Longrightarrow> f x @ r = f x' @ r' \<Longrightarrow> valid x' \<Longrightarrow> delim r \<Longrightarrow> delim r' \<Longrightarrow> x = x' \<and> r = r'"
  by (simp add: prints_def)

lemma join_Cons: "join sep (x # xs) = x @ concat (map (\<lambda>y. sep @ y) xs)"
  by (induction xs arbitrary: x) simp_all

lemma delim_tail: "c \<in> set '']}'' \<Longrightarrow> delim (concat (map (\<lambda>y. '','' @ f y) xs) @ c # r)"
  by (cases xs) (auto simp: delim_def)

lemma list_prints_tail:
  assumes c: "c \<in> set '']}''"
  shows "\<forall>x \<in> set xs. prints f valid x \<Longrightarrow> list_all valid xs'
    \<Longrightarrow> concat (map (\<lambda>y. '','' @ f y) xs) @ c # r = concat (map (\<lambda>y. '','' @ f y) xs') @ c # r'
    \<Longrightarrow> xs = xs' \<and> r = r'"
proof (induction xs arbitrary: xs')
  case Nil
  then show ?case
    using c by (cases xs') auto
next
  case (Cons x xs)
  obtain x' us where xs': "xs' = x' # us"
    using Cons.prems(3) c by (cases xs') auto
  let ?t = "\<lambda>zs. concat (map (\<lambda>y. '','' @ f y) zs)"
  have "x = x' \<and> ?t xs @ c # r = ?t us @ c # r'"
    using Cons.prems by (intro printsD [of f valid] delim_tail c) (simp_all add: xs')
  moreover from this have "xs = us \<and> r = r'"
    using Cons.prems by (intro Cons.IH) (simp_all add: xs')
  ultimately show ?case
    by (simp add: xs')
qed

lemma join_map_Cons: "join '','' (map f (x # xs)) = f x @ concat (map (\<lambda>y. '','' @ f y) xs)"
  by (simp only: list.map join_Cons map_map comp_def)

lemma list_prints:
  assumes "c \<in> set '']}''" "\<forall>x \<in> set xs. prints f valid x" "list_all valid xs'"
    and start: "\<And>x s s'. x \<in> set xs \<union> set xs' \<Longrightarrow> f x @ s \<noteq> c # s'"
    and e: "join '','' (map f xs) @ c # r = join '','' (map f xs') @ c # r'"
  shows "xs = xs' \<and> r = r'"
proof (cases xs; cases xs')
  assume "xs = []" "xs' = []"
  with e show ?thesis
    by simp
next
  fix x us assume "xs = x # us" "xs' = []"
  with e start [of x] show ?thesis
    by (simp only: join_map_Cons append.assoc) simp
next
  fix x us assume "xs = []" "xs' = x # us"
  with e start [of x, symmetric] show ?thesis
    by (simp only: join_map_Cons append.assoc) simp
next
  fix x us x' us' assume xs: "xs = x # us" "xs' = x' # us'"
  let ?t = "\<lambda>zs. concat (map (\<lambda>y. '','' @ f y) zs)"
  have "f x @ ?t us @ c # r = f x' @ ?t us' @ c # r'"
    using e by (simp only: xs join_map_Cons append.assoc)
  then have h: "x = x' \<and> ?t us @ c # r = ?t us' @ c # r'"
    using assms(2,3) by (intro printsD [of f valid] delim_tail assms(1)) (simp_all add: xs)
  then have "us = us' \<and> r = r'"
    using assms(2,3) by (intro list_prints_tail [OF assms(1), of us f valid]) (simp_all add: xs)
  with h show ?thesis
    by (simp add: xs)
qed

lemma show_nat_digits: "list_all is_digit (show_nat n)"
proof (induction n rule: show_nat.induct)
  case (1 n)
  have "is_digit (char_of (48 + m))" if "m < 10" for m :: nat
    using that by (simp add: is_digit_def)
  with 1 show ?case
    by (subst show_nat.simps) simp
qed

lemma digit_val_char_of: "m < 10 \<Longrightarrow> digit_val (char_of (48 + m)) = int m"
proof -
  assume "m < 10"
  then have "(of_char (char_of (48 + m)) :: nat) = 48 + m"
    by simp
  then have "(of_char (char_of (48 + m)) :: int) = int (48 + m)"
    by (metis of_nat_of_char)
  then show ?thesis
    by (simp add: digit_val_def)
qed

lemma digits_val_snoc: "digits_val (s @ [c]) = 10 * digits_val s + digit_val c"
  by (simp add: digits_val_def)

lemma digits_val_show_nat: "digits_val (show_nat n) = int n"
proof (induction n rule: show_nat.induct)
  case (1 n)
  show ?case
  proof (cases "n < 10")
    case True
    then show ?thesis
      using digits_val_snoc [of "[]"] by (subst show_nat.simps) (simp add: digit_val_char_of digits_val_def)
  next
    case False
    have "int n = 10 * int (n div 10) + int (n mod 10)"
      using mult_div_mod_eq [of 10 n] by linarith
    with 1 False show ?thesis
      by (subst show_nat.simps) (simp add: digits_val_snoc digit_val_char_of)
  qed
qed

lemma show_nat_not_Nil: "show_nat n \<noteq> []"
  by (subst show_nat.simps) simp

lemma delim_not_digit: "delim (c # r) \<Longrightarrow> \<not> is_digit c"
  by (auto simp: delim_def is_digit_def)

lemma digits_prefix:
  assumes "list_all is_digit ds" "list_all is_digit ds'" "ds @ r = ds' @ r'" "delim r" "delim r'"
  shows "ds = ds' \<and> r = r'"
proof -
  have "takeWhile is_digit (es @ s) = es" if "list_all is_digit es" "delim s" for es s
    using that by (cases s) (auto simp: takeWhile_append2 list_all_iff dest: delim_not_digit)
  then have "ds = ds'"
    using assms by metis
  with assms(3) show ?thesis
    by simp
qed

lemma show_nat_hd: "\<exists>c s. show_nat n = c # s \<and> is_digit c"
  using show_nat_not_Nil [of n] show_nat_digits [of n] by (cases "show_nat n") auto

lemma minus_not_digit: "\<not> is_digit (CHR ''-'')"
  by (simp add: is_digit_def)

lemma show_nat_prints: "show_nat m @ r = show_nat n @ r' \<Longrightarrow> delim r \<Longrightarrow> delim r' \<Longrightarrow> m = n \<and> r = r'"
  by (metis digits_prefix show_nat_digits digits_val_show_nat of_nat_eq_iff)

lemma show_nat_not_minus: "show_nat m @ s \<noteq> CHR ''-'' # s'"
proof -
  obtain c t where "show_nat m = c # t" "is_digit c"
    using show_nat_hd by blast
  with minus_not_digit show ?thesis
    by (metis append_Cons list.inject)
qed

lemma show_int_neg: "i < 0 \<Longrightarrow> show_int i = CHR ''-'' # show_nat (nat (- i))"
  by (simp only: show_int_def if_True)

lemma show_int_nonneg: "0 \<le> i \<Longrightarrow> show_int i = show_nat (nat i)"
  by (simp only: show_int_def not_less [symmetric] if_False)

lemma prints_int: "prints show_int (\<lambda>_. True) i"
  unfolding prints_def
proof (intro allI impI)
  fix i' r r' assume d: "delim r" "delim r'" and e: "show_int i @ r = show_int i' @ r'"
  consider "i < 0" "i' < 0" | "0 \<le> i" "0 \<le> i'" | "i < 0" "0 \<le> i'" | "0 \<le> i" "i' < 0"
    by linarith
  then show "i = i' \<and> r = r'"
  proof cases
    case 1
    from e have "show_nat (nat (- i)) @ r = show_nat (nat (- i')) @ r'"
      by (simp only: show_int_neg [OF 1(1)] show_int_neg [OF 1(2)] append_Cons list.inject)
    from show_nat_prints [OF this d] 1 show ?thesis
      by linarith
  next
    case 2
    from e have "show_nat (nat i) @ r = show_nat (nat i') @ r'"
      by (simp only: show_int_nonneg [OF 2(1)] show_int_nonneg [OF 2(2)])
    from show_nat_prints [OF this d] 2 show ?thesis
      by linarith
  next
    case 3
    from e have "show_nat (nat i') @ r' = CHR ''-'' # show_nat (nat (- i)) @ r"
      by (simp only: show_int_neg [OF 3(1)] show_int_nonneg [OF 3(2)] append_Cons)
    with show_nat_not_minus show ?thesis
      by (rule notE)
  next
    case 4
    from e have "show_nat (nat i) @ r = CHR ''-'' # show_nat (nat (- i')) @ r'"
      by (simp only: show_int_neg [OF 4(2)] show_int_nonneg [OF 4(1)] append_Cons)
    with show_nat_not_minus show ?thesis
      by (rule notE)
  qed
qed

text \<open>The first character tells the constructors apart; none closes an array or object.\<close>

definition char_class :: "char \<Rightarrow> nat" where
  "char_class c = (if is_digit c \<or> c = CHR ''-'' then 3 else if c = CHR ''n'' then 1
     else if c = CHR ''t'' \<or> c = CHR ''f'' then 2 else if c = CHR 0x22 then 4
     else if c = CHR ''['' then 5 else if c = CHR ''{'' then 6 else 0)"

definition json_class :: "json \<Rightarrow> nat" where
  "json_class j = (case j of JNull \<Rightarrow> 1 | JBool b \<Rightarrow> 2 | JNum i \<Rightarrow> 3 | JStr s \<Rightarrow> 4 | JArr js \<Rightarrow> 5 | JObj ms \<Rightarrow> 6)"

lemma json_class_eq [simp]:
  "json_class j = json_class JNull \<longleftrightarrow> j = JNull"
  "json_class j = json_class (JBool b) \<longleftrightarrow> (\<exists>b'. j = JBool b')"
  "json_class j = json_class (JNum i) \<longleftrightarrow> (\<exists>i'. j = JNum i')"
  "json_class j = json_class (JStr s) \<longleftrightarrow> (\<exists>s'. j = JStr s')"
  "json_class j = json_class (JArr js) \<longleftrightarrow> (\<exists>js'. j = JArr js')"
  "json_class j = json_class (JObj ms) \<longleftrightarrow> (\<exists>ms'. j = JObj ms')"
  by (cases j; simp add: json_class_def)+

lemma char_class_simps [simp]:
  "char_class (CHR ''n'') = 1" "char_class (CHR ''t'') = 2" "char_class (CHR ''f'') = 2"
  "char_class (CHR ''-'') = 3" "char_class (CHR 0x22) = 4" "char_class (CHR ''['') = 5"
  "char_class (CHR ''{'') = 6" "char_class (CHR '']'') = 0" "char_class (CHR ''}'') = 0"
  "is_digit c \<Longrightarrow> char_class c = 3"
  by (simp_all add: char_class_def is_digit_def)

lemma json_text_class: "\<exists>c s. json_text j = c # s \<and> char_class c = json_class j"
proof (cases j)
  case (JNum i)
  obtain c s where "show_nat (nat i) = c # s" "is_digit c"
    using show_nat_hd by blast
  with JNum show ?thesis
    by (cases "i < 0") (simp_all add: json_class_def show_int_def)
qed (simp_all add: json_class_def json_string_def)

lemma json_class_pos: "json_class j \<noteq> 0"
  by (cases j) (simp_all add: json_class_def)

lemma json_text_not_close:
  assumes "c \<in> set '']}''"
  shows "json_text j @ s \<noteq> c # s'"
proof -
  have "c = CHR '']'' \<or> c = CHR ''}''"
    using assms by simp
  then have "char_class c = 0"
    by (elim disjE) simp_all
  moreover obtain d t where "json_text j = d # t" "char_class d = json_class j"
    using json_text_class by blast
  ultimately show ?thesis
    using json_class_pos [of j] by auto
qed

lemma json_text_same_class: "json_text j @ r = json_text j' @ r' \<Longrightarrow> json_class j' = json_class j"
  using json_text_class [of j] json_text_class [of j'] by fastforce

lemma json_prints: "prints json_text json_valid j \<or> \<not> json_valid j"
proof (induction j)
  case JNull
  show ?case
    unfolding prints_def
  proof (intro disjI1 allI impI)
    fix j' r r' assume "json_text JNull @ r = json_text j' @ r'"
    with json_text_same_class [OF this] show "JNull = j' \<and> r = r'"
      by simp
  qed
next
  case (JBool b)
  show ?case
    unfolding prints_def
  proof (intro disjI1 allI impI)
    fix j' r r' assume "json_text (JBool b) @ r = json_text j' @ r'"
    with json_text_same_class [OF this] show "JBool b = j' \<and> r = r'"
      by (auto split: if_splits)
  qed
next
  case (JNum i)
  show ?case
    unfolding prints_def
  proof (intro disjI1 allI impI)
    fix j' r r' assume e: "json_text (JNum i) @ r = json_text j' @ r'" "delim r" "delim r'"
    from json_text_same_class [OF e(1)] obtain i' where j': "j' = JNum i'"
      by auto
    with e printsD [OF prints_int] show "JNum i = j' \<and> r = r'"
      by auto
  qed
next
  case (JStr s)
  show ?case
    unfolding prints_def
  proof (cases "valid_utf8 s", intro disjI1 allI impI)
    fix j' r r' assume v: "valid_utf8 s" "json_valid j'" and e: "json_text (JStr s) @ r = json_text j' @ r'"
    from json_text_same_class [OF e] obtain s' where j': "j' = JStr s'"
      by auto
    with e v json_string_inj [of s r s' r'] show "JStr s = j' \<and> r = r'"
      by simp
  qed simp
next
  case (JArr js)
  show ?case
    unfolding prints_def
  proof (cases "json_valid (JArr js)", intro disjI1 allI impI)
    fix j' r r' assume v: "json_valid (JArr js)" "json_valid j'" and e: "json_text (JArr js) @ r = json_text j' @ r'"
    from json_text_same_class [OF e] obtain js' where j': "j' = JArr js'"
      by auto
    have "js = js' \<and> r = r'"
      using JArr v e j' json_text_not_close
      by (intro list_prints [of "CHR '']''" js json_text json_valid]) (auto simp: list_all_iff)
    with j' show "JArr js = j' \<and> r = r'"
      by simp
  qed simp
next
  case (JObj ms)
  let ?f = "\<lambda>(k, j). json_string k @ '':'' @ json_text j"
  let ?v = "\<lambda>(k, j). valid_utf8 k \<and> json_valid j"
  show ?case
    unfolding prints_def
  proof (cases "json_valid (JObj ms)", intro disjI1 allI impI)
    fix j' r r' assume v: "json_valid (JObj ms)" "json_valid j'" and e: "json_text (JObj ms) @ r = json_text j' @ r'"
    from json_text_same_class [OF e] obtain ms' where j': "j' = JObj ms'"
      by auto
    have "prints ?f ?v (k, j)" if "(k, j) \<in> set ms" for k j
      unfolding prints_def
    proof (intro allI impI)
      fix x' s s' assume h: "?v x'" "delim s" "delim s'" "?f (k, j) @ s = ?f x' @ s'"
      obtain k' y where x': "x' = (k', y)"
        by (cases x')
      have kj: "valid_utf8 k" "json_valid j"
        using v(1) that by (auto simp: list_all_iff)
      then have "k = k' \<and> '':'' @ json_text j @ s = '':'' @ json_text y @ s'"
        using h x' by (intro json_string_inj) simp_all
      moreover have "prints json_text json_valid j"
        using JObj that kj(2) by fastforce
      ultimately show "(k, j) = x' \<and> s = s'"
        using h x' printsD [of json_text json_valid j s y s'] by simp
    qed
    then have "ms = ms' \<and> r = r'"
      using v e j' by (intro list_prints [of "CHR ''}''" ms ?f ?v]) (auto simp: json_string_def)
    with j' show "JObj ms = j' \<and> r = r'"
      by simp
  qed simp
qed

lemma json_text_inj:
  assumes "json_text j = json_text j'" "json_valid j" "json_valid j'"
  shows "j = j'"
  using assms json_prints [of j] printsD [of json_text json_valid j "[]" j' "[]"]
  by (simp add: delim_def)

section \<open>Slices and maps\<close>

definition json_slice :: "('a \<Rightarrow> json) \<Rightarrow> 'a list option \<Rightarrow> json" where
  "json_slice f s = (case s of None \<Rightarrow> JNull | Some xs \<Rightarrow> JArr (map f xs))"

definition json_map :: "('a \<Rightarrow> json) \<Rightarrow> (string \<times> 'a) list option \<Rightarrow> json" where
  "json_map f m = (case m of None \<Rightarrow> JNull | Some kvs \<Rightarrow> JObj (map (\<lambda>(k, v). (k, f v)) (sorted_entries kvs)))"

lemma inj_JStr: "map JStr xs = map JStr ys \<longleftrightarrow> xs = ys"
  by (simp add: inj_map_eq_map inj_def)

lemma json_map_eq:
  assumes "json_map f m = json_map f m'"
  shows "map_option f (map_of (elems m) k) = map_option f (map_of (elems m') k)"
proof (cases m; cases m')
  fix kvs kvs' assume m: "m = Some kvs" "m' = Some kvs'"
  then have "map_of (map (\<lambda>(k, v). (k, f v)) kvs) = map_of (map (\<lambda>(k, v). (k, f v)) kvs')"
    using assms by (simp add: json_map_def sorted_entries_map sorted_entries_eq_iff)
  then show ?thesis
    by (simp add: m elems_def map_of_map fun_eq_iff)
qed (use assms in \<open>simp_all add: json_map_def elems_def\<close>)

lemma json_slice_eq: "json_slice f s = json_slice f s' \<Longrightarrow> map f (elems s) = map f (elems s')"
  by (cases s; cases s') (simp_all add: json_slice_def elems_def)

lemma json_slice_inj:
  assumes "json_slice f s = json_slice f s'" "\<And>x y. f x = f y \<Longrightarrow> x = y"
  shows "s = s'"
  using assms by (cases s; cases s') (auto simp: json_slice_def inj_map_eq_map inj_def)

section \<open>Numbers read back\<close>

lemma show_nat_plain: "\<not> has_prefix (show_nat n) ''-'' \<and> \<not> has_prefix (show_nat n) ''+''"
proof -
  have "is_digit (hd (show_nat n))"
    using show_nat_digits [of n] show_nat_not_Nil [of n] by (cases "show_nat n") auto
  moreover have "\<not> is_digit (CHR ''-'')" "\<not> is_digit (CHR ''+'')"
    by (simp_all add: is_digit_def)
  ultimately show ?thesis
    using show_nat_not_Nil [of n] by (cases "show_nat n") (auto simp: has_prefix_iff)
qed

lemma atoi_show_int: "- max_int64 - 1 \<le> n \<Longrightarrow> n \<le> max_int64 \<Longrightarrow> atoi (show_int n) = (n, True)"
  using show_nat_plain [of "nat n"] show_nat_digits [of "nat n"] show_nat_not_Nil [of "nat n"] digits_val_show_nat [of "nat n"]
    show_nat_digits [of "nat (- n)"] show_nat_not_Nil [of "nat (- n)"] digits_val_show_nat [of "nat (- n)"]
  by (simp add: atoi_def show_int_def Let_def clamp_int64_def max_int64_def)

end
