(* ===== verification/Hash_Map.thy ===== *)
theory Hash_Map
  imports Go_Json Go_Path
begin

text \<open>
  The process-code identity of \<^verbatim>\<open>sandbox/hashmap\<close>: a map from canonical absolute paths to the
  SHA-256 of the whole file, its validation, canonical JSON and digest (\<^verbatim>\<open>hashmap.go\<close>), and the
  operator's log of maps (\<^verbatim>\<open>log.go\<close>). SHA-256 is the parameter \<open>H\<close>; the file system is a
  parameter: \<open>wd\<close> the result of \<^verbatim>\<open>os.Getwd\<close>, \<open>ev\<close> of \<^verbatim>\<open>filepath.EvalSymlinks\<close>, \<open>rd\<close> what opening,
  stating and reading a file yields.
\<close>

section \<open>Maps\<close>

record hash_map =
  hm_files :: "(string \<times> string) list"
  hm_version :: int

datatype hash_error = Empty_path | Abs_error | Resolve_error string | Resolved_not_absolute string
  | Open_error | Stat_error | Not_regular string | Read_error | Changed_while_hashing string
  | Unsupported_version int | No_files | Non_canonical_path string | Invalid_hash string
  | Invalid_log | Invalid_log_entry string | Decode_error | Conflicting_map string
  | Mkdir_error | Write_error | Rename_error

definition hash_map_version :: int where
  "hash_map_version = 1"

text \<open>\<^verbatim>\<open>filepath.Abs\<close>, then \<^verbatim>\<open>EvalSymlinks\<close>, which fails on a missing path.\<close>

definition path_abs :: "string option \<Rightarrow> string \<Rightarrow> string option" where
  "path_abs wd path = (if is_abs path then Some (clean path) else map_option (\<lambda>w. path_join [w, path]) wd)"

definition canonical_path :: "string option \<Rightarrow> (string \<Rightarrow> string option) \<Rightarrow> string \<Rightarrow> hash_error + string" where
  "canonical_path wd ev path =
     (if path = [] then Inl Empty_path
      else case path_abs wd path of
        None \<Rightarrow> Inl Abs_error
      | Some p \<Rightarrow> (case ev (clean p) of
          None \<Rightarrow> Inl (Resolve_error path)
        | Some resolved \<Rightarrow>
            if \<not> is_abs resolved then Inl (Resolved_not_absolute resolved)
            else Inr (clean resolved)))"

text \<open>What one open file shows: its metadata before and after the read (\<open>st_ident\<close> is what
  \<^verbatim>\<open>os.SameFile\<close> compares) and its bytes; \<open>None\<close> where the call fails.\<close>

record file_stat =
  st_regular :: bool
  st_size :: int
  st_mtime :: int
  st_ident :: int

record file_read =
  fr_before :: "file_stat option"
  fr_data :: "bytes option"
  fr_after :: "file_stat option"

definition file_hash :: "(bytes \<Rightarrow> hash) \<Rightarrow> (string \<Rightarrow> file_read option) \<Rightarrow> string \<Rightarrow> hash_error + string" where
  "file_hash H rd path =
     (case rd path of
        None \<Rightarrow> Inl Open_error
      | Some f \<Rightarrow> (case fr_before f of
          None \<Rightarrow> Inl Stat_error
        | Some before \<Rightarrow>
            if \<not> st_regular before then Inl (Not_regular path)
            else (case fr_data f of
              None \<Rightarrow> Inl Read_error
            | Some b \<Rightarrow> (case fr_after f of
                None \<Rightarrow> Inl Stat_error
              | Some after \<Rightarrow>
                  if st_size before \<noteq> st_size after \<or> st_mtime before \<noteq> st_mtime after
                    \<or> st_ident before \<noteq> st_ident after
                  then Inl (Changed_while_hashing path)
                  else Inr (hex_encode (H b))))))"

text \<open>The checks of \<^verbatim>\<open>Validate\<close>, \<open>None\<close> for no error. The loop visits the entries in an unspecified
  order and stops at the first bad one.\<close>

definition valid_hash_string :: "string \<Rightarrow> bool" where
  "valid_hash_string h \<longleftrightarrow> length h = 64 \<and> to_lower h = h \<and> hex_decode h \<noteq> None"

fun validate_files :: "(string \<times> string) list \<Rightarrow> hash_error option" where
  "validate_files [] = None"
| "validate_files ((p, h) # es) =
     (if \<not> is_abs p \<or> clean p \<noteq> p then Some (Non_canonical_path p)
      else if \<not> valid_hash_string h then Some (Invalid_hash p)
      else validate_files es)"

definition validate_map :: "hash_map \<Rightarrow> hash_error option" where
  "validate_map m =
     (if hm_version m \<noteq> hash_map_version then Some (Unsupported_version (hm_version m))
      else if hm_files m = [] then Some No_files
      else validate_files (go_entries (hm_files m)))"

definition add_path :: "(bytes \<Rightarrow> hash) \<Rightarrow> string option \<Rightarrow> (string \<Rightarrow> string option)
    \<Rightarrow> (string \<Rightarrow> file_read option) \<Rightarrow> hash_map \<Rightarrow> string \<Rightarrow> hash_error + hash_map" where
  "add_path H wd ev rd m path =
     (case canonical_path wd ev path of
        Inl e \<Rightarrow> Inl e
      | Inr p \<Rightarrow> (case file_hash H rd p of
          Inl e \<Rightarrow> Inl e
        | Inr h \<Rightarrow>
            let out = \<lparr>hm_files = (p, h) # hm_files m, hm_version = hash_map_version\<rparr> in
            (case validate_map out of Some e \<Rightarrow> Inl e | None \<Rightarrow> Inr out)))"

definition map_json :: "hash_map \<Rightarrow> json" where
  "map_json m = JObj [(''files'', JObj (map (\<lambda>(p, h). (p, JStr h)) (sorted_entries (hm_files m)))),
     (''version'', JNum (hm_version m))]"

definition canonical_json :: "hash_map \<Rightarrow> hash_error + string" where
  "canonical_json m = (case validate_map m of Some e \<Rightarrow> Inl e | None \<Rightarrow> Inr (json_text (map_json m)))"

definition digest_message :: "string \<Rightarrow> bytes" where
  "digest_message b = bytes_of (''sandbox-hash-map-v1'' @ [char_of (0 :: nat)]) @ bytes_of b"

definition map_digest :: "(bytes \<Rightarrow> hash) \<Rightarrow> hash_map \<Rightarrow> hash_error + string" where
  "map_digest H m = (case canonical_json m of Inl e \<Rightarrow> Inl e | Inr b \<Rightarrow> Inr (hex_encode (H (digest_message b))))"

definition map_equal :: "hash_map \<Rightarrow> hash_map \<Rightarrow> bool" where
  "map_equal m m' = (case canonical_json m of
     Inl _ \<Rightarrow> False
   | Inr a \<Rightarrow> (case canonical_json m' of Inl _ \<Rightarrow> False | Inr b \<Rightarrow> a = b))"

section \<open>The log\<close>

text \<open>\<open>log_entries\<close> is \<open>None\<close> for the nil map a document without \<^verbatim>\<open>entries\<close> decodes to. The JSON
  decoder is the parameter \<open>dec\<close>; \<open>read_result\<close> is what \<^verbatim>\<open>os.ReadFile\<close> returns.\<close>

record map_log =
  log_entries :: "(string \<times> hash_map) list option"
  log_version :: int

datatype read_result = Absent | Failed | Contents bytes

fun check_entries :: "(bytes \<Rightarrow> hash) \<Rightarrow> (string \<times> hash_map) list \<Rightarrow> hash_error option" where
  "check_entries H [] = None"
| "check_entries H ((d, m) # es) =
     (if map_digest H m = Inr d then check_entries H es else Some (Invalid_log_entry d))"

definition load_log :: "(bytes \<Rightarrow> hash) \<Rightarrow> (bytes \<Rightarrow> map_log option) \<Rightarrow> read_result \<Rightarrow> hash_error + map_log" where
  "load_log H dec r =
     (case r of
        Absent \<Rightarrow> Inr \<lparr>log_entries = Some [], log_version = hash_map_version\<rparr>
      | Failed \<Rightarrow> Inl Read_error
      | Contents b \<Rightarrow> (case dec b of
          None \<Rightarrow> Inl Decode_error
        | Some l \<Rightarrow> (case log_entries l of
            None \<Rightarrow> Inl Invalid_log
          | Some es \<Rightarrow>
              if log_version l \<noteq> hash_map_version then Inl Invalid_log
              else (case check_entries H (go_entries es) of Some e \<Rightarrow> Inl e | None \<Rightarrow> Inr l))))"

definition log_json :: "map_log \<Rightarrow> json" where
  "log_json l = JObj [(''entries'', case log_entries l of None \<Rightarrow> JNull
       | Some es \<Rightarrow> JObj (map (\<lambda>(d, m). (d, map_json m)) (sorted_entries es))),
     (''version'', JNum (log_version l))]"

text \<open>The files \<^verbatim>\<open>Record\<close> touches and the outcomes of its system calls: a failed \<^verbatim>\<open>WriteFile\<close> may
  leave part of the temporary file behind.\<close>

record record_io =
  io_read_ok :: bool
  io_mkdir_ok :: bool
  io_partial :: "bytes option option"
  io_rename_ok :: bool

definition read_file :: "record_io \<Rightarrow> (string \<rightharpoonup> bytes) \<Rightarrow> string \<Rightarrow> read_result" where
  "read_file io fs path = (if \<not> io_read_ok io then Failed
     else case fs path of None \<Rightarrow> Absent | Some b \<Rightarrow> Contents b)"

definition record_map :: "(bytes \<Rightarrow> hash) \<Rightarrow> (bytes \<Rightarrow> map_log option) \<Rightarrow> record_io \<Rightarrow> (string \<rightharpoonup> bytes)
    \<Rightarrow> string \<Rightarrow> hash_map \<Rightarrow> (hash_error + string) \<times> (string \<rightharpoonup> bytes)" where
  "record_map H dec io fs path m =
     (case map_digest H m of
        Inl e \<Rightarrow> (Inl e, fs)
      | Inr d \<Rightarrow> (case load_log H dec (read_file io fs path) of
          Inl e \<Rightarrow> (Inl e, fs)
        | Inr l \<Rightarrow>
            let es = the (log_entries l) in
            if map_of es d \<noteq> None \<and> \<not> map_equal (the (map_of es d)) m then (Inl (Conflicting_map d), fs)
            else
              let b = bytes_of (json_text (log_json (l\<lparr>log_entries := Some ((d, m) # es)\<rparr>)));
                  tmp = path @ ''.tmp'' in
              if \<not> io_mkdir_ok io then (Inl Mkdir_error, fs)
              else (case io_partial io of
                Some left \<Rightarrow> (Inl Write_error, case left of None \<Rightarrow> fs | Some p \<Rightarrow> fs(tmp \<mapsto> p))
              | None \<Rightarrow>
                  if \<not> io_rename_ok io then (Inl Rename_error, fs(tmp \<mapsto> b))
                  else (Inr d, fs(tmp := None, path \<mapsto> b)))))"

section \<open>Validation\<close>

definition valid_file_entry :: "string \<Rightarrow> string \<Rightarrow> bool" where
  "valid_file_entry p h \<longleftrightarrow> is_abs p \<and> clean p = p \<and> valid_hash_string h"

lemma validate_files_None: "validate_files es = None \<longleftrightarrow> list_all (\<lambda>(p, h). valid_file_entry p h) es"
  by (induction es rule: validate_files.induct) (auto simp: valid_file_entry_def)

lemma validate_map_None:
  "validate_map m = None \<longleftrightarrow> hm_version m = hash_map_version \<and> hm_files m \<noteq> []
     \<and> (\<forall>p h. map_of (hm_files m) p = Some h \<longrightarrow> valid_file_entry p h)"
  by (simp add: validate_map_def validate_files_None list_all_go_entries)

lemma lower_hex_digit: "n < 16 \<Longrightarrow> lower_char (hex_digit n) = hex_digit n"
  by (simp add: lower_char_def hex_digit_def)

lemma to_lower_hex_encode: "to_lower (hex_encode b) = hex_encode b"
proof (induction b)
  case (Cons w b)
  have "unat w div 16 < 16"
    using unat_byte_less [of w] by linarith
  with Cons show ?case
    by (simp add: hex_encode_def to_lower_def lower_hex_digit)
qed (simp add: hex_encode_def to_lower_def)

lemma valid_hash_string_hex: "length b = 32 \<Longrightarrow> valid_hash_string (hex_encode b)"
  by (simp add: valid_hash_string_def to_lower_hex_encode)

lemma canonical_path_InrD: "canonical_path wd ev path = Inr p \<Longrightarrow> is_abs p \<and> clean p = p"
  by (auto simp: canonical_path_def split: if_splits option.splits)

lemma file_hash_InrD:
  assumes "file_hash H rd p = Inr h"
  obtains f st b where "rd p = Some f" "fr_before f = Some st" "fr_after f \<noteq> None" "fr_data f = Some b"
    "st_regular st" "st_size (the (fr_after f)) = st_size st" "st_mtime (the (fr_after f)) = st_mtime st"
    "st_ident (the (fr_after f)) = st_ident st" "h = hex_encode (H b)"
  using assms by (auto simp: file_hash_def split: option.splits if_splits)

lemma add_path_InrI:
  assumes "canonical_path wd ev path = Inr p" "file_hash H rd p = Inr h"
    and "hm_files m = [] \<or> validate_map m = None" and "\<And>b. length (H b) = 32"
  shows "add_path H wd ev rd m path
    = Inr \<lparr>hm_files = (p, h) # hm_files m, hm_version = hash_map_version\<rparr>"
proof -
  have "valid_hash_string h"
    using assms(2,4) by (auto elim!: file_hash_InrD intro: valid_hash_string_hex)
  then have "validate_map \<lparr>hm_files = (p, h) # hm_files m, hm_version = hash_map_version\<rparr> = None"
    using canonical_path_InrD [OF assms(1)] assms(3)
    by (auto simp: validate_map_None valid_file_entry_def)
  with assms(1,2) show ?thesis
    by (simp add: add_path_def)
qed

lemma add_path_InrD:
  assumes "add_path H wd ev rd m path = Inr m'"
  obtains p h where "canonical_path wd ev path = Inr p" "file_hash H rd p = Inr h"
    "map_of (hm_files m') = (map_of (hm_files m))(p \<mapsto> h)" "validate_map m' = None"
  using assms by (auto simp: add_path_def Let_def split: sum.splits option.splits)

section \<open>What a digest identifies\<close>

definition utf8_paths :: "hash_map \<Rightarrow> bool" where
  "utf8_paths m \<longleftrightarrow> list_all (\<lambda>(p, h). valid_utf8 p) (hm_files m)"

lemma lower_hex_ascii: "hex_decode h \<noteq> None \<Longrightarrow> list_all (byte_in 0 127) h"
proof (induction h rule: hex_decode.induct)
  case (3 a b s)
  have "byte_in 0 127 c" if "hex_val c \<noteq> None" for c
    using that by (auto simp: hex_val_def byte_in_def Let_def split: if_splits)
  with 3 show ?case
    by (auto split: option.splits)
qed simp_all

lemma ascii_valid_utf8: "list_all (byte_in 0 127) s \<Longrightarrow> valid_utf8 s"
proof (induction s)
  case (Cons c s)
  then have l: "lead_len c = 1"
    by (simp only: lead_len_eq_1 list.pred_inject)
  have "rune_len (c # s) = 1"
    by (simp add: rune_len.simps(2) l)
  moreover have "valid_rune [c]"
    by (simp add: valid_rune_def rune_len.simps(2) l)
  ultimately show ?case
    using Cons by (simp add: valid_utf8_def)
qed (simp add: valid_utf8_def)

lemma map_json_valid:
  assumes "validate_map m = None" "utf8_paths m"
  shows "json_valid (map_json m)"
proof -
  have "valid_utf8 p \<and> valid_utf8 h" if "map_of (hm_files m) p = Some h" for p h
  proof -
    have "valid_hash_string h"
      using assms(1) that by (simp add: validate_map_None valid_file_entry_def)
    then have "valid_utf8 h"
      by (intro ascii_valid_utf8 lower_hex_ascii) (simp add: valid_hash_string_def)
    moreover have "valid_utf8 p"
      using assms(2) map_of_SomeD [OF that] by (auto simp: utf8_paths_def list_all_iff)
    ultimately show ?thesis
      by simp
  qed
  then have files: "\<forall>(p, h) \<in> set (sorted_entries (hm_files m)). valid_utf8 p \<and> valid_utf8 h"
    by auto
  have "valid_utf8 ''files''" "valid_utf8 ''version''"
    by (intro ascii_valid_utf8, simp add: byte_in_def)+
  with files show ?thesis
    by (auto simp: map_json_def list_all_iff)
qed

lemma map_json_eq_iff:
  "map_json m = map_json m' \<longleftrightarrow>
     map_of (hm_files m) = map_of (hm_files m') \<and> hm_version m = hm_version m'"
proof -
  have "inj (\<lambda>(p, h). (p, JStr h))"
    by (auto simp: inj_def)
  then show ?thesis
    by (simp add: map_json_def inj_map_eq_map [OF \<open>inj _\<close>] sorted_entries_eq_iff)
qed

lemma canonical_json_InrD: "canonical_json m = Inr b \<Longrightarrow> validate_map m = None \<and> b = json_text (map_json m)"
  by (simp add: canonical_json_def split: option.splits)

lemma canonical_json_inj:
  assumes "canonical_json m = Inr b" "canonical_json m' = Inr b" "utf8_paths m" "utf8_paths m'"
  shows "map_of (hm_files m) = map_of (hm_files m')"
proof -
  have "map_json m = map_json m'"
    using assms canonical_json_InrD by (intro json_text_inj map_json_valid) metis+
  then show ?thesis
    by (simp add: map_json_eq_iff)
qed

lemma map_equal_iff:
  assumes "utf8_paths m" "utf8_paths m'"
  shows "map_equal m m' \<longleftrightarrow> validate_map m = None \<and> validate_map m' = None
    \<and> map_of (hm_files m) = map_of (hm_files m')"
proof
  assume "map_equal m m'"
  then obtain b where "canonical_json m = Inr b" "canonical_json m' = Inr b"
    by (auto simp: map_equal_def split: sum.splits)
  with assms canonical_json_InrD canonical_json_inj show "validate_map m = None
      \<and> validate_map m' = None \<and> map_of (hm_files m) = map_of (hm_files m')"
    by metis
next
  assume a: "validate_map m = None \<and> validate_map m' = None \<and> map_of (hm_files m) = map_of (hm_files m')"
  then have "map_json m = map_json m'"
    by (simp add: map_json_eq_iff validate_map_None)
  with a show "map_equal m m'"
    by (simp add: map_equal_def canonical_json_def)
qed

lemma hex_encode_inj: "hex_encode a = hex_encode b \<Longrightarrow> a = b"
  by (metis hex_decode_encode option.inject)

lemma map_digest_InrD:
  "map_digest H m = Inr d \<Longrightarrow> \<exists>b. canonical_json m = Inr b \<and> d = hex_encode (H (digest_message b))"
  by (simp add: map_digest_def split: sum.splits)

lemma digest_inj:
  assumes "map_digest H m = Inr d" "map_digest H m' = Inr d" "utf8_paths m" "utf8_paths m'"
    and "inj_on H {digest_message (json_text (map_json m)), digest_message (json_text (map_json m'))}"
  shows "map_of (hm_files m) = map_of (hm_files m')"
proof -
  obtain b where b: "canonical_json m = Inr b" "d = hex_encode (H (digest_message b))"
    using map_digest_InrD [OF assms(1)] by blast
  obtain b' where b': "canonical_json m' = Inr b'" "d = hex_encode (H (digest_message b'))"
    using map_digest_InrD [OF assms(2)] by blast
  have "hex_encode (H (digest_message b)) = hex_encode (H (digest_message b'))"
    using b(2) b'(2) by (rule subst)
  then have "H (digest_message b) = H (digest_message b')"
    by (rule hex_encode_inj)
  moreover have "b = json_text (map_json m)" "b' = json_text (map_json m')"
    using canonical_json_InrD b(1) b'(1) by blast+
  ultimately have "digest_message b = digest_message b'"
    using assms(5) unfolding inj_on_def by blast
  then have "b = b'"
    unfolding digest_message_def by (simp only: same_append_eq bytes_of_eq_iff)
  with b'(1) have "canonical_json m' = Inr b"
    by (simp only:)
  from canonical_json_inj [OF b(1) this assms(3,4)] show ?thesis .
qed

section \<open>What the log keeps\<close>

text \<open>Every entry of a log that loads is stored under the digest of its map.\<close>

definition log_wf :: "(bytes \<Rightarrow> hash) \<Rightarrow> map_log \<Rightarrow> bool" where
  "log_wf H l \<longleftrightarrow> log_version l = hash_map_version \<and> log_entries l \<noteq> None
     \<and> (\<forall>d m. map_of (the (log_entries l)) d = Some m \<longrightarrow> map_digest H m = Inr d)"

lemma check_entries_None: "check_entries H es = None \<longleftrightarrow> list_all (\<lambda>(d, m). map_digest H m = Inr d) es"
  by (induction es) (auto split: if_splits)

lemma load_log_wf: "load_log H dec r = Inr l \<Longrightarrow> log_wf H l"
  by (auto simp: load_log_def log_wf_def check_entries_None list_all_go_entries
      split: read_result.splits option.splits if_splits)

lemma load_log_Contents:
  assumes "dec b = Some l" "log_wf H l"
  shows "load_log H dec (Contents b) = Inr l"
proof -
  obtain es where es: "log_entries l = Some es"
    using assms(2) by (auto simp: log_wf_def)
  with assms(2) have "check_entries H (go_entries es) = None"
    by (simp add: check_entries_None list_all_go_entries log_wf_def)
  with es assms show ?thesis
    by (simp add: load_log_def log_wf_def)
qed

lemma log_wf_insert:
  "log_wf H l \<Longrightarrow> map_digest H m = Inr d \<Longrightarrow> log_wf H (l\<lparr>log_entries := Some ((d, m) # the (log_entries l))\<rparr>)"
  by (simp add: log_wf_def)

lemma record_map_InrD:
  assumes "record_map H dec io fs path m = (Inr d, fs')"
  obtains l where "map_digest H m = Inr d" "load_log H dec (read_file io fs path) = Inr l" "log_wf H l"
    "map_of (the (log_entries l)) d = None \<or> map_equal (the (map_of (the (log_entries l)) d)) m"
    "fs' = fs(path @ ''.tmp'' := None, path \<mapsto>
       bytes_of (json_text (log_json (l\<lparr>log_entries := Some ((d, m) # the (log_entries l))\<rparr>))))"
  using assms load_log_wf [of H dec "read_file io fs path"]
  by (auto simp: record_map_def Let_def split: sum.splits if_splits option.splits)

text \<open>The JSON decoder reads back what \<^verbatim>\<open>Marshal\<close> wrote, up to the order of the maps.\<close>

definition reads_back :: "(bytes \<Rightarrow> map_log option) \<Rightarrow> map_log \<Rightarrow> bool" where
  "reads_back dec l \<longleftrightarrow> (case dec (bytes_of (json_text (log_json l))) of
     None \<Rightarrow> False | Some l' \<Rightarrow> log_json l' = log_json l)"

lemma reads_backD:
  assumes "reads_back dec l"
  obtains l' where "dec (bytes_of (json_text (log_json l))) = Some l'" "log_json l = log_json l'"
proof (cases "dec (bytes_of (json_text (log_json l)))")
  case None
  with assms show thesis
    by (simp add: reads_back_def)
next
  case (Some l')
  with assms have "log_json l' = log_json l"
    by (simp add: reads_back_def)
  with Some show thesis
    using that by metis
qed

lemma read_file_written: "io_read_ok io \<Longrightarrow> fs path = Some b \<Longrightarrow> read_file io fs path = Contents b"
  by (simp add: read_file_def)

lemma log_json_eqD:
  assumes "log_json l = log_json l'" "log_entries l = Some es"
  obtains es' where "log_entries l' = Some es'" "log_version l' = log_version l"
    "\<And>d. map_option map_json (map_of es d) = map_option map_json (map_of es' d)"
proof -
  obtain es' where es': "log_entries l' = Some es'"
    using assms by (cases "log_entries l'") (simp_all add: log_json_def)
  then have "map_of (map (\<lambda>(d, m). (d, map_json m)) es) = map_of (map (\<lambda>(d, m). (d, map_json m)) es')"
    using assms by (simp add: log_json_def sorted_entries_map sorted_entries_eq_iff)
  then have "map_option map_json (map_of es d) = map_option map_json (map_of es' d)" for d
    by (auto simp: map_of_map fun_eq_iff)
  with es' show thesis
    using assms(1) that by (simp add: log_json_def)
qed

lemma map_digest_cong:
  assumes "map_json m = map_json m'" "map_digest H m = Inr d"
  shows "map_digest H m' = Inr d"
proof -
  obtain b where b: "canonical_json m = Inr b" "d = hex_encode (H (digest_message b))"
    using map_digest_InrD [OF assms(2)] by blast
  then have "validate_map m' = None"
    using assms(1) canonical_json_InrD [OF b(1)] by (auto simp: map_json_eq_iff validate_map_None)
  with b assms(1) canonical_json_InrD [OF b(1)] show ?thesis
    by (simp add: map_digest_def canonical_json_def)
qed

lemma log_wf_cong:
  assumes "log_json l = log_json l'" "log_wf H l"
  shows "log_wf H l'"
proof -
  obtain es where es: "log_entries l = Some es"
    using assms(2) by (auto simp: log_wf_def)
  from assms(1) this obtain es' where es': "log_entries l' = Some es'" "log_version l' = log_version l"
    "\<And>d. map_option map_json (map_of es d) = map_option map_json (map_of es' d)"
    by (rule log_json_eqD) blast
  have "map_digest H m = Inr d" if "map_of es' d = Some m" for d m
  proof -
    from es'(3) [of d] that obtain m' where "map_of es d = Some m'" "map_json m' = map_json m"
      by auto
    with assms(2) es show ?thesis
      by (auto simp: log_wf_def intro: map_digest_cong)
  qed
  with assms(2) es es'(1,2) show ?thesis
    by (simp add: log_wf_def)
qed

lemma record_map_load:
  assumes rec: "record_map H dec io fs path m = (Inr d, fs')"
    and load: "load_log H dec (read_file io fs path) = Inr l"
    and dec: "reads_back dec (l\<lparr>log_entries := Some ((d, m) # the (log_entries l))\<rparr>)"
    and ok: "io_read_ok io'"
  obtains l' where "load_log H dec (read_file io' fs' path) = Inr l'"
    "map_option map_json (map_of (the (log_entries l')) k)
      = map_option map_json (((map_of (the (log_entries l)))(d \<mapsto> m)) k)"
proof -
  let ?l = "l\<lparr>log_entries := Some ((d, m) # the (log_entries l))\<rparr>"
  obtain l0 where l0: "map_digest H m = Inr d" "load_log H dec (read_file io fs path) = Inr l0" "log_wf H l0"
    and fs0: "fs' = fs(path @ ''.tmp'' := None, path \<mapsto>
       bytes_of (json_text (log_json (l0\<lparr>log_entries := Some ((d, m) # the (log_entries l0))\<rparr>))))"
    using rec by (rule record_map_InrD)
  have "l0 = l"
    using l0(2) load by (simp only: sum.inject)
  note l = l0(1) l0(3) [unfolded this] and fs' = fs0 [unfolded this]
  obtain l' where l': "dec (bytes_of (json_text (log_json ?l))) = Some l'" "log_json ?l = log_json l'"
    using dec by (rule reads_backD)
  have wf: "log_wf H l'"
    using l'(2) by (rule log_wf_cong) (rule log_wf_insert [OF l(2,1)])
  have "load_log H dec (read_file io' fs' path) = Inr l'"
    using load_log_Contents [of dec _ l' H, OF l'(1) wf] read_file_written [OF ok, of fs' path] fs'
    by (simp only: fun_upd_same)
  moreover have "log_entries ?l = Some ((d, m) # the (log_entries l))"
    by simp
  from l'(2) this obtain es' where es': "log_entries l' = Some es'"
    "\<And>j. map_option map_json (map_of ((d, m) # the (log_entries l)) j) = map_option map_json (map_of es' j)"
    by (rule log_json_eqD) blast
  have "map_option map_json (map_of (the (log_entries l')) k)
      = map_option map_json (map_of ((d, m) # the (log_entries l)) k)"
    by (simp only: es' option.sel)
  ultimately show thesis
    by (intro that [of l']) (simp_all only: map_of.simps fst_conv snd_conv)
qed

lemma record_map_error_keeps:
  assumes "record_map H dec io fs path m = (Inl e, fs')" "q \<noteq> path @ ''.tmp''"
  shows "fs' q = fs q"
  using assms by (auto simp: record_map_def Let_def split: sum.splits if_splits option.splits)

section \<open>Properties\<close>

text \<open>Adding a path to an empty or valid map always gives a valid map that maps the canonical path to the
  hash of the whole file and leaves every other path as it was: validation cannot fail after the
  path resolved and the file was hashed.\<close>

theorem add_path_valid:
  assumes "canonical_path wd ev path = Inr p" "file_hash H rd p = Inr h"
    and "hm_files m = [] \<or> validate_map m = None" "\<And>b. length (H b) = 32"
  shows "\<exists>m'. add_path H wd ev rd m path = Inr m' \<and> validate_map m' = None
    \<and> map_of (hm_files m') = (map_of (hm_files m))(p \<mapsto> h)"
  using add_path_InrI [OF assms] by (auto elim: add_path_InrD)

definition sample_read :: "string \<Rightarrow> file_read option" where
  "sample_read p = (let st = \<lparr>st_regular = True, st_size = 2, st_mtime = 5, st_ident = 9\<rparr> in
     Some \<lparr>fr_before = Some st, fr_data = Some [1, 2], fr_after = Some st\<rparr>)"

definition sample_map :: hash_map where
  "sample_map = \<lparr>hm_files = [(''/a'', hex_encode (sample_hash [1, 2]))], hm_version = 1\<rparr>"

lemma sample_hash_length [simp]: "length (sample_hash m) = 32"
  by (simp add: sample_hash_def)

lemma add_path_valid_witness:
  "\<exists>m'. add_path sample_hash None Some sample_read \<lparr>hm_files = [], hm_version = 1\<rparr> ''/x/../a'' = Inr m'
     \<and> validate_map m' = None \<and> map_of (hm_files m') = [''/a'' \<mapsto> hex_encode (sample_hash [1, 2])]"
proof -
  have "canonical_path None Some ''/x/../a'' = Inr ''/a''"
    by code_simp
  moreover have "file_hash sample_hash sample_read ''/a'' = Inr (hex_encode (sample_hash [1, 2]))"
    by (simp add: file_hash_def sample_read_def Let_def)
  ultimately show ?thesis
    using add_path_valid [of None Some "''/x/../a''" "''/a''" sample_hash sample_read _
        "\<lparr>hm_files = [], hm_version = 1\<rparr>"] by simp
qed

text \<open>A digest identifies a map: if two maps with valid UTF-8 paths have the same digest and SHA-256 does
  not collide on their two encodings, they map the same paths to the same file hashes.\<close>

theorem digest_identifies:
  assumes "map_digest H m = Inr d" "map_digest H m' = Inr d" "utf8_paths m" "utf8_paths m'"
    and "inj_on H {digest_message (json_text (map_json m)), digest_message (json_text (map_json m'))}"
  shows "map_of (hm_files m) = map_of (hm_files m')"
  using assms by (rule digest_inj)

lemma sample_map_valid: "validate_map sample_map = None"
proof -
  have "valid_hash_string (hex_encode (sample_hash [1, 2]))"
    by (rule valid_hash_string_hex) simp
  moreover have "is_abs ''/a'' \<and> clean ''/a'' = ''/a''"
    by code_simp
  ultimately show ?thesis
    by (simp add: validate_map_None sample_map_def hash_map_version_def valid_file_entry_def)
qed

lemma sample_map_utf8: "utf8_paths sample_map"
proof -
  have "valid_utf8 ''/a''"
    by code_simp
  then show ?thesis
    by (simp add: utf8_paths_def sample_map_def)
qed

lemma digest_identifies_witness:
  "map_of (hm_files sample_map) = map_of (hm_files (sample_map\<lparr>hm_files := hm_files sample_map @ [(''/a'', ''x'')]\<rparr>))"
    (is "_ = map_of (hm_files ?m)")
proof -
  have same: "map_json ?m = map_json sample_map"
    by (simp add: map_json_eq_iff sample_map_def fun_eq_iff)
  obtain d where d: "map_digest sample_hash sample_map = Inr d"
    using sample_map_valid by (simp add: map_digest_def canonical_json_def)
  have "map_digest sample_hash ?m = Inr d"
    using same [symmetric] d by (rule map_digest_cong)
  moreover have "utf8_paths ?m"
    using sample_map_utf8 by (simp add: utf8_paths_def sample_map_def)
  ultimately show ?thesis
    using digest_identifies [OF d _ sample_map_utf8, of ?m] by (simp only: same insert_absorb2 inj_on_insert) simp
qed

text \<open>The log keeps what was recorded. After \<^verbatim>\<open>Record\<close> succeeded, and if the JSON decoder reads back the
  text it wrote, the log loads again and holds under every digest the map it held before, with the
  new map under its own digest.\<close>

theorem recorded_map_loads:
  assumes "record_map H dec io fs path m = (Inr d, fs')"
    and "load_log H dec (read_file io fs path) = Inr l"
    and "reads_back dec (l\<lparr>log_entries := Some ((d, m) # the (log_entries l))\<rparr>)" "io_read_ok io'"
  shows "\<exists>l'. load_log H dec (read_file io' fs' path) = Inr l'
    \<and> map_option map_json (map_of (the (log_entries l')) k)
      = map_option map_json (((map_of (the (log_entries l)))(d \<mapsto> m)) k)"
  using record_map_load [OF assms, where k = k] by blast

definition sample_io :: record_io where
  "sample_io = \<lparr>io_read_ok = True, io_mkdir_ok = True, io_partial = None, io_rename_ok = True\<rparr>"

lemma recorded_map_loads_witness:
  "\<exists>d dec fs' l'. record_map sample_hash dec sample_io Map.empty ''/log'' sample_map = (Inr d, fs')
     \<and> load_log sample_hash dec (read_file sample_io fs' ''/log'') = Inr l'
     \<and> map_option map_json (map_of (the (log_entries l')) d) = Some (map_json sample_map)"
proof -
  obtain d where d: "map_digest sample_hash sample_map = Inr d"
    using sample_map_valid by (simp add: map_digest_def canonical_json_def)
  define l where "l = \<lparr>log_entries = Some [(d, sample_map)], log_version = hash_map_version\<rparr>"
  define dec where "dec b = (if b = bytes_of (json_text (log_json l)) then Some l else None)" for b
  define fs' where "fs' = Map.empty(''/log.tmp'' := None, ''/log'' \<mapsto> bytes_of (json_text (log_json l)))"
  have load: "load_log sample_hash dec (read_file sample_io Map.empty ''/log'')
      = Inr \<lparr>log_entries = Some [], log_version = hash_map_version\<rparr>"
    by (simp add: load_log_def read_file_def sample_io_def)
  then have rec: "record_map sample_hash dec sample_io Map.empty ''/log'' sample_map = (Inr d, fs')"
    by (simp add: record_map_def d sample_io_def fs'_def l_def)
  have "reads_back dec l"
    by (simp add: reads_back_def dec_def)
  then obtain l' where "load_log sample_hash dec (read_file sample_io fs' ''/log'') = Inr l'"
    "map_option map_json (map_of (the (log_entries l')) d) = Some (map_json sample_map)"
    using recorded_map_loads [OF rec load, of sample_io d] by (auto simp: l_def sample_io_def)
  with rec show ?thesis
    by blast
qed

end
