(* ===== verification/Sandbox_Config.thy ===== *)
theory Sandbox_Config
  imports Hash_Map Commit_Encoding
begin

text \<open>
  The sandbox policy of \<^verbatim>\<open>sandbox/config/config.go\<close>: the layout derived from a logical home, the
  configuration and its validation, its canonical JSON and Merkle leaf, and the two decisions the
  daemon asks of it. A Go slice or map that may be nil is an option read by \<^const>\<open>elems\<close>. The leaf interprets \<open>committed_item\<close>: two valid configurations with the
  same leaf have the same canonical tree and so decide alike.
\<close>

section \<open>Data\<close>

record hash_update =
  hu_from :: string
  hu_extensions :: "string list"
  hu_allow_result :: "string list"

record auto_interpose_policy =
  ai_extra_protected_paths :: "string list option"
  ai_disable_snapshot :: "string list option"
  ai_command_allowlist :: "(string \<times> string list option list option) list option"

record auto_interpose =
  ai_enabled :: bool
  ai_platform :: string
  ai_commands :: "string list option"
  ai_policy :: auto_interpose_policy

record sandbox_config =
  sc_version :: int
  sc_environment_allow :: "(string \<times> string list) list option"
  sc_hash_updates :: "hash_update list option"
  sc_auto_interpose :: auto_interpose

record layout =
  ly_home :: string
  ly_library :: string
  ly_tmp :: string
  ly_config_dir :: string
  ly_config_path :: string
  ly_proof_path :: string
  ly_hash_map_log_path :: string
  ly_cache_dir :: string
  ly_transient_root :: string
  ly_anchor_path :: string

datatype sandbox_error = Home_not_absolute | Home_resolve | Home_stat | Home_not_directory
  | Bad_version int | Bad_env_rule string | Bad_env_digest string | Bad_update_rule
  | Bad_update_extension string | Bad_update_result | Platform_not_darwin | No_commands
  | Bad_command string | Bad_allowlist_command string | Bad_allowlist_argument

section \<open>Layout\<close>

text \<open>\<open>ev\<close> is \<^verbatim>\<open>filepath.EvalSymlinks\<close>, \<open>is_dir\<close> what \<^verbatim>\<open>os.Stat\<close> says (\<open>None\<close>: it fails).\<close>

definition layout_of :: "string \<Rightarrow> layout" where
  "layout_of home =
     (let library = path_join [home, ''Library''];
          config_dir = path_join [library, ''Application Support'', ''sandbox''] in
      \<lparr>ly_home = home, ly_library = library, ly_tmp = path_join [home, ''tmp''],
       ly_config_dir = config_dir, ly_config_path = path_join [config_dir, ''config.json''],
       ly_proof_path = path_join [config_dir, ''config.json.proof''],
       ly_hash_map_log_path = path_join [config_dir, ''hash-map-log.json''],
       ly_cache_dir = path_join [library, ''Caches'', ''sandbox''],
       ly_transient_root = path_join [home, ''tmp'', ''sandbox''],
       ly_anchor_path = path_join [library, ''LaunchAgents'', ''com.gkgoat.scripts.agentcommit-anchor.plist'']\<rparr>)"

definition new_layout :: "(string \<Rightarrow> string option) \<Rightarrow> (string \<Rightarrow> bool option) \<Rightarrow> string \<Rightarrow> sandbox_error + layout" where
  "new_layout ev is_dir home =
     (if home = [] \<or> \<not> is_abs home then Inl Home_not_absolute
      else case ev (clean home) of
        None \<Rightarrow> Inl Home_resolve
      | Some home \<Rightarrow> (case is_dir home of
          None \<Rightarrow> Inl Home_stat
        | Some d \<Rightarrow> if d then Inr (layout_of home) else Inl Home_not_directory))"

section \<open>Validation\<close>

definition valid_digest :: "string \<Rightarrow> bool" where
  "valid_digest s \<longleftrightarrow> length s = 64 \<and> to_lower s = s
     \<and> list_all (\<lambda>c. (CHR ''0'' \<le> c \<and> c \<le> CHR ''9'') \<or> (CHR ''a'' \<le> c \<and> c \<le> CHR ''f'')) s"

fun check_env :: "(string \<times> string list) list \<Rightarrow> sandbox_error option" where
  "check_env [] = None"
| "check_env ((name, ds) # rest) =
     (if name = [] \<or> ds = [] then Some (Bad_env_rule name)
      else if \<not> list_all valid_digest ds then Some (Bad_env_digest name)
      else check_env rest)"

fun check_updates :: "hash_update list \<Rightarrow> sandbox_error option" where
  "check_updates [] = None"
| "check_updates (r # rest) =
     (if \<not> valid_digest (hu_from r) \<or> hu_extensions r = [] \<or> hu_allow_result r = [] then Some Bad_update_rule
      else case filter (\<lambda>e. \<not> has_prefix e ''.'') (hu_extensions r) of
        ext # _ \<Rightarrow> Some (Bad_update_extension ext)
      | [] \<Rightarrow> if \<not> list_all valid_digest (hu_allow_result r) then Some Bad_update_result
             else check_updates rest)"

definition auto_commands :: "string list" where
  "auto_commands = [''git'', ''find'', ''grep'', ''kill'', ''pkill'', ''killall'', ''osascript'']"

fun check_commands :: "string list \<Rightarrow> string list \<Rightarrow> sandbox_error option" where
  "check_commands seen [] = None"
| "check_commands seen (name # rest) =
     (if name \<notin> set auto_commands \<or> name \<in> set seen then Some (Bad_command name)
      else check_commands (name # seen) rest)"

definition good_argument :: "string \<Rightarrow> bool" where
  "good_argument arg \<longleftrightarrow> arg \<noteq> [] \<and> CHR 0x00 \<notin> set arg"

fun check_rules :: "(string \<times> string list option list option) list \<Rightarrow> sandbox_error option" where
  "check_rules [] = None"
| "check_rules ((name, rules) # rest) =
     (if name \<notin> set auto_commands then Some (Bad_allowlist_command name)
      else if \<not> list_all (\<lambda>rule. list_all good_argument (elems rule)) (elems rules)
        then Some Bad_allowlist_argument
      else check_rules rest)"

definition check_auto :: "auto_interpose \<Rightarrow> sandbox_error option" where
  "check_auto a =
     (if \<not> ai_enabled a then None
      else if ai_platform a \<noteq> ''darwin'' then Some Platform_not_darwin
      else if elems (ai_commands a) = [] then Some No_commands
      else case check_commands [] (elems (ai_commands a)) of
        Some e \<Rightarrow> Some e
      | None \<Rightarrow> check_rules (go_entries (elems (ai_command_allowlist (ai_policy a)))))"

definition validate_config :: "sandbox_config \<Rightarrow> sandbox_error option" where
  "validate_config c =
     (if sc_version c \<noteq> 1 then Some (Bad_version (sc_version c))
      else case check_env (go_entries (elems (sc_environment_allow c))) of
        Some e \<Rightarrow> Some e
      | None \<Rightarrow> (case check_updates (elems (sc_hash_updates c)) of
          Some e \<Rightarrow> Some e
        | None \<Rightarrow> check_auto (sc_auto_interpose c)))"

section \<open>Canonical JSON and the leaf\<close>

text \<open>\<^verbatim>\<open>canonicalJSON\<close> sorts in place; since slices are shared, that is also what its caller's
  configuration looks like afterwards.\<close>

definition canonical_update :: "hash_update \<Rightarrow> hash_update" where
  "canonical_update r = r\<lparr>hu_extensions := sort (hu_extensions r), hu_allow_result := sort (hu_allow_result r)\<rparr>"

definition canonical_auto :: "auto_interpose \<Rightarrow> auto_interpose" where
  "canonical_auto a = a\<lparr>ai_commands := map_option sort (ai_commands a),
     ai_policy := (ai_policy a)\<lparr>
       ai_extra_protected_paths := map_option sort (ai_extra_protected_paths (ai_policy a)),
       ai_disable_snapshot := map_option sort (ai_disable_snapshot (ai_policy a))\<rparr>\<rparr>"

definition canonical_config :: "sandbox_config \<Rightarrow> sandbox_config" where
  "canonical_config c = c\<lparr>
     sc_environment_allow := map_option (map (\<lambda>(k, ds). (k, sort ds))) (sc_environment_allow c),
     sc_hash_updates := map_option (map canonical_update) (sc_hash_updates c),
     sc_auto_interpose := canonical_auto (sc_auto_interpose c)\<rparr>"

definition update_json :: "hash_update \<Rightarrow> json" where
  "update_json r = JObj [(''from'', JStr (hu_from r)),
     (''extensions'', JArr (map JStr (hu_extensions r))),
     (''allowResult'', JArr (map JStr (hu_allow_result r)))]"

definition auto_policy_json :: "auto_interpose_policy \<Rightarrow> json" where
  "auto_policy_json p = JObj [(''extraProtectedPaths'', json_slice JStr (ai_extra_protected_paths p)),
     (''disableSnapshot'', json_slice JStr (ai_disable_snapshot p)),
     (''commandAllowlist'', json_map (json_slice (json_slice JStr)) (ai_command_allowlist p))]"

definition auto_json :: "auto_interpose \<Rightarrow> json" where
  "auto_json a = JObj [(''enabled'', JBool (ai_enabled a)), (''platform'', JStr (ai_platform a)),
     (''commands'', json_slice JStr (ai_commands a)), (''policy'', auto_policy_json (ai_policy a))]"

definition config_json :: "sandbox_config \<Rightarrow> json" where
  "config_json c = JObj [(''version'', JNum (sc_version c)),
     (''environmentAllow'', json_map (\<lambda>ds. JArr (map JStr ds)) (sc_environment_allow c)),
     (''hashUpdates'', json_slice update_json (sc_hash_updates c)),
     (''autoInterpose'', auto_json (sc_auto_interpose c))]"

definition config_canonical_json :: "sandbox_config \<Rightarrow> sandbox_error + string" where
  "config_canonical_json c = (case validate_config c of
     Some e \<Rightarrow> Inl e | None \<Rightarrow> Inr (json_text (config_json (canonical_config c))))"

text \<open>\<^verbatim>\<open>CommitLeaf\<close> panics on an invalid configuration, here \<open>None\<close>.\<close>

definition sandbox_leaf :: "sandbox_config \<Rightarrow> leaf option" where
  "sandbox_leaf c = (case config_canonical_json c of
     Inl _ \<Rightarrow> None
   | Inr payload \<Rightarrow> Some \<lparr>leaf_tool = ''sandbox'', leaf_id = ''policy'', leaf_kind = kind_policy,
       leaf_payload = bytes_of payload\<rparr>)"

section \<open>Decisions\<close>

definition env_allowed :: "sandbox_config \<Rightarrow> string \<Rightarrow> string \<Rightarrow> bool" where
  "env_allowed c name digest = (case map_of (elems (sc_environment_allow c)) name of
     None \<Rightarrow> True | Some ds \<Rightarrow> list_ex (\<lambda>d. d = digest) ds)"

definition update_matches :: "hash_update \<Rightarrow> string \<Rightarrow> string \<Rightarrow> string \<Rightarrow> bool" where
  "update_matches r from ext result \<longleftrightarrow> hu_from r = from
     \<and> list_ex (\<lambda>e. equal_fold e ext) (hu_extensions r) \<and> list_ex (\<lambda>d. d = result) (hu_allow_result r)"

fun allows_update_in :: "hash_update list \<Rightarrow> string \<Rightarrow> string \<Rightarrow> string \<Rightarrow> bool" where
  "allows_update_in [] from ext result = False"
| "allows_update_in (r # rs) from ext result =
     (if hu_from r \<noteq> from then allows_update_in rs from ext result
      else if \<not> list_ex (\<lambda>e. equal_fold e ext) (hu_extensions r) then allows_update_in rs from ext result
      else if list_ex (\<lambda>d. d = result) (hu_allow_result r) then True
      else allows_update_in rs from ext result)"

definition allows_update :: "sandbox_config \<Rightarrow> string \<Rightarrow> string \<Rightarrow> string \<Rightarrow> bool" where
  "allows_update c = allows_update_in (elems (sc_hash_updates c))"

section \<open>What the leaf commits to\<close>

lemma allows_update_iff: "allows_update c from ext result \<longleftrightarrow>
    (\<exists>r \<in> set (elems (sc_hash_updates c)). update_matches r from ext result)"
proof -
  have "allows_update_in rs from ext result \<longleftrightarrow> (\<exists>r \<in> set rs. update_matches r from ext result)" for rs
    by (induction rs) (auto simp: update_matches_def)
  then show ?thesis
    by (simp add: allows_update_def)
qed

lemma update_json_eq: "update_json r = update_json r' \<longleftrightarrow>
    hu_from r = hu_from r' \<and> hu_extensions r = hu_extensions r' \<and> hu_allow_result r = hu_allow_result r'"
  by (simp add: update_json_def inj_JStr)

lemma config_json_fields:
  assumes "config_json c = config_json c'"
  shows "json_map (\<lambda>ds. JArr (map JStr ds)) (sc_environment_allow c)
      = json_map (\<lambda>ds. JArr (map JStr ds)) (sc_environment_allow c')"
    and "json_slice update_json (sc_hash_updates c) = json_slice update_json (sc_hash_updates c')"
    and "sc_version c = sc_version c'" "auto_json (sc_auto_interpose c) = auto_json (sc_auto_interpose c')"
  using assms by (simp_all add: config_json_def)

lemma list_ex_set: "list_ex P xs \<longleftrightarrow> (\<exists>x \<in> set xs. P x)"
  by (simp add: list_ex_iff)

lemma same_leaf_same_env:
  assumes "config_json (canonical_config c) = config_json (canonical_config c')"
  shows "env_allowed c name digest = env_allowed c' name digest"
proof -
  have e: "map_of (elems (sc_environment_allow (canonical_config d))) name
      = map_option sort (map_of (elems (sc_environment_allow d)) name)" for d
    by (cases "sc_environment_allow d") (simp_all add: canonical_config_def elems_def map_of_map)
  have "map_option (\<lambda>ds. JArr (map JStr (sort ds))) (map_of (elems (sc_environment_allow c)) name)
      = map_option (\<lambda>ds. JArr (map JStr (sort ds))) (map_of (elems (sc_environment_allow c')) name)"
    using json_map_eq [OF config_json_fields(1) [OF assms], of name] by (simp add: e option.map_comp comp_def)
  then have "rel_option (\<lambda>ds ds'. sort ds = sort ds') (map_of (elems (sc_environment_allow c)) name)
      (map_of (elems (sc_environment_allow c')) name)"
    by (cases "map_of (elems (sc_environment_allow c)) name";
        cases "map_of (elems (sc_environment_allow c')) name") (simp_all add: inj_JStr)
  then show ?thesis
    unfolding env_allowed_def by (cases rule: option.rel_cases) (metis list_ex_set option.case set_sort)+
qed

lemma same_leaf_same_updates:
  assumes "config_json (canonical_config c) = config_json (canonical_config c')"
  shows "allows_update c from ext result = allows_update c' from ext result"
proof -
  have e: "elems (sc_hash_updates (canonical_config d)) = map canonical_update (elems (sc_hash_updates d))" for d
    by (cases "sc_hash_updates d") (simp_all add: canonical_config_def elems_def)
  have "map (update_json \<circ> canonical_update) (elems (sc_hash_updates c))
      = map (update_json \<circ> canonical_update) (elems (sc_hash_updates c'))"
    using json_slice_eq [OF config_json_fields(2) [OF assms]] by (simp add: e)
  then have same: "(update_json \<circ> canonical_update) ` set (elems (sc_hash_updates c))
      = (update_json \<circ> canonical_update) ` set (elems (sc_hash_updates c'))"
    by (metis set_map)
  have m: "update_matches r from ext result = update_matches r' from ext result"
    if "(update_json \<circ> canonical_update) r = (update_json \<circ> canonical_update) r'" for r r'
  proof -
    have "hu_from r = hu_from r'" "set (hu_extensions r) = set (hu_extensions r')"
      "set (hu_allow_result r) = set (hu_allow_result r')"
      using that by (auto simp: update_json_eq canonical_update_def) (metis set_sort)+
    then show ?thesis
      by (simp add: update_matches_def list_ex_set)
  qed
  show ?thesis
    unfolding allows_update_iff using same m by (metis (no_types, lifting) image_iff)
qed

text \<open>A configuration whose strings JSON writes faithfully and whose leaf fits its length prefix.\<close>

definition committable :: "sandbox_config \<Rightarrow> bool" where
  "committable c \<longleftrightarrow> validate_config c = None \<and> json_valid (config_json (canonical_config c))
     \<and> length (json_text (config_json (canonical_config c))) < 2 ^ 32"

definition the_sandbox_leaf :: "sandbox_config \<Rightarrow> leaf" where
  "the_sandbox_leaf c = the (sandbox_leaf c)"

lemma the_sandbox_leaf_eq: "committable c \<Longrightarrow> the_sandbox_leaf c =
    \<lparr>leaf_tool = ''sandbox'', leaf_id = ''policy'', leaf_kind = kind_policy,
     leaf_payload = bytes_of (json_text (config_json (canonical_config c)))\<rparr>"
  by (simp add: the_sandbox_leaf_def sandbox_leaf_def config_canonical_json_def committable_def)

interpretation sandbox_item: committed_item the_sandbox_leaf "config_json \<circ> canonical_config"
  committable "{''sandbox''}"
proof
  fix x y assume "committable x" "committable y" "the_sandbox_leaf x = the_sandbox_leaf y"
  then show "(config_json \<circ> canonical_config) x = (config_json \<circ> canonical_config) y"
    by (auto simp: the_sandbox_leaf_eq committable_def intro: json_text_inj)
next
  fix x assume "committable x"
  then show "leaf_sized (the_sandbox_leaf x)"
    by (simp add: the_sandbox_leaf_eq leaf_sized_def committable_def)
  from \<open>committable x\<close> show "leaf_tool (the_sandbox_leaf x) \<in> {''sandbox''}"
    by (simp add: the_sandbox_leaf_eq)
qed

section \<open>Validation says what it should\<close>

lemma check_env_None: "check_env es = None \<longleftrightarrow>
    list_all (\<lambda>(name, ds). name \<noteq> [] \<and> ds \<noteq> [] \<and> list_all valid_digest ds) es"
  by (induction es rule: check_env.induct) auto

lemma check_updates_None: "check_updates rs = None \<longleftrightarrow>
    list_all (\<lambda>r. valid_digest (hu_from r) \<and> hu_extensions r \<noteq> [] \<and> hu_allow_result r \<noteq> []
      \<and> list_all (\<lambda>e. has_prefix e ''.'') (hu_extensions r) \<and> list_all valid_digest (hu_allow_result r)) rs"
proof (induction rs)
  case (Cons r rs)
  have "filter (\<lambda>e. \<not> has_prefix e ''.'') (hu_extensions r) = [] \<longleftrightarrow>
      list_all (\<lambda>e. has_prefix e ''.'') (hu_extensions r)"
    by (simp add: filter_empty_conv list_all_iff)
  with Cons show ?case
    by (cases "filter (\<lambda>e. \<not> has_prefix e ''.'') (hu_extensions r)") auto
qed simp

lemma check_commands_None: "check_commands seen ns = None \<longleftrightarrow>
    set ns \<subseteq> set auto_commands \<and> distinct ns \<and> set ns \<inter> set seen = {}"
  by (induction seen ns rule: check_commands.induct) auto

lemma check_rules_None: "check_rules es = None \<longleftrightarrow>
    list_all (\<lambda>(name, rules). name \<in> set auto_commands
      \<and> (\<forall>rule \<in> set (elems rules). \<forall>arg \<in> set (elems rule). good_argument arg)) es"
  by (induction es rule: check_rules.induct) (auto simp: list_all_iff)

lemma validate_config_None: "validate_config c = None \<longleftrightarrow> sc_version c = 1
    \<and> check_env (go_entries (elems (sc_environment_allow c))) = None
    \<and> check_updates (elems (sc_hash_updates c)) = None \<and> check_auto (sc_auto_interpose c) = None"
  by (auto simp: validate_config_def split: option.splits)

text \<open>An update allowed by a valid policy leads from a digest to a digest.\<close>

lemma allows_update_digests:
  assumes "validate_config c = None" "allows_update c from ext result"
  shows "valid_digest from \<and> valid_digest result"
  using assms by (auto simp: allows_update_iff validate_config_None check_updates_None update_matches_def list_all_iff
      list_ex_iff)

lemma layout_paths_abs:
  assumes "new_layout ev is_dir home = Inr l" "\<And>p q. ev p = Some q \<Longrightarrow> is_abs q"
  shows "is_abs (ly_config_path l) \<and> is_abs (ly_proof_path l) \<and> is_abs (ly_hash_map_log_path l)
    \<and> is_abs (ly_cache_dir l) \<and> is_abs (ly_transient_root l) \<and> is_abs (ly_anchor_path l)"
  using assms by (auto simp: new_layout_def layout_of_def Let_def is_abs_path_join
      split: if_splits option.splits)

section \<open>Properties\<close>

text \<open>C5: A sandbox policy that verifies against the anchored root decides as one that was committed: some
  configuration whose leaf went into the tree gives the same answer to every environment check and
  every hash-update check. (SHA-256 has no collision among the messages hashed.)\<close>

theorem verified_policy_decides_as_committed:
  assumes "build H (map the_sandbox_leaf cs @ others) = Inr t"
    and "verify_proof H (the_sandbox_leaf c) p (tree_root t)"
    and "committable c" "\<forall>c' \<in> set cs. committable c'"
    and "\<forall>l \<in> set others. leaf_sized l \<and> leaf_tool l \<notin> {''sandbox''}"
    and "\<And>m. length (H m) = 32" "\<forall>s \<in> set p. length (step_hash s) = 32"
    and "inj_on H (set (build_messages H (map the_sandbox_leaf cs @ others))
      \<union> set (verify_messages H (the_sandbox_leaf c) p))"
  shows "\<exists>c' \<in> set cs. (\<forall>name digest. env_allowed c' name digest = env_allowed c name digest)
    \<and> (\<forall>from ext result. allows_update c' from ext result = allows_update c from ext result)"
  using sandbox_item.verified_was_committed [OF assms] same_leaf_same_env same_leaf_same_updates
  by (metis comp_apply)

definition sample_config :: sandbox_config where
  "sample_config = \<lparr>sc_version = 1, sc_environment_allow = Some [(''K'', [replicate 64 (CHR ''a'')])],
     sc_hash_updates = None,
     sc_auto_interpose = \<lparr>ai_enabled = False, ai_platform = [], ai_commands = None,
       ai_policy = \<lparr>ai_extra_protected_paths = None, ai_disable_snapshot = None, ai_command_allowlist = None\<rparr>\<rparr>\<rparr>"

lemma sample_config_committable: "committable sample_config"
proof -
  have "validate_config sample_config = None"
    by code_simp
  moreover have "json_valid (config_json (canonical_config sample_config))"
    by code_simp
  moreover have "length (json_text (config_json (canonical_config sample_config))) < 1000"
    by code_simp
  ultimately show ?thesis
    by (simp add: committable_def)
qed

lemma verified_policy_decides_as_committed_witness:
  "\<exists>c' \<in> set [sample_config]. (\<forall>name digest. env_allowed c' name digest = env_allowed sample_config name digest)
    \<and> (\<forall>from ext result. allows_update c' from ext result = allows_update sample_config from ext result)"
proof (rule verified_policy_decides_as_committed)
  let ?l = "the_sandbox_leaf sample_config"
  let ?t = "\<lparr>tree_levels = build_levels sample_hash [leaf_hash sample_hash ?l], tree_index = [leaf_key ?l \<mapsto> 0]\<rparr>"
  show "build sample_hash (map the_sandbox_leaf [sample_config] @ []) = Inr ?t"
    by (simp add: build_def)
  show "verify_proof sample_hash ?l [] (tree_root ?t)"
    by (simp add: verify_proof_def tree_root_def build_levels.simps)
  show "inj_on sample_hash (set (build_messages sample_hash (map the_sandbox_leaf [sample_config] @ []))
      \<union> set (verify_messages sample_hash ?l []))"
    by (simp add: build_messages_def verify_messages_def build_levels.simps)
qed (simp_all add: sample_config_committable)

end
