(* ===== verification/Interpose_Policy.thy ===== *)
theory Interpose_Policy
  imports Go_Json Go_Path Commit_Encoding
begin

text \<open>
  The policies of the interposer: the optional configuration file (\<^verbatim>\<open>interpose/config\<close>), the
  protected macOS roots and the path normalisation before they are matched
  (\<^verbatim>\<open>interpose/policy/tcc/paths.go\<close>), and the committed command allowlist with its verification
  against the anchor (\<^verbatim>\<open>interpose/policy/command\<close>). Both the configuration and the allowlist have a
  Merkle leaf and interpret \<open>committed_item\<close>. Parameters: \<open>home\<close>, \<open>wd\<close> and \<open>ev\<close> are the results of
  \<^verbatim>\<open>os.UserHomeDir\<close>, \<^verbatim>\<open>os.Getwd\<close> and \<^verbatim>\<open>filepath.EvalSymlinks\<close> (\<open>None\<close>: an error).
\<close>

section \<open>Configuration\<close>

record interpose_config =
  ic_extra_protected_paths :: "string list"
  ic_disable_snapshot :: "string list"
  ic_snapshot_prefix :: string
  ic_tool_timeout :: string

definition default_interpose_config :: interpose_config where
  "default_interpose_config = \<lparr>ic_extra_protected_paths = [], ic_disable_snapshot = [],
     ic_snapshot_prefix = ''interpose/snapshot'', ic_tool_timeout = []\<rparr>"

definition config_line :: "interpose_config \<Rightarrow> string \<Rightarrow> interpose_config" where
  "config_line cfg text =
     (let line = trim_space text in
      if line = [] \<or> has_prefix line ''#'' then cfg
      else case cut (CHR '':'') line of (k, v, ok) \<Rightarrow>
        if \<not> ok then cfg
        else let key = trim_space k; val = trim_space v in
          if key = ''extra-protected-path'' then
            cfg\<lparr>ic_extra_protected_paths := ic_extra_protected_paths cfg @ [val]\<rparr>
          else if key = ''disable-snapshot'' then
            cfg\<lparr>ic_disable_snapshot := ic_disable_snapshot cfg @ [val]\<rparr>
          else if key = ''snapshot-prefix'' then
            (if val \<noteq> [] then cfg\<lparr>ic_snapshot_prefix := val\<rparr> else cfg)
          else if key = ''tool-timeout'' then cfg\<lparr>ic_tool_timeout := val\<rparr>
          else cfg)"

text \<open>\<^verbatim>\<open>Load\<close>: \<open>loaded\<close> is the package's cache, \<open>file\<close> the text of the file, \<open>None\<close> if it does not open.\<close>

definition load_interpose_config :: "interpose_config option \<Rightarrow> string option
    \<Rightarrow> interpose_config \<times> interpose_config option" where
  "load_interpose_config loaded file =
     (case loaded of
        Some cfg \<Rightarrow> (cfg, loaded)
      | None \<Rightarrow>
          let cfg = (case file of None \<Rightarrow> default_interpose_config
            | Some text \<Rightarrow> foldl config_line default_interpose_config (fst (scan_lines text)))
          in (cfg, Some cfg))"

definition config_snapshots_disabled :: "interpose_config \<Rightarrow> string \<Rightarrow> bool" where
  "config_snapshots_disabled cfg repo = list_ex (\<lambda>prefix. has_prefix repo prefix) (ic_disable_snapshot cfg)"

definition interpose_config_leaf :: "interpose_config \<Rightarrow> leaf" where
  "interpose_config_leaf c = \<lparr>leaf_tool = ''interpose'', leaf_id = ''policy'', leaf_kind = kind_policy,
     leaf_payload = encode_kv
       [(''extra-protected-paths'', string_of (encode_string_set (ic_extra_protected_paths c))),
        (''disable-snapshot'', string_of (encode_string_set (ic_disable_snapshot c)))]\<rparr>"

section \<open>Protected paths\<close>

definition default_protected_relative :: "string list" where
  "default_protected_relative =
     [''Library'', ''Documents'', ''Desktop'', ''Downloads'', ''Pictures'', ''Movies'', ''Music'']"

definition default_protected_roots :: "string option \<Rightarrow> string list option" where
  "default_protected_roots home =
     map_option (\<lambda>h. map (\<lambda>rel. path_join [h, rel]) default_protected_relative) home"

definition matches_root :: "string \<Rightarrow> string \<Rightarrow> bool" where
  "matches_root path root = (path = clean root \<or> has_prefix path (clean root @ ''/''))"

definition matches_roots :: "string \<Rightarrow> string list \<Rightarrow> bool" where
  "matches_roots path roots = list_ex (matches_root path) roots"

definition protected_roots :: "string option \<Rightarrow> interpose_config \<Rightarrow> string list" where
  "protected_roots home cfg = (case default_protected_roots home of
     None \<Rightarrow> ic_extra_protected_paths cfg
   | Some roots \<Rightarrow> roots @ ic_extra_protected_paths cfg)"

definition expand_home :: "string option \<Rightarrow> string \<Rightarrow> string option" where
  "expand_home home path =
     (if has_prefix path ''~/'' then map_option (\<lambda>h. path_join [h, drop 2 path]) home
      else if path = ''~'' then home
      else Some path)"

definition make_abs :: "string option \<Rightarrow> string \<Rightarrow> string option" where
  "make_abs wd path = (if is_abs path then Some path else map_option (\<lambda>w. path_join [w, path]) wd)"

definition resolve_clean :: "(string \<Rightarrow> string option) \<Rightarrow> string \<Rightarrow> string" where
  "resolve_clean ev path = (case ev (clean path) of Some p \<Rightarrow> p | None \<Rightarrow> clean path)"

definition normalize_path :: "string option \<Rightarrow> string option \<Rightarrow> (string \<Rightarrow> string option)
    \<Rightarrow> string \<Rightarrow> string option" where
  "normalize_path home wd ev path =
     (if path = [] then Some []
      else case expand_home home path of
        None \<Rightarrow> None
      | Some p \<Rightarrow> map_option (resolve_clean ev) (make_abs wd p))"

definition is_protected :: "string option \<Rightarrow> string option \<Rightarrow> (string \<Rightarrow> string option)
    \<Rightarrow> interpose_config \<Rightarrow> string \<Rightarrow> bool" where
  "is_protected home wd ev cfg path = (case normalize_path home wd ev path of
     None \<Rightarrow> False
   | Some norm \<Rightarrow> norm \<noteq> [] \<and> matches_roots norm (protected_roots home cfg))"

definition is_protected_dir_name :: "string \<Rightarrow> bool" where
  "is_protected_dir_name name = list_ex (\<lambda>rel. name = rel) default_protected_relative"

definition tcc_would_traverse :: "string option \<Rightarrow> string option \<Rightarrow> (string \<Rightarrow> string option)
    \<Rightarrow> interpose_config \<Rightarrow> string \<Rightarrow> bool" where
  "tcc_would_traverse home wd ev cfg root = (case normalize_path home wd ev root of
     None \<Rightarrow> False
   | Some norm \<Rightarrow>
       if norm = (case home of None \<Rightarrow> [] | Some h \<Rightarrow> h) \<or> norm = ''/'' then True
       else is_protected home wd ev cfg norm)"

section \<open>The command allowlist\<close>

text \<open>\<open>None\<close> is a nil map, a nil list of rules or a nil rule, which JSON writes \<^verbatim>\<open>null\<close>.\<close>

type_synonym rules = "string list option list option"
type_synonym allowlist = "(string \<times> rules) list option"

definition is_pid :: "string \<Rightarrow> bool" where
  "is_pid value \<longleftrightarrow> value \<noteq> [] \<and> list_all is_digit value"

fun rule_matches :: "string list \<Rightarrow> string list \<Rightarrow> bool" where
  "rule_matches [] [] = True"
| "rule_matches (want # rule) (arg # args) =
     (if want = ''{pid}'' then (if \<not> is_pid arg then False else rule_matches rule args)
      else if arg \<noteq> want then False
      else rule_matches rule args)"
| "rule_matches _ _ = False"

definition rules_of :: "allowlist \<Rightarrow> string \<Rightarrow> string list list" where
  "rules_of list name = (case map_of (elems list) name of None \<Rightarrow> [] | Some rs \<Rightarrow> map elems (elems rs))"

definition allows :: "allowlist \<Rightarrow> string \<Rightarrow> string list \<Rightarrow> bool" where
  "allows list name args = list_ex (\<lambda>rule. length rule = length args \<and> rule_matches rule args) (rules_of list name)"

definition allowlist_json :: "allowlist \<Rightarrow> json" where
  "allowlist_json = json_map (json_slice (json_slice JStr))"

definition allowlist_leaf :: "allowlist \<Rightarrow> leaf" where
  "allowlist_leaf a = \<lparr>leaf_tool = ''interpose-command'', leaf_id = ''allowlist'', leaf_kind = kind_policy,
     leaf_payload = bytes_of (json_text (allowlist_json a))\<rparr>"

datatype command_error = List_read string | List_decode string | Not_committed | Root_unreadable
  | Proof_read | Proof_decode | Verification_failed

text \<open>\<open>read\<close> is \<^verbatim>\<open>os.ReadFile\<close>, \<open>embedded\<close> the built-in list, \<open>dec\<close> and \<open>decp\<close> the JSON decoders of the
  list and of a proof file.\<close>

datatype file_outcome = File_missing | File_failed | File_data bytes

definition load_allowlist :: "(string \<Rightarrow> file_outcome) \<Rightarrow> bytes \<Rightarrow> (bytes \<Rightarrow> allowlist option)
    \<Rightarrow> string \<Rightarrow> command_error + allowlist" where
  "load_allowlist read embedded dec path =
     (case read path of
        File_failed \<Rightarrow> Inl (List_read path)
      | File_missing \<Rightarrow> (case dec embedded of None \<Rightarrow> Inl (List_decode path) | Some l \<Rightarrow> Inr l)
      | File_data b \<Rightarrow> (case dec b of None \<Rightarrow> Inl (List_decode path) | Some l \<Rightarrow> Inr l))"

definition decode_proof_data :: "(bytes \<Rightarrow> proof_file_json option) \<Rightarrow> bytes \<Rightarrow> proof_file option" where
  "decode_proof_data decp b = (case decp b of None \<Rightarrow> None
     | Some w \<Rightarrow> (case decode_proof_file w of Inl _ \<Rightarrow> None | Inr pf \<Rightarrow> Some pf))"

text \<open>\<^verbatim>\<open>Verify\<close> returns the loaded list also with an error; both results are kept.\<close>

definition verify_allowlist :: "(bytes \<Rightarrow> hash) \<Rightarrow> (string \<Rightarrow> file_outcome) \<Rightarrow> bytes \<Rightarrow> (bytes \<Rightarrow> allowlist option)
    \<Rightarrow> (bytes \<Rightarrow> proof_file_json option) \<Rightarrow> anchor_error + hash \<Rightarrow> string \<Rightarrow> allowlist \<times> command_error option" where
  "verify_allowlist H read embedded dec decp root path =
     (case load_allowlist read embedded dec path of
        Inl e \<Rightarrow> (None, Some e)
      | Inr list \<Rightarrow>
          (case root of
             Inl e \<Rightarrow> (list, Some (if e = AnchorNotInstalled then Not_committed else Root_unreadable))
           | Inr r \<Rightarrow>
               (case read (path @ ''.proof'') of
                  File_data b \<Rightarrow>
                    (case decode_proof_data decp b of
                       None \<Rightarrow> (list, Some Proof_decode)
                     | Some pf \<Rightarrow>
                         (case map_of (pf_entries pf) (leaf_key (allowlist_leaf list)) of
                            None \<Rightarrow> (list, Some Verification_failed)
                          | Some p \<Rightarrow>
                              if \<not> verify_proof H (allowlist_leaf list) p r then (list, Some Verification_failed)
                              else (list, None)))
                | _ \<Rightarrow> (list, Some Proof_read))))"

section \<open>What the configuration leaf commits to\<close>

definition config_view :: "interpose_config \<Rightarrow> string set \<times> string set" where
  "config_view c = (set (ic_extra_protected_paths c), set (ic_disable_snapshot c))"

definition config_sized :: "interpose_config \<Rightarrow> bool" where
  "config_sized c \<longleftrightarrow> strings_sized (ic_extra_protected_paths c) \<and> strings_sized (ic_disable_snapshot c)
     \<and> length (encode_string_set (ic_extra_protected_paths c)) < 2 ^ 32
     \<and> length (encode_string_set (ic_disable_snapshot c)) < 2 ^ 32
     \<and> length (leaf_payload (interpose_config_leaf c)) < 2 ^ 32"

lemma string_of_eq_iff [simp]: "string_of a = string_of b \<longleftrightarrow> a = b"
  by (metis bytes_of_string_of)

interpretation interpose_item: committed_item interpose_config_leaf config_view config_sized "{''interpose''}"
proof
  fix x y assume g: "config_sized x" "config_sized y" and e: "interpose_config_leaf x = interpose_config_leaf y"
  let ?kv = "\<lambda>c. [(''extra-protected-paths'', string_of (encode_string_set (ic_extra_protected_paths c))),
        (''disable-snapshot'', string_of (encode_string_set (ic_disable_snapshot c)))]"
  have "map_of (?kv x) = map_of (?kv y)"
    using e g by (intro encode_kv_inj)
      (simp_all add: interpose_config_leaf_def kv_sized_def strings_sized_def config_sized_def)
  from fun_cong [OF this, of "''extra-protected-paths''"] fun_cong [OF this, of "''disable-snapshot''"]
  show "config_view x = config_view y"
    using g by (simp add: config_view_def encode_string_set_eq_iff config_sized_def)
qed (simp_all add: interpose_config_leaf_def leaf_sized_def config_sized_def)

definition allowlist_ok :: "allowlist \<Rightarrow> bool" where
  "allowlist_ok a \<longleftrightarrow> json_valid (allowlist_json a) \<and> length (json_text (allowlist_json a)) < 2 ^ 32"

interpretation allowlist_item: committed_item allowlist_leaf allowlist_json allowlist_ok "{''interpose-command''}"
  by unfold_locales
    (auto simp: allowlist_leaf_def leaf_sized_def allowlist_ok_def intro: json_text_inj)

lemma allowlist_json_rules:
  assumes "allowlist_json a = allowlist_json b"
  shows "rules_of a name = rules_of b name"
proof -
  have inj: "json_slice JStr x = json_slice JStr y \<Longrightarrow> x = y" for x y
    by (erule json_slice_inj) simp
  have "json_slice (json_slice JStr) x = json_slice (json_slice JStr) y \<Longrightarrow> x = y" for x y
    by (erule json_slice_inj) (rule inj)
  then have "inj (json_slice (json_slice JStr))"
    by (rule injI)
  moreover have "map_option (json_slice (json_slice JStr)) (map_of (elems a) name)
      = map_option (json_slice (json_slice JStr)) (map_of (elems b) name)"
    using assms unfolding allowlist_json_def by (rule json_map_eq)
  ultimately have "map_of (elems a) name = map_of (elems b) name"
    by (metis option.inj_map injD)
  then show ?thesis
    by (simp add: rules_of_def)
qed

lemma same_leaf_same_allows: "allowlist_json a = allowlist_json b \<Longrightarrow> allows a name args = allows b name args"
  unfolding allows_def using allowlist_json_rules [of a b name] by simp

text \<open>The proof a proof file presents for a leaf key.\<close>

definition presented_proof :: "(bytes \<Rightarrow> proof_file_json option) \<Rightarrow> file_outcome \<Rightarrow> string \<Rightarrow> merkle_proof option" where
  "presented_proof decp f key = (case f of
     File_data b \<Rightarrow> (case decode_proof_data decp b of None \<Rightarrow> None | Some pf \<Rightarrow> map_of (pf_entries pf) key)
   | _ \<Rightarrow> None)"

lemma presented_proof_wf: "presented_proof decp f key = Some p \<Longrightarrow> list_all step_wf p"
  using decode_proof_file_wf
  by (auto simp: presented_proof_def decode_proof_data_def split: file_outcome.splits option.splits sum.splits)

lemma verify_allowlist_None:
  assumes "verify_allowlist H read embedded dec decp root path = (list, None)"
  obtains r p where "root = Inr r" "load_allowlist read embedded dec path = Inr list"
    "presented_proof decp (read (path @ ''.proof'')) (leaf_key (allowlist_leaf list)) = Some p"
    "verify_proof H (allowlist_leaf list) p r"
proof -
  obtain l where l: "load_allowlist read embedded dec path = Inr l"
    using assms by (auto simp: verify_allowlist_def split: sum.splits)
  obtain r where r: "root = Inr r"
    using assms l by (auto simp: verify_allowlist_def split: sum.splits)
  obtain b where b: "read (path @ ''.proof'') = File_data b"
    using assms l r by (auto simp: verify_allowlist_def split: file_outcome.splits)
  obtain pf where pf: "decode_proof_data decp b = Some pf"
    using assms l r b by (auto simp: verify_allowlist_def split: option.splits)
  obtain p where p: "map_of (pf_entries pf) (leaf_key (allowlist_leaf l)) = Some p"
    using assms l r b pf by (auto simp: verify_allowlist_def split: option.splits)
  have v: "verify_proof H (allowlist_leaf l) p r" "list = l"
    using assms l r b pf p by (auto simp: verify_allowlist_def split: if_splits)
  have "presented_proof decp (read (path @ ''.proof'')) (leaf_key (allowlist_leaf list)) = Some p"
    using b pf p v(2) by (simp add: presented_proof_def)
  with l r v show thesis
    using that by blast
qed

section \<open>Matching\<close>

text \<open>What a rule promises: the arguments are the rule's, except that a \<^verbatim>\<open>{pid}\<close> stands for digits.\<close>

lemma rule_matches_iff: "rule_matches rule args \<longleftrightarrow>
    list_all2 (\<lambda>want arg. if want = ''{pid}'' then is_pid arg else arg = want) rule args"
  by (induction rule args rule: rule_matches.induct) auto

lemma is_pid_not_flag: "is_pid s \<Longrightarrow> \<not> has_prefix s ''-''"
  by (cases s) (auto simp: is_pid_def is_digit_def)

lemma matches_root_clean:
  assumes "clean root \<noteq> ''/''"
  shows "matches_root path root \<longleftrightarrow> path = clean root \<or> (\<exists>rest. path = clean root @ ''/'' @ rest)"
  by (auto simp: matches_root_def has_prefix_iff)

text \<open>Everything below a protected path is protected.\<close>

lemma matches_roots_below: "matches_roots p roots \<Longrightarrow> matches_roots (p @ ''/'' @ rest) roots"
  unfolding matches_roots_def matches_root_def has_prefix_iff list_ex_iff by (metis append.assoc)

lemma matches_roots_mono: "matches_roots p roots \<Longrightarrow> set roots \<subseteq> set roots' \<Longrightarrow> matches_roots p roots'"
  by (auto simp: matches_roots_def list_ex_iff)

lemma normalize_path_abs:
  assumes "normalize_path home wd ev path = Some norm" "path \<noteq> []"
    and "\<And>w. wd = Some w \<Longrightarrow> is_abs w" "\<And>p q. ev p = Some q \<Longrightarrow> is_abs q"
  shows "is_abs norm"
proof -
  obtain p q where "make_abs wd p = Some q" and norm: "norm = resolve_clean ev q"
    using assms(1,2) by (auto simp: normalize_path_def split: option.splits)
  then have "is_abs q"
    using assms(3) by (auto simp: make_abs_def is_abs_path_join split: if_splits)
  with norm assms(4) show ?thesis
    by (auto simp: resolve_clean_def split: option.splits)
qed

text \<open>Configuration only widens the default protection.\<close>

lemma protected_roots_widen:
  "default_protected_roots home = Some roots \<Longrightarrow> set roots \<subseteq> set (protected_roots home cfg)"
  by (auto simp: protected_roots_def)

section \<open>Properties\<close>

text \<open>C4: A command allowlist that \<^verbatim>\<open>Verify\<close> returns without an error permits exactly the invocations that a
  committed allowlist permits: some list whose leaf went into the tree behind the anchored root gives
  the same answer for every command and every argument vector. \<open>p\<close> is the proof the file presents.\<close>

theorem verified_allowlist_permits_as_committed:
  assumes "verify_allowlist H read embedded dec decp (Inr (tree_root t)) path = (list, None)"
    and "build H (map allowlist_leaf as @ others) = Inr t"
    and "allowlist_ok list" "\<forall>a \<in> set as. allowlist_ok a"
    and "\<forall>l \<in> set others. leaf_sized l \<and> leaf_tool l \<notin> {''interpose-command''}"
    and "\<And>m. length (H m) = 32"
    and "p = the (presented_proof decp (read (path @ ''.proof'')) (leaf_key (allowlist_leaf list)))"
    and "inj_on H (set (build_messages H (map allowlist_leaf as @ others)) \<union> set (verify_messages H (allowlist_leaf list) p))"
  shows "\<exists>a \<in> set as. \<forall>name args. allows a name args = allows list name args"
proof -
  have p: "presented_proof decp (read (path @ ''.proof'')) (leaf_key (allowlist_leaf list)) = Some p"
    "verify_proof H (allowlist_leaf list) p (tree_root t)"
    using assms(1,7) by (auto elim!: verify_allowlist_None)
  have "\<exists>a \<in> set as. allowlist_json a = allowlist_json list"
    using allowlist_item.verified_was_committed
      [OF assms(2) p(2) assms(3-6) step_wf_length [OF presented_proof_wf [OF p(1)]] assms(8)] .
  with same_leaf_same_allows show ?thesis
    by blast
qed

definition sample_list :: allowlist where
  "sample_list = Some [(''kill'', Some [Some [''-0'', ''{pid}'']])]"

definition sample_proof_file :: "bytes \<Rightarrow> proof_file_json option" where
  "sample_proof_file b = Some \<lparr>pfj_root = [], pfj_entries = [(leaf_key (allowlist_leaf sample_list), [])]\<rparr>"

lemma sample_list_ok: "allowlist_ok sample_list"
proof -
  have "json_valid (allowlist_json sample_list)"
    by code_simp
  moreover have "length (json_text (allowlist_json sample_list)) < 1000"
    by code_simp
  ultimately show ?thesis
    by (simp add: allowlist_ok_def)
qed

lemma verified_allowlist_permits_as_committed_witness:
  "\<exists>a \<in> set [sample_list]. \<forall>name args. allows a name args = allows sample_list name args"
proof (rule verified_allowlist_permits_as_committed)
  let ?l = "allowlist_leaf sample_list"
  let ?t = "\<lparr>tree_levels = build_levels sample_hash [leaf_hash sample_hash ?l], tree_index = [leaf_key ?l \<mapsto> 0]\<rparr>"
  have pres: "presented_proof sample_proof_file (File_data []) (leaf_key ?l) = Some []"
    by (simp add: presented_proof_def decode_proof_data_def sample_proof_file_def decode_proof_file_def)
  show "build sample_hash (map allowlist_leaf [sample_list] @ []) = Inr ?t"
    by (simp add: build_def)
  show "verify_allowlist sample_hash (\<lambda>_. File_data []) [] (\<lambda>_. Some sample_list) sample_proof_file
      (Inr (tree_root ?t)) ''/l'' = (sample_list, None)"
    by (simp add: verify_allowlist_def load_allowlist_def decode_proof_data_def sample_proof_file_def
        decode_proof_file_def verify_proof_def tree_root_def build_levels.simps)
  show "[] = the (presented_proof sample_proof_file ((\<lambda>_. File_data []) (''/l'' @ ''.proof'')) (leaf_key ?l))"
    by (simp add: pres)
  show "inj_on sample_hash (set (build_messages sample_hash (map allowlist_leaf [sample_list] @ []))
      \<union> set (verify_messages sample_hash ?l []))"
    by (simp add: build_messages_def verify_messages_def build_levels.simps)
qed (simp_all add: sample_list_ok sample_hash_def)

text \<open>What an allowlist permits: a command with exactly these arguments if and only if some rule of the
  command has the same length and agrees at every position, where \<^verbatim>\<open>{pid}\<close> stands for a non-empty
  string of decimal digits and everything else for itself.\<close>

theorem allows_characterised:
  "allows list name args \<longleftrightarrow> (\<exists>rule \<in> set (rules_of list name).
     list_all2 (\<lambda>want arg. if want = ''{pid}'' then arg \<noteq> [] \<and> list_all is_digit arg else arg = want) rule args)"
proof -
  have "length rule = length args \<and> rule_matches rule args \<longleftrightarrow>
      list_all2 (\<lambda>want arg. if want = ''{pid}'' then arg \<noteq> [] \<and> list_all is_digit arg else arg = want) rule args" for rule
    unfolding rule_matches_iff is_pid_def by (blast dest: list_all2_lengthD)
  then show ?thesis
    by (simp add: allows_def list_ex_iff)
qed

end
