(* ===== verification/Interpose_Core.thy ===== *)
theory Interpose_Core
  imports Interpose_Policy
begin

text \<open>
  The frame of the interposer (\<^verbatim>\<open>interpose/core\<close>): the policy a wrapper sees, the typed operations
  through which it acts, the confirmation PIN, the search for the real binary behind the
  interposer on \<^verbatim>\<open>PATH\<close>, and the argument helpers.

  External effects are a trace of events. The operations of a context answer each request as a
  function of the trace so far, so they may behave differently at every call; every function that
  acts takes the trace and returns it extended. Both constructors of a context (\<^verbatim>\<open>NewContext\<close> and the
  sandbox daemon's) supply operations, so the nil checks of \<^verbatim>\<open>RunCommand\<close> have no branch here.
\<close>

section \<open>Policy view\<close>

record policy_view =
  pv_extra_protected_paths :: "string list"
  pv_disable_snapshot :: "string list"
  pv_snapshot_prefix :: string
  pv_command_allowlist :: allowlist

definition snapshots_disabled :: "policy_view \<Rightarrow> string \<Rightarrow> bool" where
  "snapshots_disabled p repo = list_ex (\<lambda>prefix. prefix \<noteq> [] \<and> length prefix \<le> length repo
     \<and> take (length prefix) repo = prefix) (pv_disable_snapshot p)"

definition policy_protects :: "policy_view \<Rightarrow> string \<Rightarrow> bool" where
  "policy_protects p path = matches_roots path (pv_extra_protected_paths p)"

text \<open>\<^verbatim>\<open>HostPolicyView\<close>; \<open>verified\<close> is what \<^const>\<open>verify_allowlist\<close> returned.\<close>

definition host_policy_view :: "string option \<Rightarrow> interpose_config \<Rightarrow> allowlist \<times> command_error option \<Rightarrow> policy_view" where
  "host_policy_view home cfg verified = \<lparr>
     pv_extra_protected_paths = (case default_protected_roots home of None \<Rightarrow> [] | Some roots \<Rightarrow> roots)
       @ ic_extra_protected_paths cfg,
     pv_disable_snapshot = ic_disable_snapshot cfg,
     pv_snapshot_prefix = ic_snapshot_prefix cfg,
     pv_command_allowlist = (case verified of (list, None) \<Rightarrow> list | (_, Some _) \<Rightarrow> None)\<rparr>"

section \<open>Operations\<close>

text \<open>\<open>cmd_capture\<close>: the caller gave a buffer for the standard output. A non-zero exit of the child is
  an outcome, not an error: \<open>ro_failed\<close> is the Go error of the call.\<close>

record command =
  cmd_path :: string
  cmd_args :: "string list"
  cmd_dir :: string
  cmd_env :: "string list"
  cmd_capture :: bool

record run_outcome =
  ro_exit :: int
  ro_failed :: bool
  ro_stdout :: string

datatype message = Skipping_path string | Not_allowlisted string | Snapshot_taken string
  | Restore_warning | Restored string string | Would_restore string string

datatype event = Ev_run command run_outcome | Ev_read string "bytes option"
  | Ev_confirm string bool | Ev_note message

type_synonym trace = "event list"

record operations =
  op_run :: "trace \<Rightarrow> command \<Rightarrow> run_outcome"
  op_read :: "trace \<Rightarrow> string \<Rightarrow> bytes option"
  op_confirm :: "trace \<Rightarrow> string \<Rightarrow> bool"

record invocation =
  cx_name :: string
  cx_args :: "string list"
  cx_real_binary :: string
  cx_dir :: string
  cx_env :: "string list"
  cx_ops :: operations
  cx_policy :: policy_view

definition run_command :: "operations \<Rightarrow> command \<Rightarrow> trace \<Rightarrow> run_outcome \<times> trace" where
  "run_command ops cmd tr = (let r = op_run ops tr cmd in (r, tr @ [Ev_run cmd r]))"

definition ops_read_file :: "operations \<Rightarrow> string \<Rightarrow> trace \<Rightarrow> bytes option \<times> trace" where
  "ops_read_file ops path tr = (let r = op_read ops tr path in (r, tr @ [Ev_read path r]))"

definition confirm_pin :: "operations \<Rightarrow> string \<Rightarrow> trace \<Rightarrow> bool \<times> trace" where
  "confirm_pin ops prompt tr = (let r = op_confirm ops tr prompt in (r, tr @ [Ev_confirm prompt r]))"

definition say :: "message \<Rightarrow> trace \<Rightarrow> trace" where
  "say n tr = tr @ [Ev_note n]"

text \<open>\<^verbatim>\<open>HostOperations.Run\<close>; \<open>child\<close> is the end of the child process: \<open>Child_signalled\<close> is a wait status
  whose \<^verbatim>\<open>ExitStatus\<close> is -1, \<open>Child_opaque\<close> an exit error without a wait status.\<close>

datatype child = Child_ok string | Child_exited int string | Child_signalled string
  | Child_opaque string | Child_not_started

definition host_run :: "(command \<Rightarrow> child) \<Rightarrow> command \<Rightarrow> run_outcome" where
  "host_run spawn cmd =
     (if cmd_path cmd = [] then \<lparr>ro_exit = 0, ro_failed = True, ro_stdout = []\<rparr>
      else let out = (\<lambda>s. if cmd_capture cmd then s else []) in
        (case spawn cmd of
           Child_ok s \<Rightarrow> \<lparr>ro_exit = 0, ro_failed = False, ro_stdout = out s\<rparr>
         | Child_exited n s \<Rightarrow> \<lparr>ro_exit = n, ro_failed = False, ro_stdout = out s\<rparr>
         | Child_signalled s \<Rightarrow> \<lparr>ro_exit = -1, ro_failed = False, ro_stdout = out s\<rparr>
         | Child_opaque s \<Rightarrow> \<lparr>ro_exit = 1, ro_failed = False, ro_stdout = out s\<rparr>
         | Child_not_started \<Rightarrow> \<lparr>ro_exit = 1, ro_failed = True, ro_stdout = []\<rparr>))"

text \<open>The PIN: \<open>n\<close> is the random number, \<open>line\<close> what was read up to the line feed; \<open>None\<close> where the
  random source, the terminal or the read fails.\<close>

definition pin_digits :: "nat \<Rightarrow> string" where
  "pin_digits n = map (\<lambda>k. char_of (48 + n div 10 ^ k mod 10)) [5, 4, 3, 2, 1, 0]"

definition trim_right_crlf :: "string \<Rightarrow> string" where
  "trim_right_crlf s = rev (dropWhile (\<lambda>c. c = CHR 0x0D \<or> c = CHR 0x0A) (rev s))"

definition host_confirm_pin :: "nat option \<Rightarrow> bool \<Rightarrow> string option \<Rightarrow> bool" where
  "host_confirm_pin n tty line =
     (case n of None \<Rightarrow> False
      | Some n \<Rightarrow> if \<not> tty then False
          else (case line of None \<Rightarrow> False | Some value \<Rightarrow> trim_right_crlf value = pin_digits n))"

section \<open>The real binary\<close>

record file_info =
  fi_dir :: bool
  fi_exec :: bool
  fi_symlink :: bool

definition is_executable :: "(string \<Rightarrow> file_info option) \<Rightarrow> (string \<Rightarrow> string option) \<Rightarrow> string \<Rightarrow> bool" where
  "is_executable stat ev path =
     (case stat path of
        None \<Rightarrow> False
      | Some info \<Rightarrow>
          if fi_dir info then False
          else if fi_exec info then True
          else if fi_symlink info then
            (case ev path of
               None \<Rightarrow> False
             | Some target \<Rightarrow> (case stat target of
                 None \<Rightarrow> False | Some tinfo \<Rightarrow> \<not> fi_dir tinfo \<and> fi_exec tinfo))
          else False)"

definition self_dir :: "(string \<Rightarrow> string option) \<Rightarrow> string \<Rightarrow> string option \<Rightarrow> string option" where
  "self_dir ev override executable =
     (let resolve = (\<lambda>p. case ev (path_dir p) of Some d \<Rightarrow> d | None \<Rightarrow> path_dir p) in
      if override \<noteq> [] then Some (resolve override) else map_option resolve executable)"

definition same_dir :: "string \<Rightarrow> string \<Rightarrow> bool" where
  "same_dir a b \<longleftrightarrow> clean a = clean b"

definition split_list :: "string \<Rightarrow> string list" where
  "split_list s = (if s = [] then [] else split_on (CHR '':'') s)"

definition entry_dir :: "(string \<Rightarrow> string option) \<Rightarrow> string \<Rightarrow> string" where
  "entry_dir ev entry = (case ev entry of Some e \<Rightarrow> e | None \<Rightarrow> clean entry)"

fun search_path :: "(string \<Rightarrow> file_info option) \<Rightarrow> (string \<Rightarrow> string option) \<Rightarrow> string \<Rightarrow> string
    \<Rightarrow> bool \<Rightarrow> string list \<Rightarrow> string option" where
  "search_path stat ev self name found [] = None"
| "search_path stat ev self name found (entry # rest) =
     (let dir = entry_dir ev entry in
      if \<not> found then search_path stat ev self name (same_dir dir self) rest
      else if is_executable stat ev (path_join [dir, name]) then Some (path_join [dir, name])
      else search_path stat ev self name True rest)"

datatype resolve_error = No_executable_path | Real_binary_not_found

definition resolve_real_binary :: "(string \<Rightarrow> file_info option) \<Rightarrow> (string \<Rightarrow> string option) \<Rightarrow> string
    \<Rightarrow> string option \<Rightarrow> string \<Rightarrow> string \<Rightarrow> resolve_error + string" where
  "resolve_real_binary stat ev override executable path_env name =
     (case self_dir ev override executable of
        None \<Rightarrow> Inl No_executable_path
      | Some self \<Rightarrow>
          if path_env = [] then Inl Real_binary_not_found
          else (case search_path stat ev self name False (split_list path_env) of
            None \<Rightarrow> Inl Real_binary_not_found | Some p \<Rightarrow> Inr p))"

section \<open>Arguments\<close>

definition no_interpose :: string where
  "no_interpose = ''--no-interpose''"

definition strip_no_interpose :: "string list \<Rightarrow> string list \<times> bool" where
  "strip_no_interpose args = (filter (\<lambda>a. a \<noteq> no_interpose) args, list_ex (\<lambda>a. a = no_interpose) args)"

definition has_flag :: "string list \<Rightarrow> string \<Rightarrow> bool" where
  "has_flag args flag = list_ex (\<lambda>a. a = flag) args"

definition takes_value :: "string \<Rightarrow> bool" where
  "takes_value a \<longleftrightarrow> a = ''-C'' \<or> a = ''--git-dir'' \<or> a = ''--work-tree''"

fun subcommand_from :: "bool \<Rightarrow> string list \<Rightarrow> string" where
  "subcommand_from skip [] = []"
| "subcommand_from skip (a # rest) =
     (if skip then subcommand_from False rest
      else if takes_value a then subcommand_from True rest
      else if has_prefix a ''-'' then subcommand_from False rest
      else a)"

definition subcommand :: "string list \<Rightarrow> string" where
  "subcommand args = subcommand_from False args"

section \<open>Facts\<close>

lemma strip_no_interpose_clean: "no_interpose \<notin> set (fst (strip_no_interpose args))"
  by (simp add: strip_no_interpose_def)

lemma strip_no_interpose_id: "no_interpose \<notin> set args \<Longrightarrow> strip_no_interpose args = (args, False)"
  by (auto simp: strip_no_interpose_def list_ex_iff filter_id_conv)

lemma has_flag_strip: "\<not> has_flag (fst (strip_no_interpose args)) no_interpose"
  by (simp add: has_flag_def strip_no_interpose_def list_ex_iff)

lemma subcommand_strip: "subcommand_from skip args \<noteq> [] \<Longrightarrow> no_interpose \<notin> set args
    \<Longrightarrow> subcommand_from skip args \<in> set args \<and> \<not> has_prefix (subcommand_from skip args) ''-''"
  by (induction skip args rule: subcommand_from.induct) (auto split: if_splits)

text \<open>The real binary comes from an entry strictly behind the interposer's own directory.\<close>

lemma search_path_found:
  "search_path stat ev self name True es = Some p \<Longrightarrow>
     \<exists>pre e post. es = pre @ e # post \<and> p = path_join [entry_dir ev e, name] \<and> is_executable stat ev p
       \<and> (\<forall>d \<in> set pre. \<not> is_executable stat ev (path_join [entry_dir ev d, name]))"
proof (induction es)
  case (Cons e es)
  show ?case
  proof (cases "is_executable stat ev (path_join [entry_dir ev e, name])")
    case True
    with Cons.prems have "e # es = [] @ e # es \<and> p = path_join [entry_dir ev e, name] \<and> is_executable stat ev p"
      by (simp add: Let_def)
    then show ?thesis
      by (metis empty_iff empty_set)
  next
    case False
    with Cons.prems Cons.IH obtain pre d post where "es = pre @ d # post"
      "p = path_join [entry_dir ev d, name]" "is_executable stat ev p"
      "\<forall>d \<in> set pre. \<not> is_executable stat ev (path_join [entry_dir ev d, name])"
      by (auto simp: Let_def)
    with False show ?thesis
      by (intro exI [of _ "e # pre"] exI [of _ d] exI [of _ post]) simp
  qed
qed simp

lemma search_path_self:
  "search_path stat ev self name False es = Some p \<Longrightarrow>
     \<exists>pre s mid e post. es = pre @ s # mid @ e # post \<and> same_dir (entry_dir ev s) self
       \<and> (\<forall>d \<in> set pre. \<not> same_dir (entry_dir ev d) self)
       \<and> p = path_join [entry_dir ev e, name] \<and> is_executable stat ev p
       \<and> (\<forall>d \<in> set mid. \<not> is_executable stat ev (path_join [entry_dir ev d, name]))"
proof (induction es)
  case (Cons e es)
  show ?case
  proof (cases "same_dir (entry_dir ev e) self")
    case True
    with Cons.prems obtain mid d post where "es = mid @ d # post" "p = path_join [entry_dir ev d, name]"
      "is_executable stat ev p" "\<forall>d \<in> set mid. \<not> is_executable stat ev (path_join [entry_dir ev d, name])"
      using search_path_found [of stat ev self name es p] by (auto simp: Let_def)
    with True show ?thesis
      by (intro exI [of _ "[]"] exI [of _ e] exI [of _ mid] exI [of _ d] exI [of _ post]) simp
  next
    case False
    with Cons obtain pre s mid d post where "es = pre @ s # mid @ d # post" "same_dir (entry_dir ev s) self"
      "\<forall>d \<in> set pre. \<not> same_dir (entry_dir ev d) self" "p = path_join [entry_dir ev d, name]"
      "is_executable stat ev p" "\<forall>d \<in> set mid. \<not> is_executable stat ev (path_join [entry_dir ev d, name])"
      by (auto simp: Let_def)
    with False show ?thesis
      by (intro exI [of _ "e # pre"] exI [of _ s] exI [of _ mid] exI [of _ d] exI [of _ post]) simp
  qed
qed simp

lemma trim_right_crlf_append: "trim_right_crlf (s @ [CHR 0x0A]) = trim_right_crlf s"
  by (simp add: trim_right_crlf_def)

lemma pin_char_inj: "a < 10 \<Longrightarrow> b < 10 \<Longrightarrow> char_of (48 + a) = (char_of (48 + b) :: char) \<Longrightarrow> a = (b :: nat)"
proof -
  assume "a < 10" "b < 10" "char_of (48 + a) = (char_of (48 + b) :: char)"
  then have "(of_char (char_of (48 + a) :: char) :: nat) = of_char (char_of (48 + b) :: char)"
    by simp
  with \<open>a < 10\<close> \<open>b < 10\<close> show "a = b"
    by simp
qed

lemma pin_digits_inj:
  assumes "pin_digits m = pin_digits n" "m < 1000000" "n < 1000000"
  shows "m = n"
proof -
  have d: "m div 10 ^ k mod 10 = n div 10 ^ k mod 10" if "k < 6" for k
  proof -
    have "\<forall>k \<in> set [5, 4, 3, 2, 1, 0]. char_of (48 + m div 10 ^ k mod 10) = (char_of (48 + n div 10 ^ k mod 10) :: char)"
      using assms(1) by (simp only: pin_digits_def map_eq_conv)
    moreover have "k \<in> set [5, 4, 3, 2, 1, 0]"
      using that by auto
    ultimately have "char_of (48 + m div 10 ^ k mod 10) = (char_of (48 + n div 10 ^ k mod 10) :: char)"
      by (rule bspec)
    then show ?thesis
      by (intro pin_char_inj) simp_all
  qed
  have "j \<le> 6 \<Longrightarrow> m mod 10 ^ j = n mod 10 ^ j" for j
  proof (induction j)
    case (Suc j)
    with d [of j] show ?case
      by (simp only: power_Suc2 mod_mult2_eq)
  qed simp
  from this [of 6] assms(2,3) show ?thesis
    by simp
qed

lemma host_confirm_pin_iff: "host_confirm_pin n tty line \<longleftrightarrow>
    (\<exists>k value. n = Some k \<and> tty \<and> line = Some value \<and> trim_right_crlf value = pin_digits k)"
  by (auto simp: host_confirm_pin_def split: option.splits)

section \<open>Properties\<close>

text \<open>The interposer never runs itself and never something it should not have found: the real binary is
  an executable in a \<^verbatim>\<open>PATH\<close> entry strictly behind the first entry that is the interposer's own
  directory, and no entry between the two has an executable of that name.\<close>

theorem real_binary_behind_interposer:
  assumes "resolve_real_binary stat ev override executable path_env name = Inr p"
  shows "\<exists>self pre own mid e post. self_dir ev override executable = Some self
    \<and> split_list path_env = pre @ own # mid @ e # post \<and> same_dir (entry_dir ev own) self
    \<and> (\<forall>d \<in> set pre. \<not> same_dir (entry_dir ev d) self)
    \<and> p = path_join [entry_dir ev e, name] \<and> is_executable stat ev p
    \<and> (\<forall>d \<in> set mid. \<not> is_executable stat ev (path_join [entry_dir ev d, name]))"
  using assms search_path_self [of stat ev _ name "split_list path_env" p]
  by (auto simp: resolve_real_binary_def split: option.splits if_splits)

definition sample_stat :: "string \<Rightarrow> file_info option" where
  "sample_stat p = (if p = ''/usr/bin/git'' \<or> p = ''/opt/git''
     then Some \<lparr>fi_dir = False, fi_exec = True, fi_symlink = False\<rparr> else None)"

lemma real_binary_behind_interposer_witness:
  "\<exists>self pre own mid e post. split_list ''/opt:/me:/sbin:/usr/bin'' = pre @ own # mid @ e # post
    \<and> same_dir (entry_dir Some own) self \<and> ''/usr/bin/git'' = path_join [entry_dir Some e, ''git'']"
proof -
  have "resolve_real_binary sample_stat Some [] (Some ''/me/interpose'') ''/opt:/me:/sbin:/usr/bin'' ''git''
      = Inr ''/usr/bin/git''"
    by code_simp
  from real_binary_behind_interposer [OF this] show ?thesis
    by (elim exE conjE) (intro exI conjI)
qed

end
