(* ===== verification/Interpose_Wrappers.thy ===== *)
theory Interpose_Wrappers
  imports Interpose_Core
begin

text \<open>
  The wrappers of \<^verbatim>\<open>interpose/wrappers\<close> (git, find, grep, the protected commands) and the frame that
  runs them (\<^verbatim>\<open>core.Execute\<close>, \<^verbatim>\<open>interpose/main.go\<close>). A wrapper's \<open>Transform\<close> rewrites the arguments,
  its \<open>Before\<close> may act and may refuse; both take and return the trace. The repair of conflicted
  files that git's \<open>Before\<close> starts (\<^verbatim>\<open>restoreconflict.Restore\<close>) is the parameter \<open>restore\<close>, and so is
  the time stamp \<open>ts\<close> of a snapshot; \<open>hs\<close> holds the process environment \<^verbatim>\<open>NormalizePath\<close> reads.
\<close>

record host =
  hs_home :: "string option"
  hs_wd :: "string option"
  hs_ev :: "string \<Rightarrow> string option"

abbreviation norm_path :: "host \<Rightarrow> string \<Rightarrow> string option" where
  "norm_path hs \<equiv> normalize_path (hs_home hs) (hs_wd hs) (hs_ev hs)"

datatype wrap_error = All_paths_protected | Pin_denied | Snapshot_failed | Git_failed

section \<open>find\<close>

fun find_start_index :: "string list \<Rightarrow> nat" where
  "find_start_index [] = 0"
| "find_start_index (a # rest) = (if has_prefix a ''-'' then Suc (find_start_index rest) else 0)"

fun find_prune_parts :: "string list \<Rightarrow> string list \<Rightarrow> string list" where
  "find_prune_parts parts [] = parts"
| "find_prune_parts parts (root # roots) =
     (if root = [] then find_prune_parts parts roots
      else find_prune_parts ((if length parts > 1 then parts @ [''-o''] else parts)
        @ [''-path'', clean root, ''-prune'']) roots)"

definition build_find_prunes :: "string list \<Rightarrow> string list" where
  "build_find_prunes roots = (let parts = find_prune_parts [] roots in
     if parts = [] then [] else [[CHR 0x5C, CHR ''('']] @ parts @ [[CHR 0x5C, CHR '')'']])"

definition find_traverses :: "host \<Rightarrow> invocation \<Rightarrow> string \<Rightarrow> bool" where
  "find_traverses hs cx root =
     (case norm_path hs root of
        None \<Rightarrow> False
      | Some norm \<Rightarrow>
          if norm = ''/'' \<or> norm = cx_dir cx then True
          else if policy_protects (cx_policy cx) norm then True
          else list_ex (\<lambda>protected. has_prefix (clean protected) (norm @ ''/''))
            (pv_extra_protected_paths (cx_policy cx)))"

definition transform_find :: "host \<Rightarrow> invocation \<Rightarrow> string list \<Rightarrow> string list" where
  "transform_find hs cx args =
     (let i = find_start_index args in
      if args = [] \<or> i \<ge> length args then args
      else if find_traverses hs cx (args ! i) then
        (let prunes = build_find_prunes (pv_extra_protected_paths (cx_policy cx)) in
         if prunes = [] then args
         else take i args @ [args ! i] @ prunes @ [''-o''] @ drop (i + 1) args)
      else args)"

section \<open>grep\<close>

definition value_flags :: "string list" where
  "value_flags = [''-e'', ''--regexp'', ''-f'', ''--file'', ''-m'', ''--max-count'', ''-A'', ''--after-context'',
     ''-B'', ''--before-context'', ''-C'', ''--context'', ''--color'', ''--label'', ''--include'',
     ''--exclude'', ''--exclude-dir'', ''--group-separator'', ''--binary-files'']"

definition needs_value :: "string \<Rightarrow> bool" where
  "needs_value flag \<longleftrightarrow> flag \<in> set value_flags"

fun grep_scan :: "bool \<Rightarrow> nat \<Rightarrow> string list \<Rightarrow> nat" where
  "grep_scan skip pos [] = 0"
| "grep_scan skip pos (a # rest) =
     (if skip then Suc (grep_scan False pos rest)
      else if has_prefix a ''-'' \<and> a \<noteq> ''-'' then Suc (grep_scan (needs_value a) pos rest)
      else if pos + 1 = 1 then Suc (grep_scan False (pos + 1) rest)
      else 0)"

definition grep_path_start :: "string list \<Rightarrow> nat" where
  "grep_path_start args = grep_scan False 0 args"

definition grep_traverses :: "host \<Rightarrow> invocation \<Rightarrow> string \<Rightarrow> bool" where
  "grep_traverses hs cx root =
     (case norm_path hs root of
        None \<Rightarrow> False
      | Some norm \<Rightarrow> norm = ''/'' \<or> norm = cx_dir cx \<or> policy_protects (cx_policy cx) norm)"

definition grep_excludes :: "string list \<Rightarrow> string list" where
  "grep_excludes roots = map (\<lambda>root. ''--exclude-dir='' @ path_base root)
     (filter (\<lambda>root. path_base root \<noteq> [] \<and> path_base root \<noteq> ''.'') roots)"

definition inject_grep_excludes :: "invocation \<Rightarrow> string list \<Rightarrow> string list" where
  "inject_grep_excludes cx args = (let i = grep_path_start args in
     take i args @ grep_excludes (pv_extra_protected_paths (cx_policy cx)) @ drop i args)"

definition grep_recursive :: "string list \<Rightarrow> bool" where
  "grep_recursive args \<longleftrightarrow> has_flag args ''-r'' \<or> has_flag args ''-R'' \<or> has_flag args ''--recursive''"

definition grep_blocked :: "host \<Rightarrow> invocation \<Rightarrow> string \<Rightarrow> bool" where
  "grep_blocked hs cx p \<longleftrightarrow> policy_protects (cx_policy cx) p \<or> grep_traverses hs cx p"

definition grep_kept :: "host \<Rightarrow> invocation \<Rightarrow> string list \<Rightarrow> string list" where
  "grep_kept hs cx args = take (grep_path_start args) args
     @ filter (\<lambda>p. \<not> grep_blocked hs cx p) (drop (grep_path_start args) args)"

definition transform_grep :: "host \<Rightarrow> invocation \<Rightarrow> string list \<Rightarrow> trace \<Rightarrow> (wrap_error + string list) \<times> trace" where
  "transform_grep hs cx args tr =
     (if args = [] then (Inr args, tr)
      else
        let recursive = grep_recursive args; start = grep_path_start args in
        if start \<ge> length args then
          (Inr (if recursive then inject_grep_excludes cx args else args), tr)
        else
          let dropped = filter (grep_blocked hs cx) (drop start args);
              kept = grep_kept hs cx args;
              tr = tr @ map (\<lambda>p. Ev_note (Skipping_path p)) dropped;
              kept = (if recursive \<and> (dropped \<noteq> [] \<or> start = length args)
                then inject_grep_excludes cx kept else kept) in
          if length kept = start \<and> dropped \<noteq> [] then (Inl All_paths_protected, tr)
          else (Inr kept, tr))"

section \<open>git\<close>

definition git_restore_trigger :: "string list \<Rightarrow> bool" where
  "git_restore_trigger args \<longleftrightarrow>
     subcommand args \<in> set [''add'', ''commit'', ''merge'', ''rebase'', ''cherry-pick'', ''pull'']"

definition has_short_flag :: "string list \<Rightarrow> char \<Rightarrow> bool" where
  "has_short_flag args short = list_ex (\<lambda>a. a = [CHR ''-'', short]
     \<or> (has_prefix a ''-'' \<and> \<not> has_prefix a ''--'' \<and> length a > 1 \<and> short \<in> set (tl a))) args"

fun pathspec_scan :: "bool \<Rightarrow> bool \<Rightarrow> string \<Rightarrow> string list \<Rightarrow> string list" where
  "pathspec_scan found skip sub [] = []"
| "pathspec_scan found skip sub (a # rest) =
     (if skip then pathspec_scan found False sub rest
      else if \<not> found then pathspec_scan (a = sub) False sub rest
      else if has_prefix a ''-'' then
        pathspec_scan found (a \<in> set [''-m'', ''--message'', ''-e'', ''--edit'']) sub rest
      else a # pathspec_scan found False sub rest)"

definition pathspec_args :: "string list \<Rightarrow> string \<Rightarrow> string list" where
  "pathspec_args args sub = pathspec_scan False False sub args"

definition git_destructive :: "string list \<Rightarrow> bool" where
  "git_destructive args =
     (let sub = subcommand args in
      if sub = ''reset'' then True
      else if sub = ''checkout'' \<or> sub = ''switch'' then has_flag args ''-f'' \<or> has_flag args ''--force''
      else if sub = ''restore'' then
        has_flag args ''--source'' \<or> has_flag args ''--staged''
        \<or> (has_flag args ''--worktree'' \<and> length (pathspec_args args ''restore'') > 0)
      else if sub = ''push'' then
        has_flag args ''--force'' \<or> has_flag args ''-f'' \<or> has_flag args ''--force-with-lease''
      else if sub = ''branch'' then has_flag args ''-D''
      else if sub = ''clean'' then has_short_flag args (CHR ''f'')
      else sub = ''revert'')"

fun global_git_args :: "string list \<Rightarrow> string list" where
  "global_git_args (a # b # rest) =
     (if takes_value a then [a, b] @ global_git_args rest else global_git_args (b # rest))"
| "global_git_args _ = []"

definition git_command :: "invocation \<Rightarrow> string list \<Rightarrow> bool \<Rightarrow> command" where
  "git_command cx args capture = \<lparr>cmd_path = cx_real_binary cx, cmd_args = args, cmd_dir = cx_dir cx,
     cmd_env = cx_env cx, cmd_capture = capture\<rparr>"

definition git_repo_root :: "invocation \<Rightarrow> string list \<Rightarrow> trace \<Rightarrow> string option \<times> trace" where
  "git_repo_root cx args tr =
     (case run_command (cx_ops cx) (git_command cx (global_git_args args @ [''rev-parse'', ''--show-toplevel'']) True) tr of
        (r, tr) \<Rightarrow> (if ro_failed r then None else Some (trim_space (ro_stdout r)), tr))"

definition git_output :: "invocation \<Rightarrow> string \<Rightarrow> string list \<Rightarrow> trace \<Rightarrow> string option \<times> trace" where
  "git_output cx repo args tr =
     (case run_command (cx_ops cx) (git_command cx ([''-C'', repo] @ args) True) tr of
        (r, tr) \<Rightarrow> (if ro_failed r then None else Some (trim_space (ro_stdout r)), tr))"

definition branch_char :: "char \<Rightarrow> bool" where
  "branch_char c \<longleftrightarrow> (CHR ''a'' \<le> c \<and> c \<le> CHR ''z'') \<or> (CHR ''A'' \<le> c \<and> c \<le> CHR ''Z'')
     \<or> (CHR ''0'' \<le> c \<and> c \<le> CHR ''9'') \<or> c = CHR ''-'' \<or> c = CHR ''_'' \<or> c = CHR ''.''"

definition sanitize_branch :: "string \<Rightarrow> string" where
  "sanitize_branch name =
     (let s = concat (map (\<lambda>r. if length r = 1 \<and> branch_char (hd r) then r else ''_'') (runes name)) in
      if s = [] then ''branch'' else s)"

definition default_snapshot_prefix :: string where
  "default_snapshot_prefix = ''interpose/snapshot''"

definition snapshot_name :: "string \<Rightarrow> string \<Rightarrow> string \<Rightarrow> string \<Rightarrow> string" where
  "snapshot_name pfx ts branch short =
     (if pfx = [] then default_snapshot_prefix else pfx) @ ''/'' @ ts @ ''_''
       @ sanitize_branch (if branch = ''HEAD'' then ''detached'' else branch) @ ''_'' @ short"

definition git_snapshot :: "string \<Rightarrow> invocation \<Rightarrow> string \<Rightarrow> trace \<Rightarrow> wrap_error option \<times> trace" where
  "git_snapshot ts cx repo tr =
     (case git_output cx repo [''rev-parse'', ''--abbrev-ref'', ''HEAD''] tr of
        (None, tr) \<Rightarrow> (None, tr)
      | (Some branch, tr) \<Rightarrow>
          (case git_output cx repo [''rev-parse'', ''--short'', ''HEAD''] tr of
             (None, tr) \<Rightarrow> (Some Git_failed, tr)
           | (Some short, tr) \<Rightarrow>
               let name = snapshot_name (pv_snapshot_prefix (cx_policy cx)) ts branch short in
               (case run_command (cx_ops cx) (git_command cx [''-C'', repo, ''branch'', name, ''HEAD''] False) tr of
                  (r, tr) \<Rightarrow> if ro_failed r then (Some Snapshot_failed, tr)
                            else (None, say (Snapshot_taken name) tr))))"

definition git_before :: "(invocation \<Rightarrow> string \<Rightarrow> trace \<Rightarrow> bool \<times> trace) \<Rightarrow> string \<Rightarrow> invocation \<Rightarrow> trace
    \<Rightarrow> wrap_error option \<times> trace" where
  "git_before restore ts cx tr =
     (let args = cx_args cx; needs_restore = git_restore_trigger args; needs_snapshot = git_destructive args in
      if has_flag args no_interpose then (None, tr)
      else if \<not> needs_restore \<and> \<not> needs_snapshot then (None, tr)
      else (case git_repo_root cx args tr of
          (None, tr) \<Rightarrow> (None, tr)
        | (Some repo, tr) \<Rightarrow>
            if repo = [] then (None, tr)
            else if snapshots_disabled (cx_policy cx) repo then (None, tr)
            else
              let tr = (if needs_restore then
                  (case restore cx repo tr of (ok, tr) \<Rightarrow> if ok then tr else say Restore_warning tr)
                else tr) in
              if needs_snapshot then git_snapshot ts cx repo tr else (None, tr)))"

section \<open>Protected commands\<close>

definition protected_before :: "string \<Rightarrow> invocation \<Rightarrow> trace \<Rightarrow> wrap_error option \<times> trace" where
  "protected_before name cx tr =
     (if allows (pv_command_allowlist (cx_policy cx)) name (cx_args cx) then (None, tr)
      else (case confirm_pin (cx_ops cx) ''Type this 6-digit confirmation PIN to continue''
            (say (Not_allowlisted name) tr) of
          (ok, tr) \<Rightarrow> (if ok then None else Some Pin_denied, tr)))"

section \<open>Running a wrapper\<close>

datatype wrapper = Git | Find | Grep | Protected_command string | Passthrough string

fun wrapper_name :: "wrapper \<Rightarrow> string" where
  "wrapper_name Git = ''git''"
| "wrapper_name Find = ''find''"
| "wrapper_name Grep = ''grep''"
| "wrapper_name (Protected_command name) = name"
| "wrapper_name (Passthrough name) = name"

definition git_transform :: "string list \<Rightarrow> string list" where
  "git_transform args = fst (strip_no_interpose args)"

definition find_transform :: "host \<Rightarrow> invocation \<Rightarrow> string list \<Rightarrow> string list" where
  "find_transform hs cx args = (case strip_no_interpose args of (out, bypass) \<Rightarrow>
     if bypass then out else transform_find hs cx out)"

definition grep_transform :: "host \<Rightarrow> invocation \<Rightarrow> string list \<Rightarrow> trace \<Rightarrow> (wrap_error + string list) \<times> trace" where
  "grep_transform hs cx args tr = (case strip_no_interpose args of (out, bypass) \<Rightarrow>
     if bypass then (Inr out, tr) else transform_grep hs cx out tr)"

fun transform :: "host \<Rightarrow> invocation \<Rightarrow> wrapper \<Rightarrow> string list \<Rightarrow> trace \<Rightarrow> (wrap_error + string list) \<times> trace" where
  "transform hs cx Git args tr = (Inr (git_transform args), tr)"
| "transform hs cx Find args tr = (Inr (find_transform hs cx args), tr)"
| "transform hs cx Grep args tr = grep_transform hs cx args tr"
| "transform hs cx (Protected_command name) args tr = (Inr args, tr)"
| "transform hs cx (Passthrough name) args tr = (Inr args, tr)"

fun before :: "(invocation \<Rightarrow> string \<Rightarrow> trace \<Rightarrow> bool \<times> trace) \<Rightarrow> string \<Rightarrow> invocation \<Rightarrow> wrapper \<Rightarrow> trace
    \<Rightarrow> wrap_error option \<times> trace" where
  "before restore ts cx Git tr = git_before restore ts cx tr"
| "before restore ts cx (Protected_command name) tr = protected_before name cx tr"
| "before restore ts cx _ tr = (None, tr)"

definition real_command :: "invocation \<Rightarrow> string list \<Rightarrow> command" where
  "real_command cx args = \<lparr>cmd_path = cx_real_binary cx, cmd_args = args, cmd_dir = cx_dir cx,
     cmd_env = cx_env cx, cmd_capture = False\<rparr>"

text \<open>\<^verbatim>\<open>Execute\<close> after the real binary is resolved (\<open>None\<close>: not found), with the exit status it ends
  with; every wrapper's \<open>After\<close> does nothing and its error is dropped.\<close>

definition execute :: "(invocation \<Rightarrow> string \<Rightarrow> trace \<Rightarrow> bool \<times> trace) \<Rightarrow> string \<Rightarrow> host \<Rightarrow> resolve_error + string
    \<Rightarrow> invocation \<Rightarrow> wrapper \<Rightarrow> string list \<Rightarrow> trace \<Rightarrow> int \<times> trace" where
  "execute restore ts hs real cx0 w args tr =
     (case real of
        Inl _ \<Rightarrow> (127, tr)
      | Inr path \<Rightarrow>
          let cx = cx0\<lparr>cx_name := wrapper_name w, cx_args := args, cx_real_binary := path\<rparr> in
          (case transform hs cx w args tr of
             (Inl _, tr) \<Rightarrow> (2, tr)
           | (Inr out, tr) \<Rightarrow>
               let cx = cx\<lparr>cx_args := out\<rparr> in
               (case before restore ts cx w tr of
                  (Some _, tr) \<Rightarrow> (2, tr)
                | (None, tr) \<Rightarrow>
                    (case run_command (cx_ops cx) (real_command cx out) tr of
                       (r, tr) \<Rightarrow> (if ro_failed r then 1 else ro_exit r, tr)))))"

definition wrapper_for :: "string \<Rightarrow> wrapper option" where
  "wrapper_for name =
     (if name = ''git'' then Some Git
      else if name = ''find'' then Some Find
      else if name = ''grep'' then Some Grep
      else if name \<in> set [''kill'', ''pkill'', ''killall'', ''osascript''] then Some (Protected_command name)
      else None)"

text \<open>\<^verbatim>\<open>main\<close>'s choice of the wrapper from \<^verbatim>\<open>os.Args\<close>: the wrapper and its arguments, or exit status 2.\<close>

definition select_wrapper :: "string list \<Rightarrow> (wrapper \<times> string list) option" where
  "select_wrapper argv =
     (let name = path_base (hd argv); args = tl argv in
      if name = ''interpose'' then
        (case args of [] \<Rightarrow> None
         | n # rest \<Rightarrow> map_option (\<lambda>w. (w, rest)) (wrapper_for n))
      else map_option (\<lambda>w. (w, args)) (wrapper_for name))"

section \<open>find keeps out of the protected roots\<close>

lemma find_prune_parts_prefix: "\<exists>more. find_prune_parts parts roots = parts @ more"
  by (induction parts roots rule: find_prune_parts.induct) (auto split: if_splits)

lemma find_prune_parts_mem:
  "root \<in> set roots \<Longrightarrow> root \<noteq> [] \<Longrightarrow>
     \<exists>pre post. find_prune_parts parts roots = pre @ [''-path'', clean root, ''-prune''] @ post"
proof (induction parts roots rule: find_prune_parts.induct)
  case (2 parts r rs)
  show ?case
  proof (cases "r = root")
    case True
    let ?ps = "if length parts > 1 then parts @ [''-o''] else parts"
    obtain more where "find_prune_parts (?ps @ [''-path'', clean r, ''-prune'']) rs
        = (?ps @ [''-path'', clean r, ''-prune'']) @ more"
      using find_prune_parts_prefix by blast
    with True 2(4) show ?thesis
      by (intro exI [of _ ?ps] exI [of _ more]) simp
  next
    case False
    with 2 show ?thesis
      by (cases "r = []") simp_all
  qed
qed simp

lemma transform_find_prunes:
  assumes "find_start_index args < length args" "find_traverses hs cx (args ! find_start_index args)"
    and "root \<in> set (pv_extra_protected_paths (cx_policy cx))" "root \<noteq> []"
  shows "\<exists>pre post. transform_find hs cx args = take (find_start_index args + 1) args
    @ pre @ [''-path'', clean root, ''-prune''] @ post @ [''-o''] @ drop (find_start_index args + 1) args"
proof -
  let ?i = "find_start_index args" and ?bs = "CHR 0x5C"
  obtain pre post where p: "find_prune_parts [] (pv_extra_protected_paths (cx_policy cx))
      = pre @ [''-path'', clean root, ''-prune''] @ post"
    using find_prune_parts_mem [OF assms(3,4)] by blast
  then have "build_find_prunes (pv_extra_protected_paths (cx_policy cx))
      = [[?bs, CHR ''('']] @ pre @ [''-path'', clean root, ''-prune''] @ post @ [[?bs, CHR '')'']]"
    by (simp add: build_find_prunes_def)
  moreover have "take ?i args @ [args ! ?i] = take (?i + 1) args"
    using assms(1) by (simp add: take_Suc_conv_app_nth)
  moreover have "args \<noteq> []"
    using assms(1) by auto
  ultimately have "transform_find hs cx args = take (?i + 1) args @ ([[?bs, CHR ''('']] @ pre)
      @ [''-path'', clean root, ''-prune''] @ (post @ [[?bs, CHR '')'']]) @ [''-o''] @ drop (?i + 1) args"
    using assms(1,2) by (simp add: transform_find_def Let_def)
  then show ?thesis
    by blast
qed

lemma find_traverses_protected:
  "norm_path hs root = Some norm \<Longrightarrow> policy_protects (cx_policy cx) norm \<Longrightarrow> find_traverses hs cx root"
  by (simp add: find_traverses_def)

section \<open>grep keeps out of the protected roots\<close>

lemma set_inject_grep_excludes:
  "set (inject_grep_excludes cx args) = set args \<union> set (grep_excludes (pv_extra_protected_paths (cx_policy cx)))"
  by (simp add: inject_grep_excludes_def Let_def) (metis append_take_drop_id set_append sup_assoc sup_commute)

lemma transform_grep_long:
  assumes "grep_path_start args < length args"
  shows "fst (transform_grep hs cx args tr)
    \<in> {Inl All_paths_protected, Inr (grep_kept hs cx args), Inr (inject_grep_excludes cx (grep_kept hs cx args))}"
proof -
  have "args \<noteq> []" "\<not> length args \<le> grep_path_start args"
    using assms by auto
  then show ?thesis
    unfolding transform_grep_def Let_def by (simp only: if_False split: if_split) simp
qed

lemma transform_grep_short: "length args \<le> grep_path_start args \<Longrightarrow>
    fst (transform_grep hs cx args tr) \<in> {Inr args, Inr (inject_grep_excludes cx args)}"
  by (cases "args = []"; cases "grep_recursive args") (simp_all add: transform_grep_def)

lemma grep_kept_set: "a \<in> set (grep_kept hs cx args) \<Longrightarrow> a \<in> set (take (grep_path_start args) args)
    \<or> a \<in> set (drop (grep_path_start args) args) \<and> \<not> grep_blocked hs cx a"
  by (auto simp: grep_kept_def)

lemma transform_grep_operands:
  assumes "transform_grep hs cx args tr = (Inr out, tr')" "a \<in> set out"
  shows "a \<in> set (take (grep_path_start args) args)
    \<or> a \<in> set (drop (grep_path_start args) args) \<and> \<not> grep_blocked hs cx a
    \<or> a \<in> set (grep_excludes (pv_extra_protected_paths (cx_policy cx)))"
proof (cases "length args \<le> grep_path_start args")
  case True
  then have "out \<in> {args, inject_grep_excludes cx args}"
    using transform_grep_short [OF True, of hs cx tr] assms(1) by simp
  with assms(2) have "a \<in> set args \<or> a \<in> set (grep_excludes (pv_extra_protected_paths (cx_policy cx)))"
    using set_inject_grep_excludes [of cx args] by fastforce
  with True show ?thesis
    by simp
next
  case False
  then have "out \<in> {grep_kept hs cx args, inject_grep_excludes cx (grep_kept hs cx args)}"
    using transform_grep_long [of args hs cx tr] assms(1) by simp
  with assms(2) have "a \<in> set (grep_kept hs cx args) \<or> a \<in> set (grep_excludes (pv_extra_protected_paths (cx_policy cx)))"
    using set_inject_grep_excludes [of cx "grep_kept hs cx args"] by fastforce
  with grep_kept_set show ?thesis
    by blast
qed

lemma transform_grep_all_blocked:
  assumes "grep_path_start args < length args" "\<not> grep_recursive args"
    and "\<forall>p \<in> set (drop (grep_path_start args) args). grep_blocked hs cx p"
  shows "fst (transform_grep hs cx args tr) = Inl All_paths_protected"
proof -
  have "filter (\<lambda>p. \<not> grep_blocked hs cx p) (drop (grep_path_start args) args) = []"
    using assms(3) by (simp add: filter_empty_conv)
  moreover have "filter (grep_blocked hs cx) (drop (grep_path_start args) args) = drop (grep_path_start args) args"
    using assms(3) by (simp add: filter_id_conv)
  moreover have "args \<noteq> []" "length (take (grep_path_start args) args) = grep_path_start args"
    using assms(1) by auto
  ultimately show ?thesis
    using assms(1,2) by (simp add: transform_grep_def grep_kept_def Let_def)
qed

lemma transform_grep_recursive_all_blocked:
  assumes "\<not> has_prefix pat ''-''" "\<not> has_prefix p ''-''" "grep_blocked hs cx p"
    and "grep_excludes (pv_extra_protected_paths (cx_policy cx)) \<noteq> []"
  shows "fst (transform_grep hs cx [''-r'', pat, p] tr)
    = Inr ([''-r'', pat] @ grep_excludes (pv_extra_protected_paths (cx_policy cx)))"
proof -
  have "\<not> needs_value ''-r''"
    by (simp add: needs_value_def value_flags_def)
  then have "grep_path_start [''-r'', pat, p] = 2" "grep_path_start [''-r'', pat] = 2"
    using assms(1,2) by (simp_all add: grep_path_start_def)
  then show ?thesis
    using assms(3,4) by (simp add: transform_grep_def grep_recursive_def has_flag_def inject_grep_excludes_def grep_kept_def)
qed

section \<open>git\<close>

lemma git_restore_not_destructive:
  assumes "git_restore_trigger args"
  shows "\<not> git_destructive args"
proof -
  have "subcommand args = ''add'' \<or> subcommand args = ''commit'' \<or> subcommand args = ''merge''
      \<or> subcommand args = ''rebase'' \<or> subcommand args = ''cherry-pick'' \<or> subcommand args = ''pull''"
    using assms by (simp add: git_restore_trigger_def)
  then show ?thesis
    by (elim disjE) (simp_all add: git_destructive_def)
qed

lemma sanitize_branch_chars: "list_all branch_char (sanitize_branch name) \<and> sanitize_branch name \<noteq> []"
proof -
  have u: "list_all branch_char ''_''" and b: "list_all branch_char ''branch''"
    by (simp_all add: branch_char_def less_eq_char_def)
  have "list_all branch_char (if length r = 1 \<and> branch_char (hd r) then r else ''_'')" for r
    using u by (cases r) simp_all
  then have "list_all branch_char (concat (map (\<lambda>r. if length r = 1 \<and> branch_char (hd r) then r else ''_'') rs))" for rs
    by (induction rs) simp_all
  with b show ?thesis
    by (simp add: sanitize_branch_def Let_def)
qed

lemma git_output_ok:
  "\<not> ro_failed (op_run (cx_ops cx) tr (git_command cx ([''-C'', repo] @ args) True)) \<Longrightarrow>
     git_output cx repo args tr = (Some (trim_space (ro_stdout (op_run (cx_ops cx) tr (git_command cx ([''-C'', repo] @ args) True)))),
       tr @ [Ev_run (git_command cx ([''-C'', repo] @ args) True) (op_run (cx_ops cx) tr (git_command cx ([''-C'', repo] @ args) True))])"
  by (simp add: git_output_def run_command_def Let_def)

text \<open>With operations that reach git, a snapshot is four commands: two queries, the branch and the note.
  The exit status of the branch command plays no role.\<close>

definition branch_command :: "invocation \<Rightarrow> string \<Rightarrow> string \<Rightarrow> command" where
  "branch_command cx repo name = git_command cx [''-C'', repo, ''branch'', name, ''HEAD''] False"

lemma git_snapshot_ok:
  assumes "\<And>tr cmd. \<not> ro_failed (op_run (cx_ops cx) tr cmd)"
  shows "\<exists>e1 e2 name r. git_snapshot ts cx repo tr = (None,
      tr @ [e1, e2, Ev_run (branch_command cx repo name) r, Ev_note (Snapshot_taken name)])"
  using assms by (simp add: git_snapshot_def git_output_ok run_command_def say_def branch_command_def Let_def)

definition git_root_command :: "invocation \<Rightarrow> string list \<Rightarrow> command" where
  "git_root_command cx args = git_command cx (global_git_args args @ [''rev-parse'', ''--show-toplevel'']) True"

lemma execute_git_snapshot_first:
  assumes d: "git_destructive (filter (\<lambda>a. a \<noteq> no_interpose) args)"
    and ok: "\<And>tr cmd. \<not> ro_failed (op_run (cx_ops cx) tr cmd)"
    and root: "cx' = cx\<lparr>cx_name := ''git'', cx_args := filter (\<lambda>a. a \<noteq> no_interpose) args, cx_real_binary := git\<rparr>"
      "repo = trim_space (ro_stdout (op_run (cx_ops cx) tr (git_root_command cx' (filter (\<lambda>a. a \<noteq> no_interpose) args))))"
    and repo: "repo \<noteq> []" "\<not> snapshots_disabled (cx_policy cx) repo"
  shows "\<exists>e0 e1 e2 name rb r. snd (execute restore ts hs (Inr git) cx Git args tr) =
    tr @ [e0, e1, e2, Ev_run (branch_command cx' repo name) rb, Ev_note (Snapshot_taken name),
      Ev_run (real_command cx' (filter (\<lambda>a. a \<noteq> no_interpose) args)) r]"
proof -
  let ?args = "filter (\<lambda>a. a \<noteq> no_interpose) args"
  have nr: "\<not> git_restore_trigger ?args"
    using d git_restore_not_destructive by blast
  have nf: "\<not> has_flag ?args no_interpose"
    using has_flag_strip [of args] by (simp add: strip_no_interpose_def)
  have ops: "cx_ops cx' = cx_ops cx" "cx_policy cx' = cx_policy cx" "cx_args cx' = ?args"
    by (simp_all add: root)
  define e0 where "e0 = Ev_run (git_root_command cx' ?args) (op_run (cx_ops cx) tr (git_root_command cx' ?args))"
  have "git_repo_root cx' ?args tr = (Some repo, tr @ [e0])"
    using ok by (simp add: git_repo_root_def run_command_def root(2) ops e0_def git_root_command_def Let_def)
  then have b: "git_before restore ts cx' tr = git_snapshot ts cx' repo (tr @ [e0])"
    using d nr nf repo by (simp add: git_before_def ops)
  obtain e1 e2 name r where snap: "git_snapshot ts cx' repo (tr @ [e0]) = (None,
      (tr @ [e0]) @ [e1, e2, Ev_run (branch_command cx' repo name) r, Ev_note (Snapshot_taken name)])"
    using git_snapshot_ok [of cx' ts repo "tr @ [e0]"] ok ops(1) by auto
  have "cx\<lparr>cx_name := ''git'', cx_args := args, cx_real_binary := git, cx_args := ?args\<rparr> = cx'"
    by (simp add: root)
  then have "snd (execute restore ts hs (Inr git) cx Git args tr)
      = snd (run_command (cx_ops cx') (real_command cx' ?args) (snd (git_snapshot ts cx' repo (tr @ [e0]))))"
    by (simp add: execute_def git_transform_def strip_no_interpose_def b snap run_command_def Let_def)
  then show ?thesis
    unfolding snap by (auto simp: run_command_def Let_def)
qed

text \<open>\<^verbatim>\<open>Transform\<close> removes the bypass flag before \<^verbatim>\<open>Before\<close> looks for it.\<close>

lemma execute_git_no_bypass:
  "execute restore ts hs real cx Git args tr = execute restore ts hs real cx Git (fst (strip_no_interpose args)) tr"
  by (cases real) (simp_all add: execute_def git_transform_def strip_no_interpose_def)

section \<open>Protected commands\<close>

lemma protected_before_cases:
  "protected_before name cx tr =
     (if allows (pv_command_allowlist (cx_policy cx)) name (cx_args cx) then (None, tr)
      else let tr1 = tr @ [Ev_note (Not_allowlisted name)];
               prompt = ''Type this 6-digit confirmation PIN to continue'';
               ok = op_confirm (cx_ops cx) tr1 prompt in
        (if ok then None else Some Pin_denied, tr1 @ [Ev_confirm prompt ok]))"
  by (simp add: protected_before_def confirm_pin_def say_def Let_def)

lemma execute_protected_safe:
  assumes "Ev_run cmd r \<in> set (snd (execute restore ts hs real cx (Protected_command name) args []))"
  shows "allows (pv_command_allowlist (cx_policy cx)) name args
    \<or> (\<exists>prompt. Ev_confirm prompt True \<in> set (snd (execute restore ts hs real cx (Protected_command name) args [])))"
  using assms
  by (auto simp: execute_def protected_before_cases run_command_def Let_def split: sum.splits if_splits)

lemma execute_protected_denied:
  assumes "\<not> allows (pv_command_allowlist (cx_policy cx)) name args"
    and "\<And>tr p. \<not> op_confirm (cx_ops cx) tr p"
  shows "fst (execute restore ts hs (Inr real) cx (Protected_command name) args tr) = 2"
  using assms by (simp add: execute_def protected_before_cases Let_def)

section \<open>Properties\<close>

text \<open>C19: A protected command (kill, pkill, killall, osascript) never runs unauthorised: if running the wrapper
  started any command at all, the arguments were allowlisted or a person confirmed the PIN.\<close>

theorem protected_command_authorised:
  assumes "Ev_run cmd r \<in> set (snd (execute restore ts hs real cx (Protected_command name) args []))"
  shows "allows (pv_command_allowlist (cx_policy cx)) name args
    \<or> (\<exists>prompt. Ev_confirm prompt True \<in> set (snd (execute restore ts hs real cx (Protected_command name) args [])))"
  using assms by (rule execute_protected_safe)

definition sample_ops :: "bool \<Rightarrow> operations" where
  "sample_ops pin = \<lparr>op_run = (\<lambda>tr cmd. \<lparr>ro_exit = 3, ro_failed = False, ro_stdout = ''/repo''\<rparr>),
     op_read = (\<lambda>tr p. None), op_confirm = (\<lambda>tr p. pin)\<rparr>"

definition sample_cx :: "bool \<Rightarrow> invocation" where
  "sample_cx pin = \<lparr>cx_name = [], cx_args = [], cx_real_binary = [], cx_dir = ''/home/u'', cx_env = [], cx_ops = sample_ops pin,
     cx_policy = \<lparr>pv_extra_protected_paths = [''/home/u/Library''], pv_disable_snapshot = [], pv_snapshot_prefix = [],
       pv_command_allowlist = sample_list\<rparr>\<rparr>"

definition sample_host :: host where
  "sample_host = \<lparr>hs_home = Some ''/home/u'', hs_wd = Some ''/home/u'', hs_ev = (\<lambda>p. None)\<rparr>"

lemma protected_command_authorised_witness:
  "\<exists>prompt. Ev_confirm prompt True \<in> set (snd (execute (\<lambda>cx repo tr. (True, tr)) [] sample_host (Inr ''/bin/kill'')
     (sample_cx True) (Protected_command ''kill'') [''-9'', ''1''] []))"
proof -
  let ?tr = "snd (execute (\<lambda>cx repo tr. (True, tr)) [] sample_host (Inr ''/bin/kill'')
     (sample_cx True) (Protected_command ''kill'') [''-9'', ''1''] [])"
  have no: "\<not> allows (pv_command_allowlist (cx_policy (sample_cx True))) ''kill'' [''-9'', ''1'']"
    by code_simp
  then have "\<exists>cmd r. Ev_run cmd r \<in> set ?tr"
    by (auto simp: execute_def protected_before_cases run_command_def Let_def sample_cx_def sample_ops_def)
  then show ?thesis
    using protected_command_authorised [of _ _ "\<lambda>cx repo tr. (True, tr)" "[]" sample_host "Inr ''/bin/kill''"
        "sample_cx True" "''kill''" "[''-9'', ''1'']"] no by blast
qed

text \<open>grep only gets what it may see: every argument handed to the real grep is an option or the pattern
  of the original invocation, a path operand that is not protected, or an \<^verbatim>\<open>--exclude-dir\<close> option for a
  protected root.\<close>

theorem grep_arguments_allowed:
  assumes "transform_grep hs cx args tr = (Inr out, tr')" "a \<in> set out"
  shows "a \<in> set (take (grep_path_start args) args)
    \<or> a \<in> set (drop (grep_path_start args) args) \<and> \<not> grep_blocked hs cx a
    \<or> a \<in> set (grep_excludes (pv_extra_protected_paths (cx_policy cx)))"
  using assms by (rule transform_grep_operands)

lemma grep_arguments_allowed_witness:
  "fst (transform_grep sample_host (sample_cx False) [''x'', ''Library/a'', ''b''] []) = Inr [''x'', ''b'']
   \<and> \<not> grep_blocked sample_host (sample_cx False) ''b''"
proof -
  have t: "fst (transform_grep sample_host (sample_cx False) [''x'', ''Library/a'', ''b''] []) = Inr [''x'', ''b'']"
    by code_simp
  moreover have "grep_path_start [''x'', ''Library/a'', ''b''] = 1"
    by code_simp
  moreover have "grep_excludes (pv_extra_protected_paths (cx_policy (sample_cx False))) = [''--exclude-dir=Library'']"
    by code_simp
  moreover have "transform_grep sample_host (sample_cx False) [''x'', ''Library/a'', ''b''] []
      = (Inr [''x'', ''b''], snd (transform_grep sample_host (sample_cx False) [''x'', ''Library/a'', ''b''] []))"
    using t by (metis prod.collapse)
  from grep_arguments_allowed [OF this, of "''b''"] calculation(2,3) have "\<not> grep_blocked sample_host (sample_cx False) ''b''"
    by simp
  ultimately show ?thesis
    by blast
qed

text \<open>find keeps out of the protected roots: when the start path could reach one, every non-empty root of
  the policy is pruned between the start path and the rest of the expression.\<close>

theorem find_prunes_every_root:
  assumes "find_start_index args < length args" "find_traverses hs cx (args ! find_start_index args)"
    and "root \<in> set (pv_extra_protected_paths (cx_policy cx))" "root \<noteq> []"
  shows "\<exists>pre post. transform_find hs cx args = take (find_start_index args + 1) args
    @ pre @ [''-path'', clean root, ''-prune''] @ post @ [''-o''] @ drop (find_start_index args + 1) args"
  using assms by (rule transform_find_prunes)

lemma find_prunes_every_root_witness:
  "\<exists>pre post. transform_find sample_host (sample_cx False) [''/'', ''-name'', ''x'']
     = [''/''] @ pre @ [''-path'', clean ''/home/u/Library'', ''-prune''] @ post @ [''-o'', ''-name'', ''x'']"
proof -
  have i: "find_start_index [''/'', ''-name'', ''x''] = 0"
    by simp
  have "find_traverses sample_host (sample_cx False) ''/''"
    by code_simp
  then show ?thesis
    using find_prunes_every_root [of "[''/'', ''-name'', ''x'']" sample_host "sample_cx False" "''/home/u/Library''"]
    by (simp add: i sample_cx_def)
qed

text \<open>A destructive git command runs after a snapshot attempt: when the operations reach git, the
  repository root resolves and snapshots are not disabled, running the wrapper executes the root
  query, two queries, the command that creates the snapshot branch and only then the real git, with
  the original arguments less \<^verbatim>\<open>--no-interpose\<close>.\<close>

theorem git_snapshot_before_destructive:
  assumes "git_destructive (filter (\<lambda>a. a \<noteq> no_interpose) args)"
    and "\<And>tr cmd. \<not> ro_failed (op_run (cx_ops cx) tr cmd)"
    and "cx' = cx\<lparr>cx_name := ''git'', cx_args := filter (\<lambda>a. a \<noteq> no_interpose) args, cx_real_binary := git\<rparr>"
    and "repo = trim_space (ro_stdout (op_run (cx_ops cx) tr (git_root_command cx' (filter (\<lambda>a. a \<noteq> no_interpose) args))))"
    and "repo \<noteq> []" "\<not> snapshots_disabled (cx_policy cx) repo"
  shows "\<exists>e0 e1 e2 name rb r. snd (execute restore ts hs (Inr git) cx Git args tr) =
    tr @ [e0, e1, e2, Ev_run (branch_command cx' repo name) rb, Ev_note (Snapshot_taken name),
      Ev_run (real_command cx' (filter (\<lambda>a. a \<noteq> no_interpose) args)) r]"
  using assms by (rule execute_git_snapshot_first)

lemma reset_args: "filter (\<lambda>a. a \<noteq> no_interpose) [''reset'', ''--hard''] = [''reset'', ''--hard'']"
  by (simp add: no_interpose_def)

lemma git_snapshot_before_destructive_witness:
  "\<exists>e0 e1 e2 name rb r. snd (execute (\<lambda>cx repo tr. (True, tr)) ''t'' sample_host (Inr ''/g'') (sample_cx False) Git [''reset'', ''--hard''] []) =
    [] @ [e0, e1, e2, Ev_run (branch_command ((sample_cx False)\<lparr>cx_name := ''git'', cx_args := [''reset'', ''--hard''],
      cx_real_binary := ''/g''\<rparr>) ''/repo'' name) rb, Ev_note (Snapshot_taken name),
      Ev_run (real_command ((sample_cx False)\<lparr>cx_name := ''git'', cx_args := [''reset'', ''--hard''],
      cx_real_binary := ''/g''\<rparr>) [''reset'', ''--hard'']) r]"
proof (rule git_snapshot_before_destructive [where args = "[''reset'', ''--hard'']" and repo = "''/repo''",
    unfolded reset_args])
  show "git_destructive [''reset'', ''--hard'']"
    by code_simp
  show "\<not> ro_failed (op_run (cx_ops (sample_cx False)) tr cmd)" for tr cmd
    by (simp add: sample_cx_def sample_ops_def)
  have "trim_space ''/repo'' = ''/repo''"
    by (rule trim_space_visible) (simp_all add: visible_def)
  then show "''/repo'' = trim_space (ro_stdout (op_run (cx_ops (sample_cx False)) [] (git_root_command
      ((sample_cx False)\<lparr>cx_name := ''git'', cx_args := [''reset'', ''--hard''], cx_real_binary := ''/g''\<rparr>) [''reset'', ''--hard''])))"
    by (simp add: sample_cx_def sample_ops_def)
  show "\<not> snapshots_disabled (cx_policy (sample_cx False)) ''/repo''"
    by (simp add: sample_cx_def snapshots_disabled_def)
qed simp_all

text \<open>\<^verbatim>\<open>--no-interpose\<close> does not bypass the git wrapper: \<^verbatim>\<open>Transform\<close> strips the flag before \<^verbatim>\<open>Before\<close>
  looks for it, so an invocation with the flag has the same effects and the same exit status as the
  invocation without it.\<close>

theorem git_bypass_flag_is_dead:
  "execute restore ts hs real cx Git args tr = execute restore ts hs real cx Git (fst (strip_no_interpose args)) tr"
  by (rule execute_git_no_bypass)

end
