(* ===== verification/Restore.thy ===== *)
theory Restore
  imports Interpose_Wrappers "HOL-Library.Multiset"
begin

text \<open>
  Automatic repair of conflicted files (\<^verbatim>\<open>internal/restoreconflict/restore.go\<close>): the search for
  conflict markers, the choice of the newest clean snapshot of a file, and the worker pool that
  finds and the loop that restores. The pool is a step relation \<open>restore_step\<close>: workers take paths
  from the closed channel \<^verbatim>\<open>jobs\<close>, read, probe and send to \<^verbatim>\<open>results\<close>, and the consumer checks out;
  every interleaving is a run. \<open>restore\<close> is the run in which one worker does all the work first;
  \<open>restore_seq_run\<close> shows that it is one.
\<close>

section \<open>Conflict markers\<close>

definition line_start :: "string \<Rightarrow> nat \<Rightarrow> bool" where
  "line_start data i \<longleftrightarrow> i = 0 \<or> data ! (i - 1) = CHR 0x0A"

definition marker_end :: "string \<Rightarrow> nat \<Rightarrow> bool" where
  "marker_end data j \<longleftrightarrow> j = length data \<or> data ! j = CHR '' '' \<or> data ! j = CHR 0x0A"

definition ours :: string where "ours = ''<<<<<<<''"
definition theirs :: string where "theirs = ''>>>>>>>''"

lemma index_of_less: "index_of s p = Some i \<Longrightarrow> p \<noteq> [] \<Longrightarrow> i < length s"
  using index_of_Some [of s p i] by (cases "i < length s") auto

function has_conflict_markers :: "string \<Rightarrow> bool" where
  "has_conflict_markers data =
     (case index_of data ours of
        Some i \<Rightarrow> if line_start data i \<and> marker_end data (i + 7) then True
                  else has_conflict_markers (drop (i + 1) data)
      | None \<Rightarrow> (case index_of data theirs of
          None \<Rightarrow> False
        | Some i \<Rightarrow> if line_start data i \<and> marker_end data (i + 7) then True
                    else has_conflict_markers (drop (i + 1) data)))"
  by pat_completeness auto
termination
  by (relation "measure length") (auto dest!: index_of_less simp: ours_def theirs_def)

declare has_conflict_markers.simps [simp del]

section \<open>Git queries\<close>

record restore_options =
  opt_git :: string
  opt_prefix :: string
  opt_dry_run :: bool

definition repo_command :: "string \<Rightarrow> string \<Rightarrow> string list \<Rightarrow> bool \<Rightarrow> command" where
  "repo_command git repo args capture = \<lparr>cmd_path = git, cmd_args = [''-C'', repo] @ args, cmd_dir = [],
     cmd_env = [], cmd_capture = capture\<rparr>"

definition run_output :: "operations \<Rightarrow> string \<Rightarrow> string \<Rightarrow> string list \<Rightarrow> trace \<Rightarrow> string option \<times> trace" where
  "run_output ops git repo args tr =
     (case run_command ops (repo_command git repo args True) tr of
        (r, tr) \<Rightarrow> (if ro_failed r then None else Some (ro_stdout r), tr))"

definition is_bare :: "operations \<Rightarrow> string \<Rightarrow> string \<Rightarrow> trace \<Rightarrow> bool option \<times> trace" where
  "is_bare ops git repo tr = (case run_output ops git repo [''rev-parse'', ''--is-bare-repository''] tr of
     (out, tr) \<Rightarrow> (map_option (\<lambda>s. trim_space s = ''true'') out, tr))"

definition split_nul :: "string \<Rightarrow> string list" where
  "split_nul s = (let t = (if s \<noteq> [] \<and> last s = CHR 0x00 then butlast s else s) in
     if t = [] then [] else split_on (CHR 0x00) t)"

definition list_files :: "operations \<Rightarrow> string \<Rightarrow> string \<Rightarrow> trace \<Rightarrow> string list option \<times> trace" where
  "list_files ops git repo tr =
     (case run_output ops git repo [''ls-files'', ''-z'', ''--cached'', ''--others'', ''--exclude-standard''] tr of
        (out, tr) \<Rightarrow> (map_option split_nul out, tr))"

definition list_refs :: "operations \<Rightarrow> string \<Rightarrow> string \<Rightarrow> string \<Rightarrow> trace \<Rightarrow> string list option \<times> trace" where
  "list_refs ops git repo pfx tr =
     (case run_output ops git repo [''for-each-ref'', ''--sort=-refname'', ''--format=%(refname:short)'',
          ''refs/heads/'' @ pfx @ ''/*''] tr of
        (out, tr) \<Rightarrow> (map_option str_fields out, tr))"

definition show_command :: "string \<Rightarrow> string \<Rightarrow> string \<Rightarrow> string \<Rightarrow> command" where
  "show_command git repo ref path = repo_command git repo [''show'', ref @ '':'' @ path] True"

definition file_at_ref :: "operations \<Rightarrow> string \<Rightarrow> string \<Rightarrow> string \<Rightarrow> string \<Rightarrow> trace \<Rightarrow> string option \<times> trace" where
  "file_at_ref ops git repo ref path tr = run_output ops git repo [''show'', ref @ '':'' @ path] tr"

definition clean_content :: "string option \<Rightarrow> bool" where
  "clean_content data = (case data of None \<Rightarrow> False | Some s \<Rightarrow> \<not> has_conflict_markers s)"

fun find_clean_ref :: "operations \<Rightarrow> string \<Rightarrow> string \<Rightarrow> string \<Rightarrow> string list \<Rightarrow> trace \<Rightarrow> string \<times> trace" where
  "find_clean_ref ops git repo path [] tr = ([], tr)"
| "find_clean_ref ops git repo path (ref # refs) tr =
     (case file_at_ref ops git repo ref path tr of
        (data, tr) \<Rightarrow> if clean_content data then (ref, tr) else find_clean_ref ops git repo path refs tr)"

definition checkout_command :: "string \<Rightarrow> string \<Rightarrow> string \<Rightarrow> string \<Rightarrow> command" where
  "checkout_command git repo path ref = repo_command git repo [''checkout'', ref, ''--'', path] False"

definition checkout_file :: "operations \<Rightarrow> string \<Rightarrow> string \<Rightarrow> string \<Rightarrow> string \<Rightarrow> trace \<Rightarrow> bool \<times> trace" where
  "checkout_file ops git repo path ref tr =
     (case run_command ops (checkout_command git repo path ref) tr of (r, tr) \<Rightarrow> (\<not> ro_failed r, tr))"

section \<open>The worker pool\<close>

datatype worker = Idle | Have string | Search string "string list" | Found string string | Exited

record restore_state =
  rs_jobs :: "string list"
  rs_workers :: "worker list"
  rs_results :: "(string \<times> string) list"
  rs_failures :: "string list"
  rs_trace :: trace

definition conflicted :: "bytes option \<Rightarrow> bool" where
  "conflicted data = (case data of None \<Rightarrow> False | Some b \<Rightarrow> has_conflict_markers (string_of b))"

definition restore_one :: "operations \<Rightarrow> string \<Rightarrow> string \<Rightarrow> bool \<Rightarrow> string \<Rightarrow> string \<Rightarrow> trace \<Rightarrow> string list \<times> trace" where
  "restore_one ops git repo dry path ref tr =
     (if dry then ([], say (Would_restore path ref) tr)
      else (case checkout_file ops git repo path ref tr of
          (ok, tr) \<Rightarrow> if ok then ([], say (Restored path ref) tr) else ([path], tr)))"

inductive restore_step :: "operations \<Rightarrow> string \<Rightarrow> string \<Rightarrow> bool \<Rightarrow> string list
    \<Rightarrow> restore_state \<Rightarrow> restore_state \<Rightarrow> bool"
  for ops git repo dry refs where
  take_job: "i < length (rs_workers s) \<Longrightarrow> rs_workers s ! i = Idle \<Longrightarrow> rs_jobs s = path # rest \<Longrightarrow>
    restore_step ops git repo dry refs s (s\<lparr>rs_jobs := rest, rs_workers := (rs_workers s)[i := Have path]\<rparr>)"
| leave: "i < length (rs_workers s) \<Longrightarrow> rs_workers s ! i = Idle \<Longrightarrow> rs_jobs s = [] \<Longrightarrow>
    restore_step ops git repo dry refs s (s\<lparr>rs_workers := (rs_workers s)[i := Exited]\<rparr>)"
| inspect: "i < length (rs_workers s) \<Longrightarrow> rs_workers s ! i = Have path \<Longrightarrow>
    ops_read_file ops (path_join [repo, path]) (rs_trace s) = (data, tr) \<Longrightarrow>
    restore_step ops git repo dry refs s (s\<lparr>rs_trace := tr,
      rs_workers := (rs_workers s)[i := (if conflicted data then Search path refs else Idle)]\<rparr>)"
| probe: "i < length (rs_workers s) \<Longrightarrow> rs_workers s ! i = Search path (ref # rest) \<Longrightarrow>
    file_at_ref ops git repo ref path (rs_trace s) = (data, tr) \<Longrightarrow>
    restore_step ops git repo dry refs s (s\<lparr>rs_trace := tr,
      rs_workers := (rs_workers s)[i := (if \<not> clean_content data then Search path rest
        else if ref \<noteq> [] then Found path ref else Idle)]\<rparr>)"
| give_up: "i < length (rs_workers s) \<Longrightarrow> rs_workers s ! i = Search path [] \<Longrightarrow>
    restore_step ops git repo dry refs s (s\<lparr>rs_workers := (rs_workers s)[i := Idle]\<rparr>)"
| send: "i < length (rs_workers s) \<Longrightarrow> rs_workers s ! i = Found path ref \<Longrightarrow>
    restore_step ops git repo dry refs s (s\<lparr>rs_results := rs_results s @ [(path, ref)],
      rs_workers := (rs_workers s)[i := Idle]\<rparr>)"
| consume: "rs_results s = (path, ref) # rest \<Longrightarrow>
    restore_one ops git repo dry path ref (rs_trace s) = (fs, tr) \<Longrightarrow>
    restore_step ops git repo dry refs s (s\<lparr>rs_results := rest, rs_failures := rs_failures s @ fs, rs_trace := tr\<rparr>)"

definition restore_start :: "nat \<Rightarrow> string list \<Rightarrow> trace \<Rightarrow> restore_state" where
  "restore_start workers files tr = \<lparr>rs_jobs = files, rs_workers = replicate workers Idle, rs_results = [],
     rs_failures = [], rs_trace = tr\<rparr>"

definition restore_done :: "restore_state \<Rightarrow> bool" where
  "restore_done s \<longleftrightarrow> list_all (\<lambda>w. w = Exited) (rs_workers s) \<and> rs_results s = []"

section \<open>One schedule, executable\<close>

fun find_conflicts :: "operations \<Rightarrow> string \<Rightarrow> string \<Rightarrow> string list \<Rightarrow> string list \<Rightarrow> trace
    \<Rightarrow> (string \<times> string) list \<times> trace" where
  "find_conflicts ops git repo refs [] tr = ([], tr)"
| "find_conflicts ops git repo refs (path # files) tr =
     (case ops_read_file ops (path_join [repo, path]) tr of
        (data, tr) \<Rightarrow>
          if \<not> conflicted data then find_conflicts ops git repo refs files tr
          else (case find_clean_ref ops git repo path refs tr of
            (ref, tr) \<Rightarrow> (case find_conflicts ops git repo refs files tr of
              (jobs, tr) \<Rightarrow> ((if ref \<noteq> [] then [(path, ref)] else []) @ jobs, tr))))"

fun restore_all :: "operations \<Rightarrow> string \<Rightarrow> string \<Rightarrow> bool \<Rightarrow> (string \<times> string) list \<Rightarrow> trace \<Rightarrow> string list \<times> trace" where
  "restore_all ops git repo dry [] tr = ([], tr)"
| "restore_all ops git repo dry ((path, ref) # jobs) tr =
     (case restore_one ops git repo dry path ref tr of
        (e, tr) \<Rightarrow> (case restore_all ops git repo dry jobs tr of (es, tr) \<Rightarrow> (e @ es, tr)))"

datatype restore_error = Check_bare | List_files | List_refs | Restore_failures "string list"

definition restore :: "operations \<Rightarrow> restore_options \<Rightarrow> string \<Rightarrow> trace \<Rightarrow> restore_error option \<times> trace" where
  "restore ops opts repo tr =
     (let git = (if opt_git opts = [] then ''git'' else opt_git opts);
          pfx = (if opt_prefix opts = [] then default_snapshot_prefix else opt_prefix opts) in
      case is_bare ops git repo tr of
        (None, tr) \<Rightarrow> (Some Check_bare, tr)
      | (Some bare, tr) \<Rightarrow>
          if bare then (None, tr)
          else (case list_files ops git repo tr of
            (None, tr) \<Rightarrow> (Some List_files, tr)
          | (Some files, tr) \<Rightarrow>
              if files = [] then (None, tr)
              else (case list_refs ops git repo pfx tr of
                (None, tr) \<Rightarrow> (Some List_refs, tr)
              | (Some refs, tr) \<Rightarrow>
                  if refs = [] then (None, tr)
                  else (case find_conflicts ops git repo refs files tr of
                    (jobs, tr) \<Rightarrow> (case restore_all ops git repo (opt_dry_run opts) jobs tr of
                      (errs, tr) \<Rightarrow> (if errs = [] then None else Some (Restore_failures errs), tr))))))"

text \<open>\<^verbatim>\<open>restoreConflicts\<close> of the git wrapper: the parameter \<open>restore\<close> of \<^const>\<open>git_before\<close>.\<close>

definition restore_conflicts :: "invocation \<Rightarrow> string \<Rightarrow> trace \<Rightarrow> bool \<times> trace" where
  "restore_conflicts cx repo tr =
     (let pfx = pv_snapshot_prefix (cx_policy cx) in
      case restore (cx_ops cx) \<lparr>opt_git = cx_real_binary cx,
        opt_prefix = (if pfx = [] then default_snapshot_prefix else pfx), opt_dry_run = False\<rparr> repo tr of
        (e, tr) \<Rightarrow> (e = None, tr))"

section \<open>What the marker search finds\<close>

definition marker_at :: "string \<Rightarrow> string \<Rightarrow> nat \<Rightarrow> bool" where
  "marker_at marker data j \<longleftrightarrow> has_prefix (drop j data) marker \<and> marker_end data (j + 7)"

lemma marker_length: "length ours = 7" "length theirs = 7" "ours \<noteq> []" "theirs \<noteq> []"
  by (simp_all add: ours_def theirs_def)

lemma marker_at_bound: "marker_at m data j \<Longrightarrow> length m = 7 \<Longrightarrow> j + 7 \<le> length data"
  by (auto simp: marker_at_def has_prefix_iff dest!: arg_cong [of _ _ length])

lemma marker_end_drop: "n \<le> length data \<Longrightarrow> marker_end (drop n data) k \<longleftrightarrow> marker_end data (n + k)"
  by (auto simp: marker_end_def nth_drop)

lemma marker_at_drop_iff: "n + k \<le> length data \<Longrightarrow> marker_at m (drop n data) k \<longleftrightarrow> marker_at m data (n + k)"
  by (simp add: marker_at_def marker_end_drop add.commute [of k n]) (simp add: add.assoc)

lemma marker_at_drop:
  assumes "marker_at m data j" "length m = 7" "i < j"
  shows "marker_at m (drop (i + 1) data) (j - (i + 1))"
  using assms marker_at_bound [OF assms(1,2)] by (subst marker_at_drop_iff) simp_all

lemma line_start_drop:
  assumes "line_start data j" "i < j" "j \<le> length data"
  shows "line_start (drop (i + 1) data) (j - (i + 1))"
proof (cases "j = i + 1")
  case False
  define k where "k = j - (i + 2)"
  have k: "j = i + 2 + k"
    using assms(2) False by (simp add: k_def)
  have "drop (i + 1) data ! k = data ! (i + 1 + k)"
    using assms(3) k by (intro nth_drop) simp
  moreover have "j - (i + 1) - 1 = k" "j - 1 = i + 1 + k"
    using k by simp_all
  ultimately show ?thesis
    using assms(1) k by (simp only: line_start_def) simp
qed (simp add: line_start_def)

text \<open>A line that opens a conflict is never missed.\<close>

lemma has_conflict_markers_ours:
  "marker_at ours data j \<Longrightarrow> line_start data j \<Longrightarrow> has_conflict_markers data"
proof (induction data arbitrary: j rule: has_conflict_markers.induct)
  case (1 data)
  note m = \<open>marker_at ours data j\<close> and l = \<open>line_start data j\<close>
  have "index_of data ours \<noteq> None"
    using m index_of_None [of data ours j] by (auto simp: marker_at_def)
  then obtain i where i: "index_of data ours = Some i"
    by blast
  have "i \<le> j"
    using m index_of_least [OF i, of j] by (force simp: marker_at_def)
  show ?case
  proof (cases "line_start data i \<and> marker_end data (i + 7)")
    case True
    with i show ?thesis
      by (simp add: has_conflict_markers.simps [of data])
  next
    case False
    with m l \<open>i \<le> j\<close> have "i < j"
      by (cases "i = j") (auto simp: marker_at_def)
    moreover have "j \<le> length data"
      using marker_at_bound [OF m] marker_length by simp
    ultimately have "has_conflict_markers (drop (i + 1) data)"
      by (intro 1(2) [OF i False marker_at_drop [OF m marker_length(1)] line_start_drop [OF l]])
    with i False show ?thesis
      by (simp add: has_conflict_markers.simps [of data])
  qed
qed

text \<open>A line that closes one is found when the text has no opening sequence.\<close>

lemma has_conflict_markers_theirs:
  "marker_at theirs data j \<Longrightarrow> line_start data j \<Longrightarrow> \<not> contains_str data ours \<Longrightarrow> has_conflict_markers data"
proof (induction data arbitrary: j rule: has_conflict_markers.induct)
  case (1 data)
  note m = \<open>marker_at theirs data j\<close> and l = \<open>line_start data j\<close> and no = \<open>\<not> contains_str data ours\<close>
  have none: "index_of data ours = None"
    using no by (simp add: contains_str_def)
  obtain i where i: "index_of data theirs = Some i"
    using m index_of_None [of data theirs j] by (fastforce simp: marker_at_def)
  have "i \<le> j"
    using m index_of_least [OF i, of j] by (force simp: marker_at_def)
  show ?case
  proof (cases "line_start data i \<and> marker_end data (i + 7)")
    case True
    with i none show ?thesis
      by (simp add: has_conflict_markers.simps [of data])
  next
    case False
    with m l \<open>i \<le> j\<close> have "i < j"
      by (cases "i = j") (auto simp: marker_at_def)
    have "\<not> contains_str (drop (i + 1) data) ours"
      using no by (metis append.assoc append_take_drop_id contains_str_iff)
    moreover have "j \<le> length data"
      using marker_at_bound [OF m] marker_length by simp
    ultimately have "has_conflict_markers (drop (i + 1) data)"
      using \<open>i < j\<close> by (intro 1(1) [OF none i False marker_at_drop [OF m marker_length(2)] line_start_drop [OF l]])
    with i none False show ?thesis
      by (simp add: has_conflict_markers.simps [of data])
  qed
qed

text \<open>What is reported is at least a marker followed by a space, a line feed or the end.\<close>

lemma marker_at_undrop: "i + 1 \<le> length data \<Longrightarrow> length m = 7 \<Longrightarrow> marker_at m (drop (i + 1) data) j
    \<Longrightarrow> marker_at m data (i + 1 + j)"
proof -
  assume a: "i + 1 \<le> length data" "length m = 7" "marker_at m (drop (i + 1) data) j"
  then have "i + 1 + j \<le> length data"
    using marker_at_bound [OF a(3,2)] by simp
  with a(3) show ?thesis
    by (simp only: marker_at_drop_iff)
qed

lemma has_conflict_markers_sound:
  "has_conflict_markers data \<Longrightarrow> \<exists>j. marker_at ours data j \<or> marker_at theirs data j"
proof (induction data rule: has_conflict_markers.induct)
  case (1 data)
  have step: "\<exists>j. marker_at ours data j \<or> marker_at theirs data j"
    if i: "index_of data m = Some i" and m: "m = ours \<or> m = theirs"
      and IH: "\<not> (line_start data i \<and> marker_end data (i + 7)) \<Longrightarrow> has_conflict_markers (drop (i + 1) data) \<Longrightarrow>
        \<exists>j. marker_at ours (drop (i + 1) data) j \<or> marker_at theirs (drop (i + 1) data) j"
      and h: "line_start data i \<and> marker_end data (i + 7) \<or> has_conflict_markers (drop (i + 1) data)" for m i
  proof (cases "line_start data i \<and> marker_end data (i + 7)")
    case True
    with i m index_of_Some [OF i] show ?thesis
      by (auto simp: marker_at_def)
  next
    case False
    have "i + 1 \<le> length data"
      using i m index_of_less [OF i] marker_length by auto
    with IH [OF False] h False show ?thesis
      using marker_at_undrop marker_length by metis
  qed
  show ?case
  proof (cases "index_of data ours")
    case (Some i)
    with "1.prems" have "line_start data i \<and> marker_end data (i + 7) \<or> has_conflict_markers (drop (i + 1) data)"
      by (subst (asm) has_conflict_markers.simps) (auto split: if_splits)
    with Some 1(2) [OF Some] show ?thesis
      by (intro step [of ours i]) simp_all
  next
    case None
    then obtain i where i: "index_of data theirs = Some i"
      using "1.prems" by (subst (asm) has_conflict_markers.simps) (auto split: option.splits)
    with "1.prems" None have "line_start data i \<and> marker_end data (i + 7) \<or> has_conflict_markers (drop (i + 1) data)"
      by (subst (asm) has_conflict_markers.simps) (auto split: if_splits)
    with i None 1(1) [OF None i] show ?thesis
      by (intro step [of theirs i]) simp_all
  qed
qed

section \<open>Every interleaving ends, with every file inspected\<close>

fun worker_weight :: "nat \<Rightarrow> worker \<Rightarrow> nat" where
  "worker_weight n Idle = 1"
| "worker_weight n (Have path) = n + 5"
| "worker_weight n (Search path refs) = length refs + 4"
| "worker_weight n (Found path ref) = 3"
| "worker_weight n Exited = 0"

definition restore_measure :: "nat \<Rightarrow> restore_state \<Rightarrow> nat" where
  "restore_measure n s = (n + 5) * length (rs_jobs s)
     + sum_list (map (worker_weight n) (rs_workers s)) + length (rs_results s)"

lemma sum_list_map_update:
  "i < length xs \<Longrightarrow> sum_list (map f (xs[i := y])) + f (xs ! i) = sum_list (map f xs) + (f y :: nat)"
  by (induction xs arbitrary: i) (auto split: nat.splits)

lemma restore_step_measure:
  "restore_step ops git repo dry refs s s' \<Longrightarrow>
     restore_measure (length refs) s' < restore_measure (length refs) s"
proof (induction rule: restore_step.induct)
  case (take_job i s path rest)
  then show ?case
    using sum_list_map_update [of i "rs_workers s" "worker_weight (length refs)" "Have path"]
    by (simp add: restore_measure_def)
next
  case (leave i s)
  then show ?case
    using sum_list_map_update [of i "rs_workers s" "worker_weight (length refs)" Exited]
    by (simp add: restore_measure_def)
next
  case (inspect i s path data tr)
  then show ?case
    using sum_list_map_update [of i "rs_workers s" "worker_weight (length refs)"
      "if conflicted data then Search path refs else Idle"]
    by (auto simp: restore_measure_def)
next
  case (probe i s path ref rest data tr)
  then show ?case
    using sum_list_map_update [of i "rs_workers s" "worker_weight (length refs)"
      "if \<not> clean_content data then Search path rest else if ref \<noteq> [] then Found path ref else Idle"]
    by (auto simp: restore_measure_def split: if_splits)
next
  case (give_up i s path)
  then show ?case
    using sum_list_map_update [of i "rs_workers s" "worker_weight (length refs)" Idle]
    by (simp add: restore_measure_def)
next
  case (send i s path ref)
  then show ?case
    using sum_list_map_update [of i "rs_workers s" "worker_weight (length refs)" Idle]
    by (simp add: restore_measure_def)
next
  case (consume s path ref rest fs tr)
  then show ?case
    by (simp add: restore_measure_def)
qed

lemma restore_progress:
  assumes "\<not> restore_done s"
  shows "\<exists>s'. restore_step ops git repo dry refs s s'"
proof (cases "rs_results s")
  case (Cons r rest)
  then show ?thesis
    by (cases r, cases "restore_one ops git repo dry (fst r) (snd r) (rs_trace s)") (auto intro: restore_step.consume)
next
  case Nil
  with assms obtain i where i: "i < length (rs_workers s)" "rs_workers s ! i \<noteq> Exited"
    by (auto simp: restore_done_def list_all_length)
  show ?thesis
  proof (cases "rs_workers s ! i")
    case Idle
    with i show ?thesis
      by (cases "rs_jobs s") (blast intro: restore_step.leave restore_step.take_job)+
  next
    case (Have path)
    with i show ?thesis
      by (cases "ops_read_file ops (path_join [repo, path]) (rs_trace s)") (blast intro: restore_step.inspect)
  next
    case (Search path rest)
    with i show ?thesis
    proof (cases rest)
      case (Cons ref more)
      with i Search show ?thesis
        by (cases "file_at_ref ops git repo ref path (rs_trace s)") (blast intro: restore_step.probe)
    qed (blast intro: restore_step.give_up)
  next
    case (Found path ref)
    with i show ?thesis
      by (blast intro: restore_step.send)
  next
    case Exited
    with i show ?thesis
      by simp
  qed
qed

section \<open>Only conflicted files are restored, from the newest clean snapshot\<close>

definition outcome_data :: "run_outcome \<Rightarrow> string option" where
  "outcome_data r = (if ro_failed r then None else Some (ro_stdout r))"

definition probed :: "string \<Rightarrow> string \<Rightarrow> string \<Rightarrow> trace \<Rightarrow> string \<Rightarrow> bool \<Rightarrow> bool" where
  "probed git repo path tr ref ok \<longleftrightarrow> (\<exists>r. Ev_run (show_command git repo ref path) r \<in> set tr
     \<and> clean_content (outcome_data r) = ok)"

definition seen_conflict :: "string \<Rightarrow> trace \<Rightarrow> string \<Rightarrow> bool" where
  "seen_conflict repo tr path \<longleftrightarrow> (\<exists>b. Ev_read (path_join [repo, path]) b \<in> set tr \<and> conflicted b)"

definition justified :: "string \<Rightarrow> string \<Rightarrow> string list \<Rightarrow> string list \<Rightarrow> trace \<Rightarrow> string \<Rightarrow> string \<Rightarrow> bool" where
  "justified git repo files refs tr path ref \<longleftrightarrow> path \<in> set files \<and> seen_conflict repo tr path
     \<and> (\<exists>newer older. refs = newer @ ref # older \<and> (\<forall>q \<in> set newer. probed git repo path tr q False)
        \<and> probed git repo path tr ref True)"

definition worker_ok :: "string \<Rightarrow> string \<Rightarrow> string list \<Rightarrow> string list \<Rightarrow> trace \<Rightarrow> worker \<Rightarrow> bool" where
  "worker_ok git repo files refs tr w \<longleftrightarrow> (case w of
       Have path \<Rightarrow> path \<in> set files
     | Search path rest \<Rightarrow> path \<in> set files \<and> seen_conflict repo tr path
         \<and> (\<exists>newer. refs = newer @ rest \<and> (\<forall>q \<in> set newer. probed git repo path tr q False))
     | Found path ref \<Rightarrow> justified git repo files refs tr path ref
     | _ \<Rightarrow> True)"

definition pool_inv :: "string \<Rightarrow> string \<Rightarrow> string list \<Rightarrow> string list \<Rightarrow> trace \<Rightarrow> restore_state \<Rightarrow> bool" where
  "pool_inv git repo files refs tr0 s \<longleftrightarrow>
     set (rs_jobs s) \<subseteq> set files
     \<and> (\<forall>w \<in> set (rs_workers s). worker_ok git repo files refs (rs_trace s) w)
     \<and> (\<forall>(path, ref) \<in> set (rs_results s). justified git repo files refs (rs_trace s) path ref)
     \<and> (\<exists>new. rs_trace s = tr0 @ new
        \<and> (\<forall>path ref r. Ev_run (checkout_command git repo path ref) r \<in> set new \<longrightarrow>
            justified git repo files refs (rs_trace s) path ref))
     \<and> (Exited \<in> set (rs_workers s) \<longrightarrow> rs_jobs s = [])"

lemma probed_mono: "probed git repo path tr ref ok \<Longrightarrow> set tr \<subseteq> set tr' \<Longrightarrow> probed git repo path tr' ref ok"
  by (auto simp: probed_def)

lemma seen_conflict_mono: "seen_conflict repo tr path \<Longrightarrow> set tr \<subseteq> set tr' \<Longrightarrow> seen_conflict repo tr' path"
  by (auto simp: seen_conflict_def)

lemma justified_mono:
  "justified git repo files refs tr path ref \<Longrightarrow> set tr \<subseteq> set tr' \<Longrightarrow> justified git repo files refs tr' path ref"
  unfolding justified_def by (metis probed_mono seen_conflict_mono)

lemma worker_ok_mono:
  assumes "worker_ok git repo files refs tr w" "set tr \<subseteq> set tr'"
  shows "worker_ok git repo files refs tr' w"
proof (cases w)
  case (Search path rest)
  with assms show ?thesis
    unfolding worker_ok_def by simp (metis probed_mono seen_conflict_mono)
next
  case (Found path ref)
  with assms show ?thesis
    unfolding worker_ok_def using justified_mono by fastforce
qed (use assms in \<open>simp_all add: worker_ok_def\<close>)

lemma show_not_checkout: "checkout_command git repo path' ref' \<noteq> show_command git repo ref path"
  by (simp add: show_command_def checkout_command_def repo_command_def)

lemma checkout_command_inj:
  "checkout_command git repo path ref = checkout_command git repo path' ref' \<longleftrightarrow> path = path' \<and> ref = ref'"
  by (auto simp: checkout_command_def repo_command_def)

text \<open>How the invariant survives a step: the trace grows by events that are no checkouts (or a justified
  one), one worker changes to a state that is in order, nothing else gets worse.\<close>

lemma pool_inv_step:
  assumes inv: "pool_inv git repo files refs tr0 s"
    and jobs: "set (rs_jobs s') \<subseteq> set (rs_jobs s)"
    and tr: "rs_trace s' = rs_trace s @ new"
    and new: "\<And>path ref r. Ev_run (checkout_command git repo path ref) r \<in> set new \<Longrightarrow> (path, ref) \<in> set (rs_results s)"
    and workers: "\<forall>w \<in> set (rs_workers s'). w \<in> set (rs_workers s) \<or> worker_ok git repo files refs (rs_trace s') w"
    and results: "\<forall>(path, ref) \<in> set (rs_results s'). (path, ref) \<in> set (rs_results s)
      \<or> justified git repo files refs (rs_trace s') path ref"
    and exited: "Exited \<in> set (rs_workers s') \<Longrightarrow> rs_jobs s' = []"
  shows "pool_inv git repo files refs tr0 s'"
proof -
  have sub: "set (rs_trace s) \<subseteq> set (rs_trace s')"
    by (simp add: tr)
  have old: "justified git repo files refs (rs_trace s') path ref" if "(path, ref) \<in> set (rs_results s)" for path ref
    using inv that justified_mono [OF _ sub] by (fastforce simp: pool_inv_def)
  obtain more where more: "rs_trace s = tr0 @ more"
    "\<forall>path ref r. Ev_run (checkout_command git repo path ref) r \<in> set more \<longrightarrow>
       justified git repo files refs (rs_trace s) path ref"
    using inv by (auto simp: pool_inv_def)
  have "justified git repo files refs (rs_trace s') path ref"
    if "Ev_run (checkout_command git repo path ref) r \<in> set (more @ new)" for path ref r
    using that more(2) new old justified_mono [OF _ sub] by fastforce
  then have "\<exists>new. rs_trace s' = tr0 @ new \<and> (\<forall>path ref r. Ev_run (checkout_command git repo path ref) r \<in> set new \<longrightarrow>
       justified git repo files refs (rs_trace s') path ref)"
    using tr more(1) by (intro exI [of _ "more @ new"]) simp
  moreover have "\<forall>w \<in> set (rs_workers s'). worker_ok git repo files refs (rs_trace s') w"
    using inv workers worker_ok_mono [OF _ sub] by (fastforce simp: pool_inv_def)
  moreover have "\<forall>(path, ref) \<in> set (rs_results s'). justified git repo files refs (rs_trace s') path ref"
    using results old by auto
  ultimately show ?thesis
    using inv jobs exited by (auto simp: pool_inv_def)
qed

lemma set_update: "i < length xs \<Longrightarrow> w \<in> set (xs[i := y]) \<Longrightarrow> w = y \<or> w \<in> set xs"
  using set_update_subset_insert [of xs i y] by auto

lemma pool_inv_worker: "pool_inv git repo files refs tr0 s \<Longrightarrow> i < length (rs_workers s) \<Longrightarrow>
    worker_ok git repo files refs (rs_trace s) (rs_workers s ! i)"
  by (auto simp: pool_inv_def)

lemma Exited_update: "Exited \<in> set (xs[i := y]) \<Longrightarrow> y \<noteq> Exited \<Longrightarrow> i < length xs \<Longrightarrow> Exited \<in> set xs"
  using set_update [of i xs Exited y] by auto

lemma restore_one_events:
  assumes "restore_one ops git repo dry path ref tr = (fs, tr')"
  obtains new where "tr' = tr @ new"
    "\<And>p q r. Ev_run (checkout_command git repo p q) r \<in> set new \<Longrightarrow> p = path \<and> q = ref"
  using assms by (auto simp: restore_one_def checkout_file_def run_command_def say_def checkout_command_inj Let_def
      split: if_splits prod.splits)

lemma pool_inv_preserved:
  assumes "restore_step ops git repo dry refs s s'" "pool_inv git repo files refs tr0 s"
  shows "pool_inv git repo files refs tr0 s'"
  using assms
proof (induction rule: restore_step.induct)
  case (take_job i s path rest)
  have "Exited \<in> set ((rs_workers s)[i := Have path]) \<Longrightarrow> rest = []"
    using take_job Exited_update [of "rs_workers s" i "Have path"] by (auto simp: pool_inv_def)
  moreover have "path \<in> set files"
    using take_job by (auto simp: pool_inv_def)
  ultimately show ?case
    using take_job.hyps
    by (intro pool_inv_step [OF take_job.prems, where new = "[]"])
      (auto simp: worker_ok_def dest: set_update)
next
  case (leave i s)
  then show ?case
    by (intro pool_inv_step [OF leave.prems, where new = "[]"]) (auto simp: worker_ok_def dest: set_update)
next
  case (inspect i s path data tr)
  let ?w = "if conflicted data then Search path refs else Idle"
  have tr: "tr = rs_trace s @ [Ev_read (path_join [repo, path]) data]"
    using inspect.hyps(3) by (auto simp: ops_read_file_def Let_def)
  have "path \<in> set files"
    using pool_inv_worker [OF inspect.prems inspect.hyps(1)] inspect.hyps(2) by (simp add: worker_ok_def)
  then have "worker_ok git repo files refs tr ?w"
    by (auto simp: worker_ok_def tr seen_conflict_def)
  moreover have "Exited \<in> set ((rs_workers s)[i := ?w]) \<Longrightarrow> rs_jobs s = []"
    using inspect Exited_update [of "rs_workers s" i ?w] by (auto simp: pool_inv_def)
  ultimately show ?case
    using inspect.hyps(1)
    by (intro pool_inv_step [OF inspect.prems, where new = "[Ev_read (path_join [repo, path]) data]"])
      (auto simp: tr dest: set_update)
next
  case (probe i s path ref rest data tr)
  let ?w = "if \<not> clean_content data then Search path rest else if ref \<noteq> [] then Found path ref else Idle"
  obtain r where tr: "tr = rs_trace s @ [Ev_run (show_command git repo ref path) r]" and data: "data = outcome_data r"
    using probe.hyps(3)
    by (auto simp: file_at_ref_def run_output_def run_command_def show_command_def outcome_data_def Let_def)
  have sub: "set (rs_trace s) \<subseteq> set tr"
    by (auto simp: tr)
  obtain newer where n: "path \<in> set files" "seen_conflict repo (rs_trace s) path" "refs = newer @ ref # rest"
    "\<forall>q \<in> set newer. probed git repo path (rs_trace s) q False"
    using pool_inv_worker [OF probe.prems probe.hyps(1)] probe.hyps(2) by (auto simp: worker_ok_def)
  have p: "probed git repo path tr ref (clean_content data)"
    by (auto simp: probed_def tr data)
  have nn: "\<forall>q \<in> set newer. probed git repo path tr q False" and sc: "seen_conflict repo tr path"
    using n(2,4) probed_mono [OF _ sub] seen_conflict_mono [OF _ sub] by blast+
  have "worker_ok git repo files refs tr ?w"
  proof (cases "clean_content data")
    case True
    have "justified git repo files refs tr path ref"
      unfolding justified_def using n(1,3) sc nn p True by (intro conjI exI [of _ newer] exI [of _ rest]) simp_all
    with True show ?thesis
      by (simp add: worker_ok_def)
  next
    case False
    have "\<forall>q \<in> set (newer @ [ref]). probed git repo path tr q False"
      using nn p False by simp
    with n(1,3) sc False show ?thesis
      by (simp add: worker_ok_def)
  qed
  moreover have "Exited \<in> set ((rs_workers s)[i := ?w]) \<Longrightarrow> rs_jobs s = []"
    using probe Exited_update [of "rs_workers s" i ?w] by (auto simp: pool_inv_def split: if_splits)
  ultimately show ?case
    using probe.hyps(1) show_not_checkout
    by (intro pool_inv_step [OF probe.prems, where new = "[Ev_run (show_command git repo ref path) r]"])
      (auto simp: tr dest: set_update)
next
  case (give_up i s path)
  then have "Exited \<in> set ((rs_workers s)[i := Idle]) \<Longrightarrow> rs_jobs s = []"
    using Exited_update [of "rs_workers s" i Idle] by (auto simp: pool_inv_def)
  then show ?case
    using give_up.hyps
    by (intro pool_inv_step [OF give_up.prems, where new = "[]"]) (auto simp: worker_ok_def dest: set_update)
next
  case (send i s path ref)
  then have "Exited \<in> set ((rs_workers s)[i := Idle]) \<Longrightarrow> rs_jobs s = []"
    using Exited_update [of "rs_workers s" i Idle] by (auto simp: pool_inv_def)
  moreover have "justified git repo files refs (rs_trace s) path ref"
    using pool_inv_worker [OF send.prems send.hyps(1)] send.hyps(2) by (simp add: worker_ok_def)
  ultimately show ?case
    using send.hyps
    by (intro pool_inv_step [OF send.prems, where new = "[]"]) (auto simp: worker_ok_def dest: set_update)
next
  case (consume s path ref rest fs tr)
  obtain new where tr: "tr = rs_trace s @ new"
    and new: "\<And>p q r. Ev_run (checkout_command git repo p q) r \<in> set new \<Longrightarrow> p = path \<and> q = ref"
    using consume.hyps(2) by (rule restore_one_events) blast
  have "Exited \<in> set (rs_workers s) \<Longrightarrow> rs_jobs s = []"
    using consume.prems by (simp add: pool_inv_def)
  then show ?case
    using consume.hyps(1) new
    by (intro pool_inv_step [OF consume.prems, where new = new]) (auto simp: tr)
qed

lemma pool_inv_start: "pool_inv git repo files refs tr (restore_start n files tr)"
  by (auto simp: pool_inv_def restore_start_def worker_ok_def)

lemma pool_inv_reachable:
  "(restore_step ops git repo dry refs)\<^sup>*\<^sup>* (restore_start n files tr) s \<Longrightarrow> pool_inv git repo files refs tr s"
  by (induction rule: rtranclp_induct) (auto intro: pool_inv_start pool_inv_preserved)

lemma checkout_justified:
  assumes "pool_inv git repo files refs tr s" "rs_trace s = tr @ new"
    and "Ev_run (checkout_command git repo path ref) r \<in> set new"
  shows "justified git repo files refs (rs_trace s) path ref"
proof -
  obtain new' where "rs_trace s = tr @ new'" "\<forall>path ref r. Ev_run (checkout_command git repo path ref) r \<in> set new' \<longrightarrow>
      justified git repo files refs (rs_trace s) path ref"
    using assms(1) by (auto simp: pool_inv_def)
  with assms(2,3) show ?thesis
    by (metis same_append_eq)
qed

lemma restore_step_workers: "restore_step ops git repo dry refs s s' \<Longrightarrow> length (rs_workers s') = length (rs_workers s)"
  by (induction rule: restore_step.induct) simp_all

lemma restore_steps_workers:
  "(restore_step ops git repo dry refs)\<^sup>*\<^sup>* s s' \<Longrightarrow> length (rs_workers s') = length (rs_workers s)"
  by (induction rule: rtranclp_induct) (simp_all add: restore_step_workers)

lemma restore_done_no_jobs:
  assumes "(restore_step ops git repo dry refs)\<^sup>*\<^sup>* (restore_start (Suc n) files tr) s" "restore_done s"
  shows "rs_jobs s = []"
proof -
  have "length (rs_workers s) = Suc n"
    using restore_steps_workers [OF assms(1)] by (simp add: restore_start_def)
  then have "Exited \<in> set (rs_workers s)"
    using assms(2) by (cases "rs_workers s") (simp_all add: restore_done_def)
  then show ?thesis
    using pool_inv_reachable [OF assms(1)] by (simp add: pool_inv_def)
qed

section \<open>The sequential schedule is a run of the pool\<close>

text \<open>Worker 0 does the work; the other workers \<open>ws\<close> wait.\<close>

abbreviation pool_at :: "string list \<Rightarrow> worker \<Rightarrow> worker list \<Rightarrow> (string \<times> string) list \<Rightarrow> string list \<Rightarrow> trace
    \<Rightarrow> restore_state" where
  "pool_at jobs w ws results failed tr \<equiv> \<lparr>rs_jobs = jobs, rs_workers = w # ws, rs_results = results,
     rs_failures = failed, rs_trace = tr\<rparr>"

lemma find_clean_ref_run:
  "find_clean_ref ops git repo path rest tr = (ref, tr') \<Longrightarrow>
     (restore_step ops git repo dry refs)\<^sup>*\<^sup>* (pool_at jobs (Search path rest) ws q failed tr)
       (pool_at jobs Idle ws (q @ (if ref \<noteq> [] then [(path, ref)] else [])) failed tr')"
proof (induction rest arbitrary: tr)
  case Nil
  then show ?case
    using restore_step.give_up [of 0 "pool_at jobs (Search path []) ws q failed tr" path] by auto
next
  case (Cons r rest)
  obtain data tr1 where f: "file_at_ref ops git repo r path tr = (data, tr1)"
    by (cases "file_at_ref ops git repo r path tr")
  have step: "restore_step ops git repo dry refs (pool_at jobs (Search path (r # rest)) ws q failed tr)
      (pool_at jobs (if \<not> clean_content data then Search path rest else if r \<noteq> [] then Found path r else Idle) ws q failed tr1)"
    using restore_step.probe [of 0 "pool_at jobs (Search path (r # rest)) ws q failed tr" path r rest] f by simp
  show ?case
  proof (cases "clean_content data")
    case True
    with Cons.prems f have r: "ref = r" "tr' = tr1"
      by simp_all
    have "restore_step ops git repo dry refs (pool_at jobs (Found path r) ws q failed tr1)
        (pool_at jobs Idle ws (q @ [(path, r)]) failed tr1)"
      using restore_step.send [of 0 "pool_at jobs (Found path r) ws q failed tr1" path r] by simp
    with step True r show ?thesis
      by (cases "r = []") (auto intro: converse_rtranclp_into_rtranclp)
  next
    case False
    with Cons f step show ?thesis
      by (auto intro: converse_rtranclp_into_rtranclp)
  qed
qed

lemma find_conflicts_run:
  "find_conflicts ops git repo refs files tr = (found, tr') \<Longrightarrow>
     (restore_step ops git repo dry refs)\<^sup>*\<^sup>* (pool_at files Idle ws q failed tr)
       (pool_at [] Idle ws (q @ found) failed tr')"
proof (induction files arbitrary: tr q found tr')
  case (Cons path files)
  obtain data tr1 where d: "ops_read_file ops (path_join [repo, path]) tr = (data, tr1)"
    by (cases "ops_read_file ops (path_join [repo, path]) tr")
  have "restore_step ops git repo dry refs (pool_at (path # files) Idle ws q failed tr)
      (pool_at files (Have path) ws q failed tr)"
    using restore_step.take_job [of 0 "pool_at (path # files) Idle ws q failed tr" path files] by simp
  moreover have "restore_step ops git repo dry refs (pool_at files (Have path) ws q failed tr)
      (pool_at files (if conflicted data then Search path refs else Idle) ws q failed tr1)"
    using restore_step.inspect [of 0 "pool_at files (Have path) ws q failed tr" path ops repo data tr1] d by simp
  ultimately have two: "(restore_step ops git repo dry refs)\<^sup>*\<^sup>* (pool_at (path # files) Idle ws q failed tr)
      (pool_at files (if conflicted data then Search path refs else Idle) ws q failed tr1)"
    by (meson converse_rtranclp_into_rtranclp r_into_rtranclp)
  show ?case
  proof (cases "conflicted data")
    case False
    then have "find_conflicts ops git repo refs files tr1 = (found, tr')"
      using Cons.prems d by simp
    from rtranclp_trans [OF two [unfolded if_not_P [OF False]] Cons.IH [OF this]] show ?thesis .
  next
    case True
    obtain ref tr2 where r: "find_clean_ref ops git repo path refs tr1 = (ref, tr2)"
      by (cases "find_clean_ref ops git repo path refs tr1")
    obtain more tr3 where m: "find_conflicts ops git repo refs files tr2 = (more, tr3)"
      by (cases "find_conflicts ops git repo refs files tr2")
    have "found = (if ref \<noteq> [] then [(path, ref)] else []) @ more" "tr' = tr3"
      using Cons.prems d True r m by simp_all
    with rtranclp_trans [OF two [unfolded if_P [OF True]]
        rtranclp_trans [OF find_clean_ref_run [OF r] Cons.IH [OF m]]]
    show ?thesis
      by simp
  qed
qed simp

lemma leave_run:
  "(restore_step ops git repo dry refs)\<^sup>*\<^sup>*
     \<lparr>rs_jobs = [], rs_workers = replicate m Exited @ replicate n Idle, rs_results = q, rs_failures = failed, rs_trace = tr\<rparr>
     \<lparr>rs_jobs = [], rs_workers = replicate (m + n) Exited, rs_results = q, rs_failures = failed, rs_trace = tr\<rparr>"
proof (induction n arbitrary: m)
  case (Suc n)
  let ?s = "\<lparr>rs_jobs = [], rs_workers = replicate m Exited @ replicate (Suc n) Idle, rs_results = q,
    rs_failures = failed, rs_trace = tr\<rparr>"
  have "restore_step ops git repo dry refs ?s (?s\<lparr>rs_workers := (rs_workers ?s)[m := Exited]\<rparr>)"
    by (rule restore_step.leave) (simp_all add: nth_append)
  moreover have "(rs_workers ?s)[m := Exited] = replicate (Suc m) Exited @ replicate n Idle"
    by (simp add: list_update_append replicate_append_same)
  ultimately show ?case
    using Suc.IH [of "Suc m"] by (auto intro: converse_rtranclp_into_rtranclp)
qed simp

lemma restore_all_run:
  "restore_all ops git repo dry found tr = (errs, tr') \<Longrightarrow>
     (restore_step ops git repo dry refs)\<^sup>*\<^sup>*
       \<lparr>rs_jobs = [], rs_workers = ws, rs_results = found, rs_failures = failed, rs_trace = tr\<rparr>
       \<lparr>rs_jobs = [], rs_workers = ws, rs_results = [], rs_failures = failed @ errs, rs_trace = tr'\<rparr>"
proof (induction found arbitrary: tr failed errs tr')
  case (Cons j found)
  obtain path ref where j: "j = (path, ref)"
    by (cases j)
  obtain e tr1 where e: "restore_one ops git repo dry path ref tr = (e, tr1)"
    by (cases "restore_one ops git repo dry path ref tr")
  obtain es tr2 where es: "restore_all ops git repo dry found tr1 = (es, tr2)"
    by (cases "restore_all ops git repo dry found tr1")
  have r: "errs = e @ es" "tr' = tr2"
    using Cons.prems j e es by simp_all
  have "restore_step ops git repo dry refs
      \<lparr>rs_jobs = [], rs_workers = ws, rs_results = j # found, rs_failures = failed, rs_trace = tr\<rparr>
      \<lparr>rs_jobs = [], rs_workers = ws, rs_results = found, rs_failures = failed @ e, rs_trace = tr1\<rparr>"
    using restore_step.consume [of "\<lparr>rs_jobs = [], rs_workers = ws, rs_results = j # found,
      rs_failures = failed, rs_trace = tr\<rparr>" path ref found ops git repo dry e tr1] e j by simp
  with Cons.IH [OF es, of "failed @ e"] r show ?case
    by (auto intro: converse_rtranclp_into_rtranclp)
qed simp

lemma restore_seq_run:
  assumes "find_conflicts ops git repo refs files tr = (found, tr1)"
    and "restore_all ops git repo dry found tr1 = (errs, tr2)"
  shows "\<exists>s. (restore_step ops git repo dry refs)\<^sup>*\<^sup>* (restore_start (Suc n) files tr) s
    \<and> restore_done s \<and> rs_failures s = errs \<and> rs_trace s = tr2"
proof -
  let ?s = "\<lparr>rs_jobs = [], rs_workers = replicate (Suc n) Exited, rs_results = [], rs_failures = errs, rs_trace = tr2\<rparr>"
  have "(restore_step ops git repo dry refs)\<^sup>*\<^sup>* (restore_start (Suc n) files tr)
      (pool_at [] Idle (replicate n Idle) found [] tr1)"
    using find_conflicts_run [OF assms(1), of dry "replicate n Idle" "[]" "[]"] by (simp add: restore_start_def)
  moreover have "(restore_step ops git repo dry refs)\<^sup>*\<^sup>* (pool_at [] Idle (replicate n Idle) found [] tr1)
      \<lparr>rs_jobs = [], rs_workers = replicate (Suc n) Exited, rs_results = found, rs_failures = [], rs_trace = tr1\<rparr>"
    using leave_run [of ops git repo dry refs 0 "Suc n"] by simp
  moreover have "(restore_step ops git repo dry refs)\<^sup>*\<^sup>*
      \<lparr>rs_jobs = [], rs_workers = replicate (Suc n) Exited, rs_results = found, rs_failures = [], rs_trace = tr1\<rparr> ?s"
    using restore_all_run [OF assms(2), of refs "replicate (Suc n) Exited" "[]"] by simp
  ultimately have "(restore_step ops git repo dry refs)\<^sup>*\<^sup>* (restore_start (Suc n) files tr) ?s"
    by (meson rtranclp_trans)
  moreover have "restore_done ?s"
    by (simp add: restore_done_def list_all_iff)
  ultimately show ?thesis
    by (intro exI [of _ ?s]) simp
qed

text \<open>An exit status is not an error: a snapshot without the file shows empty output, which has no
  markers, and is taken for a clean version.\<close>

lemma find_clean_ref_missing_file:
  assumes "op_run ops tr (show_command git repo ref path) = \<lparr>ro_exit = status, ro_failed = False, ro_stdout = []\<rparr>"
  shows "fst (find_clean_ref ops git repo path (ref # refs) tr) = ref"
proof -
  have "index_of [] ours = None" "index_of [] theirs = None"
    by (simp_all add: ours_def theirs_def)
  then have "has_conflict_markers [] = False"
    by (subst has_conflict_markers.simps) (simp only: option.case)
  moreover have "file_at_ref ops git repo ref path tr = (Some [], tr @ [Ev_run (show_command git repo ref path)
      \<lparr>ro_exit = status, ro_failed = False, ro_stdout = []\<rparr>])"
    using assms by (simp add: file_at_ref_def run_output_def run_command_def show_command_def Let_def)
  ultimately show ?thesis
    by (simp add: clean_content_def)
qed

section \<open>Properties\<close>

lemma markers_shadowed: "\<not> has_conflict_markers (theirs @ '' b'' @ [CHR 0x0A] @ ''x'' @ ours @ ''y'')"
  by code_simp

lemma markers_inside_line: "has_conflict_markers (''a<'' @ ours @ '' b'')"
  by code_simp

text \<open>Conflict markers are not missed: a text is reported if some line of it starts with seven \<^verbatim>\<open><\<close>
  followed by a space, a line feed or the end, and also if a line starts that way with seven \<^verbatim>\<open>>\<close> and
  the text contains no \<^verbatim>\<open><<<<<<<\<close>. Conversely a reported text contains such a sequence somewhere.\<close>

theorem conflict_markers_found:
  "(marker_at ours data j \<and> line_start data j \<longrightarrow> has_conflict_markers data)
   \<and> (marker_at theirs data j \<and> line_start data j \<and> \<not> contains_str data ours \<longrightarrow> has_conflict_markers data)
   \<and> (has_conflict_markers data \<longrightarrow> (\<exists>j. marker_at ours data j \<or> marker_at theirs data j))"
  using has_conflict_markers_ours has_conflict_markers_theirs has_conflict_markers_sound by blast

lemma conflict_markers_found_witness:
  "has_conflict_markers (''a'' @ [CHR 0x0A] @ ours @ '' b'') \<and> has_conflict_markers (theirs @ [CHR 0x0A])"
proof -
  have "marker_at ours (''a'' @ [CHR 0x0A] @ ours @ '' b'') 2 \<and> line_start (''a'' @ [CHR 0x0A] @ ours @ '' b'') 2"
    by code_simp
  moreover have "marker_at theirs (theirs @ [CHR 0x0A]) 0 \<and> line_start (theirs @ [CHR 0x0A]) 0
      \<and> \<not> contains_str (theirs @ [CHR 0x0A]) ours"
    by code_simp
  ultimately show ?thesis
    using conflict_markers_found [of "''a'' @ [CHR 0x0A] @ ours @ '' b''" 2] conflict_markers_found [of "theirs @ [CHR 0x0A]" 0]
    by blast
qed

text \<open>C7: In every interleaving of the worker pool, a file is checked out only if it is one of the listed files,
  was read with conflict markers, and comes from the newest snapshot that was probed clean: every newer
  snapshot was probed and failed or still had markers.\<close>

theorem checkouts_justified:
  assumes "(restore_step ops git repo dry refs)\<^sup>*\<^sup>* (restore_start n files tr) s"
    and "rs_trace s = tr @ new" "Ev_run (checkout_command git repo path ref) r \<in> set new"
  shows "path \<in> set files
    \<and> (\<exists>b. Ev_read (path_join [repo, path]) b \<in> set (rs_trace s) \<and> conflicted b)
    \<and> (\<exists>newer older. refs = newer @ ref # older
        \<and> (\<forall>q \<in> set newer. probed git repo path (rs_trace s) q False) \<and> probed git repo path (rs_trace s) ref True)"
  using checkout_justified [OF pool_inv_reachable [OF assms(1)] assms(2,3)]
  unfolding justified_def seen_conflict_def .

definition sample_restore_ops :: operations where
  "sample_restore_ops = \<lparr>op_run = (\<lambda>tr cmd. \<lparr>ro_exit = 0, ro_failed = False, ro_stdout = (if cmd_args cmd = [''-C'', ''/r'', ''show'', ''s2:f'']
       then ours else ''ok'')\<rparr>), op_read = (\<lambda>tr p. Some (bytes_of ours)), op_confirm = (\<lambda>tr p. False)\<rparr>"

lemma checkouts_justified_witness:
  "\<exists>s. (restore_step sample_restore_ops ''git'' ''/r'' False [''s2'', ''s1''])\<^sup>*\<^sup>* (restore_start (Suc 3) [''f''] []) s
    \<and> probed ''git'' ''/r'' ''f'' (rs_trace s) ''s2'' False \<and> probed ''git'' ''/r'' ''f'' (rs_trace s) ''s1'' True"
proof -
  let ?fc = "find_conflicts sample_restore_ops ''git'' ''/r'' [''s2'', ''s1''] [''f''] []"
  have "fst ?fc = [(''f'', ''s1'')]"
    by code_simp
  then obtain tr1 where fc: "?fc = ([(''f'', ''s1'')], tr1)"
    by (cases ?fc) simp
  obtain r where ra: "restore_all sample_restore_ops ''git'' ''/r'' False [(''f'', ''s1'')] tr1
      = ([], tr1 @ [Ev_run (checkout_command ''git'' ''/r'' ''f'' ''s1'') r, Ev_note (Restored ''f'' ''s1'')])"
    by (simp add: restore_one_def checkout_file_def run_command_def say_def sample_restore_ops_def Let_def)
  obtain s where s: "(restore_step sample_restore_ops ''git'' ''/r'' False [''s2'', ''s1''])\<^sup>*\<^sup>* (restore_start (Suc 3) [''f''] []) s"
    and tr: "rs_trace s = tr1 @ [Ev_run (checkout_command ''git'' ''/r'' ''f'' ''s1'') r, Ev_note (Restored ''f'' ''s1'')]"
    using restore_seq_run [OF fc ra, of 3] by blast
  have "\<exists>newer older. [''s2'', ''s1''] = newer @ ''s1'' # older
      \<and> (\<forall>q \<in> set newer. probed ''git'' ''/r'' ''f'' (rs_trace s) q False) \<and> probed ''git'' ''/r'' ''f'' (rs_trace s) ''s1'' True"
    using checkouts_justified [OF s, of "rs_trace s" "''f''" "''s1''" r] tr by simp
  then obtain newer older where "[''s2'', ''s1''] = newer @ ''s1'' # older"
    "\<forall>q \<in> set newer. probed ''git'' ''/r'' ''f'' (rs_trace s) q False" "probed ''git'' ''/r'' ''f'' (rs_trace s) ''s1'' True"
    by blast
  with s show ?thesis
    by (cases newer) auto
qed

text \<open>Restoring always ends. Every step of the pool lowers a measure, a pool that is not done can step,
  and when it is done no file is left in the queue.\<close>

theorem restore_terminates:
  "(restore_step ops git repo dry refs s s' \<longrightarrow> restore_measure (length refs) s' < restore_measure (length refs) s)
   \<and> (restore_done s \<or> (\<exists>s'. restore_step ops git repo dry refs s s'))
   \<and> ((restore_step ops git repo dry refs)\<^sup>*\<^sup>* (restore_start (Suc n) files tr) s \<and> restore_done s \<longrightarrow> rs_jobs s = [])"
  using restore_step_measure [of ops git repo dry refs s s'] restore_progress [of s ops git repo dry refs]
    restore_done_no_jobs [of ops git repo dry refs n files tr s] by blast

lemma restore_terminates_witness:
  "rs_jobs (restore_start (Suc 0) [''f''] []) \<noteq> [] \<and> (\<exists>s'. restore_step sample_restore_ops ''git'' ''/r'' False [] (restore_start (Suc 0) [''f''] []) s'
     \<and> restore_measure 0 s' < restore_measure 0 (restore_start (Suc 0) [''f''] []))"
proof -
  have "\<not> restore_done (restore_start (Suc 0) [''f''] [])"
    by (simp add: restore_done_def restore_start_def)
  with restore_terminates [of sample_restore_ops "''git''" "''/r''" False "[]" "restore_start (Suc 0) [''f''] []" _ 0 "[]" "[]"]
  obtain s' where "restore_step sample_restore_ops ''git'' ''/r'' False [] (restore_start (Suc 0) [''f''] []) s'"
    by blast
  with restore_terminates [of sample_restore_ops "''git''" "''/r''" False "[]" "restore_start (Suc 0) [''f''] []" s' 0 "[]" "[]"]
  show ?thesis
    by (auto simp: restore_start_def)
qed



end
