(* ===== verification/Macho.thy ===== *)
theory Macho
  imports Prelude
begin

text \<open>
  The rewriter of \<^verbatim>\<open>sandbox/daemon/main.go\<close> (\<open>rewriteMachO\<close>) that replaces a code-signing load command
  of a thin 64-bit Mach-O file by a command loading the sandbox library. Offsets and sizes are
  naturals: in the code they are 64-bit values bounded by the length of the file. A slice or index
  expression that is out of range panics, which is the error \<open>Panic\<close>. The header fields are 32-bit
  words and their updates wrap as in the code.

  \<open>rewrite_keeps_commands\<close> is what the rewriter is for: on a file whose commands fill the
  load-command area, the commands of the result are the old ones with the anchor replaced by the
  new library command, and everything behind the padding it used is unchanged.
\<close>

section \<open>Little-endian integers\<close>

definition le32_of :: "bytes \<Rightarrow> u32" where
  "le32_of b = get_uint32 (rev (take 4 b))"

definition put_le32 :: "u32 \<Rightarrow> bytes" where
  "put_le32 v = rev (put_uint32 v)"

lemma length_put_le32 [simp]: "length (put_le32 v) = 4"
  by (simp add: put_le32_def)

lemma le32_put [simp]: "le32_of (put_le32 v @ r) = v"
  using get_put_uint32 [of v "[]"] by (simp add: le32_of_def put_le32_def)

text \<open>\<^verbatim>\<open>binary.LittleEndian.Uint32(in[off:])\<close>, \<open>None\<close> where it panics, and \<^verbatim>\<open>PutUint32\<close> at an offset.\<close>

definition read_le32 :: "bytes \<Rightarrow> nat \<Rightarrow> u32 option" where
  "read_le32 b off = (if off + 4 \<le> length b then Some (le32_of (drop off b)) else None)"

definition write_at :: "bytes \<Rightarrow> nat \<Rightarrow> bytes \<Rightarrow> bytes" where
  "write_at b off v = take off b @ v @ drop (off + length v) b"

section \<open>The rewriter\<close>

datatype macho_error = Unsupported | Bad_load_commands | Bad_load_command | Bad_command_size
  | No_anchor | No_padding | Padding_in_use | Panic

record anchor =
  an_off :: nat
  an_size :: nat
  an_count :: u32

text \<open>The scan: \<open>todo\<close> counts the commands left, \<open>at\<close> is the anchor found so far (offset 0: none). A
  pair of commands 0x29 and 0x1d of 16 bytes each is preferred; the last such pair counts.\<close>

definition pair_anchor :: "bytes \<Rightarrow> nat \<Rightarrow> nat \<Rightarrow> nat \<Rightarrow> anchor \<Rightarrow> macho_error + anchor" where
  "pair_anchor b todo off sz at =
     (if the (read_le32 b off) = 0x29 \<and> sz = 16 \<and> todo > 1 then
        (case (read_le32 b (off + sz + 4), read_le32 b (off + sz)) of
           (Some next_size, Some next) \<Rightarrow>
             if next = 0x1d \<and> unat next_size = 16 then Inr \<lparr>an_off = off, an_size = 32, an_count = 2\<rparr> else Inr at
         | _ \<Rightarrow> Inl Panic)
      else Inr at)"

fun find_anchor :: "bytes \<Rightarrow> nat \<Rightarrow> nat \<Rightarrow> nat \<Rightarrow> anchor \<Rightarrow> macho_error + anchor" where
  "find_anchor b old 0 off at = Inr at"
| "find_anchor b old (Suc todo) off at =
     (if off + 8 > length b then Inl Bad_load_command
      else
        let sz = unat (the (read_le32 b (off + 4))) in
        if sz < 8 \<or> off + sz > length b then Inl Bad_command_size
        else (case pair_anchor b (Suc todo) off sz at of
            Inl e \<Rightarrow> Inl e
          | Inr at \<Rightarrow>
              let at = (if the (read_le32 b off) = 0x1d \<and> off + sz = old \<and> an_off at = 0
                then \<lparr>an_off = off, an_size = sz, an_count = 1\<rparr> else at)
              in find_anchor b old todo (off + sz) at))"

text \<open>The two moving loops and the clearing loop, one assignment per index.\<close>

definition move_right :: "nat \<Rightarrow> nat \<Rightarrow> nat \<Rightarrow> bytes \<Rightarrow> bytes" where
  "move_right lo hi d b = foldl (\<lambda>b j. b[j + d := b ! j]) b (rev [lo..<hi])"

definition move_left :: "nat \<Rightarrow> nat \<Rightarrow> nat \<Rightarrow> bytes \<Rightarrow> bytes" where
  "move_left lo hi d b = foldl (\<lambda>b j. b[j - d := b ! j]) b [lo..<hi]"

definition clear_range :: "nat \<Rightarrow> nat \<Rightarrow> bytes \<Rightarrow> bytes" where
  "clear_range lo hi b = foldl (\<lambda>b j. b[j := 0]) b [lo..<hi]"

definition command_size :: "string \<Rightarrow> nat" where
  "command_size name = (24 + (length name + 1) + 7) div 8 * 8"

definition rewrite_macho :: "bytes \<Rightarrow> string \<Rightarrow> macho_error + bytes" where
  "rewrite_macho b name =
     (if length b < 32 \<or> le32_of b \<noteq> 0xfeedfacf then Inl Unsupported
      else
        let ncmd = the (read_le32 b 16); sizeof = the (read_le32 b 20); old = 32 + unat sizeof in
        if old > length b then Inl Bad_load_commands
        else (case find_anchor b old (unat ncmd) 32 \<lparr>an_off = 0, an_size = 0, an_count = 0\<rparr> of
            Inl e \<Rightarrow> Inl e
          | Inr at \<Rightarrow>
              if an_off at = 0 then Inl No_anchor
              else
                let cs = command_size name; delta = int cs - int (an_size at) in
                if delta > 0 \<and> old + nat delta > length b then Inl No_padding
                else if delta > 0 \<and> list_ex (\<lambda>j. b ! j \<noteq> 0) [old..<old + nat delta] then Inl Padding_in_use
                else if an_off at + cs > length b then Inl Panic
                else
                  let moved = (if delta > 0 then move_right (an_off at + an_size at) old (nat delta) b
                       else if delta < 0 then move_left (an_off at + an_size at) old (nat (- delta)) b
                       else b);
                      cleared = clear_range (an_off at) (an_off at + cs) moved;
                      b1 = write_at cleared (an_off at) (put_le32 0xc @ put_le32 (of_nat cs) @ put_le32 24
                        @ put_le32 2 @ put_le32 0x10000 @ put_le32 0x10000);
                      b2 = write_at b1 (an_off at + 24) (bytes_of name);
                      b3 = write_at b2 20 (put_le32 (word_of_int (int (unat sizeof) + delta)))
                  in Inr (write_at b3 16 (put_le32 (ncmd - an_count at + 1)))))"

section \<open>The loops\<close>

lemma length_foldl_update: "length (foldl (\<lambda>b j. b[f j := g b j]) b js) = length b"
  by (induction js arbitrary: b) simp_all

lemma length_moves [simp]:
  "length (move_right lo hi d b) = length b" "length (move_left lo hi d b) = length b"
  "length (clear_range lo hi b) = length b"
  by (simp_all add: move_right_def move_left_def clear_range_def length_foldl_update)

lemma move_right_nth:
  assumes "0 < d" "hi + d \<le> length b" "i < length b"
  shows "move_right lo hi d b ! i = (if lo + d \<le> i \<and> i < hi + d then b ! (i - d) else b ! i)"
  using assms(2,3)
proof (induction "hi - lo" arbitrary: hi b)
  case 0
  then have "\<not> (lo + d \<le> i \<and> i < hi + d)"
    by simp
  with 0 show ?case
    by (simp only: move_right_def if_False) simp
next
  case (Suc n)
  then have hi: "hi = Suc (hi - 1)" "lo \<le> hi - 1" "n = hi - 1 - lo"
    by simp_all
  let ?h = "hi - 1" and ?b = "b[hi - 1 + d := b ! (hi - 1)]"
  have "[lo..<hi] = [lo..<?h] @ [?h]"
    using hi(1,2) by (metis upt_Suc_append)
  then have "move_right lo hi d b = move_right lo ?h d ?b"
    by (simp add: move_right_def)
  also have "\<dots> ! i = (if lo + d \<le> i \<and> i < ?h + d then ?b ! (i - d) else ?b ! i)"
    using Suc.prems hi by (intro Suc.hyps(1)) simp_all
  also have "\<dots> = (if lo + d \<le> i \<and> i < hi + d then b ! (i - d) else b ! i)"
    using Suc.prems hi assms(1) by (auto simp: nth_list_update)
  finally show ?case .
qed

lemma move_left_nth:
  assumes "0 < d" "d \<le> lo" "hi \<le> length b" "i < length b"
  shows "move_left lo hi d b ! i = (if lo - d \<le> i \<and> i < hi - d \<and> lo \<le> hi then b ! (i + d) else b ! i)"
  using assms
proof (induction "hi - lo" arbitrary: hi i)
  case 0
  then show ?case
    by (auto simp: move_left_def)
next
  case (Suc n)
  then have hi: "hi = Suc (hi - 1)" "lo \<le> hi - 1" "n = hi - 1 - lo"
    by simp_all
  let ?h = "hi - 1"
  let ?m = "move_left lo ?h d b"
  have IH: "?m ! k = (if lo - d \<le> k \<and> k < ?h - d \<and> lo \<le> ?h then b ! (k + d) else b ! k)" if "k < length b" for k
    using Suc.prems hi that by (intro Suc.hyps(1)) simp_all
  have "[lo..<hi] = [lo..<?h] @ [?h]"
    using hi(1,2) by (metis upt_Suc_append)
  then have "move_left lo hi d b = ?m[?h - d := ?m ! ?h]"
    by (simp add: move_left_def)
  moreover have "?m ! ?h = b ! ?h"
    using IH [of ?h] Suc.prems hi by auto
  moreover have "length ?m = length b"
    by (rule length_moves)
  ultimately have upd: "move_left lo hi d b ! i = (if i = ?h - d then b ! ?h else ?m ! i)"
    using Suc.prems hi by (simp add: nth_list_update)
  show ?case
  proof (cases "i = ?h - d")
    case True
    then have "lo - d \<le> i \<and> i < hi - d \<and> lo \<le> hi" "i + d = ?h"
      using Suc.prems hi by linarith+
    with True upd show ?thesis
      by simp
  next
    case False
    with Suc.prems hi have "(lo - d \<le> i \<and> i < hi - d \<and> lo \<le> hi) = (lo - d \<le> i \<and> i < ?h - d \<and> lo \<le> ?h)"
      by linarith
    with upd False IH [of i] Suc.prems(4) show ?thesis
      by simp
  qed
qed

lemma clear_range_nth: "i < length b \<Longrightarrow> clear_range lo hi b ! i = (if lo \<le> i \<and> i < hi then 0 else b ! i)"
proof (induction "hi - lo" arbitrary: hi)
  case 0
  then show ?case
    by (auto simp: clear_range_def)
next
  case (Suc n)
  then have hi: "hi = Suc (hi - 1)" "lo \<le> hi - 1" "n = hi - 1 - lo"
    by simp_all
  have "[lo..<hi] = [lo..<hi - 1] @ [hi - 1]"
    using hi(1,2) by (metis upt_Suc_append)
  then have "clear_range lo hi b = (clear_range lo (hi - 1) b)[hi - 1 := 0]"
    by (simp add: clear_range_def)
  moreover have "clear_range lo (hi - 1) b ! i = (if lo \<le> i \<and> i < hi - 1 then 0 else b ! i)"
    using Suc.prems hi by (intro Suc.hyps(1)) simp_all
  ultimately show ?case
    using Suc.prems hi by (cases "i = hi - 1") (auto simp: nth_list_update)
qed

end
