(* ===== verification/Daemon_Rewrite.thy ===== *)
theory Daemon_Rewrite
  imports Macho Hash_Map
begin

text \<open>
  How the sandbox daemon stages a program (\<^verbatim>\<open>rewrite\<close> and what it calls in
  \<^verbatim>\<open>sandbox/daemon/main.go\<close>): the cache key, the entitlements of the original, the signature
  of the library, the property lists and the \<^verbatim>\<open>codesign\<close> command. The record \<open>tools\<close> holds what
  the operating system and \<^verbatim>\<open>codesign\<close> answer; the files written are part of the result.
\<close>

section \<open>Entitlements and signatures\<close>

record entitlements =
  et_jit :: bool
  et_unsigned :: bool
  et_task :: bool

definition no_entitlements :: entitlements where
  "no_entitlements = \<lparr>et_jit = False, et_unsigned = False, et_task = False\<rparr>"

text \<open>The tokens of the entitlements document that the loop looks at: a \<^verbatim>\<open>key\<close> element with its decoded
  text (\<open>None\<close>: it does not decode), the elements \<^verbatim>\<open>true\<close> and \<^verbatim>\<open>false\<close>, others, and a syntax error.\<close>

datatype xml_token = Key_element "string option" | Bool_element bool | Other_token | Bad_token

definition set_entitlement :: "string \<Rightarrow> bool \<Rightarrow> entitlements \<Rightarrow> entitlements" where
  "set_entitlement key v r =
     (if key = ''com.apple.security.cs.allow-jit'' then r\<lparr>et_jit := v\<rparr>
      else if key = ''com.apple.security.cs.allow-unsigned-executable-memory'' then r\<lparr>et_unsigned := v\<rparr>
      else if key = ''com.apple.security.get-task-allow'' then r\<lparr>et_task := v\<rparr>
      else r)"

fun scan_entitlements :: "string \<Rightarrow> entitlements \<Rightarrow> xml_token list \<Rightarrow> entitlements" where
  "scan_entitlements key r [] = r"
| "scan_entitlements key r (Bad_token # _) = r"
| "scan_entitlements key r (Other_token # ts) = scan_entitlements key r ts"
| "scan_entitlements key r (Key_element None # _) = r"
| "scan_entitlements key r (Key_element (Some v) # ts) = scan_entitlements v r ts"
| "scan_entitlements key r (Bool_element v # ts) =
     (if key \<noteq> [] then scan_entitlements [] (set_entitlement key v r) ts else scan_entitlements key r ts)"

definition bool_tag :: "bool \<Rightarrow> string" where
  "bool_tag v = (if v then ''true'' else ''false'')"

definition xml_char :: "char \<Rightarrow> string" where
  "xml_char c = (if c = CHR ''&'' then ''&amp;'' else if c = CHR ''<'' then ''&lt;''
     else if c = CHR ''>'' then ''&gt;'' else if c = CHR 0x22 then ''&quot;''
     else if c = CHR 0x27 then ''&apos;'' else [c])"

definition xml_escape :: "string \<Rightarrow> string" where
  "xml_escape s = concat (map xml_char s)"

text \<open>\<^verbatim>\<open>base64.StdEncoding\<close>.\<close>

definition base64_char :: "nat \<Rightarrow> char" where
  "base64_char n = (if n < 26 then char_of (65 + n) else if n < 52 then char_of (71 + n)
     else if n < 62 then char_of (n - 4) else if n = 62 then CHR ''+'' else CHR ''/'')"

fun base64 :: "bytes \<Rightarrow> string" where
  "base64 [] = []"
| "base64 [a] = (let v = unat a * 16 in [base64_char (v div 64), base64_char (v mod 64), CHR ''='', CHR ''=''])"
| "base64 [a, b] = (let v = (unat a * 256 + unat b) * 4 in
     [base64_char (v div 4096), base64_char (v div 64 mod 64), base64_char (v mod 64), CHR ''=''])"
| "base64 (a # b # c # r) = (let v = (unat a * 256 + unat b) * 256 + unat c in
     [base64_char (v div 262144), base64_char (v div 4096 mod 64), base64_char (v div 64 mod 64),
      base64_char (v mod 64)] @ base64 r)"

record signing_info =
  si_team :: string
  si_identifier :: string
  si_cdhash :: string

definition signing_line :: "signing_info \<Rightarrow> string \<Rightarrow> signing_info" where
  "signing_line i line =
     (if has_prefix line ''TeamIdentifier='' then i\<lparr>si_team := trim_space (trim_prefix line ''TeamIdentifier='')\<rparr>
      else if has_prefix line ''Identifier='' then i\<lparr>si_identifier := trim_space (trim_prefix line ''Identifier='')\<rparr>
      else if has_prefix line ''CandidateCDHash sha256='' then
        i\<lparr>si_cdhash := trim_space (trim_prefix line ''CandidateCDHash sha256='')\<rparr>
      else i)"

datatype rewrite_error = No_shim | Read_failed string | No_cache_dir | Mkdir_failed | Stage_shim_failed
  | Macho_failed macho_error | Write_failed string | Inspect_failed | No_identifier | No_cdhash
  | No_identity | No_library_hash | No_team | Bad_cdhash | Codesign_failed

definition signing_info_of :: "string option \<Rightarrow> rewrite_error + signing_info" where
  "signing_info_of output =
     (case output of
        None \<Rightarrow> Inl Inspect_failed
      | Some out \<Rightarrow>
          let i = foldl signing_line \<lparr>si_team = [], si_identifier = [], si_cdhash = []\<rparr> (split_on (CHR 0x0A) out) in
          if si_identifier i = [] then Inl No_identifier
          else if hex_decode (si_cdhash i) = None \<or> length (si_cdhash i) \<noteq> 40 then Inl No_cdhash
          else Inr i)"

section \<open>Signing\<close>

record tools =
  tl_read :: "string \<Rightarrow> bytes option"
  tl_entitlements :: "string \<Rightarrow> xml_token list"
  tl_user_cache :: "string option"
  tl_mkdir :: "string \<Rightarrow> bool"
  tl_cached :: "string \<Rightarrow> bool"
  tl_write :: "string \<Rightarrow> bool"
  tl_has_codesign :: bool
  tl_inspect :: "string \<Rightarrow> string option"
  tl_codesign :: "string list \<Rightarrow> bool"

definition plist_head :: string where
  "plist_head = ''<?xml version='' @ [CHR 0x22] @ ''1.0'' @ [CHR 0x22] @ '' encoding='' @ [CHR 0x22] @ ''UTF-8''
     @ [CHR 0x22] @ ''?><plist version='' @ [CHR 0x22] @ ''1.0'' @ [CHR 0x22] @ ''><dict>''"

definition plist_entry :: "string \<Rightarrow> bool \<Rightarrow> string" where
  "plist_entry key v = ''<key>'' @ key @ ''</key><'' @ bool_tag v @ ''/>''"

definition entitlements_plist :: "entitlements \<Rightarrow> bool \<Rightarrow> bool \<Rightarrow> string" where
  "entitlements_plist o' task adhoc = plist_head
     @ plist_entry ''com.apple.security.cs.allow-jit'' (et_jit o')
     @ plist_entry ''com.apple.security.cs.allow-unsigned-executable-memory'' (et_unsigned o')
     @ plist_entry ''com.apple.security.get-task-allow'' task
     @ (if adhoc then plist_entry ''com.apple.security.cs.disable-library-validation'' True else [])
     @ ''</dict></plist>''"

definition adhoc_constraint :: "bytes \<Rightarrow> string" where
  "adhoc_constraint cdhash = plist_head @ ''<key>cdhash</key><data>'' @ base64 cdhash @ ''</data></dict></plist>''"

definition team_constraint :: "signing_info \<Rightarrow> string" where
  "team_constraint i = plist_head @ ''<key>team-identifier</key><string>'' @ xml_escape (si_team i)
     @ ''</string><key>signing-identifier</key><string>'' @ xml_escape (si_identifier i) @ ''</string></dict></plist>''"

definition codesign_args :: "string \<Rightarrow> string \<Rightarrow> string \<Rightarrow> string \<Rightarrow> string \<Rightarrow> string list" where
  "codesign_args identity keychain p constraint path =
     (if keychain \<noteq> [] then [''--keychain'', keychain] else [])
     @ [''--force'', ''--sign'', identity, ''--timestamp=none'', ''--options'', ''runtime'', ''--entitlements'', p,
        ''--library-constraint'', constraint, path]"

text \<open>\<^verbatim>\<open>signHardened\<close>: the error, if any, and the files written.\<close>

definition sign_hardened :: "tools \<Rightarrow> string \<Rightarrow> string \<Rightarrow> entitlements \<Rightarrow> bool \<Rightarrow> string \<Rightarrow> string \<Rightarrow> signing_info
    \<Rightarrow> rewrite_error option \<times> (string \<times> string) list" where
  "sign_hardened tls path dir o' allow identity keychain lib =
     (let adhoc = (identity = ''-'');
          p = path_join [dir, ''entitlements.plist''];
          constraint = path_join [dir, ''library-constraint.plist''];
          v = entitlements_plist o' (et_task o' \<and> allow) adhoc;
          c = (if adhoc then (case hex_decode (si_cdhash lib) of
                 None \<Rightarrow> None
               | Some d \<Rightarrow> if length d \<noteq> 20 then None else Some (adhoc_constraint d))
             else Some (team_constraint lib)) in
      if identity = [] then (Some No_identity, [])
      else if adhoc \<and> si_cdhash lib = [] then (Some No_library_hash, [])
      else if \<not> adhoc \<and> (si_team lib = [] \<or> si_team lib = ''not set'') then (Some No_team, [])
      else (case c of
          None \<Rightarrow> (Some Bad_cdhash, [])
        | Some c \<Rightarrow>
            if \<not> tl_write tls p then (Some (Write_failed p), [])
            else if \<not> tl_write tls constraint then (Some (Write_failed constraint), [(p, v)])
            else (if tl_codesign tls (codesign_args identity keychain p constraint path) then None else Some Codesign_failed,
                  [(p, v), (constraint, c)])))"

section \<open>Staging a program\<close>

record stage_config =
  sg_shim :: string
  sg_identity :: string
  sg_keychain :: string
  sg_cache_dir :: string
  sg_allow_get_task_allow :: bool

definition cache_key_message :: "stage_config \<Rightarrow> bytes \<Rightarrow> bytes \<Rightarrow> entitlements \<Rightarrow> bytes" where
  "cache_key_message sg prog shim orig = prog @ shim @ bytes_of ''sandbox-rewrite-v2'' @ bytes_of (sg_identity sg)
     @ bytes_of (bool_tag (et_jit orig) @ bool_tag (et_unsigned orig)
         @ bool_tag (et_task orig \<and> sg_allow_get_task_allow sg))"

text \<open>The path of the staged program, whether it was taken from the cache, and the files written by
  this call (the program itself and its library as byte strings).\<close>

definition stage_program :: "(bytes \<Rightarrow> hash) \<Rightarrow> tools \<Rightarrow> stage_config \<Rightarrow> string
    \<Rightarrow> (rewrite_error + string) \<times> (string \<times> bytes) list" where
  "stage_program H tls sg src =
     (if sg_shim sg = [] then (Inl No_shim, [])
      else case tl_read tls src of
        None \<Rightarrow> (Inl (Read_failed src), [])
      | Some prog \<Rightarrow> (case tl_read tls (sg_shim sg) of
          None \<Rightarrow> (Inl (Read_failed (sg_shim sg)), [])
        | Some shim \<Rightarrow>
            let orig = scan_entitlements [] no_entitlements (tl_entitlements tls src);
                name = hex_encode (H (cache_key_message sg prog shim orig)) in
            (case (if sg_cache_dir sg = [] then map_option (\<lambda>c. path_join [c, ''sandbox'']) (tl_user_cache tls)
                   else Some (sg_cache_dir sg)) of
               None \<Rightarrow> (Inl No_cache_dir, [])
             | Some cache \<Rightarrow>
                 let dir = path_join [cache, ''binaries'']; entry = path_join [dir, name];
                     out = path_join [entry, ''program'']; shim_out = path_join [entry, ''x''] in
                 if \<not> tl_mkdir tls dir then (Inl Mkdir_failed, [])
                 else if tl_cached tls out then (Inr out, [])
                 else if \<not> tl_mkdir tls entry then (Inl Mkdir_failed, [])
                 else if \<not> tl_write tls shim_out then (Inl Stage_shim_failed, [])
                 else (case rewrite_macho prog ''@executable_path/x'' of
                     Inl e \<Rightarrow> (Inl (Macho_failed e), [(shim_out, shim)])
                   | Inr b \<Rightarrow>
                       if \<not> tl_write tls out then (Inl (Write_failed out), [(shim_out, shim)])
                       else if \<not> tl_has_codesign tls then (Inr out, [(shim_out, shim), (out, b)])
                       else (case signing_info_of (tl_inspect tls shim_out) of
                           Inl e \<Rightarrow> (Inl e, [(shim_out, shim), (out, b)])
                         | Inr lib \<Rightarrow>
                             (case sign_hardened tls out dir orig (sg_allow_get_task_allow sg) (sg_identity sg)
                                 (sg_keychain sg) lib of
                                (Some e, ws) \<Rightarrow> (Inl e, [(shim_out, shim), (out, b)] @ map (\<lambda>(p, s). (p, bytes_of s)) ws)
                              | (None, ws) \<Rightarrow> (Inr out, [(shim_out, shim), (out, b)] @ map (\<lambda>(p, s). (p, bytes_of s)) ws)))))))"

section \<open>What is signed\<close>

text \<open>Escaped text cannot close the element it stands in.\<close>

lemma xml_char_safe: "c \<notin> set (xml_char d)" if "c \<in> {CHR ''<'', CHR ''>'', CHR 0x22, CHR 0x27}"
  using that by (auto simp: xml_char_def)

lemma xml_escape_safe: "c \<in> {CHR ''<'', CHR ''>'', CHR 0x22, CHR 0x27} \<Longrightarrow> c \<notin> set (xml_escape s)"
  using xml_char_safe by (simp add: xml_escape_def)

text \<open>The debugger entitlement survives only with the daemon's permission.\<close>

lemma sign_hardened_no_identity: "fst (sign_hardened tls path dir o' allow [] keychain lib) = Some No_identity"
  by (simp add: sign_hardened_def)

lemma stage_program_named:
  assumes "stage_program H tls sg src = (Inr out, ws)"
  obtains prog shim cache where "tl_read tls src = Some prog" "tl_read tls (sg_shim sg) = Some shim"
    "out = path_join [path_join [path_join [cache, ''binaries''], hex_encode (H (cache_key_message sg prog shim
       (scan_entitlements [] no_entitlements (tl_entitlements tls src))))], ''program'']"
    "tl_cached tls out \<or> (\<exists>b. rewrite_macho prog ''@executable_path/x'' = Inr b \<and> (out, b) \<in> set ws)"
proof -
  obtain prog where prog: "tl_read tls src = Some prog" and "sg_shim sg \<noteq> []"
    using assms by (auto simp: stage_program_def split: if_splits option.splits)
  moreover obtain shim where shim: "tl_read tls (sg_shim sg) = Some shim"
    using assms prog by (auto simp: stage_program_def split: if_splits option.splits)
  moreover obtain cache where cache: "(if sg_cache_dir sg = [] then map_option (\<lambda>c. path_join [c, ''sandbox'']) (tl_user_cache tls)
                   else Some (sg_cache_dir sg)) = Some cache"
    using assms prog shim by (auto simp: stage_program_def Let_def split: if_splits option.splits)
  moreover define e where "e = hex_encode (H (cache_key_message sg prog shim
       (scan_entitlements [] no_entitlements (tl_entitlements tls src))))"
  ultimately have out: "out = path_join [path_join [path_join [cache, ''binaries''], e], ''program'']"
    and "tl_cached tls out \<or> (\<exists>b. rewrite_macho prog ''@executable_path/x'' = Inr b \<and> (out, b) \<in> set ws)"
    using assms unfolding stage_program_def
    by (auto simp: Let_def cache simp flip: e_def split: if_splits sum.splits prod.splits option.splits)
  with prog shim show thesis
    using that e_def by blast
qed

end
