(* ===== verification/Sandbox_Daemon.thy ===== *)
theory Sandbox_Daemon
  imports Daemon_Rewrite Interpose_Wrappers Sandbox_Config Protocol "HOL-Library.AList"
begin

text \<open>
  The sandbox daemon (\<^verbatim>\<open>sandbox/daemon/main.go\<close>, \<^verbatim>\<open>policy_verify.go\<close>): start-up and the activation of
  the policy, the table of sandboxed processes, the text commands of the native layers and the exec
  protocol with the interposition it drives. The daemon's mutable fields are the record \<open>server\<close>;
  \<open>machine\<close> is what the operating system, the peer and the network answer during one command, so
  they may answer differently at the next.
\<close>

section \<open>State\<close>

record process =
  pr_pid :: int
  pr_parent :: int
  pr_pgid :: int
  pr_path :: string
  pr_hash :: string
  pr_files :: hash_map

record server =
  sv_socket :: string
  sv_shim :: string
  sv_identity :: string
  sv_keychain :: string
  sv_cache_dir :: string
  sv_policy :: sandbox_config
  sv_active :: bool
  sv_trusted :: bool
  sv_get_task_allow :: bool
  sv_env_vars :: "(string \<times> string list) list"
  sv_hash_updaters :: "(string \<times> string list) list"
  sv_cache_sources :: "(string \<times> string) list"
  sv_procs :: "(int \<times> process) list"
  sv_roots :: "string list"

datatype dial_outcome = Dial_failed string | Dial_not_tcp | Dial_no_file string | Dial_not_sent string | Dial_sent

record machine =
  mc_host :: host
  mc_read :: "string \<Rightarrow> file_read option"
  mc_tools :: tools
  mc_darwin :: bool
  mc_unix :: bool
  mc_dial :: "string \<Rightarrow> dial_outcome"
  mc_guest :: "trace \<Rightarrow> operation \<Rightarrow> protocol_error + byte \<times> bytes"
  mc_restore :: "invocation \<Rightarrow> string \<Rightarrow> trace \<Rightarrow> bool \<times> trace"
  mc_timestamp :: string
  mc_error_text :: "wrap_error \<Rightarrow> string"
  mc_rewrite_text :: "rewrite_error \<Rightarrow> string"

datatype effect = Reply string | Send_fd string | Kill int

definition zero_config :: sandbox_config where
  "zero_config = \<lparr>sc_version = 0, sc_environment_allow = None, sc_hash_updates = None,
     sc_auto_interpose = \<lparr>ai_enabled = False, ai_platform = [], ai_commands = None,
       ai_policy = \<lparr>ai_extra_protected_paths = None, ai_disable_snapshot = None, ai_command_allowlist = None\<rparr>\<rparr>\<rparr>"

definition initial_server :: server where
  "initial_server = \<lparr>sv_socket = ''/tmp/sandboxd.sock'', sv_shim = [], sv_identity = [], sv_keychain = [],
     sv_cache_dir = [], sv_policy = zero_config, sv_active = False, sv_trusted = False,
     sv_get_task_allow = False, sv_env_vars = [], sv_hash_updaters = [], sv_cache_sources = [],
     sv_procs = [], sv_roots = []\<rparr>"

section \<open>Start-up\<close>

text \<open>What start-up reads: \<open>bt_load\<close> is \<^verbatim>\<open>config.Load\<close> (\<open>None\<close>: an error, invalid files included),
  \<open>bt_anchor\<close> is \<^verbatim>\<open>ReadRoot\<close> at a path, empty for the default one.\<close>

record boot =
  bt_hash :: "bytes \<Rightarrow> hash"
  bt_darwin :: bool
  bt_ev :: "string \<Rightarrow> string option"
  bt_is_dir :: "string \<Rightarrow> bool option"
  bt_load :: "string \<Rightarrow> sandbox_config option"
  bt_file :: "string \<Rightarrow> file_outcome"
  bt_proof_json :: "bytes \<Rightarrow> proof_file_json option"
  bt_anchor :: "string \<Rightarrow> anchor_error + hash"

datatype boot_error = Home_panic sandbox_error | Exit_unsupported | Leaf_panic

definition read_proof :: "boot \<Rightarrow> string \<Rightarrow> proof_file option" where
  "read_proof b path = (case bt_file b path of
     File_data d \<Rightarrow> decode_proof_data (bt_proof_json b) d | _ \<Rightarrow> None)"

text \<open>The \<^verbatim>\<open>switch\<close> that activates a loaded policy.\<close>

definition activate :: "boot \<Rightarrow> layout \<Rightarrow> sandbox_config \<Rightarrow> server \<Rightarrow> boot_error + server" where
  "activate b ly cfg s =
     (let s = s\<lparr>sv_policy := cfg\<rparr> in
      case bt_anchor b (ly_anchor_path ly) of
        Inl AnchorNotInstalled \<Rightarrow> Inr (s\<lparr>sv_active := True\<rparr>)
      | Inl _ \<Rightarrow> Inr s
      | Inr root \<Rightarrow>
          (case read_proof b (ly_proof_path ly) of
             None \<Rightarrow> Inr s
           | Some pf \<Rightarrow>
               (case sandbox_leaf cfg of
                  None \<Rightarrow> Inl Leaf_panic
                | Some l \<Rightarrow>
                    (case map_of (pf_entries pf) (leaf_key l) of
                       None \<Rightarrow> Inr s
                     | Some p \<Rightarrow>
                         Inr (if verify_proof (bt_hash b) l p root
                              then s\<lparr>sv_active := True, sv_trusted := True, sv_cache_dir := ly_cache_dir ly\<rparr>
                              else s)))))"

definition set_home :: "boot \<Rightarrow> string \<Rightarrow> server \<Rightarrow> boot_error + server" where
  "set_home b home s =
     (case new_layout (bt_ev b) (bt_is_dir b) home of
        Inl e \<Rightarrow> Inl (Home_panic e)
      | Inr ly \<Rightarrow>
          let s = s\<lparr>sv_cache_dir := ly_transient_root ly\<rparr> in
          (case bt_load b (ly_config_path ly) of
             None \<Rightarrow> Inr s
           | Some cfg \<Rightarrow>
               if ai_enabled (sc_auto_interpose cfg) \<and> \<not> bt_darwin b then Inl Exit_unsupported
               else activate b ly cfg s))"

text \<open>The argument loop. An option at the end without its value is skipped.\<close>

definition value_option :: "string \<Rightarrow> (string \<Rightarrow> server \<Rightarrow> server) option" where
  "value_option a =
     (if a = ''--socket'' then Some (\<lambda>v s. s\<lparr>sv_socket := v\<rparr>)
      else if a = ''--shim'' then Some (\<lambda>v s. s\<lparr>sv_shim := v\<rparr>)
      else if a = ''--codesign-identity'' then Some (\<lambda>v s. s\<lparr>sv_identity := v\<rparr>)
      else if a = ''--codesign-keychain'' then Some (\<lambda>v s. s\<lparr>sv_keychain := v\<rparr>)
      else None)"

definition flag_option :: "string \<Rightarrow> server \<Rightarrow> server" where
  "flag_option a s = (if a = ''--allow-get-task-allow'' then s\<lparr>sv_get_task_allow := True\<rparr> else s)"

fun parse_args :: "boot \<Rightarrow> string list \<Rightarrow> server \<Rightarrow> boot_error + server" where
  "parse_args b [] s = Inr s"
| "parse_args b [a] s = Inr (flag_option a s)"
| "parse_args b (a # v # us) s =
     (if a = ''--home'' then (case set_home b v s of Inl e \<Rightarrow> Inl e | Inr s \<Rightarrow> parse_args b us s)
      else case value_option a of
        Some set_field \<Rightarrow> parse_args b us (set_field v s)
      | None \<Rightarrow> parse_args b (v # us) (flag_option a s))"

datatype policy_warning = Anchor_unreadable | No_policy_proof | Policy_not_verified

text \<open>\<^verbatim>\<open>verifyPolicy\<close>: the extra roots to enforce, whether they are verified, and the warning.\<close>

definition verify_policy :: "(bytes \<Rightarrow> hash) \<Rightarrow> interpose_config \<Rightarrow> anchor_error + hash \<Rightarrow> proof_file option
    \<Rightarrow> string list \<times> bool \<times> policy_warning option" where
  "verify_policy H cfg root proof =
     (case root of
        Inl AnchorNotInstalled \<Rightarrow> (ic_extra_protected_paths cfg, False, None)
      | Inl _ \<Rightarrow> ([], False, Some Anchor_unreadable)
      | Inr r \<Rightarrow>
          (case proof of
             None \<Rightarrow> ([], False, Some No_policy_proof)
           | Some pf \<Rightarrow>
               let l = interpose_config_leaf cfg in
               (case map_of (pf_entries pf) (leaf_key l) of
                  None \<Rightarrow> ([], False, Some Policy_not_verified)
                | Some p \<Rightarrow> if verify_proof H l p r then (ic_extra_protected_paths cfg, True, None)
                           else ([], False, Some Policy_not_verified))))"

text \<open>\<^verbatim>\<open>main\<close> up to the accept loop; \<open>cfg\<close> and \<open>path\<close> are \<^verbatim>\<open>interposeconfig.Load()\<close> and its default path.\<close>

definition start_daemon :: "boot \<Rightarrow> string option \<Rightarrow> interpose_config \<Rightarrow> string \<Rightarrow> string list \<Rightarrow> boot_error + server" where
  "start_daemon b home cfg path args =
     (case parse_args b args initial_server of
        Inl e \<Rightarrow> Inl e
      | Inr s \<Rightarrow>
          Inr (s\<lparr>sv_roots := elems (default_protected_roots home)
             @ fst (verify_policy (bt_hash b) cfg (bt_anchor b []) (read_proof b (path @ ''.proof'')))\<rparr>))"

definition client_line :: "string list \<Rightarrow> string" where
  "client_line args = join '' '' args @ [CHR 0x0A]"

section \<open>The process table\<close>

definition kill_group :: "process \<Rightarrow> effect list" where
  "kill_group p = (if pr_pgid p > 0 then [Kill (- pr_pgid p)] else []) @ [Kill (pr_pid p)]"

definition kill_all :: "server \<Rightarrow> effect list" where
  "kill_all s = concat (map (\<lambda>(_, p). kill_group p) (sv_procs s))"

definition empty_map :: hash_map where
  "empty_map = \<lparr>hm_files = [], hm_version = hash_map_version\<rparr>"

abbreviation mc_add :: "(bytes \<Rightarrow> hash) \<Rightarrow> machine \<Rightarrow> hash_map \<Rightarrow> string \<Rightarrow> hash_error + hash_map" where
  "mc_add H mc m path \<equiv> add_path H (hs_wd (mc_host mc)) (hs_ev (mc_host mc)) (mc_read mc) m path"

text \<open>\<^verbatim>\<open>CanonicalPath\<close> with its error dropped: the empty string.\<close>

definition canonical_or_empty :: "machine \<Rightarrow> string \<Rightarrow> string" where
  "canonical_or_empty mc path = (case canonical_path (hs_wd (mc_host mc)) (hs_ev (mc_host mc)) path of
     Inl _ \<Rightarrow> [] | Inr p \<Rightarrow> p)"

definition register :: "(bytes \<Rightarrow> hash) \<Rightarrow> machine \<Rightarrow> int \<Rightarrow> int \<Rightarrow> string \<Rightarrow> server \<Rightarrow> server" where
  "register H mc pid parent path s =
     (case mc_add H mc empty_map path of
        Inl _ \<Rightarrow> s
      | Inr m \<Rightarrow>
          (case map_digest H m of
             Inl _ \<Rightarrow> s
           | Inr digest \<Rightarrow>
               let canonical = canonical_or_empty mc path;
                   canonical = (case map_of (sv_cache_sources s) canonical of Some src \<Rightarrow> src | None \<Rightarrow> canonical) in
               s\<lparr>sv_procs := AList.update pid \<lparr>pr_pid = pid, pr_parent = parent, pr_pgid = pid,
                  pr_path = canonical, pr_hash = digest, pr_files = m\<rparr> (sv_procs s)\<rparr>))"

definition env_allowed_for :: "server \<Rightarrow> int \<Rightarrow> string \<Rightarrow> bool" where
  "env_allowed_for s pid name =
     (case map_of (sv_procs s) pid of
        None \<Rightarrow> False
      | Some p \<Rightarrow> if sv_active s then env_allowed (sv_policy s) name (pr_hash p) else False)"

definition update_hash :: "(bytes \<Rightarrow> hash) \<Rightarrow> machine \<Rightarrow> int \<Rightarrow> string \<Rightarrow> server \<Rightarrow> bool \<times> server" where
  "update_hash H mc pid path s =
     (case map_of (sv_procs s) pid of
        None \<Rightarrow> (False, s)
      | Some p \<Rightarrow>
          (case mc_add H mc (pr_files p) path of
             Inl _ \<Rightarrow> (False, s)
           | Inr candidate \<Rightarrow>
               (case map_digest H candidate of
                  Inl _ \<Rightarrow> (False, s)
                | Inr digest \<Rightarrow>
                    if \<not> sv_active s \<or> \<not> allows_update (sv_policy s) (pr_hash p) (path_ext path) digest
                    then (False, s)
                    else (True, s\<lparr>sv_procs := AList.update pid (p\<lparr>pr_hash := digest,
                        pr_path := canonical_or_empty mc path, pr_files := candidate\<rparr>) (sv_procs s)\<rparr>))))"

text \<open>The legacy rules of \<^verbatim>\<open>--env-allow\<close> and \<^verbatim>\<open>--hash-updater\<close>; \<open>None\<close> is their panic.\<close>

definition add_to :: "string \<Rightarrow> string list \<Rightarrow> (string \<times> string list) list \<Rightarrow> (string \<times> string list) list" where
  "add_to k vs m = AList.update k ((case map_of m k of None \<Rightarrow> [] | Some old \<Rightarrow> old) @ vs) m"

definition add_env_policy :: "string \<Rightarrow> server \<Rightarrow> server option" where
  "add_env_policy spec s =
     (case cut (CHR ''='') spec of
        (name, hs, found) \<Rightarrow>
          if \<not> found \<or> name = [] then None
          else if list_all (\<lambda>h. length h = 64) (split_on (CHR '','') hs)
          then Some (s\<lparr>sv_env_vars := add_to name (map to_lower (split_on (CHR '','') hs)) (sv_env_vars s)\<rparr>)
          else None)"

definition dotted :: "string \<Rightarrow> string" where
  "dotted x = (if has_prefix (to_lower x) ''.'' then to_lower x else CHR ''.'' # to_lower x)"

definition add_hash_updater :: "string \<Rightarrow> server \<Rightarrow> server option" where
  "add_hash_updater spec s =
     (case cut (CHR ''='') spec of
        (name, es, found) \<Rightarrow>
          if \<not> found \<or> name = [] then None
          else Some (s\<lparr>sv_hash_updaters := add_to (to_lower name) (map dotted (split_on (CHR '','') es)) (sv_hash_updaters s)\<rparr>))"

section \<open>File access\<close>

datatype access = Allowed | Read_only | Denied

definition shell_configs :: "string list" where
  "shell_configs = [''.zshrc'', ''.bashrc'', ''.profile'', ''.bash_profile'', ''.zprofile'', ''.zlogin'']"

definition hidden_name :: "string \<Rightarrow> bool" where
  "hidden_name name \<longleftrightarrow> length name > 1 \<and> has_prefix name ''.'' \<and> name \<noteq> ''.'' \<and> name \<noteq> ''..''"

fun first_hidden :: "string list \<Rightarrow> access" where
  "first_hidden [] = Allowed"
| "first_hidden (part # us) =
     (if hidden_name (path_base part)
      then if list_ex (\<lambda>c. c = path_base part) shell_configs then Read_only else Denied
      else first_hidden us)"

definition server_protects :: "server \<Rightarrow> string \<Rightarrow> bool" where
  "server_protects s norm = matches_roots norm (sv_roots s)"

definition path_policy :: "machine \<Rightarrow> server \<Rightarrow> string \<Rightarrow> access" where
  "path_policy mc s path =
     (case norm_path (mc_host mc) path of
        None \<Rightarrow> Denied
      | Some norm \<Rightarrow>
          if server_protects s norm then Denied
          else first_hidden [path_dir norm, path_base norm])"

text \<open>\<^verbatim>\<open>O_WRONLY|O_RDWR|O_APPEND|O_CREAT|O_TRUNC\<close> on the two systems.\<close>

definition write_flags :: "bool \<Rightarrow> int" where
  "write_flags darwin = (if darwin then 0x60B else 0x643)"

definition wants_write :: "machine \<Rightarrow> int \<Rightarrow> bool" where
  "wants_write mc flags \<longleftrightarrow> and flags (write_flags (mc_darwin mc)) \<noteq> 0"

section \<open>Staging\<close>

definition stage_config_of :: "server \<Rightarrow> stage_config" where
  "stage_config_of s = \<lparr>sg_shim = sv_shim s, sg_identity = sv_identity s, sg_keychain = sv_keychain s,
     sg_cache_dir = sv_cache_dir s, sg_allow_get_task_allow = sv_get_task_allow s\<rparr>"

definition rewrite_outcome :: "(bytes \<Rightarrow> hash) \<Rightarrow> machine \<Rightarrow> server \<Rightarrow> string \<Rightarrow> rewrite_error + string" where
  "rewrite_outcome H mc s src = fst (stage_program H (mc_tools mc) (stage_config_of s) src)"

definition server_rewrite :: "(bytes \<Rightarrow> hash) \<Rightarrow> machine \<Rightarrow> server \<Rightarrow> string \<Rightarrow> (rewrite_error + string) \<times> server" where
  "server_rewrite H mc s src =
     (case rewrite_outcome H mc s src of
        Inl e \<Rightarrow> (Inl e, s)
      | Inr out \<Rightarrow> (Inr out, s\<lparr>sv_cache_sources := AList.update out src (sv_cache_sources s)\<rparr>))"

section \<open>The exec protocol\<close>

text \<open>The guest's side of an exec transaction. An operation is numbered by the requests sent before it;
  a run that is refused before anything is sent takes no number.\<close>

fun sends_request :: "(bytes \<Rightarrow> hash) \<Rightarrow> machine \<Rightarrow> server \<Rightarrow> event \<Rightarrow> bool" where
  "sends_request H mc s (Ev_run cmd _) = (is_abs (cmd_path cmd) \<and> \<not> isl (rewrite_outcome H mc s (cmd_path cmd)))"
| "sends_request H mc s (Ev_read _ _) = True"
| "sends_request H mc s (Ev_confirm _ _) = True"
| "sends_request H mc s (Ev_note _) = False"

definition next_id :: "(bytes \<Rightarrow> hash) \<Rightarrow> machine \<Rightarrow> server \<Rightarrow> trace \<Rightarrow> u64" where
  "next_id H mc s tr = of_nat (length (filter (sends_request H mc s) tr) + 1)"

definition blank_operation :: "byte \<Rightarrow> operation" where
  "blank_operation kind = \<lparr>op_id = 0, op_kind = kind, op_path = [], op_args = [], op_dir = [], op_env = [],
     op_prompt = [], op_capture = False\<rparr>"

definition guest_operation :: "(bytes \<Rightarrow> hash) \<Rightarrow> machine \<Rightarrow> server \<Rightarrow> trace \<Rightarrow> operation \<Rightarrow> operation_result option" where
  "guest_operation H mc s tr op0 =
     (let req = op0\<lparr>op_id := next_id H mc s tr\<rparr> in
      case encode_operation req of
        Inl _ \<Rightarrow> None
      | Inr payload \<Rightarrow>
          (case write_frame type_op_req payload of
             Inl _ \<Rightarrow> None
           | Inr _ \<Rightarrow>
               (case mc_guest mc tr req of
                  Inl _ \<Rightarrow> None
                | Inr (typ, response) \<Rightarrow>
                    if typ \<noteq> type_op_res then None
                    else (case decode_operation_result response of
                        Inl _ \<Rightarrow> None
                      | Inr res \<Rightarrow> if or_id res \<noteq> op_id req \<or> \<not> or_ok res then None else Some res))))"

definition guest_run :: "(bytes \<Rightarrow> hash) \<Rightarrow> machine \<Rightarrow> server \<Rightarrow> trace \<Rightarrow> command \<Rightarrow> run_outcome" where
  "guest_run H mc s tr cmd =
     (let failed = \<lparr>ro_exit = 0, ro_failed = True, ro_stdout = []\<rparr> in
      if \<not> is_abs (cmd_path cmd) then failed
      else case rewrite_outcome H mc s (cmd_path cmd) of
        Inl _ \<Rightarrow> failed
      | Inr guest \<Rightarrow>
          (case guest_operation H mc s tr ((blank_operation kind_run)\<lparr>op_path := guest,
               op_args := path_base (cmd_path cmd) # cmd_args cmd, op_dir := cmd_dir cmd, op_env := cmd_env cmd,
               op_capture := cmd_capture cmd\<rparr>) of
             None \<Rightarrow> failed
           | Some res \<Rightarrow> \<lparr>ro_exit = sint (or_exit_code res), ro_failed = False,
               ro_stdout = (if cmd_capture cmd then string_of (or_data res) else [])\<rparr>))"

definition guest_operations :: "(bytes \<Rightarrow> hash) \<Rightarrow> machine \<Rightarrow> server \<Rightarrow> operations" where
  "guest_operations H mc s = \<lparr>
     op_run = guest_run H mc s,
     op_read = (\<lambda>tr path. map_option or_data (guest_operation H mc s tr ((blank_operation kind_read)\<lparr>op_path := path\<rparr>))),
     op_confirm = (\<lambda>tr prompt. guest_operation H mc s tr ((blank_operation kind_confirm)\<lparr>op_prompt := prompt\<rparr>) \<noteq> None)\<rparr>"

text \<open>The entries the runs of a transaction leave in the table of staged programs.\<close>

fun note_staged :: "(bytes \<Rightarrow> hash) \<Rightarrow> machine \<Rightarrow> server \<Rightarrow> event \<Rightarrow> server" where
  "note_staged H mc s (Ev_run cmd _) =
     (if is_abs (cmd_path cmd) then snd (server_rewrite H mc s (cmd_path cmd)) else s)"
| "note_staged H mc s _ = s"

definition auto_wrapper :: "server \<Rightarrow> string \<Rightarrow> wrapper option" where
  "auto_wrapper s path =
     (let name = path_base path in
      if path_dir path \<noteq> ''/usr/bin'' \<and> path_dir path \<noteq> ''/bin'' then None
      else if \<not> list_ex (\<lambda>c. c = name) (elems (ai_commands (sc_auto_interpose (sv_policy s)))) then None
      else wrapper_for name)"

definition daemon_view :: "server \<Rightarrow> policy_view" where
  "daemon_view s = (let p = ai_policy (sc_auto_interpose (sv_policy s)) in
     \<lparr>pv_extra_protected_paths = elems (ai_extra_protected_paths p), pv_disable_snapshot = elems (ai_disable_snapshot p),
      pv_snapshot_prefix = ''interpose/snapshot'', pv_command_allowlist = ai_command_allowlist p\<rparr>)"

definition deny :: "string \<Rightarrow> exec_result" where
  "deny text = \<lparr>xs_allowed = False, xs_path = [], xs_argv = [], xs_env = [], xs_message = text\<rparr>"

definition approve :: "string \<Rightarrow> string list \<Rightarrow> string list \<Rightarrow> exec_result" where
  "approve path argv env = \<lparr>xs_allowed = True, xs_path = path, xs_argv = argv, xs_env = env, xs_message = []\<rparr>"

definition exec_context :: "(bytes \<Rightarrow> hash) \<Rightarrow> machine \<Rightarrow> server \<Rightarrow> exec_request \<Rightarrow> string \<Rightarrow> invocation" where
  "exec_context H mc s req path = \<lparr>cx_name = path_base path, cx_args = tl (xr_argv req), cx_real_binary = path,
     cx_dir = xr_dir req, cx_env = xr_env req, cx_ops = guest_operations H mc s, cx_policy = daemon_view s\<rparr>"

text \<open>The interposition itself: the arguments to run with, or the wrapper's error.\<close>

definition interpose_exec :: "machine \<Rightarrow> invocation \<Rightarrow> wrapper \<Rightarrow> (wrap_error + string list) \<times> trace" where
  "interpose_exec mc cx w =
     (case transform (mc_host mc) cx w (cx_args cx) [] of
        (Inl e, tr) \<Rightarrow> (Inl e, tr)
      | (Inr args, tr) \<Rightarrow>
          (case before (mc_restore mc) (mc_timestamp mc) (cx\<lparr>cx_args := args\<rparr>) w tr of
             (Some e, tr) \<Rightarrow> (Inl e, tr)
           | (None, tr) \<Rightarrow> (Inr args, tr)))"

definition evaluate_exec :: "(bytes \<Rightarrow> hash) \<Rightarrow> machine \<Rightarrow> int option \<Rightarrow> exec_request \<Rightarrow> server
    \<Rightarrow> exec_result \<times> trace \<times> server" where
  "evaluate_exec H mc peer req s =
     (case peer of
        None \<Rightarrow> (deny ''cannot identify guest peer'', [], s)
      | Some pid \<Rightarrow>
          if map_of (sv_procs s) pid = None then (deny ''guest peer is not registered'', [], s)
          else if \<not> sv_trusted s \<or> \<not> ai_enabled (sc_auto_interpose (sv_policy s))
            then (deny ''auto-interposition policy is not committed'', [], s)
          else if \<not> is_abs (xr_path req) \<or> \<not> is_abs (xr_dir req) \<or> xr_argv req = []
            then (deny ''invalid exec path, directory, or argv'', [], s)
          else (case hs_ev (mc_host mc) (xr_path req) of
              None \<Rightarrow> (deny ''cannot resolve exec path'', [], s)
            | Some path \<Rightarrow>
                (case auto_wrapper s path of
                   None \<Rightarrow> (approve path (xr_argv req) (xr_env req), [], s)
                 | Some w \<Rightarrow>
                     (case interpose_exec mc (exec_context H mc s req path) w of
                        (Inl e, tr) \<Rightarrow> (deny (''interposition denied: '' @ mc_error_text mc e), tr, foldl (note_staged H mc) s tr)
                      | (Inr args, tr) \<Rightarrow> (approve path (hd (xr_argv req) # args) (xr_env req), tr,
                          foldl (note_staged H mc) s tr)))))"

text \<open>One transaction over the bytes that follow the magic; \<open>None\<close>: closed without an answer.\<close>

definition handle_protocol :: "(bytes \<Rightarrow> hash) \<Rightarrow> machine \<Rightarrow> int option \<Rightarrow> bytes \<Rightarrow> server
    \<Rightarrow> exec_result option \<times> trace \<times> server" where
  "handle_protocol H mc peer input s =
     (case read_frame input of
        Inl _ \<Rightarrow> (None, [], s)
      | Inr (typ, payload, _) \<Rightarrow>
          if typ \<noteq> type_exec_req then (None, [], s)
          else (case decode_exec_request payload of
              Inl _ \<Rightarrow> (Some (deny ''invalid exec request''), [], s)
            | Inr req \<Rightarrow> (case evaluate_exec H mc peer req s of (r, tr, s') \<Rightarrow> (Some r, tr, s'))))"

definition write_exec_result :: "exec_result \<Rightarrow> bytes" where
  "write_exec_result r = (case encode_exec_result r of
     Inl _ \<Rightarrow> []
   | Inr payload \<Rightarrow> (case write_frame type_exec_res payload of Inl _ \<Rightarrow> [] | Inr b \<Rightarrow> b))"

section \<open>The text commands\<close>

definition join_host_port :: "string \<Rightarrow> string \<Rightarrow> string" where
  "join_host_port host port = (if CHR '':'' \<in> set host then ''['' @ host @ '']:'' @ port else host @ '':'' @ port)"

definition connect_reply :: "machine \<Rightarrow> string \<Rightarrow> string \<Rightarrow> effect list" where
  "connect_reply mc host port =
     (if \<not> mc_unix mc then [Reply ''DENIED not unix'']
      else case mc_dial mc (join_host_port host port) of
        Dial_failed e \<Rightarrow> [Reply (''DENIED '' @ e)]
      | Dial_not_tcp \<Rightarrow> [Reply ''DENIED non-tcp'']
      | Dial_no_file e \<Rightarrow> [Reply (''DENIED '' @ e)]
      | Dial_not_sent e \<Rightarrow> [Reply (''DENIED '' @ e)]
      | Dial_sent \<Rightarrow> [Send_fd ''OK''])"

definition open_reply :: "(bytes \<Rightarrow> hash) \<Rightarrow> machine \<Rightarrow> int \<Rightarrow> string \<Rightarrow> int \<Rightarrow> server \<Rightarrow> string \<times> server" where
  "open_reply H mc pid path flags s =
     (let update = (case update_hash H mc pid path s of (upd, s') \<Rightarrow> (if upd then ''UPDATED'' else ''ALLOWED'', s')) in
      case path_policy mc s path of
        Denied \<Rightarrow> (''DENIED'', s)
      | Read_only \<Rightarrow> if wants_write mc flags then (''DENIED'', s) else update
      | Allowed \<Rightarrow> update)"

definition list_line :: "process \<Rightarrow> string" where
  "list_line p = show_int (pr_pid p) @ '' '' @ show_int (pr_parent p) @ '' '' @ pr_hash p"

definition kill_peer :: "int \<Rightarrow> server \<Rightarrow> effect list \<times> server" where
  "kill_peer pid s =
     (case map_of (sv_procs s) pid of
        None \<Rightarrow> ([Reply ''OK''], s)
      | Some p \<Rightarrow> (kill_group p @ [Reply ''OK''], s\<lparr>sv_procs := AList.delete pid (sv_procs s)\<rparr>))"

datatype verb = Ping | Register | Fork | Env | Open | Connect | Rewrite | Kill_one | Kill_all | List_procs | Unknown

definition verb_of :: "string \<Rightarrow> verb" where
  "verb_of cmd =
     (if cmd = ''PING'' then Ping else if cmd = ''REGISTER'' then Register else if cmd = ''FORK'' then Fork
      else if cmd = ''ENV'' then Env else if cmd = ''OPEN'' then Open else if cmd = ''CONNECT'' then Connect
      else if cmd = ''REWRITE'' then Rewrite else if cmd = ''KILL'' then Kill_one
      else if cmd = ''KILLALL'' then Kill_all else if cmd = ''LIST'' then List_procs else Unknown)"

fun run_verb :: "(bytes \<Rightarrow> hash) \<Rightarrow> machine \<Rightarrow> int option \<Rightarrow> verb \<Rightarrow> string list \<Rightarrow> server \<Rightarrow> effect list \<times> server" where
  "run_verb H mc peer Ping f s = ([Reply ''OK''], s)"
| "run_verb H mc peer Register f s =
     (if length f < 4 then ([Reply ''ERR register''], s)
      else case peer of None \<Rightarrow> ([Reply ''ERR peerpid''], s)
        | Some pid \<Rightarrow> ([Reply ''OK''], register H mc pid (fst (atoi (f ! 2))) (f ! 3) s))"
| "run_verb H mc peer Fork f s =
     (if length f < 4 then ([Reply ''ERR fork''], s)
      else case peer of None \<Rightarrow> ([Reply ''ERR peerpid''], s)
        | Some pid \<Rightarrow> ([Reply ''OK''], register H mc pid (fst (atoi (f ! 2))) (f ! 3) s))"
| "run_verb H mc peer Env f s =
     (if length f < 4 then ([Reply ''DENY''], s)
      else case peer of None \<Rightarrow> ([Reply ''DENY''], s)
        | Some pid \<Rightarrow> ([Reply (if env_allowed_for s pid (f ! 3) then ''ALLOW'' else ''DENY'')], s))"
| "run_verb H mc peer Open f s =
     (if length f < 3 then ([Reply ''DENIED''], s)
      else case peer of None \<Rightarrow> ([Reply ''DENIED''], s)
        | Some pid \<Rightarrow> (case open_reply H mc pid (f ! 2) (if length f \<ge> 4 then fst (atoi (f ! 3)) else 0) s of
            (r, s') \<Rightarrow> ([Reply r], s')))"
| "run_verb H mc peer Connect f s =
     (if length f < 4 then [Reply ''DENIED missing host/port''] else connect_reply mc (f ! 2) (f ! 3), s)"
| "run_verb H mc peer Rewrite f s =
     (if length f < 2 then ([Reply ''ERR rewrite''], s)
      else case server_rewrite H mc s (f ! 1) of
        (Inl e, s') \<Rightarrow> ([Reply (''ERR '' @ mc_rewrite_text mc e)], s')
      | (Inr p, s') \<Rightarrow> ([Reply (''OK '' @ p)], s'))"
| "run_verb H mc peer Kill_one f s =
     (case peer of None \<Rightarrow> ([Reply ''ERR peerpid''], s) | Some pid \<Rightarrow> kill_peer pid s)"
| "run_verb H mc peer Kill_all f s = (kill_all s @ [Reply ''OK''], s\<lparr>sv_procs := []\<rparr>)"
| "run_verb H mc peer List_procs f s = (map (\<lambda>(_, p). Reply (list_line p)) (sv_procs s), s)"
| "run_verb H mc peer Unknown f s = ([], s)"

text \<open>\<^verbatim>\<open>command\<close>. A line of spaces only is trimmed to the empty line by \<^verbatim>\<open>handle\<close>.\<close>

definition serve_command :: "(bytes \<Rightarrow> hash) \<Rightarrow> machine \<Rightarrow> int option \<Rightarrow> string \<Rightarrow> server \<Rightarrow> effect list \<times> server" where
  "serve_command H mc peer line s =
     (case str_fields line of
        [] \<Rightarrow> ([], s)
      | cmd # _ \<Rightarrow> run_verb H mc peer (verb_of (to_upper cmd)) (str_fields line) s)"

text \<open>\<^verbatim>\<open>handle\<close>: which protocol a connection speaks, and the lines of a text connection; an unfinished
  last line is dropped.\<close>

definition speaks_protocol :: "bytes \<Rightarrow> bool" where
  "speaks_protocol input \<longleftrightarrow> length input \<ge> 4 \<and> string_of (take 4 input) = magic"

definition text_lines :: "bytes \<Rightarrow> string list" where
  "text_lines input = map trim_space (butlast (split_on (CHR 0x0A) (string_of input)))"

fun serve_lines :: "(bytes \<Rightarrow> hash) \<Rightarrow> int option \<Rightarrow> (string \<times> machine) list \<Rightarrow> server \<Rightarrow> effect list \<times> server" where
  "serve_lines H peer [] s = ([], s)"
| "serve_lines H peer ((line, mc) # us) s =
     (case serve_command H mc peer line s of
        (out, s') \<Rightarrow> (case serve_lines H peer us s' of (out', s'') \<Rightarrow> (out @ out', s'')))"

section \<open>Invariant of the process table\<close>

definition process_ok :: "(bytes \<Rightarrow> hash) \<Rightarrow> int \<Rightarrow> process \<Rightarrow> bool" where
  "process_ok H pid p \<longleftrightarrow> pr_pid p = pid \<and> pr_pgid p = pid \<and> validate_map (pr_files p) = None
     \<and> map_digest H (pr_files p) = Inr (pr_hash p)"

definition procs_ok :: "(bytes \<Rightarrow> hash) \<Rightarrow> (int \<times> process) list \<Rightarrow> bool" where
  "procs_ok H ps \<longleftrightarrow> (\<forall>pid p. map_of ps pid = Some p \<longrightarrow> process_ok H pid p)"

lemma procs_okD: "procs_ok H ps \<Longrightarrow> map_of ps pid = Some p \<Longrightarrow> process_ok H pid p"
  by (simp add: procs_ok_def)

lemma procs_ok_update: "procs_ok H ps \<Longrightarrow> process_ok H pid p \<Longrightarrow> procs_ok H (AList.update pid p ps)"
  by (auto simp: procs_ok_def update_conv')

lemma procs_ok_delete: "procs_ok H ps \<Longrightarrow> procs_ok H (AList.delete pid ps)"
  by (auto simp: procs_ok_def delete_conv')

lemma procs_ok_Nil: "procs_ok H []"
  by (simp add: procs_ok_def)

lemma register_cases:
  obtains "register H mc pid parent path s = s"
  | m d src where "register H mc pid parent path s = s\<lparr>sv_procs := AList.update pid
        \<lparr>pr_pid = pid, pr_parent = parent, pr_pgid = pid, pr_path = src, pr_hash = d, pr_files = m\<rparr> (sv_procs s)\<rparr>"
      "mc_add H mc empty_map path = Inr m" "map_digest H m = Inr d"
proof (cases "mc_add H mc empty_map path")
  case (Inl e)
  then show ?thesis
    by (intro that(1)) (simp add: register_def)
next
  case m: (Inr m)
  show ?thesis
  proof (cases "map_digest H m")
    case (Inl e)
    with m show ?thesis
      by (intro that(1)) (simp add: register_def)
  next
    case d: (Inr d)
    show ?thesis
      by (rule that(2) [OF _ m d]) (simp add: register_def m d Let_def)
  qed
qed

lemma update_hash_cases:
  obtains "update_hash H mc pid path s = (False, s)"
  | p m d where "update_hash H mc pid path s = (True, s\<lparr>sv_procs := AList.update pid (p\<lparr>pr_hash := d,
        pr_path := canonical_or_empty mc path, pr_files := m\<rparr>) (sv_procs s)\<rparr>)"
      "map_of (sv_procs s) pid = Some p" "mc_add H mc (pr_files p) path = Inr m" "map_digest H m = Inr d"
      "sv_active s" "allows_update (sv_policy s) (pr_hash p) (path_ext path) d"
proof (cases "map_of (sv_procs s) pid")
  case None
  then show ?thesis
    by (intro that(1)) (simp add: update_hash_def)
next
  case p: (Some p)
  show ?thesis
  proof (cases "mc_add H mc (pr_files p) path")
    case (Inl e)
    with p show ?thesis
      by (intro that(1)) (simp add: update_hash_def)
  next
    case m: (Inr m)
    show ?thesis
    proof (cases "map_digest H m")
      case (Inl e)
      with p m show ?thesis
        by (intro that(1)) (simp add: update_hash_def)
    next
      case d: (Inr d)
      show ?thesis
      proof (cases "sv_active s \<and> allows_update (sv_policy s) (pr_hash p) (path_ext path) d")
        case True
        then show ?thesis
          by (intro that(2) [OF _ p m d]) (simp_all add: update_hash_def p m d)
      next
        case False
        with p m d show ?thesis
          by (intro that(1)) (auto simp: update_hash_def)
      qed
    qed
  qed
qed

lemma add_path_validates: "add_path H wd ev rd m path = Inr m' \<Longrightarrow> validate_map m' = None"
  by (auto elim: add_path_InrD)

lemma register_ok: "procs_ok H (sv_procs s) \<Longrightarrow> procs_ok H (sv_procs (register H mc pid parent path s))"
  by (rule register_cases [of H mc pid parent path s])
    (auto intro!: procs_ok_update simp: process_ok_def dest: add_path_validates)

lemma update_hash_ok: "procs_ok H (sv_procs s) \<Longrightarrow> procs_ok H (sv_procs (snd (update_hash H mc pid path s)))"
proof (rule update_hash_cases [of H mc pid path s])
  fix p m d
  assume "procs_ok H (sv_procs s)" and p: "map_of (sv_procs s) pid = Some p"
    and m: "mc_add H mc (pr_files p) path = Inr m" "map_digest H m = Inr d"
    and u: "update_hash H mc pid path s = (True, s\<lparr>sv_procs := AList.update pid (p\<lparr>pr_hash := d,
        pr_path := canonical_or_empty mc path, pr_files := m\<rparr>) (sv_procs s)\<rparr>)"
  moreover have "process_ok H pid p"
    using \<open>procs_ok H (sv_procs s)\<close> p by (rule procs_okD)
  ultimately show "procs_ok H (sv_procs (snd (update_hash H mc pid path s)))"
    using add_path_validates [OF m(1)] by (simp add: procs_ok_update process_ok_def)
qed simp

lemma server_rewrite_procs [simp]: "sv_procs (snd (server_rewrite H mc s src)) = sv_procs s"
  by (simp add: server_rewrite_def split: sum.splits)

lemma server_rewrite_keeps: "server_rewrite H mc s src = (r, s') \<Longrightarrow> sv_procs s' = sv_procs s"
  by (metis server_rewrite_procs snd_conv)

lemma open_reply_server: "snd (open_reply H mc pid path flags s) = s
    \<or> path_policy mc s path \<noteq> Denied \<and> snd (open_reply H mc pid path flags s) = snd (update_hash H mc pid path s)"
  by (auto simp: open_reply_def Let_def split: access.splits prod.splits)

lemma run_verb_ok: "procs_ok H (sv_procs s) \<Longrightarrow> procs_ok H (sv_procs (snd (run_verb H mc peer v f s)))"
proof (cases v)
  case Open
  assume ok: "procs_ok H (sv_procs s)"
  then have "procs_ok H (sv_procs (snd (open_reply H mc pid path flags s)))" for pid path flags
    using open_reply_server [of H mc pid path flags s] update_hash_ok [OF ok] by metis
  with ok Open show ?thesis
    by (auto split: option.splits prod.splits) (metis snd_conv)+
next
  case Rewrite
  assume "procs_ok H (sv_procs s)"
  with Rewrite show ?thesis
    by (auto split: prod.splits sum.splits dest: server_rewrite_keeps)
qed (auto simp: register_ok kill_peer_def procs_ok_delete procs_ok_Nil split: option.splits)

lemma serve_command_ok: "procs_ok H (sv_procs s) \<Longrightarrow> procs_ok H (sv_procs (snd (serve_command H mc peer line s)))"
  by (simp add: serve_command_def run_verb_ok split: list.splits)

lemma note_staged_procs [simp]: "sv_procs (note_staged H mc s e) = sv_procs s"
  by (cases e) simp_all

lemma foldl_note_staged_procs [simp]: "sv_procs (foldl (note_staged H mc) s tr) = sv_procs s"
  by (induction tr arbitrary: s) simp_all

lemma evaluate_exec_procs [simp]: "sv_procs (snd (snd (evaluate_exec H mc peer req s))) = sv_procs s"
  by (auto simp: evaluate_exec_def split: option.splits prod.splits sum.splits)

lemma handle_protocol_procs [simp]: "sv_procs (snd (snd (handle_protocol H mc peer input s))) = sv_procs s"
proof -
  have "evaluate_exec H mc peer req s = (r, tr, s') \<Longrightarrow> sv_procs s' = sv_procs s" for req r tr s'
    using evaluate_exec_procs [of H mc peer req s] by simp
  then show ?thesis
    by (auto simp: handle_protocol_def split: sum.splits prod.splits)
qed

text \<open>The steps a running daemon takes, one command or exec transaction at a time (every access to the
  table is under the daemon's lock; an exec transaction reads it once).\<close>

inductive daemon_step :: "(bytes \<Rightarrow> hash) \<Rightarrow> server \<Rightarrow> server \<Rightarrow> bool" for H where
  step_command: "serve_command H mc peer line s = (out, s') \<Longrightarrow> daemon_step H s s'"
| step_exec: "handle_protocol H mc peer input s = (r, tr, s') \<Longrightarrow> daemon_step H s s'"

inductive_cases daemon_stepE: "daemon_step H s s'"

lemma daemon_step_ok: "daemon_step H s s' \<Longrightarrow> procs_ok H (sv_procs s) \<Longrightarrow> procs_ok H (sv_procs s')"
  by (erule daemon_stepE) (metis serve_command_ok snd_conv, metis handle_protocol_procs snd_conv)

lemma daemon_steps_ok: "(daemon_step H)\<^sup>*\<^sup>* s s' \<Longrightarrow> procs_ok H (sv_procs s) \<Longrightarrow> procs_ok H (sv_procs s')"
  by (induction rule: rtranclp_induct) (auto intro: daemon_step_ok)

section \<open>What a command may change\<close>

lemma register_other: "pid \<noteq> q \<Longrightarrow> map_of (sv_procs (register H mc q parent path s)) pid = map_of (sv_procs s) pid"
  by (rule register_cases [of H mc q parent path s]) (simp_all add: update_conv')

lemma update_hash_other:
  "pid \<noteq> q \<Longrightarrow> map_of (sv_procs (snd (update_hash H mc q path s))) pid = map_of (sv_procs s) pid"
  by (rule update_hash_cases [of H mc q path s]) (simp_all add: update_conv')

lemma update_hash_authorised:
  assumes "map_of (sv_procs s) pid = Some p"
    and "map_of (sv_procs (snd (update_hash H mc q path s))) pid = Some p'" and "pr_hash p' \<noteq> pr_hash p"
  shows "q = pid \<and> sv_active s \<and> allows_update (sv_policy s) (pr_hash p) (path_ext path) (pr_hash p')"
proof (rule update_hash_cases [of H mc q path s])
  assume "update_hash H mc q path s = (False, s)"
  with assms show ?thesis
    by simp
next
  fix r m d
  assume u: "update_hash H mc q path s = (True, s\<lparr>sv_procs := AList.update q (r\<lparr>pr_hash := d,
        pr_path := canonical_or_empty mc path, pr_files := m\<rparr>) (sv_procs s)\<rparr>)"
    and r: "map_of (sv_procs s) q = Some r" and a: "sv_active s" "allows_update (sv_policy s) (pr_hash r) (path_ext path) d"
  then have q: "q = pid"
    using assms by (auto simp: update_conv' split: if_splits)
  with u r assms have "r = p" "pr_hash p' = d"
    by (auto simp: update_conv')
  with q a show ?thesis
    by simp
qed

lemma run_verb_hash:
  assumes "map_of (sv_procs s) pid = Some p"
    and "map_of (sv_procs (snd (run_verb H mc peer v f s))) pid = Some p'" and "pr_hash p' \<noteq> pr_hash p"
  shows "peer = Some pid \<and> (v = Register \<or> v = Fork \<or> v = Open \<and> path_policy mc s (f ! 2) \<noteq> Denied
    \<and> sv_active s \<and> allows_update (sv_policy s) (pr_hash p) (path_ext (f ! 2)) (pr_hash p'))"
proof (cases v)
  case Open
  obtain q where peer: "peer = Some q" and f: "\<not> length f < 3"
    using assms Open by (cases peer) (auto split: if_splits)
  let ?flags = "if length f \<ge> 4 then fst (atoi (f ! 3)) else 0"
  have run: "snd (run_verb H mc peer v f s) = snd (open_reply H mc q (f ! 2) ?flags s)"
    using f by (simp add: Open peer split: prod.splits)
  with open_reply_server [of H mc q "f ! 2" ?flags s] assms
  have "path_policy mc s (f ! 2) \<noteq> Denied" and "snd (run_verb H mc peer v f s) = snd (update_hash H mc q (f ! 2) s)"
    by auto
  with assms update_hash_authorised [of s pid p H mc q "f ! 2" p'] show ?thesis
    by (simp add: Open peer)
next
  case Register
  with assms show ?thesis
    using register_other [of pid _ H mc "fst (atoi (f ! 2))" "f ! 3" s]
    by (cases peer) (auto split: if_splits, metis option.inject)
next
  case Fork
  with assms show ?thesis
    using register_other [of pid _ H mc "fst (atoi (f ! 2))" "f ! 3" s]
    by (cases peer) (auto split: if_splits, metis option.inject)
next
  case Rewrite
  with assms have False
    by (cases "server_rewrite H mc s (f ! 1)") (auto split: if_splits sum.splits dest: server_rewrite_keeps)
  then show ?thesis ..
next
  case Kill_one
  with assms show ?thesis
    by (auto simp: kill_peer_def delete_conv' split: option.splits if_splits)
qed (use assms in \<open>auto split: option.splits if_splits\<close>)

lemma path_policy_Denied_protected: "norm_path (mc_host mc) path = Some norm \<Longrightarrow> server_protects s norm
    \<Longrightarrow> path_policy mc s path = Denied"
  by (simp add: path_policy_def)

text \<open>What an opening gets.\<close>

lemma open_reply_cases:
  "open_reply H mc pid path flags s =
     (if path_policy mc s path = Denied \<or> path_policy mc s path = Read_only \<and> wants_write mc flags then (''DENIED'', s)
      else (if fst (update_hash H mc pid path s) then ''UPDATED'' else ''ALLOWED'', snd (update_hash H mc pid path s)))"
  by (cases "path_policy mc s path") (simp_all add: open_reply_def Let_def split: prod.splits)

section \<open>Trust\<close>

text \<open>The policy in force verifies against an installed anchor.\<close>

definition policy_verified :: "boot \<Rightarrow> sandbox_config \<Rightarrow> bool" where
  "policy_verified b cfg \<longleftrightarrow> (\<exists>(ly :: layout) root l p. bt_anchor b (ly_anchor_path ly) = Inr root \<and> sandbox_leaf cfg = Some l
     \<and> presented_proof (bt_proof_json b) (bt_file b (ly_proof_path ly)) (leaf_key l) = Some p
     \<and> verify_proof (bt_hash b) l p root)"

lemma read_proof_presented: "read_proof b path = Some pf
    \<Longrightarrow> presented_proof (bt_proof_json b) (bt_file b path) k = map_of (pf_entries pf) k"
  by (auto simp: read_proof_def presented_proof_def split: file_outcome.splits)

lemma activate_trust:
  assumes "activate b ly cfg s = Inr s'" "\<not> sv_trusted s"
  shows "sv_policy s' = cfg \<and> (sv_trusted s' \<longrightarrow> policy_verified b cfg)"
proof (cases "bt_anchor b (ly_anchor_path ly)")
  case (Inl e)
  with assms show ?thesis
    by (cases e) (auto simp: activate_def)
next
  case root: (Inr root)
  show ?thesis
  proof (cases "read_proof b (ly_proof_path ly)")
    case None
    with assms root show ?thesis
      by (auto simp: activate_def)
  next
    case pf: (Some pf)
    then obtain l where l: "sandbox_leaf cfg = Some l"
      using assms root by (cases "sandbox_leaf cfg") (simp_all add: activate_def)
    show ?thesis
    proof (cases "map_of (pf_entries pf) (leaf_key l)")
      case None
      with assms root pf l show ?thesis
        by (auto simp: activate_def)
    next
      case (Some p)
      with assms root pf l have "sv_policy s' = cfg" "sv_trusted s' \<longrightarrow> verify_proof (bt_hash b) l p root"
        by (auto simp: activate_def Let_def split: if_splits)
      with root l Some read_proof_presented [OF pf, of "leaf_key l"] show ?thesis
        by (auto simp: policy_verified_def)
    qed
  qed
qed

lemma set_home_trust:
  assumes "set_home b home s = Inr s'" "\<not> sv_trusted s"
  shows "sv_trusted s' \<longrightarrow> policy_verified b (sv_policy s')"
proof -
  obtain ly where ly: "new_layout (bt_ev b) (bt_is_dir b) home = Inr ly"
    using assms by (auto simp: set_home_def split: sum.splits)
  show ?thesis
  proof (cases "bt_load b (ly_config_path ly)")
    case None
    with assms ly show ?thesis
      by (auto simp: set_home_def)
  next
    case (Some cfg)
    then have "activate b ly cfg (s\<lparr>sv_cache_dir := ly_transient_root ly\<rparr>) = Inr s'"
      using assms ly by (auto simp: set_home_def Let_def split: if_splits)
    with assms activate_trust show ?thesis
      by fastforce
  qed
qed

lemma flag_option_keeps [simp]: "sv_trusted (flag_option a s) = sv_trusted s" "sv_policy (flag_option a s) = sv_policy s"
  "sv_procs (flag_option a s) = sv_procs s"
  by (simp_all add: flag_option_def)

lemma value_option_keeps:
  "value_option a = Some f \<Longrightarrow> sv_trusted (f v s) = sv_trusted s \<and> sv_policy (f v s) = sv_policy s \<and> sv_procs (f v s) = sv_procs s"
  unfolding value_option_def by (simp split: if_split_asm; hypsubst; simp)

lemma parse_args_other:
  assumes "a \<noteq> ''--home''"
  shows "\<exists>s1 more. sv_trusted s1 = sv_trusted s \<and> sv_policy s1 = sv_policy s \<and> sv_procs s1 = sv_procs s
    \<and> (more = us \<or> more = v # us) \<and> parse_args b (a # v # us) s = parse_args b more s1"
proof (cases "value_option a")
  case None
  with assms show ?thesis
    by (intro exI [of _ "flag_option a s"] exI [of _ "v # us"]) simp
next
  case (Some f)
  with assms value_option_keeps [OF Some] show ?thesis
    by (intro exI [of _ "f v s"] exI [of _ us]) simp
qed

lemma parse_args_trust:
  "parse_args b args s = Inr s' \<Longrightarrow> count_list args ''--home'' \<le> 1 \<Longrightarrow> sv_trusted s \<longrightarrow> ''--home'' \<notin> set args
    \<Longrightarrow> sv_trusted s \<longrightarrow> policy_verified b (sv_policy s) \<Longrightarrow> sv_trusted s' \<longrightarrow> policy_verified b (sv_policy s')"
proof (induction args arbitrary: s rule: length_induct)
  case (1 args)
  note IH = "1.IH" [rule_format] and prems = "1.prems"
  consider "args = []" | a where "args = [a]" | a v us where "args = a # v # us"
    by (metis list.exhaust)
  then show ?case
  proof cases
    case (3 a v us)
    show ?thesis
    proof (cases "a = ''--home''")
      case True
      obtain s1 where s1: "set_home b v s = Inr s1" and run: "parse_args b us s1 = Inr s'"
        using prems(1) unfolding 3 True by (cases "set_home b v s") simp_all
      have "count_list us ''--home'' = 0"
        using prems(2) unfolding 3 True by (simp split: if_splits)
      then have us: "''--home'' \<notin> set us" "count_list us ''--home'' \<le> 1"
        by (simp_all add: count_list_0_iff)
      have "\<not> sv_trusted s"
        using prems(3) unfolding 3 True by auto
      with us run set_home_trust [OF s1] IH [of us s1] 3 show ?thesis
        by simp
    next
      case False
      obtain s1 more where m: "sv_trusted s1 = sv_trusted s" "sv_policy s1 = sv_policy s"
        "more = us \<or> more = v # us" "parse_args b (a # v # us) s = parse_args b more s1"
        using parse_args_other [OF False] by metis
      have "count_list more ''--home'' \<le> 1" "set more \<subseteq> set args" "length more < length args"
        using m(3) prems(2) False unfolding 3 by (auto split: if_splits)
      with m(1,2,4) prems(1,3,4) IH [of more s1] show ?thesis
        unfolding 3 by auto
    qed
  qed (use prems in \<open>auto split: if_splits\<close>)
qed

lemma start_trust:
  assumes "start_daemon b home cfg path args = Inr s" "count_list args ''--home'' \<le> 1" "sv_trusted s"
  shows "policy_verified b (sv_policy s)"
proof -
  obtain s1 where s1: "parse_args b args initial_server = Inr s1" and s: "sv_policy s = sv_policy s1" "sv_trusted s1"
    using assms by (auto simp: start_daemon_def split: sum.splits)
  have "\<not> sv_trusted initial_server"
    by (simp add: initial_server_def)
  with parse_args_trust [OF s1 assms(2)] s show ?thesis
    by simp
qed

lemma activate_procs: "activate b ly cfg s = Inr s' \<Longrightarrow> sv_procs s' = sv_procs s"
  unfolding activate_def Let_def
  by (simp split: sum.split_asm anchor_error.split_asm option.split_asm if_split_asm; hypsubst; simp)

lemma set_home_procs: "set_home b home s = Inr s' \<Longrightarrow> sv_procs s' = sv_procs s"
  unfolding set_home_def Let_def
  by (auto split: sum.split_asm option.split_asm if_split_asm dest: activate_procs)

lemma parse_args_procs: "parse_args b args s = Inr s' \<Longrightarrow> sv_procs s' = sv_procs s"
proof (induction args arbitrary: s rule: length_induct)
  case (1 args)
  note IH = "1.IH" [rule_format] and prems = "1.prems"
  consider "args = []" | a where "args = [a]" | v us where "args = ''--home'' # v # us"
    | a v us where "args = a # v # us" "a \<noteq> ''--home''"
    by (metis list.exhaust)
  then show ?case
  proof cases
    case (3 v us)
    then obtain s1 where "set_home b v s = Inr s1" "parse_args b us s1 = Inr s'"
      using prems by (cases "set_home b v s") simp_all
    with 3 IH [of us s1] set_home_procs show ?thesis
      by simp
  next
    case (4 a v us)
    obtain s1 ws where "sv_procs s1 = sv_procs s" "ws = us \<or> ws = v # us"
      "parse_args b (a # v # us) s = parse_args b ws s1"
      using parse_args_other [OF 4(2)] by metis
    with 4 IH [of ws s1] prems show ?thesis
      by auto
  qed (use prems in auto)
qed

lemma start_daemon_procs: "start_daemon b home cfg path args = Inr s \<Longrightarrow> sv_procs s = []"
  by (auto simp: start_daemon_def initial_server_def dest: parse_args_procs split: sum.split_asm)

section \<open>Approved executions\<close>

lemma interpose_protected:
  assumes "interpose_exec mc cx (Protected_command name) = (Inr out, tr)"
  shows "out = cx_args cx \<and> (allows (pv_command_allowlist (cx_policy cx)) name (cx_args cx)
    \<or> (\<exists>prompt. Ev_confirm prompt True \<in> set tr))"
  using assms by (auto simp: interpose_exec_def protected_before_cases Let_def split: if_split_asm)

lemma evaluate_exec_allowed:
  assumes "evaluate_exec H mc peer req s = (r, tr, s')" "xs_allowed r"
  obtains pid path where "peer = Some pid" "map_of (sv_procs s) pid \<noteq> None" "sv_trusted s"
    "ai_enabled (sc_auto_interpose (sv_policy s))" "is_abs (xr_path req)" "is_abs (xr_dir req)"
    "hs_ev (mc_host mc) (xr_path req) = Some path" "xs_path r = path" "xs_env r = xr_env req"
    "auto_wrapper s path = None \<and> xs_argv r = xr_argv req
      \<or> (\<exists>w args. auto_wrapper s path = Some w \<and> xs_argv r = hd (xr_argv req) # args
          \<and> interpose_exec mc (exec_context H mc s req path) w = (Inr args, tr))"
proof -
  obtain pid where pid: "peer = Some pid"
    using assms by (cases peer) (auto simp: evaluate_exec_def deny_def)
  have guards: "map_of (sv_procs s) pid \<noteq> None \<and> sv_trusted s \<and> ai_enabled (sc_auto_interpose (sv_policy s))
      \<and> is_abs (xr_path req) \<and> is_abs (xr_dir req) \<and> xr_argv req \<noteq> []"
    using assms pid by (auto simp: evaluate_exec_def deny_def split: if_split_asm)
  obtain path where path: "hs_ev (mc_host mc) (xr_path req) = Some path"
    using assms pid guards by (cases "hs_ev (mc_host mc) (xr_path req)") (auto simp: evaluate_exec_def deny_def)
  show thesis
  proof (cases "auto_wrapper s path")
    case None
    with assms pid guards path that show ?thesis
      by (auto simp: evaluate_exec_def approve_def)
  next
    case (Some w)
    obtain v tr1 where run: "interpose_exec mc (exec_context H mc s req path) w = (v, tr1)"
      by (cases "interpose_exec mc (exec_context H mc s req path) w")
    show ?thesis
    proof (cases v)
      case (Inl e)
      with assms pid guards path Some run show ?thesis
        by (auto simp: evaluate_exec_def deny_def)
    next
      case (Inr args)
      with assms pid guards path Some run that show ?thesis
        by (auto simp: evaluate_exec_def approve_def)
    qed
  qed
qed

text \<open>A whole transaction, from the frame the guest sends to the frame it reads.\<close>

lemma handle_protocol_frame:
  assumes "encode_exec_request req = Inr payload" "write_frame type_exec_req payload = Inr frame"
  shows "handle_protocol H mc peer (frame @ others) s =
    (case evaluate_exec H mc peer req s of (r, tr, s') \<Rightarrow> (Some r, tr, s'))"
proof -
  have "decode_exec_request payload = Inr req"
    using assms(1) unfolding encode_exec_request_def decode_exec_request_def
    by (simp only: exec_request.run_decoder_Inr_iff)
  with read_write_frame [OF assms(2), of others] show ?thesis
    by (simp add: handle_protocol_def)
qed

lemma write_exec_result_frame:
  assumes "encode_exec_result r = Inr payload" "length payload + 1 \<le> max_frame"
  shows "read_frame (write_exec_result r @ others) = Inr (type_exec_res, payload, others) \<and> decode_exec_result payload = Inr r"
proof -
  obtain w where w: "write_frame type_exec_res payload = Inr w"
    using assms(2) by (simp add: write_frame_def)
  have "decode_exec_result payload = Inr r"
    using assms(1) unfolding encode_exec_result_def decode_exec_result_def
    by (simp only: exec_result.run_decoder_Inr_iff)
  with assms(1) w read_write_frame [OF w, of others] show ?thesis
    by (simp add: write_exec_result_def)
qed

section \<open>Refusals\<close>

definition refusal :: "string \<Rightarrow> bool" where
  "refusal r \<longleftrightarrow> has_prefix r ''ERR'' \<or> has_prefix r ''DEN''"

lemma server_rewrite_Inl: "server_rewrite H mc s src = (Inl e, s') \<Longrightarrow> s' = s"
  by (auto simp: server_rewrite_def split: sum.split_asm)

lemma run_verb_refusal:
  assumes "run_verb H mc peer v f s = (out, s')" "Reply r \<in> set out" "refusal r"
  shows "s' = s"
proof (cases v)
  case Open
  show ?thesis
  proof (cases "length f < 3 \<or> peer = None")
    case True
    with assms Open show ?thesis
      by (auto split: if_split_asm)
  next
    case False
    then obtain pid where pid: "peer = Some pid" "\<not> length f < 3"
      by auto
    let ?flags = "if length f \<ge> 4 then fst (atoi (f ! 3)) else 0"
    have "run_verb H mc peer v f s = (case open_reply H mc pid (f ! 2) ?flags s of (r, s') \<Rightarrow> ([Reply r], s'))"
      unfolding Open using pid by simp
    with assms show ?thesis
      by (auto simp: open_reply_cases refusal_def split: if_split_asm)
  qed
next
  case Rewrite
  with assms show ?thesis
    by (auto simp: refusal_def split: if_split_asm prod.split_asm sum.split_asm dest: server_rewrite_Inl)
next
  case Register
  with assms show ?thesis
    by (auto simp: refusal_def split: if_split_asm option.split_asm)
next
  case Fork
  with assms show ?thesis
    by (auto simp: refusal_def split: if_split_asm option.split_asm)
next
  case Kill_one
  with assms show ?thesis
    by (auto simp: refusal_def kill_peer_def kill_group_def split: if_split_asm option.split_asm)
next
  case Kill_all
  with assms show ?thesis
    by (auto simp: refusal_def kill_all_def kill_group_def split: if_split_asm)
qed (use assms in \<open>auto split: if_split_asm option.split_asm\<close>)

lemma kill_all_reaches: "map_of (sv_procs s) pid = Some p \<Longrightarrow> Kill (pr_pid p) \<in> set (kill_all s)"
  by (force simp: kill_all_def kill_group_def dest: map_of_SomeD)

section \<open>Properties\<close>

text \<open>C24: The identity the daemon keeps for a process is authentic. From start-up, through any sequence of text
  commands and exec transactions, every registered process is stored under its own pid and process
  group, its set of files is a valid hash map, and the hash its permissions are looked up by is the
  digest of exactly that map.\<close>

theorem process_hashes_authentic:
  assumes "start_daemon b home cfg path args = Inr s0" "(daemon_step H)\<^sup>*\<^sup>* s0 s"
    and "map_of (sv_procs s) pid = Some p"
  shows "pr_pid p = pid \<and> pr_pgid p = pid \<and> validate_map (pr_files p) = None
    \<and> map_digest H (pr_files p) = Inr (pr_hash p)"
  using daemon_steps_ok [OF assms(2)] start_daemon_procs [OF assms(1)] procs_okD [OF _ assms(3)]
  by (simp add: procs_ok_Nil process_ok_def)

definition sample_tools :: tools where
  "sample_tools = \<lparr>tl_read = (\<lambda>p. None), tl_entitlements = (\<lambda>p. []), tl_user_cache = None, tl_mkdir = (\<lambda>p. True),
     tl_cached = (\<lambda>p. False), tl_write = (\<lambda>p. True), tl_has_codesign = False, tl_inspect = (\<lambda>p. None),
     tl_codesign = (\<lambda>p. True)\<rparr>"

definition sample_machine :: machine where
  "sample_machine = \<lparr>mc_host = sample_host\<lparr>hs_ev := Some\<rparr>, mc_read = sample_read, mc_tools = sample_tools, mc_darwin = True,
     mc_unix = True, mc_dial = (\<lambda>t. Dial_sent), mc_guest = (\<lambda>tr req. Inl EndOfStream),
     mc_restore = (\<lambda>cx repo tr. (True, tr)), mc_timestamp = [], mc_error_text = (\<lambda>e. []), mc_rewrite_text = (\<lambda>e. [])\<rparr>"

definition sample_leaf_root :: hash where
  "sample_leaf_root = leaf_hash sample_hash (the_sandbox_leaf sample_config)"

text \<open>Two homes: the policy of \<^verbatim>\<open>/a\<close> is anchored, \<^verbatim>\<open>/b\<close> has another policy and no anchor.\<close>

definition sample_boot :: boot where
  "sample_boot = \<lparr>bt_hash = sample_hash, bt_darwin = True, bt_ev = Some, bt_is_dir = (\<lambda>p. Some True),
     bt_load = (\<lambda>p. Some (if has_prefix p ''/a/'' then sample_config else zero_config\<lparr>sc_version := 1\<rparr>)),
     bt_file = (\<lambda>p. File_data []),
     bt_proof_json = (\<lambda>d. Some \<lparr>pfj_root = [], pfj_entries = [(leaf_key (the_sandbox_leaf sample_config), [])]\<rparr>),
     bt_anchor = (\<lambda>p. if has_prefix p ''/a/'' then Inr sample_leaf_root else Inl AnchorNotInstalled)\<rparr>"

lemma sample_register:
  "\<exists>p. map_of (sv_procs (snd (serve_command sample_hash sample_machine (Some 7) ''REGISTER 7 1 /a/b'' s))) 7 = Some p
    \<and> pr_hash p \<noteq> []"
proof -
  have "case mc_add sample_hash sample_machine empty_map ''/a/b'' of Inl _ \<Rightarrow> False | Inr m \<Rightarrow> validate_map m = None"
    by code_simp
  then obtain m where m: "mc_add sample_hash sample_machine empty_map ''/a/b'' = Inr m" "validate_map m = None"
    by (auto split: sum.splits)
  have f: "str_fields ''REGISTER 7 1 /a/b'' = [''REGISTER'', ''7'', ''1'', ''/a/b'']"
    by code_simp
  have v: "verb_of (to_upper ''REGISTER'') = Register"
    by code_simp
  obtain b where d: "map_digest sample_hash m = Inr (hex_encode (sample_hash (digest_message b)))"
    using m(2) by (simp add: map_digest_def canonical_json_def)
  have "length (hex_encode (sample_hash (digest_message b))) = 64"
    by (simp only: length_hex_encode sample_hash_length)
  then have "hex_encode (sample_hash (digest_message b)) \<noteq> []"
    by (metis list.size(3) zero_neq_numeral)
  then have "\<exists>p. map_of (sv_procs (register sample_hash sample_machine 7 n ''/a/b'' s)) 7 = Some p \<and> pr_hash p \<noteq> []" for n
    by (simp add: register_def m(1) d Let_def update_conv')
  then show ?thesis
    unfolding serve_command_def f list.case v by simp
qed

lemma process_hashes_authentic_witness:
  "\<exists>p. map_of (sv_procs (snd (serve_command sample_hash sample_machine (Some 7) ''REGISTER 7 1 /a/b'' initial_server))) 7 = Some p
    \<and> map_digest sample_hash (pr_files p) = Inr (pr_hash p)"
proof -
  let ?b = "sample_boot\<lparr>bt_anchor := (\<lambda>p. Inl (StatError p))\<rparr>"
  let ?s' = "snd (serve_command sample_hash sample_machine (Some 7) ''REGISTER 7 1 /a/b'' initial_server)"
  have start: "start_daemon ?b None default_interpose_config [] [] = Inr initial_server"
    by (simp add: start_daemon_def verify_policy_def sample_boot_def initial_server_def default_protected_roots_def)
  have "daemon_step sample_hash initial_server ?s'"
    by (rule step_command [OF prod.collapse [symmetric]])
  then have steps: "(daemon_step sample_hash)\<^sup>*\<^sup>* initial_server ?s'"
    by (rule r_into_rtranclp)
  obtain p where "map_of (sv_procs ?s') 7 = Some p"
    using sample_register by blast
  with process_hashes_authentic [OF start steps this] show ?thesis
    by blast
qed

text \<open>C25: Nobody changes a process's identity behind the policy's back. A command that changes the hash of a
  registered process comes from that process, and it either registers the process anew or opens a
  file that is not denied, under an active policy with a rule that allows exactly this change for the
  extension of the opened file.\<close>

theorem hash_changes_authorised:
  assumes "serve_command H mc peer line s = (out, s')" "map_of (sv_procs s) pid = Some p"
    and "map_of (sv_procs s') pid = Some p'" "pr_hash p' \<noteq> pr_hash p"
  shows "peer = Some pid \<and> (verb_of (to_upper (hd (str_fields line))) \<in> {Register, Fork}
    \<or> verb_of (to_upper (hd (str_fields line))) = Open \<and> path_policy mc s (str_fields line ! 2) \<noteq> Denied \<and> sv_active s
      \<and> allows_update (sv_policy s) (pr_hash p) (path_ext (str_fields line ! 2)) (pr_hash p'))"
proof (cases "str_fields line")
  case Nil
  with assms show ?thesis
    by (simp add: serve_command_def)
next
  case (Cons cmd us)
  with assms have "map_of (sv_procs (snd (run_verb H mc peer (verb_of (to_upper cmd)) (cmd # us) s))) pid = Some p'"
    by (simp add: serve_command_def)
  from run_verb_hash [OF assms(2) this assms(4)] Cons show ?thesis
    by auto
qed

definition sample_server :: server where
  "sample_server = initial_server\<lparr>sv_active := True, sv_roots := [''/p''],
     sv_procs := [(7, \<lparr>pr_pid = 7, pr_parent = 1, pr_pgid = 7, pr_path = ''/a'', pr_hash = [], pr_files = empty_map\<rparr>)]\<rparr>"

lemma hash_changes_authorised_witness:
  "\<exists>p'. map_of (sv_procs (snd (serve_command sample_hash sample_machine (Some 7) ''REGISTER 7 1 /a/b'' sample_server))) 7 = Some p'
    \<and> pr_hash p' \<noteq> [] \<and> verb_of (to_upper (hd (str_fields ''REGISTER 7 1 /a/b''))) \<in> {Register, Fork, Open}"
proof -
  obtain p' where p': "map_of (sv_procs (snd (serve_command sample_hash sample_machine (Some 7) ''REGISTER 7 1 /a/b''
      sample_server))) 7 = Some p'" "pr_hash p' \<noteq> []"
    using sample_register by blast
  have "map_of (sv_procs sample_server) 7 = Some (snd (hd (sv_procs sample_server)))"
    "pr_hash (snd (hd (sv_procs sample_server))) = []"
    by (simp_all add: sample_server_def)
  from hash_changes_authorised [OF prod.collapse [symmetric] this(1) p'(1)] this(2) p' show ?thesis
    by auto
qed


definition exec_config :: sandbox_config where
  "exec_config = zero_config\<lparr>sc_auto_interpose := \<lparr>ai_enabled = True, ai_platform = ''darwin'', ai_commands = Some [''kill''],
     ai_policy = \<lparr>ai_extra_protected_paths = None, ai_disable_snapshot = None,
       ai_command_allowlist = Some [(''kill'', Some [Some [''-9'', ''{pid}'']])]\<rparr>\<rparr>\<rparr>"

definition exec_server :: server where
  "exec_server = sample_server\<lparr>sv_trusted := True, sv_policy := exec_config\<rparr>"

definition kill_request :: exec_request where
  "kill_request = \<lparr>xr_path = ''/bin/kill'', xr_dir = ''/'', xr_argv = [''kill'', ''-9'', ''12''], xr_env = [''A=b'']\<rparr>"

lemma exec_approved:
  "evaluate_exec sample_hash sample_machine (Some 7) kill_request exec_server
     = (approve ''/bin/kill'' [''kill'', ''-9'', ''12''] [''A=b''], [], exec_server)"
proof -
  have w: "auto_wrapper exec_server ''/bin/kill'' = Some (Protected_command ''kill'')"
    by code_simp
  have a: "allows (Some [(''kill'', Some [Some [''-9'', ''{pid}'']])]) ''kill'' [''-9'', ''12'']"
    by code_simp
  have k: "xr_path kill_request = ''/bin/kill''" "xr_dir kill_request = ''/''" "xr_argv kill_request = [''kill'', ''-9'', ''12'']"
    "xr_env kill_request = [''A=b'']" "is_abs ''/bin/kill''" "is_abs ''/''"
    by (simp_all add: kill_request_def is_abs_def)
  obtain p where s: "map_of (sv_procs exec_server) 7 = Some p" "sv_trusted exec_server" "ai_enabled (sc_auto_interpose (sv_policy exec_server))"
    by (simp_all add: exec_server_def sample_server_def exec_config_def)
  have "interpose_exec sample_machine (exec_context sample_hash sample_machine exec_server kill_request ''/bin/kill'')
      (Protected_command ''kill'') = (Inr [''-9'', ''12''], [])"
    using a by (simp add: interpose_exec_def protected_before_def exec_context_def daemon_view_def exec_server_def
      exec_config_def k Let_def)
  moreover have "hs_ev (mc_host sample_machine) ''/bin/kill'' = Some ''/bin/kill''"
    by (simp add: sample_machine_def)
  ultimately show ?thesis
    using w s by (simp add: evaluate_exec_def k)
qed



lemma sample_boot_a:
  assumes "has_prefix p ''/a/''"
  shows "bt_load sample_boot p = Some sample_config" "bt_anchor sample_boot p = Inr sample_leaf_root"
  using assms by (simp_all add: sample_boot_def)

lemma sample_boot_b:
  assumes "\<not> has_prefix p ''/a/''"
  shows "bt_load sample_boot p = Some (zero_config\<lparr>sc_version := 1\<rparr>)" "bt_anchor sample_boot p = Inl AnchorNotInstalled"
  using assms by (simp_all add: sample_boot_def)

lemma sample_boot_other: "new_layout (bt_ev sample_boot) (bt_is_dir sample_boot) home
    = (if home = [] \<or> \<not> is_abs home then Inl Home_not_absolute else Inr (layout_of (clean home)))"
  "bt_darwin sample_boot" "bt_hash sample_boot = sample_hash"
  "read_proof sample_boot p = Some \<lparr>pf_root = [], pf_entries = [(leaf_key (the_sandbox_leaf sample_config), [])]\<rparr>"
  by (simp_all add: new_layout_def sample_boot_def read_proof_def decode_proof_data_def decode_proof_file_def)

lemma sample_home_a:
  "set_home sample_boot ''/a'' s = Inr (s\<lparr>sv_cache_dir := ly_cache_dir (layout_of ''/a''), sv_policy := sample_config,
     sv_active := True, sv_trusted := True\<rparr>)"
proof -
  have c: "clean ''/a'' = ''/a''" "is_abs ''/a''"
    by code_simp+
  have p: "has_prefix (ly_config_path (layout_of ''/a'')) ''/a/''" "has_prefix (ly_anchor_path (layout_of ''/a'')) ''/a/''"
    by code_simp+
  have l: "sandbox_leaf sample_config = Some (the_sandbox_leaf sample_config)"
    using sample_config_committable
    by (simp add: the_sandbox_leaf_eq sandbox_leaf_def config_canonical_json_def committable_def)
  have v: "verify_proof sample_hash (the_sandbox_leaf sample_config) [] sample_leaf_root"
    by (simp add: verify_proof_def sample_leaf_root_def)
  show ?thesis
    using p by (simp add: set_home_def sample_boot_other c sample_boot_a activate_def l v Let_def)
qed


text \<open>With two \<^verbatim>\<open>--home\<close> options the trust of the first home carries over to the policy of the second: here
  \<^verbatim>\<open>/a\<close> is committed and \<^verbatim>\<open>/b\<close> has a different policy and no anchor at all, and the daemon runs
  the policy of \<^verbatim>\<open>/b\<close> as trusted.\<close>

theorem second_home_inherits_trust:
  "\<exists>s. start_daemon sample_boot None default_interpose_config [] [''--home'', ''/a'', ''--home'', ''/b''] = Inr s
    \<and> sv_trusted s \<and> sv_policy s \<noteq> sample_config
    \<and> bt_anchor sample_boot (ly_anchor_path (layout_of ''/b'')) = Inl AnchorNotInstalled"
proof -
  have c: "clean ''/b'' = ''/b''" "is_abs ''/b''"
    by code_simp+
  have p: "\<not> has_prefix (ly_config_path (layout_of ''/b'')) ''/a/''" "\<not> has_prefix (ly_anchor_path (layout_of ''/b'')) ''/a/''"
    by code_simp+
  have e: "\<not> ai_enabled (sc_auto_interpose (zero_config\<lparr>sc_version := 1\<rparr>))"
    by (simp add: zero_config_def)
  have "set_home sample_boot ''/b'' s = Inr (s\<lparr>sv_cache_dir := ly_transient_root (layout_of ''/b''),
      sv_policy := zero_config\<lparr>sc_version := 1\<rparr>, sv_active := True\<rparr>)" for s
    using p e by (simp add: set_home_def sample_boot_other c sample_boot_b activate_def Let_def)
  moreover have "zero_config\<lparr>sc_version := 1\<rparr> \<noteq> sample_config"
    by (simp add: zero_config_def sample_config_def)
  ultimately show ?thesis
    by (simp add: start_daemon_def sample_home_a sample_boot_b(2) [OF p(2)])
qed

text \<open>What opening a file gets. A registered or unregistered peer that opens a path is answered \<^verbatim>\<open>DENIED\<close>, and
  nothing changes, exactly if the normalised path cannot be computed, lies under a protected root,
  ends in a hidden directory entry that is no shell configuration, or is a shell configuration
  opened for writing; otherwise the answer is \<^verbatim>\<open>UPDATED\<close> or \<^verbatim>\<open>ALLOWED\<close>, never the \<^verbatim>\<open>RO\<close> the clients also
  understand.\<close>

theorem open_decision:
  "open_reply H mc pid path flags s =
     (if norm_path (mc_host mc) path = None \<or> server_protects s (the (norm_path (mc_host mc) path))
         \<or> first_hidden [path_dir (the (norm_path (mc_host mc) path)), path_base (the (norm_path (mc_host mc) path))] = Denied
         \<or> first_hidden [path_dir (the (norm_path (mc_host mc) path)), path_base (the (norm_path (mc_host mc) path))] = Read_only
           \<and> wants_write mc flags
      then (''DENIED'', s)
      else (if fst (update_hash H mc pid path s) then ''UPDATED'' else ''ALLOWED'', snd (update_hash H mc pid path s)))"
  by (cases "norm_path (mc_host mc) path") (simp_all add: open_reply_cases path_policy_def)

text \<open>A refused command changes nothing: if any line a command answers starts with \<^verbatim>\<open>ERR\<close> or \<^verbatim>\<open>DEN\<close>, the
  daemon's state is what it was.\<close>

theorem refused_command_keeps_state:
  assumes "serve_command H mc peer line s = (out, s')" "Reply r \<in> set out" "refusal r"
  shows "s' = s"
proof (cases "str_fields line")
  case Nil
  with assms show ?thesis
    by (simp add: serve_command_def)
next
  case (Cons cmd us)
  with assms have "run_verb H mc peer (verb_of (to_upper cmd)) (cmd # us) s = (out, s')"
    by (simp add: serve_command_def)
  from run_verb_refusal [OF this assms(2,3)] show ?thesis .
qed

lemma refused_command_keeps_state_witness:
  "snd (serve_command sample_hash sample_machine (Some 7) ''open 7 /p/q 0'' sample_server) = sample_server"
proof -
  have f: "str_fields ''open 7 /p/q 0'' = [''open'', ''7'', ''/p/q'', ''0'']" and v: "verb_of (to_upper ''open'') = Open"
    by code_simp+
  have "norm_path (mc_host sample_machine) ''/p/q'' = Some ''/p/q''" "server_protects sample_server ''/p/q''"
    by code_simp+
  then have "path_policy sample_machine sample_server ''/p/q'' = Denied"
    by (rule path_policy_Denied_protected)
  then have "Reply ''DENIED'' \<in> set (fst (serve_command sample_hash sample_machine (Some 7) ''open 7 /p/q 0'' sample_server))"
    unfolding serve_command_def f list.case v by (simp add: open_reply_cases)
  from refused_command_keeps_state [OF prod.collapse [symmetric] this] show ?thesis
    by (simp add: refusal_def)
qed

text \<open>C28: An exec transaction end to end. If the guest frames an encoded request and the daemon's decision fits a
  frame, then the daemon answers with a frame that decodes to exactly the decision it computed for
  exactly that request, whatever follows on either stream.\<close>

theorem exec_transaction:
  assumes "encode_exec_request req = Inr payload" "write_frame type_exec_req payload = Inr frame"
    and "evaluate_exec H mc peer req s = (r, tr, s')" "encode_exec_result r = Inr answer" "length answer + 1 \<le> max_frame"
  shows "handle_protocol H mc peer (frame @ others) s = (Some r, tr, s')
    \<and> read_frame (write_exec_result r @ others') = Inr (type_exec_res, answer, others') \<and> decode_exec_result answer = Inr r"
  using handle_protocol_frame [OF assms(1,2)] assms(3) write_exec_result_frame [OF assms(4,5)] by simp

lemma exec_transaction_witness:
  "\<exists>frame r. handle_protocol sample_hash sample_machine (Some 7) (frame @ []) exec_server = (Some r, [], exec_server)
    \<and> xs_path r = ''/bin/kill''"
proof -
  have p: "encode_exec_request kill_request
      = Inr (wire_pair wire_str (wire_pair wire_str (wire_pair wire_vec wire_vec)) (tuple_exec_request kill_request))"
    unfolding encode_exec_request_def
    by (rule exec_request.run_encoder_good) (simp add: kill_request_def good_pair_def good_str_def good_vec_def)
  then obtain f where f: "write_frame type_exec_req (wire_pair wire_str (wire_pair wire_str (wire_pair wire_vec wire_vec))
      (tuple_exec_request kill_request)) = Inr f"
    by (simp add: write_frame_def kill_request_def wire_pair_def wire_str_def wire_blob_def wire_vec_def)
  let ?r = "approve ''/bin/kill'' [''kill'', ''-9'', ''12''] [''A=b'']"
  let ?a = "wire_pair (\<lambda>b. [if b then 1 else 0]) (wire_pair wire_str (wire_pair wire_vec
     (wire_pair wire_vec wire_str))) (tuple_exec_result ?r)"
  have a: "encode_exec_result ?r = Inr ?a"
    unfolding encode_exec_result_def
    by (rule exec_result.run_encoder_good) (simp add: approve_def good_pair_def good_str_def good_vec_def)
  have "length ?a + 1 \<le> max_frame"
    by (simp add: approve_def wire_pair_def wire_str_def wire_blob_def wire_vec_def)
  from exec_transaction [OF p f exec_approved a this, of "[]" "[]"]
  have "handle_protocol sample_hash sample_machine (Some 7) (f @ []) exec_server = (Some ?r, [], exec_server)"
    by (rule conjunct1)
  moreover have "xs_path ?r = ''/bin/kill''"
    by (simp add: approve_def)
  ultimately show ?thesis
    by blast
qed

end
