(* ===== verification/Pulse_Config.thy ===== *)
theory Pulse_Config
  imports Complex_Main Go_Strings Commit_Encoding
begin

text \<open>
  The two configuration files of \<^verbatim>\<open>pulse\<close>: the legacy job stanzas (\<^verbatim>\<open>pulse/config\<close>) and the strict,
  domain-separated tasks (\<^verbatim>\<open>pulse/tasks\<close>), their parsers and the leaves they commit to. Durations are
  \<^verbatim>\<open>time.Duration\<close>, int64 nanoseconds. The record \<open>texts\<close> holds the conversions of \<^verbatim>\<open>time\<close> and \<^verbatim>\<open>strconv\<close>
  between text and durations or floating-point numbers.
\<close>

section \<open>Numbers as text\<close>

datatype go_float = Nan | Infinite bool | Finite rat

record texts =
  tx_parse_duration :: "string \<Rightarrow> int option"
  tx_show_duration :: "int \<Rightarrow> string"
  tx_parse_float :: "string \<Rightarrow> go_float option"
  tx_show_float :: "go_float \<Rightarrow> string"
  tx_show_int :: "int \<Rightarrow> string"

fun float_greater :: "go_float \<Rightarrow> go_float \<Rightarrow> bool" where
  "float_greater Nan y = False"
| "float_greater x Nan = False"
| "float_greater (Infinite neg) y = (\<not> neg \<and> y \<noteq> Infinite False)"
| "float_greater (Finite a) (Infinite neg) = neg"
| "float_greater (Finite a) (Finite b) = (a > b)"

definition second :: int where
  "second = 1000000000"

section \<open>Legacy jobs\<close>

record job =
  jb_name :: string
  jb_interval :: int
  jb_command :: string
  jb_max_load :: "go_float option"

datatype pulse_error = No_name | Bad_interval string | No_command string | Duplicate string
  | Bad_line string | No_stanza string | Bad_duration string string | Bad_load string string
  | Unknown_key string string | Scan_failed | Nothing_defined | Missing_field | Invalid_key string string
  | Missing_key string string | Bad_restart string | Bad_delays string | Bad_attempts string
  | Bad_rapid string | No_reason string | Unknown_domain string string | Duplicate_key string

definition new_job :: "string \<Rightarrow> job" where
  "new_job name = \<lparr>jb_name = name, jb_interval = 0, jb_command = [], jb_max_load = None\<rparr>"

text \<open>\<^verbatim>\<open>finish\<close>: the parsed jobs in order with the stanza being read. The set \<^verbatim>\<open>seen\<close> is the set of
  their names.\<close>

definition finish_job :: "job list \<times> job option \<Rightarrow> pulse_error + job list" where
  "finish_job st = (case st of
     (jobs, None) \<Rightarrow> Inr jobs
   | (jobs, Some j) \<Rightarrow>
       if jb_name j = [] then Inl No_name
       else if jb_interval j \<le> 0 then Inl (Bad_interval (jb_name j))
       else if jb_command j = [] then Inl (No_command (jb_name j))
       else if jb_name j \<in> set (map jb_name jobs) then Inl (Duplicate (jb_name j))
       else Inr (jobs @ [j]))"

definition job_field :: "texts \<Rightarrow> job \<Rightarrow> string \<Rightarrow> string \<Rightarrow> pulse_error + job" where
  "job_field tx j key v =
     (if key = ''interval'' then
        (case tx_parse_duration tx v of None \<Rightarrow> Inl (Bad_duration (jb_name j) v)
         | Some d \<Rightarrow> Inr (j\<lparr>jb_interval := d\<rparr>))
      else if key = ''command'' then Inr (j\<lparr>jb_command := v\<rparr>)
      else if key = ''max-load1'' then
        (case tx_parse_float tx v of None \<Rightarrow> Inl (Bad_load (jb_name j) v)
         | Some f \<Rightarrow> Inr (j\<lparr>jb_max_load := Some f\<rparr>))
      else Inl (Unknown_key (jb_name j) key))"

definition job_line :: "texts \<Rightarrow> string \<Rightarrow> job list \<times> job option \<Rightarrow> pulse_error + job list \<times> job option" where
  "job_line tx raw st =
     (let line = trim_space raw in
      if line = [] then (case finish_job st of Inl e \<Rightarrow> Inl e | Inr jobs \<Rightarrow> Inr (jobs, None))
      else if has_prefix line ''#'' then Inr st
      else case cut (CHR '':'') line of
        (k, v, found) \<Rightarrow>
          let key = trim_space k; v = trim_space v in
          if \<not> found then Inl (Bad_line line)
          else if key = ''job'' then
            (case finish_job st of Inl e \<Rightarrow> Inl e | Inr jobs \<Rightarrow> Inr (jobs, Some (new_job v)))
          else (case snd st of
              None \<Rightarrow> Inl (No_stanza line)
            | Some j \<Rightarrow> (case job_field tx j key v of
                Inl e \<Rightarrow> Inl e | Inr j \<Rightarrow> Inr (fst st, Some j))))"

fun fold_lines :: "(string \<Rightarrow> 'a \<Rightarrow> pulse_error + 'a) \<Rightarrow> string list \<Rightarrow> 'a \<Rightarrow> pulse_error + 'a" where
  "fold_lines f [] st = Inr st"
| "fold_lines f (l # ls) st = (case f l st of Inl e \<Rightarrow> Inl e | Inr st \<Rightarrow> fold_lines f ls st)"

text \<open>The scan error is reported after the lines before it are processed.\<close>

definition parse_jobs :: "texts \<Rightarrow> string \<Rightarrow> pulse_error + job list" where
  "parse_jobs tx text =
     (case scan_lines text of (ls, ok) \<Rightarrow>
        case fold_lines (job_line tx) ls ([], None) of
          Inl e \<Rightarrow> Inl e
        | Inr st \<Rightarrow>
            if \<not> ok then Inl Scan_failed
            else (case finish_job st of
                Inl e \<Rightarrow> Inl e
              | Inr jobs \<Rightarrow> if jobs = [] then Inl Nothing_defined else Inr jobs))"

definition job_leaf :: "job \<Rightarrow> leaf" where
  "job_leaf j = \<lparr>leaf_tool = ''pulse'', leaf_id = jb_name j, leaf_kind = kind_command,
     leaf_payload = encode_kv [(''command'', jb_command j)]\<rparr>"

section \<open>Tasks\<close>

datatype domain = Scheduled | User | Service | Rapid_service | Stoppable_service | Disabled

fun domain_name :: "domain \<Rightarrow> string" where
  "domain_name Scheduled = ''scheduled''"
| "domain_name User = ''user''"
| "domain_name Service = ''service''"
| "domain_name Rapid_service = ''rapid-service''"
| "domain_name Stoppable_service = ''stoppable-service''"
| "domain_name Disabled = ''disabled''"

definition domains :: "domain list" where
  "domains = [Scheduled, User, Service, Rapid_service, Stoppable_service, Disabled]"

definition domain_of :: "string \<Rightarrow> domain option" where
  "domain_of s = find (\<lambda>d. domain_name d = s) domains"

record task =
  tk_id :: string
  tk_domain :: domain
  tk_command :: string
  tk_interval :: int
  tk_max_load :: "go_float option"
  tk_restart :: string
  tk_min_delay :: int
  tk_max_delay :: int
  tk_max_attempts :: int
  tk_grace :: int
  tk_pause :: int
  tk_reason :: string

definition new_task :: "string \<Rightarrow> domain \<Rightarrow> string \<Rightarrow> task" where
  "new_task i d c = \<lparr>tk_id = i, tk_domain = d, tk_command = c, tk_interval = 0, tk_max_load = None,
     tk_restart = [], tk_min_delay = 0, tk_max_delay = 0, tk_max_attempts = 0, tk_grace = 0, tk_pause = 0,
     tk_reason = []\<rparr>"

definition service_fields :: "texts \<Rightarrow> task \<Rightarrow> (string \<times> string) list" where
  "service_fields tx t =
     [(''restart'', tk_restart t), (''restart-min-delay'', tx_show_duration tx (tk_min_delay t)),
      (''restart-max-delay'', tx_show_duration tx (tk_max_delay t)),
      (''restart-max-attempts'', tx_show_int tx (tk_max_attempts t)),
      (''shutdown-grace'', tx_show_duration tx (tk_grace t))]"

fun domain_fields :: "texts \<Rightarrow> task \<Rightarrow> domain \<Rightarrow> (string \<times> string) list" where
  "domain_fields tx t Scheduled = [(''interval'', tx_show_duration tx (tk_interval t)),
     (''max-load1'', case tk_max_load t of None \<Rightarrow> ''absent'' | Some f \<Rightarrow> tx_show_float tx f)]"
| "domain_fields tx t User = [(''confirmation-protocol'', ''tty-pin-v1'')]"
| "domain_fields tx t Service = service_fields tx t"
| "domain_fields tx t Rapid_service = [(''restart'', ''always''), (''restart-min-delay'', ''0s''),
     (''rapid-protocol'', ''daemon-rapid-v1''), (''shutdown-grace'', tx_show_duration tx (tk_grace t))]"
| "domain_fields tx t Stoppable_service = service_fields tx t @ [(''pause-protocol'', ''tty-lease-v1''),
     (''pause-max-duration'', tx_show_duration tx (tk_pause t))]"
| "domain_fields tx t Disabled = [(''reason'', tk_reason t)]"

definition task_fields :: "texts \<Rightarrow> task \<Rightarrow> (string \<times> string) list" where
  "task_fields tx t = [(''domain'', domain_name (tk_domain t)), (''command'', tk_command t)]
     @ domain_fields tx t (tk_domain t)"

definition task_leaf :: "texts \<Rightarrow> task \<Rightarrow> leaf" where
  "task_leaf tx t = \<lparr>leaf_tool = ''pulse/task/'' @ domain_name (tk_domain t), leaf_id = tk_id t,
     leaf_kind = kind_command, leaf_payload = encode_kv (task_fields tx t)\<rparr>"

section \<open>Parsing a task\<close>

type_synonym fields = "(string \<times> string) list"

definition task_keys :: "string list" where
  "task_keys = [''task'', ''domain'', ''command'', ''interval'', ''max-load1'', ''restart'', ''restart-min-delay'',
     ''restart-max-delay'', ''restart-max-attempts'', ''shutdown-grace'', ''pause-max-duration'', ''reason'']"

definition field :: "fields \<Rightarrow> string \<Rightarrow> string" where
  "field m k = (case map_of m k of None \<Rightarrow> [] | Some v \<Rightarrow> v)"

text \<open>The keys that are not valid for a domain.\<close>

fun forbidden_keys :: "domain \<Rightarrow> string list" where
  "forbidden_keys Scheduled = [''restart'', ''restart-min-delay'', ''restart-max-delay'', ''restart-max-attempts'',
     ''shutdown-grace'', ''pause-max-duration'', ''reason'']"
| "forbidden_keys User = [''interval'', ''max-load1'', ''restart'', ''restart-min-delay'', ''restart-max-delay'',
     ''restart-max-attempts'', ''shutdown-grace'', ''pause-max-duration'', ''reason'']"
| "forbidden_keys Service = [''interval'', ''max-load1'', ''pause-max-duration'', ''reason'']"
| "forbidden_keys Stoppable_service = [''interval'', ''max-load1'', ''reason'']"
| "forbidden_keys Rapid_service = [''interval'', ''max-load1'', ''restart-max-delay'', ''restart-max-attempts'',
     ''pause-max-duration'', ''reason'']"
| "forbidden_keys Disabled = [''interval'', ''max-load1'', ''restart'', ''restart-min-delay'', ''restart-max-delay'',
     ''restart-max-attempts'', ''shutdown-grace'', ''pause-max-duration'']"

definition check_keys :: "fields \<Rightarrow> task \<Rightarrow> pulse_error option" where
  "check_keys m t = (case find (\<lambda>k. map_of m k \<noteq> None) (forbidden_keys (tk_domain t)) of
     None \<Rightarrow> None | Some k \<Rightarrow> Some (Invalid_key (tk_id t) k))"

definition field_duration :: "texts \<Rightarrow> fields \<Rightarrow> string \<Rightarrow> string \<Rightarrow> bool \<Rightarrow> pulse_error + int" where
  "field_duration tx m i key required =
     (case map_of m key of
        None \<Rightarrow> if required then Inl (Missing_key i key) else Inr 0
      | Some raw \<Rightarrow>
          (case tx_parse_duration tx raw of
             None \<Rightarrow> Inl (Bad_duration i raw)
           | Some d \<Rightarrow> if d < 0 \<or> required \<and> d = 0 then Inl (Bad_duration i raw) else Inr d))"

definition default_grace :: "int \<Rightarrow> int" where
  "default_grace d = (if d = 0 then 30 * second else d)"

definition parse_service :: "texts \<Rightarrow> fields \<Rightarrow> task \<Rightarrow> pulse_error + task" where
  "parse_service tx m t =
     (if field m ''restart'' \<noteq> ''on-failure'' then Inl (Bad_restart (tk_id t))
      else case field_duration tx m (tk_id t) ''restart-min-delay'' True of
        Inl e \<Rightarrow> Inl e
      | Inr lo \<Rightarrow> (case field_duration tx m (tk_id t) ''restart-max-delay'' True of
          Inl e \<Rightarrow> Inl e
        | Inr hi \<Rightarrow>
            if hi < lo then Inl (Bad_delays (tk_id t))
            else (case atoi (field m ''restart-max-attempts'') of
                (n, ok) \<Rightarrow>
                  if \<not> ok \<or> n \<le> 0 then Inl (Bad_attempts (tk_id t))
                  else (case field_duration tx m (tk_id t) ''shutdown-grace'' False of
                      Inl e \<Rightarrow> Inl e
                    | Inr g \<Rightarrow> Inr (t\<lparr>tk_restart := ''on-failure'', tk_min_delay := lo, tk_max_delay := hi,
                        tk_max_attempts := n, tk_grace := default_grace g\<rparr>)))))"

fun load_ok :: "go_float \<Rightarrow> bool" where
  "load_ok (Finite a) = (a \<ge> 0)"
| "load_ok _ = False"

fun parse_domain :: "texts \<Rightarrow> fields \<Rightarrow> task \<Rightarrow> domain \<Rightarrow> pulse_error + task" where
  "parse_domain tx m t Scheduled =
     (case field_duration tx m (tk_id t) ''interval'' True of
        Inl e \<Rightarrow> Inl e
      | Inr d \<Rightarrow>
          (case map_of m ''max-load1'' of
             None \<Rightarrow> Inr (t\<lparr>tk_interval := d\<rparr>)
           | Some raw \<Rightarrow>
               (case tx_parse_float tx raw of
                  None \<Rightarrow> Inl (Bad_load (tk_id t) raw)
                | Some f \<Rightarrow> if load_ok f then Inr (t\<lparr>tk_interval := d, tk_max_load := Some f\<rparr>)
                           else Inl (Bad_load (tk_id t) raw))))"
| "parse_domain tx m t User = Inr t"
| "parse_domain tx m t Service = parse_service tx m t"
| "parse_domain tx m t Stoppable_service =
     (case parse_service tx m t of
        Inl e \<Rightarrow> Inl e
      | Inr t \<Rightarrow> (case field_duration tx m (tk_id t) ''pause-max-duration'' True of
          Inl e \<Rightarrow> Inl e | Inr d \<Rightarrow> Inr (t\<lparr>tk_pause := d\<rparr>)))"
| "parse_domain tx m t Rapid_service =
     (if field m ''restart'' \<noteq> ''always'' \<or> field m ''restart-min-delay'' \<noteq> ''0s'' then Inl (Bad_rapid (tk_id t))
      else case field_duration tx m (tk_id t) ''shutdown-grace'' False of
        Inl e \<Rightarrow> Inl e | Inr g \<Rightarrow> Inr (t\<lparr>tk_grace := default_grace g\<rparr>))"
| "parse_domain tx m t Disabled = Inr (t\<lparr>tk_reason := field m ''reason''\<rparr>)"

text \<open>\<^verbatim>\<open>parseTask\<close>; a disabled task's reason is checked before its other keys.\<close>

definition parse_task :: "texts \<Rightarrow> fields \<Rightarrow> pulse_error + task" where
  "parse_task tx m =
     (if \<not> list_all (\<lambda>(k, _). k \<in> set task_keys) m then Inl (Unknown_key (field m ''task'') [])
      else if field m ''task'' = [] \<or> field m ''domain'' = [] \<or> field m ''command'' = [] then Inl Missing_field
      else case domain_of (field m ''domain'') of
        None \<Rightarrow> Inl (Unknown_domain (field m ''task'') (field m ''domain''))
      | Some d \<Rightarrow>
          let t = new_task (field m ''task'') d (field m ''command'') in
          if d = Disabled \<and> field m ''reason'' = [] then Inl (No_reason (tk_id t))
          else (case check_keys m t of Some e \<Rightarrow> Inl e | None \<Rightarrow> parse_domain tx m t d))"

definition finish_task :: "texts \<Rightarrow> task list \<times> fields option \<Rightarrow> pulse_error + task list" where
  "finish_task tx st = (case st of
     (ts, None) \<Rightarrow> Inr ts
   | (ts, Some m) \<Rightarrow>
       (case parse_task tx m of
          Inl e \<Rightarrow> Inl e
        | Inr t \<Rightarrow> if tk_id t \<in> set (map tk_id ts) then Inl (Duplicate (tk_id t)) else Inr (ts @ [t])))"

definition task_line :: "texts \<Rightarrow> string \<Rightarrow> task list \<times> fields option \<Rightarrow> pulse_error + task list \<times> fields option" where
  "task_line tx raw st =
     (let line = trim_space raw in
      if line = [] then (case finish_task tx st of Inl e \<Rightarrow> Inl e | Inr ts \<Rightarrow> Inr (ts, None))
      else if has_prefix line ''#'' then Inr st
      else case cut (CHR '':'') line of
        (k, v, found) \<Rightarrow>
          let key = trim_space k in
          if \<not> found then Inl (Bad_line line)
          else (case (if key = ''task'' then map_sum id (\<lambda>ts. (ts, None)) (finish_task tx st) else Inr st) of
              Inl e \<Rightarrow> Inl e
            | Inr (ts, m) \<Rightarrow>
                if map_of (elems m) key \<noteq> None then Inl (Duplicate_key key)
                else Inr (ts, Some ((key, trim_space v) # elems m))))"

definition parse_tasks :: "texts \<Rightarrow> string \<Rightarrow> pulse_error + task list" where
  "parse_tasks tx text =
     (case scan_lines text of (ls, ok) \<Rightarrow>
        case fold_lines (task_line tx) ls ([], None) of
          Inl e \<Rightarrow> Inl e
        | Inr st \<Rightarrow>
            if \<not> ok then Inl Scan_failed
            else (case finish_task tx st of
                Inl e \<Rightarrow> Inl e
              | Inr ts \<Rightarrow> if ts = [] then Inl Nothing_defined else Inr ts))"

section \<open>What the parsers guarantee\<close>

definition job_ok :: "job \<Rightarrow> bool" where
  "job_ok j \<longleftrightarrow> jb_name j \<noteq> [] \<and> 0 < jb_interval j \<and> jb_command j \<noteq> []"

definition jobs_ok :: "job list \<Rightarrow> bool" where
  "jobs_ok js \<longleftrightarrow> list_all job_ok js \<and> distinct (map jb_name js)"

lemma finish_job_ok: "finish_job st = Inr js \<Longrightarrow> jobs_ok (fst st) \<Longrightarrow> jobs_ok js"
  by (cases st; cases "snd st") (auto simp: finish_job_def jobs_ok_def job_ok_def split: if_split_asm)

lemma fold_lines_inv:
  assumes "fold_lines f ls st = Inr st'" "P st" "\<And>l s s'. f l s = Inr s' \<Longrightarrow> P s \<Longrightarrow> P s'"
  shows "P st'"
  using assms(1,2) by (induction ls arbitrary: st) (auto intro: assms(3) split: sum.split_asm)

lemma job_line_ok: "job_line tx l st = Inr st' \<Longrightarrow> jobs_ok (fst st) \<Longrightarrow> jobs_ok (fst st')"
  unfolding job_line_def Let_def
  by (auto split: if_split_asm sum.split_asm option.split_asm prod.split_asm dest: finish_job_ok)

lemma parse_jobs_ok: "parse_jobs tx text = Inr js \<Longrightarrow> jobs_ok js \<and> js \<noteq> []"
proof -
  assume a: "parse_jobs tx text = Inr js"
  obtain ls ok where ls: "scan_lines text = (ls, ok)"
    by (cases "scan_lines text")
  with a obtain st where st: "fold_lines (job_line tx) ls ([], None) = Inr st"
    by (auto simp: parse_jobs_def split: sum.split_asm)
  with a ls have f: "finish_job st = Inr js" and n: "js \<noteq> []"
    by (auto simp: parse_jobs_def split: if_split_asm sum.split_asm)
  have "jobs_ok (fst st)"
    by (rule fold_lines_inv [OF st, of "\<lambda>st. jobs_ok (fst st)"], simp add: jobs_ok_def) (rule job_line_ok)
  with finish_job_ok [OF f] n show ?thesis
    by simp
qed

text \<open>A task carries the fields of its domain, in range, and nothing else.\<close>

fun domain_ok :: "task \<Rightarrow> domain \<Rightarrow> bool" where
  "domain_ok t Scheduled = (0 < tk_interval t \<and> (\<forall>f. tk_max_load t = Some f \<longrightarrow> load_ok f)
     \<and> t = (new_task (tk_id t) Scheduled (tk_command t))\<lparr>tk_interval := tk_interval t, tk_max_load := tk_max_load t\<rparr>)"
| "domain_ok t User = (t = new_task (tk_id t) User (tk_command t))"
| "domain_ok t Service = (0 < tk_min_delay t \<and> tk_min_delay t \<le> tk_max_delay t
     \<and> 0 < tk_max_attempts t \<and> tk_max_attempts t \<le> max_int64 \<and> 0 < tk_grace t
     \<and> t = (new_task (tk_id t) Service (tk_command t))\<lparr>tk_restart := ''on-failure'', tk_min_delay := tk_min_delay t,
         tk_max_delay := tk_max_delay t, tk_max_attempts := tk_max_attempts t, tk_grace := tk_grace t\<rparr>)"
| "domain_ok t Rapid_service = (0 < tk_grace t
     \<and> t = (new_task (tk_id t) Rapid_service (tk_command t))\<lparr>tk_grace := tk_grace t\<rparr>)"
| "domain_ok t Stoppable_service = (0 < tk_min_delay t \<and> tk_min_delay t \<le> tk_max_delay t
     \<and> 0 < tk_max_attempts t \<and> tk_max_attempts t \<le> max_int64 \<and> 0 < tk_grace t \<and> 0 < tk_pause t
     \<and> t = (new_task (tk_id t) Stoppable_service (tk_command t))\<lparr>tk_restart := ''on-failure'',
         tk_min_delay := tk_min_delay t, tk_max_delay := tk_max_delay t, tk_max_attempts := tk_max_attempts t,
         tk_grace := tk_grace t, tk_pause := tk_pause t\<rparr>)"
| "domain_ok t Disabled = (tk_reason t \<noteq> []
     \<and> t = (new_task (tk_id t) Disabled (tk_command t))\<lparr>tk_reason := tk_reason t\<rparr>)"

definition task_ok :: "task \<Rightarrow> bool" where
  "task_ok t \<longleftrightarrow> tk_id t \<noteq> [] \<and> tk_command t \<noteq> [] \<and> domain_ok t (tk_domain t)"

definition tasks_ok :: "task list \<Rightarrow> bool" where
  "tasks_ok ts \<longleftrightarrow> list_all task_ok ts \<and> distinct (map tk_id ts)"

lemma field_duration_InrD: "field_duration tx m i key required = Inr d \<Longrightarrow> 0 \<le> d \<and> (required \<longrightarrow> 0 < d)"
  by (auto simp: field_duration_def split: option.split_asm if_split_asm)

lemma default_grace_pos: "0 \<le> d \<Longrightarrow> 0 < default_grace d"
  by (simp add: default_grace_def second_def)

lemma parse_service_InrD:
  assumes "parse_service tx m t = Inr t'"
  obtains lo hi n g where "t' = t\<lparr>tk_restart := ''on-failure'', tk_min_delay := lo, tk_max_delay := hi,
      tk_max_attempts := n, tk_grace := g\<rparr>" "0 < lo" "lo \<le> hi" "0 < n" "n \<le> max_int64" "0 < g"
proof -
  obtain lo where lo: "field_duration tx m (tk_id t) ''restart-min-delay'' True = Inr lo"
    using assms by (auto simp: parse_service_def split: if_split_asm sum.split_asm)
  moreover obtain hi where hi: "field_duration tx m (tk_id t) ''restart-max-delay'' True = Inr hi"
    using assms lo by (auto simp: parse_service_def split: if_split_asm sum.split_asm)
  moreover obtain n ok where n: "atoi (field m ''restart-max-attempts'') = (n, ok)"
    by (cases "atoi (field m ''restart-max-attempts'')")
  moreover obtain g where g: "field_duration tx m (tk_id t) ''shutdown-grace'' False = Inr g"
    using assms lo hi n by (auto simp: parse_service_def split: if_split_asm sum.split_asm)
  ultimately have "t' = t\<lparr>tk_restart := ''on-failure'', tk_min_delay := lo, tk_max_delay := hi,
      tk_max_attempts := n, tk_grace := default_grace g\<rparr>" "lo \<le> hi" "0 < n"
    using assms by (auto simp: parse_service_def split: if_split_asm)
  then show thesis
    using that field_duration_InrD [OF lo] field_duration_InrD [OF g] default_grace_pos
      atoi_range [of "field m ''restart-max-attempts''"] n by simp
qed

lemma parse_domain_ok:
  assumes "parse_domain tx m (new_task i d c) d = Inr t" "d = Disabled \<longrightarrow> field m ''reason'' \<noteq> []"
  shows "domain_ok t d \<and> tk_id t = i \<and> tk_domain t = d \<and> tk_command t = c"
proof (cases d)
  case Scheduled
  obtain iv where iv: "field_duration tx m i ''interval'' True = Inr iv"
    using assms(1) by (cases "field_duration tx m i ''interval'' True") (simp_all add: Scheduled new_task_def)
  note iv0 = field_duration_InrD [OF iv]
  show ?thesis
  proof (cases "map_of m ''max-load1''")
    case None
    with assms(1) iv iv0 show ?thesis
      by (auto simp: Scheduled new_task_def)
  next
    case (Some raw)
    then obtain f where "tx_parse_float tx raw = Some f" "load_ok f"
      using assms(1) iv by (auto simp: Scheduled new_task_def split: option.split_asm if_split_asm)
    with assms(1) iv iv0 Some show ?thesis
      by (auto simp: Scheduled new_task_def)
  qed
next
  case Service
  with assms(1) have "parse_service tx m (new_task i Service c) = Inr t"
    by simp
  then show ?thesis
    by (rule parse_service_InrD) (simp add: Service new_task_def)
next
  case Stoppable_service
  with assms(1) obtain s where s: "parse_service tx m (new_task i d c) = Inr s"
    by (auto split: sum.split_asm)
  with assms(1) obtain p where p: "field_duration tx m (tk_id s) ''pause-max-duration'' True = Inr p"
    "t = s\<lparr>tk_pause := p\<rparr>"
    by (auto simp: Stoppable_service split: sum.split_asm)
  from s show ?thesis
    by (rule parse_service_InrD) (use p field_duration_InrD [OF p(1)] in \<open>simp add: Stoppable_service new_task_def\<close>)
next
  case Rapid_service
  with assms(1) obtain g where "field_duration tx m (tk_id (new_task i d c)) ''shutdown-grace'' False = Inr g"
    "t = (new_task i d c)\<lparr>tk_grace := default_grace g\<rparr>"
    by (auto split: sum.split_asm if_split_asm)
  with field_duration_InrD [of tx m _ "''shutdown-grace''" False g] default_grace_pos show ?thesis
    by (auto simp: Rapid_service new_task_def)
qed (use assms in \<open>auto simp: new_task_def\<close>)

lemma parse_task_ok: "parse_task tx m = Inr t \<Longrightarrow> task_ok t"
proof -
  assume a: "parse_task tx m = Inr t"
  then obtain d where d: "domain_of (field m ''domain'') = Some d" "field m ''task'' \<noteq> []" "field m ''command'' \<noteq> []"
    by (auto simp: parse_task_def split: if_split_asm option.split_asm)
  with a have "parse_domain tx m (new_task (field m ''task'') d (field m ''command'')) d = Inr t"
    "d = Disabled \<longrightarrow> field m ''reason'' \<noteq> []"
    by (auto simp: parse_task_def Let_def split: if_split_asm option.split_asm)
  from parse_domain_ok [OF this] d show ?thesis
    by (simp add: task_ok_def)
qed

lemma finish_task_ok: "finish_task tx st = Inr ts \<Longrightarrow> tasks_ok (fst st) \<Longrightarrow> tasks_ok ts"
  by (cases st; cases "snd st") (auto simp: finish_task_def tasks_ok_def parse_task_ok split: if_split_asm sum.split_asm)

lemma task_line_ok: "task_line tx l st = Inr st' \<Longrightarrow> tasks_ok (fst st) \<Longrightarrow> tasks_ok (fst st')"
  unfolding task_line_def Let_def
  by (cases "finish_task tx st") (auto split: if_split_asm sum.split_asm option.split_asm prod.split_asm dest: finish_task_ok)

lemma parse_tasks_ok: "parse_tasks tx text = Inr ts \<Longrightarrow> tasks_ok ts \<and> ts \<noteq> []"
proof -
  assume a: "parse_tasks tx text = Inr ts"
  obtain ls ok where ls: "scan_lines text = (ls, ok)"
    by (cases "scan_lines text")
  with a obtain st where st: "fold_lines (task_line tx) ls ([], None) = Inr st"
    by (auto simp: parse_tasks_def split: sum.split_asm)
  with a ls have f: "finish_task tx st = Inr ts" and n: "ts \<noteq> []"
    by (auto simp: parse_tasks_def split: if_split_asm sum.split_asm)
  have "tasks_ok (fst st)"
    by (rule fold_lines_inv [OF st, of "\<lambda>st. tasks_ok (fst st)"], simp add: tasks_ok_def) (rule task_line_ok)
  with finish_task_ok [OF f] n show ?thesis
    by simp
qed

section \<open>What the leaves commit to\<close>

definition job_sized :: "job \<Rightarrow> bool" where
  "job_sized j \<longleftrightarrow> kv_sized [(''command'', jb_command j)] \<and> leaf_sized (job_leaf j)"

interpretation job_item: committed_item job_leaf "\<lambda>j. (jb_name j, jb_command j)" job_sized "{''pulse''}"
proof
  fix x y assume s: "job_sized x" "job_sized y" and eq: "job_leaf x = job_leaf y"
  then have "encode_kv [(''command'', jb_command x)] = encode_kv [(''command'', jb_command y)]" "jb_name x = jb_name y"
    by (simp_all add: job_leaf_def)
  moreover from this s have "map_of [(''command'', jb_command x)] = map_of [(''command'', jb_command y)]"
    by (intro encode_kv_inj) (simp_all add: job_sized_def)
  from fun_cong [OF this, of "''command''"] have "jb_command x = jb_command y"
    by simp
  ultimately show "(jb_name x, jb_command x) = (jb_name y, jb_command y)"
    by simp
qed (simp_all add: job_sized_def job_leaf_def)

text \<open>What \<^verbatim>\<open>Duration.String\<close>, \<^verbatim>\<open>Itoa\<close> and \<^verbatim>\<open>FormatFloat\<close> with the shortest exact precision promise: different values are
  written differently, and no number is written \<^verbatim>\<open>absent\<close>.\<close>

definition texts_ok :: "texts \<Rightarrow> bool" where
  "texts_ok tx \<longleftrightarrow> inj (tx_show_duration tx) \<and> inj (tx_show_int tx) \<and> inj (tx_show_float tx)
     \<and> (\<forall>f. tx_show_float tx f \<noteq> ''absent'')"

definition task_sized :: "texts \<Rightarrow> task \<Rightarrow> bool" where
  "task_sized tx t \<longleftrightarrow> kv_sized (task_fields tx t) \<and> leaf_sized (task_leaf tx t)"

lemma domain_name_inj: "domain_name d = domain_name d' \<Longrightarrow> d = d'"
  by (cases d; cases d'; simp)

lemma max_load_inj:
  assumes "texts_ok tx" "(case l of None \<Rightarrow> ''absent'' | Some f \<Rightarrow> tx_show_float tx f)
    = (case l' of None \<Rightarrow> ''absent'' | Some f \<Rightarrow> tx_show_float tx f)"
  shows "l = l'"
proof -
  have "tx_show_float tx f \<noteq> ''absent''" "''absent'' \<noteq> tx_show_float tx f" for f
    using assms(1) unfolding texts_ok_def by metis+
  moreover have "tx_show_float tx f = tx_show_float tx g \<Longrightarrow> f = g" for f g
    using assms(1) unfolding texts_ok_def by (metis injD)
  ultimately show ?thesis
    using assms(2) by (cases l; cases l') auto
qed

lemma domain_fields_inj:
  assumes tx: "texts_ok tx" and ok: "domain_ok t d" "domain_ok t' d" and ids: "tk_id t = tk_id t'" "tk_command t = tk_command t'"
    and eq: "\<And>k. k \<noteq> ''domain'' \<Longrightarrow> k \<noteq> ''command'' \<Longrightarrow> map_of (domain_fields tx t d) k = map_of (domain_fields tx t' d) k"
  shows "t = t'"
proof -
  have dur: "tx_show_duration tx a = tx_show_duration tx b \<Longrightarrow> a = b" for a b
    using tx unfolding texts_ok_def by (metis injD)
  have int: "tx_show_int tx a = tx_show_int tx b \<Longrightarrow> a = b" for a b
    using tx unfolding texts_ok_def by (metis injD)
  show ?thesis
  proof (cases d)
    case Scheduled
    have "tk_interval t = tk_interval t'"
      using eq [of "''interval''"] by (auto simp: Scheduled intro: dur)
    moreover have "tk_max_load t = tk_max_load t'"
      using eq [of "''max-load1''"] tx by (intro max_load_inj) (auto simp: Scheduled)
    ultimately show ?thesis
      using ok ids unfolding Scheduled domain_ok.simps by metis
  next
    case User
    then show ?thesis
      using ok ids unfolding User domain_ok.simps by metis
  next
    case Service
    have "tk_min_delay t = tk_min_delay t'" "tk_max_delay t = tk_max_delay t'" "tk_max_attempts t = tk_max_attempts t'"
      "tk_grace t = tk_grace t'"
      using eq [of "''restart-min-delay''"] eq [of "''restart-max-delay''"] eq [of "''restart-max-attempts''"]
        eq [of "''shutdown-grace''"] by (auto simp: Service service_fields_def intro: dur int)
    then show ?thesis
      using ok ids unfolding Service domain_ok.simps by metis
  next
    case Rapid_service
    have "tk_grace t = tk_grace t'"
      using eq [of "''shutdown-grace''"] by (auto simp: Rapid_service intro: dur)
    then show ?thesis
      using ok ids unfolding Rapid_service domain_ok.simps by metis
  next
    case Stoppable_service
    have "tk_min_delay t = tk_min_delay t'" "tk_max_delay t = tk_max_delay t'" "tk_max_attempts t = tk_max_attempts t'"
      "tk_grace t = tk_grace t'" "tk_pause t = tk_pause t'"
      using eq [of "''restart-min-delay''"] eq [of "''restart-max-delay''"] eq [of "''restart-max-attempts''"]
        eq [of "''shutdown-grace''"] eq [of "''pause-max-duration''"]
      by (auto simp: Stoppable_service service_fields_def intro: dur int)
    then show ?thesis
      using ok ids unfolding Stoppable_service domain_ok.simps by metis
  next
    case Disabled
    have "tk_reason t = tk_reason t'"
      using eq [of "''reason''"] by (auto simp: Disabled)
    then show ?thesis
      using ok ids unfolding Disabled domain_ok.simps by metis
  qed
qed

lemma task_leaf_inj:
  assumes "texts_ok tx" "task_ok t" "task_ok t'" "task_sized tx t" "task_sized tx t'" "task_leaf tx t = task_leaf tx t'"
  shows "t = t'"
proof -
  have d: "tk_domain t' = tk_domain t" and i: "tk_id t = tk_id t'"
    using assms(6) domain_name_inj by (auto simp: task_leaf_def)
  have "map_of (task_fields tx t) = map_of (task_fields tx t')"
    using assms(4-6) by (intro encode_kv_inj) (auto simp: task_leaf_def task_sized_def)
  note eq = fun_cong [OF this, unfolded task_fields_def]
  have "tk_command t = tk_command t'"
    using eq [of "''command''"] by simp
  moreover have "map_of (domain_fields tx t (tk_domain t)) k = map_of (domain_fields tx t' (tk_domain t)) k"
    if "k \<noteq> ''domain''" "k \<noteq> ''command''" for k
    using eq [of k] that d by simp
  ultimately show ?thesis
    using assms(1-3) d i by (intro domain_fields_inj [of tx t "tk_domain t"]) (auto simp: task_ok_def)
qed

interpretation task_item: committed_item "task_leaf tx" "\<lambda>t. t"
  "\<lambda>t. texts_ok tx \<and> task_ok t \<and> task_sized tx t" "range (\<lambda>d. ''pulse/task/'' @ domain_name d)"
  for tx :: texts
proof
  fix x y assume "texts_ok tx \<and> task_ok x \<and> task_sized tx x" "texts_ok tx \<and> task_ok y \<and> task_sized tx y"
    "task_leaf tx x = task_leaf tx y"
  then show "x = y"
    by (intro task_leaf_inj [of tx]) simp_all
next
  fix x assume "texts_ok tx \<and> task_ok x \<and> task_sized tx x"
  then show "leaf_sized (task_leaf tx x)"
    by (simp add: task_sized_def)
  show "leaf_tool (task_leaf tx x) \<in> range (\<lambda>d. ''pulse/task/'' @ domain_name d)"
    by (auto simp: task_leaf_def)
qed

section \<open>Properties\<close>

text \<open>C31: Every task the strict parser lets through is well formed: its ID and command are not empty, IDs are
  unique, and it has exactly the fields of its domain, in range (positive durations, ordered restart
  delays, a positive number of attempts, a finite non-negative load limit), all others unset.\<close>

theorem parsed_tasks_well_formed:
  assumes "parse_tasks tx text = Inr ts"
  shows "ts \<noteq> [] \<and> distinct (map tk_id ts) \<and> (\<forall>t \<in> set ts. tk_id t \<noteq> [] \<and> tk_command t \<noteq> [] \<and> domain_ok t (tk_domain t))"
  using parse_tasks_ok [OF assms] by (auto simp: tasks_ok_def task_ok_def list_all_iff)

definition sample_texts :: texts where
  "sample_texts = \<lparr>tx_parse_duration = (\<lambda>s. if s = ''2s'' then Some (2 * second) else None), tx_show_duration = (\<lambda>d. []),
     tx_parse_float = (\<lambda>s. None), tx_show_float = (\<lambda>f. []), tx_show_int = (\<lambda>i. [])\<rparr>"

definition nl :: string where
  "nl = [CHR 0x0A]"

definition sample_text :: string where
  "sample_text = ''# tasks'' @ nl @ ''task: a'' @ nl @ ''domain: user'' @ nl @ ''command: x y'' @ nl @ nl
     @ ''task: b'' @ nl @ ''domain: scheduled'' @ nl @ ''command: z'' @ nl @ ''interval: 2s''"

definition sample_lines :: "string list" where
  "sample_lines = [''# tasks'', ''task: a'', ''domain: user'', ''command: x y'', [], ''task: b'', ''domain: scheduled'',
     ''command: z'', ''interval: 2s'']"

lemma sample_scan: "scan_lines sample_text = (sample_lines, True)"
  by (simp add: scan_lines_def raw_lines_def sample_text_def sample_lines_def nl_def max_scan_token_size_def Let_def
    drop_cr_def trim_suffix_def has_suffix_def)

lemma sample_fold: "fold_lines (task_line sample_texts) sample_lines ([], None)
    = Inr ([new_task ''a'' User ''x y''], Some [(''interval'', ''2s''), (''command'', ''z''), (''domain'', ''scheduled''), (''task'', ''b'')])"
  by code_simp

lemma sample_finish: "finish_task sample_texts ([new_task ''a'' User ''x y''],
    Some [(''interval'', ''2s''), (''command'', ''z''), (''domain'', ''scheduled''), (''task'', ''b'')])
    = Inr [new_task ''a'' User ''x y'', (new_task ''b'' Scheduled ''z'')\<lparr>tk_interval := 2 * second\<rparr>]"
  by code_simp

lemma sample_parse: "parse_tasks sample_texts sample_text
    = Inr [new_task ''a'' User ''x y'', (new_task ''b'' Scheduled ''z'')\<lparr>tk_interval := 2 * second\<rparr>]"
  by (simp add: parse_tasks_def sample_scan sample_fold sample_finish)

lemma parsed_tasks_well_formed_witness:
  "distinct (map tk_id [new_task ''a'' User ''x y'', (new_task ''b'' Scheduled ''z'')\<lparr>tk_interval := 2 * second\<rparr>])"
  using parsed_tasks_well_formed [OF sample_parse] by blast

end
