(* ===== verification/Pulse.thy ===== *)
theory Pulse
  imports Pulse_Config Interpose_Core
begin

text \<open>
  The \<^verbatim>\<open>pulse\<close> daemon: the verification of jobs and tasks against the anchor, the scheduler's \<^verbatim>\<open>fire\<close>, the
  supervisor of services with its restarts and back-off, the environment of children, and start-up.
  What happens around a firing or a round of a service (the anchor and proof file read at that
  moment, the load, the end of the command, cancellation) is a record of answers.
\<close>

section \<open>Verification\<close>

record evidence =
  ev_root :: "anchor_error + hash"
  ev_proof :: file_outcome

datatype reason = Not_adopted | No_proof_file | Bad_proof_file | No_entry | Leaf_mismatch

datatype verdict = Accept | Reject reason | Check_error

definition check_leaf :: "(bytes \<Rightarrow> hash) \<Rightarrow> (bytes \<Rightarrow> proof_file_json option) \<Rightarrow> leaf \<Rightarrow> hash \<Rightarrow> file_outcome \<Rightarrow> verdict" where
  "check_leaf H decp l anchored proof =
     (case proof of
        File_data b \<Rightarrow>
          (case decode_proof_data decp b of
             None \<Rightarrow> Reject Bad_proof_file
           | Some pf \<Rightarrow>
               (case map_of (pf_entries pf) (leaf_key l) of
                  None \<Rightarrow> Reject No_entry
                | Some p \<Rightarrow> if verify_proof H l p anchored then Accept else Reject Leaf_mismatch))
      | _ \<Rightarrow> Reject No_proof_file)"

definition verify_job :: "(bytes \<Rightarrow> hash) \<Rightarrow> (bytes \<Rightarrow> proof_file_json option) \<Rightarrow> evidence \<Rightarrow> job \<Rightarrow> verdict" where
  "verify_job H decp e j =
     (case ev_root e of
        Inl AnchorNotInstalled \<Rightarrow> Accept
      | Inl _ \<Rightarrow> Check_error
      | Inr anchored \<Rightarrow> check_leaf H decp (job_leaf j) anchored (ev_proof e))"

definition verify_task :: "(bytes \<Rightarrow> hash) \<Rightarrow> (bytes \<Rightarrow> proof_file_json option) \<Rightarrow> texts \<Rightarrow> evidence \<Rightarrow> task \<Rightarrow> verdict" where
  "verify_task H decp tx e t =
     (case ev_root e of
        Inl AnchorNotInstalled \<Rightarrow> Reject Not_adopted
      | Inl _ \<Rightarrow> Check_error
      | Inr anchored \<Rightarrow> check_leaf H decp (task_leaf tx t) anchored (ev_proof e))"

section \<open>Running a command\<close>

datatype run_end = Exited int | Run_failed

definition run_end_of :: "child \<Rightarrow> run_end" where
  "run_end_of c = (case c of
     Child_ok _ \<Rightarrow> Exited 0
   | Child_exited n _ \<Rightarrow> Exited n
   | Child_signalled _ \<Rightarrow> Exited (-1)
   | Child_opaque _ \<Rightarrow> Exited 1
   | Child_not_started \<Rightarrow> Run_failed)"

fun set_env :: "string list \<Rightarrow> string \<Rightarrow> string \<Rightarrow> string list" where
  "set_env [] key v = [key @ ''='' @ v]"
| "set_env (e # es) key v =
     (if has_prefix e (key @ ''='') then (key @ ''='' @ v) # es else e # set_env es key v)"

definition no_proxy_defaults :: "string list" where
  "no_proxy_defaults = [''localhost'', ''127.0.0.1'', ''::1'', ''*.local'']"

fun extra_hosts :: "string list \<Rightarrow> string list \<Rightarrow> string list" where
  "extra_hosts seen [] = []"
| "extra_hosts seen (h # hs) =
     (let h = trim_space h in
      if h \<noteq> [] \<and> h \<notin> set seen then h # extra_hosts (h # seen) hs else extra_hosts seen hs)"

definition merge_no_proxy :: "string \<Rightarrow> string" where
  "merge_no_proxy existing = join '','' (no_proxy_defaults
     @ (if existing \<noteq> [] then extra_hosts no_proxy_defaults (split_on (CHR '','') existing) else []))"

definition env_value :: "string list \<Rightarrow> string \<Rightarrow> string" where
  "env_value env key = (case find (\<lambda>e. has_prefix e (key @ ''='')) env of
     None \<Rightarrow> [] | Some e \<Rightarrow> trim_prefix e (key @ ''=''))"

definition proxypass_env :: "string list \<Rightarrow> string \<Rightarrow> string list" where
  "proxypass_env base url =
     set_env (set_env (set_env base ''HTTP_PROXY'' url) ''HTTPS_PROXY'' url) ''NO_PROXY''
       (merge_no_proxy (env_value base ''NO_PROXY''))"

definition run_shell :: "(string list \<Rightarrow> string list \<Rightarrow> child) \<Rightarrow> string list \<Rightarrow> string \<Rightarrow> string \<Rightarrow> run_end" where
  "run_shell spawn env url cmd =
     run_end_of (spawn [''sh'', ''-c'', cmd] (if url \<noteq> [] then proxypass_env env url else env))"

definition parse_loadavg :: "texts \<Rightarrow> string \<Rightarrow> go_float option" where
  "parse_loadavg tx s =
     (case str_fields (trim_suffix (trim_prefix (trim_space s) ''{'') ''}'') of
        [] \<Rightarrow> None | f # _ \<Rightarrow> tx_parse_float tx f)"

section \<open>The scheduler\<close>

record moment =
  mo_evidence :: evidence
  mo_load :: "go_float option"
  mo_run :: "string \<Rightarrow> run_end"

datatype pulse_event = Check_failed string | Not_verified string reason | Load_failed string
  | Skipped string | Started string string | Run_error string | Done string int

text \<open>\<^verbatim>\<open>fire\<close>; \<open>verifying\<close> is whether the scheduler has a verifier (\<^verbatim>\<open>main\<close> always sets one).\<close>

definition fire :: "(bytes \<Rightarrow> hash) \<Rightarrow> (bytes \<Rightarrow> proof_file_json option) \<Rightarrow> bool \<Rightarrow> moment \<Rightarrow> job \<Rightarrow> pulse_event list" where
  "fire H decp verifying mo j =
     (case (if verifying then verify_job H decp (mo_evidence mo) j else Accept) of
        Check_error \<Rightarrow> [Check_failed (jb_name j)]
      | Reject r \<Rightarrow> [Not_verified (jb_name j) r]
      | Accept \<Rightarrow>
          let run = Started (jb_name j) (jb_command j) # (case mo_run mo (jb_command j) of
                Run_failed \<Rightarrow> [Run_error (jb_name j)] | Exited n \<Rightarrow> [Done (jb_name j) n]) in
          (case jb_max_load j of
             None \<Rightarrow> run
           | Some limit \<Rightarrow>
               (case mo_load mo of
                  None \<Rightarrow> [Load_failed (jb_name j)]
                | Some load \<Rightarrow> if float_greater load limit then [Skipped (jb_name j)] else run)))"

text \<open>The firings of a run in the order the tickers delivered them.\<close>

definition scheduler_run :: "(bytes \<Rightarrow> hash) \<Rightarrow> (bytes \<Rightarrow> proof_file_json option) \<Rightarrow> (job \<times> moment) list
    \<Rightarrow> pulse_event list" where
  "scheduler_run H decp ticks = concat (map (\<lambda>(j, mo). fire H decp True mo j) ticks)"

section \<open>The supervisor\<close>

record round =
  rd_cancelled :: bool
  rd_evidence :: evidence
  rd_end :: run_end
  rd_cancelled_after :: bool
  rd_slept :: bool

datatype service_event = Service_unchecked string | Service_rejected string reason | Rapid_warning string string
  | Service_start string string | Service_error string | Rapid_restarts string int int
  | Limit_exhausted string | Retry string int int int int | Service_finished string

text \<open>int64 arithmetic of \<^verbatim>\<open>delay *= 2\<close>.\<close>

definition wrap64 :: "int \<Rightarrow> int" where
  "wrap64 v = (v + 2 ^ 63) mod 2 ^ 64 - 2 ^ 63"

fun backoff_from :: "nat \<Rightarrow> int \<Rightarrow> int \<Rightarrow> int" where
  "backoff_from 0 hi d = d"
| "backoff_from (Suc n) hi d =
     (if d < hi then backoff_from n hi (if wrap64 (d * 2) > hi then hi else wrap64 (d * 2)) else d)"

definition backoff :: "task \<Rightarrow> int \<Rightarrow> int" where
  "backoff t attempts = backoff_from (nat (attempts - 1)) (tk_max_delay t) (tk_min_delay t)"

definition exit_code :: "run_end \<Rightarrow> int" where
  "exit_code e = (case e of Exited n \<Rightarrow> n | Run_failed \<Rightarrow> 0)"

text \<open>One round of the loop of \<^verbatim>\<open>runService\<close>: its log, and the attempts the next round starts with, \<open>None\<close>
  when the function returns.\<close>

definition service_round :: "(bytes \<Rightarrow> hash) \<Rightarrow> (bytes \<Rightarrow> proof_file_json option) \<Rightarrow> texts \<Rightarrow> task \<Rightarrow> int \<Rightarrow> round
    \<Rightarrow> service_event list \<times> int option" where
  "service_round H decp tx t attempts r =
     (if rd_cancelled r then ([], None)
      else case verify_task H decp tx (rd_evidence r) t of
        Check_error \<Rightarrow> ([Service_unchecked (tk_id t)], None)
      | Reject why \<Rightarrow> ([Service_rejected (tk_id t) why], None)
      | Accept \<Rightarrow>
          let started = (if tk_domain t = Rapid_service \<and> attempts = 0 then [Rapid_warning (tk_id t) (tk_command t)] else [])
                @ [Service_start (tk_id t) (tk_command t)]
                @ (if rd_end r = Run_failed then [Service_error (tk_id t)] else []);
              code = exit_code (rd_end r); n = attempts + 1 in
          if rd_cancelled_after r then (started, None)
          else if tk_domain t = Rapid_service then
            (started @ (if n = 1 \<or> n mod 1000 = 0 then [Rapid_restarts (tk_id t) n code] else []), Some n)
          else if rd_end r = Run_failed \<or> code \<noteq> 0 then
            (if n > tk_max_attempts t then (started @ [Limit_exhausted (tk_id t)], None)
             else (started @ [Retry (tk_id t) code n (tk_max_attempts t) (backoff t n)],
                   if rd_slept r then Some n else None))
          else (started @ [Service_finished (tk_id t)], None))"

text \<open>The loop. It may run for ever; \<open>None\<close> is not returning.\<close>

partial_function (option) run_service :: "(bytes \<Rightarrow> hash) \<Rightarrow> (bytes \<Rightarrow> proof_file_json option) \<Rightarrow> texts \<Rightarrow> task
    \<Rightarrow> (nat \<Rightarrow> round) \<Rightarrow> nat \<Rightarrow> int \<Rightarrow> service_event list option" where
  "run_service H decp tx t rounds i attempts =
     (case service_round H decp tx t attempts (rounds i) of
        (es, None) \<Rightarrow> Some es
      | (es, Some n) \<Rightarrow> Option.bind (run_service H decp tx t rounds (Suc i) n) (\<lambda>rest. Some (es @ rest)))"

text \<open>The first \<open>k\<close> rounds, and the attempts of the next one if the loop is still running.\<close>

fun service_prefix :: "(bytes \<Rightarrow> hash) \<Rightarrow> (bytes \<Rightarrow> proof_file_json option) \<Rightarrow> texts \<Rightarrow> task
    \<Rightarrow> (nat \<Rightarrow> round) \<Rightarrow> nat \<Rightarrow> service_event list \<times> int option" where
  "service_prefix H decp tx t rounds 0 = ([], Some 0)"
| "service_prefix H decp tx t rounds (Suc k) =
     (case service_prefix H decp tx t rounds k of
        (es, None) \<Rightarrow> (es, None)
      | (es, Some n) \<Rightarrow> (case service_round H decp tx t n (rounds k) of (es', r) \<Rightarrow> (es @ es', r)))"

definition is_service :: "domain \<Rightarrow> bool" where
  "is_service d \<longleftrightarrow> d = Service \<or> d = Rapid_service \<or> d = Stoppable_service"

definition supervised :: "task list \<Rightarrow> task list" where
  "supervised ts = filter (\<lambda>t. is_service (tk_domain t)) ts"

section \<open>Start-up\<close>

datatype 'a loading = Load_missing | Load_error | Loaded 'a

datatype pulse_start = Exit int | Once "job list" | Daemon "job list" "task list"

text \<open>\<^verbatim>\<open>main\<close> up to the loops: \<open>default_path\<close> is whether \<^verbatim>\<open>-config\<close> has its default value, \<open>proxy\<close> whether the
  proxy asked for starts (\<open>None\<close>: not asked for).\<close>

definition load_file :: "(string \<Rightarrow> pulse_error + 'a) \<Rightarrow> file_outcome \<Rightarrow> 'a loading" where
  "load_file parse f = (case f of
     File_missing \<Rightarrow> Load_missing
   | File_failed \<Rightarrow> Load_error
   | File_data b \<Rightarrow> (case parse (string_of b) of Inl _ \<Rightarrow> Load_error | Inr x \<Rightarrow> Loaded x))"

definition loaded_list :: "'a list loading \<Rightarrow> 'a list" where
  "loaded_list l = (case l of Loaded xs \<Rightarrow> xs | _ \<Rightarrow> [])"

definition pulse_main :: "texts \<Rightarrow> file_outcome \<Rightarrow> bool \<Rightarrow> file_outcome \<Rightarrow> bool \<Rightarrow> bool option \<Rightarrow> pulse_start" where
  "pulse_main tx config default_path task_config once proxy =
     (let jobs = load_file (parse_jobs tx) config; tasks = load_file (parse_tasks tx) task_config in
      if jobs = Load_error \<or> jobs = Load_missing \<and> \<not> default_path then Exit 2
      else if tasks = Load_error then Exit 2
      else if loaded_list jobs = [] \<and> loaded_list tasks = [] then Exit 2
      else if once \<and> loaded_list jobs = [] then Exit 2
      else if proxy = Some False then Exit 1
      else if once then Once (loaded_list jobs)
      else Daemon (loaded_list jobs) (loaded_list tasks))"

section \<open>Only committed commands run\<close>

lemma check_leaf_Accept: "check_leaf H decp l anchored proof = Accept \<longleftrightarrow>
    (\<exists>p. presented_proof decp proof (leaf_key l) = Some p \<and> verify_proof H l p anchored)"
  by (auto simp: check_leaf_def presented_proof_def split: file_outcome.splits option.splits)

lemma verify_job_Accept: "verify_job H decp e j = Accept \<longleftrightarrow> ev_root e = Inl AnchorNotInstalled
    \<or> (\<exists>anchored p. ev_root e = Inr anchored \<and> presented_proof decp (ev_proof e) (leaf_key (job_leaf j)) = Some p
        \<and> verify_proof H (job_leaf j) p anchored)"
  by (auto simp: verify_job_def check_leaf_Accept split: sum.splits anchor_error.splits)

lemma verify_task_Accept: "verify_task H decp tx e t = Accept \<longleftrightarrow>
    (\<exists>anchored p. ev_root e = Inr anchored \<and> presented_proof decp (ev_proof e) (leaf_key (task_leaf tx t)) = Some p
        \<and> verify_proof H (task_leaf tx t) p anchored)"
  by (auto simp: verify_task_def check_leaf_Accept split: sum.splits anchor_error.splits)

lemma fire_started: "Started n c \<in> set (fire H decp verifying mo j) \<longleftrightarrow>
    n = jb_name j \<and> c = jb_command j \<and> (verifying \<longrightarrow> verify_job H decp (mo_evidence mo) j = Accept)
    \<and> (\<forall>limit. jb_max_load j = Some limit \<longrightarrow> (\<exists>load. mo_load mo = Some load \<and> \<not> float_greater load limit))"
  by (auto simp: fire_def Let_def split: verdict.splits option.splits run_end.splits)

lemma float_greater_Nan [simp]: "\<not> float_greater x Nan"
  by (cases x) simp_all

text \<open>A legacy job whose limit is not a number is never held back.\<close>

lemma nan_limit_never_skips: "jb_max_load j = Some Nan \<Longrightarrow> Skipped n \<notin> set (fire H decp verifying mo j)"
  by (auto simp: fire_def Let_def split: verdict.splits option.splits run_end.splits)

fun is_start :: "service_event \<Rightarrow> bool" where
  "is_start (Service_start _ _) = True"
| "is_start _ = False"

definition starts :: "service_event list \<Rightarrow> nat" where
  "starts es = length (filter is_start es)"

lemma starts_append [simp]: "starts (es @ es') = starts es + starts es'"
  by (simp add: starts_def)

lemma starts_simps [simp]: "starts [] = 0" "starts (e # es) = (if is_start e then Suc (starts es) else starts es)"
  by (simp_all add: starts_def)

lemma service_round_start: "Service_start i c \<in> set (fst (service_round H decp tx t n r))
    \<Longrightarrow> verify_task H decp tx (rd_evidence r) t = Accept \<and> i = tk_id t \<and> c = tk_command t"
  by (auto simp: service_round_def Let_def split: verdict.split_asm if_split_asm)

lemma service_round_starts: "starts (fst (service_round H decp tx t n r)) \<le> 1"
  by (auto simp: service_round_def Let_def split: verdict.split)

lemma service_round_next:
  "service_round H decp tx t n r = (es, Some n') \<Longrightarrow> tk_domain t \<noteq> Rapid_service
     \<Longrightarrow> n' = n + 1 \<and> n' \<le> tk_max_attempts t"
  by (auto simp: service_round_def Let_def split: verdict.split_asm if_split_asm)

section \<open>Restarts\<close>

lemma run_service_step:
  "run_service H decp tx t rounds i n =
     (case service_round H decp tx t n (rounds i) of
        (es, None) \<Rightarrow> Some es
      | (es, Some n') \<Rightarrow> (case run_service H decp tx t rounds (Suc i) n' of None \<Rightarrow> None | Some rest \<Rightarrow> Some (es @ rest)))"
  by (subst run_service.simps) (simp split: prod.split option.split)

lemma run_service_returns:
  assumes "tk_domain t \<noteq> Rapid_service"
  shows "\<exists>es. run_service H decp tx t rounds i n = Some es \<and> starts es \<le> nat (tk_max_attempts t - n) + 1"
proof (induction "nat (tk_max_attempts t - n)" arbitrary: n i rule: less_induct)
  case less
  obtain es r where r: "service_round H decp tx t n (rounds i) = (es, r)"
    by (cases "service_round H decp tx t n (rounds i)")
  have one: "starts es \<le> 1"
    using service_round_starts [of H decp tx t n "rounds i"] by (simp add: r)
  show ?case
  proof (cases r)
    case None
    with r one show ?thesis
      by (subst run_service_step) simp
  next
    case (Some n')
    with r service_round_next [OF _ assms] have n': "n' = n + 1" "n' \<le> tk_max_attempts t"
      by auto
    then obtain rest where "run_service H decp tx t rounds (Suc i) n' = Some rest"
      "starts rest \<le> nat (tk_max_attempts t - n') + 1"
      using less [of n' "Suc i"] by auto
    with r Some one n' show ?thesis
      by (subst run_service_step) simp
  qed
qed

text \<open>A service that fails every time, with nothing else interfering.\<close>

definition failing :: "(bytes \<Rightarrow> hash) \<Rightarrow> (bytes \<Rightarrow> proof_file_json option) \<Rightarrow> texts \<Rightarrow> task \<Rightarrow> round \<Rightarrow> bool" where
  "failing H decp tx t r \<longleftrightarrow> \<not> rd_cancelled r \<and> \<not> rd_cancelled_after r \<and> rd_slept r
     \<and> verify_task H decp tx (rd_evidence r) t = Accept \<and> rd_end r \<noteq> Exited 0"

lemma failing_nonzero: "rd_end r \<noteq> Exited 0 \<Longrightarrow> rd_end r = Run_failed \<or> exit_code (rd_end r) \<noteq> 0"
  by (cases "rd_end r") (simp_all add: exit_code_def)

lemma service_round_failing:
  assumes "tk_domain t \<noteq> Rapid_service" "failing H decp tx t r"
  shows "\<exists>es. service_round H decp tx t n r = (if n + 1 > tk_max_attempts t then (es @ [Limit_exhausted (tk_id t)], None)
      else (es @ [Retry (tk_id t) (exit_code (rd_end r)) (n + 1) (tk_max_attempts t) (backoff t (n + 1))], Some (n + 1)))
    \<and> starts es = 1"
  using assms failing_nonzero [of r] by (auto simp: service_round_def failing_def Let_def)

lemma run_service_failing:
  assumes "tk_domain t \<noteq> Rapid_service" "\<And>i. failing H decp tx t (rounds i)" "n \<le> tk_max_attempts t"
  shows "\<exists>es. run_service H decp tx t rounds i n = Some (es @ [Limit_exhausted (tk_id t)])
    \<and> starts es = nat (tk_max_attempts t - n) + 1"
  using assms(3)
proof (induction "nat (tk_max_attempts t - n)" arbitrary: n i rule: less_induct)
  case less
  obtain es where es: "service_round H decp tx t n (rounds i) = (if n + 1 > tk_max_attempts t then (es @ [Limit_exhausted (tk_id t)], None)
      else (es @ [Retry (tk_id t) (exit_code (rd_end (rounds i))) (n + 1) (tk_max_attempts t) (backoff t (n + 1))], Some (n + 1)))"
    "starts es = 1"
    using service_round_failing [OF assms(1,2)] by blast
  show ?case
  proof (cases "n + 1 > tk_max_attempts t")
    case True
    with es less.prems show ?thesis
      by (subst run_service_step) simp
  next
    case False
    then obtain rest where "run_service H decp tx t rounds (Suc i) (n + 1) = Some (rest @ [Limit_exhausted (tk_id t)])"
      "starts rest = nat (tk_max_attempts t - (n + 1)) + 1"
      using less.hyps [of "n + 1" "Suc i"] by auto
    with es False show ?thesis
      by (subst run_service_step) simp
  qed
qed

text \<open>A rapid service runs on.\<close>

lemma rapid_runs_on:
  assumes "tk_domain t = Rapid_service"
    and "\<And>i. \<not> rd_cancelled (rounds i)" "\<And>i. \<not> rd_cancelled_after (rounds i)"
    and "\<And>i. verify_task H decp tx (rd_evidence (rounds i)) t = Accept"
  shows "\<exists>es. service_prefix H decp tx t rounds k = (es, Some (int k)) \<and> starts es = k"
proof (induction k)
  case (Suc k)
  then obtain es where "service_prefix H decp tx t rounds k = (es, Some (int k))" "starts es = k"
    by blast
  moreover obtain es' where "service_round H decp tx t (int k) (rounds k) = (es', Some (int k + 1))" "starts es' = 1"
    using assms by (auto simp: service_round_def Let_def)
  ultimately show ?case
    by simp
qed simp

section \<open>Back-off\<close>

lemma wrap64_id: "- (2 ^ 63) \<le> v \<Longrightarrow> v < 2 ^ 63 \<Longrightarrow> wrap64 v = v"
  by (simp add: wrap64_def)

lemma backoff_from_closed:
  assumes "0 < d" "d \<le> hi" "hi < 2 ^ 62"
  shows "backoff_from n hi d = min (d * 2 ^ n) hi"
  using assms(1,2)
proof (induction n arbitrary: d)
  case (Suc n)
  have grow: "e \<le> e * 2 ^ n" if "0 < e" for e :: int
    using that by simp
  show ?case
  proof (cases "d < hi")
    case True
    have "wrap64 (d * 2) = d * 2"
      using Suc.prems assms(3) by (intro wrap64_id) simp_all
    moreover have "backoff_from n hi hi = hi"
      using Suc.IH [of hi] Suc.prems grow [of hi] by simp
    moreover have "backoff_from n hi (d * 2) = min (d * 2 ^ Suc n) hi" if "d * 2 \<le> hi"
      using Suc.IH [of "d * 2"] Suc.prems that by (simp add: mult.assoc)
    moreover have "hi \<le> d * 2 ^ Suc n" if "d * 2 > hi"
    proof -
      have "d * 2 \<le> d * 2 * 2 ^ n"
        using Suc.prems by (intro grow) simp
      with that show ?thesis
        by (simp add: mult.assoc)
    qed
    ultimately show ?thesis
      using True by (auto simp: min_def)
  next
    case False
    have "d * 1 \<le> d * 2 ^ Suc n"
      using Suc.prems by (intro mult_left_mono one_le_power) simp_all
    with False Suc.prems show ?thesis
      by (simp add: min_def)
  qed
qed simp

lemma backoff_overflows:
  "backoff ((new_task ''a'' Service ''x'')\<lparr>tk_min_delay := 2 ^ 62 + 1, tk_max_delay := 2 ^ 63 - 1, tk_max_attempts := 9\<rparr>) 3 = 4"
  by (simp add: backoff_def new_task_def eval_nat_numeral wrap64_def)

section \<open>The environment of a child\<close>

lemma set_env_value: "env_value (set_env env key v) key = v"
proof (induction env)
  case Nil
  have "has_prefix (key @ ''='' @ v) (key @ ''='')" "trim_prefix (key @ ''='' @ v) (key @ ''='') = v"
    using has_prefix_append [of "key @ ''=''" v] trim_prefix_append [of "key @ ''=''" v] by simp_all
  then show ?case
    by (simp add: env_value_def)
next
  case (Cons e env)
  have "has_prefix (key @ ''='' @ v) (key @ ''='')" "trim_prefix (key @ ''='' @ v) (key @ ''='') = v"
    using has_prefix_append [of "key @ ''=''" v] trim_prefix_append [of "key @ ''=''" v] by simp_all
  with Cons show ?case
    by (simp add: env_value_def)
qed

lemma set_env_keeps: "e \<in> set env \<Longrightarrow> \<not> has_prefix e (key @ ''='') \<Longrightarrow> e \<in> set (set_env env key v)"
  by (induction env) auto

lemma find_set_env:
  assumes "\<And>w. P (key @ ''='' @ w) = False" "\<And>e. has_prefix e (key @ ''='') \<Longrightarrow> \<not> P e"
  shows "find P (set_env env key v) = find P env"
  using assms by (induction env) auto

lemma env_value_other:
  assumes "CHR ''='' \<notin> set key" "CHR ''='' \<notin> set key'" "key \<noteq> key'"
  shows "env_value (set_env env key v) key' = env_value env key'"
proof -
  have no: "\<not> has_prefix e (key' @ ''='')" if e: "has_prefix e (key @ ''='')" for e
  proof
    assume "has_prefix e (key' @ ''='')"
    with e obtain a b where "e = key @ ''='' @ a" "e = key' @ ''='' @ b"
      unfolding has_prefix_iff append_assoc by blast
    moreover have "takeWhile (\<lambda>c. c \<noteq> CHR ''='') (k @ ''='' @ w) = k" if "CHR ''='' \<notin> set k" for k w
      using that by (subst takeWhile_append2) auto
    ultimately have "key = key'"
      using assms(1,2) by metis
    with assms(3) show False
      by simp
  qed
  have "find (\<lambda>e. has_prefix e (key' @ ''='')) (set_env env key v) = find (\<lambda>e. has_prefix e (key' @ ''='')) env"
  proof (rule find_set_env)
    show "has_prefix (key @ ''='' @ w) (key' @ ''='') = False" for w
      using no [of "key @ ''='' @ w"] has_prefix_append [of "key @ ''=''" w] by simp
  qed (rule no)
  then show ?thesis
    by (simp add: env_value_def)
qed

lemma extra_hosts_in: "h \<in> set (extra_hosts seen hs) \<Longrightarrow> h \<notin> set seen \<and> h \<noteq> [] \<and> trim_space h = h \<and> (\<exists>g \<in> set hs. h = trim_space g)"
  by (induction seen hs rule: extra_hosts.induct) (auto simp: Let_def split: if_split_asm)

lemma extra_hosts_distinct: "distinct (extra_hosts seen hs)"
  by (induction seen hs rule: extra_hosts.induct) (auto simp: Let_def dest: extra_hosts_in)

lemma extra_hosts_complete: "g \<in> set hs \<Longrightarrow> trim_space g \<noteq> [] \<Longrightarrow> trim_space g \<in> set seen \<union> set (extra_hosts seen hs)"
  by (induction seen hs rule: extra_hosts.induct) (auto simp: Let_def)

lemma extra_hosts_fix:
  "distinct hs \<Longrightarrow> set hs \<inter> set seen = {} \<Longrightarrow> \<forall>h \<in> set hs. h \<noteq> [] \<and> trim_space h = h \<Longrightarrow> extra_hosts seen hs = hs"
  by (induction hs arbitrary: seen) auto

lemma extra_hosts_skip: "\<forall>h \<in> set ds. trim_space h = h \<and> h \<in> set seen \<Longrightarrow> extra_hosts seen (ds @ hs) = extra_hosts seen hs"
  by (induction ds) auto

lemma no_proxy_default_hosts: "h \<in> set no_proxy_defaults \<Longrightarrow> trim_space h = h \<and> CHR '','' \<notin> set h"
  by (auto simp: no_proxy_defaults_def visible_def intro!: trim_space_visible)

lemma extra_hosts_no_comma: "h \<in> set (extra_hosts seen (split_on (CHR '','') s)) \<Longrightarrow> CHR '','' \<notin> set h"
  using set_trim_space by (fastforce dest!: extra_hosts_in dest: split_on_elem)

definition merged_hosts :: "string \<Rightarrow> string list" where
  "merged_hosts s = no_proxy_defaults @ extra_hosts no_proxy_defaults (split_on (CHR '','') s)"

lemma merge_no_proxy_eq: "merge_no_proxy s = join '','' (merged_hosts s)"
proof (cases "s = []")
  case True
  have "trim_space [] = []"
    by simp
  with True show ?thesis
    by (simp add: merge_no_proxy_def merged_hosts_def)
qed (simp add: merge_no_proxy_def merged_hosts_def)

lemma merged_hosts_no_comma: "h \<in> set (merged_hosts s) \<Longrightarrow> CHR '','' \<notin> set h"
  by (auto simp: merged_hosts_def dest: extra_hosts_no_comma no_proxy_default_hosts)

lemma split_merge_no_proxy: "split_on (CHR '','') (merge_no_proxy s) = merged_hosts s"
  unfolding merge_no_proxy_eq
  by (rule split_on_join) (auto simp: merged_hosts_no_comma, simp add: merged_hosts_def no_proxy_defaults_def)

lemma merge_no_proxy_idem: "merge_no_proxy (merge_no_proxy s) = merge_no_proxy s"
proof -
  let ?e = "extra_hosts no_proxy_defaults (split_on (CHR '','') s)"
  have e: "\<forall>h \<in> set ?e. h \<notin> set no_proxy_defaults \<and> h \<noteq> [] \<and> trim_space h = h"
    using extra_hosts_in by blast
  then have "extra_hosts no_proxy_defaults ?e = ?e"
    by (intro extra_hosts_fix) (auto simp: extra_hosts_distinct)
  then have "extra_hosts no_proxy_defaults (no_proxy_defaults @ ?e) = ?e"
    using no_proxy_default_hosts by (subst extra_hosts_skip) auto
  then have "merged_hosts (merge_no_proxy s) = merged_hosts s"
    by (simp add: merged_hosts_def split_merge_no_proxy [unfolded merged_hosts_def])
  then show ?thesis
    by (simp add: merge_no_proxy_eq)
qed

section \<open>Properties\<close>

text \<open>C29: A service that \<^verbatim>\<open>pulse\<close> starts is a committed one. If the anchor holds the root of a tree built from
  the leaves of some well-formed tasks (and leaves of other tools), and SHA-256 does not collide on
  the messages hashed for that tree and for the proof presented at that moment, then a round that
  starts a task's command runs a task that is, in every field, one of the committed tasks.\<close>

theorem started_service_was_committed:
  assumes "build H (map (task_leaf tx) ts @ others) = Inr tree" "ev_root (rd_evidence r) = Inr (tree_root tree)"
    and "Service_start i c \<in> set (fst (service_round H decp tx t n r))"
    and "texts_ok tx" "task_ok t" "task_sized tx t" "\<forall>u \<in> set ts. task_ok u \<and> task_sized tx u"
    and "\<forall>l \<in> set others. leaf_sized l \<and> (\<forall>d. leaf_tool l \<noteq> ''pulse/task/'' @ domain_name d)"
    and "\<And>m. length (H m) = 32"
    and "\<And>p. presented_proof decp (ev_proof (rd_evidence r)) (leaf_key (task_leaf tx t)) = Some p \<Longrightarrow>
      inj_on H (set (build_messages H (map (task_leaf tx) ts @ others)) \<union> set (verify_messages H (task_leaf tx t) p))"
  shows "t \<in> set ts \<and> c = tk_command t"
proof -
  have "verify_task H decp tx (rd_evidence r) t = Accept" and c: "c = tk_command t"
    using service_round_start [OF assms(3)] by simp_all
  then obtain p where p: "presented_proof decp (ev_proof (rd_evidence r)) (leaf_key (task_leaf tx t)) = Some p"
    "verify_proof H (task_leaf tx t) p (tree_root tree)"
    using assms(2) by (auto simp: verify_task_Accept)
  have "\<exists>u \<in> set ts. u = t"
    using assms(4-8) step_wf_length [OF presented_proof_wf [OF p(1)]]
    by (intro task_item.verified_was_committed [OF assms(1) p(2)] assms(9,10) p(1)) auto
  with c show ?thesis
    by simp
qed

definition unary_int :: "int \<Rightarrow> string" where
  "unary_int i = (if i < 0 then CHR ''-'' # replicate (nat (- i)) (CHR ''x'') else replicate (nat i) (CHR ''x''))"

definition plain_float :: "go_float \<Rightarrow> string" where
  "plain_float f = (case f of Nan \<Rightarrow> ''n'' | Infinite b \<Rightarrow> (if b then ''i'' else ''j'')
     | Finite r \<Rightarrow> unary_int (fst (quotient_of r)) @ ''/'' @ unary_int (snd (quotient_of r)))"

definition plain_texts :: texts where
  "plain_texts = \<lparr>tx_parse_duration = (\<lambda>s. None), tx_show_duration = unary_int, tx_parse_float = (\<lambda>s. None),
     tx_show_float = plain_float, tx_show_int = unary_int\<rparr>"

definition unary_val :: "string \<Rightarrow> int" where
  "unary_val s = (if has_prefix s ''-'' then 1 - int (length s) else int (length s))"

lemma unary_val: "unary_val (unary_int a) = a"
proof (cases "a < 0")
  case False
  have "\<not> has_prefix (replicate n (CHR ''x'')) ''-''" for n
    by (cases n) simp_all
  with False show ?thesis
    by (simp add: unary_val_def unary_int_def)
qed (simp add: unary_val_def unary_int_def)

lemma unary_int_inj: "unary_int a = unary_int b \<Longrightarrow> a = b"
  by (metis unary_val)

lemma unary_int_chars: "c \<in> set (unary_int a) \<Longrightarrow> c = CHR ''-'' \<or> c = CHR ''x''"
  by (auto simp: unary_int_def split: if_split_asm)

lemma plain_float_inj: "plain_float f = plain_float g \<Longrightarrow> f = g"
proof -
  have slash: "CHR ''/'' \<notin> set (unary_int a)" for a
    using unary_int_chars [of "CHR ''/''" a] by auto
  have split: "a = c \<and> b = d" if "unary_int a @ ''/'' @ unary_int b = unary_int c @ ''/'' @ unary_int d" for a b c d
  proof -
    have "split_on (CHR ''/'') (unary_int a @ CHR ''/'' # unary_int b) = [unary_int a, unary_int b]" for a b
      using slash by (simp add: split_on_append split_on_no_sep)
    from this [of a b] this [of c d] that have "[unary_int a, unary_int b] = [unary_int c, unary_int d]"
      by (simp only: append_Cons append_Nil)
    then show ?thesis
      using unary_int_inj by blast
  qed
  have mem: "CHR ''/'' \<in> set (plain_float (Finite r))" for r
    by (simp add: plain_float_def)
  have no: "CHR ''/'' \<notin> set (plain_float Nan)" "CHR ''/'' \<notin> set (plain_float (Infinite b))" for b
    by (simp_all add: plain_float_def)
  assume eq: "plain_float f = plain_float g"
  show "f = g"
  proof (cases f; cases g)
    fix r s assume fg: "f = Finite r" "g = Finite s"
    with eq have "quotient_of r = quotient_of s"
      using split by (auto simp: plain_float_def prod_eq_iff)
    with fg show "f = g"
      by (simp add: quotient_of_inject)
  qed (use eq mem no in \<open>auto simp: plain_float_def split: if_split_asm dest: arg_cong [of _ _ set]\<close>)
qed

lemma plain_float_not_absent: "plain_float f \<noteq> ''absent''"
proof (cases f)
  case (Finite r)
  then have "CHR ''/'' \<in> set (plain_float f)"
    by (simp add: plain_float_def)
  then show ?thesis
    by auto
qed (simp_all add: plain_float_def)

lemma plain_texts_ok: "texts_ok plain_texts"
  by (simp add: texts_ok_def plain_texts_def inj_def unary_int_inj plain_float_inj plain_float_not_absent)


definition user_task :: task where
  "user_task = new_task ''a'' Service ''x''\<lparr>tk_restart := ''on-failure'', tk_min_delay := 1, tk_max_delay := 2,
     tk_max_attempts := 3, tk_grace := 1\<rparr>"

lemma user_task_ok: "task_ok user_task"
  by (simp add: user_task_def new_task_def task_ok_def max_int64_def)

lemma user_task_fields: "task_fields plain_texts user_task = [(''domain'', ''service''), (''command'', ''x''), (''restart'', ''on-failure''),
    (''restart-min-delay'', ''x''), (''restart-max-delay'', ''xx''), (''restart-max-attempts'', ''xxx''), (''shutdown-grace'', ''x'')]"
  by (simp add: user_task_def new_task_def task_fields_def service_fields_def plain_texts_def unary_int_def numeral_eq_Suc)

lemma user_task_sized: "task_sized plain_texts user_task"
proof -
  have "length (encode_kv (task_fields plain_texts user_task)) < 400"
    unfolding user_task_fields by code_simp
  then show ?thesis
    by (simp add: task_sized_def user_task_fields kv_sized_def strings_sized_def task_leaf_def leaf_sized_def)
      (simp add: user_task_def new_task_def)
qed

definition user_leaf :: leaf where
  "user_leaf = task_leaf plain_texts user_task"

definition sample_round :: round where
  "sample_round = \<lparr>rd_cancelled = False, rd_evidence = \<lparr>ev_root = Inr (leaf_hash sample_hash user_leaf), ev_proof = File_data []\<rparr>,
     rd_end = Exited 1, rd_cancelled_after = False, rd_slept = True\<rparr>"

definition user_proofs :: "bytes \<Rightarrow> proof_file_json option" where
  "user_proofs b = Some \<lparr>pfj_root = [], pfj_entries = [(leaf_key user_leaf, [])]\<rparr>"

lemma sample_presented: "presented_proof user_proofs (ev_proof (rd_evidence sample_round)) (leaf_key user_leaf) = Some []"
  by (simp add: presented_proof_def sample_round_def decode_proof_data_def user_proofs_def decode_proof_file_def)

lemma sample_accepted: "verify_task sample_hash user_proofs plain_texts (rd_evidence sample_round) user_task = Accept"
proof -
  have "ev_root (rd_evidence sample_round) = Inr (leaf_hash sample_hash user_leaf)"
    by (simp add: sample_round_def)
  moreover have "verify_proof sample_hash user_leaf [] (leaf_hash sample_hash user_leaf)"
    by (simp add: verify_proof_def)
  ultimately show ?thesis
    using sample_presented unfolding verify_task_Accept user_leaf_def [symmetric] by blast
qed

lemma started_service_was_committed_witness: "user_task \<in> set [user_task] \<and> ''x'' = tk_command user_task"
proof (rule started_service_was_committed)
  let ?t = "\<lparr>tree_levels = build_levels sample_hash [leaf_hash sample_hash user_leaf], tree_index = [leaf_key user_leaf \<mapsto> 0]\<rparr>"
  show "build sample_hash (map (task_leaf plain_texts) [user_task] @ []) = Inr ?t"
    by (simp add: build_def user_leaf_def)
  show "ev_root (rd_evidence sample_round) = Inr (tree_root ?t)"
    by (simp add: sample_round_def tree_root_def build_levels.simps)
  have "\<not> rd_cancelled sample_round" "tk_id user_task = ''a''" "tk_command user_task = ''x''"
    by (simp_all add: sample_round_def user_task_def new_task_def)
  then show "Service_start ''a'' ''x'' \<in> set (fst (service_round sample_hash user_proofs plain_texts user_task 0 sample_round))"
    by (simp add: service_round_def sample_accepted Let_def)
  show "inj_on sample_hash (set (build_messages sample_hash (map (task_leaf plain_texts) [user_task] @ []))
      \<union> set (verify_messages sample_hash (task_leaf plain_texts user_task) p))"
    if "presented_proof user_proofs (ev_proof (rd_evidence sample_round)) (leaf_key (task_leaf plain_texts user_task)) = Some p" for p
  proof -
    have "p = []"
      using that sample_presented by (simp add: user_leaf_def)
    then show ?thesis
      by (simp add: build_messages_def verify_messages_def build_levels.simps)
  qed
qed (simp_all add: plain_texts_ok user_task_ok user_task_sized sample_hash_def)



text \<open>The bound is reached: a verified service that fails every time and is not cancelled is started exactly
  \<^verbatim>\<open>restart-max-attempts\<close> + 1 times, and the last thing logged is that the limit is exhausted.\<close>

theorem failing_service_exhausts_limit:
  assumes "tk_domain t \<noteq> Rapid_service" "0 \<le> tk_max_attempts t" "\<And>i. failing H decp tx t (rounds i)"
  shows "\<exists>es. run_service H decp tx t rounds 0 0 = Some (es @ [Limit_exhausted (tk_id t)])
    \<and> starts es = nat (tk_max_attempts t) + 1"
  using run_service_failing [OF assms(1,3,2), where i = 0] by simp

lemma failing_service_exhausts_limit_witness:
  "\<exists>es. run_service sample_hash user_proofs plain_texts user_task (\<lambda>i. sample_round) 0 0 = Some (es @ [Limit_exhausted (tk_id user_task)])
     \<and> starts es = nat (tk_max_attempts user_task) + 1"
proof (rule failing_service_exhausts_limit)
  show "failing sample_hash user_proofs plain_texts user_task sample_round" for i :: nat
    by (simp add: failing_def sample_accepted) (simp add: sample_round_def)
qed (simp_all add: user_task_def new_task_def)

text \<open>A rapid service is kept running: as long as it verifies and nothing is cancelled it is started once in
  every round, whatever its exit status, and the loop goes on.\<close>

theorem rapid_service_keeps_running:
  assumes "tk_domain t = Rapid_service" "\<And>i. \<not> rd_cancelled (rounds i)" "\<And>i. \<not> rd_cancelled_after (rounds i)"
    and "\<And>i. verify_task H decp tx (rd_evidence (rounds i)) t = Accept"
  shows "\<exists>es. service_prefix H decp tx t rounds k = (es, Some (int k)) \<and> starts es = k"
  using assms by (rule rapid_runs_on)

definition rapid_task :: task where
  "rapid_task = (new_task ''r'' Rapid_service ''x'')\<lparr>tk_grace := 1\<rparr>"

definition rapid_round :: round where
  "rapid_round = sample_round\<lparr>rd_evidence := \<lparr>ev_root = Inr (leaf_hash sample_hash (task_leaf plain_texts rapid_task)), ev_proof = File_data []\<rparr>\<rparr>"

definition rapid_proofs :: "bytes \<Rightarrow> proof_file_json option" where
  "rapid_proofs b = Some \<lparr>pfj_root = [], pfj_entries = [(leaf_key (task_leaf plain_texts rapid_task), [])]\<rparr>"

lemma rapid_service_keeps_running_witness:
  "\<exists>es. service_prefix sample_hash rapid_proofs plain_texts rapid_task (\<lambda>i. rapid_round) 5 = (es, Some (int 5)) \<and> starts es = 5"
proof (rule rapid_service_keeps_running)
  let ?l = "task_leaf plain_texts rapid_task"
  have "presented_proof rapid_proofs (ev_proof (rd_evidence rapid_round)) (leaf_key ?l) = Some []"
    by (simp add: presented_proof_def rapid_round_def decode_proof_data_def rapid_proofs_def decode_proof_file_def)
  moreover have "ev_root (rd_evidence rapid_round) = Inr (leaf_hash sample_hash ?l)"
    by (simp add: rapid_round_def)
  moreover have "verify_proof sample_hash ?l [] (leaf_hash sample_hash ?l)"
    by (simp add: verify_proof_def)
  ultimately show "verify_task sample_hash rapid_proofs plain_texts (rd_evidence rapid_round) rapid_task = Accept"
    for i :: nat unfolding verify_task_Accept by blast
qed (simp_all add: rapid_task_def new_task_def rapid_round_def sample_round_def)

text \<open>The back-off is the capped doubling it means to be: for positive delays in order and below 2 to the 62
  nanoseconds (146 years), the delay before retry \<open>n\<close> is the first delay times 2 to the \<open>n\<close> - 1, at
  most the largest delay. Beyond that bound the doubling overflows (\<open>backoff_overflows\<close>).\<close>

theorem backoff_doubles_capped:
  assumes "0 < tk_min_delay t" "tk_min_delay t \<le> tk_max_delay t" "tk_max_delay t < 2 ^ 62" "0 < n"
  shows "backoff t n = min (tk_min_delay t * 2 ^ nat (n - 1)) (tk_max_delay t)"
  unfolding backoff_def by (rule backoff_from_closed [OF assms(1-3)])

lemma backoff_doubles_capped_witness: "backoff user_task 2 = min (tk_min_delay user_task * 2 ^ nat (2 - 1)) (tk_max_delay user_task)"
  by (rule backoff_doubles_capped) (simp_all add: user_task_def new_task_def)

text \<open>The proxy environment of a child: both proxy variables are the proxy's URL, \<^verbatim>\<open>NO_PROXY\<close> lists the defaults
  and then every host the parent listed, once, every other entry is kept, and merging a merged list
  changes nothing.\<close>

theorem proxypass_environment:
  "env_value (proxypass_env base url) ''HTTP_PROXY'' = url \<and> env_value (proxypass_env base url) ''HTTPS_PROXY'' = url
    \<and> env_value (proxypass_env base url) ''NO_PROXY'' = merge_no_proxy (env_value base ''NO_PROXY'')
    \<and> split_on (CHR '','') (merge_no_proxy s) = no_proxy_defaults @ extra_hosts no_proxy_defaults (split_on (CHR '','') s)
    \<and> merge_no_proxy (merge_no_proxy s) = merge_no_proxy s
    \<and> {e \<in> set base. \<not> has_prefix e ''HTTP_PROXY='' \<and> \<not> has_prefix e ''HTTPS_PROXY='' \<and> \<not> has_prefix e ''NO_PROXY=''}
       \<subseteq> set (proxypass_env base url)"
  unfolding proxypass_env_def
  by (auto simp: env_value_other set_env_value split_merge_no_proxy merged_hosts_def merge_no_proxy_idem intro!: set_env_keeps)

text \<open>A legacy job's command runs exactly if the job verifies (or the anchor was never installed) and its load
  limit, if it has one, is known not to be exceeded.\<close>

theorem fire_runs_iff:
  "Started n c \<in> set (fire H decp verifying mo j) \<longleftrightarrow> n = jb_name j \<and> c = jb_command j
    \<and> \<not> (verifying \<and> verify_job H decp (mo_evidence mo) j \<noteq> Accept)
    \<and> \<not> (\<exists>limit. jb_max_load j = Some limit \<and> (mo_load mo = None \<or> float_greater (the (mo_load mo)) limit))"
  unfolding fire_started by (cases "mo_load mo") auto

end
