(* ===== verification/Prtag.thy ===== *)
theory Prtag
  imports Go_Strings
begin

text \<open>
  The \<^verbatim>\<open>.prtag\<close> format (\<^verbatim>\<open>prtag/prtag.go\<close>): a name header, a body, and after a \<^verbatim>\<open>---\<close> line a bracketed
  section name. Parsing inverts formatting exactly when the body has no delimiter line of its own,
  which \<^verbatim>\<open>Format\<close> does not check.
\<close>

section \<open>Parsing\<close>

record prtag_file =
  pf_name :: string
  pf_body :: string
  pf_meta :: string

datatype prtag_error = Invalid_header | Invalid_delimiter | Non_empty_metadata | Invalid_meta_header

abbreviation lf :: char where "lf \<equiv> CHR 0x0A"
abbreviation cr :: char where "cr \<equiv> CHR 0x0D"

definition normalize_newlines :: "string \<Rightarrow> string" where
  "normalize_newlines s = replace_all [cr] [lf] (replace_all [cr, lf] [lf] s)"

text \<open>\<^verbatim>\<open>readLine\<close>: the line with its line feed, what is left, and whether the line feed was there.\<close>

definition read_line :: "string \<Rightarrow> string \<times> string \<times> bool" where
  "read_line s = (case dropWhile (\<lambda>c. c \<noteq> lf) s of
     [] \<Rightarrow> (s, [], False)
   | _ # r \<Rightarrow> (takeWhile (\<lambda>c. c \<noteq> lf) s @ [lf], r, True))"

lemma read_line_less: "read_line s = (l, r, True) \<Longrightarrow> length r < length s"
proof -
  assume "read_line s = (l, r, True)"
  then have "dropWhile (\<lambda>c. c \<noteq> lf) s = hd (dropWhile (\<lambda>c. c \<noteq> lf) s) # r"
    by (auto simp: read_line_def split: list.split_asm)
  then have "length r < length (dropWhile (\<lambda>c. c \<noteq> lf) s)"
    by (metis length_Cons lessI)
  also have "\<dots> \<le> length s"
    by (rule length_dropWhile_le)
  finally show ?thesis .
qed

definition trim_line_end :: "string \<Rightarrow> string" where
  "trim_line_end s = trim_suffix s [lf]"

definition parse_name_header :: "string \<Rightarrow> string option" where
  "parse_name_header raw =
     (let line = trim_line_end raw; name = trim_space (trim_suffix line '':'') in
      if \<not> has_suffix line '':'' then None
      else if name = [] then None
      else if contains_any name [cr, lf, CHR '':''] then None
      else Some name)"

definition parse_bracket_header :: "string \<Rightarrow> string option" where
  "parse_bracket_header raw =
     (let line = trim_space (trim_line_end raw) in
      if length line < 2 \<or> hd line \<noteq> CHR ''['' \<or> last line \<noteq> CHR '']'' then None
      else let inner = trim_space (butlast (tl line)) in
        if inner = [] then None
        else if contains_any inner [cr, lf, CHR ''['', CHR '']''] then None
        else Some inner)"

definition delimiter :: string where
  "delimiter = ''---''"

text \<open>The body up to the delimiter line: the body, whether the delimiter was found, and the rest.\<close>

function read_body :: "string \<Rightarrow> string \<times> bool \<times> string" where
  "read_body s =
     (case read_line s of
        (line, r, ok) \<Rightarrow>
          if trim_line_end line = delimiter then ([], True, r)
          else if \<not> ok then (line, False, [])
          else (case read_body r of (b, found, r') \<Rightarrow> (line @ b, found, r')))"
  by pat_completeness auto
termination
  by (relation "measure length") (auto dest!: sym [of _ "read_line _"] read_line_less)

declare read_body.simps [simp del]

function next_non_empty :: "string \<Rightarrow> (string \<times> string) option" where
  "next_non_empty s =
     (case read_line s of
        (line, r, ok) \<Rightarrow>
          if trim_space line \<noteq> [] then Some (line, r)
          else if \<not> ok then None
          else next_non_empty r)"
  by pat_completeness auto
termination
  by (relation "measure length") (auto dest!: sym [of _ "read_line _"] read_line_less)

declare next_non_empty.simps [simp del]

text \<open>\<^verbatim>\<open>Parse\<close>. A header line without a line feed counts as an empty file.\<close>

definition parse_prtag :: "string \<Rightarrow> prtag_error + prtag_file" where
  "parse_prtag b =
     (case read_line (normalize_newlines b) of
        (first, r, ok) \<Rightarrow>
          if \<not> ok then Inl Invalid_header
          else (case parse_name_header first of
              None \<Rightarrow> Inl Invalid_header
            | Some name \<Rightarrow>
                (case read_body r of
                   (body, found, r) \<Rightarrow>
                     if \<not> found then Inr \<lparr>pf_name = name, pf_body = body, pf_meta = []\<rparr>
                     else (case next_non_empty r of
                         None \<Rightarrow> Inl Invalid_delimiter
                       | Some (line, r) \<Rightarrow>
                           (case parse_bracket_header line of
                              None \<Rightarrow> Inl Invalid_meta_header
                            | Some meta \<Rightarrow>
                                if trim_space r \<noteq> [] then Inl Non_empty_metadata
                                else Inr \<lparr>pf_name = name, pf_body = body, pf_meta = meta\<rparr>)))))"

section \<open>Formatting\<close>

definition canonical_meta :: "string \<Rightarrow> string" where
  "canonical_meta m = (if trim_space m = [] then ''metadata'' else trim_space m)"

definition canonical_body :: "string \<Rightarrow> string" where
  "canonical_body b = (let body = normalize_newlines b in
     if body \<noteq> [] \<and> \<not> has_suffix body [lf] then body @ [lf] else body)"

definition format_prtag :: "prtag_file \<Rightarrow> prtag_error + string" where
  "format_prtag f =
     (let name = trim_space (pf_name f); meta = canonical_meta (pf_meta f) in
      if name = [] \<or> contains_any name [cr, lf, CHR '':''] then Inl Invalid_header
      else if contains_any meta [cr, lf, CHR ''['', CHR '']''] then Inl Invalid_meta_header
      else Inr (name @ '':'' @ [lf] @ canonical_body (pf_body f) @ delimiter @ [lf] @ ''['' @ meta @ '']'' @ [lf]))"

definition canonical_file :: "prtag_file \<Rightarrow> prtag_file" where
  "canonical_file f = \<lparr>pf_name = trim_space (pf_name f), pf_body = canonical_body (pf_body f),
     pf_meta = canonical_meta (pf_meta f)\<rparr>"

text \<open>\<^verbatim>\<open>ReadFile\<close> and \<^verbatim>\<open>WriteFile\<close>: \<open>None\<close> where the operating system fails.\<close>

definition read_prtag :: "string option \<Rightarrow> (prtag_error + prtag_file) option" where
  "read_prtag data = map_option parse_prtag data"

definition write_prtag :: "(string \<Rightarrow> bool) \<Rightarrow> prtag_file \<Rightarrow> prtag_error + bool" where
  "write_prtag write f = (case format_prtag f of Inl e \<Rightarrow> Inl e | Inr b \<Rightarrow> Inr (write b))"

section \<open>Newlines\<close>

lemma replace_all_absent: "p \<noteq> [] \<Longrightarrow> hd p \<notin> set s \<Longrightarrow> replace_all p n s = s"
  by (induction p n s rule: replace_all.induct) (auto simp: neq_Nil_conv)

lemma normalize_no_cr: "cr \<notin> set s \<Longrightarrow> normalize_newlines s = s"
  by (simp add: normalize_newlines_def replace_all_absent)

lemma replace_cr_set: "cr \<notin> set (replace_all [cr] [lf] s)"
  by (induction "[cr]" "[lf]" s rule: replace_all.induct) auto

lemma normalize_set: "cr \<notin> set (normalize_newlines s)"
  by (simp add: normalize_newlines_def replace_cr_set)

lemma canonical_body_cr: "cr \<notin> set (canonical_body b)"
  using normalize_set by (simp add: canonical_body_def Let_def)

section \<open>Lines\<close>

lemma read_line_full: "lf \<notin> set l \<Longrightarrow> read_line (l @ lf # r) = (l @ [lf], r, True)"
proof -
  assume "lf \<notin> set l"
  then have l: "\<forall>c \<in> set l. c \<noteq> lf"
    by blast
  then have "dropWhile (\<lambda>c. c \<noteq> lf) (l @ lf # r) = lf # r" "takeWhile (\<lambda>c. c \<noteq> lf) (l @ lf # r) = l"
    by (simp_all add: dropWhile_append2 takeWhile_append2)
  then show ?thesis
    by (simp add: read_line_def)
qed

lemma read_line_True: "read_line s = (line, r, True) \<Longrightarrow> \<exists>l. line = l @ [lf] \<and> lf \<notin> set l \<and> s = l @ lf # r"
proof -
  assume a: "read_line s = (line, r, True)"
  then obtain c where d: "dropWhile (\<lambda>c. c \<noteq> lf) s = c # r" and l: "line = takeWhile (\<lambda>c. c \<noteq> lf) s @ [lf]"
    by (auto simp: read_line_def split: list.split_asm)
  have "s = takeWhile (\<lambda>c. c \<noteq> lf) s @ c # r \<and> \<not> c \<noteq> lf"
    using d unfolding dropWhile_eq_Cons_conv .
  moreover have "lf \<notin> set (takeWhile (\<lambda>c. c \<noteq> lf) s)"
    by (auto dest: set_takeWhileD)
  ultimately show ?thesis
    using l by blast
qed

lemma trim_line_end_full [simp]: "trim_line_end (l @ [lf]) = l"
  by (simp add: trim_line_end_def)

text \<open>A body as the list of its full lines.\<close>

definition unlines :: "string list \<Rightarrow> string" where
  "unlines ls = concat (map (\<lambda>l. l @ [lf]) ls)"

definition body_lines :: "string list \<Rightarrow> bool" where
  "body_lines ls \<longleftrightarrow> list_all (\<lambda>l. lf \<notin> set l \<and> l \<noteq> delimiter) ls"

lemma delimiter_no_lf: "lf \<notin> set delimiter"
  by (simp add: delimiter_def)

lemma read_body_unlines: "body_lines ls \<Longrightarrow> read_body (unlines ls @ delimiter @ lf # r) = (unlines ls, True, r)"
proof (induction ls)
  case Nil
  show ?case
    by (subst read_body.simps) (simp add: unlines_def read_line_full [OF delimiter_no_lf])
next
  case (Cons l ls)
  then have l: "lf \<notin> set l" "l \<noteq> delimiter" and IH: "read_body (unlines ls @ delimiter @ lf # r) = (unlines ls, True, r)"
    by (simp_all add: body_lines_def)
  have eq: "unlines (l # ls) @ delimiter @ lf # r = l @ lf # (unlines ls @ delimiter @ lf # r)"
    by (simp add: unlines_def)
  show ?case
    unfolding eq by (subst read_body.simps) (simp add: read_line_full [OF l(1)] l(2) IH, simp add: unlines_def)
qed

lemma read_body_found:
  "read_body s = (body, True, r) \<Longrightarrow> \<exists>ls. body = unlines ls \<and> body_lines ls \<and> set body \<subseteq> set s"
proof (induction s arbitrary: body rule: read_body.induct)
  case (1 s)
  obtain line rest ok where rl: "read_line s = (line, rest, ok)"
    by (cases "read_line s")
  show ?case
  proof (cases "trim_line_end line = delimiter")
    case True
    with "1.prems" rl have "body = unlines [] \<and> body_lines [] \<and> set body \<subseteq> set s"
      by (subst (asm) read_body.simps) (simp add: unlines_def body_lines_def)
    then show ?thesis
      by blast
  next
    case False
    with "1.prems" rl have ok: "ok"
      by (subst (asm) read_body.simps) (auto split: if_split_asm)
    obtain b found r' where rb: "read_body rest = (b, found, r')"
      by (cases "read_body rest")
    have "read_body s = (line @ b, found, r')"
      by (subst read_body.simps) (simp add: rl False ok rb)
    with "1.prems" have b: "found" "body = line @ b" "r' = r"
      by simp_all
    have "read_line s = (line, rest, True)"
      using rl ok by simp
    then obtain l where l: "line = l @ [lf]" "lf \<notin> set l" "s = l @ lf # rest"
      using read_line_True by blast
    obtain ls where "b = unlines ls" "body_lines ls" "set b \<subseteq> set rest"
      using "1.IH" [OF rl [symmetric] refl False, of b] rb b ok by auto
    moreover from this have "set body \<subseteq> set s"
      using b l by auto
    ultimately have "body = unlines (l # ls) \<and> body_lines (l # ls) \<and> set body \<subseteq> set s"
      using b l False by (simp add: unlines_def body_lines_def)
    then show ?thesis
      by blast
  qed
qed

lemma split_on_snoc: "split_on c (r @ [c]) = split_on c r @ [[]]"
proof (induction r)
  case (Cons x r)
  then show ?case
    by (cases "split_on c r") (auto simp: Let_def)
qed simp

lemma join_snoc_Nil: "join [c] (ls @ [[]]) = concat (map (\<lambda>l. l @ [c]) ls)"
proof (induction ls)
  case (Cons l ls)
  then show ?case
    by (cases ls) simp_all
qed simp

lemma unlines_split: "b = [] \<or> has_suffix b [lf] \<Longrightarrow> unlines (butlast (split_on lf b)) = b"
proof -
  assume "b = [] \<or> has_suffix b [lf]"
  then consider "b = []" | r where "b = r @ [lf]"
    by (auto simp: has_suffix_iff)
  then show ?thesis
  proof cases
    case 1
    then show ?thesis
      by (simp add: unlines_def)
  next
    case (2 r)
    have "join [lf] (split_on lf r @ [[]]) = b"
      using join_split_on [of lf b] by (simp add: 2 split_on_snoc)
    then show ?thesis
      by (simp add: 2 split_on_snoc unlines_def join_snoc_Nil)
  qed
qed

lemma canonical_body_closed: "canonical_body b = [] \<or> has_suffix (canonical_body b) [lf]"
  by (auto simp: canonical_body_def Let_def has_suffix_iff)

lemma canonical_body_lines:
  assumes "delimiter \<notin> set (split_on lf (canonical_body b))"
  shows "canonical_body b = unlines (butlast (split_on lf (canonical_body b)))"
    and "body_lines (butlast (split_on lf (canonical_body b)))"
proof -
  show "canonical_body b = unlines (butlast (split_on lf (canonical_body b)))"
    using unlines_split [OF canonical_body_closed] by simp
  show "body_lines (butlast (split_on lf (canonical_body b)))"
    using assms split_on_elem by (fastforce simp: body_lines_def list_all_iff dest: in_set_butlastD)
qed

section \<open>Headers\<close>

text \<open>Trimming removes no visible character.\<close>

lemma trim_left_with_removed:
  "\<exists>r. s = r @ trim_left_with ps s \<and> set r \<subseteq> \<Union> (set ` set ps)"
proof (induction ps s rule: trim_left_with.induct)
  case (1 ps s)
  show ?case
  proof (cases "s = [] \<or> leading_rune ps s = 0")
    case True
    then show ?thesis
      by (intro exI [of _ "[]"]) (simp add: trim_left_with.simps [of ps s])
  next
    case False
    then obtain p where p: "p \<in> set ps" "has_prefix s p" "leading_rune ps s = length p"
      unfolding leading_rune_def by (cases "find (has_prefix s) ps") (auto simp: find_Some_iff dest: nth_mem)
    obtain r where "drop (leading_rune ps s) s = r @ trim_left_with ps (drop (leading_rune ps s) s)" "set r \<subseteq> \<Union> (set ` set ps)"
      using "1.IH" False by blast
    moreover have "s = p @ drop (leading_rune ps s) s"
      using p(2,3) by (auto simp: has_prefix_iff)
    ultimately have "s = (p @ r) @ trim_left_with ps s" "set (p @ r) \<subseteq> \<Union> (set ` set ps)"
      using False p(1) by (auto simp: trim_left_with.simps [of ps s])
    then show ?thesis
      by blast
  qed
qed

lemma space_runes_bytes: "list_all (list_all (\<lambda>c. \<not> visible c)) space_runes"
  by (simp add: space_runes_def visible_def)

lemma visible_not_trimmed:
  assumes "visible c" "c \<in> set s"
  shows "c \<in> set (trim_space s)"
proof -
  have no: "c \<notin> \<Union> (set ` set space_runes)" "c \<notin> \<Union> (set ` set (map rev space_runes))"
    using assms(1) space_runes_bytes by (auto simp: list_all_iff)
  have left: "c \<in> set (trim_left_with ps t)" if "c \<in> set t" "c \<notin> \<Union> (set ` set ps)" for ps t
    using trim_left_with_removed [of t ps] that by (metis Un_iff set_append subsetD)
  have "c \<in> set (rev (trim_left_space s))"
    using left [OF assms(2) no(1)] by (simp add: trim_left_space_def)
  from left [OF this no(2)] show ?thesis
    by (simp add: trim_space_def trim_right_space_def)
qed

lemma contains_any_iff: "contains_any s cs \<longleftrightarrow> (\<exists>c \<in> set s. c \<in> set cs)"
  by (auto simp: contains_any_def list_ex_iff)

lemma parse_name_header_format:
  assumes "name \<noteq> []" "trim_space name = name" "\<not> contains_any name [cr, lf, CHR '':'']"
  shows "parse_name_header (name @ '':'' @ [lf]) = Some name"
proof -
  have "trim_line_end (name @ '':'' @ [lf]) = name @ '':''"
    using trim_line_end_full [of "name @ '':''"] by simp
  with assms show ?thesis
    by (simp add: parse_name_header_def has_suffix_iff)
qed

lemma trim_space_brackets: "trim_space (''['' @ m @ '']'') = ''['' @ m @ '']''"
  by (rule trim_space_visible) (simp_all add: visible_def)

lemma parse_bracket_header_format:
  assumes "m \<noteq> []" "trim_space m = m" "\<not> contains_any m [cr, lf, CHR ''['', CHR '']'']"
  shows "parse_bracket_header (''['' @ m @ '']'' @ [lf]) = Some m"
proof -
  have "trim_line_end (''['' @ m @ '']'' @ [lf]) = ''['' @ m @ '']''"
    using trim_line_end_full [of "''['' @ m @ '']''"] by simp
  moreover have "butlast (tl (''['' @ m @ '']'')) = m"
    by simp
  ultimately show ?thesis
    using assms by (simp only: parse_bracket_header_def trim_space_brackets Let_def) simp
qed

lemma canonical_meta_facts: "canonical_meta m \<noteq> [] \<and> trim_space (canonical_meta m) = canonical_meta m"
proof -
  have "trim_space ''metadata'' = ''metadata''"
    by (rule trim_space_visible) (simp_all add: visible_def)
  then show ?thesis
    by (simp add: canonical_meta_def)
qed

section \<open>Round trip\<close>

lemma parse_canonical:
  assumes n: "name \<noteq> []" "trim_space name = name" "\<not> contains_any name [cr, lf, CHR '':'']"
    and m: "m \<noteq> []" "trim_space m = m" "\<not> contains_any m [cr, lf, CHR ''['', CHR '']'']"
    and b: "body_lines ls" "cr \<notin> set (unlines ls)"
  shows "parse_prtag (name @ '':'' @ [lf] @ unlines ls @ delimiter @ [lf] @ ''['' @ m @ '']'' @ [lf])
    = Inr \<lparr>pf_name = name, pf_body = unlines ls, pf_meta = m\<rparr>"
proof -
  let ?tail = "''['' @ m @ '']'' @ [lf]" and ?s = "name @ '':'' @ [lf] @ unlines ls @ delimiter @ [lf] @ ''['' @ m @ '']'' @ [lf]"
  have "cr \<notin> set ?s"
    using n(3) m(3) b(2) by (auto simp: contains_any_iff delimiter_def)
  then have norm: "normalize_newlines ?s = ?s"
    by (rule normalize_no_cr)
  have "lf \<notin> set (name @ '':'')"
    using n(3) by (auto simp: contains_any_iff)
  then have first: "read_line ?s = (name @ '':'' @ [lf], unlines ls @ delimiter @ lf # ?tail, True)"
    using read_line_full [of "name @ '':''" "unlines ls @ delimiter @ lf # ?tail"] by simp
  have "lf \<notin> set (''['' @ m @ '']'')"
    using m(3) by (auto simp: contains_any_iff)
  then have line: "read_line ?tail = (?tail, [], True)"
    using read_line_full [of "''['' @ m @ '']''" "[]"] by simp
  have "CHR ''['' \<in> set (trim_space ?tail)"
    by (rule visible_not_trimmed) (simp_all add: visible_def)
  then have "trim_space ?tail \<noteq> []"
    by auto
  then have "next_non_empty ?tail = Some (?tail, [])"
    by (subst next_non_empty.simps) (simp only: line prod.case if_True simp_thms)
  with norm first parse_name_header_format [OF n] parse_bracket_header_format [OF m] show ?thesis
    by (simp add: parse_prtag_def read_body_unlines [OF b(1)])
qed

lemma format_InrD:
  assumes "format_prtag f = Inr b"
  shows "trim_space (pf_name f) \<noteq> []" "\<not> contains_any (trim_space (pf_name f)) [cr, lf, CHR '':'']"
    "\<not> contains_any (canonical_meta (pf_meta f)) [cr, lf, CHR ''['', CHR '']'']"
    "b = trim_space (pf_name f) @ '':'' @ [lf] @ canonical_body (pf_body f) @ delimiter @ [lf] @ ''['' @ canonical_meta (pf_meta f)
      @ '']'' @ [lf]"
  using assms by (auto simp: format_prtag_def Let_def split: if_split_asm)

lemma format_parse:
  assumes "format_prtag f = Inr b" "delimiter \<notin> set (split_on lf (canonical_body (pf_body f)))"
  shows "parse_prtag b = Inr (canonical_file f)"
proof -
  note f = format_InrD [OF assms(1)] and ls = canonical_body_lines [OF assms(2)]
  have "cr \<notin> set (unlines (butlast (split_on lf (canonical_body (pf_body f)))))"
    using canonical_body_cr ls(1) by metis
  from parse_canonical [OF f(1) _ f(2) _ _ f(3) ls(2) this] show ?thesis
    using canonical_meta_facts unfolding f(4) canonical_file_def ls(1) [symmetric] by simp
qed

lemma parse_name_header_InrD: "parse_name_header l = Some n \<Longrightarrow> n \<noteq> [] \<and> trim_space n = n \<and> \<not> contains_any n [cr, lf, CHR '':'']"
  by (auto simp: parse_name_header_def Let_def split: if_split_asm)

lemma parse_bracket_header_InrD:
  "parse_bracket_header l = Some m \<Longrightarrow> m \<noteq> [] \<and> trim_space m = m \<and> \<not> contains_any m [cr, lf, CHR ''['', CHR '']'']"
  by (auto simp: parse_bracket_header_def Let_def split: if_split_asm)


lemma unlines_closed: "canonical_body (unlines ls) = unlines ls" if "cr \<notin> set (unlines ls)"
proof -
  have "unlines ls = [] \<or> has_suffix (unlines ls) [lf]"
    by (cases ls rule: rev_cases) (auto simp: unlines_def has_suffix_iff)
  with that show ?thesis
    by (auto simp: canonical_body_def Let_def normalize_no_cr)
qed

lemma split_unlines: "body_lines ls \<Longrightarrow> split_on lf (unlines ls) = ls @ [[]]"
  by (induction ls) (simp_all add: unlines_def body_lines_def split_on_append)

text \<open>What a delimited file was parsed from.\<close>

lemma parse_delimited:
  assumes "parse_prtag b = Inr f" "pf_meta f \<noteq> []"
  obtains ls where "pf_body f = unlines ls" "body_lines ls" "cr \<notin> set (unlines ls)"
    "pf_name f \<noteq> []" "trim_space (pf_name f) = pf_name f" "\<not> contains_any (pf_name f) [cr, lf, CHR '':'']"
    "trim_space (pf_meta f) = pf_meta f" "\<not> contains_any (pf_meta f) [cr, lf, CHR ''['', CHR '']'']"
proof -
  obtain first r where first: "read_line (normalize_newlines b) = (first, r, True)"
    using assms(1) by (auto simp: parse_prtag_def split: prod.split_asm if_split_asm)
  with assms(1) obtain name where name: "parse_name_header first = Some name"
    by (auto simp: parse_prtag_def split: option.split_asm)
  obtain body found r' where rb: "read_body r = (body, found, r')"
    by (cases "read_body r")
  with assms first name have found: "found"
    by (auto simp: parse_prtag_def split: if_split_asm)
  with assms(1) first name rb obtain line r'' where line: "next_non_empty r' = Some (line, r'')"
    by (auto simp: parse_prtag_def split: option.split_asm)
  with assms(1) first name rb found obtain meta where meta: "parse_bracket_header line = Some meta"
    by (auto simp: parse_prtag_def split: option.split_asm)
  with assms(1) first name rb found line have f: "f = \<lparr>pf_name = name, pf_body = body, pf_meta = meta\<rparr>"
    by (auto simp: parse_prtag_def split: if_split_asm)
  have "read_body r = (body, True, r')"
    using rb found by simp
  from read_body_found [OF this] obtain ls where ls: "body = unlines ls" "body_lines ls" "set body \<subseteq> set r"
    by blast
  have "set r \<subseteq> set (normalize_newlines b)"
    using read_line_True [OF first] by auto
  then have "cr \<notin> set (unlines ls)"
    using ls normalize_set by blast
  with that [of ls] ls f parse_name_header_InrD [OF name] parse_bracket_header_InrD [OF meta] show thesis
    by simp
qed

lemma reformat_parsed:
  assumes "parse_prtag b = Inr f" "pf_meta f \<noteq> []"
  shows "\<exists>b'. format_prtag f = Inr b' \<and> parse_prtag b' = Inr f"
proof -
  obtain ls where ls: "pf_body f = unlines ls" "body_lines ls" "cr \<notin> set (unlines ls)"
    and n: "pf_name f \<noteq> []" "trim_space (pf_name f) = pf_name f" "\<not> contains_any (pf_name f) [cr, lf, CHR '':'']"
    and m: "trim_space (pf_meta f) = pf_meta f" "\<not> contains_any (pf_meta f) [cr, lf, CHR ''['', CHR '']'']"
    using parse_delimited [OF assms] by metis
  have meta: "canonical_meta (pf_meta f) = pf_meta f"
    using m(1) assms(2) by (simp add: canonical_meta_def)
  have "\<exists>b'. format_prtag f = Inr b'"
    using n m meta by (simp add: format_prtag_def Let_def)
  then obtain b' where b': "format_prtag f = Inr b'" ..
  have "canonical_file f = f"
    using ls n m meta by (simp add: canonical_file_def unlines_closed)
  moreover have "delimiter \<notin> set (split_on lf (canonical_body (pf_body f)))"
    using ls by (auto simp: unlines_closed split_unlines body_lines_def list_all_iff delimiter_def)
  ultimately show ?thesis
    using format_parse [OF b'] b' by simp
qed

text \<open>A body with a delimiter line of its own is formatted without complaint into a file that does not parse.\<close>

lemma format_swallows_delimiter:
  "case format_prtag \<lparr>pf_name = ''n'', pf_body = ''a'' @ [lf] @ ''---'' @ [lf] @ ''b'', pf_meta = []\<rparr> of
     Inl _ \<Rightarrow> False | Inr b \<Rightarrow> parse_prtag b = Inl Invalid_meta_header"
  by code_simp

section \<open>Properties\<close>

text \<open>C32: Formatting and parsing a \<^verbatim>\<open>.prtag\<close> file is the identity up to canonical form: unless the body has a
  delimiter line of its own, what \<^verbatim>\<open>Format\<close> writes parses to the file with its name and section
  trimmed, its newlines normalised and the body closed by a line feed; and a delimited file that was
  parsed is written and parsed back unchanged.\<close>

theorem prtag_roundtrip:
  assumes "format_prtag f = Inr b" "delimiter \<notin> set (split_on lf (canonical_body (pf_body f)))"
    and "parse_prtag b0 = Inr g" "pf_meta g \<noteq> []"
  shows "parse_prtag b = Inr (canonical_file f) \<and> (\<exists>b'. format_prtag g = Inr b' \<and> parse_prtag b' = Inr g)"
  using format_parse [OF assms(1,2)] reformat_parsed [OF assms(3,4)] by blast

definition sample_prtag :: prtag_file where
  "sample_prtag = \<lparr>pf_name = '' x '', pf_body = ''a'' @ [cr, lf] @ ''b'', pf_meta = []\<rparr>"

lemma prtag_roundtrip_witness:
  "\<exists>b. format_prtag sample_prtag = Inr b \<and> parse_prtag b = Inr (canonical_file sample_prtag)"
proof -
  have "case format_prtag sample_prtag of Inl _ \<Rightarrow> False | Inr b \<Rightarrow> True"
    by code_simp
  then obtain b where b: "format_prtag sample_prtag = Inr b"
    by (auto split: sum.splits)
  have d: "delimiter \<notin> set (split_on lf (canonical_body (pf_body sample_prtag)))"
    by code_simp
  have "case parse_prtag (''n:'' @ [lf] @ ''---'' @ [lf] @ ''[m]'') of Inl _ \<Rightarrow> False | Inr g \<Rightarrow> pf_meta g \<noteq> []"
    by code_simp
  then obtain g where "parse_prtag (''n:'' @ [lf] @ ''---'' @ [lf] @ ''[m]'') = Inr g" "pf_meta g \<noteq> []"
    by (auto split: sum.splits)
  from prtag_roundtrip [OF b d this] b show ?thesis
    by blast
qed

end
