(* ===== verification/Workspace.thy ===== *)
theory Workspace
  imports Prtag Go_Path "HOL-Library.Multiset"
begin

text \<open>
  The workspace scanner (\<^verbatim>\<open>workspace/scanner.go\<close>): it walks a directory tree, makes a project of every
  directory with a \<^verbatim>\<open>.prtag\<close> file, lists the git repositories below it, and compares snapshots. The
  file system is a tree; \<open>None\<close> is a file or directory that cannot be read.
\<close>

section \<open>The tree\<close>

datatype node = File "string option" | Link | Dir "(string \<times> node) list option"

type_synonym entries = "(string \<times> node) list"

fun is_dir_node :: "node \<Rightarrow> bool" where
  "is_dir_node (Dir _) = True"
| "is_dir_node _ = False"

fun node_size :: "node \<Rightarrow> nat" where
  "node_size (File _) = 1"
| "node_size Link = 1"
| "node_size (Dir None) = 1"
| "node_size (Dir (Some es)) = Suc (sum_list (map (\<lambda>e. Suc (node_size (snd e))) es))"

definition entries_size :: "entries \<Rightarrow> nat" where
  "entries_size es = sum_list (map (\<lambda>e. Suc (node_size (snd e))) es)"

lemma entries_size_simps [simp]: "entries_size [] = 0" "entries_size (e # es) = Suc (node_size (snd e) + entries_size es)"
  by (simp_all add: entries_size_def)

lemma entries_size_sort [simp]: "entries_size (sort_key k es) = entries_size es"
proof -
  have "mset (map f (sort_key k es)) = mset (map f es)" for f :: "string \<times> node \<Rightarrow> nat"
    by simp
  then show ?thesis
    unfolding entries_size_def by (metis sum_mset_sum_list)
qed

lemma node_size_entries: "node_size (Dir (Some es)) = Suc (entries_size es)"
  by (simp add: entries_size_def)

section \<open>Scanning\<close>

record project =
  pj_path :: string
  pj_tag :: prtag_file
  pj_repos :: "string list"

record snapshot =
  sn_root :: string
  sn_projects :: "project list"

datatype scan_error = Root_missing string | Root_no_dir string | Read_dir string | Cancelled
  | Tag_unreadable string | Tag_invalid string prtag_error | Repos_unreadable string string

text \<open>\<^verbatim>\<open>scanRepos\<close>: the directory that cannot be read, or the directories with a \<^verbatim>\<open>.git\<close> directory.\<close>

function walk_repos :: "string \<Rightarrow> node \<Rightarrow> string + string list"
  and walk_entries :: "string \<Rightarrow> entries \<Rightarrow> string + string list" where
  "walk_repos dir (Dir (Some es)) = walk_entries dir (sort_key fst es)"
| "walk_repos dir (Dir None) = Inl dir"
| "walk_repos dir (File _) = Inl dir"
| "walk_repos dir Link = Inl dir"
| "walk_entries dir [] = Inr []"
| "walk_entries dir ((name, n) # es) =
     (if \<not> is_dir_node n then walk_entries dir es
      else if name = ''.git'' then
        (case walk_entries dir es of Inl e \<Rightarrow> Inl e | Inr rs \<Rightarrow> Inr (dir # rs))
      else (case walk_repos (path_join [dir, name]) n of
          Inl e \<Rightarrow> Inl e
        | Inr rs \<Rightarrow> (case walk_entries dir es of Inl e \<Rightarrow> Inl e | Inr rs' \<Rightarrow> Inr (rs @ rs'))))"
  by pat_completeness auto
termination
  by (relation "measure (\<lambda>x. case x of Inl (_, n) \<Rightarrow> node_size n | Inr (_, es) \<Rightarrow> entries_size es)")
    (auto simp: node_size_entries simp del: node_size.simps(4))

definition tag_file :: "entries \<Rightarrow> node option" where
  "tag_file es = map_option snd (find (\<lambda>e. \<not> is_dir_node (snd e) \<and> fst e = ''.prtag'') es)"

definition build_project :: "string \<Rightarrow> entries \<Rightarrow> node \<Rightarrow> scan_error + project" where
  "build_project dir es tag =
     (case tag of
        File (Some b) \<Rightarrow>
          (case parse_prtag b of
             Inl e \<Rightarrow> Inl (Tag_invalid dir e)
           | Inr t \<Rightarrow> (case walk_repos dir (Dir (Some es)) of
               Inl d \<Rightarrow> Inl (Repos_unreadable dir d)
             | Inr rs \<Rightarrow> Inr \<lparr>pj_path = dir, pj_tag = t, pj_repos = rs\<rparr>))
      | _ \<Rightarrow> Inl (Tag_unreadable dir))"

definition project_here :: "string \<Rightarrow> entries \<Rightarrow> project list \<times> scan_error list" where
  "project_here dir es = (case tag_file (sort_key fst es) of
     None \<Rightarrow> ([], [])
   | Some tag \<Rightarrow> (case build_project dir es tag of Inl e \<Rightarrow> ([], [e]) | Inr p \<Rightarrow> ([p], [])))"

text \<open>\<^verbatim>\<open>scanProjects\<close>: an unreadable directory or a cancelled context ends the scan; a bad project is
  collected. \<open>stop\<close> tells at which directories the context is found cancelled.\<close>

function scan_projects :: "(string \<Rightarrow> bool) \<Rightarrow> string \<Rightarrow> node \<Rightarrow> scan_error + project list \<times> scan_error list"
  and scan_entries :: "(string \<Rightarrow> bool) \<Rightarrow> string \<Rightarrow> entries \<Rightarrow> scan_error + project list \<times> scan_error list" where
  "scan_projects stop dir (Dir (Some es)) =
     (if stop dir then Inl Cancelled
      else (case scan_entries stop dir (sort_key fst es) of
          Inl e \<Rightarrow> Inl e
        | Inr (ps, errs) \<Rightarrow> Inr (fst (project_here dir es) @ ps, snd (project_here dir es) @ errs)))"
| "scan_projects stop dir (Dir None) = (if stop dir then Inl Cancelled else Inl (Read_dir dir))"
| "scan_projects stop dir (File _) = (if stop dir then Inl Cancelled else Inl (Read_dir dir))"
| "scan_projects stop dir Link = (if stop dir then Inl Cancelled else Inl (Read_dir dir))"
| "scan_entries stop dir [] = Inr ([], [])"
| "scan_entries stop dir ((name, n) # es) =
     (if \<not> is_dir_node n \<or> name = ''.git'' then scan_entries stop dir es
      else (case scan_projects stop (path_join [dir, name]) n of
          Inl e \<Rightarrow> Inl e
        | Inr (ps, errs) \<Rightarrow> (case scan_entries stop dir es of
            Inl e \<Rightarrow> Inl e
          | Inr (ps', errs') \<Rightarrow> Inr (ps @ ps', errs @ errs'))))"
  by pat_completeness auto
termination
  by (relation "measure (\<lambda>x. case x of Inl (_, _, n) \<Rightarrow> node_size n | Inr (_, _, es) \<Rightarrow> entries_size es)")
    (auto simp: node_size_entries simp del: node_size.simps(4))

definition sort_repos :: "project \<Rightarrow> project" where
  "sort_repos p = p\<lparr>pj_repos := sort (pj_repos p)\<rparr>"

text \<open>\<^verbatim>\<open>Scan\<close>: the snapshot comes with the errors of bad projects, if any; other errors leave none.\<close>

definition scan :: "(string \<Rightarrow> bool) \<Rightarrow> string \<Rightarrow> node option \<Rightarrow> scan_error + snapshot \<times> scan_error list" where
  "scan stop base tree =
     (case tree of
        None \<Rightarrow> Inl (Root_missing base)
      | Some n \<Rightarrow>
          if \<not> is_dir_node n then Inl (Root_no_dir base)
          else (case scan_projects stop base n of
              Inl e \<Rightarrow> Inl e
            | Inr (ps, errs) \<Rightarrow> Inr (\<lparr>sn_root = base, sn_projects = map sort_repos (sort_key pj_path ps)\<rparr>, errs)))"

section \<open>Differences\<close>

record difference =
  df_added :: "project list"
  df_removed :: "string list"
  df_changed :: "project list"

text \<open>The map from paths: the last project of a path counts.\<close>

definition by_path :: "snapshot \<Rightarrow> (string \<times> project) list" where
  "by_path s = go_entries (rev (map (\<lambda>p. (pj_path p, p)) (sn_projects s)))"

definition same_project :: "project \<Rightarrow> project \<Rightarrow> bool" where
  "same_project a b \<longleftrightarrow> pj_path a = pj_path b \<and> pj_tag a = pj_tag b \<and> pj_repos a = pj_repos b"

definition compute_diff :: "snapshot \<Rightarrow> snapshot \<Rightarrow> difference" where
  "compute_diff prev next = \<lparr>
     df_added = sort_key pj_path (map snd (filter (\<lambda>(path, _). map_of (by_path prev) path = None) (by_path next))),
     df_removed = sort (map fst (filter (\<lambda>(path, _). map_of (by_path next) path = None) (by_path prev))),
     df_changed = sort_key pj_path (map snd (filter (\<lambda>(path, p). case map_of (by_path prev) path of
       None \<Rightarrow> False | Some old \<Rightarrow> \<not> same_project old p) (by_path next)))\<rparr>"

definition empty_snapshot :: snapshot where
  "empty_snapshot = \<lparr>sn_root = [], sn_projects = []\<rparr>"

text \<open>\<^verbatim>\<open>Rescan\<close>: after a failed scan the difference is against the empty snapshot.\<close>

definition rescan :: "(string \<Rightarrow> bool) \<Rightarrow> string \<Rightarrow> node option \<Rightarrow> snapshot \<Rightarrow> snapshot \<times> difference \<times> scan_error list" where
  "rescan stop base tree prev =
     (case scan stop base tree of
        Inl e \<Rightarrow> (empty_snapshot, compute_diff prev empty_snapshot, [e])
      | Inr (next, errs) \<Rightarrow> (next, compute_diff prev next, errs))"

section \<open>What a scan finds\<close>

text \<open>\<open>reaches d n d' es\<close>: the directory \<open>d'\<close> with entries \<open>es\<close> lies at or below \<open>n\<close> at path \<open>d\<close>, not inside a
  \<^verbatim>\<open>.git\<close> directory and not behind a symbolic link.\<close>

inductive reaches :: "string \<Rightarrow> node \<Rightarrow> string \<Rightarrow> entries \<Rightarrow> bool" where
  here: "reaches d (Dir (Some es)) d es"
| below: "(name, n) \<in> set es \<Longrightarrow> is_dir_node n \<Longrightarrow> name \<noteq> ''.git'' \<Longrightarrow> reaches (path_join [d, name]) n d' es'
    \<Longrightarrow> reaches d (Dir (Some es)) d' es'"

inductive_simps reaches_Dir: "reaches d (Dir (Some es)) d' es'"

text \<open>The directories reached through a list of entries.\<close>

definition reaches_in :: "string \<Rightarrow> entries \<Rightarrow> string \<Rightarrow> entries \<Rightarrow> bool" where
  "reaches_in d es d' es' \<longleftrightarrow> (\<exists>name n. (name, n) \<in> set es \<and> is_dir_node n \<and> name \<noteq> ''.git''
     \<and> reaches (path_join [d, name]) n d' es')"

lemma reaches_in_simps [simp]: "\<not> reaches_in d [] d' es'"
  "reaches_in d ((name, n) # es) d' es' \<longleftrightarrow>
     is_dir_node n \<and> name \<noteq> ''.git'' \<and> reaches (path_join [d, name]) n d' es' \<or> reaches_in d es d' es'"
  by (auto simp: reaches_in_def)

lemma reaches_in_sort [simp]: "reaches_in d (sort_key k es) d' es' \<longleftrightarrow> reaches_in d es d' es'"
  by (simp add: reaches_in_def)

lemma reaches_iff: "reaches d (Dir (Some es)) d' es' \<longleftrightarrow> d' = d \<and> es' = es \<or> reaches_in d es d' es'"
  by (auto simp: reaches_Dir reaches_in_def)

definition git_inside :: "entries \<Rightarrow> bool" where
  "git_inside es \<longleftrightarrow> (\<exists>n. (''.git'', n) \<in> set es \<and> is_dir_node n)"

lemma git_inside_simps [simp]: "\<not> git_inside []"
  "git_inside ((name, n) # es) \<longleftrightarrow> name = ''.git'' \<and> is_dir_node n \<or> git_inside es"
  by (auto simp: git_inside_def)

lemma git_inside_sort [simp]: "git_inside (sort_key k es) \<longleftrightarrow> git_inside es"
  by (simp add: git_inside_def)

lemma walk_repos_finds:
  "walk_repos d n = Inr rs \<Longrightarrow> r \<in> set rs \<longleftrightarrow> (\<exists>es. reaches d n r es \<and> git_inside es)"
  "walk_entries d es = Inr rs \<Longrightarrow> r \<in> set rs \<longleftrightarrow> r = d \<and> git_inside es \<or> (\<exists>es'. reaches_in d es r es' \<and> git_inside es')"
proof (induction d n and d es arbitrary: rs and rs rule: walk_repos_walk_entries.induct)
  case (6 dir name n es)
  show ?case
  proof (cases "\<not> is_dir_node n \<or> name = ''.git''")
    case True
    with 6 show ?thesis
      by (auto split: sum.split_asm if_split_asm)
  next
    case False
    with "6.prems" obtain rs1 rs2 where w: "walk_repos (path_join [dir, name]) n = Inr rs1" "walk_entries dir es = Inr rs2"
      and rs: "rs = rs1 @ rs2"
      by (auto split: sum.split_asm)
    have "r \<in> set rs1 \<longleftrightarrow> (\<exists>es. reaches (path_join [dir, name]) n r es \<and> git_inside es)"
      using "6.IH"(3) [OF _ _ w(1)] False by simp
    moreover have "r \<in> set rs2 \<longleftrightarrow> r = dir \<and> git_inside es \<or> (\<exists>es'. reaches_in dir es r es' \<and> git_inside es')"
      using "6.IH"(4) [OF _ _ w(1) w(2)] False by simp
    ultimately show ?thesis
      using False by (auto simp: rs)
  qed
qed (auto simp: reaches_iff)

lemma scan_projects_finds:
  "scan_projects stop d n = Inr (ps, errs) \<Longrightarrow>
     (\<forall>p. p \<in> set ps \<longleftrightarrow> (\<exists>d' es. reaches d n d' es \<and> p \<in> set (fst (project_here d' es))))
     \<and> (\<forall>e. e \<in> set errs \<longleftrightarrow> (\<exists>d' es. reaches d n d' es \<and> e \<in> set (snd (project_here d' es))))"
  "scan_entries stop d es = Inr (ps, errs) \<Longrightarrow>
     (\<forall>p. p \<in> set ps \<longleftrightarrow> (\<exists>d' es'. reaches_in d es d' es' \<and> p \<in> set (fst (project_here d' es'))))
     \<and> (\<forall>e. e \<in> set errs \<longleftrightarrow> (\<exists>d' es'. reaches_in d es d' es' \<and> e \<in> set (snd (project_here d' es'))))"
proof (induction stop d n and stop d es arbitrary: ps errs and ps errs rule: scan_projects_scan_entries.induct)
  case (1 stop dir es)
  then obtain ps' errs' where s: "scan_entries stop dir (sort_key fst es) = Inr (ps', errs')" "\<not> stop dir"
    and ps: "ps = fst (project_here dir es) @ ps'" "errs = snd (project_here dir es) @ errs'"
    by (auto split: if_split_asm sum.split_asm)
  from "1.IH" [OF s(2) s(1)] show ?case
    by (auto simp: reaches_iff ps)
next
  case (6 stop dir name n es)
  show ?case
  proof (cases "\<not> is_dir_node n \<or> name = ''.git''")
    case True
    with 6 show ?thesis
      by auto
  next
    case False
    with "6.prems" obtain ps1 errs1 where s1: "scan_projects stop (path_join [dir, name]) n = Inr (ps1, errs1)"
      by (auto split: sum.split_asm)
    with "6.prems" False obtain ps2 errs2 where s2: "scan_entries stop dir es = Inr (ps2, errs2)"
      and ps: "ps = ps1 @ ps2" "errs = errs1 @ errs2"
      by (auto split: sum.split_asm)
    from "6.IH"(2) [OF False s1] "6.IH"(3) [OF False s1 _ s2] False show ?thesis
      by (auto simp: ps)
  qed
qed (auto split: if_split_asm)

section \<open>What a difference says\<close>

lemma map_of_go_entries [simp]: "map_of (go_entries m) = map_of m"
proof
  fix k
  have "distinct (map fst (go_entries m))"
    by (simp add: go_entries_def comp_def)
  then have "map_of (go_entries m) k = Some v \<longleftrightarrow> map_of m k = Some v" for v
    by (simp add: map_of_eq_Some_iff)
  then show "map_of (go_entries m) k = map_of m k"
    by (metis not_Some_eq)
qed

definition paths_distinct :: "snapshot \<Rightarrow> bool" where
  "paths_distinct s \<longleftrightarrow> distinct (map pj_path (sn_projects s))"

lemma by_path_Some:
  assumes "paths_distinct s"
  shows "map_of (by_path s) k = Some p \<longleftrightarrow> p \<in> set (sn_projects s) \<and> pj_path p = k"
proof -
  have "distinct (map fst (rev (map (\<lambda>p. (pj_path p, p)) (sn_projects s))))"
    using assms by (simp add: paths_distinct_def rev_map [symmetric] comp_def)
  then have "map_of (rev (map (\<lambda>p. (pj_path p, p)) (sn_projects s))) k = Some p
      \<longleftrightarrow> (k, p) \<in> set (rev (map (\<lambda>p. (pj_path p, p)) (sn_projects s)))"
    by (rule map_of_eq_Some_iff)
  then show ?thesis
    by (auto simp: by_path_def)
qed

lemma by_path_None: "paths_distinct s \<Longrightarrow> map_of (by_path s) k = None \<longleftrightarrow> k \<notin> pj_path ` set (sn_projects s)"
  by (metis by_path_Some image_iff not_Some_eq)

lemma in_by_path: "paths_distinct s \<Longrightarrow> (k, p) \<in> set (by_path s) \<longleftrightarrow> p \<in> set (sn_projects s) \<and> pj_path p = k"
  using by_path_Some by (simp add: by_path_def)

lemma same_project_eq: "same_project a b \<longleftrightarrow> a = b"
  by (auto simp: same_project_def)

lemma path_image: "(\<exists>p. p \<in> A \<and> pj_path p = k) \<longleftrightarrow> k \<in> pj_path ` A"
  by blast

lemma compute_diff_sets:
  assumes "paths_distinct prev" "paths_distinct next"
  shows "set (df_added (compute_diff prev next)) = {p \<in> set (sn_projects next). pj_path p \<notin> pj_path ` set (sn_projects prev)}"
    and "set (df_removed (compute_diff prev next)) = pj_path ` set (sn_projects prev) - pj_path ` set (sn_projects next)"
    and "set (df_changed (compute_diff prev next)) = {p \<in> set (sn_projects next). p \<notin> set (sn_projects prev)
      \<and> pj_path p \<in> pj_path ` set (sn_projects prev)}"
proof -
  let ?d = "compute_diff prev next"
  have "p \<in> set (df_added ?d) \<longleftrightarrow> (\<exists>k. (k, p) \<in> set (by_path next) \<and> map_of (by_path prev) k = None)" for p
    by (auto simp: compute_diff_def image_iff)
  then have "p \<in> set (df_added ?d) \<longleftrightarrow> p \<in> set (sn_projects next) \<and> pj_path p \<notin> pj_path ` set (sn_projects prev)" for p
    unfolding in_by_path [OF assms(2)] by_path_None [OF assms(1)] by blast
  then show "set (df_added ?d) = {p \<in> set (sn_projects next). pj_path p \<notin> pj_path ` set (sn_projects prev)}"
    by blast
  have "k \<in> set (df_removed ?d) \<longleftrightarrow> (\<exists>p. (k, p) \<in> set (by_path prev)) \<and> map_of (by_path next) k = None" for k
    by (auto simp: compute_diff_def image_iff)
  then have "k \<in> set (df_removed ?d) \<longleftrightarrow> k \<in> pj_path ` set (sn_projects prev) \<and> k \<notin> pj_path ` set (sn_projects next)" for k
    unfolding in_by_path [OF assms(1)] by_path_None [OF assms(2)] path_image .
  then show "set (df_removed ?d) = pj_path ` set (sn_projects prev) - pj_path ` set (sn_projects next)"
    by blast
  have "p \<in> set (df_changed ?d) \<longleftrightarrow> (\<exists>k. (k, p) \<in> set (by_path next)
      \<and> (case map_of (by_path prev) k of None \<Rightarrow> False | Some old \<Rightarrow> old \<noteq> p))" for p
    by (auto simp: compute_diff_def same_project_eq image_iff split: option.splits)
  moreover have "(case map_of (by_path prev) (pj_path p) of None \<Rightarrow> False | Some old \<Rightarrow> old \<noteq> p)
      \<longleftrightarrow> p \<notin> set (sn_projects prev) \<and> pj_path p \<in> pj_path ` set (sn_projects prev)" for p
  proof (cases "map_of (by_path prev) (pj_path p)")
    case None
    then have "pj_path p \<notin> pj_path ` set (sn_projects prev)"
      using by_path_None [OF assms(1)] by blast
    with None show ?thesis
      by simp
  next
    case (Some old)
    then have old: "old \<in> set (sn_projects prev)" "pj_path p = pj_path old"
      using by_path_Some [OF assms(1)] by simp_all
    then have "pj_path p \<in> pj_path ` set (sn_projects prev)"
      by (rule rev_image_eqI)
    moreover have "p \<in> set (sn_projects prev) \<longleftrightarrow> old = p"
      using by_path_Some [OF assms(1), of "pj_path p" p] unfolding Some by simp
    ultimately show ?thesis
      unfolding Some by simp
  qed
  moreover have "(\<exists>k. (k, p) \<in> set (by_path next) \<and> P k) \<longleftrightarrow> p \<in> set (sn_projects next) \<and> P (pj_path p)" for p P
    unfolding in_by_path [OF assms(2)] by blast
  ultimately have "p \<in> set (df_changed ?d) \<longleftrightarrow> p \<in> set (sn_projects next) \<and> p \<notin> set (sn_projects prev)
      \<and> pj_path p \<in> pj_path ` set (sn_projects prev)" for p
    by simp
  then show "set (df_changed ?d) = {p \<in> set (sn_projects next). p \<notin> set (sn_projects prev)
      \<and> pj_path p \<in> pj_path ` set (sn_projects prev)}"
    by blast
qed

text \<open>Patching the old snapshot with the difference gives the new one.\<close>

definition patch :: "project set \<Rightarrow> difference \<Rightarrow> project set" where
  "patch ps d = {p \<in> ps. pj_path p \<notin> set (df_removed d) \<union> pj_path ` set (df_changed d)}
     \<union> set (df_added d) \<union> set (df_changed d)"

lemma patch_compute_diff:
  assumes "paths_distinct prev" "paths_distinct next"
  shows "patch (set (sn_projects prev)) (compute_diff prev next) = set (sn_projects next)"
proof -
  have inj: "inj_on pj_path (set (sn_projects prev))"
    using assms(1) by (simp add: paths_distinct_def distinct_map)
  have keep: "p \<in> set (sn_projects next)"
    if "p \<in> set (sn_projects prev)" "q \<in> set (sn_projects next)" "pj_path q = pj_path p"
      "pj_path p \<notin> pj_path ` set (df_changed (compute_diff prev next))" for p q
  proof (cases "q \<in> set (sn_projects prev)")
    case True
    with that inj show ?thesis
      by (metis inj_onD)
  next
    case False
    with that compute_diff_sets(3) [OF assms] have "q \<in> set (df_changed (compute_diff prev next))"
      by (auto intro: rev_image_eqI)
    with that show ?thesis
      by (metis image_eqI)
  qed
  have stay: "p \<in> patch (set (sn_projects prev)) (compute_diff prev next)" if "p \<in> set (sn_projects next)" for p
  proof (cases "p \<in> set (sn_projects prev)")
    case True
    have "inj_on pj_path (set (sn_projects next))"
      using assms(2) by (simp add: paths_distinct_def distinct_map)
    then have "pj_path p \<notin> pj_path ` set (df_changed (compute_diff prev next))"
      using True that compute_diff_sets(3) [OF assms] by (auto dest: inj_onD)
    with True that show ?thesis
      by (auto simp: patch_def compute_diff_sets(2) [OF assms])
  next
    case False
    with that show ?thesis
      by (auto simp: patch_def compute_diff_sets(1,3) [OF assms])
  qed
  have "p \<in> set (sn_projects next)" if "p \<in> patch (set (sn_projects prev)) (compute_diff prev next)" for p
  proof (cases "p \<in> set (df_added (compute_diff prev next)) \<union> set (df_changed (compute_diff prev next))")
    case True
    then show ?thesis
      unfolding compute_diff_sets [OF assms] by blast
  next
    case False
    with that have p: "p \<in> set (sn_projects prev)" "pj_path p \<notin> pj_path ` set (df_changed (compute_diff prev next))"
      "pj_path p \<notin> set (df_removed (compute_diff prev next))"
      unfolding patch_def by blast+
    have "pj_path p \<in> pj_path ` set (sn_projects prev)"
      using p(1) by (rule imageI)
    with p(3) have "pj_path p \<in> pj_path ` set (sn_projects next)"
      unfolding compute_diff_sets(2) [OF assms] by (simp only: Diff_iff simp_thms)
    then obtain q where "q \<in> set (sn_projects next)" "pj_path q = pj_path p"
      by (auto elim!: imageE)
    with p(1,2) show ?thesis
      by (intro keep [of p q])
  qed
  with stay show ?thesis
    by blast
qed

section \<open>Properties\<close>


definition sample_tree :: node where
  "sample_tree = Dir (Some [(''b'', Dir (Some [(''.git'', Dir (Some [])), (''x'', File None)])), (''.prtag'', File (Some (''n:'' @ [lf])))])"


text \<open>A difference carries the whole change: for snapshots whose paths are distinct, removing the removed and
  changed paths from the old projects and adding the added and changed projects gives exactly the
  new projects; and the three lists are what their names say.\<close>

theorem difference_patches:
  assumes "paths_distinct prev" "paths_distinct next"
  shows "patch (set (sn_projects prev)) (compute_diff prev next) = set (sn_projects next)
    \<and> set (df_added (compute_diff prev next)) = {p \<in> set (sn_projects next). pj_path p \<notin> pj_path ` set (sn_projects prev)}
    \<and> set (df_removed (compute_diff prev next)) = pj_path ` set (sn_projects prev) - pj_path ` set (sn_projects next)
    \<and> set (df_changed (compute_diff prev next)) = {p \<in> set (sn_projects next). p \<notin> set (sn_projects prev)
      \<and> pj_path p \<in> pj_path ` set (sn_projects prev)}"
  using patch_compute_diff [OF assms] compute_diff_sets [OF assms] by blast

definition sample_snapshot :: "string list \<Rightarrow> snapshot" where
  "sample_snapshot ds = \<lparr>sn_root = [], sn_projects = map (\<lambda>d. \<lparr>pj_path = d, pj_tag = sample_prtag, pj_repos = ds\<rparr>) ds\<rparr>"

lemma difference_patches_witness:
  "patch (set (sn_projects (sample_snapshot [''a'', ''b'']))) (compute_diff (sample_snapshot [''a'', ''b'']) (sample_snapshot [''b'', ''c'']))
    = set (sn_projects (sample_snapshot [''b'', ''c'']))"
  using difference_patches [of "sample_snapshot [''a'', ''b'']" "sample_snapshot [''b'', ''c'']"]
  by (simp add: paths_distinct_def sample_snapshot_def)

end
