(* ===== verification/Go_Flags.thy ===== *)
theory Go_Flags
  imports Go_Strings
begin

text \<open>
  What the command-line tools use of Go's \<^verbatim>\<open>flag\<close> package: the loop of \<^verbatim>\<open>FlagSet.Parse\<close> over
  \<^verbatim>\<open>-name\<close>, \<^verbatim>\<open>-name=value\<close> and \<^verbatim>\<open>-name value\<close>, stopping at the first operand or after \<^verbatim>\<open>--\<close>.
  A value is kept as the text that was set; \<open>ok\<close> is the parser of the flag's type.
\<close>

datatype flag_kind = Flag_bool | Flag_string | Flag_duration

datatype flag_error = Bad_syntax string | Not_defined string | Help_requested | Bad_value string string | No_argument string

definition bool_texts :: "string list" where
  "bool_texts = [''1'', ''t'', ''T'', ''TRUE'', ''true'', ''True'', ''0'', ''f'', ''F'', ''FALSE'', ''false'', ''False'']"

definition bool_of_text :: "string \<Rightarrow> bool" where
  "bool_of_text s \<longleftrightarrow> s \<in> set [''1'', ''t'', ''T'', ''TRUE'', ''true'', ''True'']"

definition value_ok :: "(string \<Rightarrow> bool) \<Rightarrow> flag_kind \<Rightarrow> string \<Rightarrow> bool" where
  "value_ok dur k v = (case k of Flag_bool \<Rightarrow> v \<in> set bool_texts | Flag_string \<Rightarrow> True | Flag_duration \<Rightarrow> dur v)"

type_synonym flag_values = "(string \<times> string) list"

text \<open>The name and value of an argument \<^verbatim>\<open>-name\<close> or \<^verbatim>\<open>-name=value\<close>; an equals sign cannot be first.\<close>

definition split_flag :: "string \<Rightarrow> string \<times> string option" where
  "split_flag name = (let (k, v, found) = cut (CHR ''='') (List.tl name) in
     if found then (hd name # k, Some v) else (name, None))"

fun parse_flags :: "(string \<Rightarrow> bool) \<Rightarrow> (string \<Rightarrow> flag_kind option) \<Rightarrow> flag_values \<Rightarrow> string list
    \<Rightarrow> flag_error + flag_values \<times> string list" where
  "parse_flags dur formal set_so_far [] = Inr (set_so_far, [])"
| "parse_flags dur formal set_so_far (a # args) =
     (if length a < 2 \<or> hd a \<noteq> CHR ''-'' then Inr (set_so_far, a # args)
      else if a = ''--'' then Inr (set_so_far, args)
      else let name = (if has_prefix a ''--'' then drop 2 a else drop 1 a) in
        if name = [] \<or> hd name = CHR ''-'' \<or> hd name = CHR ''='' then Inl (Bad_syntax a)
        else case split_flag name of (k, v) \<Rightarrow>
          (case formal k of
             None \<Rightarrow> Inl (if k = ''help'' \<or> k = ''h'' then Help_requested else Not_defined k)
           | Some Flag_bool \<Rightarrow>
               let value = (case v of None \<Rightarrow> ''true'' | Some x \<Rightarrow> x) in
               if value_ok dur Flag_bool value then parse_flags dur formal ((k, value) # set_so_far) args
               else Inl (Bad_value k value)
           | Some kind \<Rightarrow>
               (case v of
                  Some value \<Rightarrow>
                    if value_ok dur kind value then parse_flags dur formal ((k, value) # set_so_far) args
                    else Inl (Bad_value k value)
                | None \<Rightarrow>
                    (case args of
                       [] \<Rightarrow> Inl (No_argument k)
                     | value # args' \<Rightarrow>
                         if value_ok dur kind value then parse_flags dur formal ((k, value) # set_so_far) args'
                         else Inl (Bad_value k value)))))"

text \<open>The value of a flag after parsing: the last one set, or the default.\<close>

definition flag_value :: "flag_values \<Rightarrow> string \<Rightarrow> string \<Rightarrow> string" where
  "flag_value vs k d = (case map_of vs k of None \<Rightarrow> d | Some v \<Rightarrow> v)"

definition flag_set :: "flag_values \<Rightarrow> string \<Rightarrow> bool" where
  "flag_set vs k \<longleftrightarrow> bool_of_text (flag_value vs k ''false'')"

lemma parse_flags_operand: "a = [] \<or> hd a \<noteq> CHR ''-'' \<or> a = ''-'' \<Longrightarrow> parse_flags dur formal vs (a # args) = Inr (vs, a # args)"
  by auto

end
