(* ===== verification/Agentcommit.thy ===== *)
theory Agentcommit
  imports Pulse Sandbox_Daemon Go_Flags
begin

text \<open>
  \<^verbatim>\<open>agentcommit\<close>: collects the leaves of every committed configuration, builds the tree, writes the
  proof file of each registrant and prints the root; and the anchor command that checks it. The
  files are a map from paths to contents that the run reads and changes; \<open>disk\<close> answers whether each
  step of an atomic write succeeds. JSON decoders and the encoder of proof files are parameters.
\<close>

section \<open>Writing a proof file\<close>

type_synonym files = "string \<Rightarrow> file_outcome"

record disk =
  dk_mkdir :: "string \<Rightarrow> bool"
  dk_write :: "string \<Rightarrow> bool"
  dk_torn :: "string \<Rightarrow> file_outcome"
  dk_rename :: "string \<Rightarrow> bool"

definition temp_path :: "string \<Rightarrow> string" where
  "temp_path path = path @ ''.agentcommit.tmp''"

definition atomic_write_file :: "disk \<Rightarrow> string \<Rightarrow> bytes \<Rightarrow> files \<Rightarrow> bool \<times> files" where
  "atomic_write_file dk path data fs =
     (if \<not> dk_mkdir dk (path_dir path) then (False, fs)
      else let tmp = temp_path path in
        if \<not> dk_write dk tmp then (False, fs(tmp := dk_torn dk tmp))
        else if \<not> dk_rename dk path then (False, fs(tmp := File_data data))
        else (True, fs(tmp := File_missing, path := File_data data)))"

datatype commit_error = Pulse_failed | Tasks_failed | Allowlist_failed command_error | Sandbox_failed
  | Build_failed commitment_error | Proof_failed commitment_error | Write_failed string

fun leaf_proofs :: "tree \<Rightarrow> leaf list \<Rightarrow> (string \<times> merkle_proof) list \<Rightarrow> commitment_error + (string \<times> merkle_proof) list" where
  "leaf_proofs t [] entries = Inr entries"
| "leaf_proofs t (l # ls) entries =
     (case proof_for t (leaf_key l) of Inl e \<Rightarrow> Inl e
      | Inr p \<Rightarrow> leaf_proofs t ls ((leaf_key l, p) # entries))"

text \<open>The proof file of some leaves; JSON writes the entries of a map in key order.\<close>

definition sidecar_of :: "tree \<Rightarrow> hash \<Rightarrow> (string \<times> merkle_proof) list \<Rightarrow> proof_file_json" where
  "sidecar_of t r entries = encode_proof_file r (sorted_entries entries)"

definition write_proof_sidecar :: "(proof_file_json \<Rightarrow> bytes) \<Rightarrow> disk \<Rightarrow> tree \<Rightarrow> hash \<Rightarrow> leaf list \<Rightarrow> string \<Rightarrow> files
    \<Rightarrow> commit_error option \<times> files" where
  "write_proof_sidecar encp dk t r ls path fs =
     (case leaf_proofs t ls [] of
        Inl e \<Rightarrow> (Some (Proof_failed e), fs)
      | Inr entries \<Rightarrow>
          (case atomic_write_file dk path (encp (sidecar_of t r entries)) fs of
             (ok, fs') \<Rightarrow> (if ok then None else Some (Write_failed path), fs')))"

fun write_sidecars :: "(proof_file_json \<Rightarrow> bytes) \<Rightarrow> disk \<Rightarrow> tree \<Rightarrow> hash \<Rightarrow> (leaf list \<times> string) list \<Rightarrow> files
    \<Rightarrow> commit_error option \<times> files" where
  "write_sidecars encp dk t r [] fs = (None, fs)"
| "write_sidecars encp dk t r ((ls, path) # ws) fs =
     (case write_proof_sidecar encp dk t r ls path fs of
        (Some e, fs') \<Rightarrow> (Some e, fs')
      | (None, fs') \<Rightarrow> write_sidecars encp dk t r ws fs')"

section \<open>Collecting the leaves\<close>

record commit_env =
  ce_hash :: "bytes \<Rightarrow> hash"
  ce_texts :: texts
  ce_embedded :: bytes
  ce_allowlist :: "bytes \<Rightarrow> allowlist option"
  ce_sandbox :: "bytes \<Rightarrow> sandbox_config option"
  ce_encode :: "proof_file_json \<Rightarrow> bytes"
  ce_home :: string
  ce_list_env :: string

definition policy_path :: "string \<Rightarrow> string" where
  "policy_path home = path_join [home, ''.config'', ''interpose'', ''config'']"

definition list_path :: "string \<Rightarrow> string \<Rightarrow> string" where
  "list_path env home = (if env \<noteq> [] then env
     else path_join [home, ''.config'', ''interpose'', ''command-allowlist.json''])"

definition sandbox_path :: "string \<Rightarrow> string" where
  "sandbox_path home = path_join [home, ''Library'', ''Application Support'', ''sandbox'', ''config.json'']"

definition load_sandbox :: "(bytes \<Rightarrow> sandbox_config option) \<Rightarrow> file_outcome \<Rightarrow> sandbox_config loading" where
  "load_sandbox dec f = (case f of
     File_missing \<Rightarrow> Load_missing
   | File_failed \<Rightarrow> Load_error
   | File_data b \<Rightarrow> (case dec b of None \<Rightarrow> Load_error
       | Some c \<Rightarrow> if validate_config c = None then Loaded c else Load_error))"

record committed =
  cm_jobs :: "job list"
  cm_tasks :: "task list"
  cm_policy :: interpose_config
  cm_list :: allowlist
  cm_sandbox :: "sandbox_config option"

definition file_text :: "file_outcome \<Rightarrow> string option" where
  "file_text f = (case f of File_data b \<Rightarrow> Some (string_of b) | _ \<Rightarrow> None)"

definition gather :: "commit_env \<Rightarrow> string \<Rightarrow> string \<Rightarrow> files \<Rightarrow> commit_error + committed" where
  "gather ce jobs_path tasks_path fs =
     (let jobs = load_file (parse_jobs (ce_texts ce)) (fs jobs_path);
          tasks = load_file (parse_tasks (ce_texts ce)) (fs tasks_path);
          sandbox = load_sandbox (ce_sandbox ce) (fs (sandbox_path (ce_home ce))) in
      if jobs = Load_error then Inl Pulse_failed
      else if tasks = Load_error then Inl Tasks_failed
      else case load_allowlist fs (ce_embedded ce) (ce_allowlist ce) (list_path (ce_list_env ce) (ce_home ce)) of
        Inl e \<Rightarrow> Inl (Allowlist_failed e)
      | Inr list \<Rightarrow>
          if sandbox = Load_error then Inl Sandbox_failed
          else Inr \<lparr>cm_jobs = loaded_list jobs, cm_tasks = loaded_list tasks,
            cm_policy = fst (load_interpose_config None (file_text (fs (policy_path (ce_home ce))))),
            cm_list = list, cm_sandbox = (case sandbox of Loaded c \<Rightarrow> Some c | _ \<Rightarrow> None)\<rparr>)"

definition sandbox_leaves :: "committed \<Rightarrow> leaf list" where
  "sandbox_leaves cm = (case cm_sandbox cm of None \<Rightarrow> [] | Some c \<Rightarrow> [the_sandbox_leaf c])"

definition all_leaves :: "texts \<Rightarrow> committed \<Rightarrow> leaf list" where
  "all_leaves tx cm = map job_leaf (cm_jobs cm) @ map (task_leaf tx) (cm_tasks cm)
     @ [interpose_config_leaf (cm_policy cm), allowlist_leaf (cm_list cm)] @ sandbox_leaves cm"

text \<open>The proof files in the order they are written; a registrant without leaves has none.\<close>

definition registrants :: "commit_env \<Rightarrow> string \<Rightarrow> string \<Rightarrow> committed \<Rightarrow> (leaf list \<times> string) list" where
  "registrants ce jobs_path tasks_path cm =
     (if cm_jobs cm \<noteq> [] then [(map job_leaf (cm_jobs cm), jobs_path @ ''.proof'')] else [])
     @ (if cm_tasks cm \<noteq> [] then [(map (task_leaf (ce_texts ce)) (cm_tasks cm), tasks_path @ ''.proof'')] else [])
     @ [([interpose_config_leaf (cm_policy cm)], policy_path (ce_home ce) @ ''.proof''),
        ([allowlist_leaf (cm_list cm)], list_path (ce_list_env ce) (ce_home ce) @ ''.proof'')]
     @ (if sandbox_leaves cm \<noteq> [] then [(sandbox_leaves cm, sandbox_path (ce_home ce) @ ''.proof'')] else [])"

text \<open>The run: its result, the files afterwards and the lines on standard output.\<close>

definition run_commit :: "commit_env \<Rightarrow> disk \<Rightarrow> string \<Rightarrow> string \<Rightarrow> files \<Rightarrow> (commit_error + hash) \<times> files \<times> string list" where
  "run_commit ce dk jobs_path tasks_path fs =
     (case gather ce jobs_path tasks_path fs of
        Inl e \<Rightarrow> (Inl e, fs, [])
      | Inr cm \<Rightarrow>
          (case build (ce_hash ce) (all_leaves (ce_texts ce) cm) of
             Inl e \<Rightarrow> (Inl (Build_failed e), fs, [])
           | Inr t \<Rightarrow>
               (case write_sidecars (ce_encode ce) dk t (tree_root t) (registrants ce jobs_path tasks_path cm) fs of
                  (Some e, fs') \<Rightarrow> (Inl e, fs', [])
                | (None, fs') \<Rightarrow> (Inr (tree_root t), fs', [root_hex (tree_root t)]))))"

section \<open>The commands\<close>

definition anchor_flags :: "string list \<Rightarrow> string option" where
  "anchor_flags args =
     (case parse_flags (\<lambda>_. False) [''root'' \<mapsto> Flag_string] [] args of
        Inl _ \<Rightarrow> None
      | Inr (vs, _) \<Rightarrow> if flag_value vs ''root'' [] = [] then None else Some (flag_value vs ''root'' []))"

definition run_anchor :: "string \<Rightarrow> proof_error + string" where
  "run_anchor root_text =
     (case parse_root_hex root_text of Inl e \<Rightarrow> Inl e
      | Inr r \<Rightarrow> Inr (''[anchor] agentcommit-anchor: root='' @ root_hex r))"

text \<open>\<^verbatim>\<open>main\<close>: the exit status, the files afterwards and standard output.\<close>

definition commit_cli :: "commit_env \<Rightarrow> disk \<Rightarrow> string list \<Rightarrow> files \<Rightarrow> int \<times> files \<times> string list" where
  "commit_cli ce dk args fs =
     (case parse_flags (\<lambda>_. False) [''pulse-config'' \<mapsto> Flag_string, ''pulse-tasks-config'' \<mapsto> Flag_string] [] args of
        Inl _ \<Rightarrow> (2, fs, [])
      | Inr (vs, _) \<Rightarrow>
          (case run_commit ce dk
               (flag_value vs ''pulse-config'' (path_join [ce_home ce, ''.config'', ''pulse'', ''jobs'']))
               (flag_value vs ''pulse-tasks-config'' (path_join [ce_home ce, ''.config'', ''pulse'', ''tasks''])) fs of
             (Inl _, fs', out) \<Rightarrow> (1, fs', out)
           | (Inr _, fs', out) \<Rightarrow> (0, fs', out)))"

definition anchor_cli :: "string list \<Rightarrow> int \<times> string list" where
  "anchor_cli args = (case anchor_flags args of None \<Rightarrow> (2, [])
     | Some r \<Rightarrow> (case run_anchor r of Inl _ \<Rightarrow> (1, []) | Inr line \<Rightarrow> (0, [line])))"

definition agentcommit_main :: "commit_env \<Rightarrow> disk \<Rightarrow> string list \<Rightarrow> files \<Rightarrow> int \<times> files \<times> string list" where
  "agentcommit_main ce dk args fs =
     (case args of
        [] \<Rightarrow> (2, fs, [])
      | cmd # args' \<Rightarrow>
          if cmd = ''commit'' then commit_cli ce dk args' fs
          else if cmd = ''anchor'' then (case anchor_cli args' of (rc, out) \<Rightarrow> (rc, fs, out))
          else if cmd \<in> set [''-h'', ''-help'', ''--help''] then (0, fs, [])
          else (2, fs, []))"

section \<open>The proofs written\<close>

lemma length_next_level_hash:
  "\<forall>m. length (H m) = 32 \<Longrightarrow> \<forall>h \<in> set cur. length h = 32 \<Longrightarrow> \<forall>h \<in> set (next_level H cur). length h = 32"
  by (induction H cur rule: next_level.induct) (auto simp: node_hash_def)

lemma build_levels_proof_wf:
  "\<forall>m. length (H m) = 32 \<Longrightarrow> \<forall>h \<in> set cur. length h = 32 \<Longrightarrow> i < length cur
    \<Longrightarrow> list_all step_wf (proof_steps i (build_levels H cur))"
proof (induction H cur arbitrary: i rule: build_levels.induct)
  case (1 H cur)
  show ?case
  proof (cases "length cur > 1")
    case False
    then show ?thesis
      by (simp add: build_levels_short)
  next
    case True
    obtain lv lvs where b: "build_levels H (next_level H cur) = lv # lvs"
      by (cases "build_levels H (next_level H cur)") simp_all
    have "list_all step_wf (proof_steps (i div 2) (lv # lvs))"
      unfolding b [symmetric]
      using True "1.prems" length_next_level_hash [OF "1.prems"(1,2)] by (intro "1.IH") auto
    moreover have "step_wf \<lparr>step_hash = cur ! j, step_left = l, step_carry = False\<rparr>" if "j < length cur" for j l
      using "1.prems" that by (simp add: step_wf_def)
    moreover have "step_wf \<lparr>step_hash = replicate 32 0, step_left = False, step_carry = True\<rparr>"
      by (simp add: step_wf_def zero_hash_def)
    ultimately show ?thesis
      using "1.prems"(3) by (simp add: build_levels_long [OF True] b)
  qed
qed

lemma proof_for_wf:
  assumes "build H ls = Inr t" "l \<in> set ls" "\<forall>m. length (H m) = 32" "proof_for t (leaf_key l) = Inr p"
  shows "list_all step_wf p"
  using assms(1)
proof (rule build_InrE)
  let ?s = "sort_key leaf_key ls"
  assume lv: "tree_levels t = build_levels H (map (leaf_hash H) ?s)"
    and ix: "\<And>i. i < length ls \<Longrightarrow> tree_index t (leaf_key (?s ! i)) = Some i"
  obtain i where i: "i < length ls" "?s ! i = l"
    using assms(2) by (metis in_set_conv_nth length_sort set_sort)
  have "list_all step_wf (proof_steps i (tree_levels t))"
    unfolding lv using assms(3) i(1) by (intro build_levels_proof_wf) (auto simp: leaf_hash_def)
  with assms(4) ix [OF i(1)] i show ?thesis
    by (simp add: proof_for_def)
qed

lemma tree_root_length: "build H ls = Inr t \<Longrightarrow> \<forall>m. length (H m) = 32 \<Longrightarrow> length (tree_root t) = 32"
proof (erule build_InrE)
  let ?s = "sort_key leaf_key ls"
  assume H: "\<forall>m. length (H m) = 32" and ls: "ls \<noteq> []"
    and lv: "tree_levels t = build_levels H (map (leaf_hash H) ?s)"
  have "\<forall>h \<in> set (last (build_levels H cur)). length h = 32" if "\<forall>h \<in> set cur. length h = 32" for cur
    using H that
  proof (induction H cur rule: build_levels.induct)
    case (1 H cur)
    then show ?case
      using length_next_level_hash [OF "1.prems"]
      by (cases "length cur > 1") (simp_all add: build_levels_long build_levels_short)
  qed
  moreover have "length (last (build_levels H (map (leaf_hash H) ?s))) = 1"
    using ls by (intro last_build_levels_length) simp
  then have "last (build_levels H (map (leaf_hash H) ?s)) \<noteq> []"
    by (metis length_0_conv zero_neq_one)
  then have "tree_root t \<in> set (last (build_levels H (map (leaf_hash H) ?s)))"
    unfolding tree_root_def lv by (rule hd_in_set)
  moreover have "\<forall>h \<in> set (map (leaf_hash H) ?s). length h = 32"
    using H by (auto simp: leaf_hash_def)
  ultimately show "length (tree_root t) = 32"
    by blast
qed

lemma leaf_proofs_Inr:
  "leaf_proofs t ls e0 = Inr es \<Longrightarrow> l \<in> set ls \<Longrightarrow>
     \<exists>p. map_of es (leaf_key l) = Some p \<and> proof_for t (leaf_key l) = Inr p"
proof (induction ls arbitrary: e0)
  case (Cons a ls)
  obtain p where p: "proof_for t (leaf_key a) = Inr p" "leaf_proofs t ls ((leaf_key a, p) # e0) = Inr es"
    using Cons.prems(1) by (auto split: sum.splits)
  have keep: "\<exists>q. map_of es k = Some q \<and> proof_for t k = Inr q"
    if "leaf_proofs t ls' e' = Inr es" "map_of e' k = Some q" "proof_for t k = Inr q" for ls' e' k q
    using that
  proof (induction ls' arbitrary: e')
    case (Cons b ls')
    then obtain r where "proof_for t (leaf_key b) = Inr r" "leaf_proofs t ls' ((leaf_key b, r) # e') = Inr es"
      by (auto split: sum.splits)
    with Cons.IH [OF this(2)] Cons.prems(2,3) show ?case
      by (cases "leaf_key b = k") auto
  qed auto
  show ?case
  proof (cases "l \<in> set ls")
    case True
    with Cons.IH p(2) show ?thesis
      by blast
  next
    case False
    with Cons.prems(2) keep [OF p(2), of "leaf_key a" p] p(1) show ?thesis
      by auto
  qed
qed simp

lemma leaf_proofs_total:
  assumes "build H ls = Inr t" "set ls' \<subseteq> set ls"
  shows "\<exists>es. leaf_proofs t ls' e0 = Inr es"
  using assms(2)
proof (induction ls' arbitrary: e0)
  case (Cons l ls')
  with proof_for_verifies [OF assms(1), of l] show ?case
    by auto
qed simp

lemma leaf_proofs_entries:
  assumes "build H ls = Inr t" "\<forall>m. length (H m) = 32"
  shows "leaf_proofs t ls' e0 = Inr es \<Longrightarrow> set ls' \<subseteq> set ls \<Longrightarrow> list_all (\<lambda>(k, p). list_all step_wf p) e0
    \<Longrightarrow> list_all (\<lambda>(k, p). list_all step_wf p) es"
proof (induction ls' arbitrary: e0)
  case (Cons l ls')
  then obtain p where p: "proof_for t (leaf_key l) = Inr p" "leaf_proofs t ls' ((leaf_key l, p) # e0) = Inr es"
    by (auto split: sum.splits)
  with Cons proof_for_wf [OF assms(1) _ assms(2) p(1)] show ?case
    by auto
qed simp

section \<open>The files written\<close>

lemma atomic_write_file_other:
  "atomic_write_file dk path data fs = (ok, fs') \<Longrightarrow> q \<noteq> path \<Longrightarrow> q \<noteq> temp_path path \<Longrightarrow> fs' q = fs q"
  by (auto simp: atomic_write_file_def Let_def split: if_splits)

lemma temp_path_neq [simp]: "temp_path p \<noteq> p" "p \<noteq> temp_path p"
  by (simp_all add: temp_path_def)

lemma atomic_write_file_path:
  "atomic_write_file dk path data fs = (ok, fs') \<Longrightarrow> fs' path = (if ok then File_data data else fs path)"
  by (auto simp: atomic_write_file_def Let_def split: if_splits)

definition separate :: "string list \<Rightarrow> bool" where
  "separate ps \<longleftrightarrow> distinct ps \<and> set ps \<inter> temp_path ` set ps = {}"

lemma write_sidecars_other:
  "write_sidecars encp dk t r ws fs = (e, fs') \<Longrightarrow> q \<notin> snd ` set ws \<Longrightarrow> q \<notin> temp_path ` snd ` set ws \<Longrightarrow> fs' q = fs q"
proof (induction encp dk t r ws fs rule: write_sidecars.induct)
  case (2 encp dk t r ls path ws fs)
  obtain e1 fs1 where w: "write_proof_sidecar encp dk t r ls path fs = (e1, fs1)"
    by (cases "write_proof_sidecar encp dk t r ls path fs")
  have "fs1 q = fs q"
    using w 2 atomic_write_file_other [of dk path]
    by (auto simp: write_proof_sidecar_def split: sum.splits prod.splits)
  with 2 w show ?case
    by (auto split: option.splits)
qed simp

lemma write_sidecars_path:
  "write_sidecars encp dk t r ws fs = (e, fs') \<Longrightarrow> separate (map snd ws) \<Longrightarrow> (ls, path) \<in> set ws \<Longrightarrow>
     e \<noteq> None \<and> fs' path = fs path \<or> (\<exists>es. leaf_proofs t ls [] = Inr es \<and> fs' path = File_data (encp (sidecar_of t r es)))"
proof (induction encp dk t r ws fs rule: write_sidecars.induct)
  case (2 encp dk t r ls' path' ws fs)
  obtain e1 fs1 where w: "write_proof_sidecar encp dk t r ls' path' fs = (e1, fs1)"
    by (cases "write_proof_sidecar encp dk t r ls' path' fs")
  show ?case
  proof (cases "(ls, path) = (ls', path')")
    case True
    have "e1 \<noteq> None \<and> fs1 path = fs path \<or> (\<exists>es. leaf_proofs t ls [] = Inr es \<and> fs1 path = File_data (encp (sidecar_of t r es)))"
      using w True
      by (auto simp: write_proof_sidecar_def split: sum.splits prod.splits if_splits dest: atomic_write_file_path)
    moreover have "fs' path = fs1 path"
    proof (cases e1)
      case None
      with w "2.prems"(1) have "write_sidecars encp dk t r ws fs1 = (e, fs')"
        by simp
      moreover have "path \<notin> snd ` set ws" "path \<notin> temp_path ` snd ` set ws"
        using "2.prems"(2) True by (auto simp: separate_def)
      ultimately show ?thesis
        by (rule write_sidecars_other)
    qed (use w "2.prems"(1) in simp)
    moreover have "e1 \<noteq> None \<Longrightarrow> e = e1"
      using w "2.prems"(1) by auto
    ultimately show ?thesis
      by auto
  next
    case False
    with "2.prems" have in_ws: "(ls, path) \<in> set ws"
      by auto
    then have "path \<noteq> path'" "path \<noteq> temp_path path'"
      using "2.prems"(2) by (force simp: separate_def)+
    then have "fs1 path = fs path"
      using w atomic_write_file_other [of dk path'] by (auto simp: write_proof_sidecar_def split: sum.splits prod.splits)
    with 2 w in_ws show ?thesis
      by (cases e1) (auto simp: separate_def)
  qed
qed simp

section \<open>What a written proof file presents\<close>

lemma map_of_sorted_entries [simp]: "map_of (sorted_entries m) = map_of m"
proof -
  have "map_of (map (\<lambda>k. (k, the (map_of m k))) ks) k = (if k \<in> set ks then Some (the (map_of m k)) else None)" for ks k
    by (induction ks) auto
  moreover have "k \<in> fst ` set m \<longleftrightarrow> map_of m k \<noteq> None" for k
    by (simp add: map_of_eq_None_iff)
  ultimately show ?thesis
    by (auto simp: sorted_entries_def fun_eq_iff)
qed

lemma sidecar_presents:
  assumes b: "build H ls = Inr t" "\<forall>m. length (H m) = 32" and sub: "set ls' \<subseteq> set ls"
    and es: "leaf_proofs t ls' [] = Inr es" and l: "l \<in> set ls'"
    and dec: "decp (encp (sidecar_of t r es)) = Some (sidecar_of t r es)"
  shows "\<exists>pf p. decode_proof_data decp (encp (sidecar_of t r es)) = Some pf \<and> map_of (pf_entries pf) (leaf_key l) = Some p
    \<and> verify_proof H l p (tree_root t)"
proof -
  have "list_all (\<lambda>(k, p). list_all step_wf p) es"
    using leaf_proofs_entries [OF b es sub] by simp
  then have "list_all (\<lambda>(k, p). list_all step_wf p) (sorted_entries es)"
    by (fastforce simp: list_all_iff dest!: map_of_SomeD)
  then have "decode_proof_data decp (encp (sidecar_of t r es)) = Some \<lparr>pf_root = root_hex r, pf_entries = sorted_entries es\<rparr>"
    using dec by (simp add: decode_proof_data_def sidecar_of_def decode_proof_file_def encode_proof_file_def decode_entries_encode)
  moreover obtain p where "map_of es (leaf_key l) = Some p" "proof_for t (leaf_key l) = Inr p"
    using leaf_proofs_Inr [OF es l] by blast
  moreover obtain p' where "proof_for t (leaf_key l) = Inr p'" "verify_proof H l p' (tree_root t)"
    using proof_for_verifies [OF b(1)] sub l by blast
  ultimately show ?thesis
    by auto
qed

text \<open>The proof files of a run, in the order they are written.\<close>

definition proof_files :: "commit_env \<Rightarrow> string \<Rightarrow> string \<Rightarrow> committed \<Rightarrow> tree \<Rightarrow> proof_file_json list" where
  "proof_files ce jobs_path tasks_path cm t =
     map (\<lambda>(ls, path). case leaf_proofs t ls [] of Inl _ \<Rightarrow> sidecar_of t (tree_root t) [] | Inr es \<Rightarrow> sidecar_of t (tree_root t) es)
       (registrants ce jobs_path tasks_path cm)"

lemma registrants_leaves: "(ls, path) \<in> set (registrants ce jp tp cm) \<Longrightarrow> set ls \<subseteq> set (all_leaves (ce_texts ce) cm)"
  by (auto simp: registrants_def all_leaves_def split: if_splits)

lemma run_commit_Inr:
  assumes run: "run_commit ce dk jp tp fs = (Inr r, fs', out)" and cm: "gather ce jp tp fs = Inr cm"
    and t: "build (ce_hash ce) (all_leaves (ce_texts ce) cm) = Inr t"
  shows "r = tree_root t \<and> out = [root_hex (tree_root t)]
    \<and> write_sidecars (ce_encode ce) dk t (tree_root t) (registrants ce jp tp cm) fs = (None, fs')"
  using run unfolding run_commit_def cm sum.case t by (auto split: prod.split_asm option.split_asm)

text \<open>The proof file of a registrant, read back after a run, proves each of its leaves.\<close>

lemma committed_presents:
  assumes g: "gather ce jp tp fs = Inr cm" and b: "build (ce_hash ce) (all_leaves (ce_texts ce) cm) = Inr t"
    and w: "write_sidecars (ce_encode ce) dk t (tree_root t) (registrants ce jp tp cm) fs = (None, fs')"
    and H: "\<forall>m. length (ce_hash ce m) = 32" and sep: "separate (map snd (registrants ce jp tp cm))"
    and json: "\<forall>w \<in> set (proof_files ce jp tp cm t). decp (ce_encode ce w) = Some w"
    and reg: "(ls, path) \<in> set (registrants ce jp tp cm)" "l \<in> set ls"
  shows "\<exists>d pf p. fs' path = File_data d \<and> decode_proof_data decp d = Some pf \<and> map_of (pf_entries pf) (leaf_key l) = Some p
    \<and> verify_proof (ce_hash ce) l p (tree_root t)"
proof -
  obtain es where es: "leaf_proofs t ls [] = Inr es" "fs' path = File_data (ce_encode ce (sidecar_of t (tree_root t) es))"
    using write_sidecars_path [OF w sep reg(1)] by blast
  have "sidecar_of t (tree_root t) es \<in> set (proof_files ce jp tp cm t)"
    unfolding proof_files_def set_map using reg(1) es(1) by (intro rev_image_eqI [OF reg(1)]) simp
  then show ?thesis
    using sidecar_presents [OF b H registrants_leaves [OF reg(1)] es(1) reg(2)] json es(2) by fastforce
qed

text \<open>A path that is neither a proof file nor a temporary file keeps its content.\<close>

lemma run_commit_other:
  assumes "run_commit ce dk jp tp fs = (res, fs', out)" "gather ce jp tp fs = Inr cm"
    and "q \<notin> snd ` set (registrants ce jp tp cm)" "q \<notin> temp_path ` snd ` set (registrants ce jp tp cm)"
  shows "fs' q = fs q"
  using assms by (auto simp: run_commit_def split: sum.splits prod.splits option.splits dest: write_sidecars_other)

lemma jobs_registered: "j \<in> set (cm_jobs cm) \<Longrightarrow>
    (map job_leaf (cm_jobs cm), jp @ ''.proof'') \<in> set (registrants ce jp tp cm)"
  by (auto simp: registrants_def)

lemma tasks_registered: "k \<in> set (cm_tasks cm) \<Longrightarrow>
    (map (task_leaf (ce_texts ce)) (cm_tasks cm), tp @ ''.proof'') \<in> set (registrants ce jp tp cm)"
  by (auto simp: registrants_def)

lemma fixed_registered:
  "([interpose_config_leaf (cm_policy cm)], policy_path (ce_home ce) @ ''.proof'') \<in> set (registrants ce jp tp cm)"
  "([allowlist_leaf (cm_list cm)], list_path (ce_list_env ce) (ce_home ce) @ ''.proof'') \<in> set (registrants ce jp tp cm)"
  by (simp_all add: registrants_def)

lemma sandbox_registered: "cm_sandbox cm = Some c \<Longrightarrow>
    ([the_sandbox_leaf c], sandbox_path (ce_home ce) @ ''.proof'') \<in> set (registrants ce jp tp cm)"
  by (simp add: registrants_def sandbox_leaves_def)

lemma gather_list: "gather ce jp tp fs = Inr cm \<Longrightarrow>
    load_allowlist fs (ce_embedded ce) (ce_allowlist ce) (list_path (ce_list_env ce) (ce_home ce)) = Inr (cm_list cm)"
  by (auto simp: gather_def Let_def split: if_split_asm sum.split_asm)

lemma gather_sandbox: "gather ce jp tp fs = Inr cm \<Longrightarrow> cm_sandbox cm = Some c \<Longrightarrow> validate_config c = None"
  by (auto simp: gather_def Let_def load_sandbox_def split: if_split_asm sum.split_asm file_outcome.split_asm option.split_asm)

definition the_data :: "file_outcome \<Rightarrow> bytes" where
  "the_data f = (case f of File_data d \<Rightarrow> d | _ \<Rightarrow> [])"

lemma the_data_File [simp]: "the_data (File_data d) = d"
  by (simp add: the_data_def)

lemma load_allowlist_cong: "fs' path = fs path \<Longrightarrow>
    load_allowlist fs' embedded dec path = load_allowlist fs embedded dec path"
  by (simp add: load_allowlist_def)

lemma verify_policy_accepts:
  assumes "\<exists>d pf p. f = File_data d \<and> decode_proof_data decp d = Some pf
    \<and> map_of (pf_entries pf) (leaf_key (interpose_config_leaf c)) = Some p \<and> verify_proof H (interpose_config_leaf c) p r"
  shows "\<exists>pf. decode_proof_data decp (the_data f) = Some pf
    \<and> verify_policy H c (Inr r) (Some pf) = (ic_extra_protected_paths c, True, None)"
proof -
  obtain d pf p where f: "f = File_data d" "decode_proof_data decp d = Some pf"
    and p: "map_of (pf_entries pf) (leaf_key (interpose_config_leaf c)) = Some p" "verify_proof H (interpose_config_leaf c) p r"
    using assms by blast
  have "verify_policy H c (Inr r) (Some pf) = (ic_extra_protected_paths c, True, None)"
    unfolding verify_policy_def Let_def using p by simp
  with f show ?thesis
    by simp
qed

lemma activate_trusts:
  assumes "\<exists>d pf p. fs' path = File_data d \<and> decode_proof_data decp d = Some pf
    \<and> map_of (pf_entries pf) (leaf_key (the_sandbox_leaf c)) = Some p \<and> verify_proof H (the_sandbox_leaf c) p r"
    and v: "validate_config c = None"
    and b: "bt_hash b = H" "bt_file b = fs'" "bt_proof_json b = decp" "bt_anchor b (ly_anchor_path ly) = Inr r" "ly_proof_path ly = path"
  shows "\<exists>s'. activate b ly c s = Inr s' \<and> sv_active s' \<and> sv_trusted s' \<and> sv_policy s' = c"
proof -
  obtain d pf p where f: "fs' path = File_data d" "decode_proof_data decp d = Some pf"
    and p: "map_of (pf_entries pf) (leaf_key (the_sandbox_leaf c)) = Some p" "verify_proof H (the_sandbox_leaf c) p r"
    using assms(1) by blast
  have l: "sandbox_leaf c = Some (the_sandbox_leaf c)"
    using v by (simp add: the_sandbox_leaf_def sandbox_leaf_def config_canonical_json_def)
  have "read_proof b (ly_proof_path ly) = Some pf"
    using f b by (simp add: read_proof_def)
  with b(4) l p b(1) show ?thesis
    by (simp add: activate_def)
qed

lemma verify_allowlist_accepts:
  assumes "load_allowlist read embedded dec path = Inr list"
    and "\<exists>p. presented_proof decp (read (path @ ''.proof'')) (leaf_key (allowlist_leaf list)) = Some p
      \<and> verify_proof H (allowlist_leaf list) p r"
  shows "verify_allowlist H read embedded dec decp (Inr r) path = (list, None)"
  using assms by (auto simp: verify_allowlist_def presented_proof_def split: file_outcome.splits option.splits)

section \<open>Failing runs\<close>

lemma run_commit_out: "run_commit ce dk jp tp fs = (res, fs', out) \<Longrightarrow> out = (case res of Inl _ \<Rightarrow> [] | Inr r \<Rightarrow> [root_hex r])"
  by (auto simp: run_commit_def split: sum.split_asm prod.split_asm option.split_asm)

lemma run_commit_gather_fails: "run_commit ce dk jp tp fs = (res, fs', out) \<Longrightarrow> gather ce jp tp fs = Inl e \<Longrightarrow> res = Inl e \<and> fs' = fs"
  by (simp add: run_commit_def)

lemma run_commit_build_fails: "run_commit ce dk jp tp fs = (res, fs', out) \<Longrightarrow> gather ce jp tp fs = Inr cm
    \<Longrightarrow> build (ce_hash ce) (all_leaves (ce_texts ce) cm) = Inl e \<Longrightarrow> res = Inl (Build_failed e) \<and> fs' = fs"
  by (simp add: run_commit_def)

lemma run_commit_whole_files:
  assumes run: "run_commit ce dk jp tp fs = (res, fs', out)" and sep: "separate (map snd (registrants ce jp tp cm))"
    and cm: "gather ce jp tp fs = Inr cm" and t: "build (ce_hash ce) (all_leaves (ce_texts ce) cm) = Inr t"
  shows "(\<forall>q \<in> snd ` set (registrants ce jp tp cm). fs' q = fs q \<or> fs' q \<in> (\<lambda>w. File_data (ce_encode ce w)) ` set (proof_files ce jp tp cm t))
    \<and> (\<forall>q. q \<notin> snd ` set (registrants ce jp tp cm) \<union> temp_path ` snd ` set (registrants ce jp tp cm) \<longrightarrow> fs' q = fs q)"
proof -
  obtain e where w: "write_sidecars (ce_encode ce) dk t (tree_root t) (registrants ce jp tp cm) fs = (e, fs')"
    using run unfolding run_commit_def cm sum.case t by (auto split: prod.split_asm option.split_asm)
  have whole: "fs' path = fs path \<or> fs' path \<in> (\<lambda>w. File_data (ce_encode ce w)) ` set (proof_files ce jp tp cm t)"
    if reg: "(ls, path) \<in> set (registrants ce jp tp cm)" for ls path
  proof (cases "fs' path = fs path")
    case False
    then obtain es where es: "leaf_proofs t ls [] = Inr es" "fs' path = File_data (ce_encode ce (sidecar_of t (tree_root t) es))"
      using write_sidecars_path [OF w sep reg] by blast
    have "sidecar_of t (tree_root t) es \<in> set (proof_files ce jp tp cm t)"
      unfolding proof_files_def set_map using es(1) by (intro rev_image_eqI [OF reg]) simp
    with es(2) show ?thesis
      by blast
  qed simp
  have "fs' q = fs q \<or> fs' q \<in> (\<lambda>w. File_data (ce_encode ce w)) ` set (proof_files ce jp tp cm t)"
    if mem: "q \<in> snd ` set (registrants ce jp tp cm)" for q
  proof -
    obtain x where "x \<in> set (registrants ce jp tp cm)" "q = snd x"
      using mem by blast
    then show ?thesis
      using whole [of "fst x" q] by simp
  qed
  with write_sidecars_other [OF w] show ?thesis
    by blast
qed

text \<open>On a disk without faults the run succeeds as soon as the configurations load and no two leaves share a key.\<close>

lemma build_total:
  assumes "distinct (map leaf_key ls)" "ls \<noteq> []"
  shows "\<exists>t. build H ls = Inr t"
proof -
  have "mset (map leaf_key (sort_key leaf_key ls)) = mset (map leaf_key ls)"
    by simp
  then have "distinct (map leaf_key (sort_key leaf_key ls))"
    using assms(1) mset_eq_imp_distinct_iff by blast
  then have "\<exists>m. index_leaves 0 Map.empty (sort_key leaf_key ls) = Inr m"
    by (simp add: index_leaves_Inr_iff)
  with assms(2) show ?thesis
    by (auto simp: build_def Let_def)
qed

lemma write_sidecars_succeeds:
  assumes "build H ls = Inr t" "\<forall>p. dk_mkdir dk p \<and> dk_write dk p \<and> dk_rename dk p"
  shows "\<forall>(ls', path) \<in> set ws. set ls' \<subseteq> set ls \<Longrightarrow> fst (write_sidecars encp dk t r ws fs) = None"
proof (induction ws arbitrary: fs)
  case (Cons w ws)
  obtain ls' path where w: "w = (ls', path)"
    by (cases w)
  then obtain es where "leaf_proofs t ls' [] = Inr es"
    using Cons.prems leaf_proofs_total [OF assms(1), of ls' "[]"] by auto
  with w Cons assms(2) show ?case
    by (simp add: write_proof_sidecar_def atomic_write_file_def Let_def)
qed simp

lemma run_commit_succeeds:
  assumes cm: "gather ce jp tp fs = Inr cm" and t: "build (ce_hash ce) (all_leaves (ce_texts ce) cm) = Inr t"
    and dk: "\<forall>p. dk_mkdir dk p \<and> dk_write dk p \<and> dk_rename dk p"
  shows "fst (run_commit ce dk jp tp fs) = Inr (tree_root t)"
proof -
  have "fst (write_sidecars (ce_encode ce) dk t (tree_root t) (registrants ce jp tp cm) fs) = None"
    using registrants_leaves by (intro write_sidecars_succeeds [OF t dk]) blast
  then show ?thesis
    unfolding run_commit_def cm sum.case t by (auto split: prod.split option.split)
qed

lemma leaf_proofs_keys: "leaf_proofs t ls e0 = Inr es \<Longrightarrow> map fst es = rev (map leaf_key ls) @ map fst e0"
  by (induction ls arbitrary: e0) (auto split: sum.split_asm)

lemma proof_files_names:
  assumes "build (ce_hash ce) (all_leaves (ce_texts ce) cm) = Inr t"
  shows "map (\<lambda>w. map fst (pfj_entries w)) (proof_files ce jp tp cm t)
    = map (\<lambda>(ls, path). sort (remdups (rev (map leaf_key ls)))) (registrants ce jp tp cm)"
proof -
  have "map fst (pfj_entries (case leaf_proofs t ls [] of Inl _ \<Rightarrow> sidecar_of t (tree_root t) [] | Inr es \<Rightarrow> sidecar_of t (tree_root t) es))
      = sort (remdups (rev (map leaf_key ls)))" if reg: "(ls, path) \<in> set (registrants ce jp tp cm)" for ls path
  proof -
    obtain es where es: "leaf_proofs t ls [] = Inr es"
      using leaf_proofs_total [OF assms registrants_leaves [OF reg]] by blast
    have "map fst (map (\<lambda>(k, p). (k, map marshal_step p)) xs) = map fst xs" for xs :: "(string \<times> merkle_proof) list"
      by (induction xs) auto
    then show ?thesis
      using leaf_proofs_keys [OF es] by (simp add: es sidecar_of_def encode_proof_file_def sorted_entries_def comp_def)
  qed
  then show ?thesis
    by (auto simp: proof_files_def)
qed

section \<open>Properties\<close>

text \<open>C3: A commit is adopted by every owner. After a run that returns a root, the one line printed is its
  hexadecimal form, which the anchor reader turns back into it, and verified against it with the
  proof files now on disk: every loaded job and task is accepted, the allowlist verifies, the
  interposer's extra roots are verified, and the daemon activates the sandbox policy as trusted.\<close>

theorem commit_adopted:
  assumes run: "run_commit ce dk jp tp fs = (Inr root_hash, fs', out)" and cm: "gather ce jp tp fs = Inr cm"
    and t: "build (ce_hash ce) (all_leaves (ce_texts ce) cm) = Inr t"
    and H: "\<forall>m. length (ce_hash ce m) = 32" and sep: "separate (map snd (registrants ce jp tp cm))"
    and list: "list_path (ce_list_env ce) (ce_home ce) \<notin> set (map snd (registrants ce jp tp cm))
      \<union> temp_path ` set (map snd (registrants ce jp tp cm))"
    and json: "\<forall>w \<in> set (proof_files ce jp tp cm t). decp (ce_encode ce w) = Some w"
  shows "out = [root_hex root_hash] \<and> parse_root_hex (root_hex root_hash) = Inr root_hash
    \<and> (\<forall>j \<in> set (cm_jobs cm). verify_job (ce_hash ce) decp \<lparr>ev_root = Inr root_hash, ev_proof = fs' (jp @ ''.proof'')\<rparr> j = Accept)
    \<and> (\<forall>k \<in> set (cm_tasks cm). verify_task (ce_hash ce) decp (ce_texts ce)
          \<lparr>ev_root = Inr root_hash, ev_proof = fs' (tp @ ''.proof'')\<rparr> k = Accept)
    \<and> verify_allowlist (ce_hash ce) fs' (ce_embedded ce) (ce_allowlist ce) decp (Inr root_hash)
        (list_path (ce_list_env ce) (ce_home ce)) = (cm_list cm, None)
    \<and> (\<exists>pf. decode_proof_data decp (the_data (fs' (policy_path (ce_home ce) @ ''.proof''))) = Some pf
        \<and> verify_policy (ce_hash ce) (cm_policy cm) (Inr root_hash) (Some pf) = (ic_extra_protected_paths (cm_policy cm), True, None))
    \<and> (\<forall>c b ly s. cm_sandbox cm = Some c \<and> bt_hash b = ce_hash ce \<and> bt_file b = fs' \<and> bt_proof_json b = decp
        \<and> bt_anchor b (ly_anchor_path ly) = Inr root_hash \<and> ly_proof_path ly = sandbox_path (ce_home ce) @ ''.proof''
        \<longrightarrow> (\<exists>s'. activate b ly c s = Inr s' \<and> sv_active s' \<and> sv_trusted s' \<and> sv_policy s' = c))"
proof -
  have r: "root_hash = tree_root t" "out = [root_hex root_hash]"
    and w: "write_sidecars (ce_encode ce) dk t (tree_root t) (registrants ce jp tp cm) fs = (None, fs')"
    using run_commit_Inr [OF run cm t] by blast+
  note present = committed_presents [OF cm t w H sep json]
  have shown: "\<exists>p. presented_proof decp (fs' path) (leaf_key l) = Some p \<and> verify_proof (ce_hash ce) l p root_hash"
    if "(ls, path) \<in> set (registrants ce jp tp cm)" "l \<in> set ls" for ls path l
    using present [OF that] r(1) by (auto simp: presented_proof_def)
  have jobs: "verify_job (ce_hash ce) decp \<lparr>ev_root = Inr root_hash, ev_proof = fs' (jp @ ''.proof'')\<rparr> j = Accept"
    if "j \<in> set (cm_jobs cm)" for j
    using shown [OF jobs_registered [OF that]] that by (simp add: verify_job_Accept)
  have tasks: "verify_task (ce_hash ce) decp (ce_texts ce) \<lparr>ev_root = Inr root_hash, ev_proof = fs' (tp @ ''.proof'')\<rparr> k = Accept"
    if "k \<in> set (cm_tasks cm)" for k
    using shown [OF tasks_registered [OF that]] that by (simp add: verify_task_Accept)
  have "fs' (list_path (ce_list_env ce) (ce_home ce)) = fs (list_path (ce_list_env ce) (ce_home ce))"
    using run_commit_other [OF run cm] list by simp
  then have allow: "verify_allowlist (ce_hash ce) fs' (ce_embedded ce) (ce_allowlist ce) decp (Inr root_hash)
      (list_path (ce_list_env ce) (ce_home ce)) = (cm_list cm, None)"
    using load_allowlist_cong [of fs'] gather_list [OF cm] shown [OF fixed_registered(2)]
    by (intro verify_allowlist_accepts) simp_all
  have pol: "\<exists>pf. decode_proof_data decp (the_data (fs' (policy_path (ce_home ce) @ ''.proof''))) = Some pf
      \<and> verify_policy (ce_hash ce) (cm_policy cm) (Inr root_hash) (Some pf) = (ic_extra_protected_paths (cm_policy cm), True, None)"
    using verify_policy_accepts [OF present [OF fixed_registered(1)]] r(1) by simp
  have sb: "\<exists>s'. activate b ly c s = Inr s' \<and> sv_active s' \<and> sv_trusted s' \<and> sv_policy s' = c"
    if "cm_sandbox cm = Some c \<and> bt_hash b = ce_hash ce \<and> bt_file b = fs' \<and> bt_proof_json b = decp
      \<and> bt_anchor b (ly_anchor_path ly) = Inr root_hash \<and> ly_proof_path ly = sandbox_path (ce_home ce) @ ''.proof''" for c b ly s
    using that present [OF sandbox_registered [of cm c], of "the_sandbox_leaf c"] gather_sandbox [OF cm, of c]
    unfolding r(1) by (intro activate_trusts) simp_all
  show ?thesis
    using r(2) parse_root_hex_root_hex [OF tree_root_length [OF t H]] r(1) jobs tasks allow pol sb by blast
qed

text \<open>A run with two tasks, no jobs and no sandbox policy. The hash tells leaves from nodes; the decoder of
  proof files is the table of the files the run writes.\<close>

definition tagging_hash :: "bytes \<Rightarrow> hash" where
  "tagging_hash m = replicate 32 (hd m)"

definition entry_names :: "proof_file_json \<Rightarrow> bytes" where
  "entry_names w = bytes_of (concat (map fst (pfj_entries w)))"

definition sample_env :: commit_env where
  "sample_env = \<lparr>ce_hash = tagging_hash, ce_texts = sample_texts, ce_embedded = [], ce_allowlist = \<lambda>_. Some None,
     ce_sandbox = \<lambda>_. None, ce_encode = entry_names, ce_home = ''/h'', ce_list_env = []\<rparr>"

definition sample_disk :: disk where
  "sample_disk = \<lparr>dk_mkdir = \<lambda>_. True, dk_write = \<lambda>_. True, dk_torn = \<lambda>_. File_failed, dk_rename = \<lambda>_. True\<rparr>"

definition sample_files :: files where
  "sample_files = (\<lambda>_. File_missing)(''/t'' := File_data (bytes_of sample_text))"

definition sample_tasks :: "task list" where
  "sample_tasks = [new_task ''a'' User ''x y'', (new_task ''b'' Scheduled ''z'')\<lparr>tk_interval := 2 * second\<rparr>]"

definition sample_committed :: committed where
  "sample_committed = \<lparr>cm_jobs = [], cm_tasks = sample_tasks, cm_policy = default_interpose_config, cm_list = None, cm_sandbox = None\<rparr>"

lemma sample_paths: "policy_path ''/h'' = ''/h/.config/interpose/config''"
  "list_path [] ''/h'' = ''/h/.config/interpose/command-allowlist.json''"
  "sandbox_path ''/h'' = ''/h/Library/Application Support/sandbox/config.json''"
  by code_simp+

lemma sample_gather: "gather sample_env ''/j'' ''/t'' sample_files = Inr sample_committed"
  by (simp add: gather_def sample_env_def sample_paths sample_files_def load_file_def sample_parse load_allowlist_def
    load_sandbox_def load_interpose_config_def file_text_def loaded_list_def sample_committed_def sample_tasks_def)

lemma sample_registrants: "map snd (registrants sample_env ''/j'' ''/t'' sample_committed)
    = [''/t.proof'', ''/h/.config/interpose/config.proof'', ''/h/.config/interpose/command-allowlist.json.proof'']"
  by (simp add: registrants_def sample_committed_def sample_env_def sample_tasks_def sandbox_leaves_def sample_paths)

lemma sample_keys: "map (map leaf_key \<circ> fst) (registrants sample_env ''/j'' ''/t'' sample_committed)
    = [[''pulse/task/user'' @ [CHR 0x00] @ ''command'' @ [CHR 0x00] @ ''a'', ''pulse/task/scheduled'' @ [CHR 0x00] @ ''command'' @ [CHR 0x00] @ ''b''],
       [''interpose'' @ [CHR 0x00] @ ''policy'' @ [CHR 0x00] @ ''policy''],
       [''interpose-command'' @ [CHR 0x00] @ ''policy'' @ [CHR 0x00] @ ''allowlist'']]"
  by (simp add: registrants_def sample_committed_def sample_env_def sample_tasks_def sandbox_leaves_def leaf_key_def
    task_leaf_def interpose_config_leaf_def allowlist_leaf_def new_task_def)

lemma sample_separate: "separate (map snd (registrants sample_env ''/j'' ''/t'' sample_committed))"
  "list_path (ce_list_env sample_env) (ce_home sample_env) \<notin> set (map snd (registrants sample_env ''/j'' ''/t'' sample_committed))
    \<union> temp_path ` set (map snd (registrants sample_env ''/j'' ''/t'' sample_committed))"
  unfolding sample_registrants by (simp_all add: separate_def temp_path_def sample_env_def sample_paths)

lemma sample_build: "\<exists>t. build tagging_hash (all_leaves sample_texts sample_committed) = Inr t"
proof (rule build_total)
  have "map leaf_key (all_leaves sample_texts sample_committed)
      = concat (map (map leaf_key \<circ> fst) (registrants sample_env ''/j'' ''/t'' sample_committed))"
    by (simp add: registrants_def all_leaves_def sample_committed_def sample_env_def sample_tasks_def sandbox_leaves_def)
  then show "distinct (map leaf_key (all_leaves sample_texts sample_committed))"
    unfolding sample_keys by simp
qed (simp add: all_leaves_def)

lemma find_encoded: "distinct (map f ws) \<Longrightarrow> \<forall>w \<in> set ws. find (\<lambda>x. f x = f w) ws = Some w"
  by (induction ws) auto

lemma commit_adopted_witness:
  "\<exists>r fs' decp. fst (run_commit sample_env sample_disk ''/j'' ''/t'' sample_files) = Inr r
    \<and> (\<forall>k \<in> set sample_tasks. verify_task tagging_hash decp sample_texts \<lparr>ev_root = Inr r, ev_proof = fs' ''/t.proof''\<rparr> k = Accept)"
proof -
  obtain t where t: "build tagging_hash (all_leaves sample_texts sample_committed) = Inr t"
    using sample_build by blast
  have env: "ce_hash sample_env = tagging_hash" "ce_texts sample_env = sample_texts" "ce_encode sample_env = entry_names"
    by (simp_all add: sample_env_def)
  have "fst (run_commit sample_env sample_disk ''/j'' ''/t'' sample_files) = Inr (tree_root t)"
    using run_commit_succeeds [OF sample_gather, of t sample_disk] t by (simp add: env sample_disk_def)
  then obtain fs' out where run: "run_commit sample_env sample_disk ''/j'' ''/t'' sample_files = (Inr (tree_root t), fs', out)"
    by (metis prod.collapse)
  let ?decp = "\<lambda>b. find (\<lambda>w. entry_names w = b) (proof_files sample_env ''/j'' ''/t'' sample_committed t)"
  have "map entry_names (proof_files sample_env ''/j'' ''/t'' sample_committed t)
      = map (\<lambda>ks. bytes_of (concat (sort (remdups (rev ks))))) (map (map leaf_key \<circ> fst) (registrants sample_env ''/j'' ''/t'' sample_committed))"
    using arg_cong [OF proof_files_names [of sample_env sample_committed t "''/j''" "''/t''"], of "map (bytes_of \<circ> concat)"] t
    unfolding env entry_names_def by (simp add: comp_def case_prod_beta)
  then have "distinct (map entry_names (proof_files sample_env ''/j'' ''/t'' sample_committed t))"
    unfolding sample_keys by simp
  from find_encoded [OF this] have "\<forall>w \<in> set (proof_files sample_env ''/j'' ''/t'' sample_committed t). ?decp (ce_encode sample_env w) = Some w"
    by (simp add: env)
  moreover have "\<forall>m. length (ce_hash sample_env m) = 32"
    by (simp add: env tagging_hash_def)
  ultimately have "\<forall>k \<in> set (cm_tasks sample_committed). verify_task (ce_hash sample_env) ?decp (ce_texts sample_env)
      \<lparr>ev_root = Inr (tree_root t), ev_proof = fs' (''/t'' @ ''.proof'')\<rparr> k = Accept"
    using commit_adopted [OF run sample_gather _ _ sample_separate, of t ?decp] t env by simp
  with run show ?thesis
    by (auto simp: env sample_committed_def)
qed



end
