(* ===== verification/Proxypass.thy ===== *)
theory Proxypass
  imports Pulse
begin

text \<open>
  The loopback proxy of \<^verbatim>\<open>internal/proxypass/proxypass.go\<close>: which upstream proxy a target uses, dialling
  with back-off, the \<^verbatim>\<open>CONNECT\<close> handshake, forwarding of requests and tunnels, and the environment it
  gives to children. The network is a parameter: \<open>attempts\<close> answer each dial, a list of read events is
  what a connection delivers; \<open>parse_url\<close> is \<^verbatim>\<open>url.Parse\<close>.
\<close>

section \<open>The upstream proxy\<close>

record proxy_env =
  pe_http :: string
  pe_https :: string
  pe_all :: string
  pe_no :: string

definition env_val :: "(string \<Rightarrow> string) \<Rightarrow> string \<Rightarrow> string \<Rightarrow> string" where
  "env_val getenv upper lower = (if getenv upper \<noteq> [] then getenv upper else getenv lower)"

definition load_proxy_env :: "(string \<Rightarrow> string) \<Rightarrow> proxy_env" where
  "load_proxy_env getenv = \<lparr>pe_http = env_val getenv ''HTTP_PROXY'' ''http_proxy'',
     pe_https = env_val getenv ''HTTPS_PROXY'' ''https_proxy'', pe_all = env_val getenv ''ALL_PROXY'' ''all_proxy'',
     pe_no = env_val getenv ''NO_PROXY'' ''no_proxy''\<rparr>"

text \<open>\<^verbatim>\<open>net.SplitHostPort\<close>, \<open>None\<close> for its errors.\<close>

definition split_host_port :: "string \<Rightarrow> (string \<times> string) option" where
  "split_host_port s =
     (let port = rev (takeWhile (\<lambda>c. c \<noteq> CHR '':'') (rev s)); i = length s - length port - 1;
          close = length (takeWhile (\<lambda>c. c \<noteq> CHR '']'') s) in
      if CHR '':'' \<notin> set s then None
      else if has_prefix s ''['' then
        (if close = length s \<or> close + 1 \<noteq> i \<or> CHR ''['' \<in> set (drop 1 s) \<or> CHR '']'' \<in> set (drop (close + 1) s) then None
         else Some (take (close - 1) (drop 1 s), port))
      else if CHR '':'' \<in> set (take i s) \<or> CHR ''['' \<in> set s \<or> CHR '']'' \<in> set s then None
      else Some (take i s, port))"

definition no_proxy_match :: "string \<Rightarrow> string \<Rightarrow> bool" where
  "no_proxy_match host p = (if p = ''*'' then True
     else if has_prefix p ''.'' then equal_fold host (drop 1 p) \<or> has_suffix (to_lower host) (to_lower p)
     else equal_fold host p)"

fun use_proxy_from :: "string \<Rightarrow> string list \<Rightarrow> bool" where
  "use_proxy_from host [] = True"
| "use_proxy_from host (p # ps) =
     (let p = trim_space p in
      if p = [] then use_proxy_from host ps
      else if no_proxy_match host p then False
      else use_proxy_from host ps)"

definition use_proxy :: "proxy_env \<Rightarrow> string \<Rightarrow> bool" where
  "use_proxy e hostport =
     (if pe_no e = [] then True
      else let host = (case split_host_port hostport of None \<Rightarrow> hostport | Some (h, _) \<Rightarrow> h) in
        use_proxy_from host (split_on (CHR '','') (pe_no e)))"

record target =
  tg_scheme :: string
  tg_host :: string

record proxy_url =
  pu_host :: string
  pu_user :: "(string \<times> string option) option"

definition raw_proxy :: "proxy_env \<Rightarrow> string \<Rightarrow> string" where
  "raw_proxy e scheme =
     (if scheme = ''https'' then
        (if pe_https e \<noteq> [] then pe_https e else if pe_all e \<noteq> [] then pe_all e else pe_http e)
      else if scheme = ''http'' then (if pe_http e \<noteq> [] then pe_http e else pe_all e)
      else pe_all e)"

datatype proxy_choice = Direct | Bad_proxy | Via proxy_url

definition proxy_for :: "(string \<Rightarrow> proxy_url option) \<Rightarrow> proxy_env \<Rightarrow> target option \<Rightarrow> proxy_choice" where
  "proxy_for parse_url e tg =
     (case tg of None \<Rightarrow> Direct
      | Some t \<Rightarrow>
          if tg_host t = [] then Direct
          else if raw_proxy e (tg_scheme t) = [] then Direct
          else if \<not> use_proxy e (tg_host t) then Direct
          else (case parse_url (raw_proxy e (tg_scheme t)) of None \<Rightarrow> Bad_proxy | Some u \<Rightarrow> Via u))"

text \<open>What the handlers make of the choice: they ignore the error.\<close>

definition handler_proxy :: "(string \<Rightarrow> proxy_url option) \<Rightarrow> proxy_env \<Rightarrow> target \<Rightarrow> proxy_url option" where
  "handler_proxy parse_url e t = (case proxy_for parse_url e (Some t) of Via u \<Rightarrow> Some u | _ \<Rightarrow> None)"

section \<open>Dialling\<close>

datatype dial_outcome = Dial_ok | Dial_hard | Dial_timeout

record attempt =
  at_outcome :: dial_outcome
  at_cancelled :: bool
  at_wait_cancelled :: bool

datatype dial_error = Dial_cancelled | Dial_failed | Dial_exceeded

text \<open>\<open>n\<close> attempts are left of \<^verbatim>\<open>maxAttempts\<close>, \<open>k\<close> are done; the second result are the delays waited, in milliseconds.\<close>

fun dial_loop :: "(nat \<Rightarrow> attempt) \<Rightarrow> nat \<Rightarrow> nat \<Rightarrow> dial_error option \<times> int list" where
  "dial_loop attempts k 0 = (Some Dial_exceeded, [])"
| "dial_loop attempts k (Suc n) =
     (let a = attempts k in
      if at_outcome a = Dial_ok then (None, [])
      else if at_cancelled a then (Some Dial_cancelled, [])
      else if at_outcome a = Dial_hard then (Some Dial_failed, [])
      else let delay = min (100 * 2 ^ k) 5000 in
        if at_wait_cancelled a then (Some Dial_cancelled, [])
        else case dial_loop attempts (Suc k) n of (r, ds) \<Rightarrow> (r, delay # ds))"

definition max_attempts :: nat where
  "max_attempts = 6"

definition dial_tcp :: "(nat \<Rightarrow> attempt) \<Rightarrow> dial_error option \<times> int list" where
  "dial_tcp attempts = dial_loop attempts 0 max_attempts"

section \<open>The CONNECT handshake\<close>

datatype read_event = Got char | Got_nothing | Read_failed

text \<open>What is left of the events after reading a line; the end of the list is the end of the stream.\<close>

fun read_line_from :: "string \<Rightarrow> read_event list \<Rightarrow> (string \<times> read_event list) option" where
  "read_line_from acc [] = None"
| "read_line_from acc (Read_failed # es) = None"
| "read_line_from acc (Got_nothing # es) = read_line_from acc es"
| "read_line_from acc (Got c # es) =
     (if c = CHR 0x0A then Some (acc @ [c], es) else read_line_from (acc @ [c]) es)"

definition trim_crlf :: "string \<Rightarrow> string" where
  "trim_crlf s = rev (dropWhile (\<lambda>c. c = CHR 0x0D \<or> c = CHR 0x0A) (rev s))"

definition read_line_trim :: "read_event list \<Rightarrow> (string \<times> read_event list) option" where
  "read_line_trim es = map_option (\<lambda>(l, es'). (trim_crlf l, es')) (read_line_from [] es)"

lemma read_line_from_length: "read_line_from acc es = Some (l, es') \<Longrightarrow> length es' < length es"
  by (induction acc es arbitrary: l es' rule: read_line_from.induct) (auto split: if_split_asm)

lemma read_line_trim_length: "read_line_trim es = Some (l, es') \<Longrightarrow> length es' < length es"
  by (auto simp: read_line_trim_def dest: read_line_from_length)

function skip_headers :: "read_event list \<Rightarrow> read_event list option" where
  "skip_headers es = (case read_line_trim es of None \<Rightarrow> None
     | Some (line, es') \<Rightarrow> if line = [] then Some es' else skip_headers es')"
  by pat_completeness auto
termination
  by (relation "measure length") (auto dest: read_line_trim_length)

declare skip_headers.simps [simp del]

datatype connect_error = Connect_dial dial_error | Connect_write | Connect_read | Connect_status string

definition read_connect_response :: "read_event list \<Rightarrow> connect_error + read_event list" where
  "read_connect_response es =
     (case read_line_trim es of None \<Rightarrow> Inl Connect_read
      | Some (status, es') \<Rightarrow>
          if \<not> has_prefix status ''HTTP/1.1 200'' \<and> \<not> has_prefix status ''HTTP/1.0 200'' then Inl (Connect_status status)
          else (case skip_headers es' of None \<Rightarrow> Inl Connect_read | Some es'' \<Rightarrow> Inr es''))"

definition base64_char :: "nat \<Rightarrow> char" where
  "base64_char n = ''ABCDEFGHIJKLMNOPQRSTUVWXYZabcdefghijklmnopqrstuvwxyz0123456789+/'' ! n"

fun base64 :: "nat list \<Rightarrow> string" where
  "base64 [] = []"
| "base64 [a] = [base64_char (a div 4), base64_char (a mod 4 * 16)] @ ''==''"
| "base64 [a, b] = [base64_char (a div 4), base64_char (a mod 4 * 16 + b div 16), base64_char (b mod 16 * 4)] @ ''=''"
| "base64 (a # b # c # r) = [base64_char (a div 4), base64_char (a mod 4 * 16 + b div 16),
     base64_char (b mod 16 * 4 + c div 64), base64_char (c mod 64)] @ base64 r"

definition proxy_auth_header :: "string \<times> string option \<Rightarrow> string" where
  "proxy_auth_header user = ''Basic ''
     @ base64 (map of_char (fst user @ '':'' @ (case snd user of None \<Rightarrow> [] | Some p \<Rightarrow> p)))"

definition crlf :: string where
  "crlf = [CHR 0x0D, CHR 0x0A]"

text \<open>The text of the request; \<open>writes\<close> says which of its writes succeed.\<close>

definition write_connect_request :: "(nat \<Rightarrow> bool) \<Rightarrow> proxy_url \<Rightarrow> string \<Rightarrow> string option" where
  "write_connect_request writes u host =
     (if \<not> writes 0 then None
      else let first = ''CONNECT '' @ host @ '' HTTP/1.1'' @ crlf @ ''Host: '' @ host @ crlf in
        case pu_user u of
          None \<Rightarrow> if writes 1 then Some (first @ crlf) else None
        | Some user \<Rightarrow>
            if \<not> writes 1 then None
            else if writes 2 then Some (first @ ''Proxy-Authorization: '' @ proxy_auth_header user @ crlf @ crlf)
            else None)"

record upstream =
  up_attempts :: "nat \<Rightarrow> attempt"
  up_writes :: "nat \<Rightarrow> bool"
  up_events :: "read_event list"

text \<open>\<open>net\<close> is what each address answers. The result is what the tunnel delivers after the handshake.\<close>

definition dial_via_proxy :: "(string \<Rightarrow> upstream) \<Rightarrow> proxy_url \<Rightarrow> string \<Rightarrow> connect_error + read_event list" where
  "dial_via_proxy net u host =
     (case fst (dial_tcp (up_attempts (net (pu_host u)))) of
        Some e \<Rightarrow> Inl (Connect_dial e)
      | None \<Rightarrow>
          if write_connect_request (up_writes (net (pu_host u))) u host = None then Inl Connect_write
          else read_connect_response (up_events (net (pu_host u))))"

definition dial_direct :: "(string \<Rightarrow> upstream) \<Rightarrow> string \<Rightarrow> connect_error + read_event list" where
  "dial_direct net host = (case fst (dial_tcp (up_attempts (net host))) of
     Some e \<Rightarrow> Inl (Connect_dial e) | None \<Rightarrow> Inr (up_events (net host)))"

text \<open>\<^verbatim>\<open>DialHost\<close> (\<open>None\<close>: the proxy's URL does not parse).\<close>

definition dial_host :: "(string \<Rightarrow> proxy_url option) \<Rightarrow> proxy_env \<Rightarrow> (string \<Rightarrow> upstream) \<Rightarrow> string
    \<Rightarrow> (connect_error + read_event list) option" where
  "dial_host parse_url e net host =
     (case proxy_for parse_url e (Some \<lparr>tg_scheme = ''https'', tg_host = host\<rparr>) of
        Bad_proxy \<Rightarrow> None
      | Via u \<Rightarrow> Some (dial_via_proxy net u host)
      | Direct \<Rightarrow> Some (dial_direct net host))"

section \<open>Forwarding a request\<close>

type_synonym headers = "(string \<times> string list) list"

fun header_add :: "headers \<Rightarrow> string \<Rightarrow> string \<Rightarrow> headers" where
  "header_add [] k v = [(k, [v])]"
| "header_add ((k', vs) # h) k v = (if k' = k then (k, vs @ [v]) # h else (k', vs) # header_add h k v)"

fun header_set :: "headers \<Rightarrow> string \<Rightarrow> string \<Rightarrow> headers" where
  "header_set [] k v = [(k, [v])]"
| "header_set ((k', vs) # h) k v = (if k' = k then (k, [v]) # h else (k', vs) # header_set h k v)"

definition hop_by_hop :: "string list" where
  "hop_by_hop = [''Connection'', ''Proxy-Connection'', ''Keep-Alive'', ''Proxy-Authenticate'', ''Proxy-Authorization'',
     ''Te'', ''Trailer'', ''Transfer-Encoding'', ''Upgrade'']"

record http_request =
  rq_method :: string
  rq_url :: string
  rq_target :: target
  rq_host :: string
  rq_headers :: headers

record outgoing =
  og_method :: string
  og_url :: string
  og_host :: string
  og_headers :: headers
  og_proxied :: bool

record http_response =
  rs_status :: nat
  rs_headers :: headers

datatype reply = Http_error nat | Http_reply nat headers

definition copy_headers :: "headers \<Rightarrow> headers \<Rightarrow> headers" where
  "copy_headers from to = foldl (\<lambda>h (k, vs). foldl (\<lambda>h v. header_add h k v) h vs) to from"

text \<open>The request as it leaves: \<open>default_host\<close> is the host \<^verbatim>\<open>http.NewRequest\<close> takes from the URL.\<close>

definition outgoing_request :: "http_request \<Rightarrow> proxy_url option \<Rightarrow> outgoing" where
  "outgoing_request r proxy =
     (let kept = filter (\<lambda>(k, vs). k \<notin> set hop_by_hop) (rq_headers r);
          h = copy_headers kept [];
          h = (case proxy of None \<Rightarrow> h
            | Some u \<Rightarrow> (case pu_user u of None \<Rightarrow> h | Some user \<Rightarrow> header_set h ''Proxy-Authorization'' (proxy_auth_header user))) in
      \<lparr>og_method = rq_method r, og_url = rq_url r,
       og_host = (if rq_host r \<noteq> [] then rq_host r else tg_host (rq_target r)),
       og_headers = header_set h ''Connection'' ''close'', og_proxied = (proxy \<noteq> None)\<rparr>)"

text \<open>\<open>valid\<close> is whether \<^verbatim>\<open>http.NewRequest\<close> accepts the method and URL; \<open>exchange\<close> writes the request to the
  dialled address and reads the response, \<open>None\<close> if either fails.\<close>

definition handle_http :: "(string \<Rightarrow> proxy_url option) \<Rightarrow> proxy_env \<Rightarrow> (string \<Rightarrow> nat \<Rightarrow> attempt) \<Rightarrow> bool
    \<Rightarrow> (string \<Rightarrow> outgoing \<Rightarrow> http_response option) \<Rightarrow> http_request \<Rightarrow> reply" where
  "handle_http parse_url e dials valid exchange r =
     (if tg_host (rq_target r) = [] then Http_error 400
      else let proxy = handler_proxy parse_url e (rq_target r);
               addr = (case proxy of Some u \<Rightarrow> pu_host u | None \<Rightarrow> tg_host (rq_target r)) in
        if fst (dial_tcp (dials addr)) \<noteq> None then Http_error 502
        else if \<not> valid then Http_error 502
        else (case exchange addr (outgoing_request r proxy) of
            None \<Rightarrow> Http_error 502
          | Some rs \<Rightarrow> Http_reply (rs_status rs) (copy_headers (rs_headers rs) [])))"

datatype connect_reply = Connect_error nat | Connect_abandoned | Connected "read_event list" string

text \<open>\<^verbatim>\<open>handleConnect\<close> up to the tunnel; \<open>hijack\<close> gives the bytes the client sent ahead, which go to the target first.\<close>

definition handle_connect :: "(string \<Rightarrow> proxy_url option) \<Rightarrow> proxy_env \<Rightarrow> (string \<Rightarrow> upstream) \<Rightarrow> string option \<Rightarrow> string \<Rightarrow> connect_reply" where
  "handle_connect parse_url e net hijack host =
     (case (case handler_proxy parse_url e \<lparr>tg_scheme = ''https'', tg_host = host\<rparr> of
              Some u \<Rightarrow> dial_via_proxy net u host
            | None \<Rightarrow> dial_direct net host) of
        Inl _ \<Rightarrow> Connect_error 502
      | Inr es \<Rightarrow> (case hijack of None \<Rightarrow> Connect_abandoned | Some ahead \<Rightarrow> Connected es ahead))"

definition serve_http :: "(string \<Rightarrow> proxy_url option) \<Rightarrow> proxy_env \<Rightarrow> (string \<Rightarrow> upstream) \<Rightarrow> bool
    \<Rightarrow> (string \<Rightarrow> outgoing \<Rightarrow> http_response option) \<Rightarrow> string option \<Rightarrow> http_request \<Rightarrow> reply + connect_reply" where
  "serve_http parse_url e net valid exchange hijack r =
     (if rq_method r = ''CONNECT'' then Inr (handle_connect parse_url e net hijack (rq_host r))
      else Inl (handle_http parse_url e (\<lambda>a. up_attempts (net a)) valid exchange r))"

section \<open>The tunnel\<close>

text \<open>
  The two copying goroutines. \<open>tn_up\<close> copies from the client to the target and closes the target,
  \<open>tn_down\<close> the other way, closes the client and waits for the first (\<^verbatim>\<open>doneA\<close>). A copy ends when its
  source has ended or either connection is closed. \<open>tn_wait\<close> is the server's \<^verbatim>\<open>WaitGroup\<close>.
\<close>

datatype copy_phase = Copying | Closed | Signalled | Finished

record tunnel =
  tn_up :: copy_phase
  tn_down :: copy_phase
  tn_client_ended :: bool
  tn_target_ended :: bool
  tn_wait :: nat

definition initial_tunnel :: tunnel where
  "initial_tunnel = \<lparr>tn_up = Copying, tn_down = Copying, tn_client_ended = False, tn_target_ended = False, tn_wait = 2\<rparr>"

definition target_closed :: "tunnel \<Rightarrow> bool" where
  "target_closed t \<longleftrightarrow> tn_up t \<noteq> Copying"

definition client_closed :: "tunnel \<Rightarrow> bool" where
  "client_closed t \<longleftrightarrow> tn_down t \<noteq> Copying"

inductive tunnel_step :: "tunnel \<Rightarrow> tunnel \<Rightarrow> bool" where
  up_ends: "tn_up t = Copying \<Longrightarrow> tn_client_ended t \<or> client_closed t \<Longrightarrow> tunnel_step t (t\<lparr>tn_up := Closed\<rparr>)"
| up_fails: "tn_up t = Copying \<Longrightarrow> tn_target_ended t \<Longrightarrow> tunnel_step t (t\<lparr>tn_up := Closed\<rparr>)"
| up_signals: "tn_up t = Closed \<Longrightarrow> tunnel_step t (t\<lparr>tn_up := Signalled\<rparr>)"
| up_done: "tn_up t = Signalled \<Longrightarrow> tunnel_step t (t\<lparr>tn_up := Finished, tn_wait := tn_wait t - 1\<rparr>)"
| down_ends: "tn_down t = Copying \<Longrightarrow> tn_target_ended t \<or> target_closed t \<Longrightarrow> tunnel_step t (t\<lparr>tn_down := Closed\<rparr>)"
| down_done: "tn_down t = Closed \<Longrightarrow> tn_up t = Signalled \<or> tn_up t = Finished \<Longrightarrow>
     tunnel_step t (t\<lparr>tn_down := Finished, tn_wait := tn_wait t - 1\<rparr>)"

text \<open>What the peers do: either end may stop sending at any time.\<close>

inductive tunnel_env :: "tunnel \<Rightarrow> tunnel \<Rightarrow> bool" where
  client_ends: "tunnel_env t (t\<lparr>tn_client_ended := True\<rparr>)"
| target_ends: "tunnel_env t (t\<lparr>tn_target_ended := True\<rparr>)"

inductive tunnel_reachable :: "tunnel \<Rightarrow> bool" where
  start: "tunnel_reachable initial_tunnel"
| step: "tunnel_reachable t \<Longrightarrow> tunnel_step t t' \<or> tunnel_env t t' \<Longrightarrow> tunnel_reachable t'"

inductive_cases tunnel_stepE: "tunnel_step t t'"
inductive_cases tunnel_envE: "tunnel_env t t'"

section \<open>The environment of children\<close>

fun set_env_entry :: "string list \<Rightarrow> string \<Rightarrow> string \<Rightarrow> string list" where
  "set_env_entry [] key value = [key @ ''='' @ value]"
| "set_env_entry (e # es) key value =
     (if has_prefix e (key @ ''='') then (key @ ''='' @ value) # es else e # set_env_entry es key value)"

fun get_env_entry :: "string list \<Rightarrow> string \<Rightarrow> string" where
  "get_env_entry [] key = []"
| "get_env_entry (e # es) key = (if has_prefix e (key @ ''='') then drop (length (key @ ''='')) e else get_env_entry es key)"

function split_from :: "string \<Rightarrow> string \<Rightarrow> string \<Rightarrow> string list" where
  "split_from sep cur [] = [cur]"
| "split_from sep cur (x # xs) =
     (if sep \<noteq> [] \<and> has_prefix (x # xs) sep then cur # split_from sep [] (drop (length sep) (x # xs))
      else split_from sep (cur @ [x]) xs)"
  by pat_completeness auto
termination
  by (relation "measure (\<lambda>(sep, cur, s). length s)") auto

definition split_string :: "string \<Rightarrow> string \<Rightarrow> string list" where
  "split_string s sep = (if sep = [] then [s] else split_from sep [] s)"

definition ascii_blank :: "char \<Rightarrow> bool" where
  "ascii_blank c \<longleftrightarrow> c = CHR '' '' \<or> c = CHR 0x09 \<or> c = CHR 0x0A \<or> c = CHR 0x0D"

definition string_trim_space :: "string \<Rightarrow> string" where
  "string_trim_space s = rev (dropWhile ascii_blank (rev (dropWhile ascii_blank s)))"

definition split_no_proxy :: "string \<Rightarrow> string list" where
  "split_no_proxy s = filter (\<lambda>p. p \<noteq> []) (map string_trim_space (split_string s '',''))"

fun unseen_hosts :: "string list \<Rightarrow> string list \<Rightarrow> string list" where
  "unseen_hosts seen [] = []"
| "unseen_hosts seen (h # hs) = (if h \<notin> set seen then h # unseen_hosts (h # seen) hs else unseen_hosts seen hs)"

definition default_hosts :: "string list" where
  "default_hosts = [''localhost'', ''127.0.0.1'', ''::1'', ''*.local'']"

definition join_no_proxy :: "string list \<Rightarrow> string" where
  "join_no_proxy parts = join '','' parts"

definition merge_hosts :: "string \<Rightarrow> string" where
  "merge_hosts existing = join_no_proxy (default_hosts
     @ (if existing \<noteq> [] then unseen_hosts default_hosts (split_no_proxy existing) else []))"

text \<open>\<^verbatim>\<open>Env\<close>; \<open>None\<close> is a nil server.\<close>

definition server_env :: "string option \<Rightarrow> string list \<Rightarrow> string list" where
  "server_env url base =
     (case url of None \<Rightarrow> base
      | Some u \<Rightarrow>
          let out = set_env_entry (set_env_entry base ''HTTP_PROXY'' u) ''HTTPS_PROXY'' u in
          set_env_entry out ''NO_PROXY'' (merge_hosts (get_env_entry out ''NO_PROXY'')))"

section \<open>Dialling is bounded\<close>

lemma dial_loop_bounds:
  "dial_loop attempts k n = (r, ds) \<Longrightarrow> length ds \<le> n \<and> (\<forall>i < length ds. ds ! i = min (100 * 2 ^ (k + i)) 5000)"
proof (induction attempts k n arbitrary: r ds rule: dial_loop.induct)
  case (2 attempts k n)
  show ?case
  proof (cases "ds = []")
    case False
    then obtain r' ds' where d: "dial_loop attempts (Suc k) n = (r', ds')" "ds = min (100 * 2 ^ k) 5000 # ds'"
      and c: "at_outcome (attempts k) \<noteq> Dial_ok" "\<not> at_cancelled (attempts k)" "at_outcome (attempts k) \<noteq> Dial_hard"
        "\<not> at_wait_cancelled (attempts k)"
      using "2.prems" by (auto simp: Let_def split: if_split_asm prod.split_asm)
    have ih: "length ds' \<le> n \<and> (\<forall>i < length ds'. ds' ! i = min (100 * 2 ^ (Suc k + i)) 5000)"
      by (rule "2.IH" [OF refl c(1,2,3) refl c(4) d(1)])
    have "ds ! i = min (100 * 2 ^ (k + i)) 5000" if "i < length ds" for i
      using that ih by (cases i) (simp_all add: d(2))
    with ih show ?thesis
      by (simp add: d(2))
  qed simp
qed simp

text \<open>The sixth delay is the longest, 3.2 seconds: the cap of five seconds is never reached.\<close>

lemma dial_delays:
  assumes "dial_tcp attempts = (r, ds)"
  shows "length ds \<le> 6" "ds = map (\<lambda>i. 100 * 2 ^ i) [0..<length ds]" "sum_list ds \<le> 6300"
proof -
  note b = dial_loop_bounds [OF assms [unfolded dial_tcp_def]]
  show l: "length ds \<le> 6"
    using b by (simp add: max_attempts_def)
  have small: "(100 :: int) * 2 ^ i \<le> 5000" if "i < 6" for i :: nat
  proof -
    have "(2 :: int) ^ i \<le> 2 ^ 5"
      using that by (intro power_increasing) auto
    then show ?thesis
      by simp
  qed
  show e: "ds = map (\<lambda>i. 100 * 2 ^ i) [0..<length ds]"
  proof (rule nth_equalityI)
    fix i assume "i < length ds"
    with b l small [of i] show "ds ! i = map (\<lambda>i. 100 * 2 ^ i) [0..<length ds] ! i"
      by (simp add: min_def)
  qed simp
  have "sum_list (map (\<lambda>i. (100 :: int) * 2 ^ i) [0..<n]) = 100 * (2 ^ n - 1)" for n
    by (induction n) (auto simp: algebra_simps)
  then have "sum_list ds = 100 * (2 ^ length ds - 1)"
    using e by metis
  moreover have "(2 :: int) ^ length ds \<le> 2 ^ 6"
    using l by (intro power_increasing) auto
  ultimately show "sum_list ds \<le> 6300"
    by simp
qed

lemma dial_loop_succeeds: "fst (dial_loop attempts k n) = None \<longleftrightarrow> (\<exists>j < n. at_outcome (attempts (k + j)) = Dial_ok
    \<and> (\<forall>i < j. at_outcome (attempts (k + i)) = Dial_timeout \<and> \<not> at_cancelled (attempts (k + i)) \<and> \<not> at_wait_cancelled (attempts (k + i))))"
proof (induction attempts k n rule: dial_loop.induct)
  case (2 attempts k n)
  let ?soft = "\<lambda>i. at_outcome (attempts i) = Dial_timeout \<and> \<not> at_cancelled (attempts i) \<and> \<not> at_wait_cancelled (attempts i)"
  have split: "(\<exists>j < Suc n. P j \<and> (\<forall>i < j. Q i)) \<longleftrightarrow> P 0 \<or> Q 0 \<and> (\<exists>j < n. P (Suc j) \<and> (\<forall>i < j. Q (Suc i)))" for P Q :: "nat \<Rightarrow> bool"
    unfolding Ex_less_Suc2 All_less_Suc2 by blast
  have "fst (dial_loop attempts k (Suc n)) = None \<longleftrightarrow> at_outcome (attempts k) = Dial_ok
      \<or> ?soft k \<and> fst (dial_loop attempts (Suc k) n) = None"
    by (cases "at_outcome (attempts k)") (auto simp: Let_def split: prod.split)
  moreover have "fst (dial_loop attempts (Suc k) n) = None \<longleftrightarrow> (\<exists>j < n. at_outcome (attempts (Suc k + j)) = Dial_ok \<and> (\<forall>i < j. ?soft (Suc k + i)))"
    if "?soft k"
    using that by (intro "2.IH" [OF refl _ _ _ refl]) auto
  ultimately show ?case
    unfolding split [of "\<lambda>j. at_outcome (attempts (k + j)) = Dial_ok" "\<lambda>i. ?soft (k + i)"] by auto
qed simp

section \<open>Tunnels drain\<close>

definition running :: "copy_phase \<Rightarrow> nat" where
  "running p = (if p = Finished then 0 else 1)"

definition tunnel_ok :: "tunnel \<Rightarrow> bool" where
  "tunnel_ok t \<longleftrightarrow> tn_wait t = running (tn_up t) + running (tn_down t)
     \<and> tn_down t \<noteq> Signalled \<and> (tn_down t = Finished \<longrightarrow> tn_up t = Signalled \<or> tn_up t = Finished)"

lemma tunnel_ok_step: "tunnel_step t t' \<Longrightarrow> tunnel_ok t \<Longrightarrow> tunnel_ok t'"
  by (cases rule: tunnel_step.cases) (auto simp: tunnel_ok_def running_def)

lemma tunnel_ok_env: "tunnel_env t t' \<Longrightarrow> tunnel_ok t \<Longrightarrow> tunnel_ok t'"
  by (cases rule: tunnel_env.cases) (auto simp: tunnel_ok_def)

lemma tunnel_reachable_ok: "tunnel_reachable t \<Longrightarrow> tunnel_ok t"
  by (induction rule: tunnel_reachable.induct)
    (auto simp: tunnel_ok_def initial_tunnel_def running_def dest: tunnel_ok_step tunnel_ok_env)

fun phase_left :: "copy_phase \<Rightarrow> nat" where
  "phase_left Copying = 3" | "phase_left Closed = 2" | "phase_left Signalled = 1" | "phase_left Finished = 0"

definition tunnel_left :: "tunnel \<Rightarrow> nat" where
  "tunnel_left t = phase_left (tn_up t) + phase_left (tn_down t)"

lemma tunnel_step_left: "tunnel_step t t' \<Longrightarrow> tunnel_left t' < tunnel_left t"
  by (cases rule: tunnel_step.cases) (auto simp: tunnel_left_def)

lemma tunnel_progress:
  assumes ok: "tunnel_ok t" and ended: "tn_client_ended t \<or> tn_target_ended t \<or> target_closed t \<or> client_closed t"
    and left: "tn_wait t \<noteq> 0"
  shows "\<exists>t'. tunnel_step t t'"
proof (cases "tn_up t")
  case Copying
  then show ?thesis
    using ended up_ends up_fails by (auto simp: target_closed_def)
next
  case Closed
  then show ?thesis
    using up_signals by blast
next
  case Signalled
  then show ?thesis
    using up_done by blast
next
  case Finished
  with ok left have "tn_down t = Copying \<or> tn_down t = Closed"
    by (cases "tn_down t") (auto simp: tunnel_ok_def running_def)
  with Finished show ?thesis
    using down_ends down_done by (metis copy_phase.distinct(5) target_closed_def)
qed

section \<open>The handshake\<close>

lemma read_line_from_Got: "CHR 0x0A \<notin> set l \<Longrightarrow> read_line_from acc (map Got (l @ [CHR 0x0A]) @ es) = Some (acc @ l @ [CHR 0x0A], es)"
  by (induction l arbitrary: acc) auto

lemma trim_crlf_line: "l = [] \<or> last l \<noteq> CHR 0x0D \<and> last l \<noteq> CHR 0x0A \<Longrightarrow> trim_crlf (l @ crlf) = l"
  by (cases l rule: rev_cases) (auto simp: trim_crlf_def crlf_def)

definition plain_line :: "string \<Rightarrow> bool" where
  "plain_line l \<longleftrightarrow> CHR 0x0A \<notin> set l \<and> CHR 0x0D \<notin> set l"

lemma read_line_trim_plain: "plain_line l \<Longrightarrow> read_line_trim (map Got (l @ crlf) @ es) = Some (l, es)"
proof -
  assume p: "plain_line l"
  then have "read_line_from [] (map Got ((l @ [CHR 0x0D]) @ [CHR 0x0A]) @ es) = Some ([] @ (l @ [CHR 0x0D]) @ [CHR 0x0A], es)"
    by (intro read_line_from_Got) (simp add: plain_line_def)
  moreover have "trim_crlf (l @ crlf) = l"
    using p by (intro trim_crlf_line) (auto simp: plain_line_def dest: last_in_set)
  ultimately show ?thesis
    by (simp add: read_line_trim_def crlf_def)
qed

lemma skip_headers_exact:
  "\<forall>h \<in> set hs. plain_line h \<and> h \<noteq> [] \<Longrightarrow>
     skip_headers (map Got (concat (map (\<lambda>h. h @ crlf) hs) @ crlf) @ es) = Some es"
proof (induction hs)
  case Nil
  then show ?case
    using read_line_trim_plain [of "[]" es] by (subst skip_headers.simps) (simp add: plain_line_def)
next
  case (Cons h hs)
  let ?es = "map Got (concat (map (\<lambda>h. h @ crlf) hs) @ crlf) @ es"
  have "map Got (concat (map (\<lambda>h. h @ crlf) (h # hs)) @ crlf) @ es = map Got (h @ crlf) @ ?es"
    by simp
  then show ?case
    using Cons read_line_trim_plain [of h ?es] by (subst skip_headers.simps) simp
qed

lemma read_line_from_consumes: "read_line_from acc es = Some (l, es') \<Longrightarrow> \<exists>used. es = used @ Got (CHR 0x0A) # es'"
proof (induction acc es arbitrary: l es' rule: read_line_from.induct)
  case (3 acc es)
  then obtain used where "es = used @ Got (CHR 0x0A) # es'"
    by auto
  then show ?case
    by (intro exI [of _ "Got_nothing # used"]) simp
next
  case (4 acc c es)
  show ?case
  proof (cases "c = CHR 0x0A")
    case True
    with 4 show ?thesis
      by (intro exI [of _ "[]"]) simp
  next
    case False
    with 4 obtain used where "es = used @ Got (CHR 0x0A) # es'"
      by auto
    then show ?thesis
      by (intro exI [of _ "Got c # used"]) simp
  qed
qed simp_all

lemma read_line_trim_consumes: "read_line_trim es = Some (l, es') \<Longrightarrow> \<exists>used. es = used @ Got (CHR 0x0A) # es'"
  by (auto simp: read_line_trim_def dest: read_line_from_consumes)

lemma skip_headers_consumes: "skip_headers es = Some es' \<Longrightarrow> \<exists>used. es = used @ Got (CHR 0x0A) # es'"
proof (induction es rule: skip_headers.induct)
  case (1 es)
  obtain l es1 where r: "read_line_trim es = Some (l, es1)"
    using "1.prems" by (subst (asm) skip_headers.simps) (auto split: option.split_asm)
  obtain u where u: "es = u @ Got (CHR 0x0A) # es1"
    using read_line_trim_consumes [OF r] by blast
  show ?case
  proof (cases "l = []")
    case True
    with "1.prems" r u show ?thesis
      by (subst (asm) skip_headers.simps) auto
  next
    case False
    with "1.prems" r have "skip_headers es1 = Some es'"
      by (subst (asm) skip_headers.simps) simp
    then obtain u' where "es1 = u' @ Got (CHR 0x0A) # es'"
      using "1.IH" [OF r refl False] by blast
    with u show ?thesis
      by (metis append.assoc append_Cons)
  qed
qed

lemma read_connect_response_consumes: "read_connect_response es = Inr es' \<Longrightarrow> \<exists>used. es = used @ Got (CHR 0x0A) # es'"
proof -
  assume a: "read_connect_response es = Inr es'"
  then obtain l es1 where r: "read_line_trim es = Some (l, es1)"
    by (auto simp: read_connect_response_def split: option.split_asm)
  with a have "skip_headers es1 = Some es'"
    by (auto simp: read_connect_response_def split: if_split_asm option.split_asm)
  then obtain u u' where "es1 = u @ Got (CHR 0x0A) # es'" "es = u' @ Got (CHR 0x0A) # es1"
    using skip_headers_consumes read_line_trim_consumes [OF r] by blast
  then show ?thesis
    by (metis append.assoc append_Cons)
qed

lemma read_connect_response_exact:
  assumes "plain_line status" "has_prefix status ''HTTP/1.1 200'' \<or> has_prefix status ''HTTP/1.0 200''"
    and "\<forall>h \<in> set hs. plain_line h \<and> h \<noteq> []"
  shows "read_connect_response (map Got (status @ crlf @ concat (map (\<lambda>h. h @ crlf) hs) @ crlf) @ es) = Inr es"
proof -
  let ?es = "map Got (concat (map (\<lambda>h. h @ crlf) hs) @ crlf) @ es"
  have "map Got (status @ crlf @ concat (map (\<lambda>h. h @ crlf) hs) @ crlf) @ es = map Got (status @ crlf) @ ?es"
    by simp
  then have "read_line_trim (map Got (status @ crlf @ concat (map (\<lambda>h. h @ crlf) hs) @ crlf) @ es) = Some (status, ?es)"
    using read_line_trim_plain [OF assms(1)] by metis
  moreover have "skip_headers ?es = Some es"
    by (rule skip_headers_exact [OF assms(3)])
  ultimately show ?thesis
    unfolding read_connect_response_def using assms(2) by auto
qed

section \<open>Headers\<close>

definition header_get :: "headers \<Rightarrow> string \<Rightarrow> string list" where
  "header_get h k = (case map_of h k of None \<Rightarrow> [] | Some vs \<Rightarrow> vs)"

lemma header_get_add: "header_get (header_add h k v) k' = header_get h k' @ (if k' = k then [v] else [])"
  by (induction h k v rule: header_add.induct) (auto simp: header_get_def)

lemma header_get_set: "header_get (header_set h k v) k' = (if k' = k then [v] else header_get h k')"
  by (induction h k v rule: header_set.induct) (auto simp: header_get_def)

lemma header_get_adds: "header_get (foldl (\<lambda>h v. header_add h k v) h vs) k' = header_get h k' @ (if k' = k then vs else [])"
  by (induction vs arbitrary: h) (auto simp: header_get_add)

lemma header_get_copy:
  "header_get (copy_headers from to) k = header_get to k @ concat (map (\<lambda>(k', vs). if k' = k then vs else []) from)"
proof (induction "from" arbitrary: to)
  case (Cons p "from")
  then show ?case
    by (cases p) (simp add: copy_headers_def header_get_adds)
qed (simp add: copy_headers_def)

lemma header_get_kept: "k \<in> K \<Longrightarrow> concat (map (\<lambda>(k', vs). if k' = k then vs else []) (filter (\<lambda>(k', vs). k' \<notin> K) h)) = []"
  by (induction h) auto

lemma header_get_kept': "k \<notin> K \<Longrightarrow> concat (map (\<lambda>(k', vs). if k' = k then vs else []) (filter (\<lambda>(k', vs). k' \<notin> K) h))
    = concat (map (\<lambda>(k', vs). if k' = k then vs else []) h)"
  by (induction h) (auto split: if_split_asm)

lemma outgoing_headers:
  "header_get (og_headers (outgoing_request r proxy)) k =
     (if k = ''Connection'' then [''close'']
      else if k \<in> set hop_by_hop then
        (case proxy of None \<Rightarrow> [] | Some u \<Rightarrow> (case pu_user u of None \<Rightarrow> []
          | Some user \<Rightarrow> if k = ''Proxy-Authorization'' then [proxy_auth_header user] else []))
      else concat (map (\<lambda>(k', vs). if k' = k then vs else []) (rq_headers r)))"
proof -
  have auth: "''Proxy-Authorization'' \<in> set hop_by_hop"
    by (simp add: hop_by_hop_def)
  have empty: "header_get [] k = []"
    by (simp add: header_get_def)
  show ?thesis
    using auth by (auto simp: outgoing_request_def Let_def header_get_set header_get_copy header_get_kept header_get_kept' empty
      split: option.split)
qed

section \<open>The two copies of the child environment\<close>

text \<open>\<^verbatim>\<open>proxypass.Env\<close> and pulse's own \<^verbatim>\<open>proxypassEnv\<close> agree as long as the hosts listed by the parent are
  padded with ASCII blanks only.\<close>

lemma set_env_entry_eq: "set_env_entry env key v = set_env env key v"
  by (induction env) auto

lemma get_env_entry_eq: "get_env_entry env key = env_value env key"
  by (induction env) (auto simp: env_value_def trim_prefix_def)

lemma split_from_comma: "split_from [c] cur s = (cur @ hd (split_on c s)) # List.tl (split_on c s)"
proof (induction s arbitrary: cur)
  case (Cons x s)
  have "split_on c s = hd (split_on c s) # List.tl (split_on c s)"
    by (metis list.collapse split_on_not_Nil)
  with Cons show ?case
    by (cases "x = c") (auto simp: Let_def split: list.split)
qed simp

lemma split_string_eq: "split_string s '','' = split_on (CHR '','') s"
  by (simp add: split_string_def split_from_comma)

lemma unseen_hosts_eq: "\<forall>h \<in> set hs. string_trim_space h = trim_space h \<Longrightarrow>
    unseen_hosts seen (filter (\<lambda>p. p \<noteq> []) (map string_trim_space hs)) = extra_hosts seen hs"
  by (induction hs arbitrary: seen) (auto simp: Let_def)

lemma server_env_eq:
  assumes "\<forall>h \<in> set (split_on (CHR '','') (env_value base ''NO_PROXY'')). string_trim_space h = trim_space h"
  shows "server_env (Some url) base = proxypass_env base url"
proof -
  have "merge_hosts (env_value base ''NO_PROXY'') = merge_no_proxy (env_value base ''NO_PROXY'')"
    using unseen_hosts_eq [OF assms] by (simp add: merge_hosts_def merge_no_proxy_def join_no_proxy_def
      default_hosts_def no_proxy_defaults_def split_no_proxy_def split_string_eq)
  moreover have "env_value (set_env (set_env base ''HTTP_PROXY'' url) ''HTTPS_PROXY'' url) ''NO_PROXY'' = env_value base ''NO_PROXY''"
    by (simp add: env_value_other)
  ultimately show ?thesis
    by (simp add: server_env_def proxypass_env_def set_env_entry_eq get_env_entry_eq Let_def)
qed

section \<open>Gaps\<close>

text \<open>A proxy URL that does not parse makes the handlers connect directly, past the upstream proxy;
  \<^verbatim>\<open>DialHost\<close> refuses.\<close>

lemma bad_proxy_goes_direct:
  assumes "proxy_for parse_url e (Some \<lparr>tg_scheme = ''https'', tg_host = host\<rparr>) = Bad_proxy"
  shows "handle_connect parse_url e net hijack host = (case dial_direct net host of Inl _ \<Rightarrow> Connect_error 502
      | Inr es \<Rightarrow> (case hijack of None \<Rightarrow> Connect_abandoned | Some ahead \<Rightarrow> Connected es ahead))
    \<and> dial_host parse_url e net host = None"
  using assms by (simp add: handle_connect_def handler_proxy_def dial_host_def)

text \<open>\<^verbatim>\<open>net.Dial\<close> fails at once for an address without a port, so a plain request for a URL on the
  default port (\<^verbatim>\<open>http://example.com/\<close>) is always answered 502.\<close>

lemma default_port_refused:
  assumes "\<And>a. split_host_port a = None \<Longrightarrow> at_outcome (dials a 0) = Dial_hard \<and> \<not> at_cancelled (dials a 0)"
    and "handler_proxy parse_url e (rq_target r) = None" "tg_host (rq_target r) \<noteq> []" "split_host_port (tg_host (rq_target r)) = None"
  shows "handle_http parse_url e dials valid exchange r = Http_error 502"
proof -
  have "fst (dial_tcp (dials (tg_host (rq_target r)))) = Some Dial_failed"
    using assms(1) [OF assms(4)] by (simp add: dial_tcp_def max_attempts_def eval_nat_numeral Let_def)
  with assms show ?thesis
    by (simp add: handle_http_def)
qed

text \<open>The entry \<^verbatim>\<open>*.local\<close> that \<^verbatim>\<open>Env\<close> adds matches no host below \<^verbatim>\<open>.local\<close> in \<^verbatim>\<open>useProxy\<close>.\<close>

lemma star_local_not_honoured:
  "use_proxy \<lparr>pe_http = [], pe_https = [], pe_all = [], pe_no = merge_hosts []\<rparr> ''printer.local:80''"
  by code_simp

section \<open>Properties\<close>

text \<open>Dialling is bounded: at most six attempts, with delays of 100 ms doubled after each, so at most 6.3
  seconds of waiting in all; it gives up at the first attempt that is refused, and it succeeds
  exactly when some attempt is reached that connects.\<close>

theorem dialling_bounded:
  assumes "dial_tcp attempts = (r, ds)"
  shows "length ds \<le> 6 \<and> ds = map (\<lambda>i. 100 * 2 ^ i) [0..<length ds] \<and> sum_list ds \<le> 6300
    \<and> (r = None \<longleftrightarrow> (\<exists>k < 6. at_outcome (attempts k) = Dial_ok
        \<and> (\<forall>i < k. at_outcome (attempts i) = Dial_timeout \<and> \<not> at_cancelled (attempts i) \<and> \<not> at_wait_cancelled (attempts i))))"
  using dial_delays [OF assms] dial_loop_succeeds [of attempts 0 6] assms by (auto simp: dial_tcp_def max_attempts_def)

lemma dialling_bounded_witness:
  "sum_list (snd (dial_tcp (\<lambda>k. \<lparr>at_outcome = Dial_timeout, at_cancelled = False, at_wait_cancelled = False\<rparr>))) \<le> 6300"
  using dialling_bounded [OF prod.collapse [symmetric]] by blast

text \<open>The handshake with an upstream proxy takes exactly the response header and nothing of the tunnel: after a
  200 status line, header lines and an empty line, what is left to read is what the tunnel sends; and
  whenever the handshake succeeds, what it read ends at a line feed.\<close>

theorem connect_handshake_exact:
  assumes "plain_line status" "has_prefix status ''HTTP/1.1 200'' \<or> has_prefix status ''HTTP/1.0 200''"
    and "\<forall>h \<in> set hs. plain_line h \<and> h \<noteq> []" "read_connect_response es = Inr es'"
  shows "read_connect_response (map Got (status @ crlf @ concat (map (\<lambda>h. h @ crlf) hs) @ crlf) @ tunnel_bytes) = Inr tunnel_bytes
    \<and> (\<exists>used. es = used @ Got (CHR 0x0A) # es')"
  using read_connect_response_exact [OF assms(1-3)] read_connect_response_consumes [OF assms(4)] by simp

lemma connect_handshake_exact_witness:
  "read_connect_response (map Got (''HTTP/1.1 200 OK'' @ crlf @ ''Via: x'' @ crlf @ crlf @ ''abc'')) = Inr (map Got ''abc'')"
proof -
  have "read_connect_response (map Got (''HTTP/1.0 200'' @ crlf @ crlf)) = Inr []"
    by code_simp
  with connect_handshake_exact [of "''HTTP/1.1 200 OK''" "[''Via: x'']" _ _ "map Got ''abc''"] show ?thesis
    by (auto simp: plain_line_def)
qed


text \<open>C35: A tunnel drains. In every reachable state the wait group counts the goroutines still running, and the
  server's wait ends only after both connections are closed; as soon as one side has ended or is
  closed, some goroutine can take a step until the count is zero, and every step brings the end nearer.\<close>

theorem tunnel_drains:
  assumes "tunnel_reachable t"
  shows "tn_wait t = running (tn_up t) + running (tn_down t)
    \<and> (tn_wait t = 0 \<longrightarrow> target_closed t \<and> client_closed t)
    \<and> (tn_wait t \<noteq> 0 \<and> (tn_client_ended t \<or> tn_target_ended t \<or> target_closed t \<or> client_closed t) \<longrightarrow> (\<exists>t'. tunnel_step t t'))
    \<and> (\<forall>t'. tunnel_step t t' \<longrightarrow> tunnel_left t' < tunnel_left t)"
proof -
  have ok: "tunnel_ok t"
    using assms by (rule tunnel_reachable_ok)
  then have "tn_wait t = 0 \<Longrightarrow> target_closed t \<and> client_closed t"
    by (cases "tn_up t"; cases "tn_down t") (auto simp: tunnel_ok_def running_def target_closed_def client_closed_def)
  with ok tunnel_progress [OF ok] tunnel_step_left show ?thesis
    by (auto simp: tunnel_ok_def)
qed

lemma tunnel_drains_witness:
  "\<exists>t'. tunnel_step (initial_tunnel\<lparr>tn_client_ended := True\<rparr>) t'"
proof -
  have "tunnel_reachable (initial_tunnel\<lparr>tn_client_ended := True\<rparr>)"
    using tunnel_reachable.step [OF tunnel_reachable.start] client_ends by blast
  from tunnel_drains [OF this] show ?thesis
    by (simp add: initial_tunnel_def)
qed

end
