(* ===== verification/Extclean.thy ===== *)
theory Extclean
  imports Go_Json Go_Path Go_Flags
begin

text \<open>
  The parts of \<^verbatim>\<open>extclean\<close> that the four scanners share: findings and their order
  (\<^verbatim>\<open>finding.go\<close>), shell words and the resolution of commands (\<^verbatim>\<open>resolve.go\<close>), the removal of one entry
  from a JSON document (\<^verbatim>\<open>jsonapply.go\<close>) or of one table from a TOML text (\<^verbatim>\<open>codex.go\<close>). A document
  is what \<^verbatim>\<open>json.Unmarshal\<close> makes of it in an \<^verbatim>\<open>any\<close>; a decoded object is an association list in
  which the first pair of a key counts. Strings are taken to be valid UTF-8.
\<close>

section \<open>Documents\<close>

datatype jval = JV_null | JV_bool bool | JV_num string | JV_str string | JV_arr "jval list"
  | JV_obj "(string \<times> jval) list"

text \<open>Decoding into Go types: \<open>None\<close> is a type error, \<^verbatim>\<open>null\<close> leaves the zero value. A struct reads the
  key that equals the field's name up to case, the exact one first.\<close>

definition field :: "string \<Rightarrow> (string \<times> jval) list \<Rightarrow> jval option" where
  "field name kvs = (case map_of kvs name of Some v \<Rightarrow> Some v
     | None \<Rightarrow> map_option snd (find (\<lambda>(k, v). equal_fold k name) kvs))"

definition decode_field :: "string \<Rightarrow> (jval \<Rightarrow> 'a option) \<Rightarrow> 'a \<Rightarrow> jval \<Rightarrow> 'a option" where
  "decode_field name dec zero v =
     (case v of
        JV_obj kvs \<Rightarrow> (case field name kvs of None \<Rightarrow> Some zero | Some x \<Rightarrow> dec x)
      | JV_null \<Rightarrow> Some zero
      | _ \<Rightarrow> None)"

definition decode_string :: "jval \<Rightarrow> string option" where
  "decode_string v = (case v of JV_str s \<Rightarrow> Some s | JV_null \<Rightarrow> Some [] | _ \<Rightarrow> None)"

definition decode_bool_ptr :: "jval \<Rightarrow> bool option option" where
  "decode_bool_ptr v = (case v of JV_bool b \<Rightarrow> Some (Some b) | JV_null \<Rightarrow> Some None | _ \<Rightarrow> None)"

definition decode_slice :: "(jval \<Rightarrow> 'a option) \<Rightarrow> jval \<Rightarrow> 'a list option" where
  "decode_slice dec v = (case v of JV_arr vs \<Rightarrow> those (map dec vs) | JV_null \<Rightarrow> Some [] | _ \<Rightarrow> None)"

definition decode_map :: "(jval \<Rightarrow> 'a option) \<Rightarrow> jval \<Rightarrow> (string \<times> 'a) list option" where
  "decode_map dec v = (case v of
     JV_obj kvs \<Rightarrow> those (map (\<lambda>(k, x). map_option (Pair k) (dec x)) (go_entries kvs))
   | JV_null \<Rightarrow> Some [] | _ \<Rightarrow> None)"

section \<open>Findings\<close>

datatype finding_kind = Hook | Mcp_server | Plugin | Marketplace | Extension | Package

fun kind_name :: "finding_kind \<Rightarrow> string" where
  "kind_name Hook = ''hook''" | "kind_name Mcp_server = ''mcp''" | "kind_name Plugin = ''plugin''"
| "kind_name Marketplace = ''marketplace''" | "kind_name Extension = ''extension''" | "kind_name Package = ''package''"

datatype finding_reason = Dangling | Orphaned

datatype locator = Map_key "string list" string | Array_entry "string list" string | Toml_table string

record finding =
  fi_tool :: string
  fi_kind :: finding_kind
  fi_name :: string
  fi_file :: string
  fi_reason :: finding_reason
  fi_locator :: locator

text \<open>\<^verbatim>\<open>sort.Slice\<close> is not stable; findings that compare equal keep the order they were found in here.\<close>

definition finding_key :: "finding \<Rightarrow> string list" where
  "finding_key f = [fi_tool f, kind_name (fi_kind f), fi_name f]"

definition finding_before :: "finding \<Rightarrow> finding \<Rightarrow> bool" where
  "finding_before a b = (if fi_tool a \<noteq> fi_tool b then fi_tool a < fi_tool b
     else if fi_kind a \<noteq> fi_kind b then kind_name (fi_kind a) < kind_name (fi_kind b)
     else fi_name a < fi_name b)"

definition sort_findings :: "finding list \<Rightarrow> finding list" where
  "sort_findings = sort_key finding_key"

definition group_by_tool :: "finding list \<Rightarrow> string \<Rightarrow> finding list" where
  "group_by_tool fs tool = filter (\<lambda>f. fi_tool f = tool) fs"

text \<open>The summary line of the report: tools, findings, dangling and orphaned ones.\<close>

definition report_counts :: "string list \<Rightarrow> finding list \<Rightarrow> nat \<times> nat \<times> nat \<times> nat" where
  "report_counts tools fs = (length tools, length fs, length (filter (\<lambda>f. fi_reason f = Dangling) fs),
     length (filter (\<lambda>f. fi_reason f = Orphaned) fs))"

section \<open>Commands\<close>

record tokenizer =
  tz_tokens :: "string list"
  tz_cur :: string
  tz_have :: bool
  tz_quote :: "char option"
  tz_escaped :: bool

definition start_tokens :: tokenizer where
  "start_tokens = \<lparr>tz_tokens = [], tz_cur = [], tz_have = False, tz_quote = None, tz_escaped = False\<rparr>"

definition flush_token :: "tokenizer \<Rightarrow> tokenizer" where
  "flush_token z = (if tz_have z then z\<lparr>tz_tokens := tz_tokens z @ [tz_cur z], tz_cur := [], tz_have := False\<rparr> else z)"

definition token_step :: "tokenizer \<Rightarrow> char \<Rightarrow> tokenizer" where
  "token_step z r =
     (if tz_escaped z then z\<lparr>tz_cur := tz_cur z @ [r], tz_escaped := False, tz_have := True\<rparr>
      else case tz_quote z of
        Some q \<Rightarrow>
          if r = q then z\<lparr>tz_quote := None\<rparr>
          else if r = CHR 0x5C \<and> q = CHR 0x22 then z\<lparr>tz_escaped := True\<rparr>
          else z\<lparr>tz_cur := tz_cur z @ [r]\<rparr>
      | None \<Rightarrow>
          if r = CHR 0x27 \<or> r = CHR 0x22 then z\<lparr>tz_quote := Some r, tz_have := True\<rparr>
          else if r = CHR 0x5C then z\<lparr>tz_escaped := True, tz_have := True\<rparr>
          else if r = CHR '' '' \<or> r = CHR 0x09 then flush_token z
          else z\<lparr>tz_cur := tz_cur z @ [r], tz_have := True\<rparr>)"

definition tokenize_shell :: "string \<Rightarrow> string list option" where
  "tokenize_shell s =
     (let z = foldl token_step start_tokens s in
      if tz_quote z \<noteq> None \<or> tz_escaped z then None else Some (tz_tokens (flush_token z)))"

definition name_char :: "char \<Rightarrow> bool" where
  "name_char c \<longleftrightarrow> byte_in 65 90 c \<or> byte_in 97 122 c \<or> c = CHR ''_''"

text \<open>The regular expression \<^verbatim>\<open>^[A-Za-z_][A-Za-z0-9_]*=\<close>.\<close>

definition env_assign :: "string \<Rightarrow> bool" where
  "env_assign s = (let n = takeWhile (\<lambda>c. name_char c \<or> is_digit c) s in
     n \<noteq> [] \<and> name_char (hd n) \<and> has_prefix (drop (length n) s) ''='')"

definition strip_env_prefix :: "string list \<Rightarrow> string list" where
  "strip_env_prefix = dropWhile env_assign"

record places =
  pl_exists :: "string \<Rightarrow> bool"
  pl_non_empty_dir :: "string \<Rightarrow> bool"
  pl_look_path :: "string \<Rightarrow> bool"

definition resolve_command_token :: "places \<Rightarrow> string \<Rightarrow> string \<Rightarrow> bool" where
  "resolve_command_token pl token base_dir =
     (if token = [] then False
      else if CHR ''/'' \<in> set token then
        pl_exists pl (if is_abs token then token else path_join [base_dir, token])
      else pl_look_path pl token)"

definition resolve_command :: "places \<Rightarrow> string \<Rightarrow> string \<Rightarrow> bool" where
  "resolve_command pl raw base_dir =
     (case tokenize_shell raw of None \<Rightarrow> False
      | Some tokens \<Rightarrow> (case strip_env_prefix tokens of [] \<Rightarrow> False | t # _ \<Rightarrow> resolve_command_token pl t base_dir))"

section \<open>Removing an entry of a document\<close>

datatype apply_error = Read_error | Decode_error | Bad_shape | No_key | Not_found | Encode_error | Write_error
  | Bad_locator | Unsupported_kind | Repeated_table

definition put_value :: "string \<Rightarrow> jval \<Rightarrow> (string \<times> jval) list \<Rightarrow> (string \<times> jval) list" where
  "put_value k v kvs = map (\<lambda>(k', x). if k' = k then (k', v) else (k', x)) kvs"

text \<open>Walking to the object at a path and changing it in place, as \<^verbatim>\<open>navigateMap\<close> and an assignment do.\<close>

fun change_at :: "((string \<times> jval) list \<Rightarrow> apply_error + (string \<times> jval) list \<times> bool) \<Rightarrow> string list \<Rightarrow> jval
    \<Rightarrow> apply_error + jval \<times> bool" where
  "change_at f [] (JV_obj kvs) = (case f kvs of Inl e \<Rightarrow> Inl e | Inr (kvs', r) \<Rightarrow> Inr (JV_obj kvs', r))"
| "change_at f (k # ks) (JV_obj kvs) =
     (case map_of kvs k of None \<Rightarrow> Inl No_key
      | Some v \<Rightarrow> (case change_at f ks v of Inl e \<Rightarrow> Inl e | Inr (v', r) \<Rightarrow> Inr (JV_obj (put_value k v' kvs), r)))"
| "change_at f _ _ = Inl Bad_shape"

definition remove_map_key :: "string list \<Rightarrow> string \<Rightarrow> jval \<Rightarrow> apply_error + jval \<times> bool" where
  "remove_map_key path key root =
     change_at (\<lambda>kvs. Inr (filter (\<lambda>(k, v). k \<noteq> key) kvs, map_of kvs key \<noteq> None)) path root"

fun filter_out_first :: "('a \<Rightarrow> bool) \<Rightarrow> 'a list \<Rightarrow> 'a list \<times> bool" where
  "filter_out_first P [] = ([], False)"
| "filter_out_first P (x # xs) = (if P x then (xs, True)
     else case filter_out_first P xs of (ys, r) \<Rightarrow> (x # ys, r))"

definition remove_array_element :: "string list \<Rightarrow> (jval \<Rightarrow> bool) \<Rightarrow> jval \<Rightarrow> apply_error + jval \<times> bool" where
  "remove_array_element path P root =
     (if path = [] then
        (case root of JV_arr vs \<Rightarrow> (case filter_out_first P vs of (vs', r) \<Rightarrow> Inr (JV_arr vs', r)) | _ \<Rightarrow> Inl Bad_shape)
      else change_at (\<lambda>parent.
        case map_of parent (last path) of
          None \<Rightarrow> Inl No_key
        | Some (JV_arr vs) \<Rightarrow>
            (case filter_out_first P vs of (vs', r) \<Rightarrow> Inr (put_value (last path) (JV_arr vs') parent, r))
        | Some _ \<Rightarrow> Inl Bad_shape) (butlast path) root)"

definition member_is :: "string \<Rightarrow> string \<Rightarrow> jval \<Rightarrow> bool" where
  "member_is name s v = (case v of JV_obj kvs \<Rightarrow> map_of kvs name = Some (JV_str s) | _ \<Rightarrow> False)"

text \<open>The groups of an event: the first group whose \<^verbatim>\<open>hooks\<close> hold the command loses it.\<close>

fun strip_groups :: "string \<Rightarrow> jval list \<Rightarrow> jval list \<times> bool" where
  "strip_groups command [] = ([], False)"
| "strip_groups command (g # gs) =
     (let later = (case strip_groups command gs of (gs', r) \<Rightarrow> (g # gs', r)) in
      case g of
        JV_obj members \<Rightarrow>
          (case map_of members ''hooks'' of
             Some (JV_arr hooks) \<Rightarrow>
               (case filter_out_first (member_is ''command'' command) hooks of
                  (hooks', True) \<Rightarrow> (JV_obj (put_value ''hooks'' (JV_arr hooks') members) # gs, True)
                | _ \<Rightarrow> later)
           | _ \<Rightarrow> later)
      | _ \<Rightarrow> later)"

definition remove_claude_hook :: "string \<Rightarrow> string \<Rightarrow> jval \<Rightarrow> apply_error + jval \<times> bool" where
  "remove_claude_hook event command root =
     change_at (\<lambda>m. case map_of m event of
          None \<Rightarrow> Inl No_key
        | Some (JV_arr groups) \<Rightarrow>
            (case strip_groups command groups of (groups', r) \<Rightarrow> Inr (put_value event (JV_arr groups') m, r))
        | Some _ \<Rightarrow> Inl Bad_shape) [''hooks''] root"

section \<open>Removing a table of a TOML text\<close>

definition opens_table :: "string \<Rightarrow> bool" where
  "opens_table line \<longleftrightarrow> has_prefix (trim_space line) ''[''"

definition blank_line :: "string \<Rightarrow> bool" where
  "blank_line line \<longleftrightarrow> trim_space line = []"

definition table_lines :: "string \<Rightarrow> string list" where
  "table_lines text = (let ls = split_on (CHR 0x0A) text in if has_suffix text [CHR 0x0A] then butlast ls else ls)"

text \<open>The lines before the only header, and those from the next table on.\<close>

definition cut_table :: "string \<Rightarrow> string list \<Rightarrow> string list \<times> string list" where
  "cut_table header ls =
     (let before = takeWhile (\<lambda>l. trim_space l \<noteq> header) ls in
      (before, dropWhile (\<lambda>l. \<not> opens_table l) (drop (length before + 1) ls)))"

definition close_seam :: "string list \<Rightarrow> string list \<Rightarrow> string list" where
  "close_seam before after =
     (if after = [] \<and> before \<noteq> [] \<and> blank_line (last before) then butlast before
      else if before \<noteq> [] \<and> after \<noteq> [] \<and> blank_line (last before) \<and> blank_line (hd after) then before @ drop 1 after
      else before @ after)"

definition remove_toml_table :: "string \<Rightarrow> string \<Rightarrow> apply_error + string" where
  "remove_toml_table text header =
     (let ls = table_lines text; count = length (filter (\<lambda>l. trim_space l = header) ls) in
      if count = 0 then Inl Not_found
      else if count > 1 then Inl Repeated_table
      else case cut_table header ls of (before, after) \<Rightarrow>
        Inr (join [CHR 0x0A] (close_seam before after) @ (if has_suffix text [CHR 0x0A] then [CHR 0x0A] else [])))"

section \<open>What a removal changes\<close>

fun lookup_at :: "string list \<Rightarrow> jval \<Rightarrow> jval option" where
  "lookup_at [] v = Some v"
| "lookup_at (k # ks) (JV_obj kvs) = (case map_of kvs k of None \<Rightarrow> None | Some v \<Rightarrow> lookup_at ks v)"
| "lookup_at (k # ks) _ = None"

lemma map_of_put_value: "map_of (put_value k v kvs) k' = (if k' = k then map_option (\<lambda>_. v) (map_of kvs k) else map_of kvs k')"
  by (induction kvs) (auto simp: put_value_def)

lemma map_of_drop_key: "map_of (filter (\<lambda>(k, v). k \<noteq> key) kvs) k' = (if k' = key then None else map_of kvs k')"
  by (induction kvs) auto

lemma lookup_at_append: "lookup_at (ps @ qs) v = (case lookup_at ps v of None \<Rightarrow> None | Some w \<Rightarrow> lookup_at qs w)"
  by (induction ps v rule: lookup_at.induct) (auto split: option.split)

text \<open>A change at a path acts on the object there and leaves every path apart from it alone.\<close>

lemma change_at_here:
  "change_at f path root = Inr (root', r) \<Longrightarrow> \<exists>kvs kvs'. lookup_at path root = Some (JV_obj kvs) \<and> f kvs = Inr (kvs', r)
    \<and> lookup_at path root' = Some (JV_obj kvs')"
proof (induction f path root arbitrary: root' rule: change_at.induct)
  case (2 f k ks kvs)
  then obtain v v' where "map_of kvs k = Some v" "change_at f ks v = Inr (v', r)" "root' = JV_obj (put_value k v' kvs)"
    by (auto split: option.split_asm sum.split_asm)
  with 2 show ?case
    by (simp add: map_of_put_value)
qed (auto split: sum.split_asm)

lemma change_at_elsewhere:
  "change_at f path root = Inr (root', r) \<Longrightarrow> \<not> prefix path p \<Longrightarrow> \<not> prefix p path \<Longrightarrow> lookup_at p root' = lookup_at p root"
proof (induction f path root arbitrary: root' p rule: change_at.induct)
  case (2 f k ks kvs)
  then obtain v v' where v: "map_of kvs k = Some v" "change_at f ks v = Inr (v', r)" "root' = JV_obj (put_value k v' kvs)"
    by (auto split: option.split_asm sum.split_asm)
  obtain q qs where p: "p = q # qs"
    using "2.prems"(3) by (cases p) auto
  show ?case
  proof (cases "q = k")
    case True
    with "2.IH" [OF v(1,2)] "2.prems"(2,3) v(1) show ?thesis
      by (simp add: v(3) p map_of_put_value)
  qed (simp add: v(3) p map_of_put_value)
qed auto

lemma remove_map_key_local:
  assumes "remove_map_key path key root = Inr (root', True)"
  shows "lookup_at (path @ [key]) root \<noteq> None \<and> lookup_at (path @ [key]) root' = None
    \<and> (\<forall>p. \<not> prefix (path @ [key]) p \<and> \<not> prefix p path \<longrightarrow> lookup_at p root' = lookup_at p root)"
proof -
  obtain kvs kvs' where k: "lookup_at path root = Some (JV_obj kvs)" "lookup_at path root' = Some (JV_obj kvs')"
    and f: "kvs' = filter (\<lambda>(k, v). k \<noteq> key) kvs" "map_of kvs key \<noteq> None"
    using change_at_here [OF assms [unfolded remove_map_key_def]] by auto
  have "lookup_at p root' = lookup_at p root" if p: "\<not> prefix (path @ [key]) p" "\<not> prefix p path" for p
  proof (cases "prefix path p")
    case False
    then show ?thesis
      using change_at_elsewhere [OF assms [unfolded remove_map_key_def]] p(2) by blast
  next
    case True
    then obtain q qs where pq: "p = path @ q # qs"
      using p(2) by (metis append_Nil2 list.exhaust prefix_def prefix_order.order_refl)
    then have "q \<noteq> key"
      using p(1) by (auto simp: prefix_def)
    then show ?thesis
      by (simp add: pq lookup_at_append k f(1) map_of_drop_key)
  qed
  with k f show ?thesis
    by (simp add: lookup_at_append map_of_drop_key split: option.split)
qed

lemma filter_out_first_split:
  "filter_out_first P xs = (ys, True) \<Longrightarrow> \<exists>a x b. xs = a @ x # b \<and> ys = a @ b \<and> P x \<and> (\<forall>z \<in> set a. \<not> P z)"
proof (induction xs arbitrary: ys)
  case (Cons x xs)
  show ?case
  proof (cases "P x")
    case True
    with Cons.prems show ?thesis
      by (intro exI [of _ "[]"] exI [of _ x] exI [of _ xs]) simp
  next
    case False
    with Cons.prems obtain ys' where "filter_out_first P xs = (ys', True)" "ys = x # ys'"
      by (auto split: prod.split_asm)
    with Cons.IH False obtain a z b where "xs = a @ z # b" "ys' = a @ b" "P z" "\<forall>w \<in> set a. \<not> P w"
      by blast
    with False \<open>ys = x # ys'\<close> show ?thesis
      by (intro exI [of _ "x # a"] exI [of _ z] exI [of _ b]) simp
  qed
qed simp

lemma prefix_butlast_last: "path \<noteq> [] \<Longrightarrow> butlast path @ [last path] = path"
  by simp

lemma remove_array_element_local:
  assumes "remove_array_element path P root = Inr (root', True)"
  shows "(\<exists>a x b. lookup_at path root = Some (JV_arr (a @ x # b)) \<and> lookup_at path root' = Some (JV_arr (a @ b))
      \<and> P x \<and> (\<forall>z \<in> set a. \<not> P z))
    \<and> (\<forall>p. \<not> prefix path p \<and> \<not> prefix p path \<longrightarrow> lookup_at p root' = lookup_at p root)"
proof (cases "path = []")
  case True
  with assms show ?thesis
    by (auto simp: remove_array_element_def split: jval.split_asm prod.split_asm dest: filter_out_first_split)
next
  case False
  let ?f = "\<lambda>parent. case map_of parent (last path) of None \<Rightarrow> Inl No_key
    | Some (JV_arr vs) \<Rightarrow> (case filter_out_first P vs of (vs', r) \<Rightarrow> Inr (put_value (last path) (JV_arr vs') parent, r))
    | Some _ \<Rightarrow> Inl Bad_shape"
  have c: "change_at ?f (butlast path) root = Inr (root', True)"
    using assms False by (simp add: remove_array_element_def)
  obtain kvs kvs' where k: "lookup_at (butlast path) root = Some (JV_obj kvs)" "lookup_at (butlast path) root' = Some (JV_obj kvs')"
    and f: "?f kvs = Inr (kvs', True)"
    using change_at_here [OF c] by blast
  obtain vs vs' where vs: "map_of kvs (last path) = Some (JV_arr vs)" "filter_out_first P vs = (vs', True)"
    "kvs' = put_value (last path) (JV_arr vs') kvs"
    using f by (auto split: option.split_asm jval.split_asm prod.split_asm)
  have at: "lookup_at path v = (case lookup_at (butlast path) v of None \<Rightarrow> None | Some w \<Rightarrow> lookup_at [last path] w)" for v
    using lookup_at_append [of "butlast path" "[last path]" v] False by simp
  have "lookup_at p root' = lookup_at p root" if p: "\<not> prefix path p" "\<not> prefix p path" for p
  proof (cases "prefix (butlast path) p")
    case False
    moreover have "\<not> prefix p (butlast path)"
      using p(2) by (meson prefix_order.trans prefixeq_butlast)
    ultimately show ?thesis
      by (rule change_at_elsewhere [OF c])
  next
    case True
    then obtain qs where pq: "p = butlast path @ qs"
      by (auto simp: prefix_def)
    with p(2) obtain q qs' where q: "qs = q # qs'"
      by (cases qs) (auto simp: prefixeq_butlast)
    have "q \<noteq> last path"
    proof
      assume "q = last path"
      then have "p = path @ qs'"
        using pq q prefix_butlast_last [OF False] by (metis append.assoc append_Cons append_Nil)
      with p(1) show False
        by simp
    qed
    then show ?thesis
      by (simp add: pq q lookup_at_append k vs(3) map_of_put_value)
  qed
  moreover have "\<exists>a x b. lookup_at path root = Some (JV_arr (a @ x # b)) \<and> lookup_at path root' = Some (JV_arr (a @ b))
      \<and> P x \<and> (\<forall>z \<in> set a. \<not> P z)"
    using filter_out_first_split [OF vs(2)] by (auto simp: at k vs map_of_put_value)
  ultimately show ?thesis
    by blast
qed

lemma strip_groups_split:
  "strip_groups command gs = (gs', True) \<Longrightarrow> \<exists>a g b c x d. gs = a @ JV_obj g # b
     \<and> map_of g ''hooks'' = Some (JV_arr (c @ x # d)) \<and> member_is ''command'' command x
     \<and> gs' = a @ JV_obj (put_value ''hooks'' (JV_arr (c @ d)) g) # b"
proof (induction gs arbitrary: gs')
  case (Cons g gs)
  show ?case
  proof (cases "\<exists>m hooks hooks'. g = JV_obj m \<and> map_of m ''hooks'' = Some (JV_arr hooks)
      \<and> filter_out_first (member_is ''command'' command) hooks = (hooks', True)")
    case True
    then obtain m hooks hooks' where g: "g = JV_obj m" "map_of m ''hooks'' = Some (JV_arr hooks)"
      and f: "filter_out_first (member_is ''command'' command) hooks = (hooks', True)"
      by blast
    obtain c x d where "hooks = c @ x # d" "hooks' = c @ d" "member_is ''command'' command x"
      using filter_out_first_split [OF f] by blast
    moreover have "gs' = JV_obj (put_value ''hooks'' (JV_arr hooks') m) # gs"
      using Cons.prems g f by (simp add: Let_def)
    ultimately show ?thesis
      using g by (intro exI [of _ "[]"] exI [of _ m] exI [of _ gs] exI [of _ c] exI [of _ x] exI [of _ d]) simp
  next
    case False
    then have "strip_groups command (g # gs) = (case strip_groups command gs of (gs', r) \<Rightarrow> (g # gs', r))"
      by (auto simp: Let_def split: jval.split option.split prod.split bool.split)
    with Cons.prems obtain gs1 where g1: "strip_groups command gs = (gs1, True)" "gs' = g # gs1"
      by (auto split: prod.split_asm)
    from Cons.IH [OF g1(1)] obtain a m b c x d where "gs = a @ JV_obj m # b" "map_of m ''hooks'' = Some (JV_arr (c @ x # d))"
      "member_is ''command'' command x" "gs1 = a @ JV_obj (put_value ''hooks'' (JV_arr (c @ d)) m) # b"
      by blast
    with g1(2) show ?thesis
      by (intro exI [of _ "g # a"] exI [of _ m] exI [of _ b] exI [of _ c] exI [of _ x] exI [of _ d]) simp
  qed
qed simp

lemma remove_claude_hook_local:
  assumes "remove_claude_hook event command root = Inr (root', True)"
  shows "(\<exists>a g b c x d. lookup_at [''hooks'', event] root = Some (JV_arr (a @ JV_obj g # b))
      \<and> map_of g ''hooks'' = Some (JV_arr (c @ x # d)) \<and> member_is ''command'' command x
      \<and> lookup_at [''hooks'', event] root' = Some (JV_arr (a @ JV_obj (put_value ''hooks'' (JV_arr (c @ d)) g) # b)))
    \<and> (\<forall>p. \<not> prefix [''hooks'', event] p \<and> \<not> prefix p [''hooks'', event] \<longrightarrow> lookup_at p root' = lookup_at p root)"
proof -
  let ?f = "\<lambda>m. case map_of m event of None \<Rightarrow> Inl No_key
    | Some (JV_arr groups) \<Rightarrow> (case strip_groups command groups of (groups', r) \<Rightarrow> Inr (put_value event (JV_arr groups') m, r))
    | Some _ \<Rightarrow> Inl Bad_shape"
  have c: "change_at ?f [''hooks''] root = Inr (root', True)"
    using assms by (simp add: remove_claude_hook_def)
  obtain m m' where k: "lookup_at [''hooks''] root = Some (JV_obj m)" "lookup_at [''hooks''] root' = Some (JV_obj m')"
    and f: "?f m = Inr (m', True)"
    using change_at_here [OF c] by blast
  obtain gs gs' where gs: "map_of m event = Some (JV_arr gs)" "strip_groups command gs = (gs', True)" "m' = put_value event (JV_arr gs') m"
    using f by (auto split: option.split_asm jval.split_asm prod.split_asm)
  have at: "lookup_at (''hooks'' # q) v = (case lookup_at [''hooks''] v of None \<Rightarrow> None | Some w \<Rightarrow> lookup_at q w)" for q v
    using lookup_at_append [of "[''hooks'']" q v] by simp
  have "lookup_at p root' = lookup_at p root" if p: "\<not> prefix [''hooks'', event] p" "\<not> prefix p [''hooks'', event]" for p
  proof (cases "prefix [''hooks''] p")
    case False
    moreover have "\<not> prefix p [''hooks'']"
      using p(2) by (cases p) auto
    ultimately show ?thesis
      by (rule change_at_elsewhere [OF c])
  next
    case True
    then obtain q qs where "p = ''hooks'' # q # qs" "q \<noteq> event"
      using p by (cases p; cases "List.tl p") auto
    then show ?thesis
      using at [of "q # qs" root] at [of "q # qs" root'] by (simp add: k gs(3) map_of_put_value)
  qed
  moreover have "lookup_at [''hooks'', event] root = Some (JV_arr gs)" "lookup_at [''hooks'', event] root' = Some (JV_arr gs')"
    using at [of "[event]" root] at [of "[event]" root'] by (simp_all add: k gs map_of_put_value)
  ultimately show ?thesis
    using strip_groups_split [OF gs(2)] by auto
qed

section \<open>What a table removal keeps\<close>

lemma text_of_lines: "text = join [CHR 0x0A] (table_lines text) @ (if has_suffix text [CHR 0x0A] then [CHR 0x0A] else [])"
proof (cases "has_suffix text [CHR 0x0A]")
  case False
  then show ?thesis
    by (simp add: table_lines_def)
next
  case True
  then obtain r where r: "text = r @ [CHR 0x0A]"
    by (auto simp: has_suffix_iff)
  have "split_on (CHR 0x0A) (r @ [CHR 0x0A]) = split_on (CHR 0x0A) r @ [[]]"
    by (induction r) (auto split: list.split)
  with True r show ?thesis
    by (simp add: table_lines_def)
qed

lemma cut_table_split:
  assumes "cut_table header ls = (before, after)" "length (filter (\<lambda>l. trim_space l = header) ls) = 1"
  shows "\<exists>h body. ls = before @ h # body @ after \<and> trim_space h = header
    \<and> (\<forall>l \<in> set before \<union> set body \<union> set after. trim_space l \<noteq> header)
    \<and> (\<forall>l \<in> set body. \<not> opens_table l) \<and> (after = [] \<or> opens_table (hd after))"
proof -
  let ?P = "\<lambda>l. trim_space l \<noteq> header"
  have b: "before = takeWhile ?P ls" and a: "after = dropWhile (\<lambda>l. \<not> opens_table l) (drop (length before + 1) ls)"
    using assms(1) by (auto simp: cut_table_def Let_def)
  have "dropWhile ?P ls \<noteq> []"
  proof
    assume "dropWhile ?P ls = []"
    then have "filter (\<lambda>l. trim_space l = header) ls = []"
      by (auto simp: filter_empty_conv dropWhile_eq_Nil_conv)
    with assms(2) show False
      by simp
  qed
  then obtain h post where d: "dropWhile ?P ls = h # post"
    by (cases "dropWhile ?P ls") auto
  then have h: "trim_space h = header"
    using hd_dropWhile [of ?P ls] by simp
  have ls: "ls = before @ h # post"
    using takeWhile_dropWhile_id [of ?P ls] by (simp add: b d)
  have "\<forall>l \<in> set before. trim_space l \<noteq> header"
    using b by (auto dest: set_takeWhileD)
  moreover have "\<forall>l \<in> set post. trim_space l \<noteq> header"
    using assms(2) h calculation by (auto simp: ls filter_empty_conv)
  moreover have post: "post = takeWhile (\<lambda>l. \<not> opens_table l) post @ after"
    using a by (simp add: ls)
  moreover have "after = [] \<or> opens_table (hd after)"
    using hd_dropWhile [of "\<lambda>l. \<not> opens_table l" post] a by (auto simp: ls)
  moreover have "\<forall>l \<in> set (takeWhile (\<lambda>l. \<not> opens_table l) post). \<not> opens_table l"
    by (auto dest: set_takeWhileD)
  ultimately show ?thesis
    using ls h by (intro exI [of _ h] exI [of _ "takeWhile (\<lambda>l. \<not> opens_table l) post"]) (auto, (metis UnCI set_append)+)
qed

text \<open>The line after an excised table opens the next one, so it is never blank.\<close>

lemma opens_not_blank: "opens_table l \<Longrightarrow> \<not> blank_line l"
  by (auto simp: opens_table_def blank_line_def)

lemma close_seam_cut:
  "after = [] \<or> opens_table (hd after) \<Longrightarrow> close_seam before after
    = (if after = [] \<and> before \<noteq> [] \<and> blank_line (last before) then butlast before else before @ after)"
  using opens_not_blank by (auto simp: close_seam_def)

end
