(* ===== verification/Extclean_Scan.thy ===== *)
theory Extclean_Scan
  imports Extclean
begin

text \<open>
  The four scanners of \<^verbatim>\<open>extclean\<close> (\<^verbatim>\<open>claude.go\<close>, \<^verbatim>\<open>cursor.go\<close>, \<^verbatim>\<open>codex.go\<close>, \<^verbatim>\<open>pi.go\<close>,
  \<^verbatim>\<open>mcpservers.go\<close>, \<^verbatim>\<open>installed.go\<close>), the removal of their findings and \<^verbatim>\<open>main\<close>. A \<open>system\<close> is what the tools
  ask of the machine; the files are a map from paths to contents, which removals change. The detail
  texts of findings are left out.
\<close>

section \<open>The system\<close>

type_synonym contents = "string \<Rightarrow> bytes option"

record system =
  sy_places :: places
  sy_home :: string
  sy_parse :: "bytes \<Rightarrow> jval option"
  sy_show :: "jval \<Rightarrow> bytes"
  sy_toml :: "bytes \<Rightarrow> jval option"
  sy_write :: "string \<Rightarrow> bool"
  sy_torn :: "string \<Rightarrow> bytes option"
  sy_rename :: "string \<Rightarrow> bool"

definition claude_installed :: "system \<Rightarrow> bool" where
  "claude_installed sy = pl_look_path (sy_places sy) ''claude''"

definition cursor_installed :: "system \<Rightarrow> bool" where
  "cursor_installed sy = pl_exists (sy_places sy) ''/Applications/Cursor.app''"

definition codex_installed :: "system \<Rightarrow> bool" where
  "codex_installed sy = pl_look_path (sy_places sy) ''codex''"

definition pi_installed :: "system \<Rightarrow> bool" where
  "pi_installed sy = pl_look_path (sy_places sy) ''pi''"

datatype scan_failure = Read_failure string | Decode_failure string

text \<open>Every scan reads one file, decodes it and collects; a file that does not exist has no findings.\<close>

definition scan_file :: "system \<Rightarrow> contents \<Rightarrow> string \<Rightarrow> (jval \<Rightarrow> 'a option) \<Rightarrow> ('a \<Rightarrow> finding list)
    \<Rightarrow> scan_failure + finding list" where
  "scan_file sy fs path dec collect =
     (if \<not> pl_exists (sy_places sy) path then Inr []
      else case fs path of
        None \<Rightarrow> Inl (Read_failure path)
      | Some data \<Rightarrow>
          (case sy_parse sy data of
             None \<Rightarrow> Inl (Decode_failure path)
           | Some root \<Rightarrow> (case dec root of None \<Rightarrow> Inl (Decode_failure path) | Some x \<Rightarrow> Inr (collect x))))"

text \<open>An entry of a tool that is not installed is orphaned, one that does not resolve is dangling.\<close>

definition judge :: "bool \<Rightarrow> bool \<Rightarrow> (finding_reason \<Rightarrow> finding) \<Rightarrow> finding list" where
  "judge orphaned ok f = (if orphaned then [f Orphaned] else if \<not> ok then [f Dangling] else [])"

section \<open>MCP servers\<close>

definition decode_server :: "jval \<Rightarrow> string option" where
  "decode_server v = decode_field ''command'' decode_string [] v"

definition scan_mcp_servers_map :: "string \<Rightarrow> string \<Rightarrow> string list \<Rightarrow> (string \<times> string) list \<Rightarrow> string \<Rightarrow> bool \<Rightarrow> places
    \<Rightarrow> finding list" where
  "scan_mcp_servers_map tool file path servers base_dir orphaned pl =
     concat (map (\<lambda>(name, command). judge orphaned (resolve_command_token pl command base_dir)
       (\<lambda>r. \<lparr>fi_tool = tool, fi_kind = Mcp_server, fi_name = name, fi_file = file, fi_reason = r, fi_locator = Map_key path name\<rparr>))
       (go_entries servers))"

section \<open>Claude Code\<close>

definition claude_settings_path :: "string \<Rightarrow> string" where
  "claude_settings_path home = path_join [home, ''.claude'', ''settings.json'']"

definition claude_app_path :: "string \<Rightarrow> string" where
  "claude_app_path home = path_join [home, ''.claude.json'']"

definition claude_plugins_path :: "string \<Rightarrow> string" where
  "claude_plugins_path home = path_join [home, ''.claude'', ''plugins'', ''installed_plugins.json'']"

definition claude_marketplaces_path :: "string \<Rightarrow> string" where
  "claude_marketplaces_path home = path_join [home, ''.claude'', ''plugins'', ''known_marketplaces.json'']"

text \<open>A hook is its type and command, a group its hooks.\<close>

definition decode_hook :: "jval \<Rightarrow> (string \<times> string) option" where
  "decode_hook v = (case decode_field ''type'' decode_string [] v of None \<Rightarrow> None
     | Some t \<Rightarrow> map_option (Pair t) (decode_field ''command'' decode_string [] v))"

definition decode_group :: "jval \<Rightarrow> (string \<times> string) list option" where
  "decode_group v = (case decode_field ''matcher'' decode_string [] v of None \<Rightarrow> None
     | Some _ \<Rightarrow> decode_field ''hooks'' (decode_slice decode_hook) [] v)"

definition decode_settings :: "jval \<Rightarrow> (string \<times> (string \<times> string) list list) list option" where
  "decode_settings = decode_field ''hooks'' (decode_map (decode_slice decode_group)) []"

definition claude_finding :: "finding_kind \<Rightarrow> string \<Rightarrow> string \<Rightarrow> locator \<Rightarrow> finding_reason \<Rightarrow> finding" where
  "claude_finding kind name file loc r = \<lparr>fi_tool = ''claude'', fi_kind = kind, fi_name = name, fi_file = file,
     fi_reason = r, fi_locator = loc\<rparr>"

definition scan_hooks :: "system \<Rightarrow> contents \<Rightarrow> scan_failure + finding list" where
  "scan_hooks sy fs =
     (let path = claude_settings_path (sy_home sy) in
      scan_file sy fs path decode_settings (\<lambda>events. sort_findings (concat (map (\<lambda>(event, groups).
        concat (map (\<lambda>(t, command).
          if t \<noteq> ''command'' \<or> command = [] then []
          else judge (\<not> claude_installed sy) (resolve_command (sy_places sy) command (sy_home sy))
            (claude_finding Hook (event @ '': '' @ command) path (Array_entry [''hooks'', event] command))) (concat groups)))
        (go_entries events)))))"

definition decode_servers :: "jval \<Rightarrow> (string \<times> string) list option" where
  "decode_servers = decode_field ''mcpServers'' (decode_map decode_server) []"

definition decode_app :: "jval \<Rightarrow> ((string \<times> string) list \<times> (string \<times> (string \<times> string) list) list) option" where
  "decode_app v = (case decode_servers v of None \<Rightarrow> None
     | Some ss \<Rightarrow> map_option (Pair ss) (decode_field ''projects'' (decode_map decode_servers) [] v))"

definition scan_claude_mcp :: "system \<Rightarrow> contents \<Rightarrow> scan_failure + finding list" where
  "scan_claude_mcp sy fs =
     (let path = claude_app_path (sy_home sy);
          servers = (\<lambda>root ss. scan_mcp_servers_map ''claude'' path root ss (sy_home sy) (\<not> claude_installed sy) (sy_places sy)) in
      scan_file sy fs path decode_app (\<lambda>(global, projects). sort_findings (servers [''mcpServers''] global
        @ concat (map (\<lambda>(p, ss). servers [''projects'', p, ''mcpServers''] ss) (go_entries projects)))))"

definition scan_plugins :: "system \<Rightarrow> contents \<Rightarrow> scan_failure + finding list" where
  "scan_plugins sy fs =
     (let path = claude_plugins_path (sy_home sy) in
      scan_file sy fs path
        (decode_field ''plugins'' (decode_map (decode_slice (decode_field ''installPath'' decode_string []))) [])
        (\<lambda>plugins. sort_findings (concat (map (\<lambda>(name, entries). concat (map (\<lambda>ip.
          judge (\<not> claude_installed sy) (pl_exists (sy_places sy) ip)
            (claude_finding Plugin name path (Array_entry [''plugins'', name] ip))) entries)) (go_entries plugins)))))"

definition scan_marketplaces :: "system \<Rightarrow> contents \<Rightarrow> scan_failure + finding list" where
  "scan_marketplaces sy fs =
     (let path = claude_marketplaces_path (sy_home sy) in
      scan_file sy fs path (decode_map (decode_field ''installLocation'' decode_string []))
        (\<lambda>ms. sort_findings (concat (map (\<lambda>(name, loc).
          judge (\<not> claude_installed sy) (pl_exists (sy_places sy) loc)
            (claude_finding Marketplace name path (Map_key [] name))) (go_entries ms)))))"

text \<open>Scans in sequence; the first failure is the result.\<close>

fun scan_all :: "(scan_failure + finding list) list \<Rightarrow> scan_failure + finding list" where
  "scan_all [] = Inr []"
| "scan_all (r # rs) = (case r of Inl e \<Rightarrow> Inl e | Inr fs \<Rightarrow>
     (case scan_all rs of Inl e \<Rightarrow> Inl e | Inr gs \<Rightarrow> Inr (fs @ gs)))"

definition scan_claude :: "system \<Rightarrow> contents \<Rightarrow> scan_failure + finding list" where
  "scan_claude sy fs = scan_all [scan_hooks sy fs, scan_claude_mcp sy fs, scan_plugins sy fs, scan_marketplaces sy fs]"

section \<open>Cursor\<close>

definition cursor_extensions_dir :: "string \<Rightarrow> string" where
  "cursor_extensions_dir home = path_join [home, ''.cursor'', ''extensions'']"

definition cursor_extensions_path :: "string \<Rightarrow> string" where
  "cursor_extensions_path home = path_join [cursor_extensions_dir home, ''extensions.json'']"

definition cursor_mcp_path :: "string \<Rightarrow> string" where
  "cursor_mcp_path home = path_join [home, ''.cursor'', ''mcp.json'']"

definition decode_extension :: "jval \<Rightarrow> (string \<times> string) option" where
  "decode_extension v = (case decode_field ''identifier'' (decode_field ''id'' decode_string []) [] v of None \<Rightarrow> None
     | Some i \<Rightarrow> map_option (Pair i) (decode_field ''relativeLocation'' decode_string [] v))"

definition scan_extensions :: "system \<Rightarrow> contents \<Rightarrow> scan_failure + finding list" where
  "scan_extensions sy fs =
     (let path = cursor_extensions_path (sy_home sy) in
      scan_file sy fs path (decode_slice decode_extension) (\<lambda>es. sort_findings (concat (map (\<lambda>(i, rel).
        judge (\<not> cursor_installed sy)
          (pl_exists (sy_places sy) (path_join [cursor_extensions_dir (sy_home sy), rel, ''package.json'']))
          (\<lambda>r. \<lparr>fi_tool = ''cursor'', fi_kind = Extension, fi_name = i, fi_file = path, fi_reason = r,
             fi_locator = Array_entry [] i\<rparr>)) es))))"

definition scan_cursor_mcp :: "system \<Rightarrow> contents \<Rightarrow> scan_failure + finding list" where
  "scan_cursor_mcp sy fs =
     (let path = cursor_mcp_path (sy_home sy) in
      scan_file sy fs path decode_servers (\<lambda>ss. sort_findings
        (scan_mcp_servers_map ''cursor'' path [''mcpServers''] ss (sy_home sy) (\<not> cursor_installed sy) (sy_places sy))))"

definition scan_cursor :: "system \<Rightarrow> contents \<Rightarrow> scan_failure + finding list" where
  "scan_cursor sy fs = scan_all [scan_extensions sy fs, scan_cursor_mcp sy fs]"

section \<open>Codex\<close>

definition codex_config_path :: "string \<Rightarrow> string" where
  "codex_config_path home = path_join [home, ''.codex'', ''config.toml'']"

text \<open>The key of a plugin, split at its last \<^verbatim>\<open>@\<close>.\<close>

definition split_plugin_key :: "string \<Rightarrow> (string \<times> string) option" where
  "split_plugin_key key =
     (let marketplace = rev (takeWhile (\<lambda>c. c \<noteq> CHR ''@'') (rev key)) in
      if CHR ''@'' \<notin> set key then None
      else Some (take (length key - length marketplace - 1) key, marketplace))"

record codex_config =
  cx_marketplaces :: "(string \<times> string) list"
  cx_plugins :: "(string \<times> bool option) list"
  cx_servers :: "(string \<times> string \<times> string) list"

definition decode_codex_server :: "jval \<Rightarrow> (string \<times> string) option" where
  "decode_codex_server v =
     (case (decode_field ''command'' decode_string [] v, decode_field ''cwd'' decode_string [] v,
            decode_field ''enabled'' decode_bool_ptr None v) of
        (Some c, Some d, Some _) \<Rightarrow> Some (c, d) | _ \<Rightarrow> None)"

definition decode_codex :: "jval \<Rightarrow> codex_config option" where
  "decode_codex v =
     (case (decode_field ''marketplaces'' (decode_map (decode_field ''source'' decode_string [])) [] v,
            decode_field ''plugins'' (decode_map (decode_field ''enabled'' decode_bool_ptr None)) [] v,
            decode_field ''mcp_servers'' (decode_map decode_codex_server) [] v) of
        (Some ms, Some ps, Some ss) \<Rightarrow> Some \<lparr>cx_marketplaces = ms, cx_plugins = ps, cx_servers = ss\<rparr>
      | _ \<Rightarrow> None)"

text \<open>\<open>quote\<close> is the verb \<^verbatim>\<open>%q\<close> of \<^verbatim>\<open>fmt\<close> on printable ASCII text.\<close>

definition go_quote :: "string \<Rightarrow> string" where
  "go_quote s = [CHR 0x22] @ concat (map (\<lambda>c. if c = CHR 0x22 \<or> c = CHR 0x5C then [CHR 0x5C, c] else [c]) s) @ [CHR 0x22]"

definition codex_base_dir :: "string \<Rightarrow> string \<Rightarrow> string \<Rightarrow> string" where
  "codex_base_dir home name cwd =
     (let base = path_join [home, ''.codex'', name] in
      if cwd \<noteq> [] \<and> is_abs cwd then cwd else if cwd \<noteq> [] then path_join [base, cwd] else base)"

definition codex_finding :: "finding_kind \<Rightarrow> string \<Rightarrow> string \<Rightarrow> string \<Rightarrow> finding_reason \<Rightarrow> finding" where
  "codex_finding kind name file header r = \<lparr>fi_tool = ''codex'', fi_kind = kind, fi_name = name, fi_file = file,
     fi_reason = r, fi_locator = Toml_table header\<rparr>"

definition codex_findings :: "system \<Rightarrow> string \<Rightarrow> codex_config \<Rightarrow> finding list" where
  "codex_findings sy path cfg =
     (let orphaned = \<not> codex_installed sy in
      concat (map (\<lambda>(name, source). judge orphaned (pl_exists (sy_places sy) source)
          (codex_finding Marketplace name path (''[marketplaces.'' @ name @ '']''))) (go_entries (cx_marketplaces cfg)))
      @ concat (map (\<lambda>(key, enabled). case split_plugin_key key of
            None \<Rightarrow> []
          | Some (name, marketplace) \<Rightarrow> judge orphaned
              (pl_non_empty_dir (sy_places sy) (path_join [sy_home sy, ''.codex'', ''plugins'', ''cache'', marketplace, name]))
              (codex_finding Plugin key path (''[plugins.'' @ go_quote key @ '']''))) (go_entries (cx_plugins cfg)))
      @ concat (map (\<lambda>(name, command, cwd). judge orphaned
          (resolve_command_token (sy_places sy) command (codex_base_dir (sy_home sy) name cwd))
          (codex_finding Mcp_server name path (''[mcp_servers.'' @ name @ '']''))) (go_entries (cx_servers cfg))))"

definition scan_codex :: "system \<Rightarrow> contents \<Rightarrow> scan_failure + finding list" where
  "scan_codex sy fs =
     (let path = codex_config_path (sy_home sy) in
      if \<not> pl_exists (sy_places sy) path then Inr []
      else case fs path of
        None \<Rightarrow> Inl (Read_failure path)
      | Some data \<Rightarrow>
          (case sy_toml sy data of
             None \<Rightarrow> Inl (Decode_failure path)
           | Some root \<Rightarrow> (case decode_codex root of None \<Rightarrow> Inl (Decode_failure path)
               | Some cfg \<Rightarrow> Inr (sort_findings (codex_findings sy path cfg)))))"

section \<open>Pi\<close>

definition pi_settings_path :: "string \<Rightarrow> string" where
  "pi_settings_path home = path_join [home, ''.pi'', ''agent'', ''settings.json'']"

definition scan_pi :: "system \<Rightarrow> contents \<Rightarrow> scan_failure + finding list" where
  "scan_pi sy fs =
     (let path = pi_settings_path (sy_home sy) in
      scan_file sy fs path (decode_field ''packages'' (decode_slice decode_string) []) (\<lambda>entries. concat (map (\<lambda>entry.
        if \<not> has_prefix entry ''npm:'' then []
        else let name = drop 4 entry in
          judge (\<not> pi_installed sy)
            (pl_exists (sy_places sy) (path_join [sy_home sy, ''.pi'', ''agent'', ''npm'', ''node_modules'', name, ''package.json'']))
            (\<lambda>r. \<lparr>fi_tool = ''pi'', fi_kind = Package, fi_name = name, fi_file = path, fi_reason = r,
               fi_locator = Array_entry [''packages''] entry\<rparr>)) entries)))"

section \<open>Applying a removal\<close>

definition extclean_temp :: "string \<Rightarrow> string" where
  "extclean_temp path = path @ ''.extclean.tmp''"

definition replace_file :: "system \<Rightarrow> string \<Rightarrow> bytes \<Rightarrow> contents \<Rightarrow> apply_error option \<times> contents" where
  "replace_file sy path data fs =
     (let tmp = extclean_temp path in
      if \<not> sy_write sy tmp then (Some Write_error, fs(tmp := sy_torn sy tmp))
      else if \<not> sy_rename sy path then (Some Write_error, fs(tmp := Some data))
      else (None, fs(tmp := None, path := Some data)))"

definition apply_json_removal :: "system \<Rightarrow> string \<Rightarrow> (jval \<Rightarrow> apply_error + jval \<times> bool) \<Rightarrow> contents
    \<Rightarrow> apply_error option \<times> contents" where
  "apply_json_removal sy path remove fs =
     (case fs path of
        None \<Rightarrow> (Some Read_error, fs)
      | Some data \<Rightarrow>
          (case sy_parse sy data of
             None \<Rightarrow> (Some Decode_error, fs)
           | Some root \<Rightarrow>
               (case remove root of
                  Inl e \<Rightarrow> (Some e, fs)
                | Inr (root', removed) \<Rightarrow>
                    if \<not> removed then (Some Not_found, fs)
                    else replace_file sy path (sy_show sy root' @ [10]) fs)))"

definition remove_claude :: "system \<Rightarrow> finding \<Rightarrow> contents \<Rightarrow> apply_error option \<times> contents" where
  "remove_claude sy f fs =
     (case (fi_kind f, fi_locator f) of
        (Hook, Array_entry [_, event] command) \<Rightarrow> apply_json_removal sy (fi_file f) (remove_claude_hook event command) fs
      | (Hook, _) \<Rightarrow> (Some Bad_locator, fs)
      | (Mcp_server, Map_key path key) \<Rightarrow> apply_json_removal sy (fi_file f) (remove_map_key path key) fs
      | (Mcp_server, _) \<Rightarrow> (Some Bad_locator, fs)
      | (Plugin, Array_entry [a, b] name) \<Rightarrow>
          apply_json_removal sy (fi_file f) (remove_array_element [a, b] (member_is ''installPath'' name)) fs
      | (Plugin, _) \<Rightarrow> (Some Bad_locator, fs)
      | (Marketplace, Map_key path key) \<Rightarrow> apply_json_removal sy (fi_file f) (remove_map_key path key) fs
      | (Marketplace, _) \<Rightarrow> (Some Bad_locator, fs)
      | _ \<Rightarrow> (Some Unsupported_kind, fs))"

definition has_identifier :: "string \<Rightarrow> jval \<Rightarrow> bool" where
  "has_identifier name v = (case v of
     JV_obj kvs \<Rightarrow> (case map_of kvs ''identifier'' of Some i \<Rightarrow> member_is ''id'' name i | None \<Rightarrow> False)
   | _ \<Rightarrow> False)"

definition remove_cursor :: "system \<Rightarrow> finding \<Rightarrow> contents \<Rightarrow> apply_error option \<times> contents" where
  "remove_cursor sy f fs =
     (case (fi_kind f, fi_locator f) of
        (Extension, Array_entry path name) \<Rightarrow> apply_json_removal sy (fi_file f) (remove_array_element path (has_identifier name)) fs
      | (Extension, _) \<Rightarrow> (Some Bad_locator, fs)
      | (Mcp_server, Map_key path key) \<Rightarrow> apply_json_removal sy (fi_file f) (remove_map_key path key) fs
      | (Mcp_server, _) \<Rightarrow> (Some Bad_locator, fs)
      | _ \<Rightarrow> (Some Unsupported_kind, fs))"

definition remove_codex :: "system \<Rightarrow> finding \<Rightarrow> contents \<Rightarrow> apply_error option \<times> contents" where
  "remove_codex sy f fs =
     (case fi_locator f of
        Toml_table header \<Rightarrow>
          (case fs (fi_file f) of
             None \<Rightarrow> (Some Read_error, fs)
           | Some data \<Rightarrow>
               (case remove_toml_table (string_of data) header of
                  Inl e \<Rightarrow> (Some e, fs)
                | Inr text \<Rightarrow> replace_file sy (fi_file f) (bytes_of text) fs))
      | _ \<Rightarrow> (Some Bad_locator, fs))"

definition remove_pi :: "system \<Rightarrow> finding \<Rightarrow> contents \<Rightarrow> apply_error option \<times> contents" where
  "remove_pi sy f fs =
     (case fi_locator f of
        Array_entry path name \<Rightarrow> apply_json_removal sy (fi_file f) (remove_array_element path (\<lambda>v. v = JV_str name)) fs
      | _ \<Rightarrow> (Some Bad_locator, fs))"

section \<open>Main\<close>

definition all_tools :: "string list" where
  "all_tools = [''claude'', ''cursor'', ''codex'', ''pi'']"

definition scan_tool :: "string \<Rightarrow> system \<Rightarrow> contents \<Rightarrow> scan_failure + finding list" where
  "scan_tool t = (if t = ''claude'' then scan_claude else if t = ''cursor'' then scan_cursor
     else if t = ''codex'' then scan_codex else scan_pi)"

definition remove_finding :: "system \<Rightarrow> finding \<Rightarrow> contents \<Rightarrow> apply_error option \<times> contents" where
  "remove_finding sy f fs =
     (if fi_tool f = ''claude'' then remove_claude sy f fs
      else if fi_tool f = ''cursor'' then remove_cursor sy f fs
      else if fi_tool f = ''codex'' then remove_codex sy f fs
      else if fi_tool f = ''pi'' then remove_pi sy f fs
      else (None, fs))"

text \<open>The scan of the chosen tools: the findings of those that succeed, and whether any failed.\<close>

definition scan_tools :: "system \<Rightarrow> contents \<Rightarrow> string list \<Rightarrow> finding list \<times> bool" where
  "scan_tools sy fs tools =
     (sort_findings (concat (map (\<lambda>t. case scan_tool t sy fs of Inl _ \<Rightarrow> [] | Inr gs \<Rightarrow> gs) tools)),
      list_ex (\<lambda>t. case scan_tool t sy fs of Inl _ \<Rightarrow> True | Inr _ \<Rightarrow> False) tools)"

definition removal_step :: "system \<Rightarrow> finding \<Rightarrow> nat \<times> nat \<times> contents \<Rightarrow> nat \<times> nat \<times> contents" where
  "removal_step sy f st = (case st of (applied, failed, fs) \<Rightarrow>
     (case remove_finding sy f fs of
        (None, fs') \<Rightarrow> (Suc applied, failed, fs')
      | (Some _, fs') \<Rightarrow> (applied, Suc failed, fs')))"

definition apply_findings :: "system \<Rightarrow> finding list \<Rightarrow> contents \<Rightarrow> nat \<times> nat \<times> contents" where
  "apply_findings sy gs fs = foldl (\<lambda>st f. removal_step sy f st) (0, 0, fs) gs"

record outcome =
  oc_status :: int
  oc_findings :: "finding list"
  oc_files :: contents

definition extclean_flags :: "string \<Rightarrow> flag_kind option" where
  "extclean_flags = [''home'' \<mapsto> Flag_string, ''apply'' \<mapsto> Flag_bool, ''tool'' \<mapsto> Flag_string, ''json'' \<mapsto> Flag_bool]"

definition chosen_tools :: "string \<Rightarrow> string list" where
  "chosen_tools tool = (if tool \<noteq> [] then [tool] else all_tools)"

definition extclean_main :: "system \<Rightarrow> string list \<Rightarrow> contents \<Rightarrow> outcome" where
  "extclean_main sy0 args fs =
     (case parse_flags (\<lambda>_. False) extclean_flags [] args of
        Inl e \<Rightarrow> \<lparr>oc_status = (if e = Help_requested then 0 else 2), oc_findings = [], oc_files = fs\<rparr>
      | Inr (vs, _) \<Rightarrow>
          let tool = flag_value vs ''tool'' [] in
          if tool \<noteq> [] \<and> tool \<notin> set all_tools then \<lparr>oc_status = 2, oc_findings = [], oc_files = fs\<rparr>
          else
            let sy = sy0\<lparr>sy_home := flag_value vs ''home'' (sy_home sy0)\<rparr>;
                (gs, errored) = scan_tools sy fs (chosen_tools tool) in
            if flag_set vs ''apply'' \<and> gs \<noteq> [] then
              (case apply_findings sy gs fs of (applied, failed, fs') \<Rightarrow>
                \<lparr>oc_status = (if errored \<or> failed > 0 then 1 else 0), oc_findings = gs, oc_files = fs'\<rparr>)
            else \<lparr>oc_status = (if errored then 1 else 0), oc_findings = gs, oc_files = fs\<rparr>)"

section \<open>What every scanner promises\<close>

text \<open>
  The interface of the four agents: a finding carries the agent's name and one of its configuration
  files, an entry is orphaned exactly when the agent is not installed, and a removal touches only the
  file of the finding and its temporary file, replacing the file as a whole or not at all.
\<close>

locale agent_scanner =
  fixes scan :: "system \<Rightarrow> contents \<Rightarrow> scan_failure + finding list"
    and remove :: "system \<Rightarrow> finding \<Rightarrow> contents \<Rightarrow> apply_error option \<times> contents"
    and tool :: string
    and config_files :: "string \<Rightarrow> string set"
    and installed :: "system \<Rightarrow> bool"
  assumes scan_own: "scan sy fs = Inr gs \<Longrightarrow> f \<in> set gs \<Longrightarrow> fi_tool f = tool \<and> fi_file f \<in> config_files (sy_home sy)
      \<and> pl_exists (sy_places sy) (fi_file f)"
    and scan_reason: "scan sy fs = Inr gs \<Longrightarrow> f \<in> set gs \<Longrightarrow> fi_reason f = Orphaned \<longleftrightarrow> \<not> installed sy"
    and remove_frame: "remove sy f fs = (e, fs') \<Longrightarrow> q \<noteq> fi_file f \<Longrightarrow> q \<noteq> extclean_temp (fi_file f) \<Longrightarrow> fs' q = fs q"
    and remove_whole: "remove sy f fs = (e, fs') \<Longrightarrow> e \<noteq> None \<Longrightarrow> fs' (fi_file f) = fs (fi_file f)"
begin

lemma scan_report:
  "scan sy fs = Inr gs \<Longrightarrow> \<forall>f \<in> set gs. fi_tool f = tool \<and> fi_file f \<in> config_files (sy_home sy)
    \<and> pl_exists (sy_places sy) (fi_file f) \<and> (fi_reason f = Orphaned \<longleftrightarrow> \<not> installed sy)"
  using scan_own scan_reason by blast

lemma remove_all_frame:
  "q \<notin> fi_file ` set gs \<Longrightarrow> q \<notin> extclean_temp ` fi_file ` set gs \<Longrightarrow>
     foldl (\<lambda>fs f. snd (remove sy f fs)) fs gs q = fs q"
proof (induction gs arbitrary: fs)
  case (Cons f gs)
  have "snd (remove sy f fs) q = fs q"
    using Cons.prems remove_frame [of sy f fs "fst (remove sy f fs)" "snd (remove sy f fs)" q] by simp
  with Cons show ?case
    by simp
qed simp

end

lemma judge_in: "f \<in> set (judge orphaned ok g) \<longleftrightarrow> orphaned \<and> f = g Orphaned \<or> \<not> orphaned \<and> \<not> ok \<and> f = g Dangling"
  by (auto simp: judge_def)

lemma set_sort_findings [simp]: "set (sort_findings fs) = set fs"
  by (simp add: sort_findings_def)

lemma scan_file_Inr:
  assumes "scan_file sy fs path dec collect = Inr gs" "f \<in> set gs"
  shows "pl_exists (sy_places sy) path \<and> (\<exists>data root x. fs path = Some data \<and> sy_parse sy data = Some root
    \<and> dec root = Some x \<and> gs = collect x)"
  using assms by (auto simp: scan_file_def split: if_split_asm option.split_asm)

lemma scan_all_Inr: "scan_all rs = Inr gs \<Longrightarrow> f \<in> set gs \<Longrightarrow> \<exists>hs. Inr hs \<in> set rs \<and> f \<in> set hs"
proof (induction rs arbitrary: gs)
  case (Cons r rs)
  then obtain hs gs' where r: "r = Inr hs" "scan_all rs = Inr gs'" "gs = hs @ gs'"
    by (auto split: sum.split_asm)
  with Cons.prems(2) consider "f \<in> set hs" | "f \<in> set gs'"
    by auto
  then show ?case
  proof cases
    case 1
    with r(1) show ?thesis
      by (intro exI [of _ hs]) simp
  next
    case 2
    with Cons.IH r(2) show ?thesis
      by fastforce
  qed
qed simp

lemma mcp_findings: "f \<in> set (scan_mcp_servers_map tool file path servers base_dir orphaned pl) \<Longrightarrow>
    fi_tool f = tool \<and> fi_file f = file \<and> (fi_reason f = Orphaned \<longleftrightarrow> orphaned)"
  by (auto simp: scan_mcp_servers_map_def judge_in)

lemma replace_file_frame: "replace_file sy path data fs = (e, fs') \<Longrightarrow> q \<noteq> path \<Longrightarrow> q \<noteq> extclean_temp path \<Longrightarrow> fs' q = fs q"
  by (auto simp: replace_file_def Let_def split: if_splits)

lemma replace_file_path: "replace_file sy path data fs = (e, fs') \<Longrightarrow> fs' path = (if e = None then Some data else fs path)"
  by (auto simp: replace_file_def extclean_temp_def Let_def split: if_splits)

lemma json_removal_frame: "apply_json_removal sy path rm fs = (e, fs') \<Longrightarrow> q \<noteq> path \<Longrightarrow> q \<noteq> extclean_temp path \<Longrightarrow> fs' q = fs q"
  by (auto simp: apply_json_removal_def replace_file_frame split: option.split_asm sum.split_asm prod.split_asm if_split_asm)

lemma json_removal_whole: "apply_json_removal sy path rm fs = (e, fs') \<Longrightarrow> e \<noteq> None \<Longrightarrow> fs' path = fs path"
  by (auto simp: apply_json_removal_def split: option.split_asm sum.split_asm prod.split_asm if_split_asm dest: replace_file_path)

lemma scan_hooks_own: "scan_hooks sy fs = Inr gs \<Longrightarrow> f \<in> set gs \<Longrightarrow> fi_tool f = ''claude''
    \<and> fi_file f = claude_settings_path (sy_home sy) \<and> pl_exists (sy_places sy) (fi_file f)
    \<and> (fi_reason f = Orphaned \<longleftrightarrow> \<not> claude_installed sy)"
  unfolding scan_hooks_def Let_def
  by (drule scan_file_Inr, assumption) (auto simp: judge_in claude_finding_def split: if_split_asm)

lemma scan_claude_mcp_own: "scan_claude_mcp sy fs = Inr gs \<Longrightarrow> f \<in> set gs \<Longrightarrow> fi_tool f = ''claude''
    \<and> fi_file f = claude_app_path (sy_home sy) \<and> pl_exists (sy_places sy) (fi_file f)
    \<and> (fi_reason f = Orphaned \<longleftrightarrow> \<not> claude_installed sy)"
  unfolding scan_claude_mcp_def Let_def
  by (drule scan_file_Inr, assumption) (auto dest!: mcp_findings)

lemma scan_plugins_own: "scan_plugins sy fs = Inr gs \<Longrightarrow> f \<in> set gs \<Longrightarrow> fi_tool f = ''claude''
    \<and> fi_file f = claude_plugins_path (sy_home sy) \<and> pl_exists (sy_places sy) (fi_file f)
    \<and> (fi_reason f = Orphaned \<longleftrightarrow> \<not> claude_installed sy)"
  unfolding scan_plugins_def Let_def
  by (drule scan_file_Inr, assumption) (auto simp: judge_in claude_finding_def)

lemma scan_marketplaces_own: "scan_marketplaces sy fs = Inr gs \<Longrightarrow> f \<in> set gs \<Longrightarrow> fi_tool f = ''claude''
    \<and> fi_file f = claude_marketplaces_path (sy_home sy) \<and> pl_exists (sy_places sy) (fi_file f)
    \<and> (fi_reason f = Orphaned \<longleftrightarrow> \<not> claude_installed sy)"
  unfolding scan_marketplaces_def Let_def
  by (drule scan_file_Inr, assumption) (auto simp: judge_in claude_finding_def)

definition claude_files :: "string \<Rightarrow> string set" where
  "claude_files home = {claude_settings_path home, claude_app_path home, claude_plugins_path home, claude_marketplaces_path home}"

lemma scan_claude_own:
  assumes "scan_claude sy fs = Inr gs" "f \<in> set gs"
  shows "fi_tool f = ''claude'' \<and> fi_file f \<in> claude_files (sy_home sy) \<and> pl_exists (sy_places sy) (fi_file f)
    \<and> (fi_reason f = Orphaned \<longleftrightarrow> \<not> claude_installed sy)"
proof -
  obtain hs where "Inr hs \<in> set [scan_hooks sy fs, scan_claude_mcp sy fs, scan_plugins sy fs, scan_marketplaces sy fs]" "f \<in> set hs"
    using scan_all_Inr [OF assms [unfolded scan_claude_def]] by blast
  then consider "scan_hooks sy fs = Inr hs" | "scan_claude_mcp sy fs = Inr hs" | "scan_plugins sy fs = Inr hs"
    | "scan_marketplaces sy fs = Inr hs"
    by auto
  then show ?thesis
  proof cases
    case 1
    from scan_hooks_own [OF this \<open>f \<in> set hs\<close>] show ?thesis
      by (auto simp: claude_files_def)
  next
    case 2
    from scan_claude_mcp_own [OF this \<open>f \<in> set hs\<close>] show ?thesis
      by (auto simp: claude_files_def)
  next
    case 3
    from scan_plugins_own [OF this \<open>f \<in> set hs\<close>] show ?thesis
      by (auto simp: claude_files_def)
  next
    case 4
    from scan_marketplaces_own [OF this \<open>f \<in> set hs\<close>] show ?thesis
      by (auto simp: claude_files_def)
  qed
qed

text \<open>A removal of any agent either rejects the locator or removes from the finding's file.\<close>

lemma remove_claude_frame:
  assumes "remove_claude sy f fs = (e, fs')"
  shows "q \<noteq> fi_file f \<Longrightarrow> q \<noteq> extclean_temp (fi_file f) \<Longrightarrow> fs' q = fs q" "e \<noteq> None \<Longrightarrow> fs' (fi_file f) = fs (fi_file f)"
proof -
  have "fs' = fs \<and> e \<noteq> None \<or> (\<exists>rm. apply_json_removal sy (fi_file f) rm fs = (e, fs'))"
    using assms unfolding remove_claude_def
    by (auto split: finding_kind.split_asm locator.split_asm list.split_asm)
  then show "q \<noteq> fi_file f \<Longrightarrow> q \<noteq> extclean_temp (fi_file f) \<Longrightarrow> fs' q = fs q" "e \<noteq> None \<Longrightarrow> fs' (fi_file f) = fs (fi_file f)"
    using json_removal_frame json_removal_whole by metis+
qed

lemma remove_cursor_frame:
  assumes "remove_cursor sy f fs = (e, fs')"
  shows "q \<noteq> fi_file f \<Longrightarrow> q \<noteq> extclean_temp (fi_file f) \<Longrightarrow> fs' q = fs q" "e \<noteq> None \<Longrightarrow> fs' (fi_file f) = fs (fi_file f)"
proof -
  have "fs' = fs \<and> e \<noteq> None \<or> (\<exists>rm. apply_json_removal sy (fi_file f) rm fs = (e, fs'))"
    using assms unfolding remove_cursor_def by (auto split: finding_kind.split_asm locator.split_asm)
  then show "q \<noteq> fi_file f \<Longrightarrow> q \<noteq> extclean_temp (fi_file f) \<Longrightarrow> fs' q = fs q" "e \<noteq> None \<Longrightarrow> fs' (fi_file f) = fs (fi_file f)"
    using json_removal_frame json_removal_whole by metis+
qed

lemma remove_pi_frame:
  assumes "remove_pi sy f fs = (e, fs')"
  shows "q \<noteq> fi_file f \<Longrightarrow> q \<noteq> extclean_temp (fi_file f) \<Longrightarrow> fs' q = fs q" "e \<noteq> None \<Longrightarrow> fs' (fi_file f) = fs (fi_file f)"
proof -
  have "fs' = fs \<and> e \<noteq> None \<or> (\<exists>rm. apply_json_removal sy (fi_file f) rm fs = (e, fs'))"
    using assms unfolding remove_pi_def by (auto split: locator.split_asm)
  then show "q \<noteq> fi_file f \<Longrightarrow> q \<noteq> extclean_temp (fi_file f) \<Longrightarrow> fs' q = fs q" "e \<noteq> None \<Longrightarrow> fs' (fi_file f) = fs (fi_file f)"
    using json_removal_frame json_removal_whole by metis+
qed

lemma remove_codex_frame:
  assumes "remove_codex sy f fs = (e, fs')"
  shows "q \<noteq> fi_file f \<Longrightarrow> q \<noteq> extclean_temp (fi_file f) \<Longrightarrow> fs' q = fs q" "e \<noteq> None \<Longrightarrow> fs' (fi_file f) = fs (fi_file f)"
proof -
  have "fs' = fs \<and> e \<noteq> None \<or> (\<exists>data. replace_file sy (fi_file f) data fs = (e, fs'))"
    using assms unfolding remove_codex_def by (auto split: locator.split_asm option.split_asm sum.split_asm)
  then show "q \<noteq> fi_file f \<Longrightarrow> q \<noteq> extclean_temp (fi_file f) \<Longrightarrow> fs' q = fs q" "e \<noteq> None \<Longrightarrow> fs' (fi_file f) = fs (fi_file f)"
    using replace_file_frame replace_file_path by metis+
qed

lemma scan_cursor_own:
  assumes "scan_cursor sy fs = Inr gs" "f \<in> set gs"
  shows "fi_tool f = ''cursor'' \<and> fi_file f \<in> {cursor_extensions_path (sy_home sy), cursor_mcp_path (sy_home sy)}
    \<and> pl_exists (sy_places sy) (fi_file f) \<and> (fi_reason f = Orphaned \<longleftrightarrow> \<not> cursor_installed sy)"
proof -
  obtain hs where "Inr hs \<in> set [scan_extensions sy fs, scan_cursor_mcp sy fs]" and f: "f \<in> set hs"
    using scan_all_Inr [OF assms [unfolded scan_cursor_def]] by blast
  then consider "scan_extensions sy fs = Inr hs" | "scan_cursor_mcp sy fs = Inr hs"
    by auto
  then show ?thesis
  proof cases
    case 1
    then show ?thesis
      using scan_file_Inr [OF 1 [unfolded scan_extensions_def Let_def] f] f by (auto simp: judge_in)
  next
    case 2
    then show ?thesis
      using scan_file_Inr [OF 2 [unfolded scan_cursor_mcp_def Let_def] f] f by (auto dest!: mcp_findings)
  qed
qed

lemma codex_findings_own: "f \<in> set (codex_findings sy path cfg) \<Longrightarrow> fi_tool f = ''codex'' \<and> fi_file f = path
    \<and> (fi_reason f = Orphaned \<longleftrightarrow> \<not> codex_installed sy)"
  by (auto simp: codex_findings_def Let_def judge_in codex_finding_def split: option.split_asm)

lemma scan_codex_own: "scan_codex sy fs = Inr gs \<Longrightarrow> f \<in> set gs \<Longrightarrow> fi_tool f = ''codex'' \<and> fi_file f = codex_config_path (sy_home sy)
    \<and> pl_exists (sy_places sy) (fi_file f) \<and> (fi_reason f = Orphaned \<longleftrightarrow> \<not> codex_installed sy)"
  by (auto simp: scan_codex_def Let_def split: if_split_asm option.split_asm dest!: codex_findings_own)

lemma scan_pi_own: "scan_pi sy fs = Inr gs \<Longrightarrow> f \<in> set gs \<Longrightarrow> fi_tool f = ''pi'' \<and> fi_file f = pi_settings_path (sy_home sy)
    \<and> pl_exists (sy_places sy) (fi_file f) \<and> (fi_reason f = Orphaned \<longleftrightarrow> \<not> pi_installed sy)"
  unfolding scan_pi_def Let_def by (drule scan_file_Inr, assumption) (auto simp: judge_in split: if_split_asm)

interpretation claude: agent_scanner scan_claude remove_claude "''claude''" claude_files claude_installed
  by unfold_locales (auto dest: scan_claude_own remove_claude_frame)

interpretation cursor: agent_scanner scan_cursor remove_cursor "''cursor''"
  "\<lambda>home. {cursor_extensions_path home, cursor_mcp_path home}" cursor_installed
  by unfold_locales (auto dest: scan_cursor_own remove_cursor_frame)

interpretation codex: agent_scanner scan_codex remove_codex "''codex''" "\<lambda>home. {codex_config_path home}" codex_installed
  by unfold_locales (auto dest: scan_codex_own remove_codex_frame)

interpretation pi_agent: agent_scanner scan_pi remove_pi "''pi''" "\<lambda>home. {pi_settings_path home}" pi_installed
  by unfold_locales (auto dest: scan_pi_own remove_pi_frame)

section \<open>One removal\<close>

fun locator_path :: "locator \<Rightarrow> string list" where
  "locator_path (Map_key path key) = path @ [key]"
| "locator_path (Array_entry path name) = path"
| "locator_path (Toml_table h) = []"

text \<open>What is gone: a key, an element, or an element of the \<^verbatim>\<open>hooks\<close> of one group of an event.\<close>

definition one_gone :: "finding \<Rightarrow> jval \<Rightarrow> jval \<Rightarrow> bool" where
  "one_gone f root root' =
     (case fi_locator f of
        Map_key path key \<Rightarrow> lookup_at (path @ [key]) root \<noteq> None \<and> lookup_at (path @ [key]) root' = None
      | Array_entry path name \<Rightarrow>
          if fi_kind f = Hook then
            (\<exists>a g b c x d. lookup_at path root = Some (JV_arr (a @ JV_obj g # b))
              \<and> map_of g ''hooks'' = Some (JV_arr (c @ x # d)) \<and> member_is ''command'' name x
              \<and> lookup_at path root' = Some (JV_arr (a @ JV_obj (put_value ''hooks'' (JV_arr (c @ d)) g) # b)))
          else (\<exists>a x b. lookup_at path root = Some (JV_arr (a @ x # b)) \<and> lookup_at path root' = Some (JV_arr (a @ b)))
      | Toml_table h \<Rightarrow> False)"

text \<open>The rest of the document: the paths that neither pass through the locator's nor lie on the way to it.\<close>

definition keeps_apart :: "string list \<Rightarrow> jval \<Rightarrow> jval \<Rightarrow> bool" where
  "keeps_apart l root root' \<longleftrightarrow> (\<forall>p. \<not> prefix l p \<and> \<not> prefix p l \<longrightarrow> lookup_at p root' = lookup_at p root)"

definition takes_one :: "finding \<Rightarrow> (jval \<Rightarrow> apply_error + jval \<times> bool) \<Rightarrow> bool" where
  "takes_one f rm \<longleftrightarrow> (\<forall>root root'. rm root = Inr (root', True) \<longrightarrow> one_gone f root root'
     \<and> keeps_apart (locator_path (fi_locator f)) root root')"

lemma takes_oneI: "(\<And>root root'. rm root = Inr (root', True) \<Longrightarrow> one_gone f root root'
     \<and> keeps_apart (locator_path (fi_locator f)) root root') \<Longrightarrow> takes_one f rm"
  by (simp add: takes_one_def)

lemma takes_one_map:
  assumes l: "fi_locator f = Map_key path key"
  shows "takes_one f (remove_map_key path key)"
proof (rule takes_oneI)
  fix root root'
  assume r: "remove_map_key path key root = Inr (root', True)"
  note loc = remove_map_key_local [OF r]
  have "one_gone f root root'"
    using loc by (simp add: one_gone_def l)
  moreover have "keeps_apart (path @ [key]) root root'"
    unfolding keeps_apart_def using loc by (meson prefix_order.trans prefixI)
  ultimately show "one_gone f root root' \<and> keeps_apart (locator_path (fi_locator f)) root root'"
    by (simp add: l)
qed

lemma takes_one_array:
  assumes l: "fi_locator f = Array_entry path name" "fi_kind f \<noteq> Hook"
  shows "takes_one f (remove_array_element path P)"
proof (rule takes_oneI)
  fix root root'
  assume r: "remove_array_element path P root = Inr (root', True)"
  note loc = remove_array_element_local [OF r]
  have "one_gone f root root'"
    using conjunct1 [OF loc] l by (simp add: one_gone_def) blast
  moreover have "keeps_apart path root root'"
    unfolding keeps_apart_def using conjunct2 [OF loc] by blast
  ultimately show "one_gone f root root' \<and> keeps_apart (locator_path (fi_locator f)) root root'"
    by (simp add: l)
qed

lemma takes_one_hook:
  assumes l: "fi_locator f = Array_entry [''hooks'', event] command" "fi_kind f = Hook"
  shows "takes_one f (remove_claude_hook event command)"
proof (rule takes_oneI)
  fix root root'
  assume r: "remove_claude_hook event command root = Inr (root', True)"
  note loc = remove_claude_hook_local [OF r]
  have "one_gone f root root'"
    unfolding one_gone_def l locator.case if_P [OF refl] by (rule conjunct1 [OF loc])
  moreover have "keeps_apart [''hooks'', event] root root'"
    unfolding keeps_apart_def using conjunct2 [OF loc] by blast
  ultimately show "one_gone f root root' \<and> keeps_apart (locator_path (fi_locator f)) root root'"
    by (simp add: l)
qed

lemma json_removal_None:
  assumes "apply_json_removal sy path rm fs = (None, fs')"
  shows "\<exists>data root root'. fs path = Some data \<and> sy_parse sy data = Some root \<and> rm root = Inr (root', True)
    \<and> fs' path = Some (sy_show sy root' @ [10])"
  using assms by (auto simp: apply_json_removal_def split: option.split_asm sum.split_asm prod.split_asm if_split_asm dest: replace_file_path)

text \<open>The removal of a hook reads only the event of the locator; the scan always names the \<^verbatim>\<open>hooks\<close> of the settings.\<close>

definition hook_located :: "finding \<Rightarrow> bool" where
  "hook_located f = (case fi_kind f of
     Hook \<Rightarrow> (case fi_locator f of Array_entry [h, _] _ \<Rightarrow> h = ''hooks'' \<and> fi_tool f = ''claude'' | _ \<Rightarrow> False)
   | _ \<Rightarrow> True)"

lemma remove_claude_json:
  assumes "remove_claude sy f fs = (None, fs')" "hook_located f"
  shows "\<exists>rm. apply_json_removal sy (fi_file f) rm fs = (None, fs') \<and> takes_one f rm"
proof (cases "fi_kind f = Hook")
  case True
  with assms(2) obtain event command where l: "fi_locator f = Array_entry [''hooks'', event] command"
    by (auto simp: hook_located_def split: locator.split_asm list.split_asm)
  with assms(1) True have "apply_json_removal sy (fi_file f) (remove_claude_hook event command) fs = (None, fs')"
    by (simp add: remove_claude_def)
  then show ?thesis
    using takes_one_hook [OF l True] by blast
next
  case False
  then consider path key where "fi_locator f = Map_key path key"
      "apply_json_removal sy (fi_file f) (remove_map_key path key) fs = (None, fs')"
    | path name P where "fi_locator f = Array_entry path name"
      "apply_json_removal sy (fi_file f) (remove_array_element path P) fs = (None, fs')"
    using assms(1) unfolding remove_claude_def
    by (auto split: finding_kind.split_asm locator.split_asm list.split_asm)
  then show ?thesis
    by cases (use takes_one_map takes_one_array False in blast)+
qed

lemma remove_cursor_json:
  assumes "remove_cursor sy f fs = (None, fs')"
  shows "\<exists>rm. apply_json_removal sy (fi_file f) rm fs = (None, fs') \<and> takes_one f rm"
proof -
  consider path key where "fi_locator f = Map_key path key"
      "apply_json_removal sy (fi_file f) (remove_map_key path key) fs = (None, fs')"
    | path name P where "fi_locator f = Array_entry path name" "fi_kind f = Extension"
      "apply_json_removal sy (fi_file f) (remove_array_element path P) fs = (None, fs')"
    using assms unfolding remove_cursor_def by (auto split: finding_kind.split_asm locator.split_asm)
  then show ?thesis
  proof cases
    case 1
    then show ?thesis
      using takes_one_map by blast
  next
    case 2
    have "fi_kind f \<noteq> Hook"
      using 2(2) by simp
    then show ?thesis
      using 2 takes_one_array by blast
  qed
qed

lemma remove_pi_json:
  assumes "remove_pi sy f fs = (None, fs')" "fi_kind f \<noteq> Hook"
  shows "\<exists>rm. apply_json_removal sy (fi_file f) rm fs = (None, fs') \<and> takes_one f rm"
proof -
  obtain path name where "fi_locator f = Array_entry path name"
      "apply_json_removal sy (fi_file f) (remove_array_element path (\<lambda>v. v = JV_str name)) fs = (None, fs')"
    using assms(1) unfolding remove_pi_def by (auto split: locator.split_asm)
  then show ?thesis
    using takes_one_array [OF _ assms(2)] by blast
qed

lemma remove_finding_json:
  assumes "remove_finding sy f fs = (None, fs')" "fi_tool f \<in> {''claude'', ''cursor'', ''pi''}" "hook_located f"
  shows "\<exists>rm. apply_json_removal sy (fi_file f) rm fs = (None, fs') \<and> takes_one f rm"
proof -
  consider "fi_tool f = ''claude''" | "fi_tool f = ''cursor''" | "fi_tool f = ''pi''"
    using assms(2) by auto
  then show ?thesis
  proof cases
    case 1
    with assms(1) have "remove_claude sy f fs = (None, fs')"
      by (simp add: remove_finding_def)
    then show ?thesis
      by (rule remove_claude_json [OF _ assms(3)])
  next
    case 2
    with assms(1) have "remove_cursor sy f fs = (None, fs')"
      by (simp add: remove_finding_def)
    then show ?thesis
      by (rule remove_cursor_json)
  next
    case 3
    with assms(1) have "remove_pi sy f fs = (None, fs')"
      by (simp add: remove_finding_def)
    moreover from 3 assms(3) have "fi_kind f \<noteq> Hook"
      by (auto simp: hook_located_def split: locator.split_asm list.split_asm)
    ultimately show ?thesis
      by (rule remove_pi_json)
  qed
qed

section \<open>What \<^verbatim>\<open>main\<close> reports and changes\<close>

text \<open>The agent of a finding, its configuration files under a home directory and its installation.\<close>

definition tool_files :: "string \<Rightarrow> string \<Rightarrow> string set" where
  "tool_files t home = (if t = ''claude'' then claude_files home
     else if t = ''cursor'' then {cursor_extensions_path home, cursor_mcp_path home}
     else if t = ''codex'' then {codex_config_path home} else {pi_settings_path home})"

definition tool_installed :: "system \<Rightarrow> string \<Rightarrow> bool" where
  "tool_installed sy t = (if t = ''claude'' then claude_installed sy else if t = ''cursor'' then cursor_installed sy
     else if t = ''codex'' then codex_installed sy else pi_installed sy)"

definition own_finding :: "system \<Rightarrow> string \<Rightarrow> finding \<Rightarrow> bool" where
  "own_finding sy home f \<longleftrightarrow> fi_tool f \<in> set all_tools \<and> fi_file f \<in> tool_files (fi_tool f) home
     \<and> pl_exists (sy_places sy) (fi_file f) \<and> (fi_reason f = Orphaned \<longleftrightarrow> \<not> tool_installed sy (fi_tool f))"

lemma scan_tool_own:
  assumes "scan_tool t sy fs = Inr gs" "f \<in> set gs" "t \<in> set all_tools"
  shows "own_finding sy (sy_home sy) f"
proof -
  consider "t = ''claude''" | "t = ''cursor''" | "t = ''codex''" | "t = ''pi''"
    using assms(3) by (auto simp: all_tools_def)
  then show ?thesis
  proof cases
    case 1
    with assms(1) have "scan_claude sy fs = Inr gs"
      by (simp add: scan_tool_def)
    from bspec [OF claude.scan_report [OF this] assms(2)] show ?thesis
      unfolding own_finding_def tool_files_def tool_installed_def all_tools_def by force
  next
    case 2
    with assms(1) have "scan_cursor sy fs = Inr gs"
      by (simp add: scan_tool_def)
    from bspec [OF cursor.scan_report [OF this] assms(2)] show ?thesis
      unfolding own_finding_def tool_files_def tool_installed_def all_tools_def by force
  next
    case 3
    with assms(1) have "scan_codex sy fs = Inr gs"
      by (simp add: scan_tool_def)
    from bspec [OF codex.scan_report [OF this] assms(2)] show ?thesis
      unfolding own_finding_def tool_files_def tool_installed_def all_tools_def by force
  next
    case 4
    with assms(1) have "scan_pi sy fs = Inr gs"
      by (simp add: scan_tool_def)
    from bspec [OF pi_agent.scan_report [OF this] assms(2)] show ?thesis
      unfolding own_finding_def tool_files_def tool_installed_def all_tools_def by force
  qed
qed

lemma scan_tools_own:
  assumes "f \<in> set (fst (scan_tools sy fs tools))" "set tools \<subseteq> set all_tools"
  shows "own_finding sy (sy_home sy) f"
proof -
  obtain t where t: "t \<in> set tools" "f \<in> set (case scan_tool t sy fs of Inl _ \<Rightarrow> [] | Inr gs \<Rightarrow> gs)"
    using assms(1) by (auto simp: scan_tools_def)
  then obtain gs where "scan_tool t sy fs = Inr gs" "f \<in> set gs"
    by (cases "scan_tool t sy fs") auto
  then show ?thesis
    using t(1) assms(2) by (intro scan_tool_own) auto
qed

lemma remove_finding_frame:
  assumes "q \<noteq> fi_file f" "q \<noteq> extclean_temp (fi_file f)"
  shows "snd (remove_finding sy f fs) q = fs q"
  using claude.remove_frame [OF prod.collapse [symmetric] assms] cursor.remove_frame [OF prod.collapse [symmetric] assms]
    codex.remove_frame [OF prod.collapse [symmetric] assms] pi_agent.remove_frame [OF prod.collapse [symmetric] assms]
  by (simp add: remove_finding_def)

lemma remove_finding_whole:
  assumes "remove_finding sy f fs = (Some e, fs')"
  shows "fs' (fi_file f) = fs (fi_file f)"
proof -
  have ne: "Some e \<noteq> None"
    by simp
  consider "remove_claude sy f fs = (Some e, fs')" | "remove_cursor sy f fs = (Some e, fs')"
    | "remove_codex sy f fs = (Some e, fs')" | "remove_pi sy f fs = (Some e, fs')"
    using assms by (auto simp: remove_finding_def split: if_split_asm)
  then show ?thesis
    by cases (rule claude.remove_whole cursor.remove_whole codex.remove_whole pi_agent.remove_whole, assumption, rule ne)+
qed

lemma removal_step_files: "snd (snd (removal_step sy f (a, b, fs))) = snd (remove_finding sy f fs)"
  by (simp add: removal_step_def split: prod.split option.split)

lemma apply_steps_frame:
  "(\<And>f. f \<in> set gs \<Longrightarrow> q \<noteq> fi_file f \<and> q \<noteq> extclean_temp (fi_file f)) \<Longrightarrow>
     snd (snd (foldl (\<lambda>st f. removal_step sy f st) (a, b, fs) gs)) q = fs q"
proof (induction gs arbitrary: a b fs)
  case (Cons f gs)
  obtain a' b' fs' where s: "removal_step sy f (a, b, fs) = (a', b', fs')"
    by (metis prod.exhaust)
  have "fs' = snd (remove_finding sy f fs)"
    using removal_step_files [of sy f a b fs] by (simp add: s)
  moreover have "snd (snd (foldl (\<lambda>st f. removal_step sy f st) (a', b', fs') gs)) q = fs' q"
    by (rule Cons.IH) (use Cons.prems in simp)
  ultimately show ?case
    using remove_finding_frame [of q f sy fs] Cons.prems [of f] by (simp add: s)
qed simp

lemma apply_findings_frame:
  assumes "\<And>f. f \<in> set gs \<Longrightarrow> q \<noteq> fi_file f \<and> q \<noteq> extclean_temp (fi_file f)"
  shows "snd (snd (apply_findings sy gs fs)) q = fs q"
  unfolding apply_findings_def by (rule apply_steps_frame) (rule assms)

text \<open>Every finding is counted once: as removed or as failed.\<close>

lemma apply_steps_count:
  "fst (foldl (\<lambda>st f. removal_step sy f st) (a, b, fs) gs) + fst (snd (foldl (\<lambda>st f. removal_step sy f st) (a, b, fs) gs))
     = a + b + length gs"
proof (induction gs arbitrary: a b fs)
  case (Cons f gs)
  obtain e fs' where r: "remove_finding sy f fs = (e, fs')"
    by (metis prod.exhaust)
  have "removal_step sy f (a, b, fs) = (if e = None then (Suc a, b, fs') else (a, Suc b, fs'))"
    by (simp add: removal_step_def r split: option.split)
  then show ?case
    by (simp add: Cons.IH)
qed simp

lemma apply_findings_count: "fst (apply_findings sy gs fs) + fst (snd (apply_findings sy gs fs)) = length gs"
  unfolding apply_findings_def by (simp add: apply_steps_count)

lemma extclean_main_run:
  assumes "parse_flags (\<lambda>_. False) extclean_flags [] args = Inr (vs, r)"
    and "sy' = sy\<lparr>sy_home := flag_value vs ''home'' (sy_home sy)\<rparr>"
    and "tool = flag_value vs ''tool'' []" "tool \<noteq> [] \<longrightarrow> tool \<in> set all_tools"
  shows "oc_findings (extclean_main sy args fs) = fst (scan_tools sy' fs (chosen_tools tool))"
    "oc_files (extclean_main sy args fs) = (if flag_set vs ''apply'' \<and> fst (scan_tools sy' fs (chosen_tools tool)) \<noteq> []
       then snd (snd (apply_findings sy' (fst (scan_tools sy' fs (chosen_tools tool))) fs)) else fs)"
proof -
  obtain gs er where g: "scan_tools sy' fs (chosen_tools tool) = (gs, er)"
    by (rule prod.exhaust)
  obtain a b fs' where ap: "apply_findings sy' gs fs = (a, b, fs')"
    by (metis prod.exhaust)
  have "extclean_main sy args fs = (if flag_set vs ''apply'' \<and> gs \<noteq> []
      then \<lparr>oc_status = (if er \<or> b > 0 then 1 else 0), oc_findings = gs, oc_files = fs'\<rparr>
      else \<lparr>oc_status = (if er then 1 else 0), oc_findings = gs, oc_files = fs\<rparr>)"
    unfolding extclean_main_def assms(1) sum.case prod.case Let_def assms(2,3) [symmetric] g ap
    using assms(4) by auto
  then show "oc_findings (extclean_main sy args fs) = fst (scan_tools sy' fs (chosen_tools tool))"
    "oc_files (extclean_main sy args fs) = (if flag_set vs ''apply'' \<and> fst (scan_tools sy' fs (chosen_tools tool)) \<noteq> []
       then snd (snd (apply_findings sy' (fst (scan_tools sy' fs (chosen_tools tool))) fs)) else fs)"
    by (simp_all add: g ap)
qed

lemma extclean_main_rejects:
  assumes "parse_flags (\<lambda>_. False) extclean_flags [] args = Inr (vs, r)"
    and "flag_value vs ''tool'' [] \<noteq> []" "flag_value vs ''tool'' [] \<notin> set all_tools"
  shows "extclean_main sy args fs = \<lparr>oc_status = 2, oc_findings = [], oc_files = fs\<rparr>"
  using assms by (simp add: extclean_main_def)

lemma own_finding_home [simp]: "own_finding (sy\<lparr>sy_home := h\<rparr>) home f = own_finding sy home f"
  by (simp add: own_finding_def tool_installed_def claude_installed_def cursor_installed_def codex_installed_def pi_installed_def)

lemma extclean_main_findings:
  assumes p: "parse_flags (\<lambda>_. False) extclean_flags [] args = Inr (vs, r)" and f: "f \<in> set (oc_findings (extclean_main sy args fs))"
  shows "own_finding sy (flag_value vs ''home'' (sy_home sy)) f"
proof -
  let ?tool = "flag_value vs ''tool'' []" and ?sy = "sy\<lparr>sy_home := flag_value vs ''home'' (sy_home sy)\<rparr>"
  have t: "?tool \<noteq> [] \<longrightarrow> ?tool \<in> set all_tools"
    using f by (cases "?tool = [] \<or> ?tool \<in> set all_tools") (auto simp: extclean_main_rejects [OF p])
  have "f \<in> set (fst (scan_tools ?sy fs (chosen_tools ?tool)))"
    using f by (simp add: extclean_main_run(1) [OF p refl refl t])
  from scan_tools_own [OF this] t have "own_finding ?sy (sy_home ?sy) f"
    by (auto simp: chosen_tools_def)
  then show ?thesis
    by simp
qed

lemma extclean_main_files:
  assumes p: "parse_flags (\<lambda>_. False) extclean_flags [] args = Inr (vs, r)" and ch: "oc_files (extclean_main sy args fs) q \<noteq> fs q"
  shows "flag_set vs ''apply'' \<and> (\<exists>f \<in> set (oc_findings (extclean_main sy args fs)). q = fi_file f \<or> q = extclean_temp (fi_file f))"
proof -
  let ?tool = "flag_value vs ''tool'' []" and ?sy = "sy\<lparr>sy_home := flag_value vs ''home'' (sy_home sy)\<rparr>"
  have t: "?tool \<noteq> [] \<longrightarrow> ?tool \<in> set all_tools"
    using ch by (cases "?tool = [] \<or> ?tool \<in> set all_tools") (auto simp: extclean_main_rejects [OF p])
  note run = extclean_main_run [OF p refl refl t]
  have a: "flag_set vs ''apply''" and "snd (snd (apply_findings ?sy (fst (scan_tools ?sy fs (chosen_tools ?tool))) fs)) q \<noteq> fs q"
    using ch by (auto simp: run(2) split: if_split_asm)
  then show ?thesis
    using apply_findings_frame [of "fst (scan_tools ?sy fs (chosen_tools ?tool))" q ?sy fs] by (auto simp: run(1))
qed

section \<open>Live entries the scan takes for dead\<close>

text \<open>A remote MCP server has a \<^verbatim>\<open>url\<close> and no \<^verbatim>\<open>command\<close>: it is reported as dangling whatever the machine holds.\<close>

definition remote_servers :: jval where
  "remote_servers = JV_obj [(''mcpServers'', JV_obj [(''docs'', JV_obj [(''type'', JV_str ''http''), (''url'', JV_str ''https://x/mcp'')])])]"

lemma remote_servers_decoded: "decode_servers remote_servers = Some [(''docs'', [])]"
  by code_simp

lemma remote_server_dangling:
  "scan_mcp_servers_map tool file path [(''docs'', [])] base_dir False pl
     = [\<lparr>fi_tool = tool, fi_kind = Mcp_server, fi_name = ''docs'', fi_file = file, fi_reason = Dangling,
         fi_locator = Map_key path ''docs''\<rparr>]"
  by (simp add: scan_mcp_servers_map_def go_entries_def judge_def resolve_command_token_def)

text \<open>A hook that starts with a variable is looked up literally below the home directory.\<close>

lemma variable_command_literal:
  "resolve_command pl ''$HOME/bin/lint --fix'' home = pl_exists pl (path_join [home, ''$HOME/bin/lint''])"
proof -
  have "tokenize_shell ''$HOME/bin/lint --fix'' = Some [''$HOME/bin/lint'', ''--fix'']"
    by code_simp
  moreover have "strip_env_prefix [''$HOME/bin/lint'', ''--fix''] = [''$HOME/bin/lint'', ''--fix'']"
    by code_simp
  ultimately show ?thesis
    by (simp add: resolve_command_def resolve_command_token_def is_abs_def)
qed

text \<open>The removal of a hook does not look at its type: it takes the first hook with the command.\<close>

lemma hook_removal_ignores_type:
  "remove_claude_hook ''Stop'' ''x'' (JV_obj [(''hooks'', JV_obj [(''Stop'', JV_arr [JV_obj [(''hooks'', JV_arr
      [JV_obj [(''type'', JV_str ''prompt''), (''command'', JV_str ''x'')], JV_obj [(''type'', JV_str ''command''), (''command'', JV_str ''x'')]])]])])])
   = Inr (JV_obj [(''hooks'', JV_obj [(''Stop'', JV_arr [JV_obj [(''hooks'', JV_arr
      [JV_obj [(''type'', JV_str ''command''), (''command'', JV_str ''x'')]])]])])], True)"
  by code_simp

section \<open>Properties\<close>

text \<open>A removal takes one entry and nothing else: when it succeeds on a JSON configuration, the file becomes the
  document read with exactly one entry at the finding's locator gone (a map key, an array element or
  a hook of one group), every path apart from the locator's is unchanged, and so is every other file.\<close>

theorem removal_is_local:
  assumes "remove_finding sy f fs = (None, fs')" "fi_tool f \<in> {''claude'', ''cursor'', ''pi''}" "hook_located f"
  shows "\<exists>data root root'. fs (fi_file f) = Some data \<and> sy_parse sy data = Some root
    \<and> fs' (fi_file f) = Some (sy_show sy root' @ [10]) \<and> one_gone f root root'
    \<and> keeps_apart (locator_path (fi_locator f)) root root'
    \<and> (\<forall>q. q \<notin> {fi_file f, extclean_temp (fi_file f)} \<longrightarrow> fs' q = fs q)"
proof -
  obtain rm where rm: "apply_json_removal sy (fi_file f) rm fs = (None, fs')" and one: "takes_one f rm"
    using remove_finding_json [OF assms] by blast
  obtain data root root' where d: "fs (fi_file f) = Some data" "sy_parse sy data = Some root"
    "fs' (fi_file f) = Some (sy_show sy root' @ [10])" and r: "rm root = Inr (root', True)"
    using json_removal_None [OF rm] by blast
  have "one_gone f root root' \<and> keeps_apart (locator_path (fi_locator f)) root root'"
    using one r by (simp add: takes_one_def)
  then show ?thesis
    using d json_removal_frame [OF rm] by (intro exI [of _ data] exI [of _ root] exI [of _ root']) simp
qed

definition sample_doc :: jval where
  "sample_doc = JV_obj [(''mcpServers'', JV_obj [(''a'', JV_obj []), (''b'', JV_null)]), (''n'', JV_num ''1'')]"

definition sample_system :: system where
  "sample_system = \<lparr>sy_places = \<lparr>pl_exists = \<lambda>_. True, pl_non_empty_dir = \<lambda>_. True, pl_look_path = \<lambda>_. False\<rparr>,
     sy_home = ''/h'', sy_parse = (\<lambda>b. if b = [1] then Some sample_doc else None), sy_show = (\<lambda>v. [2]), sy_toml = \<lambda>_. None,
     sy_write = \<lambda>_. True, sy_torn = \<lambda>_. None, sy_rename = \<lambda>_. True\<rparr>"

definition sample_finding :: finding where
  "sample_finding = \<lparr>fi_tool = ''cursor'', fi_kind = Mcp_server, fi_name = ''a'', fi_file = ''/h/.cursor/mcp.json'',
     fi_reason = Orphaned, fi_locator = Map_key [''mcpServers''] ''a''\<rparr>"

lemma removal_is_local_witness:
  "snd (remove_finding sample_system sample_finding [''/h/.cursor/mcp.json'' \<mapsto> [1], ''/x'' \<mapsto> [3]]) ''/x'' = Some [3]"
proof -
  have "fst (remove_finding sample_system sample_finding [''/h/.cursor/mcp.json'' \<mapsto> [1], ''/x'' \<mapsto> [3]]) = None"
    by code_simp
  then have r: "remove_finding sample_system sample_finding [''/h/.cursor/mcp.json'' \<mapsto> [1], ''/x'' \<mapsto> [3]]
      = (None, snd (remove_finding sample_system sample_finding [''/h/.cursor/mcp.json'' \<mapsto> [1], ''/x'' \<mapsto> [3]]))"
    by (intro prod_eqI) simp_all
  have "snd (remove_finding sample_system sample_finding [''/h/.cursor/mcp.json'' \<mapsto> [1], ''/x'' \<mapsto> [3]]) ''/x''
      = ([''/h/.cursor/mcp.json'' \<mapsto> [1], ''/x'' \<mapsto> [3 :: 8 word]]) ''/x''"
  proof -
    have "fi_tool sample_finding \<in> {''claude'', ''cursor'', ''pi''}" "hook_located sample_finding"
      "''/x'' \<notin> {fi_file sample_finding, extclean_temp (fi_file sample_finding)}"
      by (simp_all add: sample_finding_def hook_located_def extclean_temp_def)
    then show ?thesis
      using removal_is_local [OF r] by blast
  qed
  then show ?thesis
    by simp
qed

text \<open>Removing a table from a Codex configuration cuts that table and nothing else: it succeeds only if exactly one
  line is the header; every line before the header and from the next table header on is kept in order (up to
  blank lines where the two sides meet), and what is cut holds no other header.\<close>

theorem toml_removal_exact:
  assumes "remove_toml_table content header = Inr result"
  shows "\<exists>before h body after. table_lines content = before @ h # body @ after \<and> trim_space h = header
    \<and> (\<forall>l \<in> set before \<union> set body \<union> set after. trim_space l \<noteq> header)
    \<and> (\<forall>l \<in> set body. \<not> opens_table l) \<and> (after = [] \<or> opens_table (hd after))
    \<and> result = join [CHR 0x0A] (close_seam before after) @ (if has_suffix content [CHR 0x0A] then [CHR 0x0A] else [])"
proof -
  let ?ls = "table_lines content"
  obtain before after where c: "cut_table header ?ls = (before, after)"
    by (rule prod.exhaust)
  have "length (filter (\<lambda>l. trim_space l = header) ?ls) \<noteq> 0" "\<not> length (filter (\<lambda>l. trim_space l = header) ?ls) > 1"
    using assms by (simp_all add: remove_toml_table_def Let_def split: if_split_asm)
  then have one: "length (filter (\<lambda>l. trim_space l = header) ?ls) = 1"
    by linarith
  have r: "result = join [CHR 0x0A] (close_seam before after) @ (if has_suffix content [CHR 0x0A] then [CHR 0x0A] else [])"
    using assms by (auto simp: remove_toml_table_def c Let_def split: if_split_asm)
  show ?thesis
    using cut_table_split [OF c one] unfolding r by blast
qed

lemma toml_removal_exact_witness:
  "\<exists>before h body after. table_lines ''[a]'' = before @ h # body @ after \<and> trim_space h = ''[a]''"
proof -
  have r: "remove_toml_table ''[a]'' ''[a]'' = Inr []"
    by code_simp
  show ?thesis
    using toml_removal_exact [OF r] by blast
qed

text \<open>C37: \<^verbatim>\<open>extclean\<close> writes only what it reports: a file changes only under \<^verbatim>\<open>-apply\<close>, and only if it is the existing
  configuration file of a reported finding of one of the scanned agents, or the temporary file beside
  it; and every reported entry is called orphaned exactly if its agent is not installed.\<close>

theorem only_reported_files_change:
  assumes "parse_flags (\<lambda>_. False) extclean_flags [] args = Inr (vs, operands)"
  shows "(\<forall>q. oc_files (extclean_main sy args fs) q \<noteq> fs q \<longrightarrow> flag_set vs ''apply''
      \<and> (\<exists>f \<in> set (oc_findings (extclean_main sy args fs)). q = fi_file f \<or> q = extclean_temp (fi_file f)))
   \<and> (\<forall>f \<in> set (oc_findings (extclean_main sy args fs)). own_finding sy (flag_value vs ''home'' (sy_home sy)) f)"
  using extclean_main_files [OF assms] extclean_main_findings [OF assms] by blast

lemma only_reported_files_change_witness:
  "\<forall>fs q. oc_files (extclean_main sample_system [''-tool=pi''] fs) q = fs q"
proof (intro allI)
  fix fs :: contents and q :: string
  have "parse_flags (\<lambda>_. False) extclean_flags [] [''-tool=pi''] = Inr ([(''tool'', ''pi'')], [])"
    by code_simp
  from only_reported_files_change [OF this, of sample_system fs]
  show "oc_files (extclean_main sample_system [''-tool=pi''] fs) q = fs q"
    by (auto simp: flag_set_def flag_value_def bool_of_text_def)
qed

end
