(* ===== verification/Gitall_Git.thy ===== *)
theory Gitall_Git
  imports Restore Pulse "HOL-Library.State_Monad"
begin

text \<open>
  The git layer of \<^verbatim>\<open>gitall/main.go\<close>: the merge modes, the commands with their environment, the
  plumbing that moves a branch (fast-forward, merge commit, rebase) without touching the working
  tree, and the pull request fallback. Actions are state monads over the trace of the interposer's
  frame; git and \<^verbatim>\<open>gh\<close> answer each command as a function of the trace, hence arbitrarily. A
  time-out is a failed command. \<^verbatim>\<open>setEnv\<close> and \<^verbatim>\<open>mergeNoProxyDefaults\<close> are the same code as in
  \<^verbatim>\<open>pulse\<close> and are taken from there. Printed lines are left out.
\<close>

section \<open>Options\<close>

datatype merge_mode = Merge_none | Merge_local | Merge_remote | Merge_pr

fun merge_level :: "merge_mode \<Rightarrow> nat" where
  "merge_level Merge_none = 0"
| "merge_level Merge_local = 1"
| "merge_level Merge_remote = 2"
| "merge_level Merge_pr = 3"

instantiation merge_mode :: linorder
begin

definition less_eq_merge_mode :: "merge_mode \<Rightarrow> merge_mode \<Rightarrow> bool" where
  "less_eq_merge_mode a b \<longleftrightarrow> merge_level a \<le> merge_level b"

definition less_merge_mode :: "merge_mode \<Rightarrow> merge_mode \<Rightarrow> bool" where
  "less_merge_mode a b \<longleftrightarrow> merge_level a < merge_level b"

instance
proof
  fix a b c :: merge_mode
  show "a \<le> b \<Longrightarrow> b \<le> a \<Longrightarrow> a = b"
    by (cases a; cases b) (simp_all add: less_eq_merge_mode_def)
qed (auto simp: less_eq_merge_mode_def less_merge_mode_def)

end

definition expand_bare_allow_merge :: "string list \<Rightarrow> string list" where
  "expand_bare_allow_merge = map (\<lambda>a. if a = ''-allow-merge'' \<or> a = ''--allow-merge'' then ''-allow-merge=pr'' else a)"

definition parse_merge_mode :: "string \<Rightarrow> merge_mode option" where
  "parse_merge_mode s =
     (let t = to_lower (trim_space s) in
      if t \<in> set [[], ''0'', ''none''] then Some Merge_none
      else if t \<in> set [''1'', ''local''] then Some Merge_local
      else if t \<in> set [''2'', ''remote''] then Some Merge_remote
      else if t \<in> set [''3'', ''pr''] then Some Merge_pr
      else None)"

fun merge_mode_name :: "merge_mode \<Rightarrow> string" where
  "merge_mode_name Merge_none = ''none''"
| "merge_mode_name Merge_local = ''local''"
| "merge_mode_name Merge_remote = ''remote''"
| "merge_mode_name Merge_pr = ''pr''"

lemma parse_merge_mode_name: "parse_merge_mode (merge_mode_name m) = Some m"
  by (induct m; code_simp)

datatype git_action = Push_all | Pull_all

record gitall_opts =
  go_action :: git_action
  go_all :: bool
  go_rebase :: bool
  go_commit_msg :: string
  go_dry_run :: bool
  go_merge_mode :: merge_mode
  go_skip_pull_first :: bool
  go_proxy_url :: string

definition with_action :: "git_action \<Rightarrow> gitall_opts \<Rightarrow> gitall_opts" where
  "with_action a g = g\<lparr>go_action := a\<rparr>"

definition with_skip_pull_first :: "bool \<Rightarrow> gitall_opts \<Rightarrow> gitall_opts" where
  "with_skip_pull_first s g = g\<lparr>go_skip_pull_first := s\<rparr>"

section \<open>The machine\<close>

text \<open>
  What the code asks of the machine besides commands: the environment, the working and the home
  directory, symbolic links (\<^verbatim>\<open>filepath.EvalSymlinks\<close>), \<^verbatim>\<open>.git\<close> entries, a fresh temporary file,
  the JSON decoding of the list of pull requests, and the snapshot prefix of the configuration.
\<close>

record open_pr =
  pr_number :: int
  pr_head_name :: string
  pr_head_oid :: string

record machine =
  mc_ops :: operations
  mc_environ :: "string list"
  mc_cwd :: "string option"
  mc_home :: "string option"
  mc_links :: "string \<Rightarrow> string option"
  mc_git_entry :: "string \<Rightarrow> bool"
  mc_temp_file :: "string option"
  mc_decode_prs :: "string \<Rightarrow> open_pr list option"
  mc_snapshot_prefix :: string

type_synonym 'a act = "(trace, 'a) state"

datatype git_error = Git_failed "string list" | Gh_failed "string list" | Gh_output | Merge_conflict string
  | Rebase_conflict string "string list" | Empty_merge_tree | No_temp_file | Bad_author string
  | Not_github string | Detached_head

definition gives :: "'a \<Rightarrow> 'a act" where
  "gives = State_Monad.return"

text \<open>The early returns of the source: the rest runs only on success.\<close>

definition and_then :: "('e + 'a) act \<Rightarrow> ('a \<Rightarrow> ('e + 'b) act) \<Rightarrow> ('e + 'b) act" where
  "and_then m f = do { r \<leftarrow> m; case r of Inl e \<Rightarrow> gives (Inl e) | Inr x \<Rightarrow> f x }"

text \<open>Loops that go on after a failure and report whether all went well.\<close>

fun all_ok :: "('a \<Rightarrow> bool act) \<Rightarrow> 'a list \<Rightarrow> bool act" where
  "all_ok f [] = gives True"
| "all_ok f (x # xs) = do { ok \<leftarrow> f x; rest \<leftarrow> all_ok f xs; gives (ok \<and> rest) }"

section \<open>Commands\<close>

definition append_proxied_env :: "string list \<Rightarrow> string \<Rightarrow> string list" where
  "append_proxied_env existing url =
     set_env (set_env (set_env existing ''HTTP_PROXY'' url) ''HTTPS_PROXY'' url) ''NO_PROXY''
       (merge_no_proxy (env_value existing ''NO_PROXY''))"

definition child_env :: "machine \<Rightarrow> gitall_opts \<Rightarrow> string list \<Rightarrow> string list" where
  "child_env w g extra =
     foldl (\<lambda>env e. case cut (CHR ''='') e of (k, v, found) \<Rightarrow> if found then set_env env k v else env)
       (if go_proxy_url g \<noteq> [] then append_proxied_env (mc_environ w) (go_proxy_url g) else mc_environ w) extra"

definition perform :: "machine \<Rightarrow> command \<Rightarrow> run_outcome act" where
  "perform w cmd = State (run_command (mc_ops w) cmd)"

text \<open>\<open>cmd_env = []\<close> is a command that inherits the environment.\<close>

definition git_command :: "string \<Rightarrow> string list \<Rightarrow> string list \<Rightarrow> bool \<Rightarrow> command" where
  "git_command repo env args buffered = \<lparr>cmd_path = ''git'', cmd_args = [''-C'', repo] @ args, cmd_dir = [],
     cmd_env = env, cmd_capture = buffered\<rparr>"

definition git :: "machine \<Rightarrow> gitall_opts \<Rightarrow> string \<Rightarrow> string list \<Rightarrow> (git_error + unit) act" where
  "git w g repo args =
     (if go_dry_run g then gives (Inr ())
      else do {
        r \<leftarrow> perform w (git_command repo (child_env w g []) args False);
        gives (if ro_failed r then Inl (Git_failed args) else Inr ()) })"

text \<open>\<^verbatim>\<open>captureWithEnv\<close>: the standard output and error together, and whether the command succeeded.\<close>

definition capture_with_env :: "machine \<Rightarrow> gitall_opts \<Rightarrow> string \<Rightarrow> string list \<Rightarrow> string list \<Rightarrow> (string \<times> bool) act" where
  "capture_with_env w g repo extra args =
     do {
       r \<leftarrow> perform w (git_command repo (if extra \<noteq> [] \<or> go_proxy_url g \<noteq> [] then child_env w g extra else []) args True);
       gives (ro_stdout r, \<not> ro_failed r) }"

definition captured :: "machine \<Rightarrow> gitall_opts \<Rightarrow> string \<Rightarrow> string list \<Rightarrow> string list \<Rightarrow> (git_error + string) act" where
  "captured w g repo extra args =
     do { (out, ok) \<leftarrow> capture_with_env w g repo extra args; gives (if ok then Inr out else Inl (Git_failed args)) }"

definition capture :: "machine \<Rightarrow> gitall_opts \<Rightarrow> string \<Rightarrow> string list \<Rightarrow> (git_error + string) act" where
  "capture w g repo args = captured w g repo [] args"

definition succeeds :: "machine \<Rightarrow> gitall_opts \<Rightarrow> string \<Rightarrow> string list \<Rightarrow> bool act" where
  "succeeds w g repo args = do { (out, ok) \<leftarrow> capture_with_env w g repo [] args; gives ok }"

definition gh_command :: "string \<Rightarrow> string list \<Rightarrow> bool \<Rightarrow> command" where
  "gh_command repo args buffered = \<lparr>cmd_path = ''gh'', cmd_args = args, cmd_dir = repo, cmd_env = [], cmd_capture = buffered\<rparr>"

definition gh :: "machine \<Rightarrow> gitall_opts \<Rightarrow> string \<Rightarrow> string list \<Rightarrow> (git_error + unit) act" where
  "gh w g repo args =
     (if go_dry_run g then gives (Inr ())
      else do {
        r \<leftarrow> perform w (gh_command repo args False);
        gives (if ro_failed r then Inl (Gh_failed args) else Inr ()) })"

definition gh_json :: "machine \<Rightarrow> string \<Rightarrow> string list \<Rightarrow> (git_error + open_pr list) act" where
  "gh_json w repo args =
     do {
       r \<leftarrow> perform w (gh_command repo args True);
       gives (if ro_failed r then Inl (Gh_failed args)
              else (case mc_decode_prs w (ro_stdout r) of None \<Rightarrow> Inl Gh_output | Some prs \<Rightarrow> Inr prs)) }"

section \<open>Queries\<close>

definition rev_parse :: "machine \<Rightarrow> gitall_opts \<Rightarrow> string \<Rightarrow> string \<Rightarrow> (git_error + string) act" where
  "rev_parse w g repo name =
     and_then (capture w g repo [''rev-parse'', ''--verify'', name]) (\<lambda>out. gives (Inr (trim_space out)))"

definition branch_ref :: "string \<Rightarrow> string" where
  "branch_ref branch = ''refs/heads/'' @ branch"

definition branch_tip :: "machine \<Rightarrow> gitall_opts \<Rightarrow> string \<Rightarrow> string \<Rightarrow> (git_error + string) act" where
  "branch_tip w g repo branch = rev_parse w g repo (branch_ref branch)"

definition ancestor_query :: "string \<Rightarrow> string \<Rightarrow> string list" where
  "ancestor_query a b = [''merge-base'', ''--is-ancestor'', a, b]"

definition is_ancestor :: "machine \<Rightarrow> gitall_opts \<Rightarrow> string \<Rightarrow> string \<Rightarrow> string \<Rightarrow> (git_error + bool) act" where
  "is_ancestor w g repo anc desc =
     do {
       yes \<leftarrow> succeeds w g repo (ancestor_query anc desc);
       if yes then gives (Inr True)
       else do {
         a \<leftarrow> succeeds w g repo [''rev-parse'', ''--verify'', anc];
         if \<not> a then gives (Inl (Git_failed (ancestor_query anc desc)))
         else do {
           d \<leftarrow> succeeds w g repo [''rev-parse'', ''--verify'', desc];
           gives (if d then Inr False else Inl (Git_failed (ancestor_query anc desc))) }}}"

definition remote_branch_exists :: "machine \<Rightarrow> gitall_opts \<Rightarrow> string \<Rightarrow> string \<Rightarrow> bool act" where
  "remote_branch_exists w g repo ref = succeeds w g repo [''rev-parse'', ''--verify'', ref]"

definition local_branches :: "machine \<Rightarrow> gitall_opts \<Rightarrow> string \<Rightarrow> (git_error + string list) act" where
  "local_branches w g repo =
     and_then (capture w g repo [''for-each-ref'', ''--format=%(refname:short)'', ''refs/heads''])
       (\<lambda>out. gives (Inr (str_fields out)))"

definition remote_branches :: "machine \<Rightarrow> gitall_opts \<Rightarrow> string \<Rightarrow> string \<Rightarrow> (git_error + string list) act" where
  "remote_branches w g repo remote =
     and_then (capture w g repo [''for-each-ref'', ''--format=%(refname:strip=3)'', ''refs/remotes/'' @ remote])
       (\<lambda>out. gives (Inr (filter (\<lambda>b. b \<noteq> ''HEAD'') (str_fields out))))"

definition local_branch_exists :: "machine \<Rightarrow> gitall_opts \<Rightarrow> string \<Rightarrow> string \<Rightarrow> bool act" where
  "local_branch_exists w g repo branch = succeeds w g repo [''show-ref'', ''--verify'', ''--quiet'', branch_ref branch]"

definition remotes :: "machine \<Rightarrow> gitall_opts \<Rightarrow> string \<Rightarrow> (git_error + string list) act" where
  "remotes w g repo = and_then (capture w g repo [''remote'']) (\<lambda>out. gives (Inr (str_fields out)))"

definition remote_url :: "machine \<Rightarrow> gitall_opts \<Rightarrow> string \<Rightarrow> string \<Rightarrow> (git_error + string) act" where
  "remote_url w g repo remote =
     and_then (capture w g repo [''remote'', ''get-url'', remote]) (\<lambda>out. gives (Inr (trim_space out)))"

definition remote_push_url :: "machine \<Rightarrow> gitall_opts \<Rightarrow> string \<Rightarrow> string \<Rightarrow> (git_error + string) act" where
  "remote_push_url w g repo remote =
     and_then (capture w g repo [''remote'', ''get-url'', ''--push'', remote]) (\<lambda>out. gives (Inr (trim_space out)))"

definition current_branch :: "machine \<Rightarrow> gitall_opts \<Rightarrow> string \<Rightarrow> (git_error + string) act" where
  "current_branch w g repo =
     and_then (capture w g repo [''rev-parse'', ''--abbrev-ref'', ''HEAD'']) (\<lambda>out. gives (Inr (trim_space out)))"

definition bare_repository :: "machine \<Rightarrow> gitall_opts \<Rightarrow> string \<Rightarrow> (git_error + bool) act" where
  "bare_repository w g repo =
     and_then (capture w g repo [''rev-parse'', ''--is-bare-repository'']) (\<lambda>out. gives (Inr (trim_space out = ''true'')))"

definition is_clean :: "machine \<Rightarrow> gitall_opts \<Rightarrow> string \<Rightarrow> (git_error + bool) act" where
  "is_clean w g repo =
     do {
       bare \<leftarrow> bare_repository w g repo;
       if bare = Inr True then gives (Inr True)
       else and_then (capture w g repo [''status'', ''--porcelain'']) (\<lambda>out. gives (Inr (trim_space out = []))) }"

section \<open>Moving a branch\<close>

definition update_ref :: "string \<Rightarrow> string \<Rightarrow> string list" where
  "update_ref branch sha = [''update-ref'', branch_ref branch, sha]"

definition ff_update_branch :: "machine \<Rightarrow> gitall_opts \<Rightarrow> string \<Rightarrow> string \<Rightarrow> string \<Rightarrow> (git_error + unit) act" where
  "ff_update_branch w g repo branch to_sha =
     (if go_dry_run g then gives (Inr ()) else git w g repo (update_ref branch to_sha))"

text \<open>The first line of \<^verbatim>\<open>merge-tree\<close> is the tree; the lines up to the next empty one are the conflicts.\<close>

definition merge_tree_args :: "string \<Rightarrow> string \<Rightarrow> string \<Rightarrow> string list" where
  "merge_tree_args our their merge_base = [''merge-tree'', ''--write-tree'', ''--name-only'']
     @ (if merge_base \<noteq> [] then [''--merge-base='' @ merge_base] else []) @ [our, their]"

definition read_merge_tree :: "string \<Rightarrow> bool \<Rightarrow> string list \<Rightarrow> git_error + string \<times> string list" where
  "read_merge_tree out ok args =
     (let lines = split_on (CHR 0x0A) (replace_all [CHR 0x0D, CHR 0x0A] [CHR 0x0A] out);
          tree = trim_space (hd lines); conflicts = takeWhile (\<lambda>l. l \<noteq> []) (List.tl lines) in
      if tree = [] then Inl (if ok then Empty_merge_tree else Git_failed args)
      else if \<not> ok \<and> conflicts = [] then Inl (Git_failed args)
      else Inr (tree, conflicts))"

definition merge_tree_write :: "machine \<Rightarrow> gitall_opts \<Rightarrow> string \<Rightarrow> string \<Rightarrow> string \<Rightarrow> string
    \<Rightarrow> (git_error + string \<times> string list) act" where
  "merge_tree_write w g repo our their merge_base =
     (let args = merge_tree_args our their merge_base in
      do { (out, ok) \<leftarrow> capture_with_env w g repo [] args; gives (read_merge_tree out ok args) })"

text \<open>The conflicts are removed from the tree in a temporary index.\<close>

definition index_env :: "string \<Rightarrow> string list" where
  "index_env path = [''GIT_INDEX_FILE='' @ path]"

definition strip_paths_from_tree :: "machine \<Rightarrow> gitall_opts \<Rightarrow> string \<Rightarrow> string \<Rightarrow> string list
    \<Rightarrow> (git_error + string) act" where
  "strip_paths_from_tree w g repo tree paths =
     (case mc_temp_file w of
        None \<Rightarrow> gives (Inl No_temp_file)
      | Some path \<Rightarrow>
          and_then (captured w g repo (index_env path) [''read-tree'', tree]) (\<lambda>_.
          and_then (captured w g repo (index_env path) ([''rm'', ''-f'', ''--cached'', ''--''] @ paths)) (\<lambda>_.
          and_then (captured w g repo (index_env path) [''write-tree'']) (\<lambda>out. gives (Inr (trim_space out))))))"

definition commit_tree_args :: "string \<Rightarrow> string list \<Rightarrow> string \<Rightarrow> string list" where
  "commit_tree_args tree parents msg = [''commit-tree'', tree] @ concat (map (\<lambda>p. [''-p'', p]) parents) @ [''-m'', msg]"

definition merge_update_branch :: "machine \<Rightarrow> gitall_opts \<Rightarrow> string \<Rightarrow> string \<Rightarrow> string \<Rightarrow> string \<Rightarrow> string
    \<Rightarrow> (git_error + unit) act" where
  "merge_update_branch w g repo branch our their msg =
     (if go_dry_run g then gives (Inr ())
      else and_then (merge_tree_write w g repo our their []) (\<lambda>(tree, conflicts).
        and_then (case find (\<lambda>p. path_base p \<noteq> ''Cargo.lock'') conflicts of
             Some p \<Rightarrow> gives (Inl (Merge_conflict p))
           | None \<Rightarrow> if conflicts = [] then gives (Inr tree) else strip_paths_from_tree w g repo tree conflicts) (\<lambda>tree.
        and_then (capture w g repo (commit_tree_args tree [our, their] msg)) (\<lambda>commit.
        git w g repo (update_ref branch (trim_space commit))))))"

definition commit_author_env :: "machine \<Rightarrow> gitall_opts \<Rightarrow> string \<Rightarrow> string \<Rightarrow> (git_error + string list) act" where
  "commit_author_env w g repo commit =
     and_then (capture w g repo [''log'', ''-1'', ''--pretty=%an%n%ae%n%aD'', commit]) (\<lambda>out.
       case split_on (CHR 0x0A) (trim_suffix out [CHR 0x0A]) of
         name # email # date # _ \<Rightarrow> gives (Inr [''GIT_AUTHOR_NAME='' @ name, ''GIT_AUTHOR_EMAIL='' @ email,
           ''GIT_AUTHOR_DATE='' @ date])
       | _ \<Rightarrow> gives (Inl (Bad_author out)))"

definition replay_commit :: "machine \<Rightarrow> gitall_opts \<Rightarrow> string \<Rightarrow> string \<Rightarrow> string \<Rightarrow> (git_error + string) act" where
  "replay_commit w g repo onto commit =
     and_then (rev_parse w g repo (commit @ ''^'')) (\<lambda>parent.
     and_then (merge_tree_write w g repo onto commit parent) (\<lambda>(tree, conflicts).
       if conflicts \<noteq> [] then gives (Inl (Rebase_conflict commit conflicts))
       else and_then (capture w g repo [''log'', ''-1'', ''--pretty=%B'', commit]) (\<lambda>msg.
         and_then (commit_author_env w g repo commit) (\<lambda>author.
         and_then (captured w g repo author (commit_tree_args tree [onto] msg)) (\<lambda>out. gives (Inr (trim_space out)))))))"

fun replay :: "machine \<Rightarrow> gitall_opts \<Rightarrow> string \<Rightarrow> string \<Rightarrow> string list \<Rightarrow> (git_error + string) act" where
  "replay w g repo onto [] = gives (Inr onto)"
| "replay w g repo onto (commit # commits) =
     and_then (replay_commit w g repo onto commit) (\<lambda>onto. replay w g repo onto commits)"

definition rebase_update_branch :: "machine \<Rightarrow> gitall_opts \<Rightarrow> string \<Rightarrow> string \<Rightarrow> string \<Rightarrow> string
    \<Rightarrow> (git_error + unit) act" where
  "rebase_update_branch w g repo branch our their =
     (if go_dry_run g then gives (Inr ())
      else and_then (capture w g repo [''rev-list'', ''--reverse'', their @ ''..'' @ our]) (\<lambda>out.
        and_then (replay w g repo their (str_fields out)) (\<lambda>onto. git w g repo (update_ref branch onto))))"

text \<open>What happens to a branch that is not behind its remote: \<open>ahead\<close> tells whether it can be fast-forwarded.\<close>

definition advance_branch :: "machine \<Rightarrow> gitall_opts \<Rightarrow> string \<Rightarrow> string \<Rightarrow> string \<Rightarrow> string \<Rightarrow> string \<Rightarrow> bool \<Rightarrow> bool
    \<Rightarrow> bool \<Rightarrow> (git_error + bool) act" where
  "advance_branch w g repo branch remote our their allow_merge rebase ahead =
     (if ahead then and_then (ff_update_branch w g repo branch their) (\<lambda>_. gives (Inr True))
      else if rebase then and_then (rebase_update_branch w g repo branch our their) (\<lambda>_. gives (Inr True))
      else if \<not> allow_merge then gives (Inr False)
      else and_then (merge_update_branch w g repo branch our their
          (if go_commit_msg g = [] then ''gitall: merge '' @ remote @ ''/'' @ branch else go_commit_msg g))
        (\<lambda>_. gives (Inr True)))"

definition update_branch_from_remote :: "machine \<Rightarrow> gitall_opts \<Rightarrow> string \<Rightarrow> string \<Rightarrow> string \<Rightarrow> string \<Rightarrow> bool \<Rightarrow> bool
    \<Rightarrow> (git_error + bool) act" where
  "update_branch_from_remote w g repo branch remote_ref remote allow_merge rebase =
     and_then (branch_tip w g repo branch) (\<lambda>our.
     and_then (rev_parse w g repo remote_ref) (\<lambda>their.
       if our = their then gives (Inr False)
       else and_then (is_ancestor w g repo their our) (\<lambda>behind.
         if behind then gives (Inr False)
         else and_then (is_ancestor w g repo our their)
           (advance_branch w g repo branch remote our their allow_merge rebase))))"

definition sync_remote :: "machine \<Rightarrow> gitall_opts \<Rightarrow> string \<Rightarrow> string \<Rightarrow> string \<Rightarrow> bool \<Rightarrow> (git_error + bool) act" where
  "sync_remote w g repo remote branch is_local =
     (let ref = remote @ ''/'' @ branch in
      do {
        there \<leftarrow> remote_branch_exists w g repo ref;
        if \<not> there then gives (Inr False)
        else update_branch_from_remote w g repo branch ref remote
          (Merge_remote \<le> go_merge_mode g \<or> is_local \<and> Merge_local \<le> go_merge_mode g) False })"

section \<open>The pull request fallback\<close>

fun strip_first_prefix :: "string list \<Rightarrow> string \<Rightarrow> string option" where
  "strip_first_prefix [] u = None"
| "strip_first_prefix (p # ps) u = (if has_prefix u p then Some (trim_prefix u p) else strip_first_prefix ps u)"

definition github_prefixes :: "string list" where
  "github_prefixes = [''git@github.com:'', ''ssh://git@github.com/'', ''https://github.com/'', ''http://github.com/'']"

definition github_repo_slug :: "string \<Rightarrow> string option" where
  "github_repo_slug url =
     (case strip_first_prefix github_prefixes (trim_suffix url ''.git'') of
        None \<Rightarrow> None
      | Some rest \<Rightarrow> (case cut (CHR ''/'') rest of (owner, name, found) \<Rightarrow>
          if found \<and> owner \<noteq> [] \<and> name \<noteq> [] then Some (owner @ ''/'' @ name) else None))"

definition pr_prefix :: "string \<Rightarrow> string" where
  "pr_prefix base = ''gitall-pr/'' @ base @ ''-''"

definition pr_branch_name :: "string \<Rightarrow> int \<Rightarrow> string" where
  "pr_branch_name base n = pr_prefix base @ show_int n"

definition match_pr_branch :: "string \<Rightarrow> string \<Rightarrow> int option" where
  "match_pr_branch name base =
     (if \<not> has_prefix name (pr_prefix base) then None
      else case atoi (trim_prefix name (pr_prefix base)) of (n, ok) \<Rightarrow> if \<not> ok \<or> n \<le> 0 then None else Some n)"

definition pr_list_args :: "string \<Rightarrow> string \<Rightarrow> string list" where
  "pr_list_args slug base = [''pr'', ''list'', ''-R'', slug, ''--base'', base, ''--state'', ''open'', ''--json'',
     ''number,headRefName,headRefOid'', ''--limit'', ''100'']"

definition open_prs_from :: "machine \<Rightarrow> string \<Rightarrow> string \<Rightarrow> string \<Rightarrow> (git_error + open_pr list) act" where
  "open_prs_from w repo slug base =
     and_then (gh_json w repo (pr_list_args slug base)) (\<lambda>prs.
       gives (Inr (sort_key (\<lambda>p. the (match_pr_branch (pr_head_name p) base))
         (filter (\<lambda>p. match_pr_branch (pr_head_name p) base \<noteq> None) prs))))"

definition listed_number :: "string \<Rightarrow> string \<Rightarrow> int option" where
  "listed_number base line = (case str_fields line of
     [_, ref] \<Rightarrow> match_pr_branch (trim_prefix ref ''refs/heads/'') base | _ \<Rightarrow> None)"

definition remote_branch_numbers :: "machine \<Rightarrow> gitall_opts \<Rightarrow> string \<Rightarrow> string \<Rightarrow> string
    \<Rightarrow> (git_error + int list) act" where
  "remote_branch_numbers w g repo push_url base =
     and_then (capture w g repo [''ls-remote'', ''--heads'', push_url, ''gitall-pr/'' @ base @ ''-*'']) (\<lambda>out.
       gives (Inr (List.map_filter (listed_number base) (split_on (CHR 0x0A) out))))"

definition next_pr_number :: "int list \<Rightarrow> int" where
  "next_pr_number used = foldl (\<lambda>n u. if n \<le> u then wrap64 (u + 1) else n) 1 used"

definition is_ancestor_of_branch :: "machine \<Rightarrow> gitall_opts \<Rightarrow> string \<Rightarrow> string \<Rightarrow> string \<Rightarrow> string
    \<Rightarrow> (git_error + bool) act" where
  "is_ancestor_of_branch w g repo push_url sha branch =
     and_then (git w g repo [''fetch'', push_url, sha]) (\<lambda>_. is_ancestor w g repo sha (branch_ref branch))"

text \<open>The first open pull request whose tip is an ancestor of the branch; a failed query skips it.\<close>

fun first_ancestor :: "machine \<Rightarrow> gitall_opts \<Rightarrow> string \<Rightarrow> string \<Rightarrow> string \<Rightarrow> open_pr list \<Rightarrow> open_pr option act" where
  "first_ancestor w g repo push_url branch [] = gives None"
| "first_ancestor w g repo push_url branch (c # cs) =
     do {
       r \<leftarrow> is_ancestor_of_branch w g repo push_url (pr_head_oid c) branch;
       if r = Inr True then gives (Some c) else first_ancestor w g repo push_url branch cs }"

definition push_args :: "string \<Rightarrow> string \<Rightarrow> string \<Rightarrow> string list" where
  "push_args remote src dst = [''push'', remote, src @ '':refs/heads/'' @ dst]"

definition fallback_create_pr :: "machine \<Rightarrow> gitall_opts \<Rightarrow> string \<Rightarrow> string \<Rightarrow> string \<Rightarrow> (git_error + unit) act" where
  "fallback_create_pr w g repo remote branch =
     and_then (remote_push_url w g repo remote) (\<lambda>push_url.
     and_then (remote_url w g repo remote) (\<lambda>url.
       case github_repo_slug url of
         None \<Rightarrow> gives (Inl (Not_github url))
       | Some slug \<Rightarrow>
           if branch = [] \<or> branch = ''HEAD'' then gives (Inl Detached_head)
           else and_then (open_prs_from w repo slug branch) (\<lambda>candidates.
             do {
               found \<leftarrow> first_ancestor w g repo push_url branch candidates;
               case found of
                 Some c \<Rightarrow> git w g repo (push_args remote (branch_ref branch) (pr_head_name c))
               | None \<Rightarrow>
                   and_then (remote_branch_numbers w g repo push_url branch) (\<lambda>used.
                     let head = pr_branch_name branch (next_pr_number used) in
                     and_then (git w g repo (push_args remote (branch_ref branch) head)) (\<lambda>_.
                       gh w g repo [''pr'', ''create'', ''-R'', slug, ''--head'', head, ''--base'', branch, ''--fill''])) })))"

end
