(* ===== verification/Gitall.thy ===== *)
theory Gitall
  imports Gitall_Git Workspace Go_Flags
begin

text \<open>
  \<^verbatim>\<open>gitall/main.go\<close>: the pull and push of one repository, the recursion into local remotes, the
  discovery of repositories and the command line. The recursion carries fuel; \<open>None\<close> is fuel that
  ran out, and \<open>operate_returns\<close> shows how much is enough. The goroutines of \<^verbatim>\<open>operateAll\<close> are run one
  after the other: since the answers to commands are an arbitrary function of the trace, a run
  stands for every interleaving. The mutexes are the subject of \<open>Gitall_Locks\<close>.
\<close>

section \<open>Paths\<close>

definition file_abs :: "machine \<Rightarrow> string \<Rightarrow> string option" where
  "file_abs w p = (if is_abs p then Some (clean p) else map_option (\<lambda>d. path_join [d, p]) (mc_cwd w))"

definition evaluated :: "machine \<Rightarrow> string \<Rightarrow> string" where
  "evaluated w p = (case mc_links w p of Some q \<Rightarrow> q | None \<Rightarrow> p)"

definition is_git_repo :: "machine \<Rightarrow> string \<Rightarrow> bool act" where
  "is_git_repo w path =
     (if mc_git_entry w path then gives True
      else do { r \<leftarrow> perform w (git_command path [] [''rev-parse'', ''--git-dir''] True); gives (\<not> ro_failed r) })"

text \<open>The path a URL names, unless it is a network URL.\<close>

definition url_path :: "machine \<Rightarrow> string \<Rightarrow> string \<Rightarrow> string option" where
  "url_path w repo url =
     (let p = (if has_prefix url ''file://'' then trim_prefix (trim_prefix url ''file://'') ''localhost'' else url) in
      if contains_str p ''://'' then None
      else if (case index_of p '':'' of None \<Rightarrow> False
               | Some i \<Rightarrow> (case index_of p ''/'' of None \<Rightarrow> True | Some j \<Rightarrow> i < j)) then None
      else if has_prefix p ''~'' then map_option (\<lambda>home. path_join [home, drop 1 p]) (mc_home w)
      else Some (if is_abs p then p else path_join [repo, p]))"

definition resolve_local_remote :: "machine \<Rightarrow> string \<Rightarrow> string \<Rightarrow> string option act" where
  "resolve_local_remote w repo url =
     (case Option.bind (Option.bind (url_path w repo url) (file_abs w)) (mc_links w) of
        None \<Rightarrow> gives None
      | Some ev \<Rightarrow> do { yes \<leftarrow> is_git_repo w ev; gives (if yes then Some ev else None) })"

fun local_remotes :: "machine \<Rightarrow> gitall_opts \<Rightarrow> string \<Rightarrow> string list \<Rightarrow> string list act" where
  "local_remotes w g repo [] = gives []"
| "local_remotes w g repo (r # rs) =
     do {
       url \<leftarrow> remote_url w g repo r;
       here \<leftarrow> (case url of Inl _ \<Rightarrow> gives None | Inr u \<Rightarrow> resolve_local_remote w repo u);
       rest \<leftarrow> local_remotes w g repo rs;
       gives (case here of None \<Rightarrow> rest | Some p \<Rightarrow> p # rest) }"

section \<open>The working tree\<close>

definition checkout_head :: "machine \<Rightarrow> gitall_opts \<Rightarrow> string \<Rightarrow> unit act" where
  "checkout_head w g repo =
     (if go_dry_run g then gives ()
      else do {
        bare \<leftarrow> bare_repository w g repo;
        if bare = Inr True then gives ()
        else do { _ \<leftarrow> git w g repo [''checkout'', ''-f'', ''HEAD'']; gives () } })"

definition maybe_checkout_head :: "machine \<Rightarrow> gitall_opts \<Rightarrow> string \<Rightarrow> string \<Rightarrow> unit act" where
  "maybe_checkout_head w g repo branch =
     do { cur \<leftarrow> current_branch w g repo; if cur = Inr branch then checkout_head w g repo else gives () }"

definition maybe_commit :: "machine \<Rightarrow> gitall_opts \<Rightarrow> string \<Rightarrow> (git_error + bool) act" where
  "maybe_commit w g repo =
     and_then (is_clean w g repo) (\<lambda>c.
       if c then gives (Inr True)
       else if go_commit_msg g = [] then gives (Inr False)
       else and_then (git w g repo [''add'', ''-A'']) (\<lambda>_.
         and_then (git w g repo [''commit'', ''-m'', go_commit_msg g]) (\<lambda>_. gives (Inr True))))"

definition restore_conflicted :: "machine \<Rightarrow> gitall_opts \<Rightarrow> string \<Rightarrow> restore_error option act" where
  "restore_conflicted w g repo = State (restore (mc_ops w)
     \<lparr>opt_git = ''git'', opt_prefix = mc_snapshot_prefix w, opt_dry_run = go_dry_run g\<rparr> repo)"

definition ensure_pushable :: "machine \<Rightarrow> gitall_opts \<Rightarrow> string \<Rightarrow> unit act" where
  "ensure_pushable w g target =
     (if go_dry_run g then gives ()
      else do {
        _ \<leftarrow> perform w (git_command target [] [''config'', ''receive.denyCurrentBranch'', ''updateInstead''] True);
        gives () })"

definition for_each_local_branch :: "machine \<Rightarrow> gitall_opts \<Rightarrow> string \<Rightarrow> (string \<Rightarrow> bool act) \<Rightarrow> bool act" where
  "for_each_local_branch w g repo f =
     do { bs \<leftarrow> local_branches w g repo; case bs of Inl _ \<Rightarrow> gives False | Inr bs \<Rightarrow> all_ok f bs }"

section \<open>Push\<close>

definition push_branch :: "machine \<Rightarrow> gitall_opts \<Rightarrow> string \<Rightarrow> string \<Rightarrow> bool \<Rightarrow> bool \<Rightarrow> string \<Rightarrow> bool act" where
  "push_branch w g repo remote is_local do_sync branch =
     do {
       synced \<leftarrow> (if do_sync then sync_remote w g repo remote branch is_local else gives (Inr False));
       case synced of
         Inl _ \<Rightarrow> gives False
       | Inr updated \<Rightarrow> do {
           (if updated then maybe_checkout_head w g repo branch else gives ());
           r \<leftarrow> git w g repo (push_args remote branch branch);
           if r = Inr () then gives True
           else if \<not> is_local \<and> Merge_pr \<le> go_merge_mode g then
             do { f \<leftarrow> fallback_create_pr w g repo remote branch; gives (f = Inr ()) }
           else gives False } }"

definition sync_and_push_remote :: "machine \<Rightarrow> gitall_opts \<Rightarrow> string \<Rightarrow> string \<Rightarrow> bool \<Rightarrow> bool act" where
  "sync_and_push_remote w g repo remote is_local =
     do {
       bare \<leftarrow> bare_repository w g repo;
       case bare of
         Inl _ \<Rightarrow> gives False
       | Inr bare \<Rightarrow> do {
           fetched \<leftarrow> (if bare then gives True
             else do { r \<leftarrow> git w g repo [''fetch'', remote]; gives (r = Inr ()) });
           ok \<leftarrow> for_each_local_branch w g repo (push_branch w g repo remote is_local (fetched \<and> \<not> bare));
           tags \<leftarrow> (if \<not> go_all g then gives True
             else do { r \<leftarrow> git w g repo [''push'', remote, ''--tags'']; gives (r = Inr ()) });
           gives (ok \<and> tags) } }"

definition sync_and_push_one :: "machine \<Rightarrow> gitall_opts \<Rightarrow> string \<Rightarrow> string \<Rightarrow> bool act" where
  "sync_and_push_one w g repo r =
     do {
       url \<leftarrow> remote_url w g repo r;
       target \<leftarrow> (case url of Inl _ \<Rightarrow> gives None | Inr u \<Rightarrow> resolve_local_remote w repo u);
       case target of
         None \<Rightarrow> sync_and_push_remote w g repo r False
       | Some lr \<Rightarrow> do {
           ensure_pushable w g lr;
           ok \<leftarrow> sync_and_push_remote w g repo r True;
           (if ok then checkout_head w g lr else gives ());
           gives ok } }"

definition sync_and_push_repo :: "machine \<Rightarrow> gitall_opts \<Rightarrow> string \<Rightarrow> bool \<Rightarrow> string list \<Rightarrow> bool act" where
  "sync_and_push_repo w g repo tidy rms =
     (if \<not> tidy then gives True else all_ok (sync_and_push_one w g repo) rms)"

section \<open>Pull\<close>

definition track_branch :: "machine \<Rightarrow> gitall_opts \<Rightarrow> string \<Rightarrow> string \<Rightarrow> string \<Rightarrow> (git_error + unit) act" where
  "track_branch w g repo remote branch =
     do {
       there \<leftarrow> local_branch_exists w g repo branch;
       if there then gives (Inr ())
       else git w g repo [''branch'', ''--track'', branch, remote @ ''/'' @ branch] }"

fun track_branches :: "machine \<Rightarrow> gitall_opts \<Rightarrow> string \<Rightarrow> string \<Rightarrow> string list \<Rightarrow> (git_error + unit) act" where
  "track_branches w g repo remote [] = gives (Inr ())"
| "track_branches w g repo remote (b # bs) =
     and_then (track_branch w g repo remote b) (\<lambda>_. track_branches w g repo remote bs)"

definition create_tracking_branches :: "machine \<Rightarrow> gitall_opts \<Rightarrow> string \<Rightarrow> string \<Rightarrow> (git_error + unit) act" where
  "create_tracking_branches w g repo remote =
     and_then (remote_branches w g repo remote) (track_branches w g repo remote)"

definition pull_branch :: "machine \<Rightarrow> gitall_opts \<Rightarrow> string \<Rightarrow> string \<Rightarrow> string \<Rightarrow> bool act" where
  "pull_branch w g repo r branch =
     do {
       there \<leftarrow> remote_branch_exists w g repo (r @ ''/'' @ branch);
       if \<not> there then gives True
       else do {
         res \<leftarrow> update_branch_from_remote w g repo branch (r @ ''/'' @ branch) r True (go_rebase g);
         case res of
           Inl _ \<Rightarrow> gives False
         | Inr updated \<Rightarrow> do { (if updated then maybe_checkout_head w g repo branch else gives ()); gives True } } }"

definition pull_one :: "machine \<Rightarrow> gitall_opts \<Rightarrow> string \<Rightarrow> string \<Rightarrow> bool act" where
  "pull_one w g repo r =
     do {
       f \<leftarrow> git w g repo [''fetch'', r];
       if f \<noteq> Inr () then gives False
       else do {
         t \<leftarrow> create_tracking_branches w g repo r;
         if t \<noteq> Inr () then gives False
         else for_each_local_branch w g repo (pull_branch w g repo r) } }"

definition pull_repo :: "machine \<Rightarrow> gitall_opts \<Rightarrow> string \<Rightarrow> bool \<Rightarrow> string list \<Rightarrow> bool act" where
  "pull_repo w g repo tidy rms = (if \<not> tidy then gives True else all_ok (pull_one w g repo) rms)"

section \<open>The recursion\<close>

type_synonym operation = "gitall_opts \<Rightarrow> string \<Rightarrow> string list \<Rightarrow> bool option act"

definition both :: "bool option \<Rightarrow> bool option \<Rightarrow> bool option" where
  "both a b = (case (a, b) of (Some x, Some y) \<Rightarrow> Some (x \<and> y) | _ \<Rightarrow> None)"

fun operate_all :: "operation \<Rightarrow> gitall_opts \<Rightarrow> string list \<Rightarrow> string list \<Rightarrow> bool option act" where
  "operate_all rec g [] stack = gives (Some True)"
| "operate_all rec g (r # rs) stack =
     do { a \<leftarrow> rec g r stack; b \<leftarrow> operate_all rec g rs stack; gives (both a b) }"

definition operate_push :: "machine \<Rightarrow> operation \<Rightarrow> gitall_opts \<Rightarrow> string \<Rightarrow> bool \<Rightarrow> string list \<Rightarrow> string list \<Rightarrow> string list
    \<Rightarrow> bool option act" where
  "operate_push w rec g repo tidy rms local stack =
     do {
       a \<leftarrow> (if go_skip_pull_first g then gives (Some True) else operate_all rec (with_action Pull_all g) local stack);
       b \<leftarrow> sync_and_push_repo w g repo tidy rms;
       c \<leftarrow> operate_all rec (with_skip_pull_first True g) local stack;
       gives (both (both a (Some b)) c) }"

definition operate_pull :: "machine \<Rightarrow> operation \<Rightarrow> gitall_opts \<Rightarrow> string \<Rightarrow> bool \<Rightarrow> string list \<Rightarrow> string list \<Rightarrow> string list
    \<Rightarrow> bool option act" where
  "operate_pull w rec g repo tidy rms local stack =
     do {
       a \<leftarrow> operate_all rec g local stack;
       b \<leftarrow> pull_repo w g repo tidy rms;
       gives (both a (Some b)) }"

definition operate_locked :: "machine \<Rightarrow> operation \<Rightarrow> gitall_opts \<Rightarrow> string \<Rightarrow> string \<Rightarrow> string list \<Rightarrow> bool option act" where
  "operate_locked w rec g repo rp stack =
     do {
       rs \<leftarrow> remotes w g repo;
       case rs of
         Inl _ \<Rightarrow> gives (Some False)
       | Inr rs \<Rightarrow> do {
           e \<leftarrow> restore_conflicted w g repo;
           if e \<noteq> None then gives (Some False)
           else do {
             local \<leftarrow> local_remotes w g repo rs;
             c \<leftarrow> maybe_commit w g repo;
             case c of
               Inl _ \<Rightarrow> gives (Some False)
             | Inr c \<Rightarrow>
                 if go_action g = Push_all then operate_push w rec g repo c rs local (rp # stack)
                 else operate_pull w rec g repo c rs local (rp # stack) } } }"

primrec operate :: "nat \<Rightarrow> machine \<Rightarrow> operation" where
  "operate 0 = (\<lambda>w g repo stack. gives None)"
| "operate (Suc n) = (\<lambda>w g repo stack.
     let rp = evaluated w repo in
     if rp \<in> set stack then gives (Some True) else operate_locked w (operate n w) g repo rp stack)"

section \<open>Discovery\<close>

text \<open>\<open>tree\<close> is the file system below an absolute path, \<open>None\<close> where there is nothing.\<close>

type_synonym file_tree = "string \<Rightarrow> node option"

definition skip_walk_dir :: "string \<Rightarrow> bool" where
  "skip_walk_dir name \<longleftrightarrow> has_prefix name ''.'' \<or> is_protected_dir_name name"

text \<open>The walk of \<^verbatim>\<open>discoverAny\<close>: errors are passed over, a repository is not entered.\<close>

function walk_any :: "machine \<Rightarrow> string \<Rightarrow> string \<Rightarrow> node \<Rightarrow> string list"
  and walk_any_entries :: "machine \<Rightarrow> string \<Rightarrow> entries \<Rightarrow> string list" where
  "walk_any w path name (Dir es) =
     (if skip_walk_dir name then []
      else if mc_git_entry w path then [path]
      else (case es of None \<Rightarrow> [] | Some es \<Rightarrow> walk_any_entries w path (sort_key fst es)))"
| "walk_any w path name (File _) = []"
| "walk_any w path name Link = []"
| "walk_any_entries w path [] = []"
| "walk_any_entries w path ((name, n) # es) = walk_any w (path_join [path, name]) name n @ walk_any_entries w path es"
  by pat_completeness auto
termination
  by (relation "measure (\<lambda>x. case x of Inl (_, _, _, n) \<Rightarrow> node_size n | Inr (_, _, es) \<Rightarrow> entries_size es)")
    (auto simp: node_size_entries simp del: node_size.simps(4))

fun discover_any :: "machine \<Rightarrow> file_tree \<Rightarrow> string list \<Rightarrow> string list option" where
  "discover_any w tree [] = Some []"
| "discover_any w tree (base # bases) =
     (case file_abs w base of
        None \<Rightarrow> None
      | Some r \<Rightarrow> map_option (\<lambda>rest. (case tree r of None \<Rightarrow> [] | Some n \<Rightarrow> walk_any w r (path_base r) n) @ rest)
          (discover_any w tree bases))"

text \<open>The walk for \<^verbatim>\<open>.prtag\<close> markers; here an unreadable directory is an error.\<close>

function walk_tags :: "string \<Rightarrow> string \<Rightarrow> node \<Rightarrow> string list option"
  and walk_tags_entries :: "string \<Rightarrow> entries \<Rightarrow> string list option" where
  "walk_tags path name (Dir es) =
     (if name = ''.git'' \<or> skip_walk_dir name then Some []
      else (case es of None \<Rightarrow> None | Some es \<Rightarrow> walk_tags_entries path (sort_key fst es)))"
| "walk_tags path name (File _) = Some (if name = ''.prtag'' then [path_dir path] else [])"
| "walk_tags path name Link = Some (if name = ''.prtag'' then [path_dir path] else [])"
| "walk_tags_entries path [] = Some []"
| "walk_tags_entries path ((name, n) # es) =
     (case walk_tags (path_join [path, name]) name n of
        None \<Rightarrow> None
      | Some ds \<Rightarrow> map_option (append ds) (walk_tags_entries path es))"
  by pat_completeness auto
termination
  by (relation "measure (\<lambda>x. case x of Inl (_, _, n) \<Rightarrow> node_size n | Inr (_, es) \<Rightarrow> entries_size es)")
    (auto simp: node_size_entries simp del: node_size.simps(4))

fun tagged_dirs :: "machine \<Rightarrow> file_tree \<Rightarrow> string list \<Rightarrow> string list option" where
  "tagged_dirs w tree [] = Some []"
| "tagged_dirs w tree (base # bases) =
     (case Option.bind (Option.bind (file_abs w base)
          (\<lambda>r. map_option (Pair r) (tree r))) (\<lambda>(r, n). walk_tags r (path_base r) n) of
        None \<Rightarrow> None
      | Some ds \<Rightarrow> map_option (append ds) (tagged_dirs w tree bases))"

text \<open>Every directory once, by its evaluated path; the first one stays.\<close>

fun unseen_dirs :: "machine \<Rightarrow> string list \<Rightarrow> string list \<Rightarrow> string list" where
  "unseen_dirs w seen [] = []"
| "unseen_dirs w seen (d # ds) =
     (let rp = evaluated w d in
      if rp \<in> set seen then unseen_dirs w seen ds else d # unseen_dirs w (rp # seen) ds)"

definition discover_prtag :: "machine \<Rightarrow> file_tree \<Rightarrow> string list \<Rightarrow> string list option" where
  "discover_prtag w tree bases = Option.bind (tagged_dirs w tree bases) (\<lambda>ds. discover_any w tree (unseen_dirs w [] ds))"

definition discover_repos :: "machine \<Rightarrow> file_tree \<Rightarrow> string \<Rightarrow> string list \<Rightarrow> string list option" where
  "discover_repos w tree mode bases = (if mode = ''prtag'' then discover_prtag w tree bases else discover_any w tree bases)"

definition dedupe_repos :: "machine \<Rightarrow> string list \<Rightarrow> string list" where
  "dedupe_repos w repos = sort (map (evaluated w) (unseen_dirs w [] repos))"

section \<open>The command line\<close>

definition gitall_flags :: "string \<Rightarrow> flag_kind option" where
  "gitall_flags = [''from'' \<mapsto> Flag_string, ''all'' \<mapsto> Flag_bool, ''rebase'' \<mapsto> Flag_bool, ''m'' \<mapsto> Flag_string,
     ''timeout'' \<mapsto> Flag_duration, ''n'' \<mapsto> Flag_bool, ''v'' \<mapsto> Flag_bool, ''proxy'' \<mapsto> Flag_bool,
     ''pr'' \<mapsto> Flag_bool, ''allow-merge'' \<mapsto> Flag_string]"

text \<open>
  Either an exit status or the options, the discovery mode, the roots and whether a proxy is wanted.
  \<open>dur\<close> is \<^verbatim>\<open>time.ParseDuration\<close>'s verdict, \<open>timeout_env\<close> the variable \<^verbatim>\<open>GITALL_TIMEOUT\<close>.
\<close>

definition gitall_options :: "(string \<Rightarrow> bool) \<Rightarrow> string \<Rightarrow> string list
    \<Rightarrow> nat + gitall_opts \<times> string \<times> string list \<times> bool" where
  "gitall_options dur timeout_env args =
     (if timeout_env \<noteq> [] \<and> \<not> dur timeout_env then Inl 2
      else case parse_flags dur gitall_flags [] (expand_bare_allow_merge args) of
        Inl e \<Rightarrow> Inl (if e = Help_requested then 0 else 2)
      | Inr (vs, []) \<Rightarrow> Inl 2
      | Inr (vs, cmd # operands) \<Rightarrow>
          let action = to_lower cmd; mode = flag_value vs ''from'' ''any'';
              bases = (if operands = [] then [''.''] else operands) in
          if action \<notin> {''push'', ''pull''} then Inl 2
          else if mode \<notin> {''any'', ''prtag''} then Inl 2
          else (case parse_merge_mode (flag_value vs ''allow-merge'' ''none'') of
              None \<Rightarrow> Inl 2
            | Some m \<Rightarrow> Inr (\<lparr>go_action = (if action = ''push'' then Push_all else Pull_all), go_all = flag_set vs ''all'',
                go_rebase = flag_set vs ''rebase'', go_commit_msg = flag_value vs ''m'' [], go_dry_run = flag_set vs ''n'',
                go_merge_mode = (if flag_set vs ''pr'' then Merge_pr else m), go_skip_pull_first = False,
                go_proxy_url = []\<rparr>, mode, bases, flag_set vs ''proxy'')))"

fun operate_roots :: "nat \<Rightarrow> machine \<Rightarrow> gitall_opts \<Rightarrow> string list \<Rightarrow> bool option act" where
  "operate_roots fuel w g [] = gives (Some True)"
| "operate_roots fuel w g (r # rs) =
     do { a \<leftarrow> operate fuel w g r []; b \<leftarrow> operate_roots fuel w g rs; gives (both a b) }"

text \<open>The exit status of a run; \<open>proxy\<close> is the URL of the started proxy, \<open>None\<close> if it did not start.\<close>

definition gitall_main :: "nat \<Rightarrow> machine \<Rightarrow> file_tree \<Rightarrow> (string \<Rightarrow> bool) \<Rightarrow> string \<Rightarrow> string option \<Rightarrow> string list
    \<Rightarrow> nat option act" where
  "gitall_main fuel w tree dur timeout_env proxy args =
     (case gitall_options dur timeout_env args of
        Inl status \<Rightarrow> gives (Some status)
      | Inr (g, mode, bases, wants_proxy) \<Rightarrow>
          if wants_proxy \<and> proxy = None then gives (Some 1)
          else (case discover_repos w tree mode bases of
              None \<Rightarrow> gives (Some 1)
            | Some repos \<Rightarrow> do {
                ok \<leftarrow> operate_roots fuel w (if wants_proxy then g\<lparr>go_proxy_url := the proxy\<rparr> else g) (dedupe_repos w repos);
                gives (map_option (\<lambda>b. if b then 0 else 1) ok) }))"

end
