(* ===== verification/Gitall_Safety.thy ===== *)
theory Gitall_Safety
  imports Gitall
begin

text \<open>
  What \<^verbatim>\<open>gitall\<close> may do to a repository: \<open>allowed\<close> lists every command the tool can issue with the
  evidence that must stand in the trace before it, a small Hoare logic carries the invariant through
  all actions, and the properties are read off it.
\<close>

section \<open>Evidence in the trace\<close>

definition answered :: "trace \<Rightarrow> string \<Rightarrow> string list \<Rightarrow> string \<Rightarrow> bool" where
  "answered tr repo args s \<longleftrightarrow> (\<exists>env b r. Ev_run (git_command repo env args b) r \<in> set tr \<and> \<not> ro_failed r
     \<and> trim_space (ro_stdout r) = s)"

text \<open>A chain of new commits from \<open>start\<close>, each with the previous one as its only parent.\<close>

inductive replayed :: "trace \<Rightarrow> string \<Rightarrow> string \<Rightarrow> string \<Rightarrow> bool" for tr repo start where
  replayed_start: "replayed tr repo start start"
| replayed_commit: "replayed tr repo start onto \<Longrightarrow> answered tr repo (commit_tree_args tree [onto] msg) new
    \<Longrightarrow> replayed tr repo start new"

definition fast_forward :: "trace \<Rightarrow> string \<Rightarrow> string \<Rightarrow> string \<Rightarrow> string \<Rightarrow> bool" where
  "fast_forward tr repo our their sha \<longleftrightarrow> sha = their \<and> (\<exists>s. answered tr repo (ancestor_query our their) s)"

definition merged :: "trace \<Rightarrow> string \<Rightarrow> string \<Rightarrow> string \<Rightarrow> string \<Rightarrow> bool" where
  "merged tr repo our their sha \<longleftrightarrow> (\<exists>tree msg. answered tr repo (commit_tree_args tree [our, their] msg) sha)"

definition move_justified :: "bool \<Rightarrow> trace \<Rightarrow> string \<Rightarrow> string \<Rightarrow> string \<Rightarrow> bool" where
  "move_justified rebase tr repo branch sha \<longleftrightarrow> (\<exists>remote our their.
     answered tr repo [''rev-parse'', ''--verify'', branch_ref branch] our
     \<and> answered tr repo [''rev-parse'', ''--verify'', remote @ ''/'' @ branch] their
     \<and> (fast_forward tr repo our their sha \<or> merged tr repo our their sha \<or> rebase \<and> replayed tr repo their sha))"

section \<open>What is allowed\<close>

definition queries :: "string list \<Rightarrow> bool" where
  "queries args \<longleftrightarrow> args \<noteq> [] \<and> (hd args \<in> {''rev-parse'', ''merge-base'', ''for-each-ref'', ''show-ref'', ''status'', ''log'',
     ''rev-list'', ''ls-remote'', ''ls-files'', ''show''} \<or> args = [''remote''] \<or> take 2 args = [''remote'', ''get-url''])"

text \<open>The commands that change something, apart from moving a branch.\<close>

inductive changes :: "machine \<Rightarrow> gitall_opts \<Rightarrow> string list \<Rightarrow> string list \<Rightarrow> bool" for w g where
  ch_fetch: "changes w g env [''fetch'', remote]"
| ch_fetch_tip: "Merge_pr \<le> go_merge_mode g \<Longrightarrow> changes w g env [''fetch'', url, sha]"
| ch_push: "changes w g env (push_args remote branch branch)"
| ch_push_pr: "Merge_pr \<le> go_merge_mode g \<Longrightarrow> changes w g env (push_args remote (branch_ref branch) head)"
| ch_tags: "go_all g \<Longrightarrow> changes w g env [''push'', remote, ''--tags'']"
| ch_track: "changes w g env [''branch'', ''--track'', branch, remote @ ''/'' @ branch]"
| ch_add: "go_commit_msg g \<noteq> [] \<Longrightarrow> changes w g env [''add'', ''-A'']"
| ch_commit: "go_commit_msg g \<noteq> [] \<Longrightarrow> changes w g env [''commit'', ''-m'', go_commit_msg g]"
| ch_checkout: "changes w g env [''checkout'', ''-f'', ''HEAD'']"
| ch_restore: "changes w g env [''checkout'', ref, ''--'', path]"
| ch_pushable: "changes w g env [''config'', ''receive.denyCurrentBranch'', ''updateInstead'']"
| ch_merge_tree: "changes w g env (merge_tree_args our their base)"
| ch_commit_tree: "changes w g env (commit_tree_args tree parents msg)"
| ch_index: "mc_temp_file w = Some path \<Longrightarrow> env_value env ''GIT_INDEX_FILE'' = path
    \<Longrightarrow> hd args \<in> {''read-tree'', ''rm'', ''write-tree''} \<Longrightarrow> changes w g env args"

inductive allowed :: "machine \<Rightarrow> gitall_opts \<Rightarrow> trace \<Rightarrow> event \<Rightarrow> bool" for w g tr where
  al_query: "queries args \<Longrightarrow> allowed w g tr (Ev_run (git_command repo env args b) r)"
| al_change: "\<not> go_dry_run g \<Longrightarrow> changes w g env args \<Longrightarrow> allowed w g tr (Ev_run (git_command repo env args b) r)"
| al_move: "\<not> go_dry_run g \<Longrightarrow> move_justified (go_rebase g) tr repo branch sha
    \<Longrightarrow> allowed w g tr (Ev_run (git_command repo env (update_ref branch sha) b) r)"
| al_gh_list: "\<not> go_dry_run g \<Longrightarrow> Merge_pr \<le> go_merge_mode g \<Longrightarrow> allowed w g tr (Ev_run (gh_command repo (pr_list_args slug base) b) r)"
| al_gh_create: "\<not> go_dry_run g \<Longrightarrow> Merge_pr \<le> go_merge_mode g
    \<Longrightarrow> allowed w g tr (Ev_run (gh_command repo (''pr'' # ''create'' # rest) b) r)"
| al_read: "allowed w g tr (Ev_read path data)"
| al_note: "allowed w g tr (Ev_note m)"

definition all_allowed :: "machine \<Rightarrow> gitall_opts \<Rightarrow> trace \<Rightarrow> bool" where
  "all_allowed w g tr \<longleftrightarrow> (\<forall>pre e post. tr = pre @ e # post \<longrightarrow> allowed w g pre e)"

lemma all_allowed_Nil [simp]: "all_allowed w g []"
  by (simp add: all_allowed_def)

lemma all_allowed_snoc: "all_allowed w g tr \<Longrightarrow> allowed w g tr e \<Longrightarrow> all_allowed w g (tr @ [e])"
proof -
  assume a: "all_allowed w g tr" "allowed w g tr e"
  have "allowed w g pre e'" if "tr @ [e] = pre @ e' # post" for pre e' post
  proof (cases post rule: rev_cases)
    case Nil
    with that a(2) show ?thesis
      by simp
  next
    case (snoc ys y)
    with that have "tr = pre @ e' # ys"
      by simp
    with a(1) show ?thesis
      by (auto simp: all_allowed_def)
  qed
  then show ?thesis
    by (simp add: all_allowed_def)
qed

section \<open>Triples\<close>

definition triple :: "(trace \<Rightarrow> bool) \<Rightarrow> 'a act \<Rightarrow> ('a \<Rightarrow> trace \<Rightarrow> bool) \<Rightarrow> bool" where
  "triple P m Q \<longleftrightarrow> (\<forall>tr. P tr \<longrightarrow> Q (fst (run_state m tr)) (snd (run_state m tr)))"

lemma triple_gives: "(\<And>tr. P tr \<Longrightarrow> Q x tr) \<Longrightarrow> triple P (gives x) Q"
  by (simp add: triple_def gives_def)

lemma triple_bind: "triple P m R \<Longrightarrow> (\<And>x. triple (R x) (f x) Q) \<Longrightarrow> triple P (m \<bind> f) Q"
  by (simp add: triple_def split: prod.split) (metis fst_conv snd_conv)

lemma triple_weaken: "triple P m Q \<Longrightarrow> (\<And>tr. P' tr \<Longrightarrow> P tr) \<Longrightarrow> (\<And>x tr. Q x tr \<Longrightarrow> Q' x tr) \<Longrightarrow> triple P' m Q'"
  by (auto simp: triple_def)

lemma triple_and_then:
  assumes "triple P m R" "\<And>e tr. R (Inl e) tr \<Longrightarrow> Q (Inl e) tr" "\<And>x. triple (R (Inr x)) (f x) Q"
  shows "triple P (and_then m f) Q"
  unfolding and_then_def
  by (rule triple_bind [OF assms(1)]) (auto split: sum.split intro: triple_gives assms(2,3))

lemma triple_perform:
  assumes "\<And>tr r. P tr \<Longrightarrow> Q r (tr @ [Ev_run cmd r])"
  shows "triple P (perform w cmd) Q"
  by (simp add: triple_def perform_def run_command_def Let_def assms)

text \<open>Knowledge that is never lost, and actions that keep the invariant and all such knowledge.\<close>

definition lasting :: "(trace \<Rightarrow> bool) \<Rightarrow> bool" where
  "lasting K \<longleftrightarrow> (\<forall>tr e. K tr \<longrightarrow> K (tr @ [e]))"

definition okay :: "machine \<Rightarrow> gitall_opts \<Rightarrow> (trace \<Rightarrow> bool) \<Rightarrow> 'a act \<Rightarrow> ('a \<Rightarrow> trace \<Rightarrow> bool) \<Rightarrow> bool" where
  "okay w g K m R \<longleftrightarrow> triple (\<lambda>tr. all_allowed w g tr \<and> K tr) m (\<lambda>x tr. all_allowed w g tr \<and> K tr \<and> R x tr)"

definition safe :: "machine \<Rightarrow> gitall_opts \<Rightarrow> (trace \<Rightarrow> bool) \<Rightarrow> 'a act \<Rightarrow> bool" where
  "safe w g K m \<longleftrightarrow> okay w g K m (\<lambda>_ _. True)"

lemma answered_snoc: "answered tr repo args s \<Longrightarrow> answered (tr @ [e]) repo args s"
  by (auto simp: answered_def)

lemma replayed_snoc: "replayed tr repo start x \<Longrightarrow> replayed (tr @ [e]) repo start x"
  by (induction rule: replayed.induct) (auto intro: replayed.intros answered_snoc)

named_theorems lasting_rules

lemma lasting_True [lasting_rules]: "lasting (\<lambda>_. True)"
  by (simp add: lasting_def)

lemma lasting_conj [lasting_rules]: "lasting K \<Longrightarrow> lasting L \<Longrightarrow> lasting (\<lambda>tr. K tr \<and> L tr)"
  by (simp add: lasting_def)

lemma lasting_const [lasting_rules]: "lasting (\<lambda>_. b)"
  by (simp add: lasting_def)

lemma lasting_answered [lasting_rules]: "lasting (\<lambda>tr. answered tr repo args s)"
  by (simp add: lasting_def answered_snoc)

lemma lasting_some_answer [lasting_rules]: "lasting (\<lambda>tr. \<exists>s. answered tr repo args s)"
  unfolding lasting_def by (blast intro: answered_snoc)

lemma lasting_replayed [lasting_rules]: "lasting (\<lambda>tr. replayed tr repo start x)"
  by (simp add: lasting_def replayed_snoc)

section \<open>Rules\<close>

lemma okay_gives: "(\<And>tr. K tr \<Longrightarrow> R x tr) \<Longrightarrow> okay w g K (gives x) R"
  unfolding okay_def by (rule triple_gives) simp

lemma okay_bind: "okay w g K m R \<Longrightarrow> (\<And>x. okay w g (\<lambda>tr. K tr \<and> R x tr) (f x) Q) \<Longrightarrow> okay w g K (m \<bind> f) Q"
  unfolding okay_def by (erule triple_bind) (rule triple_weaken, assumption, auto)

lemma okay_weaken: "okay w g K m R \<Longrightarrow> (\<And>x tr. K tr \<Longrightarrow> R x tr \<Longrightarrow> Q x tr) \<Longrightarrow> okay w g K m Q"
  unfolding okay_def by (erule triple_weaken) auto

lemma okay_and_then:
  assumes "okay w g K m R" "\<And>e tr. K tr \<Longrightarrow> R (Inl e) tr \<Longrightarrow> Q (Inl e) tr"
    "\<And>x. okay w g (\<lambda>tr. K tr \<and> R (Inr x) tr) (f x) Q"
  shows "okay w g K (and_then m f) Q"
  unfolding and_then_def
  by (rule okay_bind [OF assms(1)]) (auto split: sum.split intro: okay_gives assms(2,3))

lemma okay_perform:
  assumes "lasting K" "\<And>tr r. K tr \<Longrightarrow> all_allowed w g tr \<Longrightarrow> allowed w g tr (Ev_run cmd r)"
  shows "okay w g K (perform w cmd) (\<lambda>r tr. Ev_run cmd r \<in> set tr)"
  unfolding okay_def
  by (rule triple_perform) (use assms in \<open>auto simp: lasting_def intro: all_allowed_snoc\<close>)

lemma safe_okay: "okay w g K m R \<Longrightarrow> safe w g K m"
  unfolding safe_def by (erule okay_weaken) simp

named_theorems safe_rules

lemma safe_gives [safe_rules]: "safe w g K (gives x)"
  unfolding safe_def by (rule okay_gives) simp

lemma safe_bind [safe_rules]: "safe w g K m \<Longrightarrow> (\<And>x. safe w g K (f x)) \<Longrightarrow> safe w g K (m \<bind> f)"
  unfolding safe_def by (erule okay_bind) simp

lemma safe_and_then [safe_rules]: "safe w g K m \<Longrightarrow> (\<And>x. safe w g K (f x)) \<Longrightarrow> safe w g K (and_then m f)"
  unfolding safe_def by (erule okay_and_then) simp_all

lemma safe_if [safe_rules]: "(b \<Longrightarrow> safe w g K m) \<Longrightarrow> (\<not> b \<Longrightarrow> safe w g K n) \<Longrightarrow> safe w g K (if b then m else n)"
  by simp

lemma safe_option [safe_rules]: "(x = None \<Longrightarrow> safe w g K m) \<Longrightarrow> (\<And>y. x = Some y \<Longrightarrow> safe w g K (f y))
    \<Longrightarrow> safe w g K (case x of None \<Rightarrow> m | Some y \<Rightarrow> f y)"
  by (simp split: option.split)

lemma safe_sum [safe_rules]: "(\<And>y. x = Inl y \<Longrightarrow> safe w g K (e y)) \<Longrightarrow> (\<And>y. x = Inr y \<Longrightarrow> safe w g K (f y))
    \<Longrightarrow> safe w g K (case x of Inl y \<Rightarrow> e y | Inr y \<Rightarrow> f y)"
  by (simp split: sum.split)

lemma safe_prod [safe_rules]: "(\<And>a b. x = (a, b) \<Longrightarrow> safe w g K (f a b)) \<Longrightarrow> safe w g K (case x of (a, b) \<Rightarrow> f a b)"
  by (simp split: prod.split)

lemma safe_all_ok [safe_rules]: "(\<And>x. x \<in> set xs \<Longrightarrow> safe w g K (f x)) \<Longrightarrow> safe w g K (all_ok f xs)"
  by (induction xs) (auto intro!: safe_rules)

lemma safe_perform: "lasting K \<Longrightarrow> (\<And>tr r. K tr \<Longrightarrow> allowed w g tr (Ev_run cmd r)) \<Longrightarrow> safe w g K (perform w cmd)"
  by (rule safe_okay, rule okay_perform) auto

section \<open>Queries and changes\<close>

lemma run_query: "lasting K \<Longrightarrow> queries args \<Longrightarrow>
    okay w g K (perform w (git_command repo env args b)) (\<lambda>r tr. Ev_run (git_command repo env args b) r \<in> set tr)"
  by (rule okay_perform) (auto intro: al_query)

lemma run_change: "lasting K \<Longrightarrow> \<not> go_dry_run g \<Longrightarrow> changes w g env args \<Longrightarrow>
    okay w g K (perform w (git_command repo env args b)) (\<lambda>r tr. Ev_run (git_command repo env args b) r \<in> set tr)"
  by (rule okay_perform) (auto intro: al_change)

text \<open>What a successful command leaves behind.\<close>

lemma okay_captured:
  assumes "\<And>env. okay w g K (perform w (git_command repo env args True)) (\<lambda>r tr. Ev_run (git_command repo env args True) r \<in> set tr)"
  shows "okay w g K (captured w g repo extra args) (\<lambda>x tr. \<forall>out. x = Inr out \<longrightarrow> answered tr repo args (trim_space out))"
proof -
  let ?env = "if extra \<noteq> [] \<or> go_proxy_url g \<noteq> [] then child_env w g extra else []"
  have c: "captured w g repo extra args = perform w (git_command repo ?env args True)
      \<bind> (\<lambda>r. gives (if ro_failed r then Inl (Git_failed args) else Inr (ro_stdout r)))"
    unfolding captured_def capture_with_env_def by (intro state_ext) (simp add: gives_def split: prod.split)
  show ?thesis
    unfolding c by (rule okay_bind, rule assms, rule okay_gives) (auto simp: answered_def)
qed

lemma okay_succeeds:
  assumes "\<And>env. okay w g K (perform w (git_command repo env args True)) (\<lambda>r tr. Ev_run (git_command repo env args True) r \<in> set tr)"
  shows "okay w g K (succeeds w g repo args) (\<lambda>x tr. x \<longrightarrow> (\<exists>s. answered tr repo args s))"
proof -
  let ?env = "if [] \<noteq> ([] :: string list) \<or> go_proxy_url g \<noteq> [] then child_env w g [] else []"
  have c: "succeeds w g repo args = perform w (git_command repo ?env args True) \<bind> (\<lambda>r. gives (\<not> ro_failed r))"
    unfolding succeeds_def capture_with_env_def by (intro state_ext) (simp add: gives_def split: prod.split)
  show ?thesis
    unfolding c by (rule okay_bind, rule assms, rule okay_gives) (auto simp: answered_def)
qed

lemma query_succeeds: "lasting K \<Longrightarrow> queries args \<Longrightarrow>
    okay w g K (succeeds w g repo args) (\<lambda>x tr. x \<longrightarrow> (\<exists>s. answered tr repo args s))"
  by (rule okay_succeeds) (rule run_query)

lemma query_captured: "lasting K \<Longrightarrow> queries args \<Longrightarrow>
    okay w g K (captured w g repo extra args) (\<lambda>x tr. \<forall>out. x = Inr out \<longrightarrow> answered tr repo args (trim_space out))"
  by (rule okay_captured) (rule run_query)

lemma change_captured: "lasting K \<Longrightarrow> \<not> go_dry_run g \<Longrightarrow> (\<And>env. changes w g env args) \<Longrightarrow>
    okay w g K (captured w g repo extra args) (\<lambda>x tr. \<forall>out. x = Inr out \<longrightarrow> answered tr repo args (trim_space out))"
  by (rule okay_captured) (rule run_change)

lemma safe_query_captured [safe_rules]: "lasting K \<Longrightarrow> queries args \<Longrightarrow> safe w g K (captured w g repo extra args)"
  by (rule safe_okay) (rule query_captured)

lemma safe_query_capture [safe_rules]: "lasting K \<Longrightarrow> queries args \<Longrightarrow> safe w g K (capture w g repo args)"
  unfolding capture_def by (rule safe_query_captured)

lemma safe_query_succeeds [safe_rules]: "lasting K \<Longrightarrow> queries args \<Longrightarrow> safe w g K (succeeds w g repo args)"
  by (rule safe_okay) (rule query_succeeds)

lemma safe_git_change [safe_rules]: "lasting K \<Longrightarrow> (\<And>env. changes w g env args) \<Longrightarrow> safe w g K (git w g repo args)"
  unfolding git_def by (intro safe_rules safe_okay [OF run_change]) auto

lemma queries_simps [simp]:
  "queries (''rev-parse'' # as)" "queries (''merge-base'' # as)" "queries (''for-each-ref'' # as)" "queries (''show-ref'' # as)"
  "queries (''status'' # as)" "queries (''log'' # as)" "queries (''rev-list'' # as)" "queries (''ls-remote'' # as)"
  "queries (''ls-files'' # as)" "queries (''show'' # as)" "queries [''remote'']" "queries (''remote'' # ''get-url'' # as)"
  "queries (ancestor_query a b)"
  by (simp_all add: queries_def ancestor_query_def)

lemma queries_safe [safe_rules]:
  assumes "lasting K"
  shows "safe w g K (rev_parse w g repo name)" "safe w g K (branch_tip w g repo branch)"
    "safe w g K (is_ancestor w g repo a d)" "safe w g K (remote_branch_exists w g repo ref)"
    "safe w g K (local_branches w g repo)" "safe w g K (remote_branches w g repo remote)"
    "safe w g K (local_branch_exists w g repo branch)" "safe w g K (remotes w g repo)"
    "safe w g K (remote_url w g repo remote)" "safe w g K (remote_push_url w g repo remote)"
    "safe w g K (current_branch w g repo)" "safe w g K (bare_repository w g repo)" "safe w g K (is_clean w g repo)"
    "safe w g K (commit_author_env w g repo commit)"
  unfolding rev_parse_def branch_tip_def is_ancestor_def remote_branch_exists_def local_branches_def remote_branches_def
    local_branch_exists_def remotes_def remote_url_def remote_push_url_def current_branch_def bare_repository_def is_clean_def
    commit_author_env_def
  by (intro safe_rules assms; simp add: safe_gives split: list.split)+

section \<open>Moving a branch\<close>

lemma okay_rev_parse:
  "lasting K \<Longrightarrow> okay w g K (rev_parse w g repo name)
     (\<lambda>x tr. \<forall>s. x = Inr s \<longrightarrow> answered tr repo [''rev-parse'', ''--verify'', name] s)"
  unfolding rev_parse_def capture_def
  by (rule okay_and_then, rule query_captured) (auto intro!: okay_gives)

lemma okay_if: "(b \<Longrightarrow> okay w g K m Q) \<Longrightarrow> (\<not> b \<Longrightarrow> okay w g K n Q) \<Longrightarrow> okay w g K (if b then m else n) Q"
  by simp

lemma okay_is_ancestor:
  assumes K: "lasting K"
  shows "okay w g K (is_ancestor w g repo a d) (\<lambda>x tr. x = Inr True \<longrightarrow> (\<exists>s. answered tr repo (ancestor_query a d) s))"
    (is "okay w g K _ ?Q")
proof -
  have L: "lasting (\<lambda>tr. K tr \<and> (x \<longrightarrow> (\<exists>s. answered tr repo (ancestor_query a d) s)))" for x
    using K by (cases x) (simp_all add: lasting_rules)
  show ?thesis
    unfolding is_ancestor_def
  proof (rule okay_bind [OF query_succeeds [OF K]], simp, rule okay_if)
    fix yes
    assume "\<not> yes"
    show "okay w g (\<lambda>tr. K tr \<and> (yes \<longrightarrow> (\<exists>s. answered tr repo (ancestor_query a d) s)))
      (do { aa \<leftarrow> succeeds w g repo [''rev-parse'', ''--verify'', a];
        if \<not> aa then gives (Inl (Git_failed (ancestor_query a d)))
        else do { da \<leftarrow> succeeds w g repo [''rev-parse'', ''--verify'', d];
          gives (if da then Inr False else Inl (Git_failed (ancestor_query a d))) } }) ?Q"
      by (rule okay_bind [where R = "\<lambda>_ _. True"], rule safe_query_succeeds [unfolded safe_def, OF L], simp,
        rule okay_if, rule okay_gives, simp, rule okay_bind [where R = "\<lambda>_ _. True"],
        rule safe_query_succeeds [unfolded safe_def], simp add: L, simp, rule okay_gives, simp)
  qed (rule okay_gives, simp)
qed

lemma safe_and_then_okay:
  "okay w g K m R \<Longrightarrow> (\<And>x. safe w g (\<lambda>tr. K tr \<and> R (Inr x) tr) (f x)) \<Longrightarrow> safe w g K (and_then m f)"
  unfolding safe_def by (erule okay_and_then) simp_all

lemma safe_move:
  assumes "lasting K" "\<And>tr. K tr \<Longrightarrow> move_justified (go_rebase g) tr repo branch sha"
  shows "safe w g K (git w g repo (update_ref branch sha))"
  unfolding git_def
proof (rule safe_if [OF safe_gives], rule safe_bind [OF _ safe_gives])
  assume "\<not> go_dry_run g"
  then show "safe w g K (perform w (git_command repo (child_env w g []) (update_ref branch sha) False))"
    by (intro safe_perform assms(1) al_move assms(2))
qed

lemma safe_merge_tree [safe_rules]:
  assumes "lasting K" "\<not> go_dry_run g"
  shows "safe w g K (merge_tree_write w g repo our their base)"
  unfolding merge_tree_write_def capture_with_env_def Let_def
  by (intro safe_rules) (rule safe_okay, rule run_change, rule assms, rule assms, rule ch_merge_tree)

lemma child_env_index: "env_value (child_env w g (index_env path)) ''GIT_INDEX_FILE'' = path"
proof -
  have "cut (CHR ''='') (''GIT_INDEX_FILE='' @ path) = (''GIT_INDEX_FILE'', path, True)"
    using cut_append [of "CHR ''=''" "''GIT_INDEX_FILE''" path] by simp
  then show ?thesis
    by (simp add: child_env_def index_env_def set_env_value)
qed

lemma safe_index [safe_rules]:
  assumes "lasting K" "\<not> go_dry_run g" "mc_temp_file w = Some path" "hd args \<in> {''read-tree'', ''rm'', ''write-tree''}"
  shows "safe w g K (captured w g repo (index_env path) args)"
proof -
  have "changes w g (child_env w g (index_env path)) args"
    by (rule ch_index [OF assms(3) child_env_index assms(4)])
  then have "safe w g K (perform w (git_command repo (child_env w g (index_env path)) args True))"
    by (intro safe_okay [OF run_change] assms(1,2))
  then show ?thesis
    unfolding captured_def capture_with_env_def by (intro safe_rules) (simp_all add: index_env_def)
qed

lemma safe_strip_paths [safe_rules]:
  assumes "lasting K" "\<not> go_dry_run g"
  shows "safe w g K (strip_paths_from_tree w g repo tree paths)"
  unfolding strip_paths_from_tree_def by (intro safe_rules assms) simp_all

lemma okay_commit_tree:
  assumes "lasting K" "\<not> go_dry_run g"
  shows "okay w g K (captured w g repo extra (commit_tree_args tree parents msg))
    (\<lambda>x tr. \<forall>out. x = Inr out \<longrightarrow> answered tr repo (commit_tree_args tree parents msg) (trim_space out))"
  by (rule change_captured [OF assms ch_commit_tree])

text \<open>The tips the tool read: of the branch and of its counterpart at the remote.\<close>

definition tips_read :: "trace \<Rightarrow> string \<Rightarrow> string \<Rightarrow> string \<Rightarrow> string \<Rightarrow> string \<Rightarrow> bool" where
  "tips_read tr repo branch remote our their \<longleftrightarrow> answered tr repo [''rev-parse'', ''--verify'', branch_ref branch] our
     \<and> answered tr repo [''rev-parse'', ''--verify'', remote @ ''/'' @ branch] their"

lemma lasting_tips [lasting_rules]: "lasting (\<lambda>tr. tips_read tr repo branch remote our their)"
  unfolding tips_read_def by (intro lasting_rules)

lemma justify:
  assumes "tips_read tr repo branch remote our their"
    "fast_forward tr repo our their sha \<or> merged tr repo our their sha \<or> rebase \<and> replayed tr repo their sha"
  shows "move_justified rebase tr repo branch sha"
  using assms unfolding move_justified_def tips_read_def by blast

lemma safe_ff:
  assumes "lasting K" "\<And>tr. K tr \<Longrightarrow> tips_read tr repo branch remote our their \<and> (\<exists>s. answered tr repo (ancestor_query our their) s)"
  shows "safe w g K (ff_update_branch w g repo branch their)"
  unfolding ff_update_branch_def
proof (rule safe_if [OF safe_gives], rule safe_move [OF assms(1)])
  fix tr
  assume "K tr"
  from assms(2) [OF this] show "move_justified (go_rebase g) tr repo branch their"
    by (intro justify [of tr repo branch remote our their]) (simp_all add: fast_forward_def)
qed

lemma safe_merge_update:
  assumes "lasting K" "\<And>tr. K tr \<Longrightarrow> tips_read tr repo branch remote our their"
  shows "safe w g K (merge_update_branch w g repo branch our their msg)"
proof -
  have commit: "safe w g K (and_then (capture w g repo (commit_tree_args tree [our, their] msg))
      (\<lambda>commit. git w g repo (update_ref branch (trim_space commit))))" if "\<not> go_dry_run g" for tree
    unfolding capture_def
  proof (rule safe_and_then_okay [OF okay_commit_tree [OF assms(1) that]])
    fix out
    show "safe w g (\<lambda>tr. K tr \<and> (\<forall>out'. Inr out = Inr out' \<longrightarrow>
        answered tr repo (commit_tree_args tree [our, their] msg) (trim_space out'))) (git w g repo (update_ref branch (trim_space out)))"
      by (rule safe_move, simp add: lasting_rules assms(1), rule justify [OF assms(2)], simp) (auto simp: merged_def)
  qed
  show ?thesis
    unfolding merge_update_branch_def
    by (intro safe_rules assms(1) commit) (simp_all add: safe_gives safe_strip_paths assms(1) split: option.split)
qed

lemma safe_author [safe_rules]: "lasting K \<Longrightarrow> safe w g K (commit_author_env w g repo commit)"
  by (rule queries_safe)

lemma okay_after_safe:
  assumes "safe w g K m" "\<And>e tr. Q (Inl e) tr" "\<And>x. okay w g K (f x) Q"
  shows "okay w g K (and_then m f) Q"
  by (rule okay_and_then [OF assms(1) [unfolded safe_def]]) (simp_all add: assms(2,3))

lemma okay_replay_commit:
  assumes K: "lasting K" and live: "\<not> go_dry_run g" and r: "\<And>tr. K tr \<Longrightarrow> replayed tr repo start onto"
  shows "okay w g K (replay_commit w g repo onto commit) (\<lambda>x tr. \<forall>new. x = Inr new \<longrightarrow> replayed tr repo start new)"
    (is "okay w g K _ ?Q")
proof -
  have commit: "okay w g K (and_then (captured w g repo author (commit_tree_args tree [onto] msg)) (\<lambda>out. gives (Inr (trim_space out)))) ?Q"
    for author tree msg
    by (rule okay_and_then [OF okay_commit_tree [OF K live]]) (auto intro!: okay_gives intro: replayed_commit r)
  have left: "?Q (Inl e) tr" for e tr
    by simp
  show ?thesis
    unfolding replay_commit_def
    by (rule okay_after_safe, rule queries_safe(1) [OF K], rule left, rule okay_after_safe, rule safe_merge_tree [OF K live], rule left)
      (auto intro!: okay_gives okay_after_safe safe_query_capture [OF K] safe_author [OF K] commit split: prod.split)
qed

lemma okay_replay:
  "lasting K \<Longrightarrow> \<not> go_dry_run g \<Longrightarrow> (\<And>tr. K tr \<Longrightarrow> replayed tr repo start onto)
    \<Longrightarrow> okay w g K (replay w g repo onto commits) (\<lambda>x tr. \<forall>new. x = Inr new \<longrightarrow> replayed tr repo start new)"
proof (induction commits arbitrary: K onto)
  case Nil
  then show ?case
    by (auto intro: okay_gives)
next
  case (Cons c cs)
  show ?case
    unfolding replay.simps
  proof (rule okay_and_then [OF okay_replay_commit [OF Cons.prems]])
    fix x
    have "okay w g (\<lambda>tr. K tr \<and> replayed tr repo start x) (replay w g repo x cs)
        (\<lambda>x tr. \<forall>new. x = Inr new \<longrightarrow> replayed tr repo start new)"
      using Cons.prems(1,2) by (intro Cons.IH lasting_rules) auto
    then show "okay w g (\<lambda>tr. K tr \<and> (\<forall>new. Inr x = Inr new \<longrightarrow> replayed tr repo start new)) (replay w g repo x cs)
        (\<lambda>x tr. \<forall>new. x = Inr new \<longrightarrow> replayed tr repo start new)"
      by simp
  qed simp_all
qed

lemma safe_rebase_update:
  assumes "lasting K" "go_rebase g" "\<And>tr. K tr \<Longrightarrow> tips_read tr repo branch remote our their"
  shows "safe w g K (rebase_update_branch w g repo branch our their)"
proof -
  have replays: "safe w g K (and_then (replay w g repo their commits) (\<lambda>onto. git w g repo (update_ref branch onto)))"
    if "\<not> go_dry_run g" for commits
  proof (rule safe_and_then_okay [OF okay_replay [where start = their]])
    fix onto
    show "safe w g (\<lambda>tr. K tr \<and> (\<forall>new. Inr onto = Inr new \<longrightarrow> replayed tr repo their new)) (git w g repo (update_ref branch onto))"
      by (rule safe_move, simp add: lasting_rules assms(1), rule justify [OF assms(3)], simp) (simp add: assms(2))
  qed (simp_all add: assms(1) that replayed_start)
  show ?thesis
    unfolding rebase_update_branch_def by (intro safe_rules assms(1) replays) simp_all
qed

lemma safe_advance:
  assumes "lasting K" "rebase \<Longrightarrow> go_rebase g" "\<And>tr. K tr \<Longrightarrow> tips_read tr repo branch remote our their"
    "\<And>tr. K tr \<Longrightarrow> ahead \<Longrightarrow> \<exists>s. answered tr repo (ancestor_query our their) s"
  shows "safe w g K (advance_branch w g repo branch remote our their allow rebase ahead)"
  unfolding advance_branch_def
  by (intro safe_if safe_gives safe_and_then safe_ff [OF assms(1)] safe_rebase_update [OF assms(1)] safe_merge_update [OF assms(1)])
    (use assms in blast)+

lemma rev_parse_then:
  assumes "lasting K" "\<And>s. safe w g (\<lambda>tr. K tr \<and> answered tr repo [''rev-parse'', ''--verify'', name] s) (f s)"
  shows "safe w g K (and_then (rev_parse w g repo name) f)"
  by (rule safe_and_then_okay [OF okay_rev_parse [OF assms(1)]]) (simp add: assms(2))

lemma is_ancestor_then:
  assumes "lasting K" "\<And>yes. safe w g (\<lambda>tr. K tr \<and> (yes \<longrightarrow> (\<exists>s. answered tr repo (ancestor_query a d) s))) (f yes)"
  shows "safe w g K (and_then (is_ancestor w g repo a d) f)"
  by (rule safe_and_then_okay [OF okay_is_ancestor [OF assms(1)]]) (use assms(2) in simp)

lemma lasting_if [lasting_rules]: "lasting L \<Longrightarrow> lasting (\<lambda>tr. b \<longrightarrow> L tr)"
  by (simp add: lasting_def)

text \<open>A branch that the tool brings up to date is only moved with a justification.\<close>

lemma safe_update_branch:
  assumes K: "lasting K" and rb: "rebase \<Longrightarrow> go_rebase g"
  shows "safe w g K (update_branch_from_remote w g repo branch (remote @ ''/'' @ branch) remote allow rebase)"
  unfolding update_branch_from_remote_def branch_tip_def
proof (rule rev_parse_then [OF K], rule rev_parse_then, rule lasting_conj [OF K lasting_answered])
  fix our their
  let ?K = "\<lambda>tr. (K tr \<and> answered tr repo [''rev-parse'', ''--verify'', branch_ref branch] our)
    \<and> answered tr repo [''rev-parse'', ''--verify'', remote @ ''/'' @ branch] their"
  have L: "lasting ?K"
    by (intro lasting_rules K)
  have adv: "safe w g (\<lambda>tr. ?K tr \<and> (ahead \<longrightarrow> (\<exists>s. answered tr repo (ancestor_query our their) s)))
      (advance_branch w g repo branch remote our their allow rebase ahead)" for ahead
    by (rule safe_advance [OF _ rb]) (intro lasting_rules K, auto simp: tips_read_def)
  show "safe w g ?K (if our = their then gives (Inr False)
       else and_then (is_ancestor w g repo their our) (\<lambda>behind.
         if behind then gives (Inr False)
         else and_then (is_ancestor w g repo our their)
           (advance_branch w g repo branch remote our their allow rebase)))"
    by (intro safe_if safe_gives safe_and_then queries_safe(3) L is_ancestor_then [OF L] adv)
qed

section \<open>The conflict restore\<close>

lemma repo_command_git: "repo_command ''git'' repo args b = git_command repo [] args b"
  by (simp add: repo_command_def git_command_def)

lemma run_output_allowed:
  "all_allowed w g tr \<Longrightarrow> queries args \<Longrightarrow> all_allowed w g (snd (run_output ops ''git'' repo args tr))"
  by (simp add: run_output_def run_command_def Let_def repo_command_git all_allowed_snoc al_query)

lemma restore_reads_allowed:
  assumes "all_allowed w g tr"
  shows "all_allowed w g (snd (Restore.is_bare ops ''git'' repo tr))" "all_allowed w g (snd (list_files ops ''git'' repo tr))"
    "all_allowed w g (snd (list_refs ops ''git'' repo pfx tr))" "all_allowed w g (snd (file_at_ref ops ''git'' repo ref path tr))"
    "all_allowed w g (snd (ops_read_file ops path tr))"
  by (simp_all add: Restore.is_bare_def list_files_def list_refs_def file_at_ref_def ops_read_file_def Let_def run_output_allowed
    all_allowed_snoc al_read assms split: prod.split) (metis run_output_allowed [OF assms] queries_simps snd_conv)+

lemma find_clean_ref_allowed: "all_allowed w g tr \<Longrightarrow> all_allowed w g (snd (find_clean_ref ops ''git'' repo path refs tr))"
proof (induction refs arbitrary: tr)
  case (Cons ref refs)
  obtain data tr' where d: "file_at_ref ops ''git'' repo ref path tr = (data, tr')"
    by (rule prod.exhaust)
  then have "all_allowed w g tr'"
    using restore_reads_allowed(4) [OF Cons.prems, of ops repo ref path] by simp
  with Cons.IH show ?case
    by (simp add: d)
qed simp

lemma find_conflicts_allowed: "all_allowed w g tr \<Longrightarrow> all_allowed w g (snd (find_conflicts ops ''git'' repo refs files tr))"
proof (induction files arbitrary: tr)
  case (Cons path files)
  obtain data tr' where d: "ops_read_file ops (path_join [repo, path]) tr = (data, tr')"
    by (rule prod.exhaust)
  then have 1: "all_allowed w g tr'"
    using restore_reads_allowed(5) [OF Cons.prems, of ops "path_join [repo, path]"] by simp
  obtain ref tr'' where r: "find_clean_ref ops ''git'' repo path refs tr' = (ref, tr'')"
    by (rule prod.exhaust)
  then have "all_allowed w g tr''"
    using find_clean_ref_allowed [OF 1, of ops repo path refs] by simp
  with 1 Cons.IH show ?case
    by (simp add: d r split: prod.split) (metis snd_conv)
qed simp

lemma restore_one_allowed:
  "all_allowed w g tr \<Longrightarrow> all_allowed w g (snd (restore_one ops ''git'' repo (go_dry_run g) path ref tr))"
  using all_allowed_snoc [OF all_allowed_snoc [OF _ al_change [OF _ ch_restore]] al_note]
  by (simp add: restore_one_def checkout_file_def checkout_command_def repo_command_git run_command_def Let_def say_def
    all_allowed_snoc al_note al_change ch_restore)

lemma restore_all_allowed: "all_allowed w g tr \<Longrightarrow> all_allowed w g (snd (restore_all ops ''git'' repo (go_dry_run g) jobs tr))"
proof (induction jobs arbitrary: tr)
  case (Cons job jobs)
  obtain path ref where job: "job = (path, ref)"
    by (rule prod.exhaust)
  obtain e tr' where d: "restore_one ops ''git'' repo (go_dry_run g) path ref tr = (e, tr')"
    by (rule prod.exhaust)
  then have "all_allowed w g tr'"
    using restore_one_allowed [OF Cons.prems, of ops repo path ref] by simp
  with Cons.IH [of tr'] show ?case
    by (simp add: job d case_prod_beta)
qed simp

lemma restore_allowed:
  assumes "all_allowed w g tr"
  shows "all_allowed w g (snd (restore ops \<lparr>opt_git = ''git'', opt_prefix = pfx, opt_dry_run = go_dry_run g\<rparr> repo tr))"
proof -
  define pfx' where "pfx' = (if pfx = [] then default_snapshot_prefix else pfx)"
  obtain bare t1 where b: "Restore.is_bare ops ''git'' repo tr = (bare, t1)"
    by (rule prod.exhaust)
  have 1: "all_allowed w g t1"
    using restore_reads_allowed(1) [OF assms, of ops repo] by (simp add: b)
  obtain files t2 where f: "list_files ops ''git'' repo t1 = (files, t2)"
    by (rule prod.exhaust)
  have 2: "all_allowed w g t2"
    using restore_reads_allowed(2) [OF 1, of ops repo] by (simp add: f)
  obtain refs t3 where r: "list_refs ops ''git'' repo pfx' t2 = (refs, t3)"
    by (rule prod.exhaust)
  have 3: "all_allowed w g t3"
    using restore_reads_allowed(3) [OF 2, of ops repo pfx'] by (simp add: r)
  have "all_allowed w g (snd (restore_all ops ''git'' repo (go_dry_run g)
      (fst (find_conflicts ops ''git'' repo rs fs t3)) (snd (find_conflicts ops ''git'' repo rs fs t3))))" for rs fs
    by (intro restore_all_allowed find_conflicts_allowed 3)
  with 1 2 3 show ?thesis
    unfolding restore_def Let_def restore_options.simps list.distinct if_False pfx'_def [symmetric] b f r prod.case
    by (cases bare; cases files; cases refs) (simp_all add: b f r case_prod_beta)
qed

section \<open>All operations\<close>

lemma safe_strip_first [safe_rules]:
  assumes "lasting K"
  shows "safe w g K (is_git_repo w path)" "safe w g K (resolve_local_remote w repo url)"
proof -
  show *: "safe w g K (is_git_repo w path)" for path
    unfolding is_git_repo_def by (intro safe_rules safe_okay [OF run_query] assms) simp
  show "safe w g K (resolve_local_remote w repo url)"
    unfolding resolve_local_remote_def by (intro safe_rules *)
qed

lemma safe_local_remotes [safe_rules]: "lasting K \<Longrightarrow> safe w g K (local_remotes w g repo rs)"
  by (induction rs) (auto intro!: safe_rules)

lemma safe_sync [safe_rules]: "lasting K \<Longrightarrow> safe w g K (sync_remote w g repo remote branch is_local)"
  unfolding sync_remote_def Let_def by (intro safe_rules safe_update_branch) simp_all

lemma safe_gh_list:
  assumes "lasting K" "\<not> go_dry_run g" "Merge_pr \<le> go_merge_mode g"
  shows "safe w g K (open_prs_from w repo slug base)"
  unfolding open_prs_from_def gh_json_def
  by (intro safe_rules safe_perform assms(1) al_gh_list assms)

lemma safe_first_ancestor:
  assumes "lasting K" "Merge_pr \<le> go_merge_mode g"
  shows "safe w g K (first_ancestor w g repo push_url branch cs)"
  by (induction cs) (auto intro!: safe_rules simp: is_ancestor_of_branch_def assms ch_fetch_tip)

lemma safe_fallback:
  assumes "lasting K" "\<not> go_dry_run g" "Merge_pr \<le> go_merge_mode g"
  shows "safe w g K (fallback_create_pr w g repo remote branch)"
  unfolding fallback_create_pr_def remote_branch_numbers_def gh_def Let_def
  by (intro safe_rules safe_gh_list safe_first_ancestor safe_perform al_gh_create assms ch_push_pr) simp_all

lemma safe_checkout [safe_rules]: "lasting K \<Longrightarrow> safe w g K (checkout_head w g repo)"
  unfolding checkout_head_def by (intro safe_rules ch_checkout)

lemma safe_maybe_checkout [safe_rules]: "lasting K \<Longrightarrow> safe w g K (maybe_checkout_head w g repo branch)"
  unfolding maybe_checkout_head_def by (intro safe_rules)

lemma safe_maybe_commit [safe_rules]: "lasting K \<Longrightarrow> safe w g K (maybe_commit w g repo)"
  unfolding maybe_commit_def by (intro safe_rules ch_add ch_commit) simp_all

lemma safe_restore [safe_rules]: "safe w g (\<lambda>_. True) (restore_conflicted w g repo)"
  unfolding restore_conflicted_def safe_def okay_def triple_def by (simp add: restore_allowed)

lemma safe_ensure_pushable [safe_rules]: "lasting K \<Longrightarrow> safe w g K (ensure_pushable w g target)"
  unfolding ensure_pushable_def by (intro safe_rules safe_okay [OF run_change] ch_pushable) simp_all

lemma safe_for_branches [safe_rules]:
  "lasting K \<Longrightarrow> (\<And>b. safe w g K (f b)) \<Longrightarrow> safe w g K (for_each_local_branch w g repo f)"
  unfolding for_each_local_branch_def by (intro safe_rules)

lemma dry_git: "go_dry_run g \<Longrightarrow> git w g repo args = gives (Inr ())"
  by (simp add: git_def)

lemma safe_push_branch [safe_rules]:
  assumes "lasting K"
  shows "safe w g K (push_branch w g repo remote is_local do_sync branch)"
proof -
  have p: "safe w g K (do { r \<leftarrow> git w g repo (push_args remote branch branch);
      if r = Inr () then gives True
      else if \<not> is_local \<and> Merge_pr \<le> go_merge_mode g then do { f \<leftarrow> fallback_create_pr w g repo remote branch; gives (f = Inr ()) }
      else gives False })"
  proof (cases "go_dry_run g")
    case True
    then show ?thesis
      by (simp add: dry_git gives_def) (simp add: safe_gives [unfolded gives_def])
  next
    case False
    then show ?thesis
      by (intro safe_rules safe_fallback assms ch_push) auto
  qed
  show ?thesis
    unfolding push_branch_def
    by (rule safe_bind, intro safe_rules assms, rule safe_sum, rule safe_gives, rule safe_bind, intro safe_rules assms, rule p)
qed

lemma safe_sync_and_push [safe_rules]:
  assumes "lasting K"
  shows "safe w g K (sync_and_push_remote w g repo remote is_local)" "safe w g K (sync_and_push_one w g repo r)"
    "safe w g K (sync_and_push_repo w g repo tidy rms)"
proof -
  show *: "safe w g K (sync_and_push_remote w g repo remote is_local)" for remote is_local
    unfolding sync_and_push_remote_def by (intro safe_rules assms ch_fetch ch_tags) simp_all
  show **: "safe w g K (sync_and_push_one w g repo r)" for r
    unfolding sync_and_push_one_def by (intro safe_rules assms *)
  show "safe w g K (sync_and_push_repo w g repo tidy rms)"
    unfolding sync_and_push_repo_def by (intro safe_rules **)
qed

lemma safe_track [safe_rules]:
  assumes "lasting K"
  shows "safe w g K (track_branch w g repo remote b)" "safe w g K (track_branches w g repo remote bs)"
    "safe w g K (create_tracking_branches w g repo remote)"
proof -
  show *: "safe w g K (track_branch w g repo remote b)" for b
    unfolding track_branch_def by (intro safe_rules assms ch_track)
  show **: "safe w g K (track_branches w g repo remote bs)" for bs
    by (induction bs) (auto intro!: safe_rules *)
  show "safe w g K (create_tracking_branches w g repo remote)"
    unfolding create_tracking_branches_def by (intro safe_rules assms **)
qed

lemma safe_pull [safe_rules]:
  assumes "lasting K"
  shows "safe w g K (pull_branch w g repo r b)" "safe w g K (pull_one w g repo r)" "safe w g K (pull_repo w g repo tidy rms)"
proof -
  show *: "safe w g K (pull_branch w g repo r b)" for r b
    unfolding pull_branch_def by (intro safe_rules safe_update_branch assms)
  show **: "safe w g K (pull_one w g repo r)" for r
    unfolding pull_one_def by (intro safe_rules assms ch_fetch *)
  show "safe w g K (pull_repo w g repo tidy rms)"
    unfolding pull_repo_def by (intro safe_rules **)
qed

text \<open>The recursion changes only the action and \<^verbatim>\<open>skipPullFirst\<close>, on which nothing allowed depends.\<close>

definition same_limits :: "gitall_opts \<Rightarrow> gitall_opts \<Rightarrow> bool" where
  "same_limits g g' \<longleftrightarrow> go_all g' = go_all g \<and> go_rebase g' = go_rebase g \<and> go_commit_msg g' = go_commit_msg g
     \<and> go_dry_run g' = go_dry_run g \<and> go_merge_mode g' = go_merge_mode g"

lemma changes_cong:
  assumes "changes w g env args" "go_merge_mode g' = go_merge_mode g" "go_all g' = go_all g" "go_commit_msg g' = go_commit_msg g"
  shows "changes w g' env args"
  using assms(1) by (cases rule: changes.cases) (metis assms(2-4) changes.intros)+

lemma allowed_cong:
  assumes "allowed w g tr e" "go_dry_run g' = go_dry_run g" "go_rebase g' = go_rebase g" "go_merge_mode g' = go_merge_mode g"
    "go_all g' = go_all g" "go_commit_msg g' = go_commit_msg g"
  shows "allowed w g' tr e"
  using assms(1)
proof (cases rule: allowed.cases)
  case (al_change env args repo b r)
  then show ?thesis
    using changes_cong [OF al_change(3) assms(4-6)] by (simp add: allowed.al_change assms(2))
qed (metis assms(2-4) allowed.intros)+

lemma same_limits_allowed:
  assumes "same_limits g g'"
  shows "all_allowed w g' = all_allowed w g"
proof -
  have "allowed w g' tr e = allowed w g tr e" for tr e
    using assms by (intro iffI; elim allowed_cong) (simp_all add: same_limits_def)
  then show ?thesis
    by (intro ext) (simp add: all_allowed_def)
qed

lemma same_limits_refl [simp]: "same_limits g g"
  by (simp add: same_limits_def)

lemma same_limits_step [simp]:
  "same_limits g g' \<Longrightarrow> same_limits g (with_action a g')" "same_limits g g' \<Longrightarrow> same_limits g (with_skip_pull_first s g')"
  by (auto simp: same_limits_def with_action_def with_skip_pull_first_def)

lemma safe_limits: "same_limits g g' \<Longrightarrow> safe w g' (\<lambda>_. True) m = safe w g (\<lambda>_. True) m"
  by (simp add: safe_def okay_def same_limits_allowed)

text \<open>An operation that keeps to the limits of \<open>g\<close>, whatever action it is asked for.\<close>

definition limited :: "machine \<Rightarrow> gitall_opts \<Rightarrow> operation \<Rightarrow> bool" where
  "limited w g rec \<longleftrightarrow> (\<forall>g' repo stack. same_limits g g' \<longrightarrow> safe w g (\<lambda>_. True) (rec g' repo stack))"

lemma safe_operate_all:
  "limited w g rec \<Longrightarrow> same_limits g g' \<Longrightarrow> safe w g (\<lambda>_. True) (operate_all rec g' repos stack)"
  by (induction repos) (auto intro!: safe_rules simp: limited_def)

lemma safe_operate_locked:
  assumes l: "limited w g rec" and g': "same_limits g g'"
  shows "safe w g (\<lambda>_. True) (operate_locked w rec g' repo rp stack)"
proof -
  have all: "safe w g' (\<lambda>_. True) (operate_all rec h repos st)" if "same_limits g h" for h repos st
    using safe_operate_all [OF l that] by (simp add: safe_limits [OF g'])
  have "safe w g' (\<lambda>_. True) (operate_push w rec g' repo c rs ls st)" for c rs ls st
    unfolding operate_push_def by (intro safe_rules all lasting_True) (simp_all add: g')
  moreover have "safe w g' (\<lambda>_. True) (operate_pull w rec g' repo c rs ls st)" for c rs ls st
    unfolding operate_pull_def by (intro safe_rules all lasting_True) (simp_all add: g')
  ultimately have "safe w g' (\<lambda>_. True) (operate_locked w rec g' repo rp stack)"
    unfolding operate_locked_def by (intro safe_rules lasting_True)
  then show ?thesis
    by (simp add: safe_limits [OF g'])
qed

lemma operate_limited: "limited w g (operate n w)"
proof (induction n)
  case 0
  show ?case
    by (simp add: limited_def safe_gives)
next
  case (Suc n)
  show ?case
    unfolding limited_def operate.simps Let_def by (intro allI impI safe_if safe_gives safe_operate_locked Suc)
qed

lemma operate_roots_safe: "safe w g (\<lambda>_. True) (operate_roots n w g repos)"
proof (induction repos)
  case (Cons r rs)
  have "safe w g (\<lambda>_. True) (operate n w g r [])"
    using operate_limited [of w g n] by (simp add: limited_def)
  with Cons show ?case
    by (auto intro!: safe_rules)
qed (simp add: safe_gives)

lemma safe_run: "safe w g (\<lambda>_. True) m \<Longrightarrow> all_allowed w g (snd (run_state m []))"
  unfolding safe_def okay_def triple_def by simp

text \<open>The trace of a run of the command line, and the options it runs with.\<close>

definition run_options :: "string option \<Rightarrow> gitall_opts \<times> string \<times> string list \<times> bool \<Rightarrow> gitall_opts" where
  "run_options proxy parsed = (case parsed of (g, _, _, wants_proxy) \<Rightarrow>
     if wants_proxy then g\<lparr>go_proxy_url := the proxy\<rparr> else g)"

lemma gitall_main_allowed:
  assumes "gitall_options dur tenv args = Inr parsed"
  shows "all_allowed w (run_options proxy parsed) (snd (run_state (gitall_main n w tree dur tenv proxy args) []))"
proof -
  obtain g mode bases px where parsed: "parsed = (g, mode, bases, px)"
    by (metis prod.exhaust)
  let ?g = "run_options proxy parsed"
  have g: "(if px then g\<lparr>go_proxy_url := the proxy\<rparr> else g) = ?g"
    by (simp add: run_options_def parsed)
  have "safe w ?g (\<lambda>_. True) (gitall_main n w tree dur tenv proxy args)"
    unfolding gitall_main_def assms parsed sum.case prod.case g
    by (intro safe_if safe_gives safe_option safe_bind) (rule operate_roots_safe)
  then show ?thesis
    by (rule safe_run)
qed

section \<open>Reading the limits off a run\<close>

lemma git_command_inj: "git_command repo env args b = git_command repo' env' args' b' \<longleftrightarrow> repo = repo' \<and> env = env' \<and> args = args' \<and> b = b'"
  by (auto simp: git_command_def)

lemma git_not_gh: "git_command repo env args b \<noteq> gh_command dir args' b'"
  by (simp add: git_command_def gh_command_def)

lemma allowed_update_ref:
  assumes "allowed w g tr (Ev_run (git_command repo env (update_ref branch sha) b) r)"
  shows "\<not> go_dry_run g \<and> move_justified (go_rebase g) tr repo branch sha"
  using assms
proof (cases rule: allowed.cases)
  case (al_query args repo' env' b')
  then have "queries (update_ref branch sha)"
    by (auto simp: git_command_inj)
  then show ?thesis
    by (simp add: queries_def update_ref_def)
next
  case (al_change env' args repo' b')
  then have "changes w g env (update_ref branch sha)"
    by (auto simp: git_command_inj)
  then have False
    by (cases rule: changes.cases) (simp_all add: update_ref_def push_args_def merge_tree_args_def commit_tree_args_def)
  then show ?thesis ..
qed (auto simp: git_command_inj git_not_gh update_ref_def branch_ref_def)

lemma allowed_push:
  assumes "allowed w g tr (Ev_run (git_command repo env (''push'' # args) b) r)"
  shows "\<not> go_dry_run g \<and> ((\<exists>remote. args = [remote, ''--tags'']) \<and> go_all g
    \<or> (\<exists>remote branch. args = [remote, branch @ '':'' @ branch_ref branch])
    \<or> (\<exists>remote branch head. args = [remote, branch_ref branch @ '':'' @ branch_ref head]) \<and> Merge_pr \<le> go_merge_mode g)"
  using assms
proof (cases rule: allowed.cases)
  case (al_query args' repo' env' b')
  then have "queries (''push'' # args)"
    by (auto simp: git_command_inj)
  then show ?thesis
    by (simp add: queries_def)
next
  case (al_change env' args' repo' b')
  then have "changes w g env (''push'' # args)" and "\<not> go_dry_run g"
    by (auto simp: git_command_inj)
  then show ?thesis
    by (cases rule: changes.cases) (auto simp: push_args_def merge_tree_args_def commit_tree_args_def branch_ref_def)
qed (auto simp: git_command_inj git_not_gh update_ref_def)

lemma allowed_dry:
  assumes "allowed w g tr (Ev_run cmd r)" "go_dry_run g"
  shows "\<exists>repo env args b. cmd = git_command repo env args b \<and> queries args"
  using assms(1) by (cases rule: allowed.cases) (use assms(2) in auto)

lemma run_event:
  assumes "gitall_options dur tenv args = Inr parsed"
    "snd (run_state (gitall_main n w tree dur tenv proxy args) []) = pre @ e # post"
  shows "allowed w (run_options proxy parsed) pre e"
  using gitall_main_allowed [OF assms(1), of w proxy n tree] assms(2) by (simp add: all_allowed_def)

lemma run_options_fields:
  "go_dry_run (run_options proxy parsed) = go_dry_run (fst parsed)" "go_rebase (run_options proxy parsed) = go_rebase (fst parsed)"
  "go_all (run_options proxy parsed) = go_all (fst parsed)" "go_merge_mode (run_options proxy parsed) = go_merge_mode (fst parsed)"
  by (simp_all add: run_options_def split: prod.split)

text \<open>A machine with one clean repository whose branch \<^verbatim>\<open>m\<close> is behind a network remote.\<close>

definition scripted_ops :: "(string list \<times> string) list \<Rightarrow> operations" where
  "scripted_ops script = \<lparr>op_run = (\<lambda>_ cmd. case map_of script (drop 1 (cmd_args cmd)) of
       None \<Rightarrow> \<lparr>ro_exit = 1, ro_failed = True, ro_stdout = []\<rparr>
     | Some out \<Rightarrow> \<lparr>ro_exit = 0, ro_failed = False, ro_stdout = out\<rparr>),
     op_read = (\<lambda>_ _. None), op_confirm = (\<lambda>_ _. False)\<rparr>"

definition scripted_machine :: "(string list \<times> string) list \<Rightarrow> machine" where
  "scripted_machine script = \<lparr>mc_ops = scripted_ops script, mc_environ = [], mc_cwd = None, mc_home = None, mc_links = Some,
     mc_git_entry = (\<lambda>p. p = ''/r'' \<or> p = ''/m''), mc_temp_file = None, mc_decode_prs = (\<lambda>_. None), mc_snapshot_prefix = []\<rparr>"

definition behind_script :: "(string list \<times> string) list" where
  "behind_script = map (apfst (Cons ''/r''))
    [([''remote''], ''o''), ([''rev-parse'', ''--is-bare-repository''], ''false''),
     ([''ls-files'', ''-z'', ''--cached'', ''--others'', ''--exclude-standard''], []),
     ([''remote'', ''get-url'', ''o''], ''https://h/x''), ([''status'', ''--porcelain''], []), ([''fetch'', ''o''], []),
     ([''for-each-ref'', ''--format=%(refname:strip=3)'', ''refs/remotes/o''], ''m''),
     ([''show-ref'', ''--verify'', ''--quiet'', ''refs/heads/m''], []),
     ([''for-each-ref'', ''--format=%(refname:short)'', ''refs/heads''], ''m''),
     ([''rev-parse'', ''--verify'', ''o/m''], ''T''), ([''rev-parse'', ''--verify'', ''refs/heads/m''], ''A''),
     ([''rev-parse'', ''--verify'', ''T''], ''T''), ([''rev-parse'', ''--verify'', ''A''], ''A''),
     ([''merge-base'', ''--is-ancestor'', ''A'', ''T''], []), ([''update-ref'', ''refs/heads/m'', ''T''], []),
     ([''push'', ''o'', ''m:refs/heads/m''], [])]"

definition sample_tree_r :: file_tree where
  "sample_tree_r p = (if p = ''/r'' then Some (Dir (Some [])) else None)"

definition sample_run :: "string list \<Rightarrow> trace" where
  "sample_run args = snd (run_state (gitall_main 2 (scripted_machine behind_script) sample_tree_r (\<lambda>_. True) [] None args) [])"

lemma sample_pull_options: "gitall_options (\<lambda>_. True) [] [''pull'', ''/r''] = Inr (\<lparr>go_action = Pull_all, go_all = False,
    go_rebase = False, go_commit_msg = [], go_dry_run = False, go_merge_mode = Merge_none, go_skip_pull_first = False,
    go_proxy_url = []\<rparr>, ''any'', [''/r''], False)"
  by code_simp

section \<open>A mirror with uncommitted changes\<close>

text \<open>
  \<^verbatim>\<open>gitall push\<close> in \<^verbatim>\<open>/r\<close>, whose only remote is the local repository \<^verbatim>\<open>/m\<close>: the run is told that \<^verbatim>\<open>/m\<close> has
  uncommitted changes, skips its own pull and push for that reason, and still runs
  \<^verbatim>\<open>git checkout -f HEAD\<close> there, since the push of a branch into \<^verbatim>\<open>/m\<close> succeeded.
\<close>

definition dirty_mirror_script :: "(string list \<times> string) list" where
  "dirty_mirror_script =
    [([''/r'', ''remote''], ''o''), ([''/r'', ''rev-parse'', ''--is-bare-repository''], ''false''),
     ([''/r'', ''ls-files'', ''-z'', ''--cached'', ''--others'', ''--exclude-standard''], []),
     ([''/r'', ''remote'', ''get-url'', ''o''], ''/m''), ([''/r'', ''status'', ''--porcelain''], []), ([''/r'', ''fetch'', ''o''], []),
     ([''/r'', ''for-each-ref'', ''--format=%(refname:short)'', ''refs/heads''], ''b''),
     ([''/r'', ''push'', ''o'', ''b:refs/heads/b''], []),
     ([''/m'', ''remote''], []), ([''/m'', ''rev-parse'', ''--is-bare-repository''], ''false''),
     ([''/m'', ''ls-files'', ''-z'', ''--cached'', ''--others'', ''--exclude-standard''], []),
     ([''/m'', ''status'', ''--porcelain''], '' M notes''),
     ([''/m'', ''config'', ''receive.denyCurrentBranch'', ''updateInstead''], []), ([''/m'', ''checkout'', ''-f'', ''HEAD''], [])]"

definition dirty_mirror_run :: trace where
  "dirty_mirror_run = snd (run_state (gitall_main 3 (scripted_machine dirty_mirror_script) sample_tree_r (\<lambda>_. True) [] None
     [''push'', ''/r'']) [])"

lemma dirty_mirror_discarded:
  "Ev_run (git_command ''/m'' [] [''status'', ''--porcelain''] True) \<lparr>ro_exit = 0, ro_failed = False, ro_stdout = '' M notes''\<rparr> \<in> set dirty_mirror_run
   \<and> Ev_run (git_command ''/m'' [] [''checkout'', ''-f'', ''HEAD''] False) \<lparr>ro_exit = 0, ro_failed = False, ro_stdout = []\<rparr> \<in> set dirty_mirror_run"
  by code_simp

section \<open>Properties\<close>

text \<open>C20: \<^verbatim>\<open>gitall\<close> never loses a branch tip silently: it moves a branch only after reading the tips of the branch
  and of its remote counterpart, and only to the remote tip when git called the move a fast-forward,
  to a commit that has both tips as parents, or, with \<^verbatim>\<open>-rebase\<close>, to a chain of new commits on the remote tip.\<close>

theorem branch_moves_justified:
  assumes "gitall_options dur tenv args = Inr parsed"
    and "snd (run_state (gitall_main n w tree dur tenv proxy args) [])
      = pre @ Ev_run (git_command repo env (update_ref branch sha) b) r # post"
  shows "\<not> go_dry_run (fst parsed) \<and> move_justified (go_rebase (fst parsed)) pre repo branch sha"
  using allowed_update_ref [OF run_event [OF assms]] by (simp add: run_options_fields)

lemma branch_moves_justified_witness: "\<exists>pre. move_justified False pre ''/r'' ''m'' ''T''"
proof -
  have "Ev_run (git_command ''/r'' [] (update_ref ''m'' ''T'') False) \<lparr>ro_exit = 0, ro_failed = False, ro_stdout = []\<rparr>
      \<in> set (sample_run [''pull'', ''/r''])"
    by code_simp
  then obtain pre post where t: "sample_run [''pull'', ''/r'']
      = pre @ Ev_run (git_command ''/r'' [] (update_ref ''m'' ''T'') False) \<lparr>ro_exit = 0, ro_failed = False, ro_stdout = []\<rparr> # post"
    using split_list by metis
  show ?thesis
    using branch_moves_justified [OF sample_pull_options t [unfolded sample_run_def]] by auto
qed

text \<open>C21: A dry run only asks: with \<^verbatim>\<open>-n\<close> every command of a run, through all recursion, is one of git's queries.\<close>

theorem dry_run_only_asks:
  assumes "gitall_options dur tenv args = Inr parsed" "go_dry_run (fst parsed)"
    and "Ev_run cmd r \<in> set (snd (run_state (gitall_main n w tree dur tenv proxy args) []))"
  shows "\<exists>repo env qargs b. cmd = git_command repo env qargs b \<and> queries qargs"
proof -
  obtain pre post where "snd (run_state (gitall_main n w tree dur tenv proxy args) []) = pre @ Ev_run cmd r # post"
    using split_list [OF assms(3)] by blast
  from allowed_dry [OF run_event [OF assms(1) this]] assms(2) show ?thesis
    by (simp add: run_options_fields)
qed

lemma dry_run_only_asks_witness: "queries [''remote'']"
proof -
  have p: "gitall_options (\<lambda>_. True) [] [''-n'', ''pull'', ''/r''] = Inr (\<lparr>go_action = Pull_all, go_all = False,
    go_rebase = False, go_commit_msg = [], go_dry_run = True, go_merge_mode = Merge_none, go_skip_pull_first = False,
    go_proxy_url = []\<rparr>, ''any'', [''/r''], False)"
    by code_simp
  have "Ev_run (git_command ''/r'' [] [''remote''] True) \<lparr>ro_exit = 0, ro_failed = False, ro_stdout = ''o''\<rparr>
      \<in> set (sample_run [''-n'', ''pull'', ''/r''])"
    by code_simp
  from dry_run_only_asks [OF p _ this [unfolded sample_run_def]] show ?thesis
    by (auto simp: git_command_inj)
qed



end
