(* ===== verification/Gitall_Run.thy ===== *)
theory Gitall_Run
  imports Gitall_Safety
begin

text \<open>
  That a run of \<^verbatim>\<open>gitall\<close> comes to an end when the resolved local remotes lie in a finite set of
  repositories (the recursion stack excludes every repository on the current path), that every
  discovered repository is operated on once, and that a pull request branch gets a fresh number.
\<close>

section \<open>The recursion ends\<close>

definition remotes_within :: "machine \<Rightarrow> string list \<Rightarrow> bool" where
  "remotes_within w repos \<longleftrightarrow> (\<forall>p q. mc_links w p = Some q \<longrightarrow> evaluated w q \<in> set repos)"

definition room :: "string list \<Rightarrow> string list \<Rightarrow> nat" where
  "room repos stack = card (set repos - set stack)"

lemma room_push: "rp \<in> set repos \<Longrightarrow> rp \<notin> set stack \<Longrightarrow> Suc (room repos (rp # stack)) = room repos stack"
proof -
  assume "rp \<in> set repos" "rp \<notin> set stack"
  then have "Suc (card ((set repos - set stack) - {rp})) = card (set repos - set stack)"
    by (intro card_Suc_Diff1) simp_all
  moreover have "set repos - set (rp # stack) = (set repos - set stack) - {rp}"
    by auto
  ultimately show ?thesis
    unfolding room_def by metis
qed

lemma room_mono: "room repos (rp # stack) \<le> room repos stack"
  unfolding room_def by (rule card_mono) auto

lemma pred_gives: "P x \<Longrightarrow> pred_state P (gives x)"
  by (rule pred_stateI) (simp add: gives_def)

lemma pred_any: "(\<And>x. P x) \<Longrightarrow> pred_state P m"
  by (rule pred_stateI) simp

lemma pred_bind: "pred_state Q m \<Longrightarrow> (\<And>x. Q x \<Longrightarrow> pred_state P (f x)) \<Longrightarrow> pred_state P (m \<bind> f)"
  by (rule bind_predI) (metis (mono_tags, lifting) pred_stateD pred_stateI)

lemma pred_bind_any: "(\<And>x. pred_state P (f x)) \<Longrightarrow> pred_state P (m \<bind> f)"
  by (rule pred_bind [OF pred_any [where P = "\<lambda>_. True"]]) simp_all

definition returns :: "'a option act \<Rightarrow> bool" where
  "returns m \<longleftrightarrow> pred_state (\<lambda>x. x \<noteq> None) m"

lemma returns_gives: "returns (gives (Some x))"
  by (simp add: returns_def pred_gives)

lemma returns_bind: "returns m \<Longrightarrow> (\<And>x. returns (f (Some x))) \<Longrightarrow> returns (m \<bind> f)"
  unfolding returns_def by (erule pred_bind) auto

lemma returns_after: "(\<And>x. returns (f x)) \<Longrightarrow> returns (m \<bind> f)"
  unfolding returns_def by (rule pred_bind_any)

lemma returns_pred: "pred_state Q m \<Longrightarrow> (\<And>x. Q x \<Longrightarrow> returns (f x)) \<Longrightarrow> returns (m \<bind> f)"
  unfolding returns_def by (erule pred_bind)

lemma both_Some: "both (Some a) (Some b) = Some (a \<and> b)"
  by (simp add: both_def)

lemma resolved_within:
  "remotes_within w repos \<Longrightarrow> pred_state (\<lambda>x. \<forall>p. x = Some p \<longrightarrow> evaluated w p \<in> set repos) (resolve_local_remote w repo url)"
  unfolding resolve_local_remote_def
  by (auto simp: remotes_within_def bind_eq_Some_conv intro!: pred_gives pred_bind_any split: option.split if_split_asm)

lemma local_within:
  assumes "remotes_within w repos"
  shows "pred_state (\<lambda>ls. \<forall>p \<in> set ls. evaluated w p \<in> set repos) (local_remotes w g repo rs)"
proof (induction rs)
  case (Cons r rs)
  let ?ok = "\<lambda>x. \<forall>p. x = Some p \<longrightarrow> evaluated w p \<in> set repos"
  have here: "pred_state ?ok (case url of Inl _ \<Rightarrow> gives None | Inr u \<Rightarrow> resolve_local_remote w repo u)" for url :: "git_error + string"
    by (auto intro: pred_gives resolved_within [OF assms] split: sum.split)
  have "pred_state (\<lambda>ls. \<forall>p \<in> set ls. evaluated w p \<in> set repos)
      (do { rest \<leftarrow> local_remotes w g repo rs; gives (case x of None \<Rightarrow> rest | Some p \<Rightarrow> p # rest) })" if "?ok x" for x
    by (rule pred_bind [OF Cons.IH pred_gives]) (use that in \<open>auto split: option.split\<close>)
  then show ?case
    unfolding local_remotes.simps by (rule pred_bind_any [OF pred_bind [OF here]])
qed (simp add: pred_gives)

lemma operate_all_returns:
  "(\<And>r. r \<in> set repos \<Longrightarrow> returns (rec g r stack)) \<Longrightarrow> returns (operate_all rec g repos stack)"
proof (induction repos)
  case (Cons r rs)
  then show ?case
    by (auto simp: both_Some intro!: returns_bind returns_gives)
qed (simp add: returns_gives)

lemma operate_locked_returns:
  assumes w: "remotes_within w repos"
    and rec: "\<And>g r. evaluated w r \<in> set repos \<Longrightarrow> returns (rec g r (rp # stack))"
  shows "returns (operate_locked w rec g repo rp stack)"
proof -
  have all: "returns (operate_all rec g ls (rp # stack))" if "\<forall>p \<in> set ls. evaluated w p \<in> set repos" for ls g
    by (rule operate_all_returns) (use that rec in blast)
  have push: "returns (operate_push w rec g repo c rs ls (rp # stack))" if ls: "\<forall>p \<in> set ls. evaluated w p \<in> set repos" for c rs ls
  proof -
    have first: "returns (if go_skip_pull_first g then gives (Some True) else operate_all rec (with_action Pull_all g) ls (rp # stack))"
      by (simp add: returns_gives all [OF ls])
    show ?thesis
      unfolding operate_push_def
      by (rule returns_bind [OF first], rule returns_after, rule returns_bind [OF all [OF ls]]) (simp add: both_Some returns_gives)
  qed
  have pull: "returns (operate_pull w rec g repo c rs ls (rp # stack))" if "\<forall>p \<in> set ls. evaluated w p \<in> set repos" for c rs ls
    unfolding operate_pull_def
    by (rule returns_bind [OF all [OF that]], rule returns_after) (simp add: both_Some returns_gives)
  have body: "returns (do {
             local \<leftarrow> local_remotes w g repo rs;
             c \<leftarrow> maybe_commit w g repo;
             case c of
               Inl _ \<Rightarrow> gives (Some False)
             | Inr c \<Rightarrow>
                 if go_action g = Push_all then operate_push w rec g repo c rs local (rp # stack)
                 else operate_pull w rec g repo c rs local (rp # stack) })" for rs
    by (rule returns_pred [OF local_within [OF w]], rule returns_after) (auto intro: returns_gives push pull split: sum.split)
  show ?thesis
    unfolding operate_locked_def
    by (rule returns_after) (auto intro!: returns_gives returns_after body split: sum.split)
qed

lemma operate_within_returns:
  "remotes_within w repos \<Longrightarrow> evaluated w repo \<in> set repos \<Longrightarrow> room repos stack < n \<Longrightarrow> returns (operate n w g repo stack)"
proof (induction n arbitrary: g repo stack)
  case (Suc n)
  show ?case
  proof (cases "evaluated w repo \<in> set stack")
    case True
    then show ?thesis
      by (simp add: returns_gives)
  next
    case False
    have "room repos (evaluated w repo # stack) < n"
      using room_push [OF Suc.prems(2) False] Suc.prems(3) by simp
    then have "returns (operate_locked w (operate n w) g repo (evaluated w repo) stack)"
      by (intro operate_locked_returns [OF Suc.prems(1)] Suc.IH [OF Suc.prems(1)])
    with False show ?thesis
      by simp
  qed
qed simp

lemma operate_root_returns:
  assumes "remotes_within w repos" "Suc (length repos) < n"
  shows "returns (operate n w g repo [])"
proof -
  obtain m where n: "n = Suc m" "length repos < m"
    using assms(2) by (cases n) auto
  have "room repos [evaluated w repo] < m"
    using n(2) room_mono [of repos "evaluated w repo" "[]"] card_length [of repos] by (simp add: room_def)
  then have "returns (operate_locked w (operate m w) g repo (evaluated w repo) [])"
    by (intro operate_locked_returns [OF assms(1)] operate_within_returns [OF assms(1)])
  then show ?thesis
    by (simp add: n(1))
qed

lemma operate_roots_return:
  assumes "remotes_within w repos" "Suc (length repos) < n"
  shows "returns (operate_roots n w g rs)"
  by (induction rs) (auto simp: both_Some intro!: returns_bind returns_gives operate_root_returns [OF assms])

lemma returns_map: "returns m \<Longrightarrow> returns (do { x \<leftarrow> m; gives (map_option f x) })"
  by (erule returns_bind) (simp add: returns_gives)

lemma gitall_main_returns:
  assumes "remotes_within w repos" "Suc (length repos) < n"
  shows "returns (gitall_main n w tree dur tenv proxy args)"
  unfolding gitall_main_def
  by (auto intro!: returns_gives returns_map operate_roots_return [OF assms] split: sum.split option.split)

lemma returns_Some: "returns m \<Longrightarrow> \<exists>x tr'. run_state m tr = (Some x, tr')"
proof -
  assume "returns m"
  then have "fst (run_state m tr) \<noteq> None"
    unfolding returns_def by (rule pred_state_run_state)
  then show ?thesis
    by (cases "run_state m tr") auto
qed

section \<open>Every repository once\<close>

lemma unseen_dirs_set: "evaluated w ` set (unseen_dirs w seen ds) = evaluated w ` set ds - set seen"
  by (induction ds arbitrary: seen) (auto simp: Let_def)

lemma unseen_dirs_distinct: "distinct (map (evaluated w) (unseen_dirs w seen ds))"
proof (induction ds arbitrary: seen)
  case (Cons d ds)
  have "evaluated w d \<notin> evaluated w ` set (unseen_dirs w (evaluated w d # seen) ds)"
    by (simp add: unseen_dirs_set)
  with Cons show ?case
    by (simp add: Let_def)
qed simp

lemma dedupe_repos_once: "distinct (dedupe_repos w repos) \<and> set (dedupe_repos w repos) = evaluated w ` set repos"
  using unseen_dirs_distinct [of w "[]" repos] unseen_dirs_set [of w "[]" repos] by (simp add: dedupe_repos_def)

section \<open>Fresh pull request numbers\<close>

lemma atoi_show: "0 \<le> n \<Longrightarrow> n \<le> max_int64 \<Longrightarrow> atoi (show_int n) = (n, True)"
  by (simp add: atoi_show_int max_int64_def)

lemma match_pr_branch_name: "0 < n \<Longrightarrow> n \<le> max_int64 \<Longrightarrow> match_pr_branch (pr_branch_name base n) base = Some n"
  by (simp add: match_pr_branch_def pr_branch_name_def atoi_show)

lemma next_pr_number_step:
  assumes "1 \<le> m" "m \<le> max_int64" "\<forall>u \<in> set us. u < max_int64"
  shows "m \<le> foldl (\<lambda>n u. if n \<le> u then wrap64 (u + 1) else n) m us
    \<and> foldl (\<lambda>n u. if n \<le> u then wrap64 (u + 1) else n) m us \<le> max_int64
    \<and> (\<forall>u \<in> set us. u < foldl (\<lambda>n u. if n \<le> u then wrap64 (u + 1) else n) m us)"
  using assms
proof (induction us arbitrary: m)
  case (Cons u us)
  have w: "wrap64 (u + 1) = u + 1" if "m \<le> u"
    using that Cons.prems by (intro wrap64_id) (simp_all add: max_int64_def)
  let ?m = "if m \<le> u then wrap64 (u + 1) else m"
  have "1 \<le> ?m" "?m \<le> max_int64" "m \<le> ?m" "u < ?m"
    using w Cons.prems by auto
  with Cons.IH [of ?m] Cons.prems(3) show ?case
    by auto
qed simp

lemma next_pr_number_fresh:
  assumes "\<forall>u \<in> set used. u < max_int64"
  shows "1 \<le> next_pr_number used \<and> next_pr_number used \<le> max_int64 \<and> (\<forall>u \<in> set used. u < next_pr_number used)"
  using next_pr_number_step [OF _ _ assms, of 1] by (simp add: next_pr_number_def max_int64_def)

text \<open>At the largest number the next one wraps around, and the name made of it is not recognised.\<close>

lemma next_pr_number_wraps: "next_pr_number [max_int64] = - max_int64 - 1 \<and> match_pr_branch (pr_branch_name ''b'' (- 1)) ''b'' = None"
  by code_simp

section \<open>Properties\<close>


definition mutual_links :: "string \<Rightarrow> string option" where
  "mutual_links p = (if p = ''/a'' \<or> p = ''/b'' then Some p else None)"


text \<open>A new pull request branch never takes a number in use: the number is larger than every listed one, and its
  name is read back as that number, so later runs find it (below the largest 64-bit number).\<close>

theorem pr_branch_fresh:
  assumes "\<forall>u \<in> set used. u < max_int64"
  shows "(\<forall>u \<in> set used. u < next_pr_number used)
    \<and> match_pr_branch (pr_branch_name base (next_pr_number used)) base = Some (next_pr_number used)"
  using next_pr_number_fresh [OF assms] by (simp add: match_pr_branch_name)

lemma pr_branch_fresh_witness: "match_pr_branch (pr_branch_name ''main'' (next_pr_number [7, 3])) ''main'' = Some 8"
proof -
  have "next_pr_number [7, 3] = 8"
    by code_simp
  then show ?thesis
    using pr_branch_fresh [of "[7, 3]" "''main''"] by (simp add: max_int64_def)
qed

end
