(* ===== verification/Gitall_Locks.thy ===== *)
theory Gitall_Locks
  imports Gitall_Git "HOL-Library.Multiset"
begin

text \<open>
  The mutexes of \<^verbatim>\<open>gitall\<close>: what \<^verbatim>\<open>operate\<close> locks, holds, spawns and waits for, as a small concurrent
  language with a step relation; every schedule of the goroutines is a run. \<open>operate_plan\<close> relates a
  repository to the lock programs \<^verbatim>\<open>operate\<close> can run for it, given the resolved local remotes of each
  repository. If local remotes have no cycle, no run deadlocks; two repositories that are remotes
  of each other deadlock on every push.
\<close>

section \<open>Programs that lock\<close>

text \<open>\<open>Locked p c\<close> waits for the mutex of \<open>p\<close> and runs \<open>c\<close> under it, \<open>Holding\<close> is inside; \<open>Spawn\<close> starts
  goroutines and waits for their results.\<close>

datatype lock_prog = Finished | Locked string lock_prog | Holding string lock_prog | Then lock_prog lock_prog
  | Spawn "lock_prog list"

fun held :: "lock_prog \<Rightarrow> string list" where
  "held Finished = []"
| "held (Locked p c) = []"
| "held (Holding p c) = p # held c"
| "held (Then a b) = held a"
| "held (Spawn cs) = concat (map held cs)"

fun unstarted :: "lock_prog \<Rightarrow> bool" where
  "unstarted Finished = True"
| "unstarted (Locked p c) = unstarted c"
| "unstarted (Holding p c) = False"
| "unstarted (Then a b) = (unstarted a \<and> unstarted b)"
| "unstarted (Spawn cs) = (\<forall>c \<in> set cs. unstarted c)"

text \<open>One step of some goroutine, when the mutexes \<open>H\<close> are taken.\<close>

inductive lock_step :: "string list \<Rightarrow> lock_prog \<Rightarrow> lock_prog \<Rightarrow> bool" for H where
  acquire: "p \<notin> set H \<Longrightarrow> lock_step H (Locked p c) (Holding p c)"
| inside: "lock_step H c c' \<Longrightarrow> lock_step H (Holding p c) (Holding p c')"
| release: "lock_step H (Holding p Finished) Finished"
| first_part: "lock_step H a a' \<Longrightarrow> lock_step H (Then a b) (Then a' b)"
| second_part: "lock_step H (Then Finished b) b"
| thread: "i < length cs \<Longrightarrow> lock_step H (cs ! i) c' \<Longrightarrow> lock_step H (Spawn cs) (Spawn (cs[i := c']))"
| joined: "(\<forall>c \<in> set cs. c = Finished) \<Longrightarrow> lock_step H (Spawn cs) Finished"

inductive_cases lock_step_cases: "lock_step H Finished c'" "lock_step H (Locked p c) c'" "lock_step H (Holding p c) c'"
  "lock_step H (Then a b) c'" "lock_step H (Spawn cs) c'"

definition lock_run :: "lock_prog \<Rightarrow> lock_prog \<Rightarrow> bool" where
  "lock_run c c' \<longleftrightarrow> lock_step (held c) c c'"

definition deadlocked :: "lock_prog \<Rightarrow> bool" where
  "deadlocked c \<longleftrightarrow> c \<noteq> Finished \<and> (\<forall>c'. \<not> lock_run c c')"

section \<open>The programs of \<^verbatim>\<open>operate\<close>\<close>

text \<open>\<^verbatim>\<open>syncAndPushRepo\<close> takes the mutex of each local remote for the push into it.\<close>

fun push_chain :: "string list \<Rightarrow> lock_prog" where
  "push_chain [] = Finished"
| "push_chain (q # qs) = Then (Locked q Finished) (push_chain qs)"

text \<open>
  \<open>locals p\<close> are the resolved local remotes of \<open>p\<close>. An operation that fails before the recursion, for
  instance because git cannot list the remotes, ends at once; a repository with uncommitted changes
  is not pushed (\<open>targets = []\<close>).
\<close>

inductive operate_plan :: "(string \<Rightarrow> string list) \<Rightarrow> git_action \<Rightarrow> bool \<Rightarrow> string list \<Rightarrow> string \<Rightarrow> lock_prog \<Rightarrow> bool"
  for locals where
  on_path: "rp \<in> set stack \<Longrightarrow> operate_plan locals act skip stack rp Finished"
| fails_early: "rp \<notin> set stack \<Longrightarrow> operate_plan locals act skip stack rp (Locked rp Finished)"
| pulls: "rp \<notin> set stack \<Longrightarrow> list_all2 (operate_plan locals Pull_all skip (rp # stack)) (locals rp) cs
    \<Longrightarrow> operate_plan locals Pull_all skip stack rp (Locked rp (Spawn cs))"
| pushes: "rp \<notin> set stack \<Longrightarrow> list_all2 (operate_plan locals Pull_all skip (rp # stack)) (if skip then [] else locals rp) cs
    \<Longrightarrow> targets = [] \<or> targets = locals rp
    \<Longrightarrow> list_all2 (operate_plan locals Push_all True (rp # stack)) (locals rp) ds
    \<Longrightarrow> operate_plan locals Push_all skip stack rp (Locked rp (Then (Spawn cs) (Then (push_chain targets) (Spawn ds))))"

text \<open>\<^verbatim>\<open>main\<close> starts one goroutine per discovered repository.\<close>

definition main_plan :: "(string \<Rightarrow> string list) \<Rightarrow> git_action \<Rightarrow> string list \<Rightarrow> lock_prog \<Rightarrow> bool" where
  "main_plan locals act repos c \<longleftrightarrow> (\<exists>cs. list_all2 (operate_plan locals act False []) repos cs \<and> c = Spawn cs)"

section \<open>Every run ends\<close>

fun weight :: "lock_prog \<Rightarrow> nat" where
  "weight Finished = 0"
| "weight (Locked p c) = weight c + 2"
| "weight (Holding p c) = weight c + 1"
| "weight (Then a b) = weight a + weight b + 1"
| "weight (Spawn cs) = sum_list (map weight cs) + 1"

lemma sum_list_less:
  fixes f :: "'a \<Rightarrow> nat"
  assumes "i < length xs" "f y < f (xs ! i)"
  shows "sum_list (map f (xs[i := y])) < sum_list (map f xs)"
  using assms
proof (induction xs arbitrary: i)
  case (Cons x xs)
  then show ?case
    by (cases i) auto
qed simp

lemma lock_step_weight: "lock_step H c c' \<Longrightarrow> weight c' < weight c"
  by (induction rule: lock_step.induct) (simp_all add: sum_list_less)

lemma lock_run_ends: "wfP (\<lambda>c' c. lock_run c c')"
  by (rule wfp_if_convertible_to_nat [where f = weight]) (simp add: lock_run_def lock_step_weight)

section \<open>Mutual exclusion\<close>

fun well_started :: "lock_prog \<Rightarrow> bool" where
  "well_started Finished = True"
| "well_started (Locked p c) = unstarted c"
| "well_started (Holding p c) = well_started c"
| "well_started (Then a b) = (well_started a \<and> unstarted b)"
| "well_started (Spawn cs) = (\<forall>c \<in> set cs. well_started c)"

lemma unstarted_well: "unstarted c \<Longrightarrow> well_started c"
  by (induction c) auto

lemma unstarted_held: "unstarted c \<Longrightarrow> held c = []"
  by (induction c) auto

lemma lock_step_started: "lock_step H c c' \<Longrightarrow> well_started c \<Longrightarrow> well_started c'"
proof (induction rule: lock_step.induct)
  case (thread i cs c')
  then show ?case
    by (auto dest!: set_update_subset_insert [THEN subsetD])
qed (auto simp: unstarted_well)

text \<open>A step takes one free mutex, frees one, or leaves them.\<close>

lemma mset_concat_update:
  "i < length cs \<Longrightarrow> mset (concat (map f (cs[i := c']))) + mset (f (cs ! i)) = mset (concat (map f cs)) + mset (f c')"
proof (induction cs arbitrary: i)
  case (Cons c cs)
  then show ?case
    by (cases i) (auto simp: ac_simps)
qed simp

definition next_held :: "string list \<Rightarrow> string multiset \<Rightarrow> string multiset \<Rightarrow> bool" where
  "next_held H A B \<longleftrightarrow> B = A \<or> (\<exists>p. p \<notin> set H \<and> B = add_mset p A) \<or> (\<exists>p. A = add_mset p B)"

lemma lock_step_held:
  "lock_step H c c' \<Longrightarrow> well_started c \<Longrightarrow> next_held H (mset (held c)) (mset (held c'))"
proof (induction rule: lock_step.induct)
  case (acquire p c)
  then show ?case
    by (auto simp: next_held_def unstarted_held)
next
  case (thread i cs c')
  then have n: "next_held H (mset (held (cs ! i))) (mset (held c'))"
    by simp
  let ?A = "mset (concat (map held cs))" and ?B = "mset (concat (map held (cs[i := c'])))"
  have e: "?B + mset (held (cs ! i)) = ?A + mset (held c')"
    by (rule mset_concat_update [OF thread(1)])
  from n have "?B = ?A \<or> (\<exists>p. p \<notin> set H \<and> ?B = add_mset p ?A) \<or> (\<exists>p. ?A = add_mset p ?B)"
    unfolding next_held_def
  proof (elim disjE exE conjE)
    fix p
    assume "mset (held (cs ! i)) = add_mset p (mset (held c'))"
    with e have "?A = add_mset p ?B"
      by simp
    then show ?thesis
      by blast
  next
    fix p
    assume "p \<notin> set H" "mset (held c') = add_mset p (mset (held (cs ! i)))"
    with e show ?thesis
      by simp
  qed (use e in simp)
  then show ?case
    by (simp add: next_held_def)
qed (auto simp: next_held_def unstarted_held)

lemma lock_run_exclusive:
  assumes "lock_run c c'" "well_started c" "distinct (held c)"
  shows "well_started c' \<and> distinct (held c')"
proof -
  have n: "next_held (held c) (mset (held c)) (mset (held c'))"
    using lock_step_held assms(1,2) by (simp add: lock_run_def)
  then have "distinct (held c')"
    unfolding next_held_def
  proof (elim disjE exE conjE)
    assume "mset (held c') = mset (held c)"
    then show ?thesis
      using assms(3) mset_eq_imp_distinct_iff by blast
  next
    fix p
    assume "p \<notin> set (held c)" "mset (held c') = add_mset p (mset (held c))"
    then show ?thesis
      using assms(3) mset_eq_imp_distinct_iff [of "held c'" "p # held c"] by simp
  next
    fix p
    assume "mset (held c) = add_mset p (mset (held c'))"
    then show ?thesis
      using assms(3) mset_eq_imp_distinct_iff [of "held c" "p # held c'"] by simp
  qed
  then show ?thesis
    using lock_step_started assms(1,2) by (simp add: lock_run_def)
qed

lemma reachable_exclusive:
  "lock_run\<^sup>*\<^sup>* c c' \<Longrightarrow> unstarted c \<Longrightarrow> well_started c' \<and> distinct (held c')"
proof (induction rule: rtranclp_induct)
  case base
  then show ?case
    by (simp add: unstarted_well unstarted_held)
next
  case (step c1 c2)
  then show ?case
    using lock_run_exclusive by blast
qed

section \<open>Ordered locking does not deadlock\<close>

text \<open>Under a mutex of rank \<open>lo\<close> only mutexes of higher rank are taken.\<close>

fun ordered :: "(string \<Rightarrow> nat) \<Rightarrow> nat \<Rightarrow> lock_prog \<Rightarrow> bool" where
  "ordered rank lo Finished = True"
| "ordered rank lo (Locked p c) = (lo < rank p \<and> ordered rank (rank p) c)"
| "ordered rank lo (Holding p c) = (lo < rank p \<and> ordered rank (rank p) c)"
| "ordered rank lo (Then a b) = (ordered rank lo a \<and> ordered rank lo b)"
| "ordered rank lo (Spawn cs) = (\<forall>c \<in> set cs. ordered rank lo c)"

lemma lock_step_ordered: "lock_step H c c' \<Longrightarrow> ordered rank lo c \<Longrightarrow> ordered rank lo c'"
proof (induction arbitrary: lo rule: lock_step.induct)
  case (thread i cs c')
  then show ?case
    by (auto dest!: set_update_subset_insert [THEN subsetD])
qed auto

text \<open>A program that cannot step waits for a mutex that is taken, and of higher rank than those around it.\<close>

lemma waits_for:
  "c \<noteq> Finished \<Longrightarrow> (\<And>c'. \<not> lock_step H c c') \<Longrightarrow> ordered rank lo c \<Longrightarrow> \<exists>p \<in> set H. lo < rank p"
proof (induction c arbitrary: lo)
  case (Locked p c)
  then show ?case
    using acquire by fastforce
next
  case (Holding p c)
  have "c \<noteq> Finished"
    using Holding.prems(2) release by blast
  moreover have "\<not> lock_step H c c'" for c'
    using Holding.prems(2) inside by blast
  ultimately obtain q where "q \<in> set H" "rank p < rank q"
    using Holding.IH [of "rank p"] Holding.prems(3) by auto
  then show ?case
    using Holding.prems(3) by (intro bexI [of _ q]) simp_all
next
  case (Then a b)
  have "a \<noteq> Finished"
    using Then.prems(2) second_part by blast
  moreover have "\<not> lock_step H a c'" for c'
    using Then.prems(2) first_part by blast
  ultimately show ?case
    using Then.IH(1) Then.prems(3) by simp
next
  case (Spawn cs)
  obtain c where c: "c \<in> set cs" "c \<noteq> Finished"
    using Spawn.prems(2) joined by blast
  then obtain i where i: "i < length cs" "cs ! i = c"
    by (auto simp: in_set_conv_nth)
  have "\<not> lock_step H c c'" for c'
    using Spawn.prems(2) thread [OF i(1)] i(2) by blast
  then show ?case
    using Spawn.IH [OF c(1,2)] Spawn.prems(3) c(1) by simp
qed simp

lemma holder_waits:
  "p \<in> set (held c) \<Longrightarrow> (\<And>c'. \<not> lock_step H c c') \<Longrightarrow> ordered rank lo c \<Longrightarrow> \<exists>q \<in> set H. rank p < rank q"
proof (induction c arbitrary: lo)
  case (Holding p' c)
  have c: "c \<noteq> Finished" "\<And>c'. \<not> lock_step H c c'"
    using Holding.prems(2) release inside by blast+
  show ?case
  proof (cases "p = p'")
    case True
    then show ?thesis
      using waits_for [OF c] Holding.prems(3) by simp
  next
    case False
    then show ?thesis
      using Holding.IH [OF _ c(2), of "rank p'"] Holding.prems(1,3) by simp
  qed
next
  case (Then a b)
  then show ?case
    using first_part by fastforce
next
  case (Spawn cs)
  then obtain c where c: "c \<in> set cs" "p \<in> set (held c)"
    by auto
  then obtain i where i: "i < length cs" "cs ! i = c"
    by (auto simp: in_set_conv_nth)
  have "\<not> lock_step H c c'" for c'
    using Spawn.prems(2) thread [OF i(1)] i(2) by blast
  moreover have "ordered rank lo c"
    using Spawn.prems(3) c(1) by simp
  ultimately show ?case
    by (rule Spawn.IH [OF c])
qed simp_all

lemma ordered_progress:
  assumes "ordered rank lo c" "c \<noteq> Finished"
  shows "\<exists>c'. lock_run c c'"
proof (rule ccontr)
  assume "\<nexists>c'. lock_run c c'"
  then have no: "\<not> lock_step (held c) c c'" for c'
    by (simp add: lock_run_def)
  obtain p where p: "p \<in> set (held c)"
    using waits_for [OF assms(2) no assms(1)] by blast
  define m where "m = Max (rank ` set (held c))"
  have "m \<in> rank ` set (held c)"
    unfolding m_def using p by (intro Max_in) auto
  then obtain q where q: "q \<in> set (held c)" "rank q = m"
    by auto
  then obtain q' where "q' \<in> set (held c)" "m < rank q'"
    using holder_waits [OF q(1) no assms(1)] by auto
  then show False
    unfolding m_def by (simp add: Max_less_iff [symmetric] leD)
qed

lemma list_all2_ball:
  assumes "list_all2 P xs cs" "\<And>x c. x \<in> set xs \<Longrightarrow> P x c \<Longrightarrow> Q c"
  shows "\<forall>c \<in> set cs. Q c"
proof
  fix c
  assume "c \<in> set cs"
  then obtain i where i: "i < length cs" "cs ! i = c"
    by (auto simp: in_set_conv_nth)
  with assms(1) have "i < length xs" "P (xs ! i) c"
    by (auto simp: list_all2_conv_all_nth)
  then show "Q c"
    using assms(2) [of "xs ! i" c] by simp
qed

section \<open>Acyclic remotes\<close>

definition ranked :: "(string \<Rightarrow> string list) \<Rightarrow> (string \<Rightarrow> nat) \<Rightarrow> bool" where
  "ranked locals rank \<longleftrightarrow> (\<forall>p. 0 < rank p) \<and> (\<forall>p. \<forall>q \<in> set (locals p). rank p < rank q)"

lemma push_chain_ordered: "\<forall>q \<in> set qs. lo < rank q \<Longrightarrow> ordered rank lo (push_chain qs)"
  by (induction qs) auto

lemma push_chain_unstarted: "unstarted (push_chain qs)"
  by (induction qs) auto

lemma plan_ordered:
  assumes "ranked locals rank"
  shows "operate_plan locals act skip stack rp c \<Longrightarrow> lo < rank rp \<Longrightarrow> ordered rank lo c"
proof (induction arbitrary: lo rule: operate_plan.induct)
  case (pulls rp stack skip cs)
  have "\<forall>q \<in> set (locals rp). rank rp < rank q"
    using assms by (simp add: ranked_def)
  then have "\<forall>c \<in> set cs. ordered rank (rank rp) c"
    by (intro list_all2_ball [OF pulls.IH(1)]) blast
  with pulls.prems show ?case
    by simp
next
  case (pushes rp stack skip cs targets ds)
  have r: "\<forall>q \<in> set (locals rp). rank rp < rank q"
    using assms by (simp add: ranked_def)
  have "\<forall>q \<in> set (if skip then [] else locals rp). rank rp < rank q"
    using r by simp
  then have "\<forall>c \<in> set cs. ordered rank (rank rp) c"
    by (intro list_all2_ball [OF pushes.IH(1)]) blast
  moreover from r have "\<forall>d \<in> set ds. ordered rank (rank rp) d"
    by (intro list_all2_ball [OF pushes.IH(2)]) blast
  moreover have "ordered rank (rank rp) (push_chain targets)"
    using pushes.hyps r by (intro push_chain_ordered) auto
  ultimately show ?case
    using pushes.prems by simp
qed simp_all

lemma plan_unstarted: "operate_plan locals act skip stack rp c \<Longrightarrow> unstarted c"
proof (induction rule: operate_plan.induct)
  case (pulls rp stack skip cs)
  then show ?case
    by (auto simp: list_all2_conv_all_nth in_set_conv_nth)
next
  case (pushes rp stack skip cs targets ds)
  then have "\<forall>c \<in> set cs. unstarted c" "\<forall>d \<in> set ds. unstarted d"
    by (auto simp: list_all2_conv_all_nth in_set_conv_nth split: if_split_asm)
  then show ?case
    by (simp add: push_chain_unstarted)
qed simp_all

lemma main_plan_ordered:
  assumes "ranked locals rank" "main_plan locals act repos c"
  shows "ordered rank 0 c"
proof -
  obtain cs where cs: "list_all2 (operate_plan locals act False []) repos cs" "c = Spawn cs"
    using assms(2) by (auto simp: main_plan_def)
  have "\<forall>p. 0 < rank p"
    using assms(1) by (simp add: ranked_def)
  then have "\<forall>d \<in> set cs. ordered rank 0 d"
    using plan_ordered [OF assms(1)] by (intro list_all2_ball [OF cs(1)]) blast
  with cs(2) show ?thesis
    by simp
qed

lemma main_plan_unstarted: "main_plan locals act repos c \<Longrightarrow> unstarted c"
  using plan_unstarted by (fastforce simp: main_plan_def list_all2_conv_all_nth in_set_conv_nth)

lemma reachable_ordered: "lock_run\<^sup>*\<^sup>* c c' \<Longrightarrow> ordered rank lo c \<Longrightarrow> ordered rank lo c'"
  by (induction rule: rtranclp_induct) (auto simp: lock_run_def intro: lock_step_ordered)

lemma ordered_finishes: "ordered rank lo c \<Longrightarrow> lock_run\<^sup>*\<^sup>* c Finished"
proof (induction "weight c" arbitrary: c rule: less_induct)
  case less
  show ?case
  proof (cases "c = Finished")
    case False
    then obtain c' where s: "lock_run c c'"
      using ordered_progress [OF less.prems] by blast
    then have "weight c' < weight c" "ordered rank lo c'"
      using lock_step_weight lock_step_ordered less.prems by (auto simp: lock_run_def)
    then show ?thesis
      using less.hyps converse_rtranclp_into_rtranclp [of lock_run, OF s] by blast
  qed simp
qed

section \<open>Cyclic remotes\<close>

text \<open>A program that will take a mutex it already holds never finishes.\<close>

fun relocks :: "string set \<Rightarrow> lock_prog \<Rightarrow> bool" where
  "relocks S Finished = False"
| "relocks S (Locked p c) = (p \<in> S \<or> relocks (insert p S) c)"
| "relocks S (Holding p c) = relocks (insert p S) c"
| "relocks S (Then a b) = (relocks S a \<or> relocks S b)"
| "relocks S (Spawn cs) = (\<exists>c \<in> set cs. relocks S c)"

lemma relocks_mono: "relocks S c \<Longrightarrow> S \<subseteq> T \<Longrightarrow> relocks T c"
proof (induction c arbitrary: S T)
  case (Locked p c)
  then have "insert p S \<subseteq> insert p T"
    by blast
  from Locked.IH [OF _ this] Locked.prems show ?case
    by auto
next
  case (Holding p c)
  then have "insert p S \<subseteq> insert p T"
    by blast
  from Holding.IH [OF _ this] Holding.prems show ?case
    by auto
next
  case (Then a b)
  then show ?case
    by (metis relocks.simps(4))
next
  case (Spawn cs)
  then obtain c where c: "c \<in> set cs" "relocks S c"
    by auto
  from Spawn.IH [OF c Spawn.prems(2)] c(1) show ?case
    by auto
qed simp

lemma relocks_step:
  "lock_step H c c' \<Longrightarrow> relocks S c \<Longrightarrow> S \<union> set (held c) \<subseteq> set H \<Longrightarrow> relocks S c'"
proof (induction arbitrary: S rule: lock_step.induct)
  case (inside c c' p)
  then have "relocks (insert p S) c"
    by simp
  moreover have "insert p S \<union> set (held c) \<subseteq> set H"
    using inside.prems(2) by simp
  ultimately show ?case
    using inside.IH by simp
next
  case (thread i cs c')
  have sub: "set (held (cs ! i)) \<subseteq> set (held (Spawn cs))"
    using nth_mem [OF thread(1)] by (simp only: held.simps set_concat set_map) blast
  obtain c where c: "c \<in> set cs" "relocks S c"
    using thread.prems(1) by auto
  then obtain j where j: "j < length cs" "cs ! j = c"
    by (auto simp: in_set_conv_nth)
  show ?case
  proof (cases "i = j")
    case True
    have "S \<union> set (held (cs ! i)) \<subseteq> set H"
      using thread.prems(2) sub by blast
    then have "relocks S c'"
      using thread.IH [of S] c(2) j(2) True by simp
    then show ?thesis
      using set_update_memI [OF thread.hyps(1), of c'] by auto
  next
    case False
    then have "cs[i := c'] ! j = c"
      using j by simp
    then have "c \<in> set (cs[i := c'])"
      using j(1) by (metis length_list_update nth_mem)
    with c(2) show ?thesis
      by auto
  qed
next
  case (acquire p c)
  then show ?case
    by auto
next
  case (first_part a a' b)
  then show ?case
    by auto
next
  case (joined cs)
  then obtain c where "c \<in> set cs" "relocks S c"
    by auto
  with joined.hyps show ?case
    by auto
qed simp_all

lemma relocks_never_finishes:
  "lock_run\<^sup>*\<^sup>* c c' \<Longrightarrow> relocks {} c \<Longrightarrow> relocks {} c'"
  by (induction rule: rtranclp_induct) (auto simp: lock_run_def dest: relocks_step)

lemma relocks_deadlocks:
  assumes "relocks {} c" "lock_run\<^sup>*\<^sup>* c c'" "\<forall>d. \<not> lock_run c' d"
  shows "deadlocked c'"
  using relocks_never_finishes [OF assms(2,1)] assms(3) by (auto simp: deadlocked_def)

lemma run_to_end: "\<exists>c'. lock_run\<^sup>*\<^sup>* c c' \<and> (\<forall>d. \<not> lock_run c' d)"
proof (induction c rule: wfp_induct [OF lock_run_ends])
  case (1 c)
  show ?case
  proof (cases "\<exists>d. lock_run c d")
    case True
    then obtain d where d: "lock_run c d"
      by blast
    then obtain c' where "lock_run\<^sup>*\<^sup>* d c'" "\<forall>e. \<not> lock_run c' e"
      using 1 by blast
    with converse_rtranclp_into_rtranclp [of lock_run, OF d] show ?thesis
      by blast
  qed blast
qed

text \<open>The lock program of a push of \<open>p\<close> when \<open>p\<close> and \<open>q\<close> are clean and each other's only local remote.\<close>

definition mutual_push :: "string \<Rightarrow> string \<Rightarrow> lock_prog" where
  "mutual_push p q = Spawn [Locked p (Then (Spawn [Locked q (Spawn [Finished])])
     (Then (push_chain [q]) (Spawn [Locked q (Then (Spawn []) (Then (push_chain [p]) (Spawn [Finished])))])))]"

lemma mutual_push_plan:
  assumes "p \<noteq> q" "locals p = [q]" "locals q = [p]"
  shows "main_plan locals Push_all [p] (mutual_push p q)"
proof -
  have pull: "operate_plan locals Pull_all False [p] q (Locked q (Spawn [Finished]))"
    using assms by (intro pulls) (auto intro: on_path)
  have push: "operate_plan locals Push_all True [p] q (Locked q (Then (Spawn []) (Then (push_chain [p]) (Spawn [Finished]))))"
    using assms by (intro pushes) (auto intro: on_path)
  have "operate_plan locals Push_all False [] p (Locked p (Then (Spawn [Locked q (Spawn [Finished])])
     (Then (push_chain [q]) (Spawn [Locked q (Then (Spawn []) (Then (push_chain [p]) (Spawn [Finished])))]))))"
    using pull push assms(2) by (intro pushes) auto
  then show ?thesis
    by (simp add: main_plan_def mutual_push_def)
qed

section \<open>Properties\<close>


definition chain_locals :: "string \<Rightarrow> string list" where
  "chain_locals p = (if p = ''/work'' then [''/mirror''] else [])"


text \<open>Two clean repositories that are local remotes of each other deadlock on a push: the push of \<open>p\<close> holds the
  mutex of \<open>p\<close> while it waits for the push of \<open>q\<close>, which needs that mutex to push into \<open>p\<close>. No schedule
  finishes, although the recursion itself is cut off by the stack.\<close>

theorem mutual_remotes_deadlock:
  assumes "p \<noteq> q" "locals p = [q]" "locals q = [p]"
  shows "main_plan locals Push_all [p] (mutual_push p q)
    \<and> \<not> lock_run\<^sup>*\<^sup>* (mutual_push p q) Finished \<and> (\<exists>c. lock_run\<^sup>*\<^sup>* (mutual_push p q) c \<and> deadlocked c)"
proof -
  have r: "relocks {} (mutual_push p q)"
    by (simp add: mutual_push_def)
  obtain c where c: "lock_run\<^sup>*\<^sup>* (mutual_push p q) c" "\<forall>d. \<not> lock_run c d"
    using run_to_end by blast
  have "\<not> lock_run\<^sup>*\<^sup>* (mutual_push p q) Finished"
    using relocks_never_finishes [OF _ r, of Finished] by auto
  then show ?thesis
    using mutual_push_plan [OF assms] relocks_deadlocks [OF r c] c(1) by blast
qed

lemma mutual_remotes_deadlock_witness: "\<not> lock_run\<^sup>*\<^sup>* (mutual_push ''/a'' ''/b'') Finished"
proof -
  define locals :: "string \<Rightarrow> string list" where "locals p = (if p = ''/a'' then [''/b''] else [''/a''])" for p
  have "locals ''/a'' = [''/b'']" "locals ''/b'' = [''/a'']"
    by (simp_all add: locals_def)
  with mutual_remotes_deadlock [of "''/a''" "''/b''" locals] show ?thesis
    by simp
qed

end
