(* ===== verification/Walk_Dir.thy ===== *)
theory Walk_Dir
  imports Workspace
begin

text \<open>
  \<^verbatim>\<open>filepath.WalkDir\<close> over a directory tree, as the commands of the repository call it: a visitor threads
  a state through the entries in lexical order and answers each with go on, skip or an error. The
  same visitor is called a second time for a directory that cannot be read. Skipping at an entry that is not
  a directory leaves out the rest of its parent. Also \<^verbatim>\<open>filepath.Rel\<close> and \<^verbatim>\<open>filepath.Abs\<close>.
\<close>

section \<open>Relative and absolute paths\<close>

definition slash_comps :: "string \<Rightarrow> string list" where
  "slash_comps p = filter (\<lambda>c. c \<noteq> []) (split_on (CHR ''/'') p)"

fun after_common :: "string list \<Rightarrow> string list \<Rightarrow> string list \<times> string list" where
  "after_common (b # bs) (t # ts) = (if b = t then after_common bs ts else (b # bs, t # ts))"
| "after_common bs ts = (bs, ts)"

text \<open>\<^verbatim>\<open>filepath.Rel\<close>; \<open>None\<close> where the library reports that it cannot make the path relative.\<close>

definition path_rel :: "string \<Rightarrow> string \<Rightarrow> string option" where
  "path_rel base targ =
     (let b = clean base; t = clean targ in
      if t = b then Some ''.''
      else if is_abs b \<noteq> is_abs t then None
      else (case after_common (if b = ''.'' then [] else slash_comps b) (slash_comps t) of
          ([], ts) \<Rightarrow> Some (join ''/'' ts)
        | (c # bs, ts) \<Rightarrow> if c = ''..'' then None else Some (join ''/'' (map (\<lambda>_. ''..'') (c # bs) @ ts))))"

definition abs_in :: "string option \<Rightarrow> string \<Rightarrow> string option" where
  "abs_in cwd p = (if is_abs p then Some (clean p) else map_option (\<lambda>c. path_join [c, p]) cwd)"

section \<open>The walk\<close>

datatype 'e verdict = Go_on | Skip_dir | Stop 'e

text \<open>
  A visitor gets the path, the entry's name, the entry (\<open>None\<close> if the root cannot be examined) and whether it is
  called with the error of examining or reading it.
\<close>

type_synonym ('s, 'e) visitor = "string \<Rightarrow> string \<Rightarrow> node option \<Rightarrow> bool \<Rightarrow> 's \<Rightarrow> 's \<times> 'e verdict"

function walk_node :: "('s, 'e) visitor \<Rightarrow> string \<Rightarrow> string \<Rightarrow> node \<Rightarrow> 's \<Rightarrow> 's \<times> 'e verdict"
  and walk_nodes :: "('s, 'e) visitor \<Rightarrow> string \<Rightarrow> entries \<Rightarrow> 's \<Rightarrow> 's \<times> 'e verdict" where
  "walk_node v path name n s =
     (case v path name (Some n) False s of
        (s, Stop e) \<Rightarrow> (s, Stop e)
      | (s, Skip_dir) \<Rightarrow> (s, if is_dir_node n then Go_on else Skip_dir)
      | (s, Go_on) \<Rightarrow> (case n of
            Dir (Some es) \<Rightarrow> walk_nodes v path (sort_key fst es) s
          | Dir None \<Rightarrow> (case v path name (Some n) True s of
                (s, Stop e) \<Rightarrow> (s, Stop e)
              | (s, _) \<Rightarrow> (s, Go_on))
          | _ \<Rightarrow> (s, Go_on)))"
| "walk_nodes v path [] s = (s, Go_on)"
| "walk_nodes v path (e # es) s =
     (case walk_node v (path_join [path, fst e]) (fst e) (snd e) s of
        (s, Stop x) \<Rightarrow> (s, Stop x)
      | (s, Skip_dir) \<Rightarrow> (s, Go_on)
      | (s, Go_on) \<Rightarrow> walk_nodes v path es s)"
  by pat_completeness auto
termination
  by (relation "measure (\<lambda>x. case x of Inl (_, _, _, n, _) \<Rightarrow> node_size n | Inr (_, _, es, _) \<Rightarrow> entries_size es)")
    (auto simp: node_size_entries simp del: node_size.simps(4))

declare walk_node.simps [simp del]

text \<open>The walk from a root: the final state and the error, if the walk was stopped.\<close>

definition walk_dir :: "('s, 'e) visitor \<Rightarrow> string \<Rightarrow> node option \<Rightarrow> 's \<Rightarrow> 's \<times> 'e option" where
  "walk_dir v base tree s =
     (case (case tree of None \<Rightarrow> v base [] None True s | Some n \<Rightarrow> walk_node v base (path_base base) n s) of
        (s, Stop e) \<Rightarrow> (s, Some e)
      | (s, _) \<Rightarrow> (s, None))"

text \<open>The paths of a tree, and that all of them satisfy a predicate.\<close>

inductive occurs :: "string \<Rightarrow> node \<Rightarrow> string \<Rightarrow> bool" where
  occurs_here: "occurs path n path"
| occurs_below: "e \<in> set es \<Longrightarrow> occurs (path_join [path, fst e]) (snd e) p \<Longrightarrow> occurs path (Dir (Some es)) p"

inductive_simps occurs_simps: "occurs path (Dir (Some es)) p" "occurs path (Dir None) p" "occurs path (File c) p" "occurs path Link p"

definition everywhere :: "(string \<Rightarrow> bool) \<Rightarrow> string \<Rightarrow> node \<Rightarrow> bool" where
  "everywhere ok path n \<longleftrightarrow> (\<forall>p. occurs path n p \<longrightarrow> ok p)"

lemma everywhere_here: "everywhere ok path n \<Longrightarrow> ok path"
  by (simp add: everywhere_def occurs_here)

lemma everywhere_below: "everywhere ok path (Dir (Some es)) \<Longrightarrow> e \<in> set es \<Longrightarrow> everywhere ok (path_join [path, fst e]) (snd e)"
  by (auto simp: everywhere_def intro: occurs_below)

section \<open>Two visitors in step\<close>

text \<open>
  The interface of a visitor and an abstract counterpart of it: on related states they give the same answer and
  related states, at every path that \<open>ok\<close> admits; a stop of the first ends the comparison. A whole
  walk inherits it.
\<close>

locale lockstep =
  fixes visit :: "('s, 'e) visitor" and model :: "('t, 'e) visitor"
    and sim :: "'s \<Rightarrow> 't \<Rightarrow> bool" and ok :: "string \<Rightarrow> bool"
  assumes agree: "\<lbrakk>sim s t; n \<noteq> None \<Longrightarrow> ok path; visit path name n err s = (s', r); \<forall>e. r \<noteq> Stop e\<rbrakk>
      \<Longrightarrow> \<exists>t'. model path name n err t = (t', r) \<and> sim s' t'"
begin

lemma walk_agrees_aux:
  "v = visit \<Longrightarrow> walk_node v path name n s = (s', r) \<Longrightarrow> \<forall>e. r \<noteq> Stop e \<Longrightarrow> sim s t \<Longrightarrow> everywhere ok path n
     \<Longrightarrow> \<exists>t'. walk_node model path name n t = (t', r) \<and> sim s' t'"
  "v = visit \<Longrightarrow> walk_nodes v path es s = (s', r) \<Longrightarrow> \<forall>e. r \<noteq> Stop e \<Longrightarrow> sim s t
     \<Longrightarrow> \<forall>e \<in> set es. everywhere ok (path_join [path, fst e]) (snd e)
     \<Longrightarrow> \<exists>t'. walk_nodes model path es t = (t', r) \<and> sim s' t'"
proof (induction v path name n s and v path es s arbitrary: s' r t and s' r t rule: walk_node_walk_nodes.induct)
  case (1 v path name n s)
  obtain s1 r1 where v: "visit path name (Some n) False s = (s1, r1)"
    by fastforce
  have "\<forall>e. r1 \<noteq> Stop e"
    using "1.prems"(2,3) v "1.prems"(1) by (auto simp: walk_node.simps [of visit])
  from agree [OF "1.prems"(4) everywhere_here [OF "1.prems"(5)] v this] obtain t1 where
    m: "model path name (Some n) False t = (t1, r1)" and s1: "sim s1 t1"
    by blast
  show ?case
  proof (cases r1)
    case Go_on
    show ?thesis
    proof (cases "\<exists>es. n = Dir es")
      case False
      then have "(s', r) = (s1, Go_on)"
        using "1.prems"(1,2) v Go_on by (cases n) (auto simp: walk_node.simps [of visit])
      with False show ?thesis
        using m s1 Go_on by (cases n) (auto simp: walk_node.simps [of model])
    next
      case True
      then obtain es where n: "n = Dir es" ..
      show ?thesis
      proof (cases es)
        case None
        obtain s2 r2 where v2: "visit path name (Some n) True s1 = (s2, r2)"
          by fastforce
        have r2: "\<forall>e. r2 \<noteq> Stop e"
          using "1.prems"(1,2,3) v v2 Go_on n None by (auto simp: walk_node.simps [of visit])
        then have "s' = s2" "r = Go_on"
          using "1.prems"(1,2) v v2 Go_on n None by (cases r2; simp add: walk_node.simps [of visit])+
        with agree [OF s1 everywhere_here [OF "1.prems"(5)] v2 r2] r2 show ?thesis
          using m Go_on n None by (cases r2) (auto simp: walk_node.simps [of model])
      next
        case (Some es')
        have sub: "\<forall>e \<in> set (sort_key fst es'). everywhere ok (path_join [path, fst e]) (snd e)"
          using "1.prems"(5) n Some everywhere_below by auto
        have "walk_nodes v path (sort_key fst es') s1 = (s', r)"
          using "1.prems"(1,2) v Go_on n Some by (simp add: walk_node.simps [of visit])
        from "1.IH" [OF _ Go_on n Some "1.prems"(1) this "1.prems"(3) s1 sub] obtain t' where
          "walk_nodes model path (sort_key fst es') t1 = (t', r)" "sim s' t'"
          using v "1.prems"(1) by auto
        then show ?thesis
          using m Go_on n Some by (auto simp: walk_node.simps [of model])
      qed
    qed
  next
    case Skip_dir
    then show ?thesis
      using "1.prems"(1,2) v m s1 by (auto simp: walk_node.simps [of visit] walk_node.simps [of model])
  next
    case (Stop e)
    then show ?thesis
      using \<open>\<forall>e. r1 \<noteq> Stop e\<close> by simp
  qed
next
  case (3 v path e es s)
  obtain s1 r1 where w: "walk_node v (path_join [path, fst e]) (fst e) (snd e) s = (s1, r1)"
    by fastforce
  have r1: "\<forall>x. r1 \<noteq> Stop x"
    using "3.prems"(2,3) w by auto
  from "3.IH"(1) [OF "3.prems"(1) w r1 "3.prems"(4)] "3.prems"(5) obtain t1 where
    m: "walk_node model (path_join [path, fst e]) (fst e) (snd e) t = (t1, r1)" and s1: "sim s1 t1"
    by auto
  show ?case
  proof (cases r1)
    case Go_on
    then have "walk_nodes v path es s1 = (s', r)"
      using "3.prems"(2) w by simp
    from "3.IH"(2) [OF w [symmetric] Go_on "3.prems"(1) this "3.prems"(3) s1] "3.prems"(5) show ?thesis
      using m Go_on by simp
  next
    case Skip_dir
    then show ?thesis
      using "3.prems"(2) w m s1 by simp
  next
    case (Stop x)
    then show ?thesis
      using r1 by simp
  qed
qed auto

lemmas walk_agrees = walk_agrees_aux [OF refl]

text \<open>A walk that is not stopped ends in the state its model ends in, up to \<open>sim\<close>.\<close>

lemma walk_dir_agrees:
  assumes "walk_dir visit base tree s = (s', None)" "sim s t" "\<And>n. tree = Some n \<Longrightarrow> everywhere ok base n"
  shows "\<exists>t'. walk_dir model base tree t = (t', None) \<and> sim s' t'"
proof -
  obtain r where w: "(case tree of None \<Rightarrow> visit base [] None True s | Some n \<Rightarrow> walk_node visit base (path_base base) n s) = (s', r)"
    and r: "\<forall>e. r \<noteq> Stop e"
    using assms(1) by (auto simp: walk_dir_def split: prod.split_asm verdict.split_asm)
  have "\<exists>t'. (case tree of None \<Rightarrow> model base [] None True t | Some n \<Rightarrow> walk_node model base (path_base base) n t) = (t', r)
      \<and> sim s' t'"
  proof (cases tree)
    case None
    then show ?thesis
      using w agree [OF assms(2) _ _ r, of None] by simp
  next
    case (Some n)
    then show ?thesis
      using w walk_agrees(1) [OF _ r assms(2) assms(3) [OF Some]] by simp
  qed
  then obtain t' where "(case tree of None \<Rightarrow> model base [] None True t | Some n \<Rightarrow> walk_node model base (path_base base) n t) = (t', r)"
    "sim s' t'"
    by blast
  with r show ?thesis
    by (cases r) (auto simp: walk_dir_def)
qed

end

section \<open>An invariant of a visitor\<close>

text \<open>The entries of a tree that a walk from its root can come to: path, name and entry.\<close>

inductive entry_at :: "string \<Rightarrow> node \<Rightarrow> string \<Rightarrow> string \<Rightarrow> node \<Rightarrow> bool" for base :: string and tree :: node where
  entry_root: "entry_at base tree base (path_base base) tree"
| entry_below: "entry_at base tree path name (Dir (Some es)) \<Longrightarrow> e \<in> set es
    \<Longrightarrow> entry_at base tree (path_join [path, fst e]) (fst e) (snd e)"

text \<open>The other use of a walk: what every visit at such an entry keeps, the walk keeps, however it ends.\<close>

locale keeper =
  fixes visit :: "('s, 'e) visitor" and inv :: "'s \<Rightarrow> bool" and base :: string and tree :: "node option"
  assumes keeps: "inv s \<Longrightarrow> (\<And>m. n = Some m \<Longrightarrow> \<exists>nd. tree = Some nd \<and> entry_at base nd path name m)
      \<Longrightarrow> inv (fst (visit path name n err s))"
begin

lemma walk_keeps:
  "v = visit \<Longrightarrow> tree = Some nd \<Longrightarrow> entry_at base nd path name n \<Longrightarrow> inv s \<Longrightarrow> inv (fst (walk_node v path name n s))"
  "v = visit \<Longrightarrow> tree = Some nd \<Longrightarrow> \<forall>e \<in> set es. entry_at base nd (path_join [path, fst e]) (fst e) (snd e) \<Longrightarrow> inv s
     \<Longrightarrow> inv (fst (walk_nodes v path es s))"
proof (induction v path name n s and v path es s rule: walk_node_walk_nodes.induct)
  case (1 v path name n s)
  have here: "inv (fst (visit path name (Some n) err u))" if "inv u" for err u
    using keeps [OF that, of "Some n" path name err] "1.prems"(2,3) by simp
  obtain s1 r1 where v: "visit path name (Some n) False s = (s1, r1)"
    by fastforce
  have s1: "inv s1"
    using here [OF "1.prems"(4), of False] v by simp
  show ?case
  proof (cases r1)
    case Go_on
    show ?thesis
    proof (cases n)
      case (Dir es)
      show ?thesis
      proof (cases es)
        case None
        then show ?thesis
          using v here [OF s1, of True] Go_on Dir "1.prems"(1) by (auto simp: walk_node.simps [of visit] split: prod.split verdict.split)
      next
        case (Some es')
        have "\<forall>e \<in> set (sort_key fst es'). entry_at base nd (path_join [path, fst e]) (fst e) (snd e)"
          using "1.prems"(3) Dir Some entry_below by simp
        then have "inv (fst (walk_nodes v path (sort_key fst es') s1))"
          using "1.IH" [of s1 Go_on "Some es'" es'] "1.prems" v Go_on Dir Some s1 by simp
        then show ?thesis
          using v Go_on Dir Some "1.prems"(1) by (simp add: walk_node.simps [of visit])
      qed
    qed (use v s1 Go_on "1.prems"(1) in \<open>auto simp: walk_node.simps [of visit]\<close>)
  qed (use v s1 "1.prems"(1) in \<open>auto simp: walk_node.simps [of visit]\<close>)
next
  case (3 v path e es s)
  obtain s1 r1 where w: "walk_node v (path_join [path, fst e]) (fst e) (snd e) s = (s1, r1)"
    by fastforce
  have s1: "inv s1"
    using "3.IH"(1) [OF "3.prems"(1,2) _ "3.prems"(4)] "3.prems"(3) w by simp
  show ?case
    using "3.IH"(2) [OF w [symmetric] _ "3.prems"(1,2) _ s1] "3.prems"(3) s1 w by (cases r1) simp_all
qed auto

lemma walk_dir_keeps:
  assumes "inv s"
  shows "inv (fst (walk_dir visit base tree s))"
proof (cases tree)
  case None
  then show ?thesis
    using keeps [OF assms, of None base "[]" True] by (auto simp: walk_dir_def split: prod.splits verdict.splits)
next
  case (Some n)
  then show ?thesis
    using walk_keeps(1) [OF refl Some entry_root assms]
    by (auto simp: walk_dir_def split: prod.splits verdict.splits)
qed

end

end
