(* ===== verification/Archive_Names.thy ===== *)
theory Archive_Names
  imports Walk_Dir Go_Json
begin

text \<open>
  The names of \<^verbatim>\<open>archive-repack/main.go\<close>: which formats a path selects, the stem an input archive expands
  under, the check of member paths, and the claims that keep the members of all output parts a consistent tree.
\<close>

section \<open>Errors\<close>

text \<open>
  \<open>Io_failed\<close> is an error of a library call: whether it passed the \<^verbatim>\<open>destinationWriter\<close>, whether it is
  \<^verbatim>\<open>EFBIG\<close>, and its text. \<open>Joined\<close> and \<open>Wrapped\<close> are \<^verbatim>\<open>errors.Join\<close> and \<^verbatim>\<open>fmt.Errorf\<close> with \<^verbatim>\<open>%w\<close>.
\<close>

datatype repack_error = Bad_destination | Unsafe_path string | Path_below_file string string | Duplicate_path string
  | Replaces_directory string | Unknown_suffix string | Unsupported_member string | Symlink_refused string
  | No_source_dir string | Destination_exists string | Member_gone nat string
  | Io_failed bool bool string | Joined "repack_error list" | Wrapped string "repack_error list"

fun io_leaves :: "repack_error \<Rightarrow> (bool \<times> bool \<times> string) list" where
  "io_leaves (Io_failed dest efbig msg) = [(dest, efbig, msg)]"
| "io_leaves (Joined es) = concat (map io_leaves es)"
| "io_leaves (Wrapped msg es) = concat (map io_leaves es)"
| "io_leaves _ = []"

text \<open>\<^verbatim>\<open>isFileTooLarge\<close>\<close>

definition is_file_too_large :: "repack_error \<Rightarrow> bool" where
  "is_file_too_large e \<longleftrightarrow> list_ex fst (io_leaves e)
     \<and> (list_ex (fst \<circ> snd) (io_leaves e) \<or> list_ex (\<lambda>l. contains_str (to_lower (snd (snd l))) ''file too large'') (io_leaves e))"

section \<open>Formats\<close>

record archive_format =
  af_name :: string
  af_suffix :: string

definition output_formats :: "archive_format list" where
  "output_formats = map (\<lambda>(n, s). \<lparr>af_name = n, af_suffix = s\<rparr>)
     [(''tar.gz'', ''.tar.gz''), (''tar.bz2'', ''.tar.bz2''), (''tar.xz'', ''.tar.xz''), (''tar.gz'', ''.tgz''),
      (''tar.bz2'', ''.tbz2''), (''tar.bz2'', ''.tbz''), (''tar.xz'', ''.txz''), (''zip'', ''.zip''), (''tar'', ''.tar'')]"

definition tar_suffixes :: "string list" where
  "tar_suffixes = [''.tar.gz'', ''.tar.bz2'', ''.tar.xz'', ''.tar'', ''.tgz'', ''.tbz2'', ''.tbz'', ''.txz'']"

definition format_for_destination :: "string \<Rightarrow> repack_error + archive_format" where
  "format_for_destination path =
     (case find (\<lambda>f. has_suffix (to_lower path) (af_suffix f)) output_formats of
        None \<Rightarrow> Inl Bad_destination | Some f \<Rightarrow> Inr f)"

definition input_format :: "string \<Rightarrow> string" where
  "input_format path =
     (if has_suffix (to_lower path) ''.zip'' then ''zip''
      else if list_ex (has_suffix (to_lower path)) tar_suffixes then ''tar''
      else if has_suffix (to_lower path) ''.gz'' then ''gz'' else [])"

definition drop_last :: "nat \<Rightarrow> string \<Rightarrow> string" where
  "drop_last n s = take (length s - n) s"

definition archive_stem :: "string \<Rightarrow> string \<Rightarrow> repack_error + string" where
  "archive_stem path kind =
     (if kind = ''gz'' then Inr (drop_last (length ''.gz'') path)
      else if kind = ''zip'' \<and> has_suffix (to_lower path) ''.zip'' then Inr (drop_last (length ''.zip'') path)
      else if kind = ''tar'' then
        (case find (has_suffix (to_lower path)) tar_suffixes of
           None \<Rightarrow> Inl (Unknown_suffix path) | Some s \<Rightarrow> Inr (drop_last (length s) path))
      else Inl (Unknown_suffix path))"

text \<open>The decompression that \<^verbatim>\<open>tarReader\<close> puts before the tar reader.\<close>

datatype compression = Gzip | Bzip2 | Xz | Plain

definition tar_compression :: "string \<Rightarrow> compression" where
  "tar_compression path = (let l = to_lower path in
     if has_suffix l ''.tar.gz'' \<or> has_suffix l ''.tgz'' then Gzip
     else if has_suffix l ''.tar.bz2'' \<or> has_suffix l ''.tbz'' \<or> has_suffix l ''.tbz2'' then Bzip2
     else if has_suffix l ''.tar.xz'' \<or> has_suffix l ''.txz'' then Xz else Plain)"

section \<open>Member paths\<close>

definition safe_member_path :: "string \<Rightarrow> repack_error + string" where
  "safe_member_path raw =
     (let name = replace_all [CHR 0x5C] ''/'' raw;
          parts = filter (\<lambda>p. p \<noteq> [] \<and> p \<noteq> ''.'') (split_on (CHR ''/'') name) in
      if has_prefix name ''/'' then Inl (Unsafe_path name)
      else if ''..'' \<in> set parts then Inl (Unsafe_path name)
      else if parts = [] \<or> CHR '':'' \<in> set (hd parts) then Inl (Unsafe_path name)
      else Inr (join ''/'' parts))"

text \<open>What a path that passes looks like: relative, no empty, \<^verbatim>\<open>.\<close> or \<^verbatim>\<open>..\<close> component, no backslash, no drive.\<close>

definition safe_comp :: "string \<Rightarrow> bool" where
  "safe_comp c \<longleftrightarrow> c \<noteq> [] \<and> c \<noteq> ''.'' \<and> c \<noteq> ''..'' \<and> CHR ''/'' \<notin> set c \<and> CHR 0x5C \<notin> set c"

definition safe_name :: "string \<Rightarrow> bool" where
  "safe_name n \<longleftrightarrow> list_all safe_comp (split_on (CHR ''/'') n) \<and> CHR '':'' \<notin> set (hd (split_on (CHR ''/'') n))"

section \<open>Claims\<close>

datatype member_kind = Member_file | Member_dir

type_synonym claims = "(string \<times> member_kind) list"

text \<open>The directories the loop of \<^verbatim>\<open>canAdd\<close> visits, from the innermost; every step shortens a checked path.\<close>

fun parents :: "nat \<Rightarrow> string \<Rightarrow> string list" where
  "parents 0 p = []"
| "parents (Suc fuel) p = (let d = path_dir p in if d = ''.'' \<or> d = ''/'' then [] else d # parents fuel d)"

definition can_add :: "claims \<Rightarrow> string \<Rightarrow> member_kind \<Rightarrow> repack_error + bool" where
  "can_add cl name kind =
     (case find (\<lambda>p. map_of cl p = Some Member_file) (parents (length name) name) of
        Some p \<Rightarrow> Inl (Path_below_file name p)
      | None \<Rightarrow> (case map_of cl name of
          Some previous \<Rightarrow> if previous = Member_dir \<and> kind = Member_dir then Inr False else Inl (Duplicate_path name)
        | None \<Rightarrow>
            if kind = Member_file \<and> list_ex (\<lambda>c. has_prefix (fst c) (name @ ''/'')) cl then Inl (Replaces_directory name)
            else Inr True))"

text \<open>A consistent set of members: safe names, none twice, nothing below a file.\<close>

definition consistent :: "claims \<Rightarrow> bool" where
  "consistent cl \<longleftrightarrow> distinct (map fst cl) \<and> (\<forall>c \<in> set cl. safe_name (fst c))
     \<and> (\<forall>f \<in> set cl. snd f = Member_file \<longrightarrow> (\<forall>c \<in> set cl. \<not> has_prefix (fst c) (fst f @ ''/'')))"

section \<open>Laws of the member path check\<close>

lemma safe_comp_plain: "safe_comp c \<Longrightarrow> plain_comp c"
  by (simp add: safe_comp_def plain_comp_def)

lemma safe_name_join:
  assumes "cs \<noteq> []" "\<forall>c \<in> set cs. safe_comp c" "CHR '':'' \<notin> set (hd cs)"
  shows "safe_name (join ''/'' cs)"
  using assms by (simp add: safe_name_def split_on_join_plain safe_comp_plain list_all_iff)

lemma safe_name_comps:
  assumes "safe_name n"
  obtains cs where "cs \<noteq> []" "\<forall>c \<in> set cs. safe_comp c" "CHR '':'' \<notin> set (hd cs)" "n = join ''/'' cs"
  using assms that [of "split_on (CHR ''/'') n"] by (auto simp: safe_name_def list_all_iff)

lemma replace_backslash: "replace_all [CHR 0x5C] ''/'' s = map (\<lambda>c. if c = CHR 0x5C then CHR ''/'' else c) s"
  by (induction s) (auto simp: has_prefix_iff)

lemma safe_member_path_safe: "safe_member_path raw = Inr n \<Longrightarrow> safe_name n"
proof -
  assume a: "safe_member_path raw = Inr n"
  define parts where "parts = filter (\<lambda>p. p \<noteq> [] \<and> p \<noteq> ''.'') (split_on (CHR ''/'') (replace_all [CHR 0x5C] ''/'' raw))"
  have n: "n = join ''/'' parts" "parts \<noteq> []" "CHR '':'' \<notin> set (hd parts)" "''..'' \<notin> set parts"
    using a by (auto simp: safe_member_path_def Let_def parts_def split: if_split_asm)
  have "safe_comp c" if "c \<in> set parts" for c
  proof -
    from that have c: "c \<in> set (split_on (CHR ''/'') (replace_all [CHR 0x5C] ''/'' raw))" "c \<noteq> []" "c \<noteq> ''.''"
      by (simp_all add: parts_def)
    from split_on_elem [OF c(1)] have "CHR 0x5C \<notin> set c"
      by (auto simp: replace_backslash)
    with split_on_elem [OF c(1)] c that n(4) show ?thesis
      by (auto simp: safe_comp_def)
  qed
  with n show ?thesis
    by (auto intro: safe_name_join)
qed

lemma safe_member_path_fix: "safe_name n \<Longrightarrow> safe_member_path n = Inr n"
proof -
  assume s: "safe_name n"
  then obtain cs where cs: "cs \<noteq> []" "\<forall>c \<in> set cs. safe_comp c" "CHR '':'' \<notin> set (hd cs)" "n = join ''/'' cs"
    by (rule safe_name_comps)
  have p: "\<forall>c \<in> set cs. plain_comp c"
    using cs(2) safe_comp_plain by blast
  have split: "split_on (CHR ''/'') n = cs"
    using cs p by (simp add: split_on_join_plain)
  have "CHR 0x5C \<notin> set n"
  proof
    assume "CHR 0x5C \<in> set n"
    then have "CHR 0x5C \<in> set (join ''/'' cs)"
      by (simp add: cs)
    then have "\<exists>c \<in> set cs. CHR 0x5C \<in> set c"
      by (induction "''/''" cs rule: join.induct) auto
    with cs(2) show False
      by (auto simp: safe_comp_def)
  qed
  then have r: "replace_all [CHR 0x5C] ''/'' n = n"
    by (auto simp: replace_backslash intro!: map_idI)
  have "\<not> has_prefix n ''/''"
    using hd_join [OF p] by (simp add: cs)
  moreover have "filter (\<lambda>p. p \<noteq> [] \<and> p \<noteq> ''.'') cs = cs" "''..'' \<notin> set cs"
    using cs(2) by (auto simp: safe_comp_def filter_id_conv)
  ultimately show ?thesis
    using cs(1,3) unfolding safe_member_path_def Let_def r split by (simp only: if_False cs(4) simp_thms)
qed

section \<open>Laws of the claims\<close>

lemma split_on_append_sep: "split_on c (a @ c # r) = split_on c a @ split_on c r"
proof (induction a)
  case (Cons x a)
  then show ?case
    by (cases "split_on c a") auto
qed simp

lemma join_snoc: "cs \<noteq> [] \<Longrightarrow> join sep (cs @ [c]) = join sep cs @ sep @ c"
proof (induction sep cs rule: join.induct)
  case (3 sep p q ps)
  then show ?case
    by (cases ps) simp_all
qed simp_all

lemma clean_trailing_slash:
  assumes "cs \<noteq> []" "\<forall>c \<in> set cs. safe_comp c"
  shows "clean (join ''/'' cs @ ''/'') = join ''/'' cs"
proof -
  have p: "\<forall>c \<in> set cs. plain_comp c" and dots: "''..'' \<notin> set cs"
    using assms(2) by (auto simp: safe_comp_plain safe_comp_def)
  have ns: "normal_stack False st" if "set st \<subseteq> set cs" for st
    using that p dots by (induction st) auto
  have ne: "join ''/'' cs \<noteq> []"
    using assms(1) p by (simp add: join_eq_Nil)
  then obtain x xs where x: "join ''/'' cs = x # xs"
    by (cases "join ''/'' cs") auto
  then have "\<not> is_abs (join ''/'' cs @ ''/'')"
    using hd_join [OF p] by (simp add: is_abs_def has_prefix_iff)
  moreover have "split_on (CHR ''/'') (join ''/'' cs @ ''/'') = cs @ [[]]"
    using split_on_append_sep [of "CHR ''/''" "join ''/'' cs" "[]"] split_on_join_plain [OF assms(1) p] by simp
  moreover have "clean_comps False (cs @ [[]]) = cs"
    using clean_comps_fix [of False cs] ns [of "rev cs"] by (simp add: clean_comps_def)
  ultimately show ?thesis
    using ne by (simp add: clean_def Let_def)
qed

lemma path_dir_join:
  assumes "cs \<noteq> []" "\<forall>c \<in> set cs. safe_comp c"
  shows "path_dir (join ''/'' cs) = (if butlast cs = [] then ''.'' else join ''/'' (butlast cs))"
proof -
  define c where "c = last cs"
  have c: "CHR ''/'' \<notin> set c"
    using assms by (simp add: c_def safe_comp_def)
  then have drop: "dropWhile (\<lambda>x. x \<noteq> CHR ''/'') (rev c @ r) = dropWhile (\<lambda>x. x \<noteq> CHR ''/'') r" for r
    by (induction c arbitrary: r) auto
  show ?thesis
  proof (cases "butlast cs = []")
    case True
    then have "cs = [c]"
      using assms(1) by (metis append_Nil append_butlast_last_id c_def)
    then show ?thesis
      using drop [of "[]"] True by (simp add: path_dir_def clean_def)
  next
    case False
    have "join ''/'' cs = join ''/'' (butlast cs) @ ''/'' @ c"
      using join_snoc [OF False, of "''/''" c] assms(1) by (simp add: c_def)
    then have "rev (dropWhile (\<lambda>x. x \<noteq> CHR ''/'') (rev (join ''/'' cs))) = join ''/'' (butlast cs) @ ''/''"
      using drop [of "CHR ''/'' # rev (join ''/'' (butlast cs))"] by simp
    moreover have "\<forall>d \<in> set (butlast cs). safe_comp d"
      using assms(2) by (meson in_set_butlastD)
    ultimately show ?thesis
      using False by (simp add: path_dir_def clean_trailing_slash)
  qed
qed

lemma join_safe_inj:
  assumes "join ''/'' cs = join ''/'' ds" "cs \<noteq> []" "ds \<noteq> []" "\<forall>c \<in> set cs. safe_comp c" "\<forall>c \<in> set ds. safe_comp c"
  shows "cs = ds"
  using assms split_on_join_plain [of cs] split_on_join_plain [of ds] safe_comp_plain by metis

lemma join_not_dot:
  assumes "cs \<noteq> []" "\<forall>c \<in> set cs. safe_comp c"
  shows "join ''/'' cs \<noteq> ''.''" and "join ''/'' cs \<noteq> ''/''"
proof -
  have s: "split_on (CHR ''/'') (join ''/'' cs) = cs"
    using assms by (simp add: split_on_join_plain safe_comp_plain)
  show "join ''/'' cs \<noteq> ''.''"
  proof
    assume "join ''/'' cs = ''.''"
    with s have "cs = [''.'']"
      by simp
    with assms(2) show False
      by (simp add: safe_comp_def)
  qed
  show "join ''/'' cs \<noteq> ''/''"
  proof
    assume "join ''/'' cs = ''/''"
    with s have "cs = [[], []]"
      by simp
    with assms(2) show False
      by (simp add: safe_comp_def)
  qed
qed

lemma parents_join:
  assumes "\<forall>c \<in> set cs. safe_comp c" "length cs \<le> fuel" "cs \<noteq> []"
  shows "set (parents fuel (join ''/'' cs)) = (\<lambda>k. join ''/'' (take k cs)) ` {0<..<length cs}"
  using assms
proof (induction fuel arbitrary: cs)
  case (Suc fuel)
  show ?case
  proof (cases "butlast cs = []")
    case True
    then have "length cs = 1"
      using Suc.prems(3) by (cases cs) (auto split: if_split_asm)
    with True Suc.prems show ?thesis
      by (auto simp: path_dir_join)
  next
    case False
    let ?b = "butlast cs"
    have b: "\<forall>c \<in> set ?b. safe_comp c"
      using Suc.prems(1) by (meson in_set_butlastD)
    have d: "path_dir (join ''/'' cs) = join ''/'' ?b"
      using False Suc.prems by (simp add: path_dir_join)
    have "set (parents fuel (join ''/'' ?b)) = (\<lambda>k. join ''/'' (take k ?b)) ` {0<..<length ?b}"
      using Suc.IH [OF b] Suc.prems(2) False by simp
    moreover have "(\<lambda>k. join ''/'' (take k ?b)) ` {0<..<length ?b} = (\<lambda>k. join ''/'' (take k cs)) ` {0<..<length ?b}"
      by (rule image_cong) (auto simp: take_butlast)
    moreover have "?b = take (length ?b) cs"
      by (simp add: butlast_conv_take)
    moreover have "{0<..<length cs} = insert (length ?b) {0<..<length ?b}"
      using False by (cases cs) auto
    ultimately show ?thesis
      using join_not_dot [OF False b] d by (simp add: Let_def)
  qed
qed simp

lemma length_join: "\<forall>c \<in> set cs. c \<noteq> [] \<Longrightarrow> length cs \<le> length (join sep cs)"
proof (induction sep cs rule: join.induct)
  case (2 sep p)
  then show ?case
    by (cases p) simp_all
next
  case (3 sep p q ps)
  then show ?case
    by (cases p) simp_all
qed simp

lemma below_iff:
  assumes "cs \<noteq> []" "\<forall>c \<in> set cs. safe_comp c" "safe_name p"
  shows "has_prefix (join ''/'' cs) (p @ ''/'') \<longleftrightarrow> p \<in> (\<lambda>k. join ''/'' (take k cs)) ` {0<..<length cs}"
proof
  obtain ps where ps: "ps \<noteq> []" "\<forall>c \<in> set ps. safe_comp c" "p = join ''/'' ps"
    using assms(3) by (rule safe_name_comps) blast
  have split: "split_on (CHR ''/'') (join ''/'' qs) = qs" if "qs \<noteq> []" "\<forall>c \<in> set qs. safe_comp c" for qs
    using that by (simp add: split_on_join_plain safe_comp_plain)
  assume "has_prefix (join ''/'' cs) (p @ ''/'')"
  then obtain r where "join ''/'' cs = p @ CHR ''/'' # r"
    by (auto simp: has_prefix_iff)
  then have "cs = ps @ split_on (CHR ''/'') r"
    using split [OF assms(1,2)] split [OF ps(1,2)] split_on_append_sep [of "CHR ''/''" p r] ps(3) by metis
  moreover have "split_on (CHR ''/'') r \<noteq> []"
    by simp
  ultimately have "ps = take (length ps) cs" "0 < length ps" "length ps < length cs"
    using ps(1) by (simp, simp, cases "split_on (CHR ''/'') r") simp_all
  then show "p \<in> (\<lambda>k. join ''/'' (take k cs)) ` {0<..<length cs}"
    using ps(3) by (intro image_eqI [of _ _ "length ps"]) simp_all
next
  assume "p \<in> (\<lambda>k. join ''/'' (take k cs)) ` {0<..<length cs}"
  then obtain k where k: "0 < k" "k < length cs" "p = join ''/'' (take k cs)"
    by auto
  have "join ''/'' (as @ bs) = join ''/'' as @ ''/'' @ join ''/'' bs" if "as \<noteq> []" "bs \<noteq> []" for as bs
    using that
  proof (induction "''/''" as rule: join.induct)
    case (2 x)
    then show ?case
      by (cases bs) simp_all
  qed simp_all
  from this [of "take k cs" "drop k cs"] k have "join ''/'' cs = p @ ''/'' @ join ''/'' (drop k cs)"
    by fastforce
  then show "has_prefix (join ''/'' cs) (p @ ''/'')"
    unfolding has_prefix_iff by auto
qed

lemma parents_below:
  assumes "safe_name n" "safe_name p"
  shows "p \<in> set (parents (length n) n) \<longleftrightarrow> has_prefix n (p @ ''/'')"
proof -
  obtain cs where cs: "cs \<noteq> []" "\<forall>c \<in> set cs. safe_comp c" "n = join ''/'' cs"
    using assms(1) by (rule safe_name_comps) blast
  have "length cs \<le> length n"
    using cs length_join [of cs] by (simp add: safe_comp_def)
  then show ?thesis
    using parents_join [of cs "length n"] below_iff [OF cs(1,2) assms(2)] cs by simp
qed

lemma not_below_self: "\<not> has_prefix n (n @ ''/'')"
  by (auto simp: has_prefix_iff)

lemma blocked_iff:
  assumes "consistent cl" "safe_name n"
  shows "find (\<lambda>p. map_of cl p = Some Member_file) (parents (length n) n) = None
    \<longleftrightarrow> (\<forall>f \<in> set cl. snd f = Member_file \<longrightarrow> \<not> has_prefix n (fst f @ ''/''))"
proof -
  have d: "distinct (map fst cl)" and s: "\<And>c. c \<in> set cl \<Longrightarrow> safe_name (fst c)"
    using assms(1) by (simp_all add: consistent_def)
  have "find (\<lambda>p. map_of cl p = Some Member_file) (parents (length n) n) = None
      \<longleftrightarrow> (\<forall>p. (p, Member_file) \<in> set cl \<longrightarrow> p \<notin> set (parents (length n) n))"
    using d by (auto simp: find_None_iff)
  also have "\<dots> \<longleftrightarrow> (\<forall>p. (p, Member_file) \<in> set cl \<longrightarrow> \<not> has_prefix n (p @ ''/''))"
    using parents_below [OF assms(2)] s by fastforce
  finally show ?thesis
    by fastforce
qed

text \<open>The check is exact: it admits a member just when the set stays consistent, and drops only repeated directories.\<close>

lemma can_add_exact:
  assumes "consistent cl" "safe_name n"
  shows "can_add cl n k = Inr True \<longleftrightarrow> consistent ((n, k) # cl)"
    and "can_add cl n k = Inr False \<longleftrightarrow> k = Member_dir \<and> (n, Member_dir) \<in> set cl"
proof -
  have d: "distinct (map fst cl)" and c: "\<forall>f \<in> set cl. snd f = Member_file \<longrightarrow> (\<forall>c \<in> set cl. \<not> has_prefix (fst c) (fst f @ ''/''))"
    using assms(1) by (simp_all add: consistent_def)
  have new: "map_of cl n = None \<longleftrightarrow> n \<notin> fst ` set cl"
    by (rule map_of_eq_None_iff)
  have "consistent ((n, k) # cl) \<longleftrightarrow> map_of cl n = None
      \<and> (\<forall>f \<in> set cl. snd f = Member_file \<longrightarrow> \<not> has_prefix n (fst f @ ''/''))
      \<and> (k = Member_file \<longrightarrow> (\<forall>c \<in> set cl. \<not> has_prefix (fst c) (n @ ''/'')))"
    unfolding new using assms not_below_self by (auto simp: consistent_def)
  also have "\<dots> \<longleftrightarrow> can_add cl n k = Inr True"
    unfolding blocked_iff [OF assms, symmetric] by (auto simp: can_add_def list_ex_iff split: option.split)
  finally show "can_add cl n k = Inr True \<longleftrightarrow> consistent ((n, k) # cl)" ..
  have "find (\<lambda>p. map_of cl p = Some Member_file) (parents (length n) n) = None" if "(n, Member_dir) \<in> set cl"
    unfolding blocked_iff [OF assms] using c that by fastforce
  moreover have "map_of cl n = Some Member_dir \<longleftrightarrow> (n, Member_dir) \<in> set cl"
    by (rule map_of_eq_Some_iff [OF d])
  ultimately show "can_add cl n k = Inr False \<longleftrightarrow> k = Member_dir \<and> (n, Member_dir) \<in> set cl"
    by (cases "map_of cl n") (auto simp: can_add_def simp del: map_of_eq_Some_iff split: option.split)
qed

end
