(* ===== verification/Archive_Repack.thy ===== *)
theory Archive_Repack
  imports Archive_Names Go_Flags
begin

text \<open>
  \<^verbatim>\<open>archive-repack/main.go\<close>: the source streams, the output archives, the set of output parts with its rollover
  when the disk refuses a file that grows too large, and the walk over the source. The archive and compression
  libraries and the disk are parameters: \<open>inputs\<close> says what reading gives, \<open>sinks\<close> what every write, close, create
  and remove answers; a clock makes the answers of \<open>sinks\<close> depend on the moment.
\<close>

section \<open>Sources\<close>

datatype source_ref = Regular_file string | Gzip_file string | Zip_member string nat | Tar_member string nat

record file_source =
  src_name :: string
  src_size :: int
  src_mtime :: int
  src_ref :: source_ref

text \<open>What the reads of a stream deliver, and the error that ends it if it is not the end of the data.\<close>

type_synonym stream = "string list \<times> repack_error option"

record zip_member =
  zm_name :: string
  zm_dir :: bool
  zm_size :: "64 word"
  zm_mtime :: int

datatype tar_type = Tar_dir_type | Tar_regular | Tar_other

record tar_member =
  tm_name :: string
  tm_type :: tar_type
  tm_size :: int
  tm_mtime :: int

record inputs =
  in_cwd :: "string option"
  in_links :: "string \<Rightarrow> string option"
  in_tree :: "string \<Rightarrow> node option"
  in_io :: "string \<Rightarrow> repack_error"
  in_stat :: "string \<Rightarrow> repack_error + int \<times> int"
  in_info :: "string \<Rightarrow> repack_error + int"
  in_open :: "string \<Rightarrow> repack_error + stream"
  in_gzip :: "string \<Rightarrow> repack_error + stream"
  in_zip :: "string \<Rightarrow> repack_error + zip_member list"
  in_zip_open :: "string \<Rightarrow> nat \<Rightarrow> repack_error + stream"
  in_tar :: "compression \<Rightarrow> string \<Rightarrow> repack_error + tar_member list \<times> repack_error option"
  in_tar_data :: "compression \<Rightarrow> string \<Rightarrow> nat \<Rightarrow> stream"

definition io_error :: "string \<Rightarrow> repack_error" where
  "io_error msg = Io_failed False False msg"

definition open_source :: "inputs \<Rightarrow> source_ref \<Rightarrow> repack_error + stream" where
  "open_source w r =
     (case r of
        Regular_file p \<Rightarrow> in_open w p
      | Gzip_file p \<Rightarrow> in_gzip w p
      | Zip_member p i \<Rightarrow> (case in_zip w p of
            Inl e \<Rightarrow> Inl e
          | Inr ms \<Rightarrow> if length ms \<le> i then Inl (Member_gone i p) else in_zip_open w p i)
      | Tar_member p i \<Rightarrow> (case in_tar w (tar_compression p) p of
            Inl e \<Rightarrow> Inl e
          | Inr (ms, e) \<Rightarrow>
              if i < length ms then Inr (in_tar_data w (tar_compression p) p i)
              else Inl (case e of None \<Rightarrow> io_error ''EOF'' | Some e \<Rightarrow> e)))"

definition stream_size :: "repack_error + stream \<Rightarrow> repack_error + int" where
  "stream_size r =
     (case r of
        Inl e \<Rightarrow> Inl e
      | Inr (chunks, Some e) \<Rightarrow> Inl e
      | Inr (chunks, None) \<Rightarrow> Inr (int (sum_list (map length chunks))))"

definition regular_file_source :: "inputs \<Rightarrow> string \<Rightarrow> string \<Rightarrow> repack_error + file_source" where
  "regular_file_source w path name =
     (case in_stat w path of
        Inl e \<Rightarrow> Inl e
      | Inr (sz, mtime) \<Rightarrow> Inr \<lparr>src_name = name, src_size = sz, src_mtime = mtime, src_ref = Regular_file path\<rparr>)"

definition gzip_file_source :: "inputs \<Rightarrow> string \<Rightarrow> string \<Rightarrow> bool \<Rightarrow> repack_error + file_source" where
  "gzip_file_source w path name need_size =
     (case in_stat w path of
        Inl e \<Rightarrow> Inl e
      | Inr (_, mtime) \<Rightarrow>
          (case (if need_size then stream_size (in_gzip w path) else Inr 0) of
             Inl e \<Rightarrow> Inl e
           | Inr sz \<Rightarrow> Inr \<lparr>src_name = name, src_size = sz, src_mtime = mtime, src_ref = Gzip_file path\<rparr>))"

section \<open>Outputs\<close>

text \<open>What was written to an archive; \<open>Torn\<close> is what a failed write or close may have left.\<close>

datatype archive_op = Zip_dir string int | Zip_file string int | Tar_dir string int | Tar_file string int int
  | Data string | Torn

datatype disk_file = Foreign | Archive "archive_op list" bool

record disk =
  dk_files :: "string \<Rightarrow> disk_file option"
  dk_clock :: nat

record sinks =
  out_create :: "nat \<Rightarrow> string \<Rightarrow> repack_error option"
  out_compressor :: "nat \<Rightarrow> string \<Rightarrow> repack_error option"
  out_write :: "nat \<Rightarrow> string \<Rightarrow> archive_op list \<Rightarrow> archive_op \<Rightarrow> repack_error option"
  out_finish :: "nat \<Rightarrow> string \<Rightarrow> archive_op list \<Rightarrow> repack_error list"
  out_remove :: "nat \<Rightarrow> string \<Rightarrow> repack_error option"

record out_archive =
  op_path :: string
  op_format :: archive_format
  op_closed :: bool

definition tick :: "disk \<Rightarrow> disk" where
  "tick d = d\<lparr>dk_clock := Suc (dk_clock d)\<rparr>"

definition put_file :: "string \<Rightarrow> disk_file option \<Rightarrow> disk \<Rightarrow> disk" where
  "put_file path f d = (tick d)\<lparr>dk_files := (dk_files d)(path := f)\<rparr>"

definition log_at :: "disk \<Rightarrow> string \<Rightarrow> archive_op list" where
  "log_at d path = (case dk_files d path of Some (Archive ops _) \<Rightarrow> ops | _ \<Rightarrow> [])"

text \<open>\<^verbatim>\<open>os.Remove\<close>\<close>

definition remove_file :: "sinks \<Rightarrow> string \<Rightarrow> disk \<Rightarrow> disk \<times> repack_error option" where
  "remove_file k path d =
     (if dk_files d path = None then (tick d, Some (io_error ''no such file''))
      else (case out_remove k (dk_clock d) path of
          Some e \<Rightarrow> (tick d, Some e)
        | None \<Rightarrow> (put_file path None d, None)))"

definition new_output :: "sinks \<Rightarrow> string \<Rightarrow> archive_format \<Rightarrow> disk \<Rightarrow> disk \<times> (repack_error + out_archive)" where
  "new_output k path fmt d =
     (if dk_files d path \<noteq> None then (tick d, Inl (io_error ''file exists''))
      else (case out_create k (dk_clock d) path of
          Some e \<Rightarrow> (tick d, Inl e)
        | None \<Rightarrow>
            let d = put_file path (Some (Archive [] False)) d in
            (case (if af_name fmt \<in> {''tar.bz2'', ''tar.xz''} then out_compressor k (dk_clock d) path else None) of
               Some e \<Rightarrow> (fst (remove_file k path d), Inl e)
             | None \<Rightarrow> (d, Inr \<lparr>op_path = path, op_format = fmt, op_closed = False\<rparr>))))"

definition write_op :: "sinks \<Rightarrow> out_archive \<Rightarrow> archive_op \<Rightarrow> disk \<Rightarrow> disk \<times> repack_error option" where
  "write_op k out op d =
     (let ops = log_at d (op_path out) in
      case out_write k (dk_clock d) (op_path out) ops op of
        Some e \<Rightarrow> (put_file (op_path out) (Some (Archive (ops @ [Torn]) False)) d, Some e)
      | None \<Rightarrow> (put_file (op_path out) (Some (Archive (ops @ [op]) False)) d, None))"

definition close_output :: "sinks \<Rightarrow> out_archive \<Rightarrow> disk \<Rightarrow> disk \<times> out_archive \<times> repack_error option" where
  "close_output k out d =
     (if op_closed out then (d, out, None)
      else
        let ops = log_at d (op_path out); errs = out_finish k (dk_clock d) (op_path out) ops; out' = out\<lparr>op_closed := True\<rparr> in
        if errs = [] then (put_file (op_path out) (Some (Archive ops True)) d, out', None)
        else (put_file (op_path out) (Some (Archive (ops @ [Torn]) True)) d, out', Some (Joined errs)))"

definition is_zip :: "out_archive \<Rightarrow> bool" where
  "is_zip out \<longleftrightarrow> af_name (op_format out) = ''zip''"

text \<open>\<^verbatim>\<open>copyStream\<close>; a read of no bytes writes nothing.\<close>

fun copy_stream :: "sinks \<Rightarrow> out_archive \<Rightarrow> string list \<Rightarrow> repack_error option \<Rightarrow> disk \<Rightarrow> disk \<times> repack_error option" where
  "copy_stream k out [] e d = (d, e)"
| "copy_stream k out (c # cs) e d =
     (if c = [] then copy_stream k out cs e d
      else (case write_op k out (Data c) d of
          (d, Some x) \<Rightarrow> (d, Some x)
        | (d, None) \<Rightarrow> copy_stream k out cs e d))"

definition output_add_dir :: "sinks \<Rightarrow> out_archive \<Rightarrow> string \<Rightarrow> int \<Rightarrow> disk \<Rightarrow> disk \<times> repack_error option" where
  "output_add_dir k out name mtime d =
     write_op k out (if is_zip out then Zip_dir (name @ ''/'') mtime else Tar_dir name mtime) d"

definition output_add_file :: "inputs \<Rightarrow> sinks \<Rightarrow> out_archive \<Rightarrow> file_source \<Rightarrow> disk \<Rightarrow> disk \<times> repack_error option" where
  "output_add_file w k out src d =
     (case write_op k out (if is_zip out then Zip_file (src_name src) (src_mtime src)
             else Tar_file (src_name src) (src_size src) (src_mtime src)) d of
        (d, Some e) \<Rightarrow> (d, Some e)
      | (d, None) \<Rightarrow> (case open_source w (src_ref src) of
            Inl e \<Rightarrow> (d, Some e)
          | Inr (chunks, e) \<Rightarrow> copy_stream k out chunks e d))"

section \<open>The set of parts\<close>

datatype output_entry = Entry_dir string int | Entry_file file_source

record archive_set =
  as_destination :: string
  as_format :: archive_format
  as_current :: out_archive
  as_claims :: claims
  as_part :: nat
  as_entries :: "output_entry list"
  as_paths :: "string list"

definition add_entry :: "inputs \<Rightarrow> sinks \<Rightarrow> out_archive \<Rightarrow> output_entry \<Rightarrow> disk \<Rightarrow> disk \<times> repack_error option" where
  "add_entry w k out e d =
     (case e of Entry_dir name mtime \<Rightarrow> output_add_dir k out name mtime d | Entry_file src \<Rightarrow> output_add_file w k out src d)"

fun add_entries :: "inputs \<Rightarrow> sinks \<Rightarrow> out_archive \<Rightarrow> output_entry list \<Rightarrow> disk \<Rightarrow> disk \<times> repack_error option" where
  "add_entries w k out [] d = (d, None)"
| "add_entries w k out (e # es) d =
     (case add_entry w k out e d of
        (d, Some x) \<Rightarrow> (d, Some x)
      | (d, None) \<Rightarrow> add_entries w k out es d)"

definition new_archive_set :: "sinks \<Rightarrow> string \<Rightarrow> archive_format \<Rightarrow> disk \<Rightarrow> disk \<times> (repack_error + archive_set)" where
  "new_archive_set k dest fmt d =
     (case new_output k dest fmt d of
        (d, Inl e) \<Rightarrow> (d, Inl e)
      | (d, Inr out) \<Rightarrow> (d, Inr \<lparr>as_destination = dest, as_format = fmt, as_current = out, as_claims = [],
          as_part = 1, as_entries = [], as_paths = [dest]\<rparr>))"

definition part_path :: "string \<Rightarrow> archive_format \<Rightarrow> nat \<Rightarrow> string" where
  "part_path dest fmt n =
     (if n = 1 then dest
      else let cut = length dest - length (af_suffix fmt) in take cut dest @ ''-'' @ show_nat n @ drop cut dest)"

definition next_path :: "archive_set \<Rightarrow> string" where
  "next_path s = part_path (as_destination s) (as_format s) (as_part s)"

text \<open>
  \<^verbatim>\<open>rollover\<close>: the current part is closed, removed and written again from its completed entries; then the next part
  is opened. On an error the set keeps its current output, which is closed.
\<close>

definition rollover :: "inputs \<Rightarrow> sinks \<Rightarrow> archive_set \<Rightarrow> repack_error \<Rightarrow> disk \<Rightarrow> disk \<times> archive_set \<times> repack_error option" where
  "rollover w k s cause d =
     (let path = op_path (as_current s); (d, closed, _) = close_output k (as_current s) d; s = s\<lparr>as_current := closed\<rparr> in
      case remove_file k path d of
        (d, Some e) \<Rightarrow> (d, s, Some (Wrapped ''remove'' [e]))
      | (d, None) \<Rightarrow> (case new_output k path (as_format s) d of
          (d, Inl e) \<Rightarrow> (d, s, Some (Wrapped ''rebuild'' [cause, e]))
        | (d, Inr rebuilt) \<Rightarrow> (case add_entries w k rebuilt (as_entries s) d of
            (d, Some e) \<Rightarrow> (fst (close_output k rebuilt d), s, Some (Wrapped ''rebuild'' [cause, e]))
          | (d, None) \<Rightarrow> (case close_output k rebuilt d of
              (d, _, Some e) \<Rightarrow> (d, s, Some (Wrapped ''finish'' [cause, e]))
            | (d, _, None) \<Rightarrow>
                let s = s\<lparr>as_part := Suc (as_part s)\<rparr>; path = next_path s in
                (case new_output k path (as_format s) d of
                   (d, Inl e) \<Rightarrow> (d, s, Some (Wrapped ''create'' [cause, e]))
                 | (d, Inr out) \<Rightarrow> (d, s\<lparr>as_current := out, as_paths := path # as_paths s, as_entries := []\<rparr>, None))))))"

text \<open>The part that \<^verbatim>\<open>addDir\<close> and \<^verbatim>\<open>addFile\<close> share: write the entry, once more in a new part if the old one is full.\<close>

definition put_entry :: "inputs \<Rightarrow> sinks \<Rightarrow> archive_set \<Rightarrow> string \<Rightarrow> member_kind \<Rightarrow> output_entry \<Rightarrow> disk
    \<Rightarrow> disk \<times> archive_set \<times> repack_error option" where
  "put_entry w k s name kind e d =
     (let done = (\<lambda>s. s\<lparr>as_claims := (name, kind) # as_claims s, as_entries := as_entries s @ [e]\<rparr>) in
      case add_entry w k (as_current s) e d of
        (d, None) \<Rightarrow> (d, done s, None)
      | (d, Some x) \<Rightarrow>
          if \<not> is_file_too_large x \<or> as_entries s = [] then (d, s, Some x)
          else (case rollover w k s x d of
              (d, s, Some y) \<Rightarrow> (d, s, Some y)
            | (d, s, None) \<Rightarrow> (case add_entry w k (as_current s) e d of
                (d, Some y) \<Rightarrow> (d, s, Some y)
              | (d, None) \<Rightarrow> (d, done s, None))))"

definition set_add_dir :: "inputs \<Rightarrow> sinks \<Rightarrow> string \<Rightarrow> int \<Rightarrow> archive_set \<Rightarrow> disk \<Rightarrow> disk \<times> archive_set \<times> repack_error option" where
  "set_add_dir w k raw mtime s d =
     (case safe_member_path raw of
        Inl e \<Rightarrow> (d, s, Some e)
      | Inr name \<Rightarrow> (case can_add (as_claims s) name Member_dir of
          Inl e \<Rightarrow> (d, s, Some e)
        | Inr False \<Rightarrow> (d, s, None)
        | Inr True \<Rightarrow> put_entry w k s name Member_dir (Entry_dir name mtime) d))"

definition set_add_file :: "inputs \<Rightarrow> sinks \<Rightarrow> file_source \<Rightarrow> archive_set \<Rightarrow> disk \<Rightarrow> disk \<times> archive_set \<times> repack_error option" where
  "set_add_file w k src s d =
     (case safe_member_path (src_name src) of
        Inl e \<Rightarrow> (d, s, Some e)
      | Inr name \<Rightarrow> (case can_add (as_claims s) name Member_file of
          Inl e \<Rightarrow> (d, s, Some e)
        | Inr False \<Rightarrow> (d, s, None)
        | Inr True \<Rightarrow> put_entry w k s name Member_file (Entry_file (src\<lparr>src_name := name\<rparr>)) d))"

definition write_entries :: "inputs \<Rightarrow> sinks \<Rightarrow> string \<Rightarrow> archive_format \<Rightarrow> output_entry list \<Rightarrow> disk \<Rightarrow> disk \<times> repack_error option" where
  "write_entries w k path fmt es d =
     (case new_output k path fmt d of
        (d, Inl e) \<Rightarrow> (d, Some e)
      | (d, Inr out) \<Rightarrow> (case add_entries w k out es d of
          (d, Some e) \<Rightarrow> (fst (close_output k out d), Some e)
        | (d, None) \<Rightarrow> (case close_output k out d of (d, _, e) \<Rightarrow> (d, e))))"

text \<open>The inner loop of \<^verbatim>\<open>close\<close>: the longest prefix of at most \<open>n\<close> entries that makes a part, or the last error.\<close>

fun longest_part :: "inputs \<Rightarrow> sinks \<Rightarrow> string \<Rightarrow> archive_format \<Rightarrow> output_entry list \<Rightarrow> nat \<Rightarrow> repack_error option \<Rightarrow> disk
    \<Rightarrow> disk \<times> (repack_error option + nat)" where
  "longest_part w k path fmt es 0 last_err d = (d, Inl last_err)"
| "longest_part w k path fmt es (Suc n) last_err d =
     (case write_entries w k path fmt (take (Suc n) es) d of
        (d, None) \<Rightarrow> (d, Inr (Suc n))
      | (d, Some e) \<Rightarrow>
          let d = fst (remove_file k path d) in
          if \<not> is_file_too_large e then (d, Inl (Some e)) else longest_part w k path fmt es n (Some e) d)"

lemma longest_part_positive: "longest_part w k path fmt es n e d = (d', Inr c) \<Longrightarrow> 0 < c \<and> c \<le> n"
  by (induction n arbitrary: e d) (fastforce split: prod.split_asm option.split_asm if_split_asm simp: Let_def)+

text \<open>The outer loop: the remaining entries go to as many parts as they need.\<close>

function split_parts :: "inputs \<Rightarrow> sinks \<Rightarrow> string \<Rightarrow> output_entry list \<Rightarrow> archive_set \<Rightarrow> disk
    \<Rightarrow> disk \<times> archive_set \<times> repack_error option" where
  "split_parts w k path [] s d = (d, s, None)"
| "split_parts w k path (e # es) s d =
     (case longest_part w k path (as_format s) (e # es) (length (e # es)) None d of
        (d, Inl x) \<Rightarrow> (d, s, x)
      | (d, Inr c) \<Rightarrow>
          if drop c (e # es) = [] then (d, s, None)
          else let s = s\<lparr>as_part := Suc (as_part s)\<rparr>; path = next_path s in
            split_parts w k path (drop c (e # es)) (s\<lparr>as_paths := path # as_paths s\<rparr>) d)"
  by pat_completeness auto
termination
  by (relation "measure (\<lambda>(w, k, path, es, s, d). length es)") (auto dest!: longest_part_positive [OF sym] simp del: longest_part.simps)

definition set_close :: "inputs \<Rightarrow> sinks \<Rightarrow> archive_set \<Rightarrow> disk \<Rightarrow> disk \<times> archive_set \<times> repack_error option" where
  "set_close w k s d =
     (case close_output k (as_current s) d of
        (d, closed, e) \<Rightarrow>
          let s = s\<lparr>as_current := closed\<rparr> in
          (case e of
             None \<Rightarrow> (d, s, None)
           | Some x \<Rightarrow>
               if \<not> is_file_too_large x then (d, s, Some x)
               else (case remove_file k (op_path closed) d of
                   (d, Some y) \<Rightarrow> (d, s, Some y)
                 | (d, None) \<Rightarrow> split_parts w k (op_path closed) (as_entries s) s d)))"

definition is_output_path :: "archive_set \<Rightarrow> string \<Rightarrow> bool" where
  "is_output_path s path \<longleftrightarrow> path \<in> set (as_paths s)"

section \<open>The walk over the source\<close>

text \<open>What the walk needs of an archive set: to add directories and files, and to know the outputs.\<close>

record 's adder =
  ad_dir :: "string \<Rightarrow> int \<Rightarrow> 's \<Rightarrow> 's \<times> repack_error option"
  ad_file :: "file_source \<Rightarrow> 's \<Rightarrow> 's \<times> repack_error option"
  ad_output :: "'s \<Rightarrow> string \<Rightarrow> bool"

definition repack_adder :: "inputs \<Rightarrow> sinks \<Rightarrow> (archive_set \<times> disk) adder" where
  "repack_adder w k = \<lparr>
     ad_dir = (\<lambda>name mtime (s, d). case set_add_dir w k name mtime s d of (d, s, e) \<Rightarrow> ((s, d), e)),
     ad_file = (\<lambda>src (s, d). case set_add_file w k src s d of (d, s, e) \<Rightarrow> ((s, d), e)),
     ad_output = (\<lambda>(s, d). is_output_path s)\<rparr>"

fun add_zip_members :: "'s adder \<Rightarrow> string \<Rightarrow> string \<Rightarrow> nat \<Rightarrow> zip_member list \<Rightarrow> 's \<Rightarrow> 's \<times> repack_error option" where
  "add_zip_members a path stem i [] s = (s, None)"
| "add_zip_members a path stem i (m # ms) s =
     (case safe_member_path (zm_name m) of
        Inl e \<Rightarrow> (s, Some e)
      | Inr member \<Rightarrow>
          let name = stem @ ''/'' @ member in
          (case (if zm_dir m then ad_dir a name (zm_mtime m) s
              else ad_file a \<lparr>src_name = name, src_size = sint (zm_size m), src_mtime = zm_mtime m, src_ref = Zip_member path i\<rparr> s) of
             (s, Some e) \<Rightarrow> (s, Some e)
           | (s, None) \<Rightarrow> add_zip_members a path stem (Suc i) ms s))"

definition add_zip :: "inputs \<Rightarrow> 's adder \<Rightarrow> string \<Rightarrow> string \<Rightarrow> 's \<Rightarrow> 's \<times> repack_error option" where
  "add_zip w a path stem s =
     (case in_zip w path of Inl e \<Rightarrow> (s, Some e) | Inr ms \<Rightarrow> add_zip_members a path stem 0 ms s)"

fun add_tar_members :: "'s adder \<Rightarrow> string \<Rightarrow> string \<Rightarrow> nat \<Rightarrow> tar_member list \<Rightarrow> repack_error option \<Rightarrow> 's \<Rightarrow> 's \<times> repack_error option" where
  "add_tar_members a path stem i [] end_err s = (s, end_err)"
| "add_tar_members a path stem i (m # ms) end_err s =
     (case safe_member_path (tm_name m) of
        Inl e \<Rightarrow> (s, Some e)
      | Inr member \<Rightarrow>
          let name = stem @ ''/'' @ member in
          (case (case tm_type m of
                Tar_dir_type \<Rightarrow> ad_dir a name (tm_mtime m) s
              | Tar_regular \<Rightarrow> ad_file a \<lparr>src_name = name, src_size = tm_size m, src_mtime = tm_mtime m, src_ref = Tar_member path i\<rparr> s
              | Tar_other \<Rightarrow> (s, Some (Unsupported_member (tm_name m)))) of
             (s, Some e) \<Rightarrow> (s, Some e)
           | (s, None) \<Rightarrow> add_tar_members a path stem (Suc i) ms end_err s))"

definition add_tar :: "inputs \<Rightarrow> 's adder \<Rightarrow> string \<Rightarrow> string \<Rightarrow> 's \<Rightarrow> 's \<times> repack_error option" where
  "add_tar w a path stem s =
     (case in_tar w (tar_compression path) path of
        Inl e \<Rightarrow> (s, Some e)
      | Inr (ms, end_err) \<Rightarrow> add_tar_members a path stem 0 ms end_err s)"

definition add_input :: "inputs \<Rightarrow> bool \<Rightarrow> 's adder \<Rightarrow> string \<Rightarrow> string \<Rightarrow> int \<Rightarrow> 's \<Rightarrow> 's \<times> repack_error option" where
  "add_input w zip_out a path archive_name mtime s =
     (let kind = input_format path in
      if kind = ''zip'' \<or> kind = ''tar'' then
        (case archive_stem archive_name kind of
           Inl e \<Rightarrow> (s, Some e)
         | Inr stem \<Rightarrow> (case ad_dir a stem mtime s of
             (s, Some e) \<Rightarrow> (s, Some e)
           | (s, None) \<Rightarrow> if kind = ''zip'' then add_zip w a path stem s else add_tar w a path stem s))
      else if kind = ''gz'' then
        (case archive_stem archive_name kind of
           Inl e \<Rightarrow> (s, Some e)
         | Inr name \<Rightarrow> (case gzip_file_source w path name (\<not> zip_out) of
             Inl e \<Rightarrow> (s, Some e)
           | Inr src \<Rightarrow> ad_file a src s))
      else
        (case regular_file_source w path archive_name of
           Inl e \<Rightarrow> (s, Some e)
         | Inr src \<Rightarrow> ad_file a src s))"

definition verdict_of :: "'s \<times> 'e option \<Rightarrow> 's \<times> 'e verdict" where
  "verdict_of r = (case r of (s, None) \<Rightarrow> (s, Go_on) | (s, Some e) \<Rightarrow> (s, Stop e))"

definition visit_source :: "inputs \<Rightarrow> bool \<Rightarrow> 's adder \<Rightarrow> string \<Rightarrow> string \<Rightarrow> ('s, repack_error) visitor" where
  "visit_source w zip_out a source root_name path name n failed s =
     (case n of
        None \<Rightarrow> (s, Stop (in_io w path))
      | Some nd \<Rightarrow>
          if failed then (s, Stop (in_io w path))
          else if path = source then (s, Go_on)
          else if ad_output a s path then (s, if is_dir_node nd then Skip_dir else Go_on)
          else if nd = Link then (s, Stop (Symlink_refused path))
          else (case in_info w path of
              Inl e \<Rightarrow> (s, Stop e)
            | Inr mtime \<Rightarrow> (case path_rel source path of
                None \<Rightarrow> (s, Stop (io_error ''Rel''))
              | Some rel \<Rightarrow>
                  let archive_name = root_name @ ''/'' @ rel in
                  verdict_of (if is_dir_node nd then ad_dir a archive_name mtime s
                    else add_input w zip_out a path archive_name mtime s))))"

definition walk_source :: "inputs \<Rightarrow> bool \<Rightarrow> 's adder \<Rightarrow> string \<Rightarrow> 's \<Rightarrow> 's \<times> repack_error option" where
  "walk_source w zip_out a source s =
     (case safe_member_path (path_base source) of
        Inl e \<Rightarrow> (s, Some e)
      | Inr root_name \<Rightarrow> (case in_stat w source of
          Inl e \<Rightarrow> (s, Some e)
        | Inr (_, mtime) \<Rightarrow> (case ad_dir a root_name mtime s of
            (s, Some e) \<Rightarrow> (s, Some e)
          | (s, None) \<Rightarrow> walk_dir (visit_source w zip_out a source root_name) source (in_tree w source) s)))"

section \<open>A run\<close>

text \<open>The end of \<^verbatim>\<open>run\<close>: a failed walk or close removes the current part.\<close>

definition repack_into :: "inputs \<Rightarrow> sinks \<Rightarrow> archive_format \<Rightarrow> string \<Rightarrow> archive_set \<Rightarrow> disk \<Rightarrow> disk \<times> repack_error option" where
  "repack_into w k fmt source s d =
     (case walk_source w (af_name fmt = ''zip'') (repack_adder w k) source (s, d) of
        ((s, d), Some e) \<Rightarrow>
          (case set_close w k s d of (d, s, _) \<Rightarrow> (fst (remove_file k (op_path (as_current s)) d), Some e))
      | ((s, d), None) \<Rightarrow> (case set_close w k s d of
          (d, s, Some e) \<Rightarrow> (fst (remove_file k (op_path (as_current s)) d), Some e)
        | (d, s, None) \<Rightarrow> (d, None)))"

text \<open>\<open>lstat\<close> is the error of examining the destination that is not its absence.\<close>

definition repack_run :: "inputs \<Rightarrow> sinks \<Rightarrow> repack_error option \<Rightarrow> string \<Rightarrow> string \<Rightarrow> disk \<Rightarrow> disk \<times> repack_error option" where
  "repack_run w k lstat source_arg destination_arg d =
     (case Option.bind (abs_in (in_cwd w) source_arg) (in_links w) of
        None \<Rightarrow> (d, Some (in_io w source_arg))
      | Some source \<Rightarrow> (case in_stat w source of
          Inl e \<Rightarrow> (d, Some e)
        | Inr _ \<Rightarrow>
            if \<not> (case in_tree w source of Some n \<Rightarrow> is_dir_node n | None \<Rightarrow> False) then (d, Some (No_source_dir source_arg))
            else (case abs_in (in_cwd w) destination_arg of
                None \<Rightarrow> (d, Some (in_io w destination_arg))
              | Some destination \<Rightarrow> (case format_for_destination destination of
                  Inl e \<Rightarrow> (d, Some e)
                | Inr fmt \<Rightarrow>
                    if dk_files d destination \<noteq> None then (d, Some (Destination_exists destination_arg))
                    else if lstat \<noteq> None then (d, lstat)
                    else (case new_archive_set k destination fmt d of
                        (d, Inl e) \<Rightarrow> (d, Some e)
                      | (d, Inr s) \<Rightarrow> repack_into w k fmt source s d)))))"

text \<open>\<^verbatim>\<open>main\<close>: there are no flags but the help; the exit status.\<close>

definition repack_main :: "(string \<Rightarrow> bool) \<Rightarrow> inputs \<Rightarrow> sinks \<Rightarrow> repack_error option \<Rightarrow> string list \<Rightarrow> disk \<Rightarrow> disk \<times> nat" where
  "repack_main dur w k lstat args d =
     (case parse_flags dur (\<lambda>_. None) [] args of
        Inl e \<Rightarrow> (d, if e = Help_requested then 0 else 2)
      | Inr (_, [src, dst]) \<Rightarrow> (case repack_run w k lstat src dst d of (d, None) \<Rightarrow> (d, 0) | (d, Some _) \<Rightarrow> (d, 2))
      | Inr _ \<Rightarrow> (d, 2))"

end
