(* ===== verification/Archive_Parts.thy ===== *)
theory Archive_Parts
  imports Archive_Repack
begin

text \<open>
  What a run of \<open>Archive_Repack\<close> leaves on the disk. The plan is the walk over the source with an adder that only
  collects the members; a run that reports success has written exactly the planned members, in order, into complete
  closed parts, whatever rollovers the disk forced, and has touched nothing else.
\<close>

section \<open>The plan\<close>

definition plan_member :: "string \<Rightarrow> member_kind \<Rightarrow> (string \<Rightarrow> output_entry) \<Rightarrow> claims \<times> output_entry list
    \<Rightarrow> (claims \<times> output_entry list) \<times> repack_error option" where
  "plan_member raw kind mk t =
     (case safe_member_path raw of
        Inl e \<Rightarrow> (t, Some e)
      | Inr name \<Rightarrow> (case can_add (fst t) name kind of
          Inl e \<Rightarrow> (t, Some e)
        | Inr False \<Rightarrow> (t, None)
        | Inr True \<Rightarrow> (((name, kind) # fst t, snd t @ [mk name]), None)))"

definition plan_adder :: "(claims \<times> output_entry list) adder" where
  "plan_adder = \<lparr>
     ad_dir = (\<lambda>name mtime. plan_member name Member_dir (\<lambda>n. Entry_dir n mtime)),
     ad_file = (\<lambda>src. plan_member (src_name src) Member_file (\<lambda>n. Entry_file (src\<lparr>src_name := n\<rparr>))),
     ad_output = (\<lambda>t path. False)\<rparr>"

definition planned :: "inputs \<Rightarrow> bool \<Rightarrow> string \<Rightarrow> (claims \<times> output_entry list) \<times> repack_error option" where
  "planned w zip_out source = walk_source w zip_out plan_adder source ([], [])"

text \<open>The complete record of an entry in an archive.\<close>

definition entry_ops :: "inputs \<Rightarrow> bool \<Rightarrow> output_entry \<Rightarrow> archive_op list" where
  "entry_ops w zip_out e =
     (case e of
        Entry_dir name mtime \<Rightarrow> [if zip_out then Zip_dir (name @ ''/'') mtime else Tar_dir name mtime]
      | Entry_file src \<Rightarrow>
          (if zip_out then Zip_file (src_name src) (src_mtime src) else Tar_file (src_name src) (src_size src) (src_mtime src))
          # (case open_source w (src_ref src) of
               Inr (chunks, None) \<Rightarrow> map Data (filter (\<lambda>c. c \<noteq> []) chunks) | _ \<Rightarrow> []))"

definition part_ops :: "inputs \<Rightarrow> bool \<Rightarrow> output_entry list \<Rightarrow> archive_op list" where
  "part_ops w zip_out es = concat (map (entry_ops w zip_out) es)"

lemma part_ops_simps [simp]: "part_ops w z [] = []" "part_ops w z (es @ fs) = part_ops w z es @ part_ops w z fs"
  "part_ops w z (e # es) = entry_ops w z e @ part_ops w z es"
  by (simp_all add: part_ops_def)

section \<open>The disk\<close>

text \<open>An operation on an output changes its file only, which stays an archive in progress.\<close>

definition writes :: "string \<Rightarrow> disk \<Rightarrow> disk \<Rightarrow> bool" where
  "writes path d d' \<longleftrightarrow> (\<exists>ops. dk_files d' = (dk_files d)(path \<mapsto> Archive ops False))"

lemma dk_files_tick [simp]: "dk_files (tick d) = dk_files d"
  by (simp add: tick_def)

lemma dk_files_put [simp]: "dk_files (put_file path f d) = (dk_files d)(path := f)"
  by (simp add: put_file_def)

lemma writes_trans: "writes p d d' \<Longrightarrow> writes p d' d'' \<Longrightarrow> writes p d d''"
  by (auto simp: writes_def)

definition only_at :: "string \<Rightarrow> disk \<Rightarrow> disk \<Rightarrow> bool" where
  "only_at path d d' \<longleftrightarrow> (\<forall>q. q \<noteq> path \<longrightarrow> dk_files d' q = dk_files d q)"

lemma only_at_trans: "only_at p d d' \<Longrightarrow> only_at p d' d'' \<Longrightarrow> only_at p d d''"
  by (simp add: only_at_def)

lemma writes_only: "writes p d d' \<Longrightarrow> only_at p d d'"
  by (auto simp: writes_def only_at_def)

lemma write_op_writes: "writes (op_path out) d (fst (write_op k out x d))"
  by (auto simp: write_op_def writes_def Let_def split: option.split)

lemma copy_stream_writes:
  "copy_stream k out cs e d = (d', r) \<Longrightarrow> dk_files d' = dk_files d \<or> writes (op_path out) d d'"
proof (induction cs arbitrary: d)
  case (Cons c cs)
  show ?case
  proof (cases "c = []")
    case False
    obtain d1 r1 where w: "write_op k out (Data c) d = (d1, r1)"
      by fastforce
    with write_op_writes [of out d k "Data c"] have "writes (op_path out) d d1"
      by simp
    with Cons.IH [of d1] Cons.prems False w show ?thesis
      by (cases r1) (auto simp: writes_def)
  qed (use Cons in simp)
qed simp

lemma add_entry_writes: "add_entry w k out e d = (d', r) \<Longrightarrow> writes (op_path out) d d'"
proof (cases e)
  case (Entry_dir name mtime)
  assume "add_entry w k out e d = (d', r)"
  then show ?thesis
    using write_op_writes [of out d k "if is_zip out then Zip_dir (name @ ''/'') mtime else Tar_dir name mtime"] Entry_dir
    by (simp add: add_entry_def output_add_dir_def)
next
  case (Entry_file src)
  assume a: "add_entry w k out e d = (d', r)"
  obtain d1 r1 where w: "write_op k out (if is_zip out then Zip_file (src_name src) (src_mtime src)
      else Tar_file (src_name src) (src_size src) (src_mtime src)) d = (d1, r1)"
    by fastforce
  have w1: "writes (op_path out) d d1"
    using write_op_writes w by (metis fst_conv)
  have "d' = d1 \<or> (\<exists>cs e. copy_stream k out cs e d1 = (d', r))"
    using a w by (auto simp: add_entry_def output_add_file_def Entry_file split: option.split_asm sum.split_asm)
  with w1 show ?thesis
    by (auto dest!: copy_stream_writes simp: writes_def)
qed

lemma write_op_ok:
  "write_op k out x d = (d', None) \<Longrightarrow> dk_files d (op_path out) = Some (Archive ops False)
     \<Longrightarrow> dk_files d' = (dk_files d)(op_path out \<mapsto> Archive (ops @ [x]) False)"
  by (auto simp: write_op_def Let_def log_at_def split: option.split_asm)

lemma copy_stream_ok:
  "copy_stream k out cs e d = (d', None) \<Longrightarrow> dk_files d (op_path out) = Some (Archive ops False)
     \<Longrightarrow> e = None \<and> dk_files d' = (dk_files d)(op_path out \<mapsto> Archive (ops @ map Data (filter (\<lambda>c. c \<noteq> []) cs)) False)"
proof (induction cs arbitrary: d ops)
  case (Cons c cs)
  show ?case
  proof (cases "c = []")
    case False
    then obtain d1 where w: "write_op k out (Data c) d = (d1, None)" and c: "copy_stream k out cs e d1 = (d', None)"
      using Cons.prems(1) by (auto split: prod.split_asm option.split_asm)
    from write_op_ok [OF w Cons.prems(2)] have d1: "dk_files d1 = (dk_files d)(op_path out \<mapsto> Archive (ops @ [Data c]) False)" .
    then have p: "dk_files d1 (op_path out) = Some (Archive (ops @ [Data c]) False)"
      by simp
    show ?thesis
      using Cons.IH [OF c p] False unfolding d1 by (simp add: fun_eq_iff)
  qed (use Cons in simp)
qed (simp add: fun_upd_idem)

lemma add_entry_ok:
  assumes "add_entry w k out e d = (d', None)" "dk_files d (op_path out) = Some (Archive ops False)"
  shows "dk_files d' = (dk_files d)(op_path out \<mapsto> Archive (ops @ entry_ops w (is_zip out) e) False)"
proof (cases e)
  case (Entry_dir name mtime)
  then show ?thesis
    using assms by (auto simp: add_entry_def output_add_dir_def entry_ops_def dest: write_op_ok)
next
  case (Entry_file src)
  let ?h = "if is_zip out then Zip_file (src_name src) (src_mtime src) else Tar_file (src_name src) (src_size src) (src_mtime src)"
  obtain d1 cs r where w: "write_op k out ?h d = (d1, None)" and s: "open_source w (src_ref src) = Inr (cs, r)"
    and c: "copy_stream k out cs r d1 = (d', None)"
    using assms(1) by (auto simp: add_entry_def output_add_file_def Entry_file split: prod.split_asm option.split_asm sum.split_asm)
  from write_op_ok [OF w assms(2)] have "dk_files d1 = (dk_files d)(op_path out \<mapsto> Archive (ops @ [?h]) False)" .
  with copy_stream_ok [OF c] s show ?thesis
    by (simp add: entry_ops_def Entry_file)
qed

lemma add_entries_ok:
  "add_entries w k out es d = (d', None) \<Longrightarrow> dk_files d (op_path out) = Some (Archive ops False)
     \<Longrightarrow> dk_files d' = (dk_files d)(op_path out \<mapsto> Archive (ops @ part_ops w (is_zip out) es) False)"
proof (induction es arbitrary: d ops)
  case (Cons e es)
  then obtain d1 where a: "add_entry w k out e d = (d1, None)" and b: "add_entries w k out es d1 = (d', None)"
    by (auto split: prod.split_asm option.split_asm)
  have d1: "dk_files d1 = (dk_files d)(op_path out \<mapsto> Archive (ops @ entry_ops w (is_zip out) e) False)"
    by (rule add_entry_ok [OF a Cons.prems(2)])
  then have p: "dk_files d1 (op_path out) = Some (Archive (ops @ entry_ops w (is_zip out) e) False)"
    by simp
  show ?case
    using Cons.IH [OF b p] unfolding d1 by (simp add: fun_eq_iff)
qed (simp add: fun_upd_idem)

lemma add_entries_only: "add_entries w k out es d = (d', r) \<Longrightarrow> only_at (op_path out) d d'"
proof (induction es arbitrary: d)
  case (Cons e es)
  obtain d1 r1 where a: "add_entry w k out e d = (d1, r1)"
    by fastforce
  then have "only_at (op_path out) d d1"
    by (rule writes_only [OF add_entry_writes])
  moreover have "only_at (op_path out) d1 d'"
    using Cons a by (cases r1) (auto simp: only_at_def)
  ultimately show ?case
    by (rule only_at_trans)
qed (simp add: only_at_def)

lemma new_output_ok:
  "new_output k path fmt d = (d', Inr out) \<Longrightarrow> dk_files d path = None \<and> op_path out = path \<and> op_format out = fmt
     \<and> \<not> op_closed out \<and> dk_files d' = (dk_files d)(path \<mapsto> Archive [] False)"
  by (auto simp: new_output_def Let_def split: if_split_asm option.split_asm)

lemma close_output_ok:
  "close_output k out d = (d', out', None) \<Longrightarrow> \<not> op_closed out
     \<Longrightarrow> dk_files d' = (dk_files d)(op_path out \<mapsto> Archive (log_at d (op_path out)) True)"
  by (auto simp: close_output_def Let_def split: if_split_asm)

lemma close_output_only:
  "close_output k out d = (d', out', r) \<Longrightarrow> op_path out' = op_path out \<and> only_at (op_path out) d d'"
  by (auto simp: close_output_def Let_def only_at_def split: if_split_asm)

lemma remove_file_ok: "remove_file k path d = (d', None) \<Longrightarrow> dk_files d' = (dk_files d)(path := None)"
  by (auto simp: remove_file_def split: if_split_asm option.split_asm)

lemma remove_file_only: "only_at path d (fst (remove_file k path d))"
  by (auto simp: remove_file_def only_at_def split: option.split)

section \<open>The names of the parts\<close>

lemma part_path_inj: "part_path dest fmt m = part_path dest fmt n \<Longrightarrow> m = n"
proof -
  assume a: "part_path dest fmt m = part_path dest fmt n"
  have len: "length (part_path dest fmt i) = length dest \<longleftrightarrow> i = 1" for i
    by (simp add: part_path_def Let_def)
  then have "m = 1 \<longleftrightarrow> n = 1"
    using a by metis
  moreover have "m = n" if "m \<noteq> 1" "n \<noteq> 1"
  proof -
    have "show_nat m = show_nat n"
      using a that by (simp add: part_path_def Let_def)
    then show ?thesis
      using digits_val_show_nat by (metis of_nat_eq_iff)
  qed
  ultimately show ?thesis
    by blast
qed

lemma part_path_eq [simp]: "part_path dest fmt m = part_path dest fmt n \<longleftrightarrow> m = n"
  using part_path_inj by blast

section \<open>Finished parts\<close>

text \<open>
  Relative to the disk \<open>d\<close> at the start: the parts \<open>ps\<close> are complete archives under the first part names, none of
  them took the place of a file, and all files but those and the one of the next part are as they were.
\<close>

definition parts_at :: "inputs \<Rightarrow> string \<Rightarrow> archive_format \<Rightarrow> disk \<Rightarrow> output_entry list list \<Rightarrow> disk \<Rightarrow> bool" where
  "parts_at w dest fmt d ps d' \<longleftrightarrow>
     (\<forall>i < length ps. dk_files d' (part_path dest fmt (Suc i)) = Some (Archive (part_ops w (af_name fmt = ''zip'') (ps ! i)) True)
        \<and> dk_files d (part_path dest fmt (Suc i)) = None)
     \<and> (\<forall>q. q \<notin> part_path dest fmt ` {1..Suc (length ps)} \<longrightarrow> dk_files d' q = dk_files d q)"

lemma parts_at_step:
  assumes "parts_at w dest fmt d ps d1" "only_at (part_path dest fmt (Suc (length ps))) d1 d2"
  shows "parts_at w dest fmt d ps d2"
proof -
  have "dk_files d2 (part_path dest fmt (Suc i)) = dk_files d1 (part_path dest fmt (Suc i))" if "i < length ps" for i
    using assms(2) that by (simp add: only_at_def)
  moreover have "dk_files d2 q = dk_files d1 q" if "q \<notin> part_path dest fmt ` {1..Suc (length ps)}" for q
    using assms(2) that by (auto simp: only_at_def)
  ultimately show ?thesis
    using assms(1) by (simp add: parts_at_def)
qed

lemma parts_at_finish:
  assumes "parts_at w dest fmt d ps d1" "dk_files d (part_path dest fmt (Suc (length ps))) = None"
    "dk_files d1 (part_path dest fmt (Suc (length ps))) = Some (Archive (part_ops w (af_name fmt = ''zip'') es) True)"
  shows "parts_at w dest fmt d (ps @ [es]) d1"
    and "dk_files d1 (part_path dest fmt (Suc (Suc (length ps)))) = dk_files d (part_path dest fmt (Suc (Suc (length ps))))"
proof -
  show "parts_at w dest fmt d (ps @ [es]) d1"
    using assms by (simp add: parts_at_def nth_append less_Suc_eq atLeastAtMostSuc_conv)
  have "part_path dest fmt (Suc (Suc (length ps))) \<notin> part_path dest fmt ` {1..Suc (length ps)}"
    by auto
  with assms(1) show "dk_files d1 (part_path dest fmt (Suc (Suc (length ps)))) = dk_files d (part_path dest fmt (Suc (Suc (length ps))))"
    by (simp add: parts_at_def)
qed

section \<open>The archive set against the plan\<close>

text \<open>The shape of a set in use: finished parts \<open>ps\<close>, and the file of the current part, whatever it holds.\<close>

definition set_shape :: "inputs \<Rightarrow> string \<Rightarrow> archive_format \<Rightarrow> disk \<Rightarrow> output_entry list list \<Rightarrow> archive_set \<Rightarrow> disk \<Rightarrow> bool" where
  "set_shape w dest fmt d ps s d' \<longleftrightarrow>
     as_destination s = dest \<and> as_format s = fmt \<and> as_part s = Suc (length ps)
     \<and> as_current s = \<lparr>op_path = part_path dest fmt (Suc (length ps)), op_format = fmt, op_closed = False\<rparr>
     \<and> set (as_paths s) \<subseteq> range (part_path dest fmt)
     \<and> parts_at w dest fmt d ps d' \<and> dk_files d (part_path dest fmt (Suc (length ps))) = None"

definition current_holds :: "inputs \<Rightarrow> archive_set \<Rightarrow> disk \<Rightarrow> bool" where
  "current_holds w s d \<longleftrightarrow>
     dk_files d (op_path (as_current s)) = Some (Archive (part_ops w (is_zip (as_current s)) (as_entries s)) False)"

lemma set_shape_step:
  "set_shape w dest fmt d ps s d1 \<Longrightarrow> only_at (op_path (as_current s)) d1 d2 \<Longrightarrow> set_shape w dest fmt d ps s d2"
  by (auto simp: set_shape_def intro: parts_at_step)

lemma set_shape_more [simp]:
  "set_shape w dest fmt d ps (s\<lparr>as_claims := cl, as_entries := es\<rparr>) d' = set_shape w dest fmt d ps s d'"
  by (simp add: set_shape_def)

lemma rollover_ok:
  assumes "rollover w k s cause d1 = (d2, s', None)" "set_shape w dest fmt d ps s d1"
  shows "set_shape w dest fmt d (ps @ [as_entries s]) s' d2 \<and> current_holds w s' d2 \<and> as_entries s' = []
    \<and> as_claims s' = as_claims s"
proof -
  let ?path = "part_path dest fmt (Suc (length ps))"
  let ?next = "part_path dest fmt (Suc (Suc (length ps)))"
  have cur: "op_path (as_current s) = ?path" "as_format s = fmt" "as_part s = Suc (length ps)" "as_destination s = dest"
    and at: "parts_at w dest fmt d ps d1" and fresh: "dk_files d ?path = None"
    and paths: "set (as_paths s) \<subseteq> range (part_path dest fmt)"
    using assms(2) by (simp_all add: set_shape_def)
  obtain da closed ra where a: "close_output k (as_current s) d1 = (da, closed, ra)"
    by (cases "close_output k (as_current s) d1") auto
  with assms(1) obtain db where b: "remove_file k ?path da = (db, None)"
    using cur by (auto simp: rollover_def Let_def split: prod.split_asm option.split_asm)
  with assms(1) a obtain dc rebuilt where c: "new_output k ?path fmt db = (dc, Inr rebuilt)"
    using cur by (auto simp: rollover_def Let_def split: prod.split_asm sum.split_asm)
  with assms(1) a b obtain dd where e: "add_entries w k rebuilt (as_entries s) dc = (dd, None)"
    using cur by (auto simp: rollover_def Let_def split: prod.split_asm option.split_asm)
  with assms(1) a b c obtain de o' where f: "close_output k rebuilt dd = (de, o', None)"
    using cur by (auto simp: rollover_def Let_def split: prod.split_asm option.split_asm)
  with assms(1) a b c e obtain out where g: "new_output k ?next fmt de = (d2, Inr out)"
    and s': "s' = s\<lparr>as_current := out, as_part := Suc (as_part s), as_paths := ?next # as_paths s, as_entries := []\<rparr>"
    using cur by (auto simp: rollover_def Let_def next_path_def split: prod.split_asm sum.split_asm)
  have re: "op_path rebuilt = ?path" "op_format rebuilt = fmt" "\<not> op_closed rebuilt" "dk_files dc = (dk_files db)(?path \<mapsto> Archive [] False)"
    using new_output_ok [OF c] by simp_all
  then have zip: "is_zip rebuilt \<longleftrightarrow> af_name fmt = ''zip''"
    by (simp add: is_zip_def)
  have "dk_files dd = (dk_files dc)(?path \<mapsto> Archive (part_ops w (af_name fmt = ''zip'') (as_entries s)) False)"
    using add_entries_ok [OF e, of "[]"] re zip by simp
  then have whole: "dk_files de ?path = Some (Archive (part_ops w (af_name fmt = ''zip'') (as_entries s)) True)"
    using close_output_ok [OF f] re by (simp add: log_at_def)
  have "only_at ?path d1 da" "only_at ?path da db" "only_at ?path db dc" "only_at ?path dc dd" "only_at ?path dd de"
    using close_output_only [OF a] remove_file_only [of ?path da k] b re add_entries_only [OF e] close_output_only [OF f] cur
    by (auto simp: only_at_def)
  then have "only_at ?path d1 de"
    by (blast intro: only_at_trans)
  then have at': "parts_at w dest fmt d ps de"
    by (rule parts_at_step [OF at])
  note fin = parts_at_finish [OF at' fresh whole]
  have out: "op_path out = ?next" "op_format out = fmt" "\<not> op_closed out" "dk_files d2 = (dk_files de)(?next \<mapsto> Archive [] False)"
    and new: "dk_files de ?next = None"
    using new_output_ok [OF g] by simp_all
  have "parts_at w dest fmt d (ps @ [as_entries s]) d2"
    using parts_at_step [OF fin(1), of d2] out(4) by (simp add: only_at_def)
  moreover have "out = \<lparr>op_path = ?next, op_format = fmt, op_closed = False\<rparr>"
    using out by (cases out) simp
  ultimately show ?thesis
    using cur paths fin(2) new out(4) by (simp add: set_shape_def current_holds_def s')
qed

lemma put_entry_ok:
  assumes "put_entry w k s name kind e d1 = (d2, s', None)" "set_shape w dest fmt d ps s d1" "current_holds w s d1"
  shows "\<exists>ps'. set_shape w dest fmt d ps' s' d2 \<and> current_holds w s' d2 \<and> as_claims s' = (name, kind) # as_claims s
    \<and> concat ps' @ as_entries s' = concat ps @ as_entries s @ [e]"
proof -
  have add: "set_shape w dest fmt d qs (t\<lparr>as_claims := (name, kind) # as_claims t, as_entries := as_entries t @ [e]\<rparr>) db
      \<and> current_holds w (t\<lparr>as_claims := (name, kind) # as_claims t, as_entries := as_entries t @ [e]\<rparr>) db"
    if "add_entry w k (as_current t) e da = (db, None)" "set_shape w dest fmt d qs t da" "current_holds w t da" for t qs da db
  proof -
    have "dk_files db = (dk_files da)(op_path (as_current t) \<mapsto>
        Archive (part_ops w (is_zip (as_current t)) (as_entries t) @ entry_ops w (is_zip (as_current t)) e) False)"
      using add_entry_ok [OF that(1)] that(3) by (simp add: current_holds_def)
    then show ?thesis
      using set_shape_step [OF that(2), of db] by (simp add: current_holds_def only_at_def)
  qed
  obtain da r where a: "add_entry w k (as_current s) e d1 = (da, r)"
    by fastforce
  show ?thesis
  proof (cases r)
    case None
    with assms(1) a have "d2 = da" "s' = s\<lparr>as_claims := (name, kind) # as_claims s, as_entries := as_entries s @ [e]\<rparr>"
      by (simp_all add: put_entry_def Let_def)
    with add [OF _ assms(2,3)] a None show ?thesis
      by (intro exI [of _ ps]) simp
  next
    case (Some x)
    with assms(1) a obtain db t where ro: "rollover w k s x da = (db, t, None)"
      by (auto simp: put_entry_def Let_def split: if_split_asm prod.split_asm option.split_asm)
    with assms(1) a Some obtain dc where c: "add_entry w k (as_current t) e db = (dc, None)"
      by (auto simp: put_entry_def Let_def split: if_split_asm prod.split_asm option.split_asm)
    have s': "d2 = dc" "s' = t\<lparr>as_claims := (name, kind) # as_claims t, as_entries := as_entries t @ [e]\<rparr>"
      using assms(1) a Some ro c by (simp_all add: put_entry_def Let_def split: if_split_asm)
    have "set_shape w dest fmt d ps s da"
      by (rule set_shape_step [OF assms(2) writes_only [OF add_entry_writes [OF a]]])
    from rollover_ok [OF ro this] have t: "set_shape w dest fmt d (ps @ [as_entries s]) t db" "current_holds w t db"
      "as_entries t = []" "as_claims t = as_claims s"
      by blast+
    from add [OF c t(1,2)] t(3,4) show ?thesis
      by (intro exI [of _ "ps @ [as_entries s]"]) (simp add: s')
  qed
qed

section \<open>Two adders in step\<close>

text \<open>
  The interface between the walk and what it feeds: whenever the first adder succeeds on a member, the second one
  does too, and the states stay related; neither takes a path that \<open>ok\<close> admits for an output. Then the whole walk does.
\<close>

locale adder_sim =
  fixes a :: "'s adder" and b :: "'t adder" and sim :: "'s \<Rightarrow> 't \<Rightarrow> bool" and ok :: "string \<Rightarrow> bool"
  assumes put_dir: "sim s t \<Longrightarrow> ad_dir a name mtime s = (s', None) \<Longrightarrow> \<exists>t'. ad_dir b name mtime t = (t', None) \<and> sim s' t'"
    and put_src: "sim s t \<Longrightarrow> ad_file a src s = (s', None) \<Longrightarrow> \<exists>t'. ad_file b src t = (t', None) \<and> sim s' t'"
    and outputs: "sim s t \<Longrightarrow> ok path \<Longrightarrow> \<not> ad_output a s path \<and> \<not> ad_output b t path"
begin

lemma zip_members:
  "add_zip_members a path stem i ms s = (s', None) \<Longrightarrow> sim s t
     \<Longrightarrow> \<exists>t'. add_zip_members b path stem i ms t = (t', None) \<and> sim s' t'"
proof (induction ms arbitrary: i s t)
  case (Cons m ms)
  then obtain member where m: "safe_member_path (zm_name m) = Inr member"
    by (auto split: sum.split_asm)
  define name where "name = stem @ CHR ''/'' # member"
  let ?src = "\<lparr>src_name = name, src_size = sint (zm_size m), src_mtime = zm_mtime m, src_ref = Zip_member path i\<rparr>"
  from Cons.prems(1) m obtain s1 where s1: "(if zm_dir m then ad_dir a name (zm_mtime m) s else ad_file a ?src s) = (s1, None)"
    and rest: "add_zip_members a path stem (Suc i) ms s1 = (s', None)"
    by (auto simp: Let_def name_def [symmetric] split: prod.split_asm option.split_asm)
  from s1 obtain t1 where t1: "(if zm_dir m then ad_dir b name (zm_mtime m) t else ad_file b ?src t) = (t1, None)" "sim s1 t1"
    by (cases "zm_dir m") (auto dest: put_dir [OF Cons.prems(2)] put_src [OF Cons.prems(2)])
  from Cons.IH [OF rest t1(2)] show ?case
    using t1(1) by (simp add: m Let_def name_def [symmetric])
qed simp

lemma tar_members:
  "add_tar_members a path stem i ms e s = (s', None) \<Longrightarrow> sim s t
     \<Longrightarrow> \<exists>t'. add_tar_members b path stem i ms e t = (t', None) \<and> sim s' t'"
proof (induction ms arbitrary: i s t)
  case (Cons m ms)
  then obtain member where m: "safe_member_path (tm_name m) = Inr member"
    by (auto split: sum.split_asm)
  define name where "name = stem @ CHR ''/'' # member"
  let ?src = "\<lparr>src_name = name, src_size = tm_size m, src_mtime = tm_mtime m, src_ref = Tar_member path i\<rparr>"
  from Cons.prems(1) m obtain s1 where s1: "(case tm_type m of
      Tar_dir_type \<Rightarrow> ad_dir a name (tm_mtime m) s
    | Tar_regular \<Rightarrow> ad_file a ?src s
    | Tar_other \<Rightarrow> (s, Some (Unsupported_member (tm_name m)))) = (s1, None)"
    and rest: "add_tar_members a path stem (Suc i) ms e s1 = (s', None)"
    by (auto simp: Let_def name_def [symmetric] split: prod.split_asm option.split_asm)
  from s1 obtain t1 where t1: "(case tm_type m of
      Tar_dir_type \<Rightarrow> ad_dir b name (tm_mtime m) t
    | Tar_regular \<Rightarrow> ad_file b ?src t
    | Tar_other \<Rightarrow> (t, Some (Unsupported_member (tm_name m)))) = (t1, None)" "sim s1 t1"
    by (cases "tm_type m") (auto dest: put_dir [OF Cons.prems(2)] put_src [OF Cons.prems(2)])
  from Cons.IH [OF rest t1(2)] show ?case
    using t1(1) by (simp add: m Let_def name_def [symmetric])
qed simp

lemma expand:
  assumes "(if z then add_zip w a path stem s else add_tar w a path stem s) = (s', None)" "sim s t"
  shows "\<exists>t'. (if z then add_zip w b path stem t else add_tar w b path stem t) = (t', None) \<and> sim s' t'"
proof (cases z)
  case True
  with assms show ?thesis
    by (auto simp: add_zip_def split: sum.splits intro: zip_members)
next
  case False
  with assms show ?thesis
    by (auto simp: add_tar_def split: sum.splits intro: tar_members)
qed

lemma input:
  assumes "add_input w z a path name mtime s = (s', None)" "sim s t"
  shows "\<exists>t'. add_input w z b path name mtime t = (t', None) \<and> sim s' t'"
proof -
  define kind where "kind = input_format path"
  consider (archive) "kind = ''zip'' \<or> kind = ''tar''" | (gz) "kind = ''gz''" | (plain) "kind \<notin> {''zip'', ''tar'', ''gz''}"
    by blast
  then show ?thesis
  proof cases
    case archive
    then obtain stem where stem: "archive_stem name kind = Inr stem"
      using assms(1) by (auto simp: add_input_def kind_def Let_def split: sum.split_asm)
    with assms(1) archive obtain s1 where s1: "ad_dir a stem mtime s = (s1, None)"
      and rest: "(if kind = ''zip'' then add_zip w a path stem s1 else add_tar w a path stem s1) = (s', None)"
      by (auto simp: add_input_def kind_def [symmetric] Let_def split: prod.split_asm option.split_asm)
    from put_dir [OF assms(2) s1] obtain t1 where t1: "ad_dir b stem mtime t = (t1, None)" "sim s1 t1"
      by blast
    from expand [OF rest t1(2)] show ?thesis
      using archive stem t1(1) by (auto simp: add_input_def kind_def [symmetric] Let_def)
  next
    case gz
    with assms show ?thesis
      by (auto simp: add_input_def kind_def [symmetric] Let_def split: sum.splits intro: put_src)
  next
    case plain
    with assms show ?thesis
      by (auto simp: add_input_def kind_def [symmetric] Let_def split: sum.splits intro: put_src)
  qed
qed

end

lemma visit_source_member:
  assumes "path \<noteq> source" "nd \<noteq> Link" "in_info w path = Inr mtime" "path_rel source path = Some rel"
    "\<not> ad_output c u path" "\<not> err"
  shows "visit_source w z c source root_name path name (Some nd) err u = verdict_of
    (if is_dir_node nd then ad_dir c (root_name @ ''/'' @ rel) mtime u
     else add_input w z c path (root_name @ ''/'' @ rel) mtime u)"
  using assms by (simp add: visit_source_def Let_def)

text \<open>A visitor of the walk is then in lockstep with its counterpart.\<close>

sublocale adder_sim \<subseteq> walk: lockstep "visit_source w z a source root_name" "visit_source w z b source root_name" sim
  "\<lambda>path. path = source \<or> ok path" for w z source root_name
proof
  fix s t path name n err s' r
  assume sim: "sim s t" and path: "n \<noteq> None \<Longrightarrow> path = source \<or> ok path"
    and visit: "visit_source w z a source root_name path name n err s = (s', r)" and r: "\<forall>e. r \<noteq> Stop e"
  obtain nd where nd: "n = Some nd" and err: "\<not> err"
    using visit r by (auto simp: visit_source_def split: option.split_asm if_split_asm)
  show "\<exists>t'. visit_source w z b source root_name path name n err t = (t', r) \<and> sim s' t'"
  proof (cases "path = source")
    case True
    then show ?thesis
      using visit sim nd err by (auto simp: visit_source_def)
  next
    case False
    then have out: "\<not> ad_output a s path" "\<not> ad_output b t path"
      using outputs [OF sim] path nd by blast+
    obtain mtime where mtime: "in_info w path = Inr mtime" and link: "nd \<noteq> Link"
      using visit r nd err False out(1) by (auto simp: visit_source_def split: if_split_asm sum.split_asm)
    obtain rel where rel: "path_rel source path = Some rel"
      using visit r nd err False out(1) mtime link by (auto simp: visit_source_def split: if_split_asm option.split_asm)
    define member where "member = root_name @ ''/'' @ rel"
    obtain s1 x where x: "(if is_dir_node nd then ad_dir a member mtime s else add_input w z a path member mtime s) = (s1, x)"
      by fastforce
    have va: "visit_source w z a source root_name path name n err s = verdict_of (s1, x)"
      unfolding nd x [symmetric] member_def by (rule visit_source_member [OF False link mtime rel out(1) err])
    then have s1: "s' = s1" "r = Go_on" "x = None"
      using visit r by (cases x; simp add: verdict_of_def)+
    from x s1 obtain t1 where
      t1: "(if is_dir_node nd then ad_dir b member mtime t else add_input w z b path member mtime t) = (t1, None)" "sim s1 t1"
      by (cases "is_dir_node nd") (auto dest: put_dir [OF sim] input [OF _ sim])
    have "visit_source w z b source root_name path name n err t = verdict_of (t1, None)"
      unfolding nd t1(1) [symmetric] member_def by (rule visit_source_member [OF False link mtime rel out(2) err])
    then have "visit_source w z b source root_name path name n err t = (t1, Go_on)"
      by (simp add: verdict_of_def)
    then show ?thesis
      using t1(2) s1 by simp
  qed
qed

context adder_sim
begin

lemma walk_source_sim:
  assumes "walk_source w z a source s = (s', None)" "sim s t"
    "\<And>n. in_tree w source = Some n \<Longrightarrow> everywhere (\<lambda>path. path = source \<or> ok path) source n"
  shows "\<exists>t'. walk_source w z b source t = (t', None) \<and> sim s' t'"
proof -
  obtain root_name size mtime s1 where r: "safe_member_path (path_base source) = Inr root_name"
    "in_stat w source = Inr (size, mtime)" and s1: "ad_dir a root_name mtime s = (s1, None)"
    and rest: "walk_dir (visit_source w z a source root_name) source (in_tree w source) s1 = (s', None)"
    using assms(1) by (auto simp: walk_source_def split: sum.split_asm prod.split_asm option.split_asm)
  from put_dir [OF assms(2) s1] obtain t1 where t1: "ad_dir b root_name mtime t = (t1, None)" "sim s1 t1"
    by blast
  from walk.walk_dir_agrees [OF rest t1(2) assms(3)] show ?thesis
    using r t1(1) by (simp add: walk_source_def)
qed

end

section \<open>The set implements the plan\<close>

definition set_sim :: "inputs \<Rightarrow> string \<Rightarrow> archive_format \<Rightarrow> disk \<Rightarrow> archive_set \<times> disk \<Rightarrow> claims \<times> output_entry list \<Rightarrow> bool" where
  "set_sim w dest fmt d x t \<longleftrightarrow> (case x of (s, d') \<Rightarrow> as_claims s = fst t
     \<and> (\<exists>ps. set_shape w dest fmt d ps s d' \<and> current_holds w s d' \<and> snd t = concat ps @ as_entries s))"

lemma put_entry_sim:
  assumes "put_entry w k s name kind e d1 = (d2, s', None)" "set_sim w dest fmt d (s, d1) t"
  shows "set_sim w dest fmt d (s', d2) ((name, kind) # fst t, snd t @ [e])"
proof -
  obtain ps where ps: "set_shape w dest fmt d ps s d1" "current_holds w s d1" "snd t = concat ps @ as_entries s"
    and "as_claims s = fst t"
    using assms(2) by (auto simp: set_sim_def)
  with put_entry_ok [OF assms(1) ps(1,2)] show ?thesis
    by (auto simp: set_sim_def)
qed

interpretation repack: adder_sim "repack_adder w k" plan_adder "set_sim w dest fmt d" "\<lambda>path. path \<notin> range (part_path dest fmt)"
  for w k dest fmt d
proof
  fix x t name mtime x'
  assume sim: "set_sim w dest fmt d x t" and a: "ad_dir (repack_adder w k) name mtime x = (x', None)"
  obtain s d1 s' d2 where x: "x = (s, d1)" "x' = (s', d2)"
    by fastforce
  then have "set_add_dir w k name mtime s d1 = (d2, s', None)" "as_claims s = fst t"
    using a sim by (auto simp: repack_adder_def set_sim_def split: prod.split_asm)
  with sim x show "\<exists>t'. ad_dir plan_adder name mtime t = (t', None) \<and> set_sim w dest fmt d x' t'"
    by (cases t) (auto simp: set_add_dir_def plan_adder_def plan_member_def split: sum.splits bool.splits dest: put_entry_sim)
next
  fix x t src x'
  assume sim: "set_sim w dest fmt d x t" and a: "ad_file (repack_adder w k) src x = (x', None)"
  obtain s d1 s' d2 where x: "x = (s, d1)" "x' = (s', d2)"
    by fastforce
  then have "set_add_file w k src s d1 = (d2, s', None)" "as_claims s = fst t"
    using a sim by (auto simp: repack_adder_def set_sim_def split: prod.split_asm)
  with sim x show "\<exists>t'. ad_file plan_adder src t = (t', None) \<and> set_sim w dest fmt d x' t'"
    by (cases t) (auto simp: set_add_file_def plan_adder_def plan_member_def split: sum.splits bool.splits dest: put_entry_sim)
next
  fix x t path
  assume "set_sim w dest fmt d x t" "path \<notin> range (part_path dest fmt)"
  then show "\<not> ad_output (repack_adder w k) x path \<and> \<not> ad_output plan_adder t path"
    by (auto simp: set_sim_def set_shape_def repack_adder_def plan_adder_def is_output_path_def)
qed

section \<open>Closing the set\<close>

definition parts_final :: "inputs \<Rightarrow> string \<Rightarrow> archive_format \<Rightarrow> disk \<Rightarrow> output_entry list list \<Rightarrow> disk \<Rightarrow> bool" where
  "parts_final w dest fmt d ps d' \<longleftrightarrow>
     (\<forall>i < length ps. dk_files d' (part_path dest fmt (Suc i)) = Some (Archive (part_ops w (af_name fmt = ''zip'') (ps ! i)) True)
        \<and> dk_files d (part_path dest fmt (Suc i)) = None)
     \<and> (\<forall>q. q \<notin> part_path dest fmt ` {1..length ps} \<longrightarrow> dk_files d' q = dk_files d q)"

lemma parts_final_at:
  assumes "parts_at w dest fmt d ps d1" "dk_files d1 (part_path dest fmt (Suc (length ps))) = dk_files d (part_path dest fmt (Suc (length ps)))"
  shows "parts_final w dest fmt d ps d1"
proof -
  have "dk_files d1 q = dk_files d q" if "q \<notin> part_path dest fmt ` {1..length ps}" for q
    using assms that by (cases "q = part_path dest fmt (Suc (length ps))") (auto simp: parts_at_def atLeastAtMostSuc_conv)
  then show ?thesis
    using assms(1) by (simp add: parts_at_def parts_final_def)
qed

lemma not_too_large [simp]: "\<not> is_file_too_large (io_error msg)"
  by (simp add: is_file_too_large_def io_error_def)

lemma write_entries_ok:
  assumes "write_entries w k path fmt es d1 = (d2, None)"
  shows "dk_files d1 path = None
    \<and> dk_files d2 = (dk_files d1)(path \<mapsto> Archive (part_ops w (af_name fmt = ''zip'') es) True)"
proof -
  obtain da out where a: "new_output k path fmt d1 = (da, Inr out)"
    using assms by (auto simp: write_entries_def split: prod.split_asm sum.split_asm)
  then obtain db where b: "add_entries w k out es da = (db, None)"
    using assms by (auto simp: write_entries_def split: prod.split_asm option.split_asm)
  with a obtain o' where c: "close_output k out db = (d2, o', None)"
    using assms by (auto simp: write_entries_def split: prod.split_asm)
  have o: "dk_files d1 path = None" "op_path out = path" "op_format out = fmt" "\<not> op_closed out"
    and da: "dk_files da = (dk_files d1)(path \<mapsto> Archive [] False)"
    using new_output_ok [OF a] by simp_all
  have db: "dk_files db = (dk_files da)(path \<mapsto> Archive (part_ops w (af_name fmt = ''zip'') es) False)"
    using add_entries_ok [OF b, of "[]"] o da by (simp add: is_zip_def)
  then have "log_at db path = part_ops w (af_name fmt = ''zip'') es"
    by (simp add: log_at_def)
  then have "dk_files d2 = (dk_files db)(path \<mapsto> Archive (part_ops w (af_name fmt = ''zip'') es) True)"
    using close_output_ok [OF c o(4)] o(2) by simp
  then show ?thesis
    using o(1) unfolding db da by (simp add: fun_eq_iff)
qed

lemma new_output_only: "new_output k path fmt d1 = (d2, r) \<Longrightarrow> only_at path d1 d2"
  using remove_file_only [of path] by (auto simp: new_output_def Let_def only_at_def split: if_split_asm option.split_asm)

lemma write_entries_only: "write_entries w k path fmt es d1 = (d2, r) \<Longrightarrow> only_at path d1 d2"
proof -
  assume a: "write_entries w k path fmt es d1 = (d2, r)"
  obtain da x where n: "new_output k path fmt d1 = (da, x)"
    by fastforce
  show ?thesis
  proof (cases x)
    case (Inl e)
    then show ?thesis
      using a n new_output_only [OF n] by (simp add: write_entries_def)
  next
    case (Inr out)
    obtain db y where b: "add_entries w k out es da = (db, y)"
      by fastforce
    obtain dc o' z where c: "close_output k out db = (dc, o', z)"
      by (cases "close_output k out db") auto
    have p: "op_path out = path"
      using new_output_ok n Inr by blast
    have "d2 = dc"
      using a n Inr b c by (cases y) (simp_all add: write_entries_def)
    with new_output_only [OF n] add_entries_only [OF b] close_output_only [OF c] show ?thesis
      unfolding p by (metis only_at_trans)
  qed
qed

lemma longest_part_ok:
  "longest_part w k path fmt es n x d1 = (d2, Inr c) \<Longrightarrow>
     dk_files d1 path = None \<and> only_at path d1 d2
     \<and> dk_files d2 path = Some (Archive (part_ops w (af_name fmt = ''zip'') (take c es)) True)"
proof (induction n arbitrary: x d1)
  case (Suc n)
  obtain da r where a: "write_entries w k path fmt (take (Suc n) es) d1 = (da, r)"
    by fastforce
  show ?case
  proof (cases r)
    case None
    then show ?thesis
      using Suc.prems a write_entries_ok [of w k path fmt "take (Suc n) es" d1 da] by (simp add: only_at_def)
  next
    case (Some e)
    let ?d = "fst (remove_file k path da)"
    have l: "is_file_too_large e" "longest_part w k path fmt es n (Some e) ?d = (d2, Inr c)"
      using Suc.prems a Some by (auto simp: Let_def split: if_split_asm)
    have "dk_files d1 path = None"
    proof (rule ccontr)
      assume "dk_files d1 path \<noteq> None"
      then have "write_entries w k path fmt (take (Suc n) es) d1 = (tick d1, Some (io_error ''file exists''))"
        by (simp add: write_entries_def new_output_def)
      then show False
        using a Some l(1) by simp
    qed
    moreover have "only_at path d1 d2"
      using write_entries_only [OF a] remove_file_only [of path da k] Suc.IH [OF l(2)] by (metis only_at_trans)
    ultimately show ?thesis
      using Suc.IH [OF l(2)] by simp
  qed
qed simp

lemma longest_part_fails: "longest_part w k path fmt es (Suc n) x d1 = (d2, Inl y) \<Longrightarrow> y \<noteq> None"
proof (induction n arbitrary: x d1)
  case 0
  then show ?case
    by (auto simp: Let_def split: prod.split_asm option.split_asm if_split_asm)
next
  case (Suc n)
  from Suc.prems Suc.IH show ?case
    by (subst (asm) longest_part.simps) (auto simp: Let_def simp del: longest_part.simps split: prod.split_asm option.split_asm if_split_asm)
qed

lemma split_parts_ok:
  "split_parts w k path es s d1 = (d2, s', None) \<Longrightarrow> as_destination s = dest \<Longrightarrow> as_format s = fmt
     \<Longrightarrow> as_part s = Suc (length ps) \<Longrightarrow> path = part_path dest fmt (Suc (length ps)) \<Longrightarrow> parts_at w dest fmt d ps d1
     \<Longrightarrow> dk_files d1 path = dk_files d path
     \<Longrightarrow> \<exists>qs. concat qs = concat ps @ es \<and> parts_final w dest fmt d qs d2"
proof (induction w k path es s d1 arbitrary: ps rule: split_parts.induct)
  case (1 w k path s d1)
  then have "parts_final w dest fmt d ps d2"
    using parts_final_at [of w dest fmt d ps d1] by simp
  then show ?case
    by (intro exI [of _ ps]) simp
next
  case (2 w k path e es s d1)
  let ?l = "longest_part w k path (as_format s) (e # es) (length (e # es)) None d1"
  obtain da c where l: "?l = (da, Inr c)"
  proof (cases ?l)
    case (Pair da r)
    show ?thesis
    proof (cases r)
      case (Inl y)
      then have "y \<noteq> None"
        using Pair longest_part_fails [of w k path "as_format s" "e # es" "length es"] by simp
      with "2.prems"(1) Pair Inl show ?thesis
        by (simp del: longest_part.simps)
    qed (use that Pair in blast)
  qed
  note ok = longest_part_ok [OF l, unfolded "2.prems"(3)]
  have fresh: "dk_files d path = None"
    using ok "2.prems"(7) by simp
  have at: "parts_at w dest fmt d ps da"
    using parts_at_step [OF "2.prems"(6)] ok "2.prems"(5) by blast
  note fin = parts_at_finish [OF at fresh [unfolded "2.prems"(5)], of "take c (e # es)"]
  have whole: "dk_files da (part_path dest fmt (Suc (length ps))) =
      Some (Archive (part_ops w (af_name fmt = ''zip'') (take c (e # es))) True)"
    using ok "2.prems"(5) by simp
  show ?case
  proof (cases "drop c (e # es) = []")
    case True
    then have "d2 = da" "take c (e # es) = e # es"
      using "2.prems"(1) l by (simp_all del: longest_part.simps take_Suc_Cons)
    then show ?thesis
      using parts_final_at [OF fin(1) [OF whole]] fin(2) [OF whole] by (intro exI [of _ "ps @ [e # es]"]) simp
  next
    case False
    let ?s = "s\<lparr>as_part := Suc (as_part s)\<rparr>"
    let ?path = "next_path ?s"
    have path: "?path = part_path dest fmt (Suc (Suc (length ps)))"
      using "2.prems"(2,3,4) by (simp add: next_path_def)
    have "split_parts w k ?path (drop c (e # es)) (?s\<lparr>as_paths := ?path # as_paths ?s\<rparr>) da = (d2, s', None)"
      using "2.prems"(1) l False by (simp add: Let_def del: longest_part.simps)
    from "2.IH" [OF l [symmetric] refl False refl refl this, of "ps @ [take c (e # es)]"]
    have "\<exists>qs. concat qs = concat (ps @ [take c (e # es)]) @ drop c (e # es) \<and> parts_final w dest fmt d qs d2"
      using "2.prems"(2,3,4) path fin(1) [OF whole] fin(2) [OF whole] by simp
    then show ?thesis
      by simp
  qed
qed

lemma set_close_ok:
  assumes "set_close w k s d1 = (d2, s', None)" "set_shape w dest fmt d ps s d1" "current_holds w s d1"
  shows "\<exists>qs. concat qs = concat ps @ as_entries s \<and> parts_final w dest fmt d qs d2"
proof -
  let ?path = "part_path dest fmt (Suc (length ps))"
  have cur: "op_path (as_current s) = ?path" "op_format (as_current s) = fmt" "\<not> op_closed (as_current s)"
    "as_destination s = dest" "as_format s = fmt" "as_part s = Suc (length ps)"
    and at: "parts_at w dest fmt d ps d1" and fresh: "dk_files d ?path = None"
    using assms(2) by (simp_all add: set_shape_def)
  obtain da closed r where a: "close_output k (as_current s) d1 = (da, closed, r)"
    by (cases "close_output k (as_current s) d1") auto
  have at': "parts_at w dest fmt d ps da"
    using parts_at_step [OF at] close_output_only [OF a] cur by simp
  show ?thesis
  proof (cases r)
    case None
    then have "d2 = da"
      using assms(1) a by (simp add: set_close_def Let_def)
    have "dk_files da ?path = Some (Archive (part_ops w (af_name fmt = ''zip'') (as_entries s)) True)"
      using close_output_ok [of k "as_current s" d1 da closed] a None cur assms(3) by (simp add: current_holds_def log_at_def is_zip_def)
    note fin = parts_at_finish [OF at' fresh this]
    show ?thesis
      using parts_final_at [OF fin(1)] fin(2) \<open>d2 = da\<close> by (intro exI [of _ "ps @ [as_entries s]"]) simp
  next
    case (Some x)
    have cp: "op_path closed = ?path"
      using close_output_only [OF a] cur by simp
    obtain db where b: "remove_file k ?path da = (db, None)"
      and c: "split_parts w k ?path (as_entries s) (s\<lparr>as_current := closed\<rparr>) db = (d2, s', None)"
      using assms(1) a Some cp by (auto simp: set_close_def Let_def split: if_split_asm prod.split_asm option.split_asm)
    have "parts_at w dest fmt d ps db"
      using parts_at_step [OF at'] remove_file_only [of ?path da k] b by simp
    moreover have "dk_files db ?path = dk_files d ?path"
      using remove_file_ok [OF b] fresh by simp
    ultimately show ?thesis
      using split_parts_ok [OF c, of dest fmt ps d] cur by simp
  qed
qed

section \<open>What is planned is consistent\<close>

definition entry_key :: "output_entry \<Rightarrow> string \<times> member_kind" where
  "entry_key e = (case e of Entry_dir name _ \<Rightarrow> (name, Member_dir) | Entry_file src \<Rightarrow> (src_name src, Member_file))"

definition plan_ok :: "claims \<times> output_entry list \<Rightarrow> bool" where
  "plan_ok t \<longleftrightarrow> consistent (fst t) \<and> rev (map entry_key (snd t)) = fst t"

lemma plan_member_ok:
  assumes "plan_ok t" "plan_member raw kind mk t = (t', None)" "\<And>n. entry_key (mk n) = (n, kind)"
  shows "plan_ok t'"
proof -
  obtain n b where n: "safe_member_path raw = Inr n" and b: "can_add (fst t) n kind = Inr b"
    using assms(2) by (auto simp: plan_member_def split: sum.split_asm)
  show ?thesis
  proof (cases b)
    case True
    with n b assms(1) have "consistent ((n, kind) # fst t)"
      using can_add_exact(1) [OF _ safe_member_path_safe] by (simp add: plan_ok_def)
    with assms n b True show ?thesis
      by (auto simp: plan_member_def plan_ok_def)
  qed (use assms n b in \<open>auto simp: plan_member_def\<close>)
qed

interpretation plan: adder_sim plan_adder plan_adder "\<lambda>t u. t = u \<and> plan_ok t" "\<lambda>path. True"
proof
  show "\<exists>u. ad_dir plan_adder name mtime t = (u, None) \<and> t' = u \<and> plan_ok t'"
    if "s = t \<and> plan_ok s" "ad_dir plan_adder name mtime s = (t', None)" for s t name mtime t'
    using that plan_member_ok [of s name Member_dir "\<lambda>n. Entry_dir n mtime" t'] by (auto simp: plan_adder_def entry_key_def)
  show "\<exists>u. ad_file plan_adder src t = (u, None) \<and> t' = u \<and> plan_ok t'"
    if "s = t \<and> plan_ok s" "ad_file plan_adder src s = (t', None)" for s t src t'
    using that plan_member_ok [of s "src_name src" Member_file "\<lambda>n. Entry_file (src\<lparr>src_name := n\<rparr>)" t']
    by (auto simp: plan_adder_def entry_key_def)
qed (simp add: plan_adder_def)

lemma planned_ok: "planned w z source = (t, None) \<Longrightarrow> plan_ok t"
proof -
  have "plan_ok ([], [])"
    by (simp add: plan_ok_def consistent_def)
  moreover assume "planned w z source = (t, None)"
  ultimately show ?thesis
    using plan.walk_source_sim [of w z source "([], [])" t "([], [])"] by (auto simp: planned_def everywhere_def)
qed

lemma consistent_rev: "consistent (rev cl) = consistent cl"
  unfolding consistent_def rev_map [symmetric] distinct_rev set_rev ..

section \<open>What every operation leaves alone\<close>

text \<open>The interface of an adder that keeps an invariant, whether it succeeds or not; the walk keeps it then.\<close>

locale adder_keeper =
  fixes a :: "'s adder" and inv :: "'s \<Rightarrow> bool"
  assumes keep_dir: "inv s \<Longrightarrow> inv (fst (ad_dir a name mtime s))"
    and keep_file: "inv s \<Longrightarrow> inv (fst (ad_file a src s))"
begin

lemma keep_zip_members: "inv s \<Longrightarrow> inv (fst (add_zip_members a path stem i ms s))"
proof (induction ms arbitrary: i s)
  case (Cons m ms)
  show ?case
  proof (cases "safe_member_path (zm_name m)")
    case (Inr member)
    obtain s1 r where p: "(if zm_dir m then ad_dir a (stem @ ''/'' @ member) (zm_mtime m) s
        else ad_file a \<lparr>src_name = stem @ ''/'' @ member, src_size = sint (zm_size m), src_mtime = zm_mtime m,
          src_ref = Zip_member path i\<rparr> s) = (s1, r)"
      by fastforce
    then have "inv s1"
      using keep_dir [OF Cons.prems] keep_file [OF Cons.prems] by (metis fst_conv)
    then show ?thesis
      unfolding add_zip_members.simps Inr sum.case Let_def p by (cases r) (simp_all add: Cons.IH)
  qed (use Cons.prems in simp)
qed simp

lemma keep_tar_members: "inv s \<Longrightarrow> inv (fst (add_tar_members a path stem i ms e s))"
proof (induction ms arbitrary: i s)
  case (Cons m ms)
  show ?case
  proof (cases "safe_member_path (tm_name m)")
    case (Inr member)
    obtain s1 r where p: "(case tm_type m of
        Tar_dir_type \<Rightarrow> ad_dir a (stem @ ''/'' @ member) (tm_mtime m) s
      | Tar_regular \<Rightarrow> ad_file a \<lparr>src_name = stem @ ''/'' @ member, src_size = tm_size m, src_mtime = tm_mtime m,
          src_ref = Tar_member path i\<rparr> s
      | Tar_other \<Rightarrow> (s, Some (Unsupported_member (tm_name m)))) = (s1, r)"
      by fastforce
    have "inv (fst (s1, r))"
      unfolding p [symmetric] using keep_dir [OF Cons.prems] keep_file [OF Cons.prems] Cons.prems
      by (cases "tm_type m") simp_all
    then have "inv s1"
      by simp
    then show ?thesis
      unfolding add_tar_members.simps Inr sum.case Let_def p by (cases r) (simp_all add: Cons.IH)
  qed (use Cons.prems in simp)
qed simp

lemma keep_input: "inv s \<Longrightarrow> inv (fst (add_input w z a path name mtime s))"
proof -
  assume s: "inv s"
  have put: "inv (fst (case x of Inl e \<Rightarrow> (s, Some e) | Inr src \<Rightarrow> ad_file a src s))" for x :: "repack_error + file_source"
    using s keep_file [OF s] by (cases x) simp_all
  have expand: "inv (fst (case ad_dir a stem mtime s of (u, Some e) \<Rightarrow> (u, Some e)
      | (u, None) \<Rightarrow> if b then add_zip w a path stem u else add_tar w a path stem u))" for stem b
  proof -
    obtain u r where u: "ad_dir a stem mtime s = (u, r)"
      by fastforce
    then have "inv u"
      using keep_dir [OF s, of stem mtime] by simp
    then show ?thesis
      using u by (cases r) (auto simp: add_zip_def add_tar_def split: sum.split intro: keep_zip_members keep_tar_members)
  qed
  define kind where "kind = input_format path"
  consider (archive) "kind = ''zip'' \<or> kind = ''tar''" | (gz) "kind = ''gz''" | (plain) "kind \<notin> {''zip'', ''tar'', ''gz''}"
    by blast
  then show ?thesis
  proof cases
    case archive
    then show ?thesis
      using s expand [of "kind = ''zip''"] by (cases "archive_stem name kind") (simp_all add: add_input_def kind_def [symmetric] Let_def)
  next
    case gz
    then show ?thesis
      using s put by (cases "archive_stem name kind") (simp_all add: add_input_def kind_def [symmetric] Let_def)
  next
    case plain
    then show ?thesis
      using put by (simp add: add_input_def kind_def [symmetric] Let_def)
  qed
qed

lemma keep_visit: "inv s \<Longrightarrow> inv (fst (visit_source w z a source root_name path name n err s))"
proof -
  assume s: "inv s"
  have "inv (fst (verdict_of r))" if "inv (fst r)" for r :: "'s \<times> repack_error option"
    using that by (auto simp: verdict_of_def split: prod.split option.split)
  then show ?thesis
    using s keep_dir [OF s] keep_input [OF s] by (auto simp: visit_source_def Let_def split: option.split sum.split)
qed

end

sublocale adder_keeper \<subseteq> keeper "visit_source w z a source root_name" inv base tree for w z source root_name base tree
  by unfold_locales (rule keep_visit)

context adder_keeper
begin

lemma keep_walk_source: "inv s \<Longrightarrow> inv (fst (walk_source w z a source s))"
proof -
  assume s: "inv s"
  have "inv u" if "ad_dir a root_name mtime s = (u, r)" for root_name mtime u r
    using keep_dir [OF s] that by (metis fst_conv)
  then show ?thesis
    using s by (auto simp: walk_source_def split: sum.split prod.split option.split intro: walk_dir_keeps)
qed

end

definition outside_kept :: "string \<Rightarrow> archive_format \<Rightarrow> disk \<Rightarrow> disk \<Rightarrow> bool" where
  "outside_kept dest fmt d d' \<longleftrightarrow> (\<forall>q. q \<notin> range (part_path dest fmt) \<longrightarrow> dk_files d' q = dk_files d q)"

definition set_inv :: "string \<Rightarrow> archive_format \<Rightarrow> disk \<Rightarrow> archive_set \<times> disk \<Rightarrow> bool" where
  "set_inv dest fmt d x \<longleftrightarrow> (case x of (s, d') \<Rightarrow> as_destination s = dest \<and> as_format s = fmt
     \<and> op_path (as_current s) \<in> range (part_path dest fmt) \<and> outside_kept dest fmt d d')"

lemma outside_step: "outside_kept dest fmt d d1 \<Longrightarrow> only_at p d1 d2 \<Longrightarrow> p \<in> range (part_path dest fmt) \<Longrightarrow> outside_kept dest fmt d d2"
  unfolding outside_kept_def only_at_def by metis

lemma outside_close:
  "outside_kept dest fmt d d1 \<Longrightarrow> op_path out \<in> range (part_path dest fmt) \<Longrightarrow> close_output k out d1 = (d2, o', r)
     \<Longrightarrow> outside_kept dest fmt d d2 \<and> op_path o' \<in> range (part_path dest fmt)"
  using outside_step close_output_only by metis

lemma outside_remove:
  "outside_kept dest fmt d d1 \<Longrightarrow> p \<in> range (part_path dest fmt) \<Longrightarrow> remove_file k p d1 = (d2, r) \<Longrightarrow> outside_kept dest fmt d d2"
  using outside_step remove_file_only fst_conv by metis

lemma outside_new:
  "outside_kept dest fmt d d1 \<Longrightarrow> p \<in> range (part_path dest fmt) \<Longrightarrow> new_output k p fmt' d1 = (d2, x) \<Longrightarrow> outside_kept dest fmt d d2"
  using outside_step new_output_only by metis

lemma outside_entries:
  "outside_kept dest fmt d d1 \<Longrightarrow> op_path out \<in> range (part_path dest fmt) \<Longrightarrow> add_entries w k out es d1 = (d2, r)
     \<Longrightarrow> outside_kept dest fmt d d2"
  using outside_step add_entries_only by metis

lemma outside_entry:
  "outside_kept dest fmt d d1 \<Longrightarrow> op_path out \<in> range (part_path dest fmt) \<Longrightarrow> add_entry w k out e d1 = (d2, r)
     \<Longrightarrow> outside_kept dest fmt d d2"
  using outside_step writes_only [OF add_entry_writes] by metis

lemma outside_write:
  "outside_kept dest fmt d d1 \<Longrightarrow> p \<in> range (part_path dest fmt) \<Longrightarrow> write_entries w k p fmt' es d1 = (d2, r)
     \<Longrightarrow> outside_kept dest fmt d d2"
  using outside_step write_entries_only by metis

lemmas outside_kept_steps = outside_close outside_remove outside_new outside_entries outside_entry outside_write

lemma set_inv_iff: "set_inv dest fmt d (s, d') \<longleftrightarrow> as_destination s = dest \<and> as_format s = fmt
    \<and> op_path (as_current s) \<in> range (part_path dest fmt) \<and> outside_kept dest fmt d d'"
  by (simp add: set_inv_def)

lemma rollover_outside:
  assumes "rollover w k s cause d1 = (d2, s', r)" "set_inv dest fmt d (s, d1)"
  shows "set_inv dest fmt d (s', d2)"
proof -
  let ?R = "range (part_path dest fmt)" and ?path = "op_path (as_current s)"
  have s: "as_destination s = dest" "as_format s = fmt" and p: "?path \<in> ?R" and k1: "outside_kept dest fmt d d1"
    using assms(2) by (simp_all add: set_inv_iff)
  obtain da closed ra where a: "close_output k (as_current s) d1 = (da, closed, ra)"
    by (cases "close_output k (as_current s) d1") auto
  note ka = outside_close [OF k1 p a]
  obtain db rb where b: "remove_file k ?path da = (db, rb)"
    by fastforce
  note kb = outside_remove [OF conjunct1 [OF ka] p b]
  obtain dc x where c: "new_output k ?path fmt db = (dc, x)"
    by fastforce
  note kc = outside_new [OF kb p c]
  show ?thesis
  proof (cases "rb \<noteq> None \<or> (\<exists>e. x = Inl e)")
    case True
    then show ?thesis
      using assms(1) a b c ka kb kc s by (cases rb; cases x) (auto simp: rollover_def Let_def set_inv_iff)
  next
    case False
    then obtain rebuilt where x: "x = Inr rebuilt" and rb: "rb = None"
      by (cases x) auto
    have re: "op_path rebuilt \<in> ?R"
      using new_output_ok c x p by metis
    obtain dd rd where e: "add_entries w k rebuilt (as_entries s) dc = (dd, rd)"
      by fastforce
    note kd = outside_entries [OF kc re e]
    obtain de o' rf where f: "close_output k rebuilt dd = (de, o', rf)"
      by (cases "close_output k rebuilt dd") auto
    note ke = outside_close [OF kd re f]
    let ?next = "part_path dest fmt (Suc (as_part s))"
    obtain dg y where g: "new_output k ?next fmt de = (dg, y)"
      by fastforce
    have kg: "outside_kept dest fmt d dg"
      by (rule outside_new [OF conjunct1 [OF ke] _ g]) simp
    have "op_path out = ?next" if "y = Inr out" for out
      using new_output_ok g that by metis
    moreover have "(d2, s', r) = (case rd of
        Some e \<Rightarrow> (de, s\<lparr>as_current := closed\<rparr>, Some (Wrapped ''rebuild'' [cause, e]))
      | None \<Rightarrow> (case rf of
          Some e \<Rightarrow> (de, s\<lparr>as_current := closed\<rparr>, Some (Wrapped ''finish'' [cause, e]))
        | None \<Rightarrow> (case y of
            Inl e \<Rightarrow> (dg, s\<lparr>as_current := closed, as_part := Suc (as_part s)\<rparr>, Some (Wrapped ''create'' [cause, e]))
          | Inr out \<Rightarrow> (dg, s\<lparr>as_part := Suc (as_part s), as_current := out, as_paths := ?next # as_paths s, as_entries := []\<rparr>, None))))"
      using assms(1) by (simp add: rollover_def Let_def next_path_def a b c x rb e f g s cong: option.case_cong)
    ultimately show ?thesis
      using ka ke kg s by (cases rd; cases rf; cases y) (simp_all add: set_inv_iff)
  qed
qed

lemma put_entry_outside:
  assumes "set_inv dest fmt d (s, d1)" "put_entry w k s name kind e d1 = (d2, s', r)"
  shows "set_inv dest fmt d (s', d2)"
proof -
  obtain da x where a: "add_entry w k (as_current s) e d1 = (da, x)"
    by fastforce
  have ia: "set_inv dest fmt d (s, da)"
    using assms(1) outside_entry [OF _ _ a] by (simp add: set_inv_iff)
  obtain db t y where b: "rollover w k s (the x) da = (db, t, y)"
    by (cases "rollover w k s (the x) da") auto
  have ib: "set_inv dest fmt d (t, db)"
    by (rule rollover_outside [OF b ia])
  obtain dc z where c: "add_entry w k (as_current t) e db = (dc, z)"
    by fastforce
  have ic: "set_inv dest fmt d (t, dc)"
    using ib outside_entry [OF _ _ c] by (simp add: set_inv_iff)
  show ?thesis
    using assms(2) a b c ia ib ic
    by (cases x; cases y; cases z) (auto simp: put_entry_def Let_def set_inv_iff split: if_split_asm)
qed

interpretation repack_kept: adder_keeper "repack_adder w k" "set_inv dest fmt d" for w k dest fmt d
proof
  fix x name mtime src
  assume x: "set_inv dest fmt d x"
  obtain s d1 where s: "x = (s, d1)"
    by fastforce
  show "set_inv dest fmt d (fst (ad_dir (repack_adder w k) name mtime x))"
    using x put_entry_outside
    by (auto simp: s repack_adder_def set_add_dir_def split: sum.split bool.split prod.split)
  show "set_inv dest fmt d (fst (ad_file (repack_adder w k) src x))"
    using x put_entry_outside
    by (auto simp: s repack_adder_def set_add_file_def split: sum.split bool.split prod.split)
qed

lemma longest_part_outside:
  "longest_part w k p fmt' es n x d1 = (d2, r) \<Longrightarrow> p \<in> range (part_path dest fmt) \<Longrightarrow> outside_kept dest fmt d d1
     \<Longrightarrow> outside_kept dest fmt d d2"
proof (induction n arbitrary: x d1)
  case (Suc n)
  obtain da ra where a: "write_entries w k p fmt' (take (Suc n) es) d1 = (da, ra)"
    by fastforce
  note ka = outside_write [OF Suc.prems(3,2) a]
  obtain db rb where b: "remove_file k p da = (db, rb)"
    by fastforce
  note kb = outside_remove [OF ka Suc.prems(2) b]
  show ?case
    using Suc.prems a b ka kb Suc.IH [OF _ Suc.prems(2) kb] by (cases ra) (auto simp: Let_def split: if_split_asm)
qed simp

lemma split_parts_outside:
  "split_parts w k p es s d1 = (d2, s', r) \<Longrightarrow> p \<in> range (part_path dest fmt) \<Longrightarrow> set_inv dest fmt d (s, d1)
     \<Longrightarrow> set_inv dest fmt d (s', d2)"
proof (induction w k p es s d1 rule: split_parts.induct)
  case (2 w k p e es s d1)
  obtain da x where l: "longest_part w k p (as_format s) (e # es) (length (e # es)) None d1 = (da, x)"
    by fastforce
  have ia: "set_inv dest fmt d (s, da)"
    using "2.prems"(3) longest_part_outside [OF l "2.prems"(2)] by (simp add: set_inv_iff)
  show ?case
  proof (cases x)
    case (Inl y)
    then show ?thesis
      using "2.prems"(1) l ia by (simp del: longest_part.simps)
  next
    case (Inr c)
    show ?thesis
    proof (cases "drop c (e # es) = []")
      case True
      then show ?thesis
        using "2.prems"(1) l ia Inr by (simp del: longest_part.simps)
    next
      case False
      let ?s = "s\<lparr>as_part := Suc (as_part s)\<rparr>"
      have n: "next_path ?s \<in> range (part_path dest fmt)"
        using ia by (simp add: next_path_def set_inv_iff)
      have "split_parts w k (next_path ?s) (drop c (e # es)) (?s\<lparr>as_paths := next_path ?s # as_paths ?s\<rparr>) da = (d2, s', r)"
        using "2.prems"(1) l False Inr by (simp add: Let_def del: longest_part.simps)
      from "2.IH" [OF l [symmetric] Inr False refl refl this n] ia show ?thesis
        by (simp add: set_inv_iff)
    qed
  qed
qed simp

lemma set_close_outside:
  assumes "set_close w k s d1 = (d2, s', r)" "set_inv dest fmt d (s, d1)"
  shows "set_inv dest fmt d (s', d2)"
proof -
  have p: "op_path (as_current s) \<in> range (part_path dest fmt)" and k1: "outside_kept dest fmt d d1"
    using assms(2) by (simp_all add: set_inv_iff)
  obtain da closed ra where a: "close_output k (as_current s) d1 = (da, closed, ra)"
    by (cases "close_output k (as_current s) d1") auto
  note ka = outside_close [OF k1 p a]
  let ?s = "s\<lparr>as_current := closed\<rparr>"
  obtain db rb where b: "remove_file k (op_path closed) da = (db, rb)"
    by fastforce
  have ia: "set_inv dest fmt d (?s, da)" and ib: "set_inv dest fmt d (?s, db)"
    using assms(2) ka outside_remove [OF _ _ b] by (simp_all add: set_inv_iff)
  have "set_inv dest fmt d (s', d2)" if "split_parts w k (op_path closed) (as_entries ?s) ?s db = (d2, s', r)"
    by (rule split_parts_outside [OF that _ ib]) (use ka in blast)
  then show ?thesis
    using assms(1) a b ia ib by (cases ra; cases rb) (auto simp: set_close_def Let_def split: if_split_asm)
qed

section \<open>A small run\<close>

text \<open>
  A source with a file and a zip archive of one member; the disk refuses the third record of a part, so that
  the run needs two parts.
\<close>

definition demo_inputs :: inputs where
  "demo_inputs = \<lparr>in_cwd = None, in_links = Some,
     in_tree = [''/s'' \<mapsto> Dir (Some [(''z.zip'', File None), (''a'', File None)])],
     in_io = io_error, in_stat = (\<lambda>p. Inr (1, 0)), in_info = (\<lambda>p. Inr 0),
     in_open = (\<lambda>p. Inr ([''x''], None)), in_gzip = (\<lambda>p. Inl (io_error p)),
     in_zip = (\<lambda>p. Inr [\<lparr>zm_name = ''m'', zm_dir = False, zm_size = 1, zm_mtime = 0\<rparr>]),
     in_zip_open = (\<lambda>p i. Inr ([''y''], None)), in_tar = (\<lambda>c p. Inl (io_error p)), in_tar_data = (\<lambda>c p i. ([], None))\<rparr>"

definition demo_sinks :: sinks where
  "demo_sinks = \<lparr>out_create = (\<lambda>n p. None), out_compressor = (\<lambda>n p. None),
     out_write = (\<lambda>n p ops x. if length ops < 4 then None else Some (Io_failed True True ''write'')),
     out_finish = (\<lambda>n p ops. []), out_remove = (\<lambda>n p. None)\<rparr>"

definition empty_disk :: disk where
  "empty_disk = \<lparr>dk_files = Map.empty, dk_clock = 0\<rparr>"

definition tar_format :: archive_format where
  "tar_format = \<lparr>af_name = ''tar'', af_suffix = ''.tar''\<rparr>"

lemma demo_run: "snd (repack_run demo_inputs demo_sinks None ''/s'' ''/o.tar'' empty_disk) = None"
  by code_simp

lemma demo_names:
  "Option.bind (abs_in (in_cwd demo_inputs) ''/s'') (in_links demo_inputs) = Some ''/s''"
  "abs_in (in_cwd demo_inputs) ''/o.tar'' = Some ''/o.tar''"
  "format_for_destination ''/o.tar'' = Inr tar_format"
  by code_simp+

lemma demo_part: "part_path ''/o.tar'' tar_format n = CHR ''/'' # CHR ''o'' # q" if "q = (if n = 1 then ''.tar'' else CHR ''-'' # show_nat n @ ''.tar'')" for n q
  by (simp add: that part_path_def tar_format_def Let_def)

lemma demo_elsewhere: "p \<in> range (part_path ''/o.tar'' tar_format) \<Longrightarrow> \<exists>q. p = CHR ''/'' # CHR ''o'' # q"
  using demo_part by auto

lemma demo_elsewhere_not:
  "''/s/z.zip'' \<notin> range (part_path ''/o.tar'' tar_format)" "''/s/a'' \<notin> range (part_path ''/o.tar'' tar_format)"
  "''/keep'' \<notin> range (part_path ''/o.tar'' tar_format)"
  using demo_elsewhere [of "''/s/z.zip''"] demo_elsewhere [of "''/s/a''"] demo_elsewhere [of "''/keep''"] by auto

lemma demo_everywhere:
  "in_tree demo_inputs ''/s'' = Some n \<Longrightarrow> everywhere (\<lambda>path. path = ''/s'' \<or> path \<notin> range (part_path ''/o.tar'' tar_format)) ''/s'' n"
proof -
  assume "in_tree demo_inputs ''/s'' = Some n"
  then have n: "n = Dir (Some [(''z.zip'', File None), (''a'', File None)])"
    by (simp add: demo_inputs_def)
  have "path_join [''/s'', ''z.zip''] = ''/s/z.zip''" "path_join [''/s'', ''a''] = ''/s/a''"
    by code_simp+
  then have "occurs ''/s'' n p \<Longrightarrow> p \<in> {''/s'', ''/s/z.zip'', ''/s/a''}" for p
    by (auto simp: n occurs_simps)
  then show ?thesis
    unfolding everywhere_def by (metis demo_elsewhere_not insertE singletonD)
qed

section \<open>A file that is not the run's own\<close>

text \<open>
  The destination is refused when it exists, but a file under the name of a later part is not safe: when the first
  close of the archive finds it too large, the attempt to write the second part fails on the file that is there,
  and \<^verbatim>\<open>close\<close> removes that file.
\<close>

definition small_disk :: sinks where
  "small_disk = \<lparr>out_create = (\<lambda>n p. None), out_compressor = (\<lambda>n p. None), out_write = (\<lambda>n p ops x. None),
     out_finish = (\<lambda>n p ops. if 1 < length ops then [Io_failed True True ''write''] else []), out_remove = (\<lambda>n p. None)\<rparr>"

definition two_dirs :: archive_set where
  "two_dirs = \<lparr>as_destination = ''/o.tar'', as_format = tar_format,
     as_current = \<lparr>op_path = ''/o.tar'', op_format = tar_format, op_closed = False\<rparr>, as_claims = [], as_part = 1,
     as_entries = [Entry_dir ''a'' 0, Entry_dir ''b'' 0], as_paths = [''/o.tar'']\<rparr>"

definition with_foreign :: disk where
  "with_foreign = \<lparr>dk_files = [''/o.tar'' \<mapsto> Archive [Tar_dir ''a'' 0, Tar_dir ''b'' 0] False, ''/o-2.tar'' \<mapsto> Foreign],
     dk_clock = 0\<rparr>"

lemma close_removes_foreign_file:
  "dk_files with_foreign ''/o-2.tar'' = Some Foreign"
  "dk_files (fst (set_close demo_inputs small_disk two_dirs with_foreign)) ''/o-2.tar'' = None"
  "snd (snd (set_close demo_inputs small_disk two_dirs with_foreign)) = Some (io_error ''file exists'')"
  by code_simp+

section \<open>Properties\<close>

text \<open>C8: A run of \<^verbatim>\<open>archive-repack\<close> that reports success has written exactly the members the walk over the source
  plans, each once and in order, split over parts \<open>1 .. n\<close>: every part file is a complete, closed archive of its share,
  however often the disk refused to let a part grow, the members form a consistent tree of safe paths, no part
  replaced a file, and every other file of the disk is as it was. The source must not hold a file under the name of a part.
\<close>

theorem repack_parts_exact:
  assumes "repack_run w k lstat src dst d = (d', None)"
    and "Option.bind (abs_in (in_cwd w) src) (in_links w) = Some source"
    and "abs_in (in_cwd w) dst = Some dest" and "format_for_destination dest = Inr fmt"
    and "\<forall>n. in_tree w source = Some n \<longrightarrow> everywhere (\<lambda>path. path = source \<or> path \<notin> range (part_path dest fmt)) source n"
  shows "\<exists>cl ps. planned w (af_name fmt = ''zip'') source = ((cl, concat ps), None)
    \<and> consistent (map entry_key (concat ps)) \<and> parts_final w dest fmt d ps d'"
proof -
  obtain d1 s where new: "new_archive_set k dest fmt d = (d1, Inr s)"
    using assms(1-4) by (auto simp: repack_run_def split: sum.split_asm if_split_asm prod.split_asm)
  have into: "repack_into w k fmt source s d1 = (d', None)"
    using assms(1-4) new by (auto simp: repack_run_def split: sum.split_asm if_split_asm prod.split_asm)
  then obtain s2 d2 where walk: "walk_source w (af_name fmt = ''zip'') (repack_adder w k) source (s, d1) = ((s2, d2), None)"
    by (auto simp: repack_into_def split: prod.split_asm option.split_asm)
  with into obtain s3 where fin: "set_close w k s2 d2 = (d', s3, None)"
    by (auto simp: repack_into_def split: prod.split_asm option.split_asm)
  obtain out where out: "new_output k dest fmt d = (d1, Inr out)"
    and s: "s = \<lparr>as_destination = dest, as_format = fmt, as_current = out, as_claims = [], as_part = 1, as_entries = [], as_paths = [dest]\<rparr>"
    using new by (auto simp: new_archive_set_def split: prod.split_asm sum.split_asm)
  have one: "part_path dest fmt 1 = dest"
    by (simp add: part_path_def)
  have o: "dk_files d dest = None" "out = \<lparr>op_path = dest, op_format = fmt, op_closed = False\<rparr>"
    "dk_files d1 = (dk_files d)(dest \<mapsto> Archive [] False)"
    using new_output_ok [OF out] by (cases out; simp)+
  have "parts_at w dest fmt d [] d1"
    using o one by (auto simp: parts_at_def)
  moreover have "dest \<in> range (part_path dest fmt)"
    using one by (metis rangeI)
  ultimately have "set_sim w dest fmt d (s, d1) ([], [])"
    using o one by (auto simp: set_sim_def set_shape_def current_holds_def s intro!: exI [of _ "[]"])
  from repack.walk_source_sim [OF walk this] assms(5) obtain t where
    t: "planned w (af_name fmt = ''zip'') source = (t, None)" "set_sim w dest fmt d (s2, d2) t"
    by (auto simp: planned_def)
  obtain ps where ps: "set_shape w dest fmt d ps s2 d2" "current_holds w s2 d2" "snd t = concat ps @ as_entries s2"
    using t(2) by (auto simp: set_sim_def)
  from set_close_ok [OF fin ps(1,2)] ps(3) obtain qs where qs: "concat qs = snd t" "parts_final w dest fmt d qs d'"
    by auto
  have "consistent (map entry_key (concat qs))"
    using planned_ok [OF t(1)] consistent_rev [of "map entry_key (snd t)"] by (simp add: plan_ok_def qs(1))
  with t(1) qs show ?thesis
    by (intro exI [of _ "fst t"] exI [of _ qs]) simp
qed

lemma repack_parts_exact_witness:
  "\<exists>cl ps. planned demo_inputs False ''/s'' = ((cl, concat ps), None) \<and> consistent (map entry_key (concat ps))
     \<and> parts_final demo_inputs ''/o.tar'' tar_format empty_disk ps (fst (repack_run demo_inputs demo_sinks None ''/s'' ''/o.tar'' empty_disk))"
proof -
  have zip: "(af_name tar_format = ''zip'') = False"
    by (simp add: tar_format_def)
  have run: "repack_run demo_inputs demo_sinks None ''/s'' ''/o.tar'' empty_disk
      = (fst (repack_run demo_inputs demo_sinks None ''/s'' ''/o.tar'' empty_disk), None)"
    using prod.collapse [of "repack_run demo_inputs demo_sinks None ''/s'' ''/o.tar'' empty_disk"] unfolding demo_run by (rule sym)
  show ?thesis
    using repack_parts_exact [OF run demo_names allI [OF impI [OF demo_everywhere]]] unfolding zip .
qed

text \<open>C9: Whatever the libraries and the disk answer, and whether it succeeds or fails, a run of \<^verbatim>\<open>archive-repack\<close> creates,
  changes and removes files only under the names of its own parts.
\<close>

theorem repack_touches_only_parts:
  assumes "repack_run w k lstat src dst d = (d', r)" "abs_in (in_cwd w) dst = Some dest" "format_for_destination dest = Inr fmt"
    and "q \<notin> range (part_path dest fmt)"
  shows "dk_files d' q = dk_files d q"
proof -
  have dest: "dest \<in> range (part_path dest fmt)"
    by (rule range_eqI [of _ _ 1]) (simp add: part_path_def)
  have k0: "outside_kept dest fmt d d"
    by (simp add: outside_kept_def)
  obtain d1 x where new: "new_archive_set k dest fmt d = (d1, x)"
    by fastforce
  obtain d0 y where out: "new_output k dest fmt d = (d0, y)"
    by fastforce
  have d1: "d1 = d0" "\<And>s. x = Inr s \<Longrightarrow> set_inv dest fmt d (s, d1)"
    using new out outside_new [OF k0 dest out] new_output_ok [of k dest fmt d d0] dest
    by (auto simp: new_archive_set_def set_inv_iff split: sum.split_asm)
  have k1: "outside_kept dest fmt d d1"
    using outside_new [OF k0 dest out] d1(1) by simp
  have close: "outside_kept dest fmt d d3 \<and> outside_kept dest fmt d (fst (remove_file k (op_path (as_current t)) d3))"
    if "set_close w k s d2 = (d3, t, e)" "set_inv dest fmt d (s, d2)" for s t d2 d3 e
    using set_close_outside [OF that] outside_remove [of dest fmt d d3 "op_path (as_current t)" k]
    by (cases "remove_file k (op_path (as_current t)) d3") (auto simp: set_inv_iff)
  have into: "outside_kept dest fmt d d'" if "x = Inr s" "repack_into w k fmt source s d1 = (d', r)" for s source
  proof -
    obtain s2 d2 e where walk: "walk_source w (af_name fmt = ''zip'') (repack_adder w k) source (s, d1) = ((s2, d2), e)"
      by (metis surj_pair)
    have i2: "set_inv dest fmt d (s2, d2)"
      using repack_kept.keep_walk_source [OF d1(2) [OF that(1)]] walk by (metis fst_conv)
    obtain d3 t e' where c: "set_close w k s2 d2 = (d3, t, e')"
      by (metis surj_pair)
    show ?thesis
      using close [OF c i2] that(2) walk c by (cases e; cases e') (auto simp: repack_into_def)
  qed
  have "outside_kept dest fmt d d'"
  proof (cases "d' = d \<or> d' = d1")
    case True
    with k0 k1 show ?thesis
      by auto
  next
    case False
    then show ?thesis
      using assms(1-3) new into by (auto simp: repack_run_def split: option.split_asm sum.split_asm if_split_asm)
  qed
  then show ?thesis
    using assms(4) by (simp add: outside_kept_def)
qed

lemma repack_touches_only_parts_witness:
  "dk_files (fst (repack_run demo_inputs demo_sinks None ''/s'' ''/o.tar'' empty_disk)) ''/keep'' = None"
proof -
  from repack_touches_only_parts [OF prod.collapse [symmetric] demo_names(2,3) demo_elsewhere_not(3)] show ?thesis
    by (simp add: empty_disk_def)
qed

text \<open>C10: The check of claims is exact: on a consistent set of claims and a safe name it admits the new member just when the
  set stays consistent (no path twice, nothing at or below a file, no file in the place of a directory with members)
  and silently drops it just when it repeats a claimed directory.
\<close>

theorem claim_check_exact:
  assumes "consistent cl" "safe_name n"
  shows "(can_add cl n kind = Inr True \<longleftrightarrow> consistent ((n, kind) # cl))
    \<and> (can_add cl n kind = Inr False \<longleftrightarrow> kind = Member_dir \<and> (n, Member_dir) \<in> set cl)"
  using can_add_exact [OF assms] by blast

lemma claim_check_exact_witness: "can_add [(''a/b'', Member_file)] ''a/b/c'' Member_file \<noteq> Inr True"
proof -
  have c: "consistent [(''a/b'', Member_file)]" and s: "safe_name ''a/b/c''"
    by (simp_all add: consistent_def safe_name_def safe_comp_def has_prefix_def)
  have "\<not> consistent [(''a/b/c'', Member_file), (''a/b'', Member_file)]"
    by (simp add: consistent_def has_prefix_def)
  with claim_check_exact [OF c s, of Member_file] show ?thesis
    by blast
qed

end
