(* ===== verification/Cleanartifacts.thy ===== *)
theory Cleanartifacts
  imports Walk_Dir Go_Flags
begin

text \<open>
  \<^verbatim>\<open>cleanartifacts/main.go\<close> and \<^verbatim>\<open>internal/fsutil/rm.go\<close>: the removal of \<^verbatim>\<open>target\<close> and \<^verbatim>\<open>node_modules\<close> directories,
  with the trees that the Pi agent uses preserved, in three modes and as a daemon. The file system is the tree the
  walk reads, \<^verbatim>\<open>os.Stat\<close> and the answers of \<^verbatim>\<open>os.RemoveAll\<close>; the run is the list of removals it asks for. The
  removals of a batch run concurrently in the source; each is asked for once, whatever the others answer.
\<close>

section \<open>Errors that do not stop a batch\<close>

record io_error =
  ie_permission :: bool
  ie_not_exist :: bool
  ie_text :: string

definition is_permission :: "io_error \<Rightarrow> bool" where
  "is_permission e \<longleftrightarrow> ie_permission e \<or> contains_str (ie_text e) ''operation not permitted''
     \<or> contains_str (ie_text e) ''permission denied''"

definition is_not_exist :: "io_error \<Rightarrow> bool" where
  "is_not_exist e \<longleftrightarrow> ie_not_exist e"

text \<open>\<^verbatim>\<open>fsutil.RemoveAll\<close>: whether a warning is written, and the error that is left.\<close>

definition remove_all :: "io_error option \<Rightarrow> bool \<times> io_error option" where
  "remove_all answer =
     (case answer of
        None \<Rightarrow> (False, None)
      | Some e \<Rightarrow> if is_not_exist e then (False, None) else if is_permission e then (True, None) else (False, Some e))"

section \<open>The machine\<close>

record clean_host =
  ch_cwd :: "string option"
  ch_tree :: "string \<Rightarrow> node option"
  ch_io :: "string \<Rightarrow> io_error"
  ch_exists :: "string \<Rightarrow> bool"
  ch_remove :: "string \<Rightarrow> io_error option"
  ch_env :: "string \<Rightarrow> string"
  ch_home :: "string option"
  ch_executable :: "string option"
  ch_links :: "string \<Rightarrow> string option"

record clean_options =
  co_repo_roots :: bool
  co_targets_only :: bool
  co_dry_run :: bool

datatype clean_output = Path_line string | Preserve_line string | Skip_warning string io_error

record clean_run =
  cr_calls :: "string list"
  cr_output :: "clean_output list"

definition no_run :: clean_run where
  "no_run = \<lparr>cr_calls = [], cr_output = []\<rparr>"

datatype clean_error = Walk_failed io_error | Scan_failed "scan_error list" | Remove_failed "(string \<times> io_error) list"

section \<open>What Pi owns\<close>

fun climb_install :: "clean_host \<Rightarrow> nat \<Rightarrow> string \<Rightarrow> string" where
  "climb_install h 0 dir = []"
| "climb_install h (Suc i) dir =
     (if dir = [] \<or> dir = ''/'' then []
      else if ch_exists h (path_join [dir, ''package.json'']) \<and> ch_exists h (path_join [dir, ''node_modules'']) then dir
      else climb_install h i (path_dir dir))"

definition pi_install_dir :: "clean_host \<Rightarrow> string" where
  "pi_install_dir h =
     (if ch_env h ''PI_INSTALL_DIR'' \<noteq> [] then ch_env h ''PI_INSTALL_DIR''
      else (case Option.bind (ch_executable h) (ch_links h) of
          None \<Rightarrow> [] | Some exe \<Rightarrow> climb_install h 8 (path_dir exe)))"

definition pi_agent_home :: "clean_host \<Rightarrow> string" where
  "pi_agent_home h =
     (if ch_env h ''PI_AGENT_HOME'' \<noteq> [] then ch_env h ''PI_AGENT_HOME''
      else (case ch_home h of None \<Rightarrow> [] | Some home \<Rightarrow> path_join [home, ''.pi'', ''agent'']))"

definition pi_node_modules_roots :: "clean_host \<Rightarrow> string list" where
  "pi_node_modules_roots h =
     (if pi_agent_home h \<noteq> []
      then [path_join [pi_agent_home h, ''npm'', ''node_modules''], path_join [pi_agent_home h, ''git'']] else [])
     @ (if pi_install_dir h \<noteq> [] then [path_join [pi_install_dir h, ''node_modules'']] else [])"

definition is_pi_owned_node_modules :: "clean_host \<Rightarrow> string \<Rightarrow> bool" where
  "is_pi_owned_node_modules h nm \<longleftrightarrow>
     ch_exists h (path_join [path_dir nm, ''package.json''])
     \<or> (let a = (case abs_in (ch_cwd h) nm of None \<Rightarrow> nm | Some p \<Rightarrow> p) in
        list_ex (\<lambda>r. a = r \<or> has_prefix a (r @ ''/'')) (pi_node_modules_roots h))"

section \<open>Candidates\<close>

definition artifacts :: "string list" where
  "artifacts = [''target'', ''node_modules'']"

record candidate =
  cd_path :: string
  cd_name :: string

definition should_preserve :: "clean_host \<Rightarrow> candidate \<Rightarrow> bool" where
  "should_preserve h c \<longleftrightarrow> cd_name c = ''node_modules'' \<and> is_pi_owned_node_modules h (cd_path c)"

definition has_expected_structure :: "clean_host \<Rightarrow> candidate \<Rightarrow> bool" where
  "has_expected_structure h c =
     (if cd_name c = ''target'' then ch_exists h (path_join [cd_path c, ''CACHEDIR.TAG''])
      else if cd_name c = ''node_modules'' then
        ch_exists h (path_join [path_dir (cd_path c), ''package.json''])
        \<or> ch_exists h (path_join [cd_path c, ''.package-lock.json''])
      else False)"

text \<open>\<^verbatim>\<open>removePaths\<close>\<close>

fun remove_paths :: "clean_host \<Rightarrow> bool \<Rightarrow> string list \<Rightarrow> clean_run \<Rightarrow> clean_run \<times> (string \<times> io_error) list" where
  "remove_paths h dry [] r = (r, [])"
| "remove_paths h dry (p # ps) r =
     (if dry then remove_paths h dry ps (r\<lparr>cr_output := cr_output r @ [Path_line p]\<rparr>)
      else (case remove_all (ch_remove h p) of (warned, e) \<Rightarrow>
          let warning = (case (warned, ch_remove h p) of (True, Some x) \<Rightarrow> [Skip_warning p x] | _ \<Rightarrow> []);
              (r, errs) = remove_paths h dry ps
                (r\<lparr>cr_calls := cr_calls r @ [p], cr_output := cr_output r @ [Path_line p] @ warning\<rparr>)
          in (r, (case e of None \<Rightarrow> errs | Some x \<Rightarrow> (p, x) # errs))))"

text \<open>\<^verbatim>\<open>removeCandidates\<close>\<close>

definition remove_candidates :: "clean_host \<Rightarrow> clean_options \<Rightarrow> candidate list \<Rightarrow> clean_run \<Rightarrow> clean_run \<times> clean_error option" where
  "remove_candidates h opt cands r =
     (let kept = filter (should_preserve h) cands;
          r = (if co_dry_run opt then r\<lparr>cr_output := cr_output r @ map (\<lambda>c. Preserve_line (cd_path c)) kept\<rparr> else r);
          paths = map cd_path (filter (\<lambda>c. \<not> should_preserve h c) cands);
          (r, errs) = remove_paths h (co_dry_run opt) paths r
      in (r, if errs = [] then None else Some (Remove_failed errs)))"

section \<open>The three modes\<close>

text \<open>
  The visitor of \<^verbatim>\<open>cleanAll\<close> and \<^verbatim>\<open>cleanTargetsOnly\<close>, which differ in the check of the structure.
\<close>

definition visit_artifacts :: "clean_host \<Rightarrow> bool \<Rightarrow> (candidate list \<times> clean_output list, io_error) visitor" where
  "visit_artifacts h structured path name n err s =
     (if err then
        (if is_permission (ch_io h path) then ((fst s, snd s @ [Skip_warning path (ch_io h path)]), Skip_dir)
         else if is_not_exist (ch_io h path) then (s, Go_on)
         else (s, Stop (ch_io h path)))
      else if \<not> (case n of Some nd \<Rightarrow> is_dir_node nd | None \<Rightarrow> False) then (s, Go_on)
      else if name \<in> set artifacts then
        (let c = \<lparr>cd_path = path, cd_name = name\<rparr> in
         if structured \<and> \<not> has_expected_structure h c then (s, Go_on)
         else ((fst s @ [c], snd s), Skip_dir))
      else (s, Go_on))"

definition clean_walk :: "clean_host \<Rightarrow> bool \<Rightarrow> string \<Rightarrow> clean_options \<Rightarrow> clean_run \<times> clean_error option" where
  "clean_walk h structured root_dir opt =
     (case walk_dir (visit_artifacts h structured) root_dir (ch_tree h root_dir) ([], []) of
        ((_, warns), Some e) \<Rightarrow> (no_run\<lparr>cr_output := warns\<rparr>, Some (Walk_failed e))
      | ((cands, warns), None) \<Rightarrow> remove_candidates h opt cands (no_run\<lparr>cr_output := warns\<rparr>))"

definition clean_all :: "clean_host \<Rightarrow> string \<Rightarrow> clean_options \<Rightarrow> clean_run \<times> clean_error option" where
  "clean_all h = clean_walk h False"

definition clean_targets_only :: "clean_host \<Rightarrow> string \<Rightarrow> clean_options \<Rightarrow> clean_run \<times> clean_error option" where
  "clean_targets_only h = clean_walk h True"

definition repo_candidates :: "clean_host \<Rightarrow> snapshot \<Rightarrow> candidate list" where
  "repo_candidates h sn =
     concat (map (\<lambda>pr. concat (map (\<lambda>repo.
       map (\<lambda>name. \<lparr>cd_path = path_join [repo, name], cd_name = name\<rparr>)
         (filter (\<lambda>name. ch_exists h (path_join [repo, name])) artifacts)) (pj_repos pr))) (sn_projects sn))"

definition clean_repo_roots :: "clean_host \<Rightarrow> string \<Rightarrow> clean_options \<Rightarrow> clean_run \<times> clean_error option" where
  "clean_repo_roots h root_dir opt =
     (case scan (\<lambda>_. False) root_dir (ch_tree h root_dir) of
        Inl e \<Rightarrow> (no_run, Some (Scan_failed [e]))
      | Inr (sn, errs) \<Rightarrow>
          if errs \<noteq> [] then (no_run, Some (Scan_failed errs))
          else remove_candidates h opt (repo_candidates h sn) no_run)"

definition clean_dirs :: "clean_host \<Rightarrow> string \<Rightarrow> clean_options \<Rightarrow> clean_run \<times> clean_error option" where
  "clean_dirs h root_dir opt =
     (if co_repo_roots opt then clean_repo_roots h root_dir opt
      else if co_targets_only opt then clean_targets_only h root_dir opt
      else clean_all h root_dir opt)"

section \<open>The daemon and the command line\<close>

text \<open>The daemon reacts to ticks until it is told to stop; every tick may find another machine.\<close>

datatype daemon_event = Clean_tick clean_host | Clean_stop

definition clean_once :: "clean_host \<Rightarrow> string \<Rightarrow> clean_options \<Rightarrow> clean_run" where
  "clean_once h root_dir opt = fst (clean_dirs h root_dir opt)"

fun daemon_ticks :: "string \<Rightarrow> clean_options \<Rightarrow> daemon_event list \<Rightarrow> clean_run list" where
  "daemon_ticks root_dir opt [] = []"
| "daemon_ticks root_dir opt (Clean_stop # es) = []"
| "daemon_ticks root_dir opt (Clean_tick h # es) = clean_once h root_dir opt # daemon_ticks root_dir opt es"

text \<open>A ticker with an interval that is not positive panics, after the first pass.\<close>

definition run_daemon :: "clean_host \<Rightarrow> string \<Rightarrow> clean_options \<Rightarrow> int \<Rightarrow> daemon_event list \<Rightarrow> clean_run list \<times> bool" where
  "run_daemon h root_dir opt interval es =
     (if interval \<le> 0 then ([clean_once h root_dir opt], True)
      else (clean_once h root_dir opt # daemon_ticks root_dir opt es, False))"

definition clean_flags :: "string \<Rightarrow> flag_kind option" where
  "clean_flags = [''repo-roots'' \<mapsto> Flag_bool, ''targets-only'' \<mapsto> Flag_bool, ''daemon'' \<mapsto> Flag_bool,
     ''daemon-interval'' \<mapsto> Flag_duration, ''dry-run'' \<mapsto> Flag_bool]"

datatype clean_exit = Clean_exit nat | Clean_panic

text \<open>\<open>dur\<close> is \<^verbatim>\<open>time.ParseDuration\<close>: the nanoseconds, if the text is a duration.\<close>

definition clean_main :: "(string \<Rightarrow> int option) \<Rightarrow> clean_host \<Rightarrow> string list \<Rightarrow> daemon_event list \<Rightarrow> clean_run list \<times> clean_exit" where
  "clean_main dur h args es =
     (case parse_flags (\<lambda>s. dur s \<noteq> None) clean_flags [] args of
        Inl e \<Rightarrow> ([], Clean_exit (if e = Help_requested then 0 else 2))
      | Inr (vs, operands) \<Rightarrow>
          let root_dir = (case operands of [] \<Rightarrow> ''.'' | d # _ \<Rightarrow> d);
              opt = \<lparr>co_repo_roots = flag_set vs ''repo-roots'', co_targets_only = flag_set vs ''targets-only'',
                co_dry_run = flag_set vs ''dry-run''\<rparr>;
              interval = (case map_of vs ''daemon-interval'' of None \<Rightarrow> 1800000000000 | Some s \<Rightarrow> the (dur s)) in
          if flag_set vs ''daemon'' then
            (case run_daemon h root_dir (opt\<lparr>co_targets_only := True\<rparr>) interval es of
               (runs, panicked) \<Rightarrow> (runs, if panicked then Clean_panic else Clean_exit 0))
          else (case clean_dirs h root_dir opt of (r, e) \<Rightarrow> ([r], Clean_exit (if e = None then 0 else 1))))"

section \<open>What a walk collects\<close>

definition good_candidate :: "clean_host \<Rightarrow> bool \<Rightarrow> string \<Rightarrow> candidate \<Rightarrow> bool" where
  "good_candidate h structured root_dir c \<longleftrightarrow>
     (\<exists>nd m. ch_tree h root_dir = Some nd \<and> entry_at root_dir nd (cd_path c) (cd_name c) m \<and> is_dir_node m
       \<and> cd_name c \<in> set artifacts \<and> (structured \<longrightarrow> has_expected_structure h c))"

interpretation collect: keeper "visit_artifacts h structured" "\<lambda>s. list_all (good_candidate h structured root_dir) (fst s)"
  root_dir "ch_tree h root_dir" for h structured root_dir
proof
  fix s :: "candidate list \<times> clean_output list" and n path name err
  assume s: "list_all (good_candidate h structured root_dir) (fst s)"
    and at: "\<And>m. n = Some m \<Longrightarrow> \<exists>nd. ch_tree h root_dir = Some nd \<and> entry_at root_dir nd path name m"
  have "good_candidate h structured root_dir \<lparr>cd_path = path, cd_name = name\<rparr>"
    if "n = Some m" "is_dir_node m" "name \<in> set artifacts"
      "structured \<longrightarrow> has_expected_structure h \<lparr>cd_path = path, cd_name = name\<rparr>" for m
    using at [OF that(1)] that by (auto simp: good_candidate_def)
  with s show "list_all (good_candidate h structured root_dir) (fst (fst (visit_artifacts h structured path name n err s)))"
    by (auto simp: visit_artifacts_def Let_def split: option.split)
qed

lemma remove_paths_calls:
  "remove_paths h dry ps r = (r', errs) \<Longrightarrow> cr_calls r' = cr_calls r @ (if dry then [] else ps)
     \<and> errs = (if dry then [] else map (\<lambda>p. (p, the (ch_remove h p))) (filter (\<lambda>p. snd (remove_all (ch_remove h p)) \<noteq> None) ps))"
proof (induction ps arbitrary: r r' errs)
  case (Cons p ps)
  show ?case
  proof (cases dry)
    case True
    then show ?thesis
      using Cons.prems Cons.IH by fastforce
  next
    case False
    obtain warned e where w: "remove_all (ch_remove h p) = (warned, e)"
      by fastforce
    define out where "out = cr_output r @ Path_line p #
      (case warned of True \<Rightarrow> (case ch_remove h p of None \<Rightarrow> [] | Some x \<Rightarrow> [Skip_warning p x]) | False \<Rightarrow> [])"
    obtain r2 errs2 where rest: "remove_paths h dry ps (r\<lparr>cr_calls := cr_calls r @ [p], cr_output := out\<rparr>) = (r2, errs2)"
      by fastforce
    have "e = None \<or> e = ch_remove h p"
      using w by (auto simp: remove_all_def split: option.split_asm if_split_asm)
    then show ?thesis
      using Cons.prems Cons.IH [OF rest] False w rest
      by (cases e) (auto simp: Let_def out_def [symmetric])
  qed
qed simp

lemma remove_candidates_calls:
  assumes "remove_candidates h opt cands r = (r', e)"
  shows "cr_calls r' = cr_calls r @ (if co_dry_run opt then [] else map cd_path (filter (\<lambda>c. \<not> should_preserve h c) cands))"
  using assms remove_paths_calls [of h "co_dry_run opt" "map cd_path (filter (\<lambda>c. \<not> should_preserve h c) cands)"]
  by (auto simp: remove_candidates_def Let_def split: prod.split_asm if_split_asm)

section \<open>Properties\<close>

text \<open>C39: Outside \<^verbatim>\<open>-repo-roots\<close>, every path \<^verbatim>\<open>cleanartifacts\<close> removes is a directory the walk over the root came to
  by the name \<^verbatim>\<open>target\<close> or \<^verbatim>\<open>node_modules\<close>; it is no Pi tree, and with \<^verbatim>\<open>-targets-only\<close> (hence in the daemon) it has
  the structure of a build or dependency tree. A dry run removes nothing.\<close>

theorem cleaning_removes_artifacts_only:
  assumes "clean_dirs h root_dir opt = (r, e)" "\<not> co_repo_roots opt" "p \<in> set (cr_calls r)"
  shows "\<not> co_dry_run opt \<and> (\<exists>nd name m. ch_tree h root_dir = Some nd \<and> entry_at root_dir nd p name m \<and> is_dir_node m
    \<and> name \<in> {''target'', ''node_modules''} \<and> (name = ''node_modules'' \<longrightarrow> \<not> is_pi_owned_node_modules h p)
    \<and> (co_targets_only opt \<longrightarrow> has_expected_structure h \<lparr>cd_path = p, cd_name = name\<rparr>))"
proof -
  have run: "clean_walk h (co_targets_only opt) root_dir opt = (r, e)"
    using assms(1,2) by (cases "co_targets_only opt") (simp_all add: clean_dirs_def clean_targets_only_def clean_all_def)
  obtain cands warns where walk: "walk_dir (visit_artifacts h (co_targets_only opt)) root_dir (ch_tree h root_dir) ([], []) = ((cands, warns), None)"
    and rem: "remove_candidates h opt cands (no_run\<lparr>cr_output := warns\<rparr>) = (r, e)"
    using run assms(3) by (auto simp: clean_walk_def no_run_def split: prod.split_asm option.split_asm)
  have "list_all (good_candidate h (co_targets_only opt) root_dir) cands"
    using collect.walk_dir_keeps [of h "co_targets_only opt" root_dir "([], [])"] walk by simp
  then obtain c where c: "good_candidate h (co_targets_only opt) root_dir c" "\<not> should_preserve h c" "p = cd_path c"
    and dry: "\<not> co_dry_run opt"
    using assms(3) remove_candidates_calls [OF rem] by (auto simp: no_run_def list_all_iff split: if_split_asm)
  obtain nd m where m: "ch_tree h root_dir = Some nd" "entry_at root_dir nd p (cd_name c) m" "is_dir_node m" "cd_name c \<in> set artifacts"
    "co_targets_only opt \<longrightarrow> has_expected_structure h \<lparr>cd_path = p, cd_name = cd_name c\<rparr>"
    using c(1,3) by (cases c) (auto simp: good_candidate_def)
  moreover have "cd_name c = ''node_modules'' \<longrightarrow> \<not> is_pi_owned_node_modules h p"
    using c(2,3) by (auto simp: should_preserve_def)
  ultimately show ?thesis
    using dry by (intro conjI exI [of _ nd] exI [of _ "cd_name c"] exI [of _ m]) (simp_all add: artifacts_def)
qed

text \<open>A tree with one Cargo and one npm project.\<close>

definition demo_host :: clean_host where
  "demo_host = \<lparr>ch_cwd = Some ''/w'', ch_tree = (\<lambda>p. Some (Dir (Some
       [(''app'', Dir (Some [(''node_modules'', Dir (Some [])), (''package.json'', File None)])),
        (''target'', Dir (Some [(''CACHEDIR.TAG'', File None)]))]))),
     ch_io = (\<lambda>p. \<lparr>ie_permission = False, ie_not_exist = False, ie_text = p\<rparr>),
     ch_exists = (\<lambda>p. p \<in> {''/w/app/package.json'', ''/w/target/CACHEDIR.TAG'', ''/w/app/node_modules''}),
     ch_remove = (\<lambda>p. None), ch_env = (\<lambda>v. []), ch_home = Some ''/h'', ch_executable = None, ch_links = Some\<rparr>"

lemma demo_clean: "clean_dirs demo_host ''/w'' \<lparr>co_repo_roots = False, co_targets_only = True, co_dry_run = False\<rparr>
    = (\<lparr>cr_calls = [''/w/target''], cr_output = [Path_line ''/w/target'']\<rparr>, None)"
  by code_simp

lemma cleaning_removes_artifacts_only_witness: "\<exists>name. has_expected_structure demo_host \<lparr>cd_path = ''/w/target'', cd_name = name\<rparr>"
  using cleaning_removes_artifacts_only [OF demo_clean, of "''/w/target''"] by auto

text \<open>A batch survives its failures: unless the walk or scan itself failed, \<^verbatim>\<open>cleanartifacts\<close> asks for the removal of
  every candidate that is not preserved exactly once, whatever the other removals answer, and it reports an error just
  when some removal failed for a reason other than a missing path or a permission.\<close>

theorem batch_survives_failures:
  "remove_candidates h opt cands r = (r', e) \<Longrightarrow>
     (let paths = map cd_path (filter (\<lambda>c. \<not> should_preserve h c) cands) in
      cr_calls r' = cr_calls r @ (if co_dry_run opt then [] else paths)
      \<and> (e = None \<longleftrightarrow> co_dry_run opt \<or> (\<forall>p \<in> set paths. \<forall>x. ch_remove h p = Some x \<longrightarrow> is_not_exist x \<or> is_permission x)))"
proof -
  assume a: "remove_candidates h opt cands r = (r', e)"
  let ?paths = "map cd_path (filter (\<lambda>c. \<not> should_preserve h c) cands)"
  obtain q r2 errs where "remove_paths h (co_dry_run opt) ?paths q = (r2, errs)" and e: "e = (if errs = [] then None else Some (Remove_failed errs))"
    using a by (auto simp: remove_candidates_def Let_def split: prod.split_asm)
  from remove_paths_calls [OF this(1)] have "errs = [] \<longleftrightarrow> co_dry_run opt \<or> (\<forall>p \<in> set ?paths. snd (remove_all (ch_remove h p)) = None)"
    by (auto simp: filter_empty_conv)
  moreover have "snd (remove_all (ch_remove h p)) = None \<longleftrightarrow> (\<forall>x. ch_remove h p = Some x \<longrightarrow> is_not_exist x \<or> is_permission x)" for p
    by (auto simp: remove_all_def split: option.split)
  ultimately show ?thesis
    using e remove_candidates_calls [OF a] by (simp add: Let_def)
qed

lemma batch_survives_failures_witness:
  "snd (remove_candidates demo_host \<lparr>co_repo_roots = False, co_targets_only = False, co_dry_run = False\<rparr>
     [\<lparr>cd_path = ''/w/target'', cd_name = ''target''\<rparr>] no_run) = None"
proof -
  obtain r e where "remove_candidates demo_host \<lparr>co_repo_roots = False, co_targets_only = False, co_dry_run = False\<rparr>
     [\<lparr>cd_path = ''/w/target'', cd_name = ''target''\<rparr>] no_run = (r, e)"
    by fastforce
  from batch_survives_failures [OF this] this show ?thesis
    by (simp add: Let_def demo_host_def)
qed

section \<open>Consequences\<close>

text \<open>
  Every \<^verbatim>\<open>node_modules\<close> beside a \<^verbatim>\<open>package.json\<close> counts as Pi's, so the tool keeps the dependencies of every
  npm project, and with \<^verbatim>\<open>-targets-only\<close> only trees with npm's lock marker and no \<^verbatim>\<open>package.json\<close> go.
\<close>

lemma npm_dependencies_kept:
  "ch_exists h (path_join [path_dir p, ''package.json'']) \<Longrightarrow> should_preserve h \<lparr>cd_path = p, cd_name = ''node_modules''\<rparr>"
  by (simp add: should_preserve_def is_pi_owned_node_modules_def)

text \<open>With \<^verbatim>\<open>-repo-roots\<close> the daemon does not check the structure of what it removes.\<close>

definition bare_target :: clean_host where
  "bare_target = demo_host\<lparr>ch_tree := (\<lambda>p. Some (Dir (Some [(''.git'', Dir (Some [])), (''.prtag'', File (Some (''demo:'' @ [CHR 0x0A]))),
     (''target'', Dir (Some [(''lib.rs'', File None)]))]))), ch_exists := (\<lambda>p. p = ''/w/target'')\<rparr>"

lemma daemon_repo_roots_unchecked:
  "\<not> has_expected_structure bare_target \<lparr>cd_path = ''/w/target'', cd_name = ''target''\<rparr>"
  "clean_main (\<lambda>s. None) bare_target [''-daemon'', ''-repo-roots'', ''/w''] [Clean_stop]
     = ([\<lparr>cr_calls = [''/w/target''], cr_output = [Path_line ''/w/target'']\<rparr>], Clean_exit 0)"
  by code_simp+

text \<open>A ticker interval of nought panics after the first pass.\<close>

lemma daemon_interval_panics:
  "snd (clean_main (\<lambda>s. Some 0) bare_target [''-daemon'', ''-daemon-interval=0s'', ''/w''] []) = Clean_panic"
  by code_simp

end
