(* ===== verification/Go_Glob.thy ===== *)
theory Go_Glob
  imports Go_Json
begin

text \<open>
  \<^verbatim>\<open>filepath.Match\<close> as the library computes it: a pattern is a sequence of chunks, each preceded by a star or not;
  a star takes the shortest text without a slash after which its chunk fits, and what a star took is not
  reconsidered. A malformed pattern matches nothing. A rune that is not valid UTF-8 is U+FFFD.
\<close>

datatype glob_item = Glob_star | Glob_any | Glob_class bool "(string \<times> string) list" | Glob_char char

definition rune_width :: "string \<Rightarrow> nat" where
  "rune_width s = max 1 (rune_len s)"

definition rune_at :: "string \<Rightarrow> string" where
  "rune_at s = (if rune_len s = 0 then [CHR 0xEF, CHR 0xBF, CHR 0xBD] else take (rune_len s) s)"

text \<open>\<^verbatim>\<open>getEsc\<close>: one bound of a character class.\<close>

definition glob_bound :: "string \<Rightarrow> (string \<times> string) option" where
  "glob_bound s = (case s of [] \<Rightarrow> None | c # cs \<Rightarrow>
     if c = CHR ''-'' \<or> c = CHR '']'' then None
     else let t = (if c = CHR 0x5C then cs else s) in
       if t = [] \<or> rune_len t = 0 \<or> drop (rune_len t) t = [] then None else Some (rune_at t, drop (rune_len t) t))"

lemma glob_bound_shorter: "glob_bound s = Some (r, t) \<Longrightarrow> length t < length s \<and> t \<noteq> []"
proof -
  assume a: "glob_bound s = Some (r, t)"
  then obtain c cs where s: "s = c # cs"
    by (cases s) (simp_all add: glob_bound_def)
  let ?u = "if c = CHR 0x5C then cs else s"
  have "t = drop (rune_len ?u) ?u" "rune_len ?u \<noteq> 0" "t \<noteq> []"
    using a s by (auto simp: glob_bound_def Let_def split: if_splits)
  then show ?thesis
    using s by (auto split: if_splits)
qed

function glob_ranges :: "bool \<Rightarrow> string \<Rightarrow> ((string \<times> string) list \<times> string) option" where
  "glob_ranges started s =
     (if started \<and> s \<noteq> [] \<and> hd s = CHR '']'' then Some ([], tl s)
      else case glob_bound s of
          None \<Rightarrow> None
        | Some (lo, t) \<Rightarrow>
            if hd t = CHR ''-'' then
              (case glob_bound (tl t) of
                 None \<Rightarrow> None
               | Some (hi, u) \<Rightarrow> (case glob_ranges True u of None \<Rightarrow> None | Some (rs, v) \<Rightarrow> Some ((lo, hi) # rs, v)))
            else (case glob_ranges True t of None \<Rightarrow> None | Some (rs, v) \<Rightarrow> Some ((lo, lo) # rs, v)))"
  by pat_completeness auto
termination
  by (relation "measure (\<lambda>(_, s). length s)") (fastforce dest!: glob_bound_shorter)+

declare glob_ranges.simps [simp del]

lemma glob_ranges_shorter: "glob_ranges started s = Some (rs, t) \<Longrightarrow> length t < length s"
proof (induction started s arbitrary: rs t rule: glob_ranges.induct)
  case (1 started s)
  show ?case
  proof (cases "started \<and> s \<noteq> [] \<and> hd s = CHR '']''")
    case True
    with "1.prems" show ?thesis
      unfolding glob_ranges.simps [of started s] by (cases s) auto
  next
    case False
    with "1.prems" obtain lo u where b: "glob_bound s = Some (lo, u)"
      by (auto simp: glob_ranges.simps [of started s] split: option.splits)
    note sh = glob_bound_shorter [OF b]
    show ?thesis
    proof (cases "hd u = CHR ''-''")
      case True
      with "1.prems" False b obtain hi v rs' where v: "glob_bound (tl u) = Some (hi, v)" "glob_ranges True v = Some (rs', t)"
        by (auto simp: glob_ranges.simps [of started s] split: option.splits)
      have "length t < length v"
        using "1.IH"(1) [OF False b refl True v(1) refl v(2)] .
      with glob_bound_shorter [OF v(1)] sh show ?thesis
        by (simp add: less_diff_conv)
    next
      case nd: False
      with "1.prems" False b obtain rs' where v: "glob_ranges True u = Some (rs', t)"
        by (auto simp: glob_ranges.simps [of started s] split: option.splits)
      with "1.IH"(2) [OF False b refl nd v] sh show ?thesis
        by simp
    qed
  qed
qed

function glob_items :: "string \<Rightarrow> glob_item list option" where
  "glob_items [] = Some []"
| "glob_items (c # s) =
     (if c = CHR ''*'' then map_option (Cons Glob_star) (glob_items s)
      else if c = CHR ''?'' then map_option (Cons Glob_any) (glob_items s)
      else if c = CHR ''['' then
        (let neg = has_prefix s ''^'' in
         case glob_ranges False (if neg then tl s else s) of
           None \<Rightarrow> None | Some (rs, t) \<Rightarrow> map_option (Cons (Glob_class neg rs)) (glob_items t))
      else if c = CHR 0x5C then (case s of [] \<Rightarrow> None | x # t \<Rightarrow> map_option (Cons (Glob_char x)) (glob_items t))
      else map_option (Cons (Glob_char c)) (glob_items s))"
  by pat_completeness auto
termination
  by (relation "measure length") (fastforce dest!: glob_ranges_shorter split: if_splits)+

fun match_chunk :: "glob_item list \<Rightarrow> string \<Rightarrow> string option" where
  "match_chunk [] s = Some s"
| "match_chunk (it # its) s =
     (if s = [] then None
      else case it of
          Glob_star \<Rightarrow> None
        | Glob_any \<Rightarrow> if hd s = CHR ''/'' then None else match_chunk its (drop (rune_width s) s)
        | Glob_class neg rs \<Rightarrow>
            if list_ex (\<lambda>(lo, hi). lo \<le> rune_at s \<and> rune_at s \<le> hi) rs = neg then None
            else match_chunk its (drop (rune_width s) s)
        | Glob_char c \<Rightarrow> if hd s = c then match_chunk its (tl s) else None)"

fun match_from :: "bool \<Rightarrow> glob_item list \<Rightarrow> bool \<Rightarrow> string \<Rightarrow> string option" where
  "match_from star its final [] = (case match_chunk its [] of Some t \<Rightarrow> Some t | None \<Rightarrow> None)"
| "match_from star its final (c # s) =
     (case (case match_chunk its (c # s) of Some t \<Rightarrow> if t = [] \<or> \<not> final then Some t else None | None \<Rightarrow> None) of
        Some t \<Rightarrow> Some t
      | None \<Rightarrow> if star \<and> c \<noteq> CHR ''/'' then match_from star its final s else None)"

function glob_chunks :: "glob_item list \<Rightarrow> (bool \<times> glob_item list) list" where
  "glob_chunks [] = []"
| "glob_chunks (it # its) =
     (let rest = dropWhile (\<lambda>x. x = Glob_star) (it # its) in
      (it = Glob_star, takeWhile (\<lambda>x. x \<noteq> Glob_star) rest) # glob_chunks (dropWhile (\<lambda>x. x \<noteq> Glob_star) rest))"
  by pat_completeness auto
termination
proof (relation "measure length")
  fix it :: glob_item and its rest
  assume r: "rest = dropWhile (\<lambda>x. x = Glob_star) (it # its)"
  show "(dropWhile (\<lambda>x. x \<noteq> Glob_star) rest, it # its) \<in> measure length"
  proof (cases "it = Glob_star")
    case True
    then show ?thesis
      using r length_dropWhile_le [of "\<lambda>x. x = Glob_star" its] length_dropWhile_le [of "\<lambda>x. x \<noteq> Glob_star" rest] by simp
  next
    case False
    then show ?thesis
      using r by (simp add: le_imp_less_Suc length_dropWhile_le)
  qed
qed simp

fun match_chunks :: "(bool \<times> glob_item list) list \<Rightarrow> string \<Rightarrow> bool" where
  "match_chunks [] s = (s = [])"
| "match_chunks ((star, its) # cs) s =
     (if star \<and> its = [] then CHR ''/'' \<notin> set s
      else case match_from star its (cs = []) s of None \<Rightarrow> False | Some t \<Rightarrow> match_chunks cs t)"

definition glob_match :: "string \<Rightarrow> string \<Rightarrow> bool" where
  "glob_match pattern s = (case glob_items pattern of None \<Rightarrow> False | Some its \<Rightarrow> match_chunks (glob_chunks its) s)"

definition any_glob :: "string list \<Rightarrow> string \<Rightarrow> bool" where
  "any_glob patterns s \<longleftrightarrow> list_ex (\<lambda>p. glob_match p s) patterns"

lemma glob_examples:
  "glob_match ''/a/*.md'' ''/a/b.md''" "\<not> glob_match ''/a/*.md'' ''/a/b/c.md''" "glob_match ''[a-c]?z'' ''bxz''"
  "\<not> glob_match ''[]a]'' ''a''" "glob_match ''*[^/]x*'' ''abxc''" "\<not> glob_match ''a[''  ''a''"
  by code_simp+

end
