(* ===== verification/Agentweave_Model.thy ===== *)
theory Agentweave_Model
  imports Extclean Commit_Anchor Walk_Dir
begin

text \<open>
  The data of AgentWeave's index and its extraction from files: \<^verbatim>\<open>agentweave/core/model.go\<close>,
  \<^verbatim>\<open>config.go\<close> and \<^verbatim>\<open>extract.go\<close>. An artifact is one local conversation, plan, task or workflow; its text is
  cut into chunks that can be cited one by one. The main lemmas say that the chunks are bounded, have
  distinct references and together hold every visible character of the text.

  Agents and kinds are the strings of the source. Instants are milliseconds of Unix time,
  \<open>zero_time\<close> is Go's zero \<^verbatim>\<open>time.Time\<close>. JSON decoding, \<^verbatim>\<open>time.Parse\<close>, SHA-256, the clock and the file system are
  fields of an environment. The texts of errors and of the details in a status are left out.
\<close>

section \<open>Data (\<^verbatim>\<open>model.go\<close>)\<close>

definition zero_time :: int where
  "zero_time = - 62135596800000"

record workflow_definition =
  wd_name :: string
  wd_scope :: string
  wd_project_key :: string
  wd_precedence :: int
  wd_saved_at :: int
  wd_script_hash :: string
  wd_parameters :: string
  wd_meta :: string
  wd_meta_status :: string
  wd_package_version :: string
  wd_visibility :: string
  wd_indexability :: string

record workflow_run =
  wr_run_id :: string
  wr_workflow :: string
  wr_session :: string
  wr_status :: string
  wr_started :: int
  wr_finished :: int
  wr_fingerprint :: string
  wr_record_type :: string
  wr_parent_definition :: string

record artifact =
  ar_id :: string
  ar_agent :: string
  ar_kind :: string
  ar_workspace :: string
  ar_title :: string
  ar_source :: string
  ar_record :: string
  ar_parent :: string
  ar_created :: int
  ar_updated :: int
  ar_text :: string
  ar_definition :: "workflow_definition option"
  ar_run :: "workflow_run option"

record source_status =
  st_agent :: string
  st_path :: string
  st_state :: string
  st_synced :: int
  st_count :: nat
  st_fingerprint :: string

record aw_chunk =
  ch_ref :: string
  ch_artifact :: string
  ch_ordinal :: nat
  ch_body :: string

record aw_env =
  aw_sha :: "bytes \<Rightarrow> hash"
  aw_cwd :: "string option"
  aw_now :: int
  aw_json :: "string \<Rightarrow> jval option"
  aw_time :: "string \<Rightarrow> string \<Rightarrow> int option"
  aw_read :: "string \<Rightarrow> string option"
  aw_missing :: "string \<Rightarrow> bool"
  aw_mtime :: "string \<Rightarrow> int option"
  aw_tree :: "string \<Rightarrow> node option"

definition stable_id :: "(bytes \<Rightarrow> hash) \<Rightarrow> string list \<Rightarrow> string" where
  "stable_id H parts = take 24 (hex_encode (H (bytes_of (concat (map (\<lambda>p. p @ [CHR 0x00]) parts)))))"

definition canonical_workspace :: "string option \<Rightarrow> string \<Rightarrow> string" where
  "canonical_workspace cwd ws =
     (let w = trim_space ws in
      if w = [] then []
      else let p = (if has_prefix w ''file://'' then replace_all ''%20'' '' '' (trim_prefix w ''file://'') else w)
        in case abs_in cwd p of Some a \<Rightarrow> clean a | None \<Rightarrow> clean p)"

datatype normalize_error = Fields_missing | No_indexable_text

text \<open>\<^verbatim>\<open>Normalize\<close> changes the artifact in place, up to the point at which it fails.\<close>

definition normalize :: "aw_env \<Rightarrow> artifact \<Rightarrow> artifact \<times> normalize_error option" where
  "normalize env a =
     (if ar_agent a = [] \<or> ar_kind a = [] \<or> ar_source a = [] then (a, Some Fields_missing)
      else let src = clean (ar_source a);
          title = (let t = trim_space (ar_title a) in if t = [] then path_base src else t);
          text = trim_space (ar_text a);
          a1 = a\<lparr>ar_source := src, ar_workspace := canonical_workspace (aw_cwd env) (ar_workspace a),
                 ar_title := title, ar_text := text\<rparr>
        in if text = [] then (a1, Some No_indexable_text)
        else let upd = (if ar_updated a = zero_time then aw_now env else ar_updated a)
          in (a1\<lparr>ar_id := (if ar_id a = [] then stable_id (aw_sha env) [ar_agent a, ar_kind a, src, ar_record a] else ar_id a),
                 ar_updated := upd, ar_created := (if ar_created a = zero_time then upd else ar_created a)\<rparr>, None))"

section \<open>Configuration (\<^verbatim>\<open>config.go\<close>)\<close>

record aw_config =
  cf_roots :: "string list"
  cf_deny :: "string list"
  cf_poll :: int
  cf_workflows :: "bool option"

definition default_data_dir :: "bool \<Rightarrow> string \<Rightarrow> string \<Rightarrow> string" where
  "default_data_dir darwin xdg home =
     (if darwin then path_join [home, ''Library'', ''Application Support'', ''AgentWeave'']
      else if xdg \<noteq> [] then path_join [xdg, ''agentweave'']
      else path_join [home, ''.local'', ''share'', ''agentweave''])"

definition default_config_path :: "bool \<Rightarrow> string \<Rightarrow> string \<Rightarrow> string" where
  "default_config_path darwin xdg home = path_join [default_data_dir darwin xdg home, ''config.json'']"

definition decode_int :: "jval \<Rightarrow> int option" where
  "decode_int v = (case v of JV_num s \<Rightarrow> (case atoi s of (n, ok) \<Rightarrow> if ok then Some n else None) | JV_null \<Rightarrow> Some 0 | _ \<Rightarrow> None)"

definition decode_config :: "jval \<Rightarrow> aw_config option" where
  "decode_config v =
     (case (decode_field ''artifact_roots'' (decode_slice decode_string) [] v,
            decode_field ''deny_globs'' (decode_slice decode_string) [] v,
            decode_field ''poll_seconds'' decode_int 0 v,
            decode_field ''workflow_indexing'' decode_bool_ptr None v) of
        (Some rs, Some ds, Some p, Some w) \<Rightarrow> Some \<lparr>cf_roots = rs, cf_deny = ds, cf_poll = p, cf_workflows = w\<rparr>
      | _ \<Rightarrow> None)"

datatype config_error = Config_unreadable | Config_undecodable

definition load_config :: "aw_env \<Rightarrow> string \<Rightarrow> config_error + aw_config" where
  "load_config env path =
     (case aw_read env path of
        None \<Rightarrow> if aw_missing env path then Inr \<lparr>cf_roots = [], cf_deny = [], cf_poll = 0, cf_workflows = None\<rparr> else Inl Config_unreadable
      | Some data \<Rightarrow> (case Option.bind (aw_json env data) decode_config of
          None \<Rightarrow> Inl Config_undecodable
        | Some c \<Rightarrow> Inr (c\<lparr>cf_poll := (if cf_poll c \<le> 0 then 30 else cf_poll c),
              cf_roots := map (canonical_workspace (aw_cwd env)) (cf_roots c)\<rparr>)))"

definition workflows_enabled :: "aw_config \<Rightarrow> bool" where
  "workflows_enabled c \<longleftrightarrow> cf_workflows c \<noteq> Some False"

section \<open>Text of JSON records (\<^verbatim>\<open>extract.go\<close>)\<close>

lemma size_map_of: "map_of kvs k = Some v \<Longrightarrow> size v < size (JV_obj kvs)"
proof -
  assume "map_of kvs k = Some v"
  then have "(k, v) \<in> set kvs"
    by (rule map_of_SomeD)
  then show ?thesis
    by (induction kvs) auto
qed

definition string_at :: "(string \<times> jval) list \<Rightarrow> string \<Rightarrow> string option" where
  "string_at obj key = (case map_of obj key of Some (JV_str s) \<Rightarrow> Some s | _ \<Rightarrow> None)"

fun content_text :: "jval \<Rightarrow> string" where
  "content_text (JV_str s) = trim_space s"
| "content_text (JV_arr vs) = join [CHR 0x0A] (filter (\<lambda>t. t \<noteq> []) (map content_text vs))"
| "content_text (JV_obj kvs) =
     (let kind = (case string_at kvs ''type'' of Some k \<Rightarrow> k | None \<Rightarrow> []) in
      if kind \<noteq> [] \<and> kind \<noteq> ''text'' \<and> kind \<noteq> ''input_text'' then []
      else case string_at kvs ''text'' of Some t \<Rightarrow> trim_space t
        | None \<Rightarrow> (case string_at kvs ''value'' of Some t \<Rightarrow> trim_space t | None \<Rightarrow> []))"
| "content_text _ = []"

definition content_at :: "(string \<times> jval) list \<Rightarrow> string \<Rightarrow> string" where
  "content_at obj key = (case map_of obj key of Some v \<Rightarrow> content_text v | None \<Rightarrow> [])"

text \<open>\<^verbatim>\<open>eventText\<close>: role and text of a record; the message's role replaces the record's even where the message has no text.\<close>

definition message_of :: "(string \<times> jval) list \<Rightarrow> string \<Rightarrow> string \<times> string" where
  "message_of obj role = (case map_of obj ''message'' of
     Some (JV_obj m) \<Rightarrow> (case string_at m ''role'' of Some r \<Rightarrow> r | None \<Rightarrow> role, content_at m ''content'')
   | _ \<Rightarrow> (role, []))"

function event_text :: "(string \<times> jval) list \<Rightarrow> string \<times> string" where
  "event_text obj =
     (let (role, text) = message_of obj (case string_at obj ''role'' of Some r \<Rightarrow> r | None \<Rightarrow> []) in
      if text \<noteq> [] then (role, text)
      else if content_at obj ''content'' \<noteq> [] then (role, content_at obj ''content'')
      else if content_at obj ''text'' \<noteq> [] then (role, content_at obj ''text'')
      else case map_of obj ''value'' of
          Some (JV_obj v) \<Rightarrow> (case event_text v of (r, t) \<Rightarrow>
            if t \<noteq> [] then (if r = [] then role else r, t) else (role, []))
        | _ \<Rightarrow> (role, []))"
  by pat_completeness auto
termination
  by (relation "measure (\<lambda>obj. size (JV_obj obj))") (auto dest: size_map_of)

declare event_text.simps [simp del]

text \<open>\<^verbatim>\<open>jsonArtifactText\<close>: the strings below a few keys, the entries of an object in one order of many.\<close>

definition allowed_keys :: "string list" where
  "allowed_keys = [''title'', ''description'', ''objective'', ''content'', ''summary'', ''plan'', ''status'', ''task'']"

function artifact_texts :: "string \<Rightarrow> jval \<Rightarrow> string list" where
  "artifact_texts key (JV_str s) = (if to_lower key \<in> set allowed_keys \<and> trim_space s \<noteq> [] then [trim_space s] else [])"
| "artifact_texts key (JV_arr vs) = concat (map (artifact_texts key) vs)"
| "artifact_texts key (JV_obj kvs) = concat (map (\<lambda>e. artifact_texts (fst e) (snd e)) (go_entries kvs))"
| "artifact_texts key JV_null = []"
| "artifact_texts key (JV_bool b) = []"
| "artifact_texts key (JV_num s) = []"
  by pat_completeness auto
termination
proof (relation "measure (\<lambda>(_, v). size v)")
  show "((key, x), key, JV_arr vs) \<in> measure (\<lambda>(_, v). size v)" if "x \<in> set vs" for key x vs
    using that by (induction vs) auto
  show "((fst e, snd e), key, JV_obj kvs) \<in> measure (\<lambda>(_, v). size v)" if "e \<in> set (go_entries kvs)" for e key kvs
  proof -
    have "map_of kvs (fst e) = Some (snd e)"
      using that by (metis in_go_entries prod.collapse)
    then show ?thesis
      using size_map_of [of kvs "fst e" "snd e"] by (simp add: case_prod_beta)
  qed
qed simp

definition json_artifact_text :: "jval \<Rightarrow> string" where
  "json_artifact_text v = join [CHR 0x0A] (artifact_texts [] v)"

section \<open>Conversations, plans and tasks\<close>

definition time_layouts :: "string list" where
  "time_layouts = [''2006-01-02T15:04:05.999999999Z07:00'', ''2006-01-02T15:04:05Z07:00'', ''2006-01-02T15:04:05.000Z'']"

definition parse_time :: "aw_env \<Rightarrow> string \<Rightarrow> int" where
  "parse_time env s = (case List.map_filter (\<lambda>l. aw_time env l s) time_layouts of [] \<Rightarrow> zero_time | t # _ \<Rightarrow> t)"

text \<open>\<^verbatim>\<open>firstLine\<close> cuts bytes, and the ellipsis it appends has three of them.\<close>

definition ellipsis :: string where
  "ellipsis = [CHR 0xE2, CHR 0x80, CHR 0xA6]"

definition first_line :: "string \<Rightarrow> nat \<Rightarrow> string" where
  "first_line s bound = (let l = trim_space (hd (split_on (CHR 0x0A) s)) in
     if length l > bound then take (bound - 1) l @ ellipsis else l)"

record conversation_meta =
  cm_workspace :: string
  cm_session :: string
  cm_created :: int
  cm_updated :: int
  cm_title :: string
  cm_parent :: string

definition first_string :: "(string \<times> jval) list \<Rightarrow> (string \<Rightarrow> string) \<Rightarrow> string list \<Rightarrow> string \<Rightarrow> string" where
  "first_string obj f keys cur = fold (\<lambda>k c. case string_at obj k of Some v \<Rightarrow> if c = [] then f v else c | None \<Rightarrow> c) keys cur"

definition merge_meta :: "aw_env \<Rightarrow> conversation_meta \<Rightarrow> (string \<times> jval) list \<Rightarrow> conversation_meta" where
  "merge_meta env m obj = m\<lparr>
     cm_workspace := first_string obj (canonical_workspace (aw_cwd env))
       [''cwd'', ''workspace'', ''workspacePath'', ''projectPath'', ''working_directory''] (cm_workspace m),
     cm_session := first_string obj id [''sessionId'', ''session_id'', ''thread_id'', ''threadId'', ''id''] (cm_session m),
     cm_parent := first_string obj id [''parentId'', ''parent_id'', ''parentThreadId''] (cm_parent m),
     cm_created := fold (\<lambda>k t. case string_at obj k of Some v \<Rightarrow> if t = zero_time then parse_time env v else t | None \<Rightarrow> t)
       [''timestamp'', ''created_at'', ''createdAt''] (cm_created m),
     cm_updated := fold (\<lambda>k t. case string_at obj k of
         Some v \<Rightarrow> (let p = parse_time env v in if p \<noteq> zero_time then p else t) | None \<Rightarrow> t)
       [''updated_at'', ''updatedAt'', ''timestamp''] (cm_updated m)\<rparr>"

text \<open>One line of a conversation with its number; a line that is not JSON is passed over.\<close>

definition jsonl_step :: "aw_env \<Rightarrow> nat \<times> string \<Rightarrow> conversation_meta \<times> string list \<Rightarrow> conversation_meta \<times> string list" where
  "jsonl_step env nl st =
     (let (n, raw) = nl; (m, ls) = st; line = trim_space raw in
      if line = [] then st
      else case aw_json env line of
          Some (JV_obj obj) \<Rightarrow>
            (let m1 = merge_meta env m obj; (role0, text) = event_text obj in
             if text = [] then (m1, ls)
             else let role = (if role0 = [] then ''record'' else role0);
                 m2 = (if cm_title m1 = [] \<and> role = ''user'' then m1\<lparr>cm_title := first_line text 120\<rparr> else m1)
               in (m2, ls @ [''['' @ role @ '' #'' @ show_nat n @ '']'' @ [CHR 0x0A] @ text]))
        | _ \<Rightarrow> st)"

definition max_jsonl_line :: nat where
  "max_jsonl_line = 4194304"

definition scan_lines_below :: "nat \<Rightarrow> string \<Rightarrow> string list \<times> bool" where
  "scan_lines_below bound s = (let raw = raw_lines s; ok = takeWhile (\<lambda>l. length l < bound) raw
     in (map drop_cr ok, length ok = length raw))"

definition blank_artifact :: artifact where
  "blank_artifact = \<lparr>ar_id = [], ar_agent = [], ar_kind = [], ar_workspace = [], ar_title = [], ar_source = [],
     ar_record = [], ar_parent = [], ar_created = zero_time, ar_updated = zero_time, ar_text = [],
     ar_definition = None, ar_run = None\<rparr>"

datatype parse_error = Not_readable | Line_too_long | Not_json | Nothing_found

definition modified :: "aw_env \<Rightarrow> string \<Rightarrow> int" where
  "modified env path = (case aw_mtime env path of Some t \<Rightarrow> t | None \<Rightarrow> aw_now env)"

definition parse_jsonl :: "aw_env \<Rightarrow> string \<Rightarrow> string \<Rightarrow> string \<Rightarrow> parse_error + artifact" where
  "parse_jsonl env path agent ws =
     (case aw_read env path of
        None \<Rightarrow> Inl Not_readable
      | Some data \<Rightarrow>
          (let (raw, complete) = scan_lines_below max_jsonl_line data;
               m0 = \<lparr>cm_workspace = canonical_workspace (aw_cwd env) ws, cm_session = [], cm_created = zero_time,
                     cm_updated = zero_time, cm_title = [], cm_parent = []\<rparr>;
               (m, ls) = fold (jsonl_step env) (List.enumerate 1 raw) (m0, [])
           in if \<not> complete then Inl Line_too_long
              else if ls = [] then Inl Nothing_found
              else let upd = (if cm_updated m \<noteq> zero_time then cm_updated m else modified env path) in
                Inr (blank_artifact\<lparr>ar_id := stable_id (aw_sha env) [agent, path, cm_session m], ar_agent := agent,
                  ar_kind := ''conversation'', ar_workspace := cm_workspace m, ar_title := cm_title m,
                  ar_source := path, ar_record := cm_session m, ar_parent := cm_parent m,
                  ar_created := (if cm_created m \<noteq> zero_time then cm_created m else upd), ar_updated := upd,
                  ar_text := join [CHR 0x0A, CHR 0x0A] ls\<rparr>)))"

definition parse_markdown :: "aw_env \<Rightarrow> string \<Rightarrow> string \<Rightarrow> string \<Rightarrow> string \<Rightarrow> parse_error + artifact" where
  "parse_markdown env path agent kind ws =
     (case aw_read env path of
        None \<Rightarrow> Inl Not_readable
      | Some data \<Rightarrow>
          (let text = trim_space data in
           if text = [] then Inl Nothing_found
           else Inr (blank_artifact\<lparr>ar_agent := agent, ar_kind := kind, ar_workspace := ws,
             ar_title := first_line (trim_prefix text ''#'') 120, ar_source := path,
             ar_updated := modified env path, ar_text := text\<rparr>)))"

definition parse_json_artifact :: "aw_env \<Rightarrow> string \<Rightarrow> string \<Rightarrow> string \<Rightarrow> string \<Rightarrow> parse_error + artifact" where
  "parse_json_artifact env path agent kind ws =
     (case aw_read env path of
        None \<Rightarrow> Inl Not_readable
      | Some data \<Rightarrow> (case aw_json env data of
          None \<Rightarrow> Inl Not_json
        | Some v \<Rightarrow>
            (let text = trim_space (json_artifact_text v) in
             if text = [] then Inl Nothing_found
             else Inr (blank_artifact\<lparr>ar_agent := agent, ar_kind := kind,
               ar_workspace := canonical_workspace (aw_cwd env) ws, ar_title := first_line text 120,
               ar_source := path, ar_updated := modified env path, ar_text := text\<rparr>))))"

definition file_fingerprint :: "aw_env \<Rightarrow> string \<Rightarrow> string option" where
  "file_fingerprint env path =
     map_option (\<lambda>data. stable_id (aw_sha env) [data, show_nat (length data)]) (aw_read env path)"

definition workspace_from_cursor :: "aw_env \<Rightarrow> string \<Rightarrow> string" where
  "workspace_from_cursor env dir =
     (case Option.bind (Option.bind (aw_read env (path_join [dir, ''workspace.json''])) (aw_json env))
             (decode_field ''folder'' decode_string []) of
        None \<Rightarrow> [] | Some f \<Rightarrow> canonical_workspace (aw_cwd env) f)"

section \<open>Chunks\<close>

definition newline :: "char \<Rightarrow> bool" where
  "newline c \<longleftrightarrow> c = CHR 0x0A"

definition last_newline :: "string \<Rightarrow> nat option" where
  "last_newline s = (if list_ex newline s then Some (length s - 1 - length (takeWhile (\<lambda>c. \<not> newline c) (rev s))) else None)"

text \<open>Where a chunk of at most \<open>bound\<close> bytes ends: at the last newline of its second half, if there is one.\<close>

definition chunk_cut :: "nat \<Rightarrow> string \<Rightarrow> nat" where
  "chunk_cut bound s = (if length s \<le> bound then length s
     else case last_newline (take bound s) of None \<Rightarrow> bound | Some i \<Rightarrow> if i < bound div 2 then bound else i)"

lemma last_newline_Some: "last_newline s = Some i \<Longrightarrow> i < length s \<and> newline (s ! i)"
proof -
  assume a: "last_newline s = Some i"
  let ?n = "length (takeWhile (\<lambda>c. \<not> newline c) (rev s))"
  have ex: "\<exists>c \<in> set s. newline c" and i: "i = length s - 1 - ?n"
    using a by (auto simp: last_newline_def list_ex_iff split: if_splits)
  have n: "?n < length s"
    using ex length_takeWhile_le [of "\<lambda>c. \<not> newline c" "rev s"]
    by (metis length_rev le_neq_implies_less set_rev takeWhile_eq_all_conv takeWhile_eq_take take_all order_refl)
  then have "newline (rev s ! ?n)"
    using nth_length_takeWhile [of "\<lambda>c. \<not> newline c" "rev s"] by simp
  with n i show ?thesis
    by (simp add: rev_nth)
qed

lemma chunk_cut_le: "chunk_cut bound s \<le> length s" "chunk_cut bound s \<le> bound"
  by (auto simp: chunk_cut_def min_def dest!: last_newline_Some split: option.split if_splits)

lemma chunk_cut_progress:
  assumes "s \<noteq> []" "0 < bound"
  shows "length (dropWhile newline (drop (chunk_cut bound s) s)) < length s"
proof (cases "chunk_cut bound s = 0")
  case False
  then show ?thesis
    using assms(1) length_dropWhile_le [of newline "drop (chunk_cut bound s) s"] by (cases s) (auto simp: le_less_trans)
next
  case True
  then have "last_newline (take bound s) = Some 0"
    using assms by (auto simp: chunk_cut_def split: option.splits if_splits)
  then have "newline (s ! 0)"
    using last_newline_Some [of "take bound s" 0] assms by simp
  with True assms(1) show ?thesis
    by (cases s) (auto simp: le_imp_less_Suc length_dropWhile_le)
qed

text \<open>The loop of \<^verbatim>\<open>artifactChunks\<close>; a blank piece uses up an ordinal but gives no chunk.\<close>

function chunks_from :: "string \<Rightarrow> nat \<Rightarrow> nat \<Rightarrow> string \<Rightarrow> aw_chunk list" where
  "chunks_from aid bound n s =
     (if s = [] \<or> bound = 0 then []
      else let body = trim_space (take (chunk_cut bound s) s);
          later = chunks_from aid bound (Suc n) (dropWhile newline (drop (chunk_cut bound s) s))
        in if body = [] then later
           else \<lparr>ch_ref = ''aw:'' @ aid @ '':'' @ show_nat n, ch_artifact = aid, ch_ordinal = n, ch_body = body\<rparr> # later)"
  by pat_completeness auto
termination
  by (relation "measure (\<lambda>(_, _, _, s). length s)") (auto intro: chunk_cut_progress)

declare chunks_from.simps [simp del]

definition artifact_chunks :: "artifact \<Rightarrow> int \<Rightarrow> aw_chunk list" where
  "artifact_chunks a bound = chunks_from (ar_id a) (nat (if bound \<le> 0 then 3200 else bound)) 0 (ar_text a)"

lemma length_trim_space: "length (trim_space s) \<le> length s"
proof -
  obtain r where "s = r @ trim_left_space s"
    using trim_left_with_suffix unfolding trim_left_space_def by blast
  moreover obtain r' where "trim_left_space s = trim_space s @ r'"
    using trim_right_space_prefix unfolding has_prefix_iff trim_space_def by blast
  ultimately show ?thesis
    by (metis le_add1 le_add2 le_trans length_append)
qed

lemma chunks_from_bounds:
  "c \<in> set (chunks_from aid bound n s) \<Longrightarrow> length (ch_body c) \<le> bound \<and> ch_body c \<noteq> [] \<and> ch_artifact c = aid
     \<and> n \<le> ch_ordinal c \<and> ch_ref c = ''aw:'' @ aid @ '':'' @ show_nat (ch_ordinal c)"
proof (induction aid bound n s rule: chunks_from.induct)
  case (1 aid bound n s)
  have "length (trim_space (take (chunk_cut bound s) s)) \<le> bound"
    using length_trim_space [of "take (chunk_cut bound s) s"] chunk_cut_le(2) [of bound s] by simp
  with "1.IH" "1.prems" show ?case
    unfolding chunks_from.simps [of aid bound n s] by (auto simp: Let_def split: if_splits)
qed

lemma show_nat_eq_iff [simp]: "show_nat m = show_nat n \<longleftrightarrow> m = n"
  by (metis digits_val_show_nat of_nat_eq_iff)

lemma chunks_from_distinct: "distinct (map ch_ref (chunks_from aid bound n s))"
proof (induction aid bound n s rule: chunks_from.induct)
  case (1 aid bound n s)
  have "''aw:'' @ aid @ '':'' @ show_nat n \<notin> ch_ref ` set (chunks_from aid bound (Suc n) t)" for t
    using chunks_from_bounds [of _ aid bound "Suc n" t] by fastforce
  with "1.IH" show ?case
    unfolding chunks_from.simps [of aid bound n s] by (auto simp: Let_def)
qed

text \<open>Trimming takes no visible character away, so the chunks keep them all.\<close>

lemma space_runes_invisible: "list_all (\<lambda>p. filter visible p = []) space_runes"
  by (simp add: space_runes_def visible_def)

lemma leading_rune_Suc: "leading_rune ps s = k \<Longrightarrow> k \<noteq> 0 \<Longrightarrow> take k s \<in> set ps"
  by (auto simp: leading_rune_def has_prefix_iff find_Some_iff split: option.splits)

lemma filter_trim_left_with:
  "\<forall>p \<in> set ps. filter visible p = [] \<Longrightarrow> filter visible (trim_left_with ps s) = filter visible s"
proof (induction ps s rule: trim_left_with.induct)
  case (1 ps s)
  show ?case
  proof (cases "leading_rune ps s")
    case (Suc k)
    then have "filter visible (take (Suc k) s) = []"
      using leading_rune_Suc [of ps s "Suc k"] "1.prems" by simp
    then have "filter visible s = filter visible (drop (Suc k) s)"
      by (metis append_Nil append_take_drop_id filter_append)
    with Suc 1 show ?thesis
      by (simp add: trim_left_with.simps [of ps s])
  qed simp
qed

lemma filter_trim_space: "filter visible (trim_space s) = filter visible s"
proof -
  have l: "filter visible (trim_left_space t) = filter visible t" for t
    unfolding trim_left_space_def using space_runes_invisible by (intro filter_trim_left_with) (simp add: list_all_iff)
  have r: "filter visible (trim_right_space t) = filter visible t" for t
  proof -
    have "filter visible (trim_left_with (map rev space_runes) (rev t)) = filter visible (rev t)"
      using space_runes_invisible by (intro filter_trim_left_with) (auto simp: list_all_iff rev_filter [symmetric])
    then show ?thesis
      by (simp add: trim_right_space_def rev_filter [symmetric])
  qed
  show ?thesis
    by (simp add: trim_space_def l r)
qed

lemma filter_dropWhile_newline: "filter visible (dropWhile newline s) = filter visible s"
  by (induction s) (auto simp: newline_def visible_def)

lemma chunks_from_visible:
  "0 < bound \<Longrightarrow> filter visible (concat (map ch_body (chunks_from aid bound n s))) = filter visible s"
proof (induction aid bound n s rule: chunks_from.induct)
  case (1 aid bound n s)
  let ?cut = "chunk_cut bound s"
  show ?case
  proof (cases "s = []")
    case False
    have "filter visible s = filter visible (take ?cut s) @ filter visible (drop ?cut s)"
      by (metis append_take_drop_id filter_append)
    moreover have "filter visible (take ?cut s) = []" if "trim_space (take ?cut s) = []"
      using filter_trim_space [of "take ?cut s"] that by simp
    ultimately show ?thesis
      using 1 False unfolding chunks_from.simps [of aid bound n s]
      by (simp add: Let_def filter_trim_space filter_dropWhile_newline)
  qed (simp add: chunks_from.simps)
qed


text \<open>The pieces are cut between bytes: a rune may end up in two chunks. \<^verbatim>\<open>firstLine\<close> can exceed its bound.\<close>

lemma chunk_splits_rune:
  "map ch_body (artifact_chunks (blank_artifact\<lparr>ar_text := ''a'' @ ellipsis\<rparr>) 3) = [''a'' @ [CHR 0xE2, CHR 0x80], [CHR 0xA6]]"
  by code_simp

lemma first_line_exceeds: "length (first_line ''abcdef'' 5) = 7"
  by code_simp

end
