(* ===== verification/Agentweave_Workflows.thy ===== *)
theory Agentweave_Workflows
  imports Agentweave_Model Go_Glob
begin

text \<open>
  The adapter for saved workflows and their runs (\<^verbatim>\<open>agentweave/core/workflows.go\<close>). A project's directory is
  attributed to a workspace by its manifest only, whose key must be recomputed from the workspace. The
  property at the end says that every artifact of a scan is the user's or belongs to a
  workspace whose key names the directory it was found under.

  Of the fields the adapter does not read only the shape is decoded. The texts of raw and re-encoded JSON
  are parameters, as are the answers of \<^verbatim>\<open>Lstat\<close>, \<^verbatim>\<open>ReadDir\<close> and \<^verbatim>\<open>EvalSymlinks\<close>; \<^verbatim>\<open>readRetry\<close> is the second
  read's answer.
\<close>

section \<open>The machine\<close>

datatype lkind = Is_link | Is_dir | Is_other

datatype 'a lookup = Absent | Failed | Found 'a

record codex_row =
  cx_id :: string
  cx_rollout :: string
  cx_cwd :: string
  cx_title :: string
  cx_updated :: int

record goal_row =
  gl_thread :: string
  gl_objective :: string
  gl_status :: string
  gl_created :: int
  gl_updated :: int

record aw_host =
  ho_env :: aw_env
  ho_darwin :: bool
  ho_stat_ok :: "string \<Rightarrow> bool"
  ho_cancelled :: "string \<Rightarrow> bool"
  ho_lstat :: "string \<Rightarrow> (lkind \<times> int) lookup"
  ho_entries :: "string \<Rightarrow> (string \<times> bool) list option"
  ho_real :: "string \<Rightarrow> string lookup"
  ho_raw :: "string \<Rightarrow> string \<Rightarrow> string option"
  ho_marshal :: "jval \<Rightarrow> string"
  ho_threads :: "string \<Rightarrow> (codex_row option list \<times> bool) option"
  ho_edges :: "string \<Rightarrow> (string \<times> string) list"
  ho_goals :: "string \<Rightarrow> goal_row option list option"

record scan_options =
  so_home :: string
  so_roots :: "string list"
  so_deny :: "string list"
  so_workflows :: "bool option"

datatype scan_stop = Context_done | Entries_refused

type_synonym scanned = "artifact list \<times> source_status list \<times> scan_stop option"

definition status_of :: "aw_env \<Rightarrow> string \<Rightarrow> string \<Rightarrow> string \<Rightarrow> source_status" where
  "status_of env agent path state = \<lparr>st_agent = agent, st_path = path, st_state = state, st_synced = aw_now env,
     st_count = 0, st_fingerprint = []\<rparr>"

definition source_error :: "aw_env \<Rightarrow> string \<Rightarrow> string \<Rightarrow> source_status" where
  "source_error env agent path = status_of env agent path ''error''"

definition stale_error :: "aw_env \<Rightarrow> string \<Rightarrow> source_status" where
  "stale_error env path = status_of env ''pi_workflows'' path ''stale''"

text \<open>Scans after one another; the first that stops is the last.\<close>

definition scan_then :: "scanned \<Rightarrow> scanned \<Rightarrow> scanned" where
  "scan_then a b = (case a of (as, ss, Some e) \<Rightarrow> a | (as, ss, None) \<Rightarrow> (case b of (bs, ts, e) \<Rightarrow> (as @ bs, ss @ ts, e)))"

lemma scan_then_artifacts: "a \<in> set (fst (scan_then x y)) \<Longrightarrow> a \<in> set (fst x) \<or> a \<in> set (fst y)"
  by (auto simp: scan_then_def split: prod.splits option.splits)

section \<open>Names, paths and directories\<close>

definition unsafe_name :: "string \<Rightarrow> bool" where
  "unsafe_name n \<longleftrightarrow> has_prefix n ''.'' \<or> contains_str n ''..'' \<or> contains_str n ''.tmp'' \<or> contains_str n ''.bak''
     \<or> contains_str n ''.lock''"

definition valid_workflow_name :: "string \<Rightarrow> bool" where
  "valid_workflow_name s \<longleftrightarrow> s \<noteq> [] \<and> trim_space s = s \<and> length s \<le> 128 \<and> s \<noteq> ''.'' \<and> s \<noteq> ''..''
     \<and> \<not> contains_any s [CHR ''/'', CHR 0x5C, CHR 0x00]"

definition sha256hex :: "aw_env \<Rightarrow> string \<Rightarrow> string" where
  "sha256hex env s = hex_encode (aw_sha env (bytes_of s))"

definition slug_char :: "char \<Rightarrow> bool" where
  "slug_char c \<longleftrightarrow> (CHR ''a'' \<le> c \<and> c \<le> CHR ''z'') \<or> (CHR ''0'' \<le> c \<and> c \<le> CHR ''9'')
     \<or> c = CHR ''.'' \<or> c = CHR ''_'' \<or> c = CHR ''-''"

fun slug_from :: "bool \<Rightarrow> string \<Rightarrow> string" where
  "slug_from dash [] = []"
| "slug_from dash (c # s) =
     (if slug_char c then c # slug_from False s else if dash then slug_from True s else CHR ''-'' # slug_from True s)"

definition trim_dashes :: "string \<Rightarrow> string" where
  "trim_dashes s = rev (dropWhile (\<lambda>c. c = CHR ''-'') (rev (dropWhile (\<lambda>c. c = CHR ''-'') s)))"

definition workflow_project_key :: "aw_env \<Rightarrow> string \<Rightarrow> string" where
  "workflow_project_key env ws =
     (let s = take 48 (trim_dashes (slug_from False (to_lower (path_base ws))))
      in (if s = [] then ''project'' else s) @ ''-'' @ take 12 (sha256hex env ws))"

text \<open>\<^verbatim>\<open>containedPath\<close>: the error it returns, \<open>Failed\<close> for one that is not "does not exist".\<close>

definition contained_path :: "aw_host \<Rightarrow> string \<Rightarrow> string \<Rightarrow> unit lookup" where
  "contained_path h base p =
     (case ho_real h base of
        Absent \<Rightarrow> Absent | Failed \<Rightarrow> Failed
      | Found r \<Rightarrow> (case ho_real h (path_dir p) of
          Absent \<Rightarrow> Absent | Failed \<Rightarrow> Failed
        | Found parent \<Rightarrow> (case path_rel r parent of
            None \<Rightarrow> Failed
          | Some rel \<Rightarrow> if rel = ''..'' \<or> has_prefix rel ''../'' then Failed else Found ())))"

definition contained_existing_dir :: "aw_host \<Rightarrow> string \<Rightarrow> string \<Rightarrow> unit lookup" where
  "contained_existing_dir h base p =
     (case ho_lstat h p of
        Absent \<Rightarrow> Absent | Failed \<Rightarrow> Failed
      | Found _ \<Rightarrow> (case contained_path h base p of
          Absent \<Rightarrow> Absent | Failed \<Rightarrow> Failed
        | Found _ \<Rightarrow> (case ho_real h p of
            Found q \<Rightarrow> (case ho_lstat h q of Found (Is_dir, _) \<Rightarrow> Found () | _ \<Rightarrow> Failed)
          | _ \<Rightarrow> Failed)))"

definition safe_dir_entries :: "aw_host \<Rightarrow> string \<Rightarrow> (string \<times> bool) list lookup" where
  "safe_dir_entries h dir =
     (case ho_lstat h dir of
        Absent \<Rightarrow> Absent | Failed \<Rightarrow> Failed
      | Found (k, _) \<Rightarrow> if k = Is_link then Failed
          else (case ho_entries h dir of None \<Rightarrow> Failed | Some es \<Rightarrow> Found (sort_key fst es)))"

text \<open>The entry of a directory that is read as JSON: path, name, modification time.\<close>

type_synonym json_entry = "string \<times> string \<times> int"

definition json_file :: "aw_host \<Rightarrow> string list \<Rightarrow> string \<Rightarrow> string \<times> bool \<Rightarrow> json_entry option" where
  "json_file h deny dir e =
     (let (name, is_dir) = e; p = path_join [dir, name] in
      if is_dir \<or> \<not> has_suffix name ''.json'' \<or> unsafe_name name then None
      else (case ho_lstat h p of
          Found (k, t) \<Rightarrow> if k = Is_link \<or> any_glob deny p then None else Some (p, name, t)
        | _ \<Rightarrow> None))"

section \<open>Manifests\<close>

record workflow_manifest =
  mf_version :: int
  mf_workspace :: string
  mf_key :: string
  mf_saved_dir :: string
  mf_updated :: string

definition decode_manifest :: "jval \<Rightarrow> workflow_manifest option" where
  "decode_manifest v =
     (case (decode_field ''schema_version'' decode_int 0 v, decode_field ''workspace'' decode_string [] v,
            decode_field ''project_key'' decode_string [] v, decode_field ''saved_dir'' decode_string [] v,
            decode_field ''updated_at'' decode_string [] v) of
        (Some n, Some w, Some k, Some d, Some u) \<Rightarrow>
          Some \<lparr>mf_version = n, mf_workspace = w, mf_key = k, mf_saved_dir = d, mf_updated = u\<rparr>
      | _ \<Rightarrow> None)"

definition validate_manifest :: "aw_host \<Rightarrow> string \<Rightarrow> string \<Rightarrow> string \<Rightarrow> workflow_manifest option" where
  "validate_manifest h path base key =
     (let env = ho_env h; canon = canonical_workspace (aw_cwd env) in
      case Option.bind (Option.bind (aw_read env path) (aw_json env)) decode_manifest of
        None \<Rightarrow> None
      | Some m0 \<Rightarrow>
          (let ws = canon (mf_workspace m0); want = path_join [base, ''saved''];
               dir = (if mf_saved_dir m0 = [] then want else mf_saved_dir m0)
           in if mf_version m0 \<noteq> 1 \<or> ws = [] \<or> mf_key m0 \<noteq> key \<or> mf_key m0 \<noteq> workflow_project_key env ws then None
              else if canon dir \<noteq> canon want then None
              else case contained_path h base dir of
                  Found _ \<Rightarrow> Some (m0\<lparr>mf_workspace := ws, mf_saved_dir := dir\<rparr>)
                | _ \<Rightarrow> None))"

section \<open>Saved definitions\<close>

record saved_workflow =
  sw_name :: string
  sw_description :: string
  sw_script :: string
  sw_saved_at :: string

definition decode_saved :: "jval \<Rightarrow> saved_workflow option" where
  "decode_saved v =
     (case (decode_field ''name'' decode_string [] v, decode_field ''description'' decode_string [] v,
            decode_field ''script'' decode_string [] v, decode_field ''savedAt'' decode_string [] v) of
        (Some n, Some d, Some s, Some t) \<Rightarrow> Some \<lparr>sw_name = n, sw_description = d, sw_script = s, sw_saved_at = t\<rparr>
      | _ \<Rightarrow> None)"

definition parse_workflow_time :: "aw_env \<Rightarrow> string \<Rightarrow> int" where
  "parse_workflow_time env s = (case aw_time env (hd time_layouts) s of None \<Rightarrow> zero_time | Some t \<Rightarrow> t)"

definition nl :: string where
  "nl = [CHR 0x0A]"

definition render_definition :: "saved_workflow \<Rightarrow> string \<Rightarrow> string \<Rightarrow> string" where
  "render_definition w params scope = ''Workflow: '' @ sw_name w @ nl @ ''Scope: '' @ scope @ nl @ ''Description: ''
     @ sw_description w @ nl @ ''Parameters: '' @ params @ nl @ ''Script:'' @ nl @ sw_script w"

definition definition_id :: "aw_env \<Rightarrow> string \<Rightarrow> string \<Rightarrow> string \<Rightarrow> string \<Rightarrow> string \<Rightarrow> string" where
  "definition_id env p scope ws key name = stable_id (aw_sha env) [''pi-workflow-definition'', p, scope, ws, key, name]"

definition saved_artifact :: "aw_host \<Rightarrow> string \<Rightarrow> string \<Rightarrow> string \<Rightarrow> int \<Rightarrow> string \<times> string \<times> int \<Rightarrow> source_status + artifact" where
  "saved_artifact h ws scope key precedence f =
     (let env = ho_env h; (p, name, mtime) = f in
      case aw_read env p of
        None \<Rightarrow> Inl (stale_error env p)
      | Some data \<Rightarrow> (case Option.bind (aw_json env data) decode_saved of
          None \<Rightarrow> Inl (stale_error env p)
        | Some w \<Rightarrow>
            (if \<not> valid_workflow_name (sw_name w) \<or> trim_suffix name ''.json'' \<noteq> sw_name w then Inl (stale_error env p)
             else let at0 = parse_workflow_time env (sw_saved_at w);
                 saved = (if at0 = zero_time then mtime else at0);
                 raw = ho_raw h data ''parameters'';
                 params = (case raw of Some r \<Rightarrow> r | None \<Rightarrow> ''[]'')
               in Inr (blank_artifact\<lparr>ar_id := definition_id env p scope ws key (sw_name w), ar_agent := ''pi_workflows'',
                    ar_kind := ''workflow'', ar_workspace := ws, ar_title := ''Workflow: '' @ sw_name w, ar_source := p,
                    ar_record := sw_name w, ar_created := saved, ar_updated := saved,
                    ar_text := render_definition w (case raw of Some r \<Rightarrow> r | None \<Rightarrow> []) scope,
                    ar_definition := Some \<lparr>wd_name = sw_name w, wd_scope = scope, wd_project_key = key,
                      wd_precedence = precedence, wd_saved_at = saved, wd_script_hash = sha256hex env (sw_script w),
                      wd_parameters = params, wd_meta = [], wd_meta_status = ''unavailable'', wd_package_version = [],
                      wd_visibility = scope, wd_indexability = []\<rparr>\<rparr>))))"

text \<open>A directory's entries in order, until the context is done.\<close>

type_synonym entry_reader = "json_entry \<Rightarrow> source_status + artifact list"

fun scan_files :: "aw_host \<Rightarrow> string list \<Rightarrow> string \<Rightarrow> entry_reader \<Rightarrow> (string \<times> bool) list \<Rightarrow> scanned" where
  "scan_files h deny dir f [] = ([], [], None)"
| "scan_files h deny dir f (e # es) =
     (if ho_cancelled h (path_join [dir, fst e]) then ([], [], Some Context_done)
      else scan_then
        (case json_file h deny dir e of
           None \<Rightarrow> ([], [], None)
         | Some x \<Rightarrow> (case f x of Inl s \<Rightarrow> ([], [s], None) | Inr as \<Rightarrow> (as, [], None)))
        (scan_files h deny dir f es))"

definition scan_dir :: "aw_host \<Rightarrow> string list \<Rightarrow> string \<Rightarrow> entry_reader \<Rightarrow> scanned" where
  "scan_dir h deny dir f =
     (case safe_dir_entries h dir of
        Absent \<Rightarrow> ([], [], None)
      | Failed \<Rightarrow> ([], [], Some Entries_refused)
      | Found es \<Rightarrow> scan_files h deny dir f es)"

definition scan_saved :: "aw_host \<Rightarrow> string \<Rightarrow> string \<Rightarrow> string \<Rightarrow> string \<Rightarrow> int \<Rightarrow> string list \<Rightarrow> scanned" where
  "scan_saved h dir ws scope key precedence deny =
     scan_dir h deny dir (\<lambda>f. case saved_artifact h ws scope key precedence f of Inl s \<Rightarrow> Inl s | Inr a \<Rightarrow> Inr [a])"

section \<open>Runs\<close>

record run_history =
  rh_role :: string
  rh_text :: string
  rh_time :: string

record run_agent =
  ra_prompt :: string
  ra_preview :: string
  ra_history :: "run_history list"

record persisted_run =
  pr_id :: string
  pr_workflow :: string
  pr_session :: string
  pr_status :: string
  pr_args :: jval
  pr_logs :: "jval list"
  pr_agents :: "run_agent list"
  pr_result :: jval
  pr_started :: string
  pr_updated :: string
  pr_completed :: string

definition decode_bool :: "jval \<Rightarrow> bool option" where
  "decode_bool v = (case v of JV_bool b \<Rightarrow> Some b | JV_null \<Rightarrow> Some False | _ \<Rightarrow> None)"

definition strings_ok :: "string list \<Rightarrow> jval \<Rightarrow> bool" where
  "strings_ok names v \<longleftrightarrow> list_all (\<lambda>n. decode_field n decode_string [] v \<noteq> None) names"

definition decode_history :: "jval \<Rightarrow> run_history option" where
  "decode_history v =
     (case (decode_field ''role'' decode_string [] v, decode_field ''text'' decode_string [] v,
            decode_field ''timestamp'' decode_string [] v, decode_field ''isError'' decode_bool False v) of
        (Some r, Some t, Some u, Some _) \<Rightarrow>
          if strings_ok [''kind'', ''toolName''] v then Some \<lparr>rh_role = r, rh_text = t, rh_time = u\<rparr> else None
      | _ \<Rightarrow> None)"

definition decode_agent :: "jval \<Rightarrow> run_agent option" where
  "decode_agent v =
     (case (decode_field ''prompt'' decode_string [] v, decode_field ''resultPreview'' decode_string [] v,
            decode_field ''history'' (decode_slice decode_history) [] v) of
        (Some p, Some r, Some hs) \<Rightarrow>
          if strings_ok [''label'', ''status'', ''phase'', ''error''] v
          then Some \<lparr>ra_prompt = p, ra_preview = r, ra_history = hs\<rparr> else None
      | _ \<Rightarrow> None)"

definition decode_run :: "jval \<Rightarrow> persisted_run option" where
  "decode_run v =
     (let str = (\<lambda>n. decode_field n decode_string [] v); any = (\<lambda>n. decode_field n Some JV_null v) in
      case (str ''runId'', str ''workflowName'', str ''sessionId'', str ''status'', any ''args'', any ''result'') of
        (Some i, Some w, Some s, Some st, Some args, Some res) \<Rightarrow>
          (case (decode_field ''logs'' (decode_slice Some) [] v, decode_field ''agents'' (decode_slice decode_agent) [] v,
                 str ''startedAt'', str ''updatedAt'', str ''completedAt'') of
             (Some ls, Some as, Some t1, Some t2, Some t3) \<Rightarrow>
               if strings_ok [''currentPhase''] v \<and> decode_field ''phases'' (decode_slice decode_string) [] v \<noteq> None
                 \<and> decode_field ''journal'' (decode_slice Some) [] v \<noteq> None
               then Some \<lparr>pr_id = i, pr_workflow = w, pr_session = s, pr_status = st, pr_args = args, pr_logs = ls,
                      pr_agents = as, pr_result = res, pr_started = t1, pr_updated = t2, pr_completed = t3\<rparr>
               else None
           | _ \<Rightarrow> None)
      | _ \<Rightarrow> None)"

definition json_marshalled :: "aw_host \<Rightarrow> jval \<Rightarrow> string" where
  "json_marshalled h v = (let b = ho_marshal h v in if length b > 16000 then take 16000 b @ ellipsis else b)"

text \<open>\<^verbatim>\<open>runRecords\<close>: text, type and instant of every record of a run.\<close>

definition agent_records :: "aw_env \<Rightarrow> persisted_run \<Rightarrow> run_agent \<Rightarrow> (string \<times> string \<times> int) list" where
  "agent_records env r a =
     (if ra_prompt a \<noteq> [] then [(''Agent prompt: '' @ ra_prompt a, ''prompt'', parse_workflow_time env (pr_started r))] else [])
     @ map (\<lambda>x. (rh_role x @ '': '' @ rh_text x, ''history'', parse_workflow_time env (rh_time x)))
         (filter (\<lambda>x. rh_text x \<noteq> []) (ra_history a))
     @ (if ra_preview a \<noteq> [] then [(''Agent result: '' @ ra_preview a, ''result'', parse_workflow_time env (pr_updated r))] else [])"

definition run_records :: "aw_host \<Rightarrow> persisted_run \<Rightarrow> (string \<times> string \<times> int) list" where
  "run_records h r = (let t = parse_workflow_time (ho_env h) in
     [(''Workflow run: '' @ pr_workflow r @ nl @ ''Run ID: '' @ pr_id r @ nl @ ''Status: '' @ pr_status r @ nl
         @ ''Arguments: '' @ json_marshalled h (pr_args r), ''state'', t (pr_started r))]
     @ concat (map (agent_records (ho_env h) r) (pr_agents r))
     @ map (\<lambda>v. (''Log: '' @ json_marshalled h v, ''log'', t (pr_updated r))) (pr_logs r)
     @ (if pr_result r \<noteq> JV_null then [(''Result: '' @ json_marshalled h (pr_result r), ''result'', t (pr_completed r))] else []))"

definition run_artifact :: "aw_host \<Rightarrow> workflow_manifest \<Rightarrow> string \<Rightarrow> string \<Rightarrow> persisted_run
    \<Rightarrow> nat \<times> string \<times> string \<times> int \<Rightarrow> artifact" where
  "run_artifact h m p data r rec =
     (let env = ho_env h; (n, text, typ, stamp) = rec;
          created = parse_workflow_time env (pr_started r);
          upd0 = parse_workflow_time env (pr_updated r);
          upd = (if upd0 = zero_time then created else upd0);
          parent = definition_id env (path_join [mf_saved_dir m, pr_workflow r @ ''.json'']) ''project''
            (mf_workspace m) (mf_key m) (pr_workflow r)
      in blank_artifact\<lparr>ar_id := stable_id (aw_sha env) [''pi-workflow-run'', p, pr_id r, show_nat n],
           ar_agent := ''pi_workflows'', ar_kind := ''workflow_run'', ar_workspace := mf_workspace m,
           ar_title := ''Workflow run: '' @ pr_workflow r, ar_source := p, ar_record := pr_id r @ '':'' @ show_nat n,
           ar_parent := parent, ar_created := created, ar_updated := (if stamp = zero_time then upd else stamp),
           ar_text := text,
           ar_run := Some \<lparr>wr_run_id = pr_id r, wr_workflow = pr_workflow r, wr_session = pr_session r,
             wr_status = pr_status r, wr_started = created,
             wr_finished = parse_workflow_time env (pr_completed r), wr_fingerprint = sha256hex env data,
             wr_record_type = typ, wr_parent_definition = parent\<rparr>\<rparr>)"

definition run_artifacts :: "aw_host \<Rightarrow> workflow_manifest \<Rightarrow> json_entry \<Rightarrow> source_status + artifact list" where
  "run_artifacts h m f =
     (let env = ho_env h; (p, name, mtime) = f in
      case aw_read env p of
        None \<Rightarrow> Inl (stale_error env p)
      | Some data \<Rightarrow> (case Option.bind (aw_json env data) decode_run of
          None \<Rightarrow> Inl (stale_error env p)
        | Some r \<Rightarrow>
            if pr_id r = [] \<or> trim_suffix name ''.json'' \<noteq> pr_id r \<or> \<not> valid_workflow_name (pr_id r) then Inl (stale_error env p)
            else Inr (map (run_artifact h m p data r) (List.enumerate 0 (run_records h r)))))"

definition scan_runs :: "aw_host \<Rightarrow> string \<Rightarrow> workflow_manifest \<Rightarrow> string list \<Rightarrow> scanned" where
  "scan_runs h dir m deny = scan_dir h deny dir (run_artifacts h m)"

section \<open>The adapter\<close>

definition workflow_project :: "aw_host \<Rightarrow> string list \<Rightarrow> string \<Rightarrow> string \<Rightarrow> scanned" where
  "workflow_project h deny projects name =
     (let pr = path_join [projects, name]; mpath = path_join [pr, ''agentweave-manifest.json'']; env = ho_env h in
      case validate_manifest h mpath pr name of
        None \<Rightarrow> ([], [status_of env ''pi_workflows'' mpath ''metadata_incomplete''], None)
      | Some m \<Rightarrow> scan_then (scan_saved h (mf_saved_dir m) (mf_workspace m) ''project'' (mf_key m) 1 deny)
          (let runs = path_join [pr, ''runs''] in
           if contained_existing_dir h pr runs = Failed then ([], [source_error env ''pi_workflows'' runs], None)
           else scan_runs h runs m deny))"

fun workflow_projects :: "aw_host \<Rightarrow> string list \<Rightarrow> string \<Rightarrow> (string \<times> bool) list \<Rightarrow> scanned" where
  "workflow_projects h deny projects [] = ([], [], None)"
| "workflow_projects h deny projects (e # es) =
     (if ho_cancelled h (path_join [projects, fst e]) then ([], [], Some Context_done)
      else scan_then (if \<not> snd e \<or> unsafe_name (fst e) then ([], [], None) else workflow_project h deny projects (fst e))
        (workflow_projects h deny projects es))"

definition scan_pi_workflows :: "aw_host \<Rightarrow> scan_options \<Rightarrow> scanned" where
  "scan_pi_workflows h opt =
     (let base = path_join [so_home opt, ''.pi'', ''workflows''] in
      if aw_missing (ho_env h) base then ([], [status_of (ho_env h) ''pi_workflows'' base ''unavailable''], None)
      else scan_then (scan_saved h (path_join [base, ''saved'']) [] ''user'' [] 3 (so_deny opt))
        (let projects = path_join [base, ''projects''] in
         case safe_dir_entries h projects of
           Absent \<Rightarrow> ([], [], None)
         | Failed \<Rightarrow> ([], [], Some Entries_refused)
         | Found es \<Rightarrow> workflow_projects h (so_deny opt) projects es))"

section \<open>Attribution\<close>

lemma json_file_Some:
  "json_file h deny dir e = Some (p, name, t) \<Longrightarrow> p = path_join [dir, name] \<and> has_suffix name ''.json''
     \<and> \<not> unsafe_name name \<and> \<not> any_glob deny p"
  by (auto simp: json_file_def Let_def split: prod.splits if_splits lookup.splits)

lemma scan_files_from:
  "a \<in> set (fst (scan_files h deny dir f es)) \<Longrightarrow> \<exists>name t as. has_suffix name ''.json'' \<and> \<not> unsafe_name name
     \<and> \<not> any_glob deny (path_join [dir, name]) \<and> f (path_join [dir, name], name, t) = Inr as \<and> a \<in> set as"
proof (induction es)
  case (Cons e es)
  show ?case
  proof (cases "a \<in> set (fst (scan_files h deny dir f es))")
    case False
    then obtain x as where x: "json_file h deny dir e = Some x" "f x = Inr as" "a \<in> set as"
      using Cons.prems by (auto dest!: scan_then_artifacts split: if_splits option.splits sum.splits)
    moreover obtain p name t where "x = (p, name, t)"
      by (cases x)
    ultimately show ?thesis
      using json_file_Some by blast
  qed (rule Cons.IH)
qed simp

lemma scan_dir_from:
  "a \<in> set (fst (scan_dir h deny dir f)) \<Longrightarrow> \<exists>name t as. has_suffix name ''.json'' \<and> \<not> unsafe_name name
     \<and> \<not> any_glob deny (path_join [dir, name]) \<and> f (path_join [dir, name], name, t) = Inr as \<and> a \<in> set as"
  using scan_files_from [of a h deny dir f] by (cases "safe_dir_entries h dir") (simp_all add: scan_dir_def)

lemma scan_saved_from:
  assumes "a \<in> set (fst (scan_saved h dir ws scope key precedence deny))"
  shows "\<exists>name. \<not> unsafe_name name \<and> \<not> any_glob deny (ar_source a) \<and> ar_source a = path_join [dir, name]
    \<and> name = ar_record a @ ''.json'' \<and> ar_agent a = ''pi_workflows'' \<and> ar_kind a = ''workflow'' \<and> ar_workspace a = ws
    \<and> ar_id a = definition_id (ho_env h) (ar_source a) scope ws key (ar_record a)"
proof -
  obtain name t as where n: "has_suffix name ''.json''" "\<not> unsafe_name name" "\<not> any_glob deny (path_join [dir, name])"
    and f: "(case saved_artifact h ws scope key precedence (path_join [dir, name], name, t) of Inl s \<Rightarrow> Inl s | Inr a \<Rightarrow> Inr [a]) = Inr as"
      "a \<in> set as"
    using scan_dir_from [OF assms [unfolded scan_saved_def]] by blast
  then have sa: "saved_artifact h ws scope key precedence (path_join [dir, name], name, t) = Inr a"
    by (auto split: sum.splits)
  obtain r where r: "name = r @ ''.json''"
    using n(1) by (auto simp: has_suffix_iff)
  show ?thesis
    using sa n r by (auto simp: saved_artifact_def Let_def trim_suffix_append split: option.splits if_splits)
qed

lemma scan_runs_from:
  assumes "a \<in> set (fst (scan_runs h dir m deny))"
  shows "\<exists>name w. \<not> unsafe_name name \<and> \<not> any_glob deny (ar_source a) \<and> ar_source a = path_join [dir, name]
    \<and> ar_agent a = ''pi_workflows'' \<and> ar_kind a = ''workflow_run'' \<and> ar_workspace a = mf_workspace m
    \<and> ar_title a = ''Workflow run: '' @ w
    \<and> ar_parent a = definition_id (ho_env h) (path_join [mf_saved_dir m, w @ ''.json'']) ''project'' (mf_workspace m) (mf_key m) w"
proof -
  obtain name t as where n: "\<not> unsafe_name name" "\<not> any_glob deny (path_join [dir, name])"
    and f: "run_artifacts h m (path_join [dir, name], name, t) = Inr as" "a \<in> set as"
    using scan_dir_from [OF assms [unfolded scan_runs_def]] by blast
  then obtain data r x where "a = run_artifact h m (path_join [dir, name]) data r x"
    by (auto simp: run_artifacts_def Let_def split: option.splits if_splits)
  with n show ?thesis
    by (intro exI [of _ name] exI [of _ "pr_workflow r"]) (simp add: run_artifact_def Let_def case_prod_beta)
qed

lemma validate_manifest_Some:
  "validate_manifest h path base key = Some m \<Longrightarrow> mf_workspace m \<noteq> [] \<and> mf_key m = key
     \<and> key = workflow_project_key (ho_env h) (mf_workspace m)
     \<and> canonical_workspace (aw_cwd (ho_env h)) (mf_saved_dir m) = canonical_workspace (aw_cwd (ho_env h)) (path_join [base, ''saved''])"
  by (auto simp: validate_manifest_def Let_def split: option.splits if_splits lookup.splits)

text \<open>A workflow artifact's place, by its workspace: the user's directory, or that of the project the workspace names.\<close>

definition attributed :: "aw_host \<Rightarrow> scan_options \<Rightarrow> artifact \<Rightarrow> bool" where
  "attributed h opt a \<longleftrightarrow>
     (let env = ho_env h; base = path_join [so_home opt, ''.pi'', ''workflows'']; canon = canonical_workspace (aw_cwd env) in
      ar_agent a = ''pi_workflows'' \<and> \<not> any_glob (so_deny opt) (ar_source a) \<and>
      (\<exists>dir name. ar_source a = path_join [dir, name] \<and> \<not> unsafe_name name \<and>
        (if ar_workspace a = [] then dir = path_join [base, ''saved''] \<and> ar_kind a = ''workflow''
         else let pr = path_join [path_join [base, ''projects''], workflow_project_key env (ar_workspace a)] in
           if ar_kind a = ''workflow'' then canon dir = canon (path_join [pr, ''saved'']) else dir = path_join [pr, ''runs''])))"

lemma workflow_project_attributed:
  assumes "a \<in> set (fst (workflow_project h (so_deny opt) (path_join [path_join [so_home opt, ''.pi'', ''workflows''], ''projects'']) key))"
  shows "attributed h opt a"
proof -
  let ?pr = "path_join [path_join [path_join [so_home opt, ''.pi'', ''workflows''], ''projects''], key]"
  obtain m where m: "validate_manifest h (path_join [?pr, ''agentweave-manifest.json'']) ?pr key = Some m"
    using assms by (auto simp: workflow_project_def Let_def split: option.splits)
  note v = validate_manifest_Some [OF m]
  have "a \<in> set (fst (scan_saved h (mf_saved_dir m) (mf_workspace m) ''project'' (mf_key m) 1 (so_deny opt)))
      \<or> a \<in> set (fst (scan_runs h (path_join [?pr, ''runs'']) m (so_deny opt)))"
    using assms m by (auto simp: workflow_project_def Let_def dest!: scan_then_artifacts split: if_splits)
  then show ?thesis
  proof
    assume "a \<in> set (fst (scan_saved h (mf_saved_dir m) (mf_workspace m) ''project'' (mf_key m) 1 (so_deny opt)))"
    from scan_saved_from [OF this] obtain name where n: "\<not> unsafe_name name" "\<not> any_glob (so_deny opt) (ar_source a)"
      "ar_source a = path_join [mf_saved_dir m, name]" "ar_agent a = ''pi_workflows''" "ar_kind a = ''workflow''"
      "ar_workspace a = mf_workspace m"
      by blast
    with v show ?thesis
      unfolding attributed_def Let_def by (intro conjI exI [of _ "mf_saved_dir m"] exI [of _ name]) simp_all
  next
    assume "a \<in> set (fst (scan_runs h (path_join [?pr, ''runs'']) m (so_deny opt)))"
    from scan_runs_from [OF this] obtain name where n: "\<not> unsafe_name name" "\<not> any_glob (so_deny opt) (ar_source a)"
      "ar_source a = path_join [path_join [?pr, ''runs''], name]" "ar_agent a = ''pi_workflows''" "ar_kind a = ''workflow_run''"
      "ar_workspace a = mf_workspace m"
      by blast
    with v show ?thesis
      unfolding attributed_def Let_def by (intro conjI exI [of _ "path_join [?pr, ''runs'']"] exI [of _ name]) simp_all
  qed
qed

lemma workflow_projects_attributed:
  "a \<in> set (fst (workflow_projects h (so_deny opt) (path_join [path_join [so_home opt, ''.pi'', ''workflows''], ''projects'']) es))
     \<Longrightarrow> attributed h opt a"
  by (induction es) (auto dest!: scan_then_artifacts workflow_project_attributed split: if_splits)

lemma workflow_scan_attributed:
  assumes "a \<in> set (fst (scan_pi_workflows h opt))"
  shows "attributed h opt a"
proof -
  from assms consider
    "a \<in> set (fst (scan_saved h (path_join [path_join [so_home opt, ''.pi'', ''workflows''], ''saved'']) [] ''user'' [] 3 (so_deny opt)))"
  | es where "a \<in> set (fst (workflow_projects h (so_deny opt) (path_join [path_join [so_home opt, ''.pi'', ''workflows''], ''projects'']) es))"
    by (auto simp: scan_pi_workflows_def Let_def dest!: scan_then_artifacts split: if_splits lookup.splits)
  then show ?thesis
  proof cases
    case 1
    from scan_saved_from [OF this] show ?thesis
      unfolding attributed_def Let_def by fastforce
  qed (rule workflow_projects_attributed)
qed

text \<open>C17: Whatever the directories and manifests hold, an artifact of a workflow scan either has no workspace and is a definition
  in the user's own directory, or lies in the \<^verbatim>\<open>saved\<close> or \<^verbatim>\<open>runs\<close> directory of the project whose directory is
  named by the key of the artifact's workspace; its file has no unsafe name and is not denied.\<close>

theorem workflows_attributed:
  "list_all (attributed h opt) (fst (scan_pi_workflows h opt))"
  by (simp add: list_all_iff workflow_scan_attributed)

text \<open>A run names as its parent the definition of its workflow in the same project, if that is saved there.\<close>

lemma run_parent_is_definition:
  assumes "a \<in> set (fst (scan_runs h dir m deny))"
    and "d \<in> set (fst (scan_saved h (mf_saved_dir m) (mf_workspace m) ''project'' (mf_key m) 1 deny))"
    and "ar_title a = ''Workflow run: '' @ ar_record d"
  shows "ar_parent a = ar_id d"
proof -
  obtain w where "ar_title a = ''Workflow run: '' @ w" and
    p: "ar_parent a = definition_id (ho_env h) (path_join [mf_saved_dir m, w @ ''.json'']) ''project'' (mf_workspace m) (mf_key m) w"
    using scan_runs_from [OF assms(1)] by blast
  with assms(3) have "w = ar_record d"
    by simp
  with p scan_saved_from [OF assms(2)] show ?thesis
    by auto
qed

end
