(* ===== verification/Agentweave_Adapters.thy ===== *)
theory Agentweave_Adapters
  imports Agentweave_Workflows
begin

text \<open>
  The adapters that read the state of the agents (\<^verbatim>\<open>agentweave/core/adapters.go\<close>). Files are found by a walk that
  leaves out caches, credentials and databases; every file becomes an artifact or a status, so that one
  broken file costs no other. The property says which files an artifact can come from.

  The queries of Codex's databases are parameters: the rows, \<open>None\<close> for one that cannot be read into the
  variables. A Go map is an association list.
\<close>

section \<open>Finding files\<close>

definition skipped_dirs :: "string list" where
  "skipped_dirs = [''.git'', ''node_modules'', ''Cache'', ''cache'', ''GPUCache'', ''Code Cache'', ''blob_storage'']"

definition sensitive :: "string \<Rightarrow> bool" where
  "sensitive path \<longleftrightarrow> (let l = to_lower path in
     contains_str l ''credential'' \<or> contains_str l ''auth'' \<or> has_suffix l ''.sqlite'' \<or> has_suffix l ''.db'')"

definition visit_files :: "(string \<Rightarrow> bool) \<Rightarrow> string list \<Rightarrow> (string list, unit) visitor" where
  "visit_files inc deny path name n err paths =
     (case n of
        None \<Rightarrow> (paths, Go_on)
      | Some nd \<Rightarrow>
          if err then (paths, Go_on)
          else if is_dir_node nd then (paths, if name \<in> set skipped_dirs then Skip_dir else Go_on)
          else if sensitive path \<or> any_glob deny path \<or> \<not> inc path then (paths, Go_on)
          else (paths @ [path], Go_on))"

definition discover_files :: "aw_env \<Rightarrow> string \<Rightarrow> (string \<Rightarrow> bool) \<Rightarrow> string list \<Rightarrow> string list" where
  "discover_files env base inc deny =
     sort (fst (walk_dir (visit_files inc deny) base (aw_tree env base) []))"

text \<open>The files of a list one by one; \<open>done\<close> tells where the context is found done.\<close>

fun read_each :: "aw_env \<Rightarrow> (string \<Rightarrow> bool) \<Rightarrow> string \<Rightarrow> (string \<Rightarrow> parse_error + artifact) \<Rightarrow> string list \<Rightarrow> scanned" where
  "read_each env done agent f [] = ([], [], None)"
| "read_each env done agent f (p # ps) =
     (if done p then ([], [], Some Context_done)
      else scan_then (case f p of Inl e \<Rightarrow> ([], [source_error env agent p], None) | Inr a \<Rightarrow> ([a], [], None))
        (read_each env done agent f ps))"

abbreviation never :: "string \<Rightarrow> bool" where
  "never \<equiv> \<lambda>_. False"

definition jsonl :: "string \<Rightarrow> bool" where
  "jsonl p \<longleftrightarrow> has_suffix p ''.jsonl''"

definition chat_session :: "string \<Rightarrow> bool" where
  "chat_session p \<longleftrightarrow> contains_str p ''/chatSessions/'' \<and> has_suffix p ''.jsonl''"

definition unavailable :: "aw_env \<Rightarrow> string \<Rightarrow> string \<Rightarrow> scanned" where
  "unavailable env agent path = ([], [status_of env agent path ''unavailable''], None)"

section \<open>Claude, Cursor, Pi\<close>

definition claude_notes :: "aw_env \<Rightarrow> string list \<Rightarrow> string \<Rightarrow> string \<Rightarrow> scanned" where
  "claude_notes env deny dir kind =
     read_each env never ''claude''
       (\<lambda>p. if has_suffix p ''.json'' then parse_json_artifact env p ''claude'' kind [] else parse_markdown env p ''claude'' kind [])
       (discover_files env dir (\<lambda>p. has_suffix p ''.md'' \<or> (kind = ''task'' \<and> has_suffix p ''.json'')) deny)"

definition claude_scan :: "aw_host \<Rightarrow> scan_options \<Rightarrow> scanned" where
  "claude_scan h opt =
     (let env = ho_env h; base = path_join [so_home opt, ''.claude'']; deny = so_deny opt in
      if aw_missing env base then unavailable env ''claude'' base
      else scan_then
        (read_each env (ho_cancelled h) ''claude'' (\<lambda>p. parse_jsonl env p ''claude'' [])
          (discover_files env (path_join [base, ''projects'']) jsonl deny))
        (scan_then (claude_notes env deny (path_join [base, ''plans'']) ''plan'')
          (claude_notes env deny (path_join [base, ''tasks'']) ''task'')))"

definition cursor_scan :: "aw_host \<Rightarrow> scan_options \<Rightarrow> scanned" where
  "cursor_scan h opt =
     (let env = ho_env h; deny = so_deny opt;
          storage = path_join [so_home opt, ''Library'', ''Application Support'', ''Cursor'', ''User'', ''workspaceStorage'']
      in scan_then (if aw_missing env storage then unavailable env ''cursor'' storage else ([], [], None))
        (scan_then
          (read_each env (ho_cancelled h) ''cursor''
            (\<lambda>p. parse_jsonl env p ''cursor'' (workspace_from_cursor env (path_dir (path_dir p))))
            (discover_files env storage chat_session deny))
          (read_each env never ''cursor'' (\<lambda>p. parse_markdown env p ''cursor'' ''plan'' [])
            (discover_files env (path_join [so_home opt, ''.cursor'', ''plans'']) (\<lambda>p. has_suffix p ''.md'') deny))))"

definition pi_scan :: "aw_host \<Rightarrow> scan_options \<Rightarrow> scanned" where
  "pi_scan h opt =
     (let env = ho_env h; base = path_join [so_home opt, ''.pi'', ''agent'', ''sessions''] in
      if aw_missing env base then unavailable env ''pi'' base
      else read_each env (ho_cancelled h) ''pi'' (\<lambda>p. parse_jsonl env p ''pi'' []) (discover_files env base jsonl (so_deny opt)))"

section \<open>Codex\<close>

record codex_thread =
  ct_id :: string
  ct_rollout :: string
  ct_cwd :: string
  ct_title :: string
  ct_parent :: string
  ct_updated :: int

definition no_thread :: codex_thread where
  "no_thread = \<lparr>ct_id = [], ct_rollout = [], ct_cwd = [], ct_title = [], ct_parent = [], ct_updated = zero_time\<rparr>"

definition thread_at :: "(string \<times> codex_thread) list \<Rightarrow> string \<Rightarrow> codex_thread" where
  "thread_at m k = (case map_of m k of None \<Rightarrow> no_thread | Some t \<Rightarrow> t)"

definition codex_entry :: "aw_env \<Rightarrow> codex_row \<Rightarrow> codex_thread" where
  "codex_entry env r = \<lparr>ct_id = cx_id r, ct_rollout = clean (cx_rollout r), ct_cwd = canonical_workspace (aw_cwd env) (cx_cwd r),
     ct_title = cx_title r, ct_parent = [], ct_updated = cx_updated r\<rparr>"

text \<open>The threads by their identifier, with the parents of the spawn edges as identifiers of artifacts.\<close>

definition spawned :: "(string \<times> codex_thread) list \<Rightarrow> (string \<times> string) list \<Rightarrow> (string \<times> codex_thread) list" where
  "spawned = foldl (\<lambda>m (parent, child). (child, (thread_at m child)\<lparr>ct_parent := parent\<rparr>) # m)"

definition resolve_parents :: "aw_env \<Rightarrow> (string \<times> codex_thread) list \<Rightarrow> (string \<times> codex_thread) list" where
  "resolve_parents env m = map (\<lambda>(k, t). (k, case map_of m (ct_parent t) of
       None \<Rightarrow> t | Some p \<Rightarrow> t\<lparr>ct_parent := stable_id (aw_sha env) [''codex'', ct_rollout p, ct_id p]\<rparr>)) (go_entries m)"

definition read_codex_goals :: "aw_host \<Rightarrow> string \<Rightarrow> (string \<times> codex_thread) list \<Rightarrow> artifact list" where
  "read_codex_goals h base by_id =
     (let env = ho_env h; path = path_join [base, ''goals_1.sqlite''] in
      if \<not> ho_stat_ok h path then []
      else case ho_goals h path of
          None \<Rightarrow> []
        | Some rows \<Rightarrow> List.map_filter (\<lambda>row. case row of
              None \<Rightarrow> None
            | Some g \<Rightarrow> if trim_space (gl_objective g) = [] then None
                else let t = thread_at by_id (gl_thread g) in
                  Some (blank_artifact\<lparr>ar_id := stable_id (aw_sha env) [''codex-goal'', path, gl_thread g, gl_objective g],
                    ar_agent := ''codex'', ar_kind := ''task'', ar_workspace := ct_cwd t, ar_title := first_line (gl_objective g) 120,
                    ar_source := path, ar_record := gl_thread g, ar_parent := ct_parent t,
                    ar_created := gl_created g, ar_updated := gl_updated g,
                    ar_text := ''Objective: '' @ gl_objective g @ nl @ ''Status: '' @ gl_status g @ nl @ ''Thread: '' @ gl_thread g\<rparr>))
            rows)"

definition read_codex_metadata :: "aw_host \<Rightarrow> string \<Rightarrow> (string \<times> codex_thread) list \<times> artifact list \<times> source_status" where
  "read_codex_metadata h base =
     (let env = ho_env h; path = path_join [base, ''state_5.sqlite''] in
      if \<not> ho_stat_ok h path then ([], [], status_of env ''codex'' path ''unavailable'')
      else case ho_threads h path of
          None \<Rightarrow> ([], [], source_error env ''codex'' path)
        | Some (rows, complete) \<Rightarrow>
            (let es = map (codex_entry env) (List.map_filter (\<lambda>r. r) rows);
                 threads = rev (map (\<lambda>t. (ct_rollout t, t)) es)
             in if \<not> complete then (threads, [], source_error env ''codex'' path)
                else let by_id = resolve_parents env (spawned (rev (map (\<lambda>t. (ct_id t, t)) es)) (ho_edges h path))
                  in (map (\<lambda>(r, t). (r, t\<lparr>ct_parent := ct_parent (thread_at by_id (ct_id t))\<rparr>)) threads,
                      read_codex_goals h base by_id, status_of env ''codex'' path ''indexed'')))"

definition codex_session :: "aw_env \<Rightarrow> (string \<times> codex_thread) list \<Rightarrow> string \<Rightarrow> parse_error + artifact" where
  "codex_session env threads p =
     (let t = thread_at threads (clean p) in
      case parse_jsonl env p ''codex'' (ct_cwd t) of
        Inl e \<Rightarrow> Inl e
      | Inr a \<Rightarrow> Inr (a\<lparr>ar_title := (if ct_title t \<noteq> [] then ct_title t else ar_title a),
            ar_id := (if ct_id t \<noteq> [] then stable_id (aw_sha env) [''codex'', clean p, ct_id t] else ar_id a),
            ar_record := (if ct_id t \<noteq> [] then ct_id t else ar_record a),
            ar_parent := ct_parent t,
            ar_updated := (if ct_updated t \<noteq> zero_time then ct_updated t else ar_updated a)\<rparr>))"

definition codex_scan :: "aw_host \<Rightarrow> scan_options \<Rightarrow> scanned" where
  "codex_scan h opt =
     (let env = ho_env h; base = path_join [so_home opt, ''.codex''];
          (threads, goals, status) = read_codex_metadata h base
      in scan_then (goals, if st_path status = [] then [] else [status], None)
        (read_each env (ho_cancelled h) ''codex'' (codex_session env threads)
          (discover_files env (path_join [base, ''sessions'']) jsonl (so_deny opt))))"

section \<open>Antigravity\<close>

definition fixture_version :: string where
  "fixture_version = ''2.4.3''"

definition plist_version :: "aw_env \<Rightarrow> string \<Rightarrow> string" where
  "plist_version env path =
     (let needle = ''CFBundleShortVersionString'' in
      case aw_read env path of
        None \<Rightarrow> []
      | Some text \<Rightarrow> (case index_of text needle of
          None \<Rightarrow> []
        | Some i \<Rightarrow> (let tail = drop (i + length needle) text in
            case (index_of tail ''<string>'', index_of tail ''</string>'') of
              (Some s, Some e) \<Rightarrow> if e \<le> s + 8 then [] else trim_space (drop (s + 8) (take e tail))
            | _ \<Rightarrow> [])))"

definition scan_antigravity :: "aw_host \<Rightarrow> scan_options \<Rightarrow> scanned" where
  "scan_antigravity h opt =
     (let env = ho_env h; agent = ''antigravity'';
          profile = path_join [so_home opt, ''Library'', ''Application Support'', ''Antigravity''];
          known = path_join [profile, ''User'', ''workspaceStorage''];
          refused = (\<lambda>p st. ([], [status_of env agent p st], None))
      in if \<not> ho_darwin h then refused [] ''unsupported''
         else if \<not> ho_stat_ok h profile then refused profile ''unavailable''
         else if plist_version env ''/Applications/Antigravity.app/Contents/Info.plist'' \<noteq> fixture_version then refused profile ''unsupported''
         else if \<not> ho_stat_ok h known then refused profile ''unsupported''
         else let as = List.map_filter (\<lambda>p. case parse_jsonl env p agent (workspace_from_cursor env (path_dir (path_dir p))) of
                   Inl _ \<Rightarrow> None | Inr a \<Rightarrow> Some a) (discover_files env known chat_session (so_deny opt))
           in (as, [(status_of env agent known ''indexed'')\<lparr>st_count := length as\<rparr>], None))"

section \<open>Configured roots, and all adapters\<close>

definition plain_document :: "string \<Rightarrow> bool" where
  "plain_document p \<longleftrightarrow> (let l = to_lower p in has_suffix l ''.md'' \<or> has_suffix l ''.txt'' \<or> has_suffix l ''.plan'')"

fun scan_roots :: "aw_host \<Rightarrow> string list \<Rightarrow> string list \<Rightarrow> scanned" where
  "scan_roots h deny [] = ([], [], None)"
| "scan_roots h deny (r # rs) =
     (let env = ho_env h; ws = canonical_workspace (aw_cwd env) r in
      scan_then
        (if aw_missing env ws then unavailable env ''filesystem'' ws
         else read_each env (ho_cancelled h) ''filesystem'' (\<lambda>p. parse_markdown env p ''filesystem'' ''artifact'' ws)
           (discover_files env ws plain_document deny))
        (scan_roots h deny rs))"

definition scan_filesystem :: "aw_host \<Rightarrow> scan_options \<Rightarrow> scanned" where
  "scan_filesystem h opt = scan_roots h (so_deny opt) (so_roots opt)"

definition default_adapters :: "(string \<times> (aw_host \<Rightarrow> scan_options \<Rightarrow> scanned)) list" where
  "default_adapters = [(''claude'', claude_scan), (''cursor'', cursor_scan), (''codex'', codex_scan), (''pi'', pi_scan),
     (''pi_workflows'', scan_pi_workflows), (''antigravity'', scan_antigravity), (''filesystem'', scan_filesystem)]"

text \<open>\<^verbatim>\<open>ScanAll\<close>: an adapter that stops adds a status without a path, the others run.\<close>

definition scan_with :: "aw_host \<Rightarrow> scan_options \<Rightarrow> string \<times> (aw_host \<Rightarrow> scan_options \<Rightarrow> scanned) \<Rightarrow> artifact list \<times> source_status list" where
  "scan_with h opt ad =
     (if fst ad = ''pi_workflows'' \<and> so_workflows opt = Some False then ([], [])
      else case snd ad h opt of (as, ss, e) \<Rightarrow>
        (as, ss @ (if e = None then [] else [status_of (ho_env h) (fst ad) [] ''error''])))"

definition scan_stores :: "aw_host \<Rightarrow> scan_options \<Rightarrow> artifact list \<times> source_status list" where
  "scan_stores h opt = (let rs = map (scan_with h opt) default_adapters in (concat (map fst rs), concat (map snd rs)))"

section \<open>Which files are found\<close>

text \<open>The same files by recursion over the tree, without a visitor and its verdicts.\<close>

definition wanted :: "(string \<Rightarrow> bool) \<Rightarrow> string list \<Rightarrow> string \<Rightarrow> bool" where
  "wanted inc deny p \<longleftrightarrow> inc p \<and> \<not> sensitive p \<and> \<not> any_glob deny p"

function listed :: "(string \<Rightarrow> bool) \<Rightarrow> string \<Rightarrow> string \<Rightarrow> node \<Rightarrow> string list" where
  "listed ok path name (Dir (Some es)) =
     (if name \<in> set skipped_dirs then [] else concat (map (\<lambda>e. listed ok (path_join [path, fst e]) (fst e) (snd e)) (sort_key fst es)))"
| "listed ok path name (Dir None) = []"
| "listed ok path name (File c) = (if ok path then [path] else [])"
| "listed ok path name Link = (if ok path then [path] else [])"
  by pat_completeness auto
termination
proof (relation "measure (\<lambda>(_, _, _, n). node_size n)")
  fix ok :: "string \<Rightarrow> bool" and path name :: string and es :: entries and e
  assume "e \<in> set (sort_key fst es)"
  then have "e \<in> set es"
    by simp
  then have "node_size (snd e) < Suc (entries_size es)"
    by (induction es) auto
  then show "((ok, path_join [path, fst e], fst e, snd e), (ok, path, name, Dir (Some es))) \<in> measure (\<lambda>(_, _, _, n). node_size n)"
    by (simp add: node_size_entries case_prod_beta del: node_size.simps(4))
qed simp

lemma walk_lists:
  "v = visit_files inc deny \<Longrightarrow> walk_node v path name n s = (s @ listed (wanted inc deny) path name n, Go_on)"
  "v = visit_files inc deny \<Longrightarrow> walk_nodes v path es s
     = (s @ concat (map (\<lambda>e. listed (wanted inc deny) (path_join [path, fst e]) (fst e) (snd e)) es), Go_on)"
proof (induction v path name n s and v path es s rule: walk_node_walk_nodes.induct)
  case (1 v path name n s)
  show ?case
  proof (cases n)
    case (Dir es)
    show ?thesis
    proof (cases "name \<in> set skipped_dirs \<or> es = None")
      case True
      then show ?thesis
        using Dir "1.prems" by (cases es) (auto simp: walk_node.simps visit_files_def)
    next
      case False
      then obtain es' where es: "es = Some es'"
        by auto
      have "walk_nodes v path (sort_key fst es') s
          = (s @ concat (map (\<lambda>e. listed (wanted inc deny) (path_join [path, fst e]) (fst e) (snd e)) (sort_key fst es')), Go_on)"
        using "1.IH" [of s Go_on "Some es'" es'] False Dir es "1.prems" by (simp add: visit_files_def)
      then show ?thesis
        using False Dir es "1.prems" by (simp add: walk_node.simps visit_files_def)
    qed
  qed (use "1.prems" in \<open>auto simp: walk_node.simps visit_files_def wanted_def\<close>)
qed auto

text \<open>The walk with its visitor, which answers \<^verbatim>\<open>SkipDir\<close> for the directories left out, finds exactly
  the files that the recursion over the tree lists, each that is wanted and not below a skipped
  directory, in the order of their paths.\<close>

theorem discover_listed:
  "discover_files env base inc deny =
     sort (case aw_tree env base of None \<Rightarrow> [] | Some n \<Rightarrow> listed (wanted inc deny) base (path_base base) n)"
  using walk_lists(1) [OF refl, of inc deny base]
  by (auto simp: discover_files_def walk_dir_def visit_files_def split: option.split)

lemma listed_ok: "p \<in> set (listed ok path name n) \<Longrightarrow> ok p"
  by (induction ok path name n rule: listed.induct) (auto split: if_splits)

lemma discovered_wanted: "p \<in> set (discover_files env base inc deny) \<Longrightarrow> wanted inc deny p"
  by (auto simp: discover_listed dest: listed_ok split: option.splits)

section \<open>Where artifacts come from\<close>

lemma read_each_from: "a \<in> set (fst (read_each env done agent f ps)) \<Longrightarrow> \<exists>p \<in> set ps. f p = Inr a"
  by (induction ps) (auto dest!: scan_then_artifacts split: if_splits sum.splits)

lemma parsed_fields:
  "parse_jsonl env p agent ws = Inr a \<Longrightarrow> ar_source a = p \<and> ar_agent a = agent"
  "parse_markdown env p agent kind ws = Inr a \<Longrightarrow> ar_source a = p \<and> ar_agent a = agent"
  "parse_json_artifact env p agent kind ws = Inr a \<Longrightarrow> ar_source a = p \<and> ar_agent a = agent"
  by (auto simp: parse_jsonl_def parse_markdown_def parse_json_artifact_def Let_def split: option.splits prod.splits if_splits)

lemma codex_session_fields: "codex_session env threads p = Inr a \<Longrightarrow> ar_source a = p \<and> ar_agent a = ''codex''"
  by (auto simp: codex_session_def Let_def dest: parsed_fields split: sum.splits)

definition from_file :: "string list \<Rightarrow> string \<Rightarrow> artifact \<Rightarrow> bool" where
  "from_file deny agent a \<longleftrightarrow> ar_agent a = agent \<and> \<not> sensitive (ar_source a) \<and> \<not> any_glob deny (ar_source a)"

lemma read_each_from_file:
  assumes "a \<in> set (fst (read_each env done agent f (discover_files env base inc deny)))"
    and "\<And>p. f p = Inr a \<Longrightarrow> ar_source a = p \<and> ar_agent a = agent"
  shows "from_file deny agent a"
  using read_each_from [OF assms(1)] assms(2) discovered_wanted by (fastforce simp: from_file_def wanted_def)

lemma claude_notes_from: "a \<in> set (fst (claude_notes env deny dir kind)) \<Longrightarrow> from_file deny ''claude'' a"
  unfolding claude_notes_def by (erule read_each_from_file) (auto dest: parsed_fields split: if_splits)

lemma unavailable_none [simp]: "fst (unavailable env agent p) = []"
  by (simp add: unavailable_def)

lemma claude_scan_from: "a \<in> set (fst (claude_scan h opt)) \<Longrightarrow> from_file (so_deny opt) ''claude'' a"
  by (auto simp: claude_scan_def Let_def dest!: scan_then_artifacts claude_notes_from parsed_fields
      elim!: read_each_from_file split: if_splits)

lemma cursor_scan_from: "a \<in> set (fst (cursor_scan h opt)) \<Longrightarrow> from_file (so_deny opt) ''cursor'' a"
  by (auto simp: cursor_scan_def Let_def dest!: scan_then_artifacts parsed_fields
      elim!: read_each_from_file split: if_splits)

lemma pi_scan_from: "a \<in> set (fst (pi_scan h opt)) \<Longrightarrow> from_file (so_deny opt) ''pi'' a"
  by (auto simp: pi_scan_def Let_def dest!: parsed_fields elim!: read_each_from_file split: if_splits)

lemma scan_roots_from: "a \<in> set (fst (scan_roots h deny rs)) \<Longrightarrow> from_file deny ''filesystem'' a"
  by (induction rs) (auto simp: Let_def dest!: scan_then_artifacts parsed_fields elim!: read_each_from_file split: if_splits)

lemma scan_antigravity_from: "a \<in> set (fst (scan_antigravity h opt)) \<Longrightarrow> from_file (so_deny opt) ''antigravity'' a"
  using discovered_wanted
  by (fastforce simp: scan_antigravity_def Let_def from_file_def wanted_def List.map_filter_def dest!: parsed_fields
      split: if_splits sum.splits)

lemma codex_goals_from:
  "a \<in> set (read_codex_goals h base m) \<Longrightarrow> ar_agent a = ''codex'' \<and> ar_source a = path_join [base, ''goals_1.sqlite'']"
  by (auto simp: read_codex_goals_def Let_def List.map_filter_def split: if_splits option.splits)

lemma codex_metadata_from:
  "a \<in> set (fst (snd (read_codex_metadata h base))) \<Longrightarrow> ar_agent a = ''codex'' \<and> ar_source a = path_join [base, ''goals_1.sqlite'']"
  by (auto simp: read_codex_metadata_def Let_def dest: codex_goals_from split: if_splits option.splits prod.splits)

lemma codex_scan_from:
  assumes "a \<in> set (fst (codex_scan h opt))"
  shows "from_file (so_deny opt) ''codex'' a
    \<or> ar_agent a = ''codex'' \<and> ar_source a = path_join [path_join [so_home opt, ''.codex''], ''goals_1.sqlite'']"
proof -
  obtain threads goals status where m: "read_codex_metadata h (path_join [so_home opt, ''.codex'']) = (threads, goals, status)"
    by (metis prod_cases3)
  then consider "a \<in> set goals"
    | "a \<in> set (fst (read_each (ho_env h) (ho_cancelled h) ''codex'' (codex_session (ho_env h) threads)
          (discover_files (ho_env h) (path_join [path_join [so_home opt, ''.codex''], ''sessions'']) jsonl (so_deny opt))))"
    using assms by (auto simp: codex_scan_def Let_def dest!: scan_then_artifacts)
  then show ?thesis
  proof cases
    case 1
    then show ?thesis
      using codex_metadata_from [of a h "path_join [so_home opt, ''.codex'']"] m by simp
  next
    case 2
    from read_each_from_file [OF this codex_session_fields] show ?thesis
      by simp
  qed
qed

definition kept_out :: "aw_host \<Rightarrow> scan_options \<Rightarrow> artifact \<Rightarrow> bool" where
  "kept_out h opt a \<longleftrightarrow> ar_agent a \<in> fst ` set default_adapters \<and>
     (if ar_agent a = ''pi_workflows'' then attributed h opt a
      else from_file (so_deny opt) (ar_agent a) a
        \<or> ar_agent a = ''codex'' \<and> ar_source a = path_join [path_join [so_home opt, ''.codex''], ''goals_1.sqlite''])"

lemma kept_outI:
  "from_file (so_deny opt) agent a \<Longrightarrow> agent \<in> set [''claude'', ''cursor'', ''codex'', ''pi'', ''antigravity'', ''filesystem'']
     \<Longrightarrow> kept_out h opt a"
  by (auto simp: kept_out_def from_file_def default_adapters_def)

lemma adapter_keeps_out:
  "list_all (\<lambda>ad. \<forall>a \<in> set (fst (snd ad h opt)). kept_out h opt a) default_adapters"
proof -
  have c: "kept_out h opt a" if "a \<in> set (fst (codex_scan h opt))" for a
    using codex_scan_from [OF that]
  proof
    assume "ar_agent a = ''codex'' \<and> ar_source a = path_join [path_join [so_home opt, ''.codex''], ''goals_1.sqlite'']"
    then show ?thesis
      by (simp add: kept_out_def default_adapters_def)
  qed (simp add: kept_outI)
  have w: "kept_out h opt a" if "a \<in> set (fst (scan_pi_workflows h opt))" for a
  proof -
    have "attributed h opt a"
      by (rule workflow_scan_attributed [OF that])
    moreover from this have "ar_agent a = ''pi_workflows''"
      by (simp add: attributed_def Let_def)
    ultimately show ?thesis
      by (simp add: kept_out_def default_adapters_def)
  qed
  note f = claude_scan_from cursor_scan_from pi_scan_from scan_antigravity_from
    scan_roots_from [of _ _ "so_deny opt" "so_roots opt", folded scan_filesystem_def]
  show ?thesis
    unfolding default_adapters_def list.pred_inject snd_conv
    by (intro conjI ballI; (erule c | erule w | (drule f, erule kept_outI, simp) | simp))
qed

text \<open>Every artifact of a whole scan comes from a file whose path is neither sensitive nor denied, or from the workflow
  store, attributed, or it is a goal of Codex's database; no adapter produces artifacts of another agent.\<close>

theorem scans_keep_out:
  "list_all (kept_out h opt) (fst (scan_stores h opt))"
  unfolding list_all_iff
proof
  fix a
  assume "a \<in> set (fst (scan_stores h opt))"
  then obtain ad where ad: "ad \<in> set default_adapters" "a \<in> set (fst (scan_with h opt ad))"
    by (auto simp: scan_stores_def Let_def)
  then have "a \<in> set (fst (snd ad h opt))"
    by (auto simp: scan_with_def split: if_splits prod.splits)
  with ad(1) show "kept_out h opt a"
    using adapter_keeps_out [of h opt] by (simp add: list_all_iff)
qed

section \<open>Deny globs\<close>

text \<open>
  A pattern has to match the whole path, and a star takes no slash. So the patterns of the README keep out only
  paths with exactly two slashes, and a file in a \<^verbatim>\<open>private\<close> directory of a project is read.
\<close>

lemma match_from_star_slashes:
  "match_from star its final s = Some t \<Longrightarrow> \<exists>u v. s = u @ v \<and> CHR ''/'' \<notin> set u \<and> match_chunk its v = Some t"
proof (induction star its final s rule: match_from.induct)
  case (1 star its final)
  then show ?case
    by (auto split: option.splits)
next
  case (2 star its final c s)
  show ?case
  proof (cases "match_chunk its (c # s) = Some t")
    case True
    then show ?thesis
      by (intro exI [of _ "[]"] exI [of _ "c # s"]) simp
  next
    case False
    then have "match_from star its final s = Some t" "c \<noteq> CHR ''/''"
      using "2.prems" by (auto split: option.splits if_splits)
    with "2.IH" False "2.prems" obtain u v where "s = u @ v" "CHR ''/'' \<notin> set u" "match_chunk its v = Some t"
      by (auto split: option.splits if_splits)
    with \<open>c \<noteq> CHR ''/''\<close> show ?thesis
      by (intro exI [of _ "c # u"] exI [of _ v]) simp
  qed
qed

definition glob_plain :: "char \<Rightarrow> bool" where
  "glob_plain c \<longleftrightarrow> c \<noteq> CHR ''*'' \<and> c \<noteq> CHR ''?'' \<and> c \<noteq> CHR ''['' \<and> c \<noteq> CHR 0x5C"

lemma glob_items_plain: "list_all glob_plain d \<Longrightarrow> glob_items (d @ r) = map_option ((@) (map Glob_char d)) (glob_items r)"
  by (cases "glob_items r"; induction d) (simp_all add: glob_plain_def)

lemma match_chunk_chars: "match_chunk (map Glob_char d) s = Some t \<longleftrightarrow> s = d @ t"
proof (induction d arbitrary: s)
  case (Cons c d)
  show ?case
    using Cons.IH by (cases s) auto
qed simp

lemma dropWhile_chars [simp]:
  "dropWhile (\<lambda>x. x = Glob_star) (map Glob_char d @ [Glob_star]) = (if d = [] then [] else map Glob_char d @ [Glob_star])"
  "takeWhile (\<lambda>x. x \<noteq> Glob_star) (map Glob_char d @ [Glob_star]) = map Glob_char d"
  "dropWhile (\<lambda>x. x \<noteq> Glob_star) (map Glob_char d @ [Glob_star]) = [Glob_star]"
  by (induction d) auto

text \<open>Every path that a pattern of the README's form \<^verbatim>\<open>*/dir/*\<close> denies has exactly two slashes, one on each side of the
  directory: no file deeper in the tree is denied by it.\<close>

theorem readme_globs_shallow:
  "list_all glob_plain d \<Longrightarrow> glob_match (''*/'' @ d @ ''/*'') p \<Longrightarrow>
     \<exists>u v. p = u @ ''/'' @ d @ ''/'' @ v \<and> CHR ''/'' \<notin> set u \<and> CHR ''/'' \<notin> set v"
proof -
  assume d: "list_all glob_plain d" and m: "glob_match (''*/'' @ d @ ''/*'') p"
  let ?d = "''/'' @ d @ ''/''"
  have "list_all glob_plain ?d"
    using d by (simp add: glob_plain_def)
  from glob_items_plain [OF this, of "''*''"]
  have items: "glob_items (''*/'' @ d @ ''/*'') = Some (Glob_star # map Glob_char ?d @ [Glob_star])"
    by simp
  have chunks: "glob_chunks (Glob_star # map Glob_char ?d @ [Glob_star]) = [(True, map Glob_char ?d), (True, [])]"
    using dropWhile_chars [of ?d] by (simp add: Let_def del: dropWhile_chars)
  obtain t where "match_from True (map Glob_char ?d) False p = Some t" "CHR ''/'' \<notin> set t"
    using m unfolding glob_match_def items option.case chunks by (auto split: option.splits)
  with match_from_star_slashes [of True "map Glob_char ?d" False p t] show ?thesis
    unfolding match_chunk_chars by auto
qed

lemma readme_globs_shallow_example:
  "\<exists>u v. ''/private/notes.md'' = u @ ''/'' @ ''private'' @ ''/'' @ v \<and> CHR ''/'' \<notin> set u \<and> CHR ''/'' \<notin> set v"
proof -
  have "list_all glob_plain ''private''"
    by code_simp
  moreover have "glob_match (''*/'' @ ''private'' @ ''/*'') ''/private/notes.md''"
    by code_simp
  ultimately show ?thesis
    by (rule readme_globs_shallow)
qed

lemma private_notes_are_read:
  "\<not> any_glob [''*/private/*'', ''*/secrets/*''] ''/home/u/project/private/notes.md''"
  by code_simp

end
