(* ===== verification/Agentweave_Index.thy ===== *)
theory Agentweave_Index
  imports Agentweave_Model Complex_Main
begin

text \<open>
  The index itself (\<^verbatim>\<open>agentweave/core/index.go\<close>): the tables of its SQLite database as lists of rows, each
  statement as the update it makes, a transaction as the whole change or none. A statement fails where it
  breaks a key; other failures of the database, and where the context is found done, are parameters. The
  full-text match, its rank and its excerpt are those of the engine; scores are rational, their rounding is left
  out.

  The lemmas show that a synchronisation keeps the tables consistent with each other, what it does to the rows of
  one source, and that a search or a read returns nothing outside the scope of its request.
\<close>

section \<open>Tables\<close>

record artifact_row =
  rw_id :: string
  rw_agent :: string
  rw_kind :: string
  rw_workspace :: string
  rw_title :: string
  rw_source :: string
  rw_record :: string
  rw_parent :: string
  rw_created :: int
  rw_updated :: int
  rw_hash :: string

record revision =
  rv_artifact :: string
  rv_hash :: string
  rv_source :: string
  rv_captured :: int
  rv_content :: string

record aw_db =
  db_artifacts :: "artifact_row list"
  db_chunks :: "aw_chunk list"
  db_fts :: "(string \<times> string) list"
  db_projects :: "(string \<times> int \<times> int) list"
  db_revisions :: "revision list"
  db_relations :: "(string \<times> string) list"
  db_sources :: "source_status list"
  db_definitions :: "(string \<times> string \<times> workflow_definition) list"
  db_runs :: "(string \<times> string \<times> workflow_run) list"

definition empty_db :: aw_db where
  "empty_db = \<lparr>db_artifacts = [], db_chunks = [], db_fts = [], db_projects = [], db_revisions = [], db_relations = [],
     db_sources = [], db_definitions = [], db_runs = []\<rparr>"

record db_faults =
  df_cancelled :: "string \<Rightarrow> bool"
  df_lookup :: "string \<Rightarrow> bool"
  df_replace :: "string \<Rightarrow> bool"
  df_status :: "string \<Rightarrow> bool"
  df_listing :: bool
  df_prune :: "string \<Rightarrow> bool"

section \<open>Statements\<close>

definition source_ids :: "string \<Rightarrow> aw_db \<Rightarrow> string set" where
  "source_ids path db = rw_id ` set (filter (\<lambda>r. rw_source r = path) (db_artifacts db))"

text \<open>The three deletions that take a source's rows away, with the cascade to its workflow rows.\<close>

definition delete_content :: "string \<Rightarrow> aw_db \<Rightarrow> aw_db" where
  "delete_content path db =
     (let ids = source_ids path db;
          refs = ch_ref ` set (filter (\<lambda>c. ch_artifact c \<in> ids) (db_chunks db))
      in db\<lparr>db_fts := filter (\<lambda>e. fst e \<notin> refs) (db_fts db),
            db_chunks := filter (\<lambda>c. ch_artifact c \<notin> ids) (db_chunks db),
            db_artifacts := filter (\<lambda>r. rw_source r \<noteq> path) (db_artifacts db),
            db_definitions := filter (\<lambda>d. fst d \<notin> ids) (db_definitions db),
            db_runs := filter (\<lambda>d. fst d \<notin> ids) (db_runs db)\<rparr>)"

definition delete_relations :: "string \<Rightarrow> aw_db \<Rightarrow> aw_db" where
  "delete_relations path db = db\<lparr>db_relations := filter (\<lambda>e. fst e \<notin> source_ids path db) (db_relations db)\<rparr>"

definition touch_project :: "int \<Rightarrow> string \<Rightarrow> (string \<times> int \<times> int) list \<Rightarrow> (string \<times> int \<times> int) list" where
  "touch_project now ws ps =
     (if ws \<in> fst ` set ps then map (\<lambda>(w, first, last). (w, first, if w = ws then now else last)) ps else ps @ [(ws, now, now)])"

definition row_of :: "aw_env \<Rightarrow> artifact \<Rightarrow> artifact_row" where
  "row_of env a = \<lparr>rw_id = ar_id a, rw_agent = ar_agent a, rw_kind = ar_kind a, rw_workspace = ar_workspace a,
     rw_title = ar_title a, rw_source = ar_source a, rw_record = ar_record a, rw_parent = ar_parent a,
     rw_created = ar_created a, rw_updated = ar_updated a, rw_hash = stable_id (aw_sha env) [ar_text a]\<rparr>"

definition insert_row :: "artifact_row \<Rightarrow> aw_db \<Rightarrow> aw_db option" where
  "insert_row r db = (if rw_id r \<in> rw_id ` set (db_artifacts db) then None else Some (db\<lparr>db_artifacts := db_artifacts db @ [r]\<rparr>))"

definition insert_revision :: "aw_env \<Rightarrow> artifact \<Rightarrow> aw_db \<Rightarrow> aw_db" where
  "insert_revision env a db =
     (let content = stable_id (aw_sha env) [ar_text a];
          rev = stable_id (aw_sha env) [ar_id a, content, show_int (ar_updated a)]
      in if (ar_id a, rev) \<in> (\<lambda>v. (rv_artifact v, rv_hash v)) ` set (db_revisions db) then db
         else db\<lparr>db_revisions := db_revisions db @ [\<lparr>rv_artifact = ar_id a, rv_hash = rev, rv_source = ar_source a,
             rv_captured = aw_now env, rv_content = content\<rparr>]\<rparr>)"

definition insert_definition :: "artifact \<Rightarrow> aw_db \<Rightarrow> aw_db option" where
  "insert_definition a db = (case ar_definition a of
     None \<Rightarrow> Some db
   | Some w \<Rightarrow> if ar_id a \<in> fst ` set (db_definitions db) then None
       else Some (db\<lparr>db_definitions := db_definitions db @ [(ar_id a, ar_workspace a, w)]\<rparr>))"

definition insert_run :: "artifact \<Rightarrow> aw_db \<Rightarrow> aw_db option" where
  "insert_run a db = (case ar_run a of
     None \<Rightarrow> Some db
   | Some w \<Rightarrow> if ar_id a \<in> fst ` set (db_runs db) then None
       else Some (db\<lparr>db_runs := db_runs db @ [(ar_id a, ar_workspace a, w)]\<rparr>))"

definition insert_relation :: "artifact \<Rightarrow> aw_db \<Rightarrow> aw_db" where
  "insert_relation a db =
     (if ar_parent a = [] \<or> (ar_id a, ar_parent a) \<in> set (db_relations db) then db
      else db\<lparr>db_relations := db_relations db @ [(ar_id a, ar_parent a)]\<rparr>)"

definition insert_chunk :: "aw_chunk \<Rightarrow> aw_db \<Rightarrow> aw_db option" where
  "insert_chunk c db =
     (if ch_ref c \<in> ch_ref ` set (db_chunks db) then None
      else Some (db\<lparr>db_chunks := db_chunks db @ [c], db_fts := db_fts db @ [(ch_ref c, ch_body c)]\<rparr>))"

fun insert_all :: "('a \<Rightarrow> aw_db \<Rightarrow> aw_db option) \<Rightarrow> 'a list \<Rightarrow> aw_db \<Rightarrow> aw_db option" where
  "insert_all f [] db = Some db"
| "insert_all f (x # xs) db = Option.bind (f x db) (insert_all f xs)"

definition insert_artifact :: "aw_env \<Rightarrow> artifact \<Rightarrow> aw_db \<Rightarrow> aw_db option" where
  "insert_artifact env a db =
     (let db1 = (if ar_workspace a = [] then db
            else db\<lparr>db_projects := touch_project (aw_now env) (ar_workspace a) (db_projects db)\<rparr>)
      in Option.bind (insert_row (row_of env a) db1) (\<lambda>db2.
         Option.bind (insert_definition a (insert_revision env a db2)) (\<lambda>db3.
         Option.bind (insert_run a db3) (\<lambda>db4.
         insert_all insert_chunk (artifact_chunks a 3200) (insert_relation a db4)))))"

definition record_status :: "source_status \<Rightarrow> aw_db \<Rightarrow> aw_db" where
  "record_status st db = db\<lparr>db_sources :=
     (if st_path st \<in> st_path ` set (db_sources db) then map (\<lambda>s. if st_path s = st_path st then st else s) (db_sources db)
      else db_sources db @ [st])\<rparr>"

definition indexed_status :: "aw_env \<Rightarrow> string \<Rightarrow> string \<Rightarrow> string \<Rightarrow> artifact list \<Rightarrow> source_status" where
  "indexed_status env path state fp as = \<lparr>st_agent = ar_agent (hd as), st_path = path, st_state = state,
     st_synced = aw_now env, st_count = length as, st_fingerprint = fp\<rparr>"

section \<open>Synchronisation\<close>

text \<open>The transaction of \<^verbatim>\<open>replaceSource\<close>; \<open>None\<close> is a rollback.\<close>

definition replace_source :: "aw_env \<Rightarrow> string \<Rightarrow> string \<Rightarrow> artifact list \<Rightarrow> aw_db \<Rightarrow> aw_db option" where
  "replace_source env path fp as db =
     map_option (record_status (indexed_status env path ''indexed'' fp as))
       (insert_all (insert_artifact env) as (delete_content path (delete_relations path db)))"

definition source_unchanged :: "string \<Rightarrow> string \<Rightarrow> aw_db \<Rightarrow> bool" where
  "source_unchanged path fp db \<longleftrightarrow> (case find (\<lambda>s. st_path s = path) (db_sources db) of None \<Rightarrow> False | Some s \<Rightarrow> st_fingerprint s = fp)"

definition sync_error :: "aw_env \<Rightarrow> string \<Rightarrow> string \<Rightarrow> source_status" where
  "sync_error env agent path = \<lparr>st_agent = agent, st_path = path, st_state = ''error'', st_synced = aw_now env,
     st_count = 0, st_fingerprint = []\<rparr>"

text \<open>One source: its status and the database after it.\<close>

definition sync_path :: "aw_env \<Rightarrow> db_faults \<Rightarrow> string \<Rightarrow> artifact list \<Rightarrow> aw_db \<Rightarrow> source_status \<times> aw_db" where
  "sync_path env fl path as db =
     (case file_fingerprint env path of
        None \<Rightarrow> (sync_error env (ar_agent (hd as)) path, db)
      | Some fp \<Rightarrow>
          if source_unchanged path fp db then (indexed_status env path ''unchanged'' fp as, db)
          else case (if df_replace fl path then None else replace_source env path fp as db) of
              None \<Rightarrow> (sync_error env (ar_agent (hd as)) path, db)
            | Some db1 \<Rightarrow> (indexed_status env path ''indexed'' fp as, db1))"

text \<open>The sources in order; \<open>False\<close> where the context is done or the lookup of a fingerprint fails.\<close>

fun sync_paths :: "aw_env \<Rightarrow> db_faults \<Rightarrow> artifact list \<Rightarrow> string list \<Rightarrow> source_status list \<Rightarrow> aw_db
    \<Rightarrow> source_status list \<times> aw_db \<times> bool" where
  "sync_paths env fl as [] sts db = (sts, db, True)"
| "sync_paths env fl as (p # ps) sts db =
     (if df_cancelled fl p \<or> (file_fingerprint env p \<noteq> None \<and> df_lookup fl p) then (sts, db, False)
      else case sync_path env fl p (filter (\<lambda>a. ar_source a = p) as) db of
          (st, db1) \<Rightarrow> sync_paths env fl as ps (sts @ [st]) db1)"

definition stored_already :: "source_status \<Rightarrow> bool" where
  "stored_already st \<longleftrightarrow> st_path st = [] \<or> ((st_state st = ''indexed'' \<or> st_state st = ''unchanged'') \<and> st_fingerprint st \<noteq> [])"

definition record_statuses :: "db_faults \<Rightarrow> source_status list \<Rightarrow> aw_db \<Rightarrow> aw_db" where
  "record_statuses fl sts db = fold (\<lambda>st d. if stored_already st \<or> df_status fl (st_path st) then d else record_status st d) sts db"

definition missing_sources :: "aw_env \<Rightarrow> aw_db \<Rightarrow> string list" where
  "missing_sources env db = filter (aw_missing env)
     (map st_path (filter (\<lambda>s. st_state s = ''indexed'' \<or> st_state s = ''unchanged'') (db_sources db)))"

definition prune_one :: "string \<Rightarrow> aw_db \<Rightarrow> aw_db" where
  "prune_one path db = (let d = delete_content path db in d\<lparr>db_sources := filter (\<lambda>s. st_path s \<noteq> path) (db_sources d)\<rparr>)"

fun prune_all :: "db_faults \<Rightarrow> string list \<Rightarrow> aw_db \<Rightarrow> aw_db \<times> bool" where
  "prune_all fl [] db = (db, True)"
| "prune_all fl (p # ps) db = (if df_prune fl p then (db, False) else prune_all fl ps (prune_one p db))"

definition prune_missing_sources :: "aw_env \<Rightarrow> db_faults \<Rightarrow> aw_db \<Rightarrow> aw_db \<times> bool" where
  "prune_missing_sources env fl db = (if df_listing fl then (db, False) else prune_all fl (missing_sources env db) db)"

text \<open>\<^verbatim>\<open>Sync\<close>: artifacts that are not fit for the index become statuses; the others are grouped by source.\<close>

definition normalized :: "aw_env \<Rightarrow> artifact list \<Rightarrow> artifact list" where
  "normalized env as = map fst (filter (\<lambda>r. snd r = None) (map (normalize env) as))"

definition rejected :: "aw_env \<Rightarrow> artifact list \<Rightarrow> source_status list" where
  "rejected env as = map (\<lambda>(a, _). sync_error env (ar_agent a) (ar_source a)) (filter (\<lambda>r. snd r \<noteq> None) (map (normalize env) as))"

definition sync :: "aw_env \<Rightarrow> db_faults \<Rightarrow> artifact list \<Rightarrow> source_status list \<Rightarrow> aw_db \<Rightarrow> source_status list \<times> aw_db \<times> bool" where
  "sync env fl as sts db =
     (let ns = normalized env as in
      case sync_paths env fl ns (sort (remdups (map ar_source ns))) (sts @ rejected env as) db of
        (sts1, db1, False) \<Rightarrow> (sts1, db1, False)
      | (sts1, db1, True) \<Rightarrow> (case prune_missing_sources env fl (record_statuses fl sts1 db1) of
          (db2, ok) \<Rightarrow> (sts1, db2, ok)))"

section \<open>Consistency of the tables\<close>

definition db_ids :: "aw_db \<Rightarrow> string set" where
  "db_ids db = rw_id ` set (db_artifacts db)"

definition fts_entry :: "aw_chunk \<Rightarrow> string \<times> string" where
  "fts_entry c = (ch_ref c, ch_body c)"

text \<open>Keys are unique, the full-text table mirrors the chunks, and no chunk or workflow row is without its artifact.\<close>

definition tables_ok :: "aw_db \<Rightarrow> bool" where
  "tables_ok db \<longleftrightarrow> distinct (map rw_id (db_artifacts db)) \<and> distinct (map ch_ref (db_chunks db))
     \<and> db_fts db = map fts_entry (db_chunks db) \<and> ch_artifact ` set (db_chunks db) \<subseteq> db_ids db
     \<and> distinct (map fst (db_definitions db)) \<and> fst ` set (db_definitions db) \<subseteq> db_ids db
     \<and> distinct (map fst (db_runs db)) \<and> fst ` set (db_runs db) \<subseteq> db_ids db"

definition sources_ok :: "aw_db \<Rightarrow> bool" where
  "sources_ok db \<longleftrightarrow> distinct (map st_path (db_sources db)) \<and> rw_source ` set (db_artifacts db) \<subseteq> st_path ` set (db_sources db)"

definition db_ok :: "aw_db \<Rightarrow> bool" where
  "db_ok db \<longleftrightarrow> tables_ok db \<and> sources_ok db"

lemma source_ids_iff: "distinct (map rw_id (db_artifacts db)) \<Longrightarrow> r \<in> set (db_artifacts db) \<Longrightarrow>
    rw_id r \<in> source_ids path db \<longleftrightarrow> rw_source r = path"
  by (auto simp: source_ids_def distinct_map inj_on_def)

lemma delete_ids: "distinct (map rw_id (db_artifacts db)) \<Longrightarrow> db_ids (delete_content path db) = db_ids db - source_ids path db"
  using source_ids_iff [of db _ path] by (auto simp: db_ids_def delete_content_def Let_def image_iff)

lemma delete_fts:
  assumes "distinct (map ch_ref cs)"
  shows "filter (\<lambda>e. fst e \<notin> ch_ref ` set (filter P cs)) (map fts_entry cs) = map fts_entry (filter (\<lambda>c. \<not> P c) cs)"
proof -
  have "ch_ref c \<in> ch_ref ` set (filter P cs) \<longleftrightarrow> P c" if "c \<in> set cs" for c
    using assms that by (auto simp: distinct_map inj_on_def)
  then have "filter (\<lambda>c. fst (fts_entry c) \<notin> ch_ref ` set (filter P cs)) cs = filter (\<lambda>c. \<not> P c) cs"
    by (intro filter_cong) (simp_all add: fts_entry_def)
  then show ?thesis
    by (simp add: filter_map comp_def)
qed

lemma delete_content_ok:
  assumes "tables_ok db"
  shows "tables_ok (delete_content path db)"
proof -
  have d: "distinct (map rw_id (db_artifacts db))" "distinct (map ch_ref (db_chunks db))"
    and f: "db_fts db = map fts_entry (db_chunks db)"
    using assms by (simp_all add: tables_ok_def)
  have "db_fts (delete_content path db) = map fts_entry (db_chunks (delete_content path db))"
    using delete_fts [OF d(2), of "\<lambda>c. ch_artifact c \<in> source_ids path db"] f by (simp add: delete_content_def Let_def)
  with assms delete_ids [OF d(1), of path] show ?thesis
    by (auto simp: tables_ok_def delete_content_def Let_def distinct_map_filter)
qed

lemma delete_relations_ok [simp]: "tables_ok (delete_relations path db) = tables_ok db" "sources_ok (delete_relations path db) = sources_ok db"
    "db_artifacts (delete_relations path db) = db_artifacts db" "db_chunks (delete_relations path db) = db_chunks db"
    "db_sources (delete_relations path db) = db_sources db" "source_ids p (delete_relations path db) = source_ids p db"
  by (simp_all add: delete_relations_def tables_ok_def sources_ok_def db_ids_def source_ids_def)

text \<open>What an insertion keeps is kept by a sequence of insertions.\<close>

lemma insert_all_keeps:
  "insert_all f xs db = Some db' \<Longrightarrow> P db \<Longrightarrow> (\<And>x d d'. x \<in> set xs \<Longrightarrow> f x d = Some d' \<Longrightarrow> P d \<Longrightarrow> P d') \<Longrightarrow> P db'"
proof (induction xs arbitrary: db)
  case (Cons x xs)
  then obtain d where "f x db = Some d" "insert_all f xs d = Some db'"
    by (auto split: bind_splits)
  with Cons show ?case
    by (metis list.set_intros(1,2))
qed simp

lemma insert_row_ok: "insert_row r db = Some db' \<Longrightarrow> tables_ok db \<Longrightarrow> tables_ok db' \<and> rw_id r \<in> db_ids db'"
  by (auto simp: insert_row_def tables_ok_def db_ids_def split: if_splits del: subsetI intro: subset_insertI2)

lemma insert_definition_ok:
  "insert_definition a db = Some db' \<Longrightarrow> tables_ok db \<Longrightarrow> ar_id a \<in> db_ids db \<Longrightarrow> tables_ok db' \<and> db_ids db' = db_ids db"
  by (auto simp: insert_definition_def tables_ok_def db_ids_def split: option.splits if_splits del: subsetI)

lemma insert_run_ok:
  "insert_run a db = Some db' \<Longrightarrow> tables_ok db \<Longrightarrow> ar_id a \<in> db_ids db \<Longrightarrow> tables_ok db' \<and> db_ids db' = db_ids db"
  by (auto simp: insert_run_def tables_ok_def db_ids_def split: option.splits if_splits del: subsetI)

lemma insert_chunk_ok:
  "insert_chunk c db = Some db' \<Longrightarrow> tables_ok db \<Longrightarrow> ch_artifact c \<in> db_ids db \<Longrightarrow> tables_ok db' \<and> db_ids db' = db_ids db"
  by (auto simp: insert_chunk_def tables_ok_def db_ids_def fts_entry_def split: if_splits del: subsetI)

lemma insert_others_ok [simp]:
  "tables_ok (insert_revision env a db) = tables_ok db" "db_ids (insert_revision env a db) = db_ids db"
  "tables_ok (insert_relation a db) = tables_ok db" "db_ids (insert_relation a db) = db_ids db"
  "tables_ok (db\<lparr>db_projects := ps\<rparr>) = tables_ok db" "tables_ok (db\<lparr>db_sources := ss\<rparr>) = tables_ok db"
  by (simp_all add: insert_revision_def insert_relation_def tables_ok_def db_ids_def Let_def)

lemma chunks_of_artifact: "c \<in> set (artifact_chunks a n) \<Longrightarrow> ch_artifact c = ar_id a"
  using chunks_from_bounds by (auto simp: artifact_chunks_def)

lemma insert_artifact_steps:
  assumes "insert_artifact env a db = Some db'"
  obtains db1 db2 db3 db4 where "db1 = db \<or> db1 = db\<lparr>db_projects := touch_project (aw_now env) (ar_workspace a) (db_projects db)\<rparr>"
    "insert_row (row_of env a) db1 = Some db2" "insert_definition a (insert_revision env a db2) = Some db3"
    "insert_run a db3 = Some db4" "insert_all insert_chunk (artifact_chunks a 3200) (insert_relation a db4) = Some db'"
proof -
  define db1 where "db1 = (if ar_workspace a = [] then db
    else db\<lparr>db_projects := touch_project (aw_now env) (ar_workspace a) (db_projects db)\<rparr>)"
  then show thesis
    using assms that [of db1] by (auto simp: insert_artifact_def Let_def split: bind_splits if_splits)
qed

lemma insert_artifact_ok:
  assumes "insert_artifact env a db = Some db'" "tables_ok db"
  shows "tables_ok db'"
proof -
  from insert_artifact_steps [OF assms(1)] obtain db1 db2 db3 db4 where
    s: "db1 = db \<or> db1 = db\<lparr>db_projects := touch_project (aw_now env) (ar_workspace a) (db_projects db)\<rparr>"
    "insert_row (row_of env a) db1 = Some db2" "insert_definition a (insert_revision env a db2) = Some db3"
    "insert_run a db3 = Some db4" "insert_all insert_chunk (artifact_chunks a 3200) (insert_relation a db4) = Some db'" .
  have "tables_ok db1"
    using s(1) assms(2) by auto
  from insert_row_ok [OF s(2) this] have 2: "tables_ok db2" "ar_id a \<in> db_ids db2"
    by (simp_all add: row_of_def)
  from insert_definition_ok [OF s(3)] 2 have 3: "tables_ok db3" "ar_id a \<in> db_ids db3"
    by simp_all
  from insert_run_ok [OF s(4) 3] 3 have 4: "tables_ok (insert_relation a db4) \<and> ar_id a \<in> db_ids (insert_relation a db4)"
    by simp
  have step: "tables_ok d' \<and> ar_id a \<in> db_ids d'"
    if "x \<in> set (artifact_chunks a 3200)" "insert_chunk x d = Some d'" "tables_ok d \<and> ar_id a \<in> db_ids d" for x d d'
    using insert_chunk_ok [OF that(2)] that(3) chunks_of_artifact [OF that(1)] by simp
  have "tables_ok db' \<and> ar_id a \<in> db_ids db'"
    by (rule insert_all_keeps [where P = "\<lambda>d. tables_ok d \<and> ar_id a \<in> db_ids d", OF s(5) 4]) (rule step)
  then show ?thesis ..
qed

text \<open>The rows an insertion adds to the tables of artifacts and chunks.\<close>

lemma insert_chunks_content:
  "insert_all insert_chunk cs db = Some db' \<Longrightarrow> db_chunks db' = db_chunks db @ cs \<and> db_artifacts db' = db_artifacts db
     \<and> db_sources db' = db_sources db"
  by (induction cs arbitrary: db) (auto simp: insert_chunk_def split: bind_splits if_splits)

lemma insert_row_content:
  "insert_row r db = Some db' \<Longrightarrow> db' = db\<lparr>db_artifacts := db_artifacts db @ [r]\<rparr> \<and> rw_id r \<notin> db_ids db"
  by (simp add: insert_row_def db_ids_def split: if_splits)

lemma insert_workflow_content:
  "insert_definition a db = Some db' \<Longrightarrow> db_artifacts db' = db_artifacts db \<and> db_chunks db' = db_chunks db \<and> db_sources db' = db_sources db"
  "insert_run a db = Some db' \<Longrightarrow> db_artifacts db' = db_artifacts db \<and> db_chunks db' = db_chunks db \<and> db_sources db' = db_sources db"
  by (auto simp: insert_definition_def insert_run_def split: option.splits if_splits)

lemma insert_side_content [simp]:
  "db_artifacts (insert_revision env a db) = db_artifacts db" "db_chunks (insert_revision env a db) = db_chunks db"
  "db_sources (insert_revision env a db) = db_sources db" "db_artifacts (insert_relation a db) = db_artifacts db"
  "db_chunks (insert_relation a db) = db_chunks db" "db_sources (insert_relation a db) = db_sources db"
  by (simp_all add: insert_revision_def insert_relation_def Let_def)

lemma insert_artifact_content:
  assumes "insert_artifact env a db = Some db'"
  shows "db_artifacts db' = db_artifacts db @ [row_of env a] \<and> db_chunks db' = db_chunks db @ artifact_chunks a 3200
    \<and> db_sources db' = db_sources db \<and> ar_id a \<notin> db_ids db"
proof -
  from insert_artifact_steps [OF assms] obtain db1 db2 db3 db4 where
    s: "db1 = db \<or> db1 = db\<lparr>db_projects := touch_project (aw_now env) (ar_workspace a) (db_projects db)\<rparr>"
    "insert_row (row_of env a) db1 = Some db2" "insert_definition a (insert_revision env a db2) = Some db3"
    "insert_run a db3 = Some db4" "insert_all insert_chunk (artifact_chunks a 3200) (insert_relation a db4) = Some db'" .
  have "db_artifacts db1 = db_artifacts db" "db_chunks db1 = db_chunks db" "db_sources db1 = db_sources db"
    using s(1) by auto
  then show ?thesis
    using insert_row_content [OF s(2)] insert_workflow_content(1) [OF s(3)] insert_workflow_content(2) [OF s(4)]
      insert_chunks_content [OF s(5)] by (simp add: db_ids_def row_of_def)
qed

lemma insert_artifacts_content:
  "insert_all (insert_artifact env) as db = Some db' \<Longrightarrow> db_artifacts db' = db_artifacts db @ map (row_of env) as
     \<and> db_chunks db' = db_chunks db @ concat (map (\<lambda>a. artifact_chunks a 3200) as) \<and> db_sources db' = db_sources db"
proof (induction as arbitrary: db)
  case (Cons a as)
  then obtain d where d: "insert_artifact env a db = Some d" "insert_all (insert_artifact env) as d = Some db'"
    by (auto split: bind_splits)
  from Cons.IH [OF d(2)] insert_artifact_content [OF d(1)] show ?case
    by simp
qed simp

lemma replace_source_steps:
  assumes "replace_source env path fp as db = Some db'"
  obtains d where "insert_all (insert_artifact env) as (delete_content path (delete_relations path db)) = Some d"
    "db' = record_status (indexed_status env path ''indexed'' fp as) d"
  using assms by (auto simp: replace_source_def)

lemma record_status_fields [simp]:
  "db_artifacts (record_status st db) = db_artifacts db" "db_chunks (record_status st db) = db_chunks db"
  "tables_ok (record_status st db) = tables_ok db" "db_fts (record_status st db) = db_fts db"
  by (simp_all add: record_status_def)

lemma record_status_sources:
  "st_path ` set (db_sources (record_status st db)) = insert (st_path st) (st_path ` set (db_sources db))"
  by (auto simp: record_status_def image_iff split: if_splits)

lemma record_status_distinct:
  "distinct (map st_path (db_sources db)) \<Longrightarrow> distinct (map st_path (db_sources (record_status st db)))"
proof -
  assume d: "distinct (map st_path (db_sources db))"
  have "map st_path (map (\<lambda>s. if st_path s = st_path st then st else s) (db_sources db)) = map st_path (db_sources db)"
    by simp
  with d show ?thesis
    by (simp add: record_status_def del: map_map)
qed

lemma record_status_ok: "db_ok db \<Longrightarrow> db_ok (record_status st db)"
  using record_status_sources [of st db] record_status_distinct [of db st] by (auto simp: db_ok_def sources_ok_def)

lemma delete_content_fields:
  "db_artifacts (delete_content path db) = filter (\<lambda>r. rw_source r \<noteq> path) (db_artifacts db)"
  "db_chunks (delete_content path db) = filter (\<lambda>c. ch_artifact c \<notin> source_ids path db) (db_chunks db)"
  "db_sources (delete_content path db) = db_sources db"
  by (simp_all add: delete_content_def Let_def)

lemma replace_source_ok:
  assumes "replace_source env path fp as db = Some db'" "db_ok db" "\<forall>a \<in> set as. ar_source a = path"
  shows "db_ok db'"
proof -
  from replace_source_steps [OF assms(1)] obtain d where
    d: "insert_all (insert_artifact env) as (delete_content path (delete_relations path db)) = Some d"
    "db' = record_status (indexed_status env path ''indexed'' fp as) d" .
  have "tables_ok (delete_content path (delete_relations path db))"
    using assms(2) by (intro delete_content_ok) (simp add: db_ok_def)
  from insert_all_keeps [where P = tables_ok, OF d(1) this] have "tables_ok d"
    using insert_artifact_ok by blast
  moreover have "sources_ok db'"
    unfolding sources_ok_def d(2)
    using record_status_distinct [of d] record_status_sources [of _ d] insert_artifacts_content [OF d(1)] assms(2,3)
    by (auto simp: delete_content_fields db_ok_def sources_ok_def indexed_status_def row_of_def)
  ultimately show ?thesis
    by (simp add: db_ok_def d(2))
qed

lemma sync_path_ok:
  assumes "db_ok db" "\<forall>a \<in> set as. ar_source a = path"
  shows "db_ok (snd (sync_path env fl path as db))"
  using assms replace_source_ok [of env path _ as db]
  by (auto simp: sync_path_def split: option.splits if_splits)

lemma sync_paths_ok: "sync_paths env fl as ps sts db = (sts', db', ok) \<Longrightarrow> db_ok db \<Longrightarrow> db_ok db'"
proof (induction ps arbitrary: sts db)
  case (Cons p ps)
  obtain st d where d: "sync_path env fl p (filter (\<lambda>a. ar_source a = p) as) db = (st, d)"
    by fastforce
  have "db_ok d"
    using sync_path_ok [OF Cons.prems(2), of "filter (\<lambda>a. ar_source a = p) as" p env fl] d by simp
  with Cons d show ?case
    by (auto split: if_splits)
qed simp

lemma record_statuses_ok: "db_ok db \<Longrightarrow> db_ok (record_statuses fl sts db)"
  unfolding record_statuses_def by (induction sts arbitrary: db) (auto simp: record_status_ok)

lemma prune_one_ok: "db_ok db \<Longrightarrow> db_ok (prune_one path db)"
proof -
  assume ok: "db_ok db"
  then have "tables_ok (prune_one path db)"
    using delete_content_ok [of db path] by (simp add: prune_one_def Let_def db_ok_def)
  moreover have "sources_ok (prune_one path db)"
    using ok by (auto simp: prune_one_def Let_def sources_ok_def db_ok_def delete_content_fields distinct_map_filter)
  ultimately show ?thesis
    by (simp add: db_ok_def)
qed

lemma prune_all_ok: "db_ok db \<Longrightarrow> db_ok (fst (prune_all fl ps db))"
  by (induction ps arbitrary: db) (auto simp: prune_one_ok)

lemma sync_ok: "db_ok db \<Longrightarrow> sync env fl as sts db = (sts', db', ok) \<Longrightarrow> db_ok db'"
proof -
  assume ok: "db_ok db" and y: "sync env fl as sts db = (sts', db', ok)"
  let ?ns = "normalized env as"
  obtain sts1 db1 b where p: "sync_paths env fl ?ns (sort (remdups (map ar_source ?ns))) (sts @ rejected env as) db = (sts1, db1, b)"
    by (metis prod_cases3)
  from sync_paths_ok [OF p ok] have 1: "db_ok db1" .
  then have "db_ok (fst (prune_missing_sources env fl (record_statuses fl sts1 db1)))"
    by (simp add: prune_missing_sources_def prune_all_ok record_statuses_ok)
  then show "db_ok db'"
    using 1 y by (cases b) (auto simp: sync_def Let_def p split: prod.splits)
qed

text \<open>The databases that synchronisations lead to, whatever is scanned and whatever fails in them.\<close>

inductive index_state :: "aw_db \<Rightarrow> bool" where
  index_empty: "index_state empty_db"
| index_synced: "index_state db \<Longrightarrow> sync env fl as sts db = (sts', db', ok) \<Longrightarrow> index_state db'"

lemma index_state_ok: "index_state db \<Longrightarrow> db_ok db"
proof (induction rule: index_state.induct)
  case index_empty
  show ?case
    by (simp add: db_ok_def tables_ok_def sources_ok_def empty_db_def db_ids_def)
qed (rule sync_ok)

text \<open>C12: In every database that synchronisations lead to, whatever artifacts and statuses they were given and wherever the
  database failed, keys are unique, the full-text table holds exactly the bodies of the chunks,
  no chunk or workflow row is without its artifact, and every artifact's source has a status.\<close>

theorem index_consistent:
  "index_state db \<Longrightarrow> distinct (map rw_id (db_artifacts db)) \<and> db_fts db = map (\<lambda>c. (ch_ref c, ch_body c)) (db_chunks db)
     \<and> distinct (map ch_ref (db_chunks db)) \<and> ch_artifact ` set (db_chunks db) \<subseteq> rw_id ` set (db_artifacts db)
     \<and> fst ` set (db_definitions db) \<union> fst ` set (db_runs db) \<subseteq> rw_id ` set (db_artifacts db)
     \<and> distinct (map st_path (db_sources db)) \<and> rw_source ` set (db_artifacts db) \<subseteq> st_path ` set (db_sources db)"
  using index_state_ok by (auto simp: db_ok_def tables_ok_def sources_ok_def db_ids_def fts_entry_def [abs_def])

section \<open>What a synchronisation does to one source\<close>

lemma tables_ids: "tables_ok db \<Longrightarrow> c \<in> set (db_chunks db) \<Longrightarrow> \<exists>r \<in> set (db_artifacts db). ch_artifact c = rw_id r"
  by (auto simp: tables_ok_def db_ids_def)

lemma find_append: "find P (xs @ ys) = (case find P xs of None \<Rightarrow> find P ys | Some x \<Rightarrow> Some x)"
  by (induction xs) simp_all

lemma recorded_found: "find (\<lambda>s. st_path s = st_path st) (db_sources (record_status st db)) = Some st"
proof (cases "st_path st \<in> st_path ` set (db_sources db)")
  case True
  moreover have "find (\<lambda>s. st_path s = st_path st) (map (\<lambda>s. if st_path s = st_path st then st else s) ss) = Some st"
    if "st_path st \<in> st_path ` set ss" for ss
    using that by (induction ss) auto
  ultimately show ?thesis
    by (simp add: record_status_def)
next
  case False
  have "st_path s \<noteq> st_path st" if "s \<in> set (db_sources db)" for s
    using False that by (intro notI) (erule notE, erule subst, rule imageI)
  then have "find (\<lambda>s. st_path s = st_path st) (db_sources db) = None"
    unfolding find_None_iff by blast
  with False show ?thesis
    by (simp add: record_status_def find_append)
qed

lemma filter_split:
  assumes "\<forall>x \<in> set xs. \<not> Q x" "\<forall>y \<in> set ys. Q y"
  shows "filter Q (xs @ ys) = ys" "filter (\<lambda>x. \<not> Q x) (xs @ ys) = xs"
  using assms by (simp_all add: filter_empty_conv filter_id_conv)

lemma recorded_unchanged:
  "st_path st = path \<Longrightarrow> source_unchanged path fp (record_status st db) \<longleftrightarrow> st_fingerprint st = fp"
  using recorded_found [of st db] by (auto simp: source_unchanged_def)

lemma replace_source_exact:
  assumes "replace_source env path fp as db = Some db'" "db_ok db" "\<forall>a \<in> set as. ar_source a = path"
  shows "filter (\<lambda>r. rw_source r = path) (db_artifacts db') = map (row_of env) as
    \<and> filter (\<lambda>r. rw_source r \<noteq> path) (db_artifacts db') = filter (\<lambda>r. rw_source r \<noteq> path) (db_artifacts db)
    \<and> filter (\<lambda>c. ch_artifact c \<in> source_ids path db') (db_chunks db') = concat (map (\<lambda>a. artifact_chunks a 3200) as)
    \<and> filter (\<lambda>c. ch_artifact c \<notin> source_ids path db') (db_chunks db') = filter (\<lambda>c. ch_artifact c \<notin> source_ids path db) (db_chunks db)
    \<and> source_unchanged path fp db'"
proof -
  from replace_source_steps [OF assms(1)] obtain d where
    d: "insert_all (insert_artifact env) as (delete_content path (delete_relations path db)) = Some d"
    "db' = record_status (indexed_status env path ''indexed'' fp as) d" .
  note c = insert_artifacts_content [OF d(1), unfolded delete_content_fields, simplified]
  have arts: "db_artifacts db' = filter (\<lambda>r. rw_source r \<noteq> path) (db_artifacts db) @ map (row_of env) as"
    and chunks: "db_chunks db' = filter (\<lambda>c. ch_artifact c \<notin> source_ids path db) (db_chunks db)
        @ concat (map (\<lambda>a. artifact_chunks a 3200) as)"
    using c d(2) by simp_all
  have src: "rw_source (row_of env a) = path" if "a \<in> set as" for a
    using assms(3) that by (simp add: row_of_def)
  have ids: "source_ids path db' = ar_id ` set as"
    using src by (auto simp: source_ids_def arts row_of_def image_iff)
  have ok': "db_ok db'"
    by (rule replace_source_ok [OF assms])
  have old: "ch_artifact k \<notin> ar_id ` set as" if "k \<in> set (db_chunks db)" "ch_artifact k \<notin> source_ids path db" for k
  proof -
    have "tables_ok db"
      using assms(2) by (simp add: db_ok_def)
    from tables_ids [OF this \<open>k \<in> set (db_chunks db)\<close>] obtain r where
      r: "r \<in> set (db_artifacts db)" "ch_artifact k = rw_id r"
      by blast
    then have "rw_source r \<noteq> path"
      using that(2) by (auto simp: source_ids_def)
    then have "r \<in> set (db_artifacts db')" "rw_source r \<noteq> path"
      using r(1) by (simp_all add: arts)
    then have "rw_id r \<notin> source_ids path db'"
      using ok' source_ids_iff [of db' r path] by (simp add: db_ok_def tables_ok_def)
    then show ?thesis
      using r(2) ids by simp
  qed
  have new: "ch_artifact k \<in> ar_id ` set as" if "k \<in> set (concat (map (\<lambda>a. artifact_chunks a 3200) as))" for k
    using that chunks_of_artifact by fastforce
  have r: "\<forall>r \<in> set (filter (\<lambda>r. rw_source r \<noteq> path) (db_artifacts db)). rw_source r \<noteq> path"
    "\<forall>r \<in> set (map (row_of env) as). rw_source r = path"
    using src by simp_all
  have k: "\<forall>k \<in> set (filter (\<lambda>k. ch_artifact k \<notin> source_ids path db) (db_chunks db)). ch_artifact k \<notin> ar_id ` set as"
    using old by simp
  have k': "\<forall>k \<in> set (concat (map (\<lambda>a. artifact_chunks a 3200) as)). ch_artifact k \<in> ar_id ` set as"
    using new by blast
  have "source_unchanged path fp db'"
    by (simp add: d(2) indexed_status_def recorded_unchanged)
  then show ?thesis
    unfolding arts chunks ids by (intro conjI filter_split [OF r] filter_split [OF k k'])
qed

text \<open>C13: A successful replacement leaves for the source exactly the rows and chunks of the artifacts it was given, in order,
  leaves the rows and chunks of all other sources as they were, and remembers the fingerprint.\<close>

theorem replacement_exact:
  assumes "replace_source env path fp as db = Some db'" "db_ok db" "\<forall>a \<in> set as. ar_source a = path"
  shows "filter (\<lambda>r. rw_source r = path) (db_artifacts db') = map (row_of env) as
    \<and> filter (\<lambda>r. rw_source r \<noteq> path) (db_artifacts db') = filter (\<lambda>r. rw_source r \<noteq> path) (db_artifacts db)
    \<and> filter (\<lambda>c. ch_artifact c \<in> source_ids path db') (db_chunks db') = concat (map (\<lambda>a. artifact_chunks a 3200) as)
    \<and> filter (\<lambda>c. ch_artifact c \<notin> source_ids path db') (db_chunks db') = filter (\<lambda>c. ch_artifact c \<notin> source_ids path db) (db_chunks db)
    \<and> source_unchanged path fp db'"
  by (rule replace_source_exact [OF assms])

section \<open>Witnesses\<close>

definition demo_aw_env :: aw_env where
  "demo_aw_env = \<lparr>aw_sha = (\<lambda>b. []), aw_cwd = Some ''/'', aw_now = 1000, aw_json = (\<lambda>s. None),
     aw_time = (\<lambda>l s. None), aw_read = (\<lambda>p. if p = ''/w/plan.md'' then Some ''Use a WAL'' else None),
     aw_missing = (\<lambda>p. p \<noteq> ''/w/plan.md''), aw_mtime = (\<lambda>p. None), aw_tree = (\<lambda>p. None)\<rparr>"

definition demo_artifact :: artifact where
  "demo_artifact = blank_artifact\<lparr>ar_id := ''i1'', ar_agent := ''claude'', ar_kind := ''plan'', ar_workspace := ''/w'', ar_title := ''Plan'',
     ar_source := ''/w/plan.md'', ar_updated := 500, ar_text := ''Use a WAL''\<rparr>"

definition no_faults :: db_faults where
  "no_faults = \<lparr>df_cancelled = (\<lambda>p. False), df_lookup = (\<lambda>p. False), df_replace = (\<lambda>p. False), df_status = (\<lambda>p. False),
     df_listing = False, df_prune = (\<lambda>p. False)\<rparr>"

definition demo_index :: aw_db where
  "demo_index = fst (snd (sync demo_aw_env no_faults [demo_artifact] [] empty_db))"

lemma demo_index_state: "index_state demo_index"
  unfolding demo_index_def by (metis index_synced index_empty prod.collapse)

lemma demo_index_rows: "map ch_body (db_chunks demo_index) = [''Use a WAL'']"
  by code_simp

lemma index_consistent_witness: "db_fts demo_index = map (\<lambda>c. (ch_ref c, ch_body c)) (db_chunks demo_index) \<and> db_chunks demo_index \<noteq> []"
  using index_consistent [OF demo_index_state] demo_index_rows by auto

lemma empty_db_ok: "db_ok empty_db"
  by (rule index_state_ok [OF index_empty])

lemma demo_replaced: "\<exists>db'. replace_source demo_aw_env ''/w/plan.md'' ''f'' [demo_artifact] demo_index = Some db'"
proof -
  have "\<not> Option.is_none (replace_source demo_aw_env ''/w/plan.md'' ''f'' [demo_artifact] demo_index)"
    by code_simp
  then show ?thesis
    by (simp add: Option.is_none_def)
qed

lemma replacement_exact_witness:
  "\<exists>db'. replace_source demo_aw_env ''/w/plan.md'' ''f'' [demo_artifact] demo_index = Some db' \<and> source_unchanged ''/w/plan.md'' ''f'' db'"
proof -
  obtain db' where r: "replace_source demo_aw_env ''/w/plan.md'' ''f'' [demo_artifact] demo_index = Some db'"
    using demo_replaced by blast
  have "\<forall>a \<in> set [demo_artifact]. ar_source a = ''/w/plan.md''"
    by (simp add: demo_artifact_def)
  from replacement_exact [OF r index_state_ok [OF demo_index_state] this] r show ?thesis
    by blast
qed

section \<open>Consequences\<close>

text \<open>
  An error is recorded over the state of a source that was indexed. Such a source is not looked at by the pruning any
  more: its chunks stay searchable, also once the file is gone.
\<close>

lemma broken_source_stays:
  "let (_, db, ok) = sync demo_aw_env no_faults [] [sync_error demo_aw_env ''claude'' ''/w/plan.md''] demo_index;
       (_, db2, ok2) = sync (demo_aw_env\<lparr>aw_missing := (\<lambda>p. True)\<rparr>) no_faults [] [] db
   in ok \<and> ok2 \<and> map ch_body (db_chunks db2) = [''Use a WAL'']"
  "let (_, db2, ok2) = sync (demo_aw_env\<lparr>aw_missing := (\<lambda>p. True)\<rparr>) no_faults [] [] demo_index
   in ok2 \<and> db_chunks db2 = []"
  by code_simp+

text \<open>
  A source whose artifacts share an identifier is not indexed at all: so it is with a file found below two configured
  roots, one within the other.
\<close>

lemma insert_all_ids:
  "insert_all (insert_artifact env) as db = Some db' \<Longrightarrow> distinct (map ar_id as) \<and> ar_id ` set as \<inter> db_ids db = {}"
proof (induction as arbitrary: db)
  case (Cons a as)
  then obtain d where d: "insert_artifact env a db = Some d" "insert_all (insert_artifact env) as d = Some db'"
    by (auto split: bind_splits)
  have "db_ids d = insert (ar_id a) (db_ids db)" "ar_id a \<notin> db_ids db"
    using insert_artifact_content [OF d(1)] by (simp_all add: db_ids_def row_of_def)
  with Cons.IH [OF d(2)] show ?case
    by auto
qed simp

lemma duplicate_not_indexed: "replace_source env path fp [a, a] db = None"
proof (cases "replace_source env path fp [a, a] db")
  case (Some db')
  then obtain d where "insert_all (insert_artifact env) [a, a] (delete_content path (delete_relations path db)) = Some d"
    by (rule replace_source_steps)
  from insert_all_ids [OF this] show ?thesis
    by simp
qed

lemma overlapping_roots: "map st_state (fst (sync demo_aw_env no_faults [demo_artifact, demo_artifact] [] empty_db)) = [''error'']"
  by code_simp

text \<open>Pruning leaves the spawn relations of the artifacts it takes away.\<close>

lemma prune_keeps_relations: "db_relations (prune_one path db) = db_relations db"
  by (simp add: prune_one_def delete_content_def Let_def)

end
