(* ===== verification/Agentweave_Serve.thy ===== *)
theory Agentweave_Serve
  imports Agentweave_Adapters Agentweave_Search
begin

text \<open>
  AgentWeave's daemon and its MCP facade: \<^verbatim>\<open>agentweave/daemon/daemon.go\<close>, \<^verbatim>\<open>agentweave/mcpserver/server.go\<close> and
  \<^verbatim>\<open>agentweave/local/local.go\<close>. Requests, polls and connections are events that are handled one after another; what
  is sent is the value before it is encoded. The parent client's sampling is a parameter.
\<close>

section \<open>Paths and service (\<^verbatim>\<open>local.go\<close>)\<close>

record aw_paths =
  pa_home :: string
  pa_data :: string
  pa_db :: string
  pa_socket :: string
  pa_pid :: string
  pa_log :: string

text \<open>\<^verbatim>\<open>Resolve\<close>: the home and data directory given, those of the environment, the default.\<close>

definition resolve_paths :: "string option \<Rightarrow> string \<Rightarrow> bool \<Rightarrow> string \<Rightarrow> string \<Rightarrow> string \<Rightarrow> aw_paths option" where
  "resolve_paths user_home env_data darwin xdg home data =
     (case (if home = [] then user_home else Some home) of
        None \<Rightarrow> None
      | Some h \<Rightarrow>
          (let d0 = (if data = [] then env_data else data);
               d = clean (if d0 = [] then default_data_dir darwin xdg h else d0)
           in Some \<lparr>pa_home = h, pa_data = d, pa_db = path_join [d, ''index.sqlite''], pa_socket = path_join [d, ''agentweave.sock''],
                pa_pid = path_join [d, ''agentweaved.pid''], pa_log = path_join [d, ''agentweaved.log'']\<rparr>))"

definition service_options :: "aw_paths \<Rightarrow> aw_config \<Rightarrow> scan_options" where
  "service_options p c = \<lparr>so_home = pa_home p, so_roots = cf_roots c, so_deny = cf_deny c, so_workflows = Some (workflows_enabled c)\<rparr>"

datatype open_error = Bad_config config_error | No_index

definition open_service :: "aw_env \<Rightarrow> aw_db option \<Rightarrow> aw_paths \<Rightarrow> open_error + aw_db \<times> scan_options \<times> aw_config" where
  "open_service env stored p =
     (case load_config env (path_join [pa_data p, ''config.json'']) of
        Inl e \<Rightarrow> Inl (Bad_config e)
      | Inr c \<Rightarrow> (case stored of None \<Rightarrow> Inl No_index | Some db \<Rightarrow> Inr (db, service_options p c, c)))"

definition service_sync :: "aw_host \<Rightarrow> db_faults \<Rightarrow> scan_options \<Rightarrow> aw_db \<Rightarrow> source_status list \<times> aw_db \<times> bool" where
  "service_sync h fl opt db = (case scan_stores h opt of (as, sts) \<Rightarrow> sync (ho_env h) fl as sts db)"

definition sync_once :: "aw_host \<Rightarrow> db_faults \<Rightarrow> aw_db option \<Rightarrow> aw_paths \<Rightarrow> open_error + source_status list \<times> aw_db \<times> bool" where
  "sync_once h fl stored p = (case open_service (ho_env h) stored p of Inl e \<Rightarrow> Inl e | Inr (db, opt, _) \<Rightarrow> Inr (service_sync h fl opt db))"

section \<open>The daemon's requests (\<^verbatim>\<open>daemon.go\<close>)\<close>

datatype daemon_error = Bad_params | Unknown_method | Refused search_error | Failed_sync | Failed_query

datatype daemon_result = Statuses "source_status list" | Results "search_result list" | Dossier evidence_dossier
  | Stats "(string \<times> nat) list"

record daemon_request =
  dr_id :: string
  dr_method :: string
  dr_params :: "jval option"

record daemon_response =
  ds_id :: string
  ds_outcome :: "daemon_error + daemon_result"

definition decode_search :: "jval \<Rightarrow> search_request option" where
  "decode_search v =
     (case (decode_field ''workspace'' decode_string [] v, decode_field ''query'' decode_string [] v,
            decode_field ''agents'' (decode_slice decode_string) [] v, decode_field ''kinds'' (decode_slice decode_string) [] v,
            decode_field ''limit'' decode_int 0 v, decode_field ''include_global'' decode_bool False v) of
        (Some w, Some q, Some as, Some ks, Some n, Some g) \<Rightarrow>
          (case decode_field ''include_user_workflows'' decode_bool False v of
             None \<Rightarrow> None
           | Some u \<Rightarrow> Some \<lparr>sq_workspace = w, sq_query = q, sq_agents = as, sq_kinds = ks, sq_limit = n, sq_global = g, sq_user = u\<rparr>)
      | _ \<Rightarrow> None)"

record read_params =
  rp_workspace :: string
  rp_refs :: "string list"
  rp_bound :: int
  rp_user :: bool

definition decode_read :: "jval \<Rightarrow> read_params option" where
  "decode_read v =
     (case (decode_field ''workspace'' decode_string [] v, decode_field ''refs'' (decode_slice decode_string) [] v,
            decode_field ''max_bytes'' decode_int 0 v, decode_field ''include_user_workflows'' decode_bool False v) of
        (Some w, Some rs, Some n, Some u) \<Rightarrow> Some \<lparr>rp_workspace = w, rp_refs = rs, rp_bound = n, rp_user = u\<rparr>
      | _ \<Rightarrow> None)"

definition decode_synthesis :: "jval \<Rightarrow> synthesis_request option" where
  "decode_synthesis v =
     (case (decode_field ''workspace'' decode_string [] v, decode_field ''question'' decode_string [] v,
            decode_field ''selection'' (decode_slice decode_string) [] v, decode_field ''detail'' decode_string [] v,
            decode_field ''generation'' decode_string [] v) of
        (Some w, Some q, Some s, Some d, Some g) \<Rightarrow>
          Some \<lparr>sy_workspace = w, sy_question = q, sy_selection = s, sy_detail = d, sy_generation = g\<rparr>
      | _ \<Rightarrow> None)"

definition refused_or :: "('a \<Rightarrow> daemon_result) \<Rightarrow> search_error + 'a \<Rightarrow> daemon_error + daemon_result" where
  "refused_or f r = (case r of Inl e \<Rightarrow> Inl (Refused e) | Inr x \<Rightarrow> Inr (f x))"

definition outcome :: "aw_host \<Rightarrow> sql_engine \<Rightarrow> string \<Rightarrow> jval option \<Rightarrow> aw_db \<Rightarrow> daemon_error + daemon_result" where
  "outcome h en method params db =
     (let env = ho_env h in
      if method = ''search'' then (case Option.bind params decode_search of
          None \<Rightarrow> Inl Bad_params | Some q \<Rightarrow> refused_or Results (search env en q db))
      else if method = ''read'' then (case Option.bind params decode_read of
          None \<Rightarrow> Inl Bad_params
        | Some q \<Rightarrow> refused_or Results (read_scoped_user env en (rp_workspace q) (rp_refs q) (rp_bound q) False (rp_user q) db))
      else if method = ''dossier'' then (case Option.bind params decode_synthesis of
          None \<Rightarrow> Inl Bad_params | Some q \<Rightarrow> refused_or Dossier (dossier env en q db))
      else if method = ''status'' then (if en_fails en then Inl Failed_query else Inr (Statuses (status db)))
      else if method = ''stats'' then (if en_fails en then Inl Failed_query else Inr (Stats (debug_stats db)))
      else Inl Unknown_method)"

definition handle :: "aw_host \<Rightarrow> db_faults \<Rightarrow> scan_options \<Rightarrow> sql_engine \<Rightarrow> daemon_request \<Rightarrow> aw_db \<Rightarrow> daemon_response \<times> aw_db" where
  "handle h fl opt en req db =
     (if dr_method req = ''sync'' then
        (case service_sync h fl opt db of (sts, db1, ok) \<Rightarrow>
          (\<lparr>ds_id = dr_id req, ds_outcome = (if ok then Inr (Statuses sts) else Inl Failed_sync)\<rparr>, db1))
      else (\<lparr>ds_id = dr_id req, ds_outcome = outcome h en (dr_method req) (dr_params req) db\<rparr>, db))"

text \<open>A connection: its requests until one cannot be decoded (\<open>None\<close>) or its response cannot be sent.\<close>

fun serve_connection :: "aw_host \<Rightarrow> db_faults \<Rightarrow> scan_options \<Rightarrow> sql_engine \<Rightarrow> (daemon_request option \<times> bool) list \<Rightarrow> aw_db
    \<Rightarrow> daemon_response list \<times> aw_db" where
  "serve_connection h fl opt en [] db = ([], db)"
| "serve_connection h fl opt en ((None, sent) # rs) db = ([], db)"
| "serve_connection h fl opt en ((Some req, sent) # rs) db =
     (case handle h fl opt en req db of (resp, db1) \<Rightarrow>
        if \<not> sent then ([], db1)
        else (case serve_connection h fl opt en rs db1 of (resps, db2) \<Rightarrow> (resp # resps, db2)))"

text \<open>Before it listens the daemon replaces a stale socket, and nothing but a socket.\<close>

datatype socket_file = No_file | Is_socket | Other_file | Unknown_file

datatype listen_error = No_directory | Not_a_socket | Not_removed | Not_examined | Not_bound | Not_private

definition listen :: "bool \<Rightarrow> socket_file \<Rightarrow> bool \<Rightarrow> bool \<Rightarrow> bool \<Rightarrow> listen_error + bool" where
  "listen made found removed bound private =
     (if \<not> made then Inl No_directory
      else case found of
          Other_file \<Rightarrow> Inl Not_a_socket
        | Unknown_file \<Rightarrow> Inl Not_examined
        | _ \<Rightarrow> if found = Is_socket \<and> \<not> removed then Inl Not_removed
            else if \<not> bound then Inl Not_bound
            else if \<not> private then Inl Not_private
            else Inr (found = Is_socket))"

text \<open>\<^verbatim>\<open>ServeWithPoll\<close>: a synchronisation first, then the ticks and connections as they come, until the context is done.\<close>

datatype serve_event = Poll_tick | Connection "(daemon_request option \<times> bool) list" | Accept_error | Context_closed

fun serve_events :: "aw_host \<Rightarrow> db_faults \<Rightarrow> scan_options \<Rightarrow> sql_engine \<Rightarrow> serve_event list \<Rightarrow> aw_db
    \<Rightarrow> daemon_response list list \<times> aw_db \<times> bool" where
  "serve_events h fl opt en [] db = ([], db, True)"
| "serve_events h fl opt en (Poll_tick # es) db = serve_events h fl opt en es (fst (snd (service_sync h fl opt db)))"
| "serve_events h fl opt en (Connection rs # es) db =
     (case serve_connection h fl opt en rs db of (resps, db1) \<Rightarrow>
        (case serve_events h fl opt en es db1 of (out, db2, ok) \<Rightarrow> (resps # out, db2, ok)))"
| "serve_events h fl opt en (Accept_error # es) db = ([], db, False)"
| "serve_events h fl opt en (Context_closed # es) db = ([], db, True)"

definition poll_interval :: "int \<Rightarrow> int" where
  "poll_interval n = (if n \<le> 0 then 30 else n)"

definition serve_with_poll :: "aw_host \<Rightarrow> db_faults \<Rightarrow> scan_options \<Rightarrow> sql_engine \<Rightarrow> serve_event list \<Rightarrow> aw_db
    \<Rightarrow> daemon_response list list \<times> aw_db \<times> bool" where
  "serve_with_poll h fl opt en es db = serve_events h fl opt en es (fst (snd (service_sync h fl opt db)))"

section \<open>The MCP facade (\<^verbatim>\<open>server.go\<close>)\<close>

text \<open>A client of the daemon: the call's outcome, \<open>Inl None\<close> where the connection fails.\<close>

definition client_call :: "bool \<Rightarrow> daemon_error + daemon_result \<Rightarrow> daemon_error option + daemon_result" where
  "client_call linked r = (if \<not> linked then Inl None else case r of Inl e \<Rightarrow> Inl (Some e) | Inr x \<Rightarrow> Inr x)"

datatype tool_error = Missing_params | Invalid_params | Backend_error "daemon_error option" | Sampling_denied | Sampling_not_text
  | Citations_omitted | Citation_unknown string

text \<open>The references an answer cites, as the regular expression \<^verbatim>\<open>\[(aw:[^\]]+)\]\<close> finds them from the left.\<close>

function citations :: "string \<Rightarrow> string list" where
  "citations [] = []"
| "citations (c # s) =
     (let body = takeWhile (\<lambda>x. x \<noteq> CHR '']'') (drop 3 s); after = dropWhile (\<lambda>x. x \<noteq> CHR '']'') (drop 3 s) in
      if c = CHR ''['' \<and> has_prefix s ''aw:'' \<and> body \<noteq> [] \<and> after \<noteq> [] then (''aw:'' @ body) # citations (tl after)
      else citations s)"
  by pat_completeness auto
termination
proof (relation "measure length")
  fix c s body after
  assume "after = dropWhile (\<lambda>x. x \<noteq> CHR '']'') (drop 3 s)"
  then have "length after \<le> length s"
    using length_dropWhile_le [of "\<lambda>x. x \<noteq> CHR '']''" "drop 3 s"] by simp
  then show "(tl after, c # s) \<in> measure length"
    by (simp add: le_imp_less_Suc le_diff_conv)
qed simp_all

definition validate_citations :: "string \<Rightarrow> search_result list \<Rightarrow> tool_error option" where
  "validate_citations answer evidence =
     (let found = citations answer in
      if evidence \<noteq> [] \<and> found = [] then Some Citations_omitted
      else map_option Citation_unknown (find (\<lambda>m. m \<notin> sr_ref ` set evidence) found))"

definition evidence_refs :: "search_result list \<Rightarrow> string list" where
  "evidence_refs rs = sort (map sr_ref rs)"

definition is_sample_generation :: "string \<Rightarrow> bool" where
  "is_sample_generation s \<longleftrightarrow> trim_space s = ''sample''"

text \<open>The interface the handlers use; a backend need not read user workflows.\<close>

type_synonym 'a reply = "daemon_error option + 'a"

record mcp_backend =
  be_search :: "search_request \<Rightarrow> search_result list reply"
  be_read :: "string \<Rightarrow> string list \<Rightarrow> int \<Rightarrow> search_result list reply"
  be_read_user :: "(string \<Rightarrow> string list \<Rightarrow> int \<Rightarrow> bool \<Rightarrow> search_result list reply) option"
  be_dossier :: "synthesis_request \<Rightarrow> evidence_dossier reply"
  be_status :: "source_status list reply"

datatype tool_answer = Tool_results "search_result list" | Tool_dossier evidence_dossier | Tool_statuses "source_status list"
  | Tool_synthesis string string "search_result list"

definition arguments :: "jval option option \<Rightarrow> (jval \<Rightarrow> 'a option) \<Rightarrow> tool_error + 'a" where
  "arguments params dec = (case params of None \<Rightarrow> Inl Missing_params
     | Some v \<Rightarrow> (case Option.bind v dec of None \<Rightarrow> Inl Invalid_params | Some x \<Rightarrow> Inr x))"

definition answer_with :: "('a \<Rightarrow> tool_answer) \<Rightarrow> 'a reply \<Rightarrow> tool_error + tool_answer" where
  "answer_with f r = (case r of Inl e \<Rightarrow> Inl (Backend_error e) | Inr x \<Rightarrow> Inr (f x))"

definition decode_tool_search :: "jval \<Rightarrow> search_request option" where
  "decode_tool_search v =
     (let filters = (\<lambda>f. case (decode_field ''agents'' (decode_slice decode_string) [] f, decode_field ''kinds'' (decode_slice decode_string) [] f,
            decode_field ''include_global'' decode_bool False f, decode_field ''include_user_workflows'' decode_bool False f) of
            (Some as, Some ks, Some g, Some u) \<Rightarrow> Some (as, ks, g, u) | _ \<Rightarrow> None)
      in case (decode_field ''workspace'' decode_string [] v, decode_field ''query'' decode_string [] v,
            decode_field ''filters'' filters ([], [], False, False) v, decode_field ''limit'' decode_int 0 v) of
          (Some w, Some q, Some (as, ks, g, u), Some n) \<Rightarrow>
            Some \<lparr>sq_workspace = w, sq_query = q, sq_agents = as, sq_kinds = ks, sq_limit = n, sq_global = g, sq_user = u\<rparr>
        | _ \<Rightarrow> None)"

definition search_handler :: "mcp_backend \<Rightarrow> jval option option \<Rightarrow> tool_error + tool_answer" where
  "search_handler be params = (case arguments params decode_tool_search of
     Inl e \<Rightarrow> Inl e | Inr q \<Rightarrow> answer_with Tool_results (be_search be q))"

definition read_handler :: "mcp_backend \<Rightarrow> jval option option \<Rightarrow> tool_error + tool_answer" where
  "read_handler be params =
     (case arguments params decode_read of
        Inl e \<Rightarrow> Inl e
      | Inr q \<Rightarrow> answer_with Tool_results (case be_read_user be of
            Some f \<Rightarrow> f (rp_workspace q) (rp_refs q) (rp_bound q) (rp_user q)
          | None \<Rightarrow> if rp_user q then Inl None else be_read be (rp_workspace q) (rp_refs q) (rp_bound q)))"

datatype sampled = Denied | No_text | Sampled string string

definition synthesize_handler :: "(string \<Rightarrow> sampled) \<Rightarrow> mcp_backend \<Rightarrow> jval option option \<Rightarrow> tool_error + tool_answer" where
  "synthesize_handler sample be params =
     (case arguments params decode_synthesis of
        Inl e \<Rightarrow> Inl e
      | Inr q \<Rightarrow> (case be_dossier be q of
          Inl e \<Rightarrow> Inl (Backend_error e)
        | Inr d \<Rightarrow>
            if sy_generation q = ''evidence'' then Inr (Tool_dossier d)
            else (case sample (do_prompt d) of
                Denied \<Rightarrow> Inl Sampling_denied
              | No_text \<Rightarrow> Inl Sampling_not_text
              | Sampled text model \<Rightarrow> (case validate_citations text (do_evidence d) of
                  Some e \<Rightarrow> Inl e
                | None \<Rightarrow> Inr (Tool_synthesis text model (do_evidence d))))))"

definition status_handler :: "mcp_backend \<Rightarrow> tool_error + tool_answer" where
  "status_handler be = answer_with Tool_statuses (be_status be)"

section \<open>The daemon as the backend\<close>

text \<open>What the client writes for a request, and the daemon's outcome as it comes back.\<close>

definition omit_empty :: "string \<Rightarrow> 'a \<Rightarrow> 'a \<Rightarrow> ('a \<Rightarrow> jval) \<Rightarrow> (string \<times> jval) list" where
  "omit_empty key zero x f = (if x = zero then [] else [(key, f x)])"

definition encode_search :: "search_request \<Rightarrow> jval" where
  "encode_search q = JV_obj ([(''workspace'', JV_str (sq_workspace q)), (''query'', JV_str (sq_query q))]
     @ omit_empty ''agents'' [] (sq_agents q) (\<lambda>as. JV_arr (map JV_str as))
     @ omit_empty ''kinds'' [] (sq_kinds q) (\<lambda>ks. JV_arr (map JV_str ks))
     @ omit_empty ''limit'' 0 (sq_limit q) (\<lambda>n. JV_num (show_int n))
     @ omit_empty ''include_global'' False (sq_global q) JV_bool
     @ omit_empty ''include_user_workflows'' False (sq_user q) JV_bool)"

definition encode_read :: "read_params \<Rightarrow> jval" where
  "encode_read q = JV_obj ([(''workspace'', JV_str (rp_workspace q)), (''refs'', JV_arr (map JV_str (rp_refs q)))]
     @ omit_empty ''max_bytes'' 0 (rp_bound q) (\<lambda>n. JV_num (show_int n))
     @ omit_empty ''include_user_workflows'' False (rp_user q) JV_bool)"

definition encode_synthesis :: "synthesis_request \<Rightarrow> jval" where
  "encode_synthesis q = JV_obj ([(''workspace'', JV_str (sy_workspace q)), (''question'', JV_str (sy_question q))]
     @ omit_empty ''selection'' [] (sy_selection q) (\<lambda>ss. JV_arr (map JV_str ss))
     @ omit_empty ''detail'' [] (sy_detail q) JV_str
     @ [(''generation'', JV_str (sy_generation q))])"

definition expect :: "(daemon_result \<Rightarrow> 'a option) \<Rightarrow> daemon_error option + daemon_result \<Rightarrow> 'a reply" where
  "expect f r = (case r of Inl e \<Rightarrow> Inl e | Inr x \<Rightarrow> (case f x of None \<Rightarrow> Inl None | Some y \<Rightarrow> Inr y))"

definition as_results :: "daemon_result \<Rightarrow> search_result list option" where
  "as_results x = (case x of Results rs \<Rightarrow> Some rs | _ \<Rightarrow> None)"

definition as_dossier :: "daemon_result \<Rightarrow> evidence_dossier option" where
  "as_dossier x = (case x of Dossier d \<Rightarrow> Some d | _ \<Rightarrow> None)"

definition as_statuses :: "daemon_result \<Rightarrow> source_status list option" where
  "as_statuses x = (case x of Statuses ss \<Rightarrow> Some ss | _ \<Rightarrow> None)"

definition daemon_call :: "aw_host \<Rightarrow> sql_engine \<Rightarrow> bool \<Rightarrow> aw_db \<Rightarrow> string \<Rightarrow> jval \<Rightarrow> daemon_error option + daemon_result" where
  "daemon_call h en linked db method params = client_call linked (outcome h en method (Some params) db)"

definition client_read :: "aw_host \<Rightarrow> sql_engine \<Rightarrow> bool \<Rightarrow> aw_db \<Rightarrow> string \<Rightarrow> string list \<Rightarrow> int \<Rightarrow> bool \<Rightarrow> search_result list reply" where
  "client_read h en linked db ws refs n user = expect as_results (daemon_call h en linked db ''read''
     (encode_read \<lparr>rp_workspace = ws, rp_refs = refs, rp_bound = n, rp_user = user\<rparr>))"

definition daemon_client :: "aw_host \<Rightarrow> sql_engine \<Rightarrow> bool \<Rightarrow> aw_db \<Rightarrow> mcp_backend" where
  "daemon_client h en linked db =
     \<lparr>be_search = (\<lambda>q. expect as_results (daemon_call h en linked db ''search'' (encode_search q))),
      be_read = (\<lambda>ws refs n. client_read h en linked db ws refs n False),
      be_read_user = Some (client_read h en linked db),
      be_dossier = (\<lambda>q. expect as_dossier (daemon_call h en linked db ''dossier'' (encode_synthesis q))),
      be_status = expect as_statuses (daemon_call h en linked db ''status'' (JV_obj []))\<rparr>"

section \<open>The index under service\<close>

lemma service_sync_state:
  assumes "index_state db"
  shows "index_state (fst (snd (service_sync h fl opt db)))"
proof -
  obtain as sts where a: "scan_stores h opt = (as, sts)"
    by fastforce
  obtain s d ok where s: "sync (ho_env h) fl as sts db = (s, d, ok)"
    by (metis prod_cases3)
  from index_synced [OF assms s] show ?thesis
    by (simp add: service_sync_def a s)
qed

lemma handle_state: "index_state db \<Longrightarrow> index_state (snd (handle h fl opt en req db))"
  using service_sync_state [of db h fl opt] by (auto simp: handle_def split: prod.splits)

lemma serve_connection_state: "index_state db \<Longrightarrow> index_state (snd (serve_connection h fl opt en rs db))"
proof (induction h fl opt en rs db rule: serve_connection.induct)
  case (3 h fl opt en req sent rs db)
  obtain resp d where d: "handle h fl opt en req db = (resp, d)"
    by fastforce
  have "index_state d"
    using handle_state [OF "3.prems", of h fl opt en req] d by simp
  with "3.IH" d show ?case
    by (cases sent) (auto split: prod.splits)
qed simp_all

lemma serve_events_state: "index_state db \<Longrightarrow> index_state (fst (snd (serve_events h fl opt en es db)))"
proof (induction h fl opt en es db rule: serve_events.induct)
  case (3 h fl opt en rs es db)
  obtain resps d where d: "serve_connection h fl opt en rs db = (resps, d)"
    by fastforce
  have "index_state d"
    using serve_connection_state [OF "3.prems", of h fl opt en rs] d by simp
  with "3.IH" d show ?case
    by (auto split: prod.splits)
qed (simp_all add: service_sync_state)

text \<open>However the daemon's polls and connections follow one another, what its requests hold and whatever fails, the index it
  leaves is one that synchronisations lead to.\<close>

theorem service_keeps_index:
  "index_state db \<Longrightarrow> index_state (fst (snd (serve_with_poll h fl opt en es db)))"
  by (simp add: serve_with_poll_def serve_events_state service_sync_state)

section \<open>Requests over the socket\<close>

lemma field_exact: "\<forall>k \<in> fst ` set kvs. equal_fold k n \<longrightarrow> k = n \<Longrightarrow> field n kvs = map_of kvs n"
proof -
  assume a: "\<forall>k \<in> fst ` set kvs. equal_fold k n \<longrightarrow> k = n"
  have "find (\<lambda>(k, v). equal_fold k n) kvs = None" if "map_of kvs n = None"
    using that a by (auto simp: find_None_iff map_of_eq_None_iff)
  then show ?thesis
    by (auto simp: field_def split: option.split)
qed

definition lower_keys :: "string list \<Rightarrow> bool" where
  "lower_keys ks \<longleftrightarrow> list_all (\<lambda>k. to_lower k = k) ks"

lemma decode_present:
  assumes "lower_keys ks" "fst ` set kvs \<subseteq> set ks" "n \<in> set ks"
  shows "decode_field n dec zero (JV_obj kvs) = (case map_of kvs n of None \<Rightarrow> Some zero | Some x \<Rightarrow> dec x)"
proof -
  have "field n kvs = map_of kvs n"
    using assms by (intro field_exact) (auto simp: lower_keys_def equal_fold_def list_all_iff subset_iff)
  then show ?thesis
    by (simp add: decode_field_def)
qed

lemma omit_empty_keys: "fst ` set (omit_empty k zero x f) \<subseteq> {k}"
  by (simp add: omit_empty_def)

lemma map_of_omit_empty: "map_of (omit_empty k zero x f @ r) n = (if n = k \<and> x \<noteq> zero then Some (f x) else map_of r n)"
  by (simp add: omit_empty_def)

lemma map_of_omit_last: "map_of (omit_empty k zero x f) n = (if n = k \<and> x \<noteq> zero then Some (f x) else None)"
  by (simp add: omit_empty_def)

lemma decode_strings: "decode_slice decode_string (JV_arr (map JV_str ss)) = Some ss"
proof -
  have "those (map (decode_string \<circ> JV_str) ss) = Some ss"
    by (induction ss) (simp_all add: decode_string_def)
  then show ?thesis
    by (simp add: decode_slice_def)
qed

definition int64 :: "int \<Rightarrow> bool" where
  "int64 n \<longleftrightarrow> - max_int64 - 1 \<le> n \<and> n \<le> max_int64"

lemma decode_shown: "int64 n \<Longrightarrow> decode_int (JV_num (show_int n)) = Some n"
  by (simp add: decode_int_def int64_def atoi_show_int)

lemma decode_int_range: "decode_int v = Some n \<Longrightarrow> int64 n"
  using atoi_range by (auto simp: decode_int_def int64_def max_int64_def split: jval.splits prod.splits if_splits) (metis fst_conv)+

definition search_keys :: "string list" where
  "search_keys = [''workspace'', ''query'', ''agents'', ''kinds'', ''limit'', ''include_global'', ''include_user_workflows'']"

lemma search_keys_lower: "lower_keys search_keys"
  by code_simp

lemma encode_search_back:
  assumes "int64 (sq_limit q)"
  shows "decode_search (encode_search q) = Some q"
proof -
  obtain kvs where e: "encode_search q = JV_obj kvs" and kvs: "kvs = [(''workspace'', JV_str (sq_workspace q)), (''query'', JV_str (sq_query q))]
     @ omit_empty ''agents'' [] (sq_agents q) (\<lambda>as. JV_arr (map JV_str as))
     @ omit_empty ''kinds'' [] (sq_kinds q) (\<lambda>ks. JV_arr (map JV_str ks))
     @ omit_empty ''limit'' 0 (sq_limit q) (\<lambda>n. JV_num (show_int n))
     @ omit_empty ''include_global'' False (sq_global q) JV_bool
     @ omit_empty ''include_user_workflows'' False (sq_user q) JV_bool"
    by (simp add: encode_search_def)
  have sub: "fst ` set kvs \<subseteq> set search_keys"
    unfolding kvs set_append image_Un by (intro Un_least order_trans [OF omit_empty_keys]) (simp_all add: search_keys_def)
  note d = decode_present [OF search_keys_lower sub]
  have f: "decode_field ''workspace'' decode_string [] (JV_obj kvs) = Some (sq_workspace q)"
    "decode_field ''query'' decode_string [] (JV_obj kvs) = Some (sq_query q)"
    "decode_field ''agents'' (decode_slice decode_string) [] (JV_obj kvs) = Some (sq_agents q)"
    "decode_field ''kinds'' (decode_slice decode_string) [] (JV_obj kvs) = Some (sq_kinds q)"
    "decode_field ''limit'' decode_int 0 (JV_obj kvs) = Some (sq_limit q)"
    "decode_field ''include_global'' decode_bool False (JV_obj kvs) = Some (sq_global q)"
    "decode_field ''include_user_workflows'' decode_bool False (JV_obj kvs) = Some (sq_user q)"
    by (subst d, simp add: search_keys_def,
        simp add: kvs map_of_omit_empty map_of_omit_last decode_string_def decode_strings decode_shown [OF assms] decode_bool_def
          del: map_of_append)+
  show ?thesis
    by (simp add: decode_search_def e f)
qed

definition read_keys :: "string list" where
  "read_keys = [''workspace'', ''refs'', ''max_bytes'', ''include_user_workflows'']"

lemma read_keys_lower: "lower_keys read_keys"
  by code_simp

lemma encode_read_back:
  assumes "int64 (rp_bound q)"
  shows "decode_read (encode_read q) = Some q"
proof -
  obtain kvs where e: "encode_read q = JV_obj kvs"
    and kvs: "kvs = [(''workspace'', JV_str (rp_workspace q)), (''refs'', JV_arr (map JV_str (rp_refs q)))]
     @ omit_empty ''max_bytes'' 0 (rp_bound q) (\<lambda>n. JV_num (show_int n))
     @ omit_empty ''include_user_workflows'' False (rp_user q) JV_bool"
    by (simp add: encode_read_def)
  have sub: "fst ` set kvs \<subseteq> set read_keys"
    unfolding kvs set_append image_Un by (intro Un_least order_trans [OF omit_empty_keys]) (simp_all add: read_keys_def)
  note d = decode_present [OF read_keys_lower sub]
  have "decode_field ''workspace'' decode_string [] (JV_obj kvs) = Some (rp_workspace q)"
    "decode_field ''refs'' (decode_slice decode_string) [] (JV_obj kvs) = Some (rp_refs q)"
    "decode_field ''max_bytes'' decode_int 0 (JV_obj kvs) = Some (rp_bound q)"
    "decode_field ''include_user_workflows'' decode_bool False (JV_obj kvs) = Some (rp_user q)"
    by (subst d, simp add: read_keys_def,
        simp add: kvs map_of_omit_empty map_of_omit_last decode_string_def decode_strings decode_shown [OF assms] decode_bool_def
          del: map_of_append)+
  then show ?thesis
    by (simp add: decode_read_def e)
qed

definition synthesis_keys :: "string list" where
  "synthesis_keys = [''workspace'', ''question'', ''selection'', ''detail'', ''generation'']"

lemma synthesis_keys_lower: "lower_keys synthesis_keys"
  by code_simp

lemma encode_synthesis_back: "decode_synthesis (encode_synthesis q) = Some q"
proof -
  obtain kvs where e: "encode_synthesis q = JV_obj kvs"
    and kvs: "kvs = [(''workspace'', JV_str (sy_workspace q)), (''question'', JV_str (sy_question q))]
     @ omit_empty ''selection'' [] (sy_selection q) (\<lambda>ss. JV_arr (map JV_str ss))
     @ omit_empty ''detail'' [] (sy_detail q) JV_str
     @ [(''generation'', JV_str (sy_generation q))]"
    by (simp add: encode_synthesis_def)
  have sub: "fst ` set kvs \<subseteq> set synthesis_keys"
    unfolding kvs set_append image_Un by (intro Un_least order_trans [OF omit_empty_keys]) (simp_all add: synthesis_keys_def)
  note d = decode_present [OF synthesis_keys_lower sub]
  have "decode_field ''workspace'' decode_string [] (JV_obj kvs) = Some (sy_workspace q)"
    "decode_field ''question'' decode_string [] (JV_obj kvs) = Some (sy_question q)"
    "decode_field ''selection'' (decode_slice decode_string) [] (JV_obj kvs) = Some (sy_selection q)"
    "decode_field ''detail'' decode_string [] (JV_obj kvs) = Some (sy_detail q)"
    "decode_field ''generation'' decode_string [] (JV_obj kvs) = Some (sy_generation q)"
    by (subst d, simp add: synthesis_keys_def,
        simp add: kvs map_of_omit_empty decode_string_def decode_strings del: map_of_append)+
  then show ?thesis
    by (simp add: decode_synthesis_def e)
qed

text \<open>Round trip: the daemon decodes the requests a client encodes to the same requests, with every field that was left out
  because it was empty; an integer has to fit 64 bits, as a Go integer does.\<close>

theorem requests_survive_socket:
  "int64 (sq_limit q) \<Longrightarrow> int64 (rp_bound r) \<Longrightarrow>
     decode_search (encode_search q) = Some q \<and> decode_read (encode_read r) = Some r \<and> decode_synthesis (encode_synthesis s) = Some s"
  by (simp add: encode_search_back encode_read_back encode_synthesis_back)

section \<open>What a client of the facade gets\<close>

lemma arguments_Inr: "arguments params dec = Inr x \<Longrightarrow> \<exists>v. params = Some (Some v) \<and> dec v = Some x"
  by (auto simp: arguments_def split: option.splits bind_splits)

lemma decode_int_field: "decode_field n decode_int 0 v = Some x \<Longrightarrow> int64 x"
  by (auto simp: decode_field_def int64_def max_int64_def split: jval.splits option.splits dest: decode_int_range [unfolded int64_def max_int64_def])

lemma decode_tool_search_range: "decode_tool_search v = Some q \<Longrightarrow> int64 (sq_limit q)"
  using decode_int_field by (auto simp: decode_tool_search_def Let_def split: option.splits prod.splits)

lemma decode_read_range: "decode_read v = Some q \<Longrightarrow> int64 (rp_bound q)"
  using decode_int_field by (auto simp: decode_read_def split: option.splits)

lemma client_search: "int64 (sq_limit q) \<Longrightarrow> be_search (daemon_client h en linked db) q = Inr rs \<Longrightarrow> search (ho_env h) en q db = Inr rs"
  by (auto simp: daemon_client_def daemon_call_def client_call_def expect_def outcome_def encode_search_back refused_or_def as_results_def
      split: if_splits sum.splits)

lemma client_read_result: "int64 n \<Longrightarrow> client_read h en linked db ws refs n user = Inr rs
    \<Longrightarrow> read_scoped_user (ho_env h) en ws refs n False user db = Inr rs"
  by (auto simp: client_read_def daemon_call_def client_call_def expect_def outcome_def encode_read_back refused_or_def as_results_def
      split: if_splits sum.splits)

lemma client_dossier: "be_dossier (daemon_client h en linked db) q = Inr d \<Longrightarrow> dossier (ho_env h) en q db = Inr d"
  by (auto simp: daemon_client_def daemon_call_def client_call_def expect_def outcome_def encode_synthesis_back refused_or_def as_dossier_def
      split: if_splits sum.splits)


lemma validate_citations_None:
  "validate_citations text ev = None \<Longrightarrow> set (citations text) \<subseteq> sr_ref ` set ev \<and> (ev = [] \<or> citations text \<noteq> [])"
  by (auto simp: validate_citations_def Let_def find_None_iff split: if_splits)

text \<open>C16: An answer of the client's model reaches the caller only if every reference it cites is one of the evidence sent along,
  if it cites any where there is evidence, and that evidence comes from the workspace of the request alone.\<close>

theorem synthesis_cites_evidence:
  "synthesize_handler sample (daemon_client h en linked db) params = Inr (Tool_synthesis text model ev) \<Longrightarrow>
     set (citations text) \<subseteq> sr_ref ` set ev \<and> (ev = [] \<or> citations text \<noteq> []) \<and>
     (\<exists>v q. params = Some (Some v) \<and> decode_synthesis v = Some q \<and> sy_generation q = ''sample'' \<and>
        list_all (\<lambda>r. sr_workspace r = canonical_workspace (aw_cwd (ho_env h)) (sy_workspace q)) ev)"
proof -
  assume a: "synthesize_handler sample (daemon_client h en linked db) params = Inr (Tool_synthesis text model ev)"
  obtain q where q: "arguments params decode_synthesis = Inr q"
    using a by (auto simp: synthesize_handler_def split: sum.splits)
  obtain d where d: "be_dossier (daemon_client h en linked db) q = Inr d"
    using a q by (auto simp: synthesize_handler_def split: sum.splits)
  have g: "sy_generation q \<noteq> ''evidence''" and s: "validate_citations text (do_evidence d) = None" "ev = do_evidence d"
    using a q d by (auto simp: synthesize_handler_def split: if_splits sampled.splits option.splits)
  from arguments_Inr [OF q] obtain v where v: "params = Some (Some v)" "decode_synthesis v = Some q"
    by blast
  note dd = client_dossier [OF d]
  have "sy_generation q = ''sample''"
    using dd g by (auto simp: dossier_def split: if_splits)
  with dossier_evidence [OF dd] validate_citations_None [OF s(1)] v s(2) show ?thesis
    by auto
qed

section \<open>Witnesses\<close>

definition demo_machine :: aw_host where
  "demo_machine = \<lparr>ho_env = demo_aw_env, ho_darwin = False, ho_stat_ok = (\<lambda>p. False), ho_cancelled = (\<lambda>p. False),
     ho_lstat = (\<lambda>p. Absent), ho_entries = (\<lambda>p. None), ho_real = (\<lambda>p. Absent), ho_raw = (\<lambda>d k. None), ho_marshal = (\<lambda>v. []),
     ho_threads = (\<lambda>p. None), ho_edges = (\<lambda>p. []), ho_goals = (\<lambda>p. None)\<rparr>"

definition demo_options :: scan_options where
  "demo_options = \<lparr>so_home = ''/h'', so_roots = [''/w''], so_deny = [], so_workflows = None\<rparr>"

lemma service_keeps_index_example:
  "index_state (fst (snd (serve_with_poll demo_machine no_faults demo_options demo_engine
     [Poll_tick, Connection [(Some \<lparr>dr_id = ''1'', dr_method = ''sync'', dr_params = None\<rparr>, True)], Context_closed] empty_db)))"
  by (rule service_keeps_index [OF index_empty])

lemma requests_survive_socket_example: "decode_search (encode_search demo_request) = Some demo_request"
proof -
  have "int64 (sq_limit demo_request)" "int64 (rp_bound \<lparr>rp_workspace = [], rp_refs = [], rp_bound = 5, rp_user = False\<rparr>)"
    by (simp_all add: int64_def max_int64_def demo_request_def)
  from requests_survive_socket [OF this] show ?thesis
    by blast
qed

definition demo_synthesis :: synthesis_request where
  "demo_synthesis = \<lparr>sy_workspace = ''/w'', sy_question = ''a wal'', sy_selection = [''aw:i1:0''], sy_detail = [],
     sy_generation = ''sample''\<rparr>"

definition demo_sample :: "string \<Rightarrow> sampled" where
  "demo_sample p = Sampled ''WAL [aw:i1:0]'' ''m''"

lemma demo_chunk_rows: "map (\<lambda>(c, a). (ch_ref c, rw_workspace a)) (chunk_rows demo_index) = [(''aw:i1:0'', ''/w'')]"
  by code_simp

lemma demo_citations: "citations ''WAL [aw:i1:0]'' = [''aw:i1:0'']"
  by code_simp

lemma demo_dossier: "\<exists>d. dossier demo_aw_env demo_engine demo_synthesis demo_index = Inr d \<and> map sr_ref (do_evidence d) = [''aw:i1:0'']"
proof -
  obtain c a where r: "chunk_rows demo_index = [(c, a)]" and c: "ch_ref c = ''aw:i1:0''" "rw_workspace a = ''/w''"
    using demo_chunk_rows by (auto simp: map_eq_Cons_conv)
  have "read_scoped demo_aw_env demo_engine ''/w'' [''aw:i1:0''] 24576 False demo_index
      = Inr (read_bytes 24576 [(c, a)])"
    using demo_query(1) by (simp add: read_scoped_def read_scoped_user_def r c in_scope_def read_budget_def demo_engine_def)
  then show ?thesis
    using demo_query(3) c by (simp add: dossier_def demo_synthesis_def Let_def case_prod_beta deduplicate_evidence_def result_of_def)
qed

lemma synthesis_cites_evidence_witness:
  "\<exists>ev. synthesize_handler demo_sample (daemon_client demo_machine demo_engine True demo_index) (Some (Some (encode_synthesis demo_synthesis)))
       = Inr (Tool_synthesis ''WAL [aw:i1:0]'' ''m'' ev)
     \<and> set (citations ''WAL [aw:i1:0]'') \<subseteq> sr_ref ` set ev \<and> ev \<noteq> []"
proof -
  obtain d where d: "dossier demo_aw_env demo_engine demo_synthesis demo_index = Inr d" "map sr_ref (do_evidence d) = [''aw:i1:0'']"
    using demo_dossier by (elim exE conjE)
  then obtain e where e: "do_evidence d = [e]" "sr_ref e = ''aw:i1:0''"
    by (auto simp: map_eq_Cons_conv)
  have "be_dossier (daemon_client demo_machine demo_engine True demo_index) demo_synthesis = Inr d"
    using d(1) by (simp add: daemon_client_def daemon_call_def client_call_def expect_def outcome_def encode_synthesis_back refused_or_def
        as_dossier_def demo_machine_def)
  then have s: "synthesize_handler demo_sample (daemon_client demo_machine demo_engine True demo_index) (Some (Some (encode_synthesis demo_synthesis)))
       = Inr (Tool_synthesis ''WAL [aw:i1:0]'' ''m'' [e])"
    using e by (simp add: synthesize_handler_def arguments_def encode_synthesis_back demo_sample_def validate_citations_def demo_citations
        demo_synthesis_def)
  from synthesis_cites_evidence [OF s] s show ?thesis
    by blast
qed


end
