(* ===== verification/Agentweave_Commands.thy ===== *)
theory Agentweave_Commands
  imports Agentweave_Serve Go_Flags
begin

text \<open>
  The two command lines of AgentWeave: \<^verbatim>\<open>agentweave/cmd/agentweave\<close> and \<^verbatim>\<open>agentweave/cmd/agentweaved\<close>. The
  machine is what their commands find: a daemon that answers on the socket or none, the stored index, files,
  processes. What a command does to the machine is a list of actions beside its end.
\<close>

section \<open>Integer flags\<close>

text \<open>\<^verbatim>\<open>strconv.ParseInt\<close> with base 0 and 64 bits, as \<^verbatim>\<open>flag.Int\<close> calls it.\<close>

definition digit_of :: "char \<Rightarrow> nat option" where
  "digit_of c = (let n = (of_char c :: nat); l = (of_char (lower_char c) :: nat) in
     if is_digit c then Some (n - 48) else if 97 \<le> l \<and> l \<le> 122 then Some (l - 87) else None)"

definition base_prefix :: "string \<Rightarrow> nat \<times> string" where
  "base_prefix s =
     (if s = [] \<or> hd s \<noteq> CHR ''0'' then (10, s)
      else if 3 \<le> length s \<and> lower_char (s ! 1) = CHR ''b'' then (2, drop 2 s)
      else if 3 \<le> length s \<and> lower_char (s ! 1) = CHR ''o'' then (8, drop 2 s)
      else if 3 \<le> length s \<and> lower_char (s ! 1) = CHR ''x'' then (16, drop 2 s)
      else (8, tl s))"

text \<open>An underscore stands after a digit or the prefix, and a digit follows it; \<open>prev\<close> tells the last two apart.\<close>

datatype last_seen = Seen_start | Seen_digit | Seen_under | Seen_other

fun underscores_separate :: "bool \<Rightarrow> last_seen \<Rightarrow> string \<Rightarrow> bool" where
  "underscores_separate hex prev [] = (prev \<noteq> Seen_under)"
| "underscores_separate hex prev (c # s) =
     (if is_digit c \<or> hex \<and> 97 \<le> (of_char (lower_char c) :: nat) \<and> (of_char (lower_char c) :: nat) \<le> 102
      then underscores_separate hex Seen_digit s
      else if c = CHR ''_'' then prev = Seen_digit \<and> underscores_separate hex Seen_under s
      else prev \<noteq> Seen_under \<and> underscores_separate hex Seen_other s)"

definition underscore_ok :: "string \<Rightarrow> bool" where
  "underscore_ok s = (if 2 \<le> length s \<and> hd s = CHR ''0'' \<and> lower_char (s ! 1) \<in> set ''box''
     then underscores_separate (lower_char (s ! 1) = CHR ''x'') Seen_digit (drop 2 s)
     else underscores_separate False Seen_start s)"

definition value_in :: "nat \<Rightarrow> string \<Rightarrow> nat option" where
  "value_in base s = fold (\<lambda>c acc. case (acc, digit_of c) of
     (Some n, Some d) \<Rightarrow> if d < base then Some (n * base + d) else None | _ \<Rightarrow> None) (filter (\<lambda>c. c \<noteq> CHR ''_'') s) (Some 0)"

definition parse_int0 :: "string \<Rightarrow> int option" where
  "parse_int0 s0 =
     (let neg = has_prefix s0 ''-''; s = (if neg \<or> has_prefix s0 ''+'' then tl s0 else s0); (base, ds) = base_prefix s in
      if s = [] \<or> CHR ''_'' \<in> set ds \<and> \<not> underscore_ok s then None
      else case value_in base ds of
          None \<Rightarrow> None
        | Some n \<Rightarrow> if neg then (if n \<le> 2 ^ 63 then Some (- int n) else None) else (if n < 2 ^ 63 then Some (int n) else None))"

section \<open>The daemon's command (\<^verbatim>\<open>agentweaved/main.go\<close>)\<close>

datatype aw_act = Make_data_dir string | Listen string | Write_pid string | Remove_pid string | Close_server string
  | Open_log string | Spawn string "string list" | Signal_term int

record aw_machine =
  am_host :: aw_host
  am_faults :: db_faults
  am_engine :: sql_engine
  am_user_home :: "string option"
  am_env_data :: string
  am_darwin :: bool
  am_xdg :: string
  am_allows :: "aw_act \<Rightarrow> bool"
  am_openable :: bool
  am_index :: aw_db
  am_server :: "scan_options option"

datatype daemon_end = Daemon_usage nat | Daemon_fatal | Daemon_synced "source_status list"
  | Daemon_served int "daemon_response list list"

definition machine_paths :: "aw_machine \<Rightarrow> flag_values \<Rightarrow> aw_paths option" where
  "machine_paths m vs = resolve_paths (am_user_home m) (am_env_data m) (am_darwin m) (am_xdg m)
     (flag_value vs ''home'' []) (flag_value vs ''data-dir'' [])"

definition stored_index :: "aw_machine \<Rightarrow> aw_db option" where
  "stored_index m = (if am_openable m then Some (am_index m) else None)"

definition daemon_flags :: "string \<Rightarrow> flag_kind option" where
  "daemon_flags = [''home'' \<mapsto> Flag_string, ''data-dir'' \<mapsto> Flag_string, ''poll-seconds'' \<mapsto> Flag_duration, ''once'' \<mapsto> Flag_bool]"

text \<open>The interval in nanoseconds: a number of seconds that is too large wraps, and what is not positive becomes the default.\<close>

definition time_seconds :: "int \<Rightarrow> int" where
  "time_seconds n = signed_take_bit 63 (poll_interval n * 1000000000)"

definition ticker_interval :: "int \<Rightarrow> int" where
  "ticker_interval d = (if d \<le> 0 then 30000000000 else d)"

text \<open>A deferred call does not run when a fatal error leaves the process: then the socket and the pid file stay.\<close>

definition serve_forever :: "aw_machine \<Rightarrow> aw_paths \<Rightarrow> scan_options \<Rightarrow> int \<Rightarrow> serve_event list \<Rightarrow> aw_db
    \<Rightarrow> daemon_end \<times> aw_act list \<times> aw_db" where
  "serve_forever m p opt interval events db =
     (let lsn = Listen (pa_socket p); pid = Write_pid (pa_pid p) in
      if \<not> am_allows m lsn then (Daemon_fatal, [lsn], db)
      else if \<not> am_allows m pid then (Daemon_fatal, [lsn, pid], db)
      else case serve_with_poll (am_host m) (am_faults m) opt (am_engine m) events db of
          (out, db1, ok) \<Rightarrow>
            if ok then (Daemon_served (ticker_interval (time_seconds interval)) out, [lsn, pid, Close_server (pa_socket p), Remove_pid (pa_pid p)], db1)
            else (Daemon_fatal, [lsn, pid], db1))"

definition daemon_main :: "aw_machine \<Rightarrow> string list \<Rightarrow> serve_event list \<Rightarrow> daemon_end \<times> aw_act list \<times> aw_db" where
  "daemon_main m args events =
     (let db = am_index m in
      case parse_flags (\<lambda>s. parse_int0 s \<noteq> None) daemon_flags [] args of
        Inl e \<Rightarrow> (Daemon_usage (if e = Help_requested then 0 else 2), [], db)
      | Inr (vs, _) \<Rightarrow>
          (case machine_paths m vs of
             None \<Rightarrow> (Daemon_fatal, [], db)
           | Some p \<Rightarrow>
               (let mk = Make_data_dir (pa_data p) in
                if \<not> am_allows m mk then (Daemon_fatal, [mk], db)
                else case open_service (ho_env (am_host m)) (stored_index m) p of
                    Inl _ \<Rightarrow> (Daemon_fatal, [mk], db)
                  | Inr (db0, opt, c) \<Rightarrow>
                      if flag_set vs ''once'' then
                        (case service_sync (am_host m) (am_faults m) opt db0 of
                           (sts, db1, ok) \<Rightarrow> (if ok then Daemon_synced sts else Daemon_fatal, [mk], db1))
                      else (let poll = the (parse_int0 (flag_value vs ''poll-seconds'' ''0'')) in
                        case serve_forever m p opt (if poll > 0 then poll else cf_poll c) events db0 of
                          (r, acts, db1) \<Rightarrow> (r, mk # acts, db1)))))"

section \<open>The user's command (\<^verbatim>\<open>agentweave/main.go\<close>)\<close>

datatype client_error = No_home | Cannot_open open_error | Cannot_query | Cannot_sync | No_binary | Not_allowed aw_act | No_pid | Bad_pid
  | Not_ready | Not_stopped | Unknown_client | Config_usage

datatype doctor_value = Mode_text string | Check_failed | Root_list "string list" | Source_list "source_status list"

datatype printed = Already_running | Started | Stopped | Source_json "source_status list" | Version
  | Doctor_json string string "(string \<times> doctor_value) list" | Snippet string

datatype command_end = Command_usage nat | Command_failed client_error | Command_printed printed | Serves_mcp string

type_synonym command_run = "command_end \<times> aw_act list \<times> aw_db"

definition ask_daemon :: "aw_machine \<Rightarrow> string \<Rightarrow> source_status list reply \<times> aw_db" where
  "ask_daemon m method =
     (case am_server m of
        None \<Rightarrow> (Inl None, am_index m)
      | Some opt \<Rightarrow> (case handle (am_host m) (am_faults m) opt (am_engine m)
            \<lparr>dr_id = ''1'', dr_method = method, dr_params = Some (JV_obj [])\<rparr> (am_index m) of
          (resp, db) \<Rightarrow> (expect as_statuses (client_call True (ds_outcome resp)), db)))"

definition daemon_binary :: "string option \<Rightarrow> (string \<Rightarrow> bool option) \<Rightarrow> string option \<Rightarrow> string option" where
  "daemon_binary executable is_dir on_path =
     (case executable of
        Some e \<Rightarrow> (let c = path_join [path_dir e, ''agentweaved''] in if is_dir c = Some False then Some c else on_path)
      | None \<Rightarrow> on_path)"

text \<open>The actions one after another, up to the first that fails.\<close>

fun do_acts :: "(aw_act \<Rightarrow> bool) \<Rightarrow> aw_act list \<Rightarrow> aw_act list \<times> aw_act option" where
  "do_acts ok [] = ([], None)"
| "do_acts ok (a # as) = (if ok a then (case do_acts ok as of (ds, e) \<Rightarrow> (a # ds, e)) else ([a], Some a))"

text \<open>What the checks of a wait answer until its deadline is a list.\<close>

definition start_command :: "aw_machine \<Rightarrow> string option \<Rightarrow> bool list \<Rightarrow> aw_paths \<Rightarrow> command_run" where
  "start_command m binary polls p =
     (case ask_daemon m ''status'' of
        (Inr _, db) \<Rightarrow> (Command_printed Already_running, [], db)
      | (Inl _, db) \<Rightarrow>
          (let mk = Make_data_dir (pa_data p) in
           if \<not> am_allows m mk then (Command_failed (Not_allowed mk), [mk], db)
           else case binary of
               None \<Rightarrow> (Command_failed No_binary, [mk], db)
             | Some b \<Rightarrow> (case do_acts (am_allows m) [Open_log (pa_log p), Spawn b [''-data-dir'', pa_data p]] of
                 (acts, Some a) \<Rightarrow> (Command_failed (Not_allowed a), mk # acts, db)
               | (acts, None) \<Rightarrow> (if list_ex id polls then Command_printed Started else Command_failed Not_ready, mk # acts, db))))"

definition stop_command :: "aw_machine \<Rightarrow> string option \<Rightarrow> bool list \<Rightarrow> command_run" where
  "stop_command m pid_file polls =
     (case pid_file of
        None \<Rightarrow> (Command_failed No_pid, [], am_index m)
      | Some text \<Rightarrow> (case atoi (trim_space text) of
          (pid, ok) \<Rightarrow>
            if \<not> ok then (Command_failed Bad_pid, [], am_index m)
            else let a = Signal_term pid in
              if \<not> am_allows m a then (Command_failed (Not_allowed a), [a], am_index m)
              else (if list_ex id polls then Command_printed Stopped else Command_failed Not_stopped, [a], am_index m)))"

definition sync_command :: "aw_machine \<Rightarrow> aw_paths \<Rightarrow> command_run" where
  "sync_command m p =
     (case ask_daemon m ''sync'' of
        (Inr sts, db) \<Rightarrow> (Command_printed (Source_json sts), [], db)
      | (Inl _, db) \<Rightarrow> (case sync_once (am_host m) (am_faults m) (stored_index (m\<lparr>am_index := db\<rparr>)) p of
          Inl e \<Rightarrow> (Command_failed (Cannot_open e), [], db)
        | Inr (sts, db1, ok) \<Rightarrow> (if ok then Command_printed (Source_json sts) else Command_failed Cannot_sync, [], db1)))"

definition status_command :: "aw_machine \<Rightarrow> command_run" where
  "status_command m =
     (case ask_daemon m ''status'' of
        (Inr sts, db) \<Rightarrow> (Command_printed (Source_json sts), [], db)
      | (Inl _, db) \<Rightarrow>
          if \<not> am_openable m then (Command_failed (Cannot_open No_index), [], db)
          else if en_fails (am_engine m) then (Command_failed Cannot_query, [], db)
          else (Command_printed (Source_json (status db)), [], db))"

definition mode_check :: "(string \<Rightarrow> string option) \<Rightarrow> string \<Rightarrow> string \<Rightarrow> string \<Rightarrow> (string \<times> doctor_value)" where
  "mode_check mode_of path found missing = (case mode_of path of Some t \<Rightarrow> (found, Mode_text t) | None \<Rightarrow> (missing, Check_failed))"

definition doctor_command :: "aw_machine \<Rightarrow> (string \<Rightarrow> string option) \<Rightarrow> aw_paths \<Rightarrow> command_run" where
  "doctor_command m mode_of p =
     (case ask_daemon m ''status'' of (r, db) \<Rightarrow>
       (Command_printed (Doctor_json (pa_data p) (pa_socket p)
          ([mode_check mode_of (pa_data p) ''data_dir_mode'' ''data_dir'', mode_check mode_of (pa_socket p) ''socket_mode'' ''daemon'',
            (case load_config (ho_env (am_host m)) (path_join [pa_data p, ''config.json'']) of
               Inl _ \<Rightarrow> (''config'', Check_failed) | Inr c \<Rightarrow> (''artifact_roots'', Root_list (cf_roots c)))]
           @ (case r of Inr sts \<Rightarrow> [(''sources'', Source_list sts)] | Inl _ \<Rightarrow> []))), [], db))"

definition config_snippet :: "string \<Rightarrow> string option" where
  "config_snippet client =
     (let q = (\<lambda>s. quote_char # s @ [quote_char]); line = (\<lambda>s. s @ [CHR 0x0A]) in
      if client \<in> set [''claude'', ''cursor'', ''antigravity''] then
        Some (line ''{'' @ line (''  '' @ q ''mcpServers'' @ '': {'') @ line (''    '' @ q ''agentweave'' @ '': {'')
          @ line (''      '' @ q ''command'' @ '': '' @ q ''agentweave'' @ '','')
          @ line (''      '' @ q ''args'' @ '': ['' @ q ''mcp'' @ '']'') @ line ''    }'' @ line ''  }'' @ line ''}'')
      else if client = ''codex'' then
        Some (line ''[mcp_servers.agentweave]'' @ line (''command = '' @ q ''agentweave'') @ line (''args = ['' @ q ''mcp'' @ '']''))
      else if client = ''pi'' then
        Some (line ''pi install npm:agentweave-pi-mcp''
          @ line ''# Then start agentweaved; the extension launches its own stdio MCP client per tool call.'')
      else None)"

record command_inputs =
  ci_binary :: "string option"
  ci_pid_file :: "string \<Rightarrow> string option"
  ci_polls :: "bool list"
  ci_mode :: "string \<Rightarrow> string option"

definition dispatch_command :: "aw_machine \<Rightarrow> command_inputs \<Rightarrow> string \<Rightarrow> string list \<Rightarrow> aw_paths \<Rightarrow> command_run" where
  "dispatch_command m ci command operands p =
     (let quit = (\<lambda>e. (e, [], am_index m)) in
      if command = ''start'' then start_command m (ci_binary ci) (ci_polls ci) p
      else if command = ''stop'' then stop_command m (ci_pid_file ci (pa_pid p)) (ci_polls ci)
      else if command = ''sync'' then sync_command m p
      else if command = ''status'' then status_command m
      else if command = ''doctor'' then doctor_command m (ci_mode ci) p
      else if command = ''mcp'' then quit (Serves_mcp (pa_socket p))
      else if command = ''config'' then
        quit (case operands of
            [c] \<Rightarrow> (case config_snippet c of None \<Rightarrow> Command_failed Unknown_client | Some t \<Rightarrow> Command_printed (Snippet t))
          | _ \<Rightarrow> Command_failed Config_usage)
      else if command = ''version'' then quit (Command_printed Version)
      else quit (Command_usage 2))"

text \<open>\<^verbatim>\<open>main\<close>; the flags are parsed, and the paths resolved, before the command is known.\<close>

definition agentweave_main :: "aw_machine \<Rightarrow> command_inputs \<Rightarrow> string list \<Rightarrow> command_run" where
  "agentweave_main m ci args =
     (case args of
        [] \<Rightarrow> (Command_usage 2, [], am_index m)
      | command # rest \<Rightarrow>
          (case parse_flags (\<lambda>_. False) [''home'' \<mapsto> Flag_string, ''data-dir'' \<mapsto> Flag_string] [] rest of
             Inl e \<Rightarrow> (Command_usage (if e = Help_requested then 0 else 2), [], am_index m)
           | Inr (vs, operands) \<Rightarrow>
               (case machine_paths m vs of
                  None \<Rightarrow> (Command_failed No_home, [], am_index m)
                | Some p \<Rightarrow> dispatch_command m ci command operands p)))"

section \<open>What the commands promise\<close>

lemma ask_status: "ask_daemon m ''status'' =
    (if am_server m = None \<or> en_fails (am_engine m) then Inl (if am_server m = None then None else Some Failed_query)
     else Inr (status (am_index m)), am_index m)"
  by (auto simp: ask_daemon_def handle_def outcome_def Let_def client_call_def expect_def as_statuses_def split: option.split)

text \<open>The daemon adds nothing to what a command reads: the status is that of the index, whoever answers.\<close>

lemma status_same_with_daemon:
  "am_openable m \<Longrightarrow> status_command m = status_command (m\<lparr>am_server := None\<rparr>)"
  by (simp add: status_command_def ask_status)

lemma sync_same_with_daemon:
  assumes "open_service (ho_env (am_host m)) (stored_index m) p = Inr (db, opt, c)" "am_server m = Some opt"
    "service_sync (am_host m) (am_faults m) opt (am_index m) = (sts, db1, True)"
  shows "sync_command m p = sync_command (m\<lparr>am_server := None\<rparr>) p"
proof -
  have "stored_index (m\<lparr>am_server := None, am_index := am_index m\<rparr>) = stored_index m" "db = am_index m"
    using assms(1) by (auto simp: stored_index_def open_service_def split: sum.splits option.splits if_splits)
  with assms show ?thesis
    by (simp add: sync_command_def ask_daemon_def handle_def Let_def client_call_def expect_def as_statuses_def sync_once_def)
qed

text \<open>Every command leaves an index that synchronisations lead to.\<close>

lemma sync_command_state: "index_state (am_index m) \<Longrightarrow> index_state (snd (snd (sync_command m p)))"
proof -
  assume a: "index_state (am_index m)"
  obtain r db where q: "ask_daemon m ''sync'' = (r, db)"
    by fastforce
  have db: "index_state db"
    using q a handle_state [OF a] by (auto simp: ask_daemon_def split: option.splits prod.splits) (metis snd_conv)
  have once: "index_state db1" if "sync_once (am_host m) (am_faults m) (stored_index (m\<lparr>am_index := db\<rparr>)) p = Inr (sts, db1, ok)" for sts db1 ok
  proof -
    note once = that
    obtain d opt c where o: "open_service (ho_env (am_host m)) (stored_index (m\<lparr>am_index := db\<rparr>)) p = Inr (d, opt, c)"
      using once by (cases "open_service (ho_env (am_host m)) (stored_index (m\<lparr>am_index := db\<rparr>)) p")
        (auto simp: sync_once_def)
    then have "d = db"
      by (auto simp: stored_index_def open_service_def split: sum.splits option.splits if_splits)
    with that o service_sync_state [OF db, of "am_host m" "am_faults m" opt] show ?thesis
      by (simp add: sync_once_def)
  qed
  show ?thesis
    using db once by (auto simp: sync_command_def q split: sum.split)
qed

theorem commands_keep_index:
  assumes "index_state (am_index m)"
  shows "index_state (snd (snd (agentweave_main m ci args)))"
proof -
  have start: "index_state (snd (snd (start_command m b polls p)))" for b polls p
    using assms by (simp add: start_command_def ask_status Let_def split: option.split prod.split)
  have stop: "index_state (snd (snd (stop_command m t polls)))" for t polls
    using assms by (simp add: stop_command_def Let_def split: option.split prod.split)
  have stat: "index_state (snd (snd (status_command m)))"
    using assms by (simp add: status_command_def ask_status)
  have doctor: "index_state (snd (snd (doctor_command m mode p)))" for mode p
    using assms by (simp add: doctor_command_def ask_status)
  have "index_state (snd (snd (dispatch_command m ci command operands p)))" for command operands p
    using assms by (simp add: dispatch_command_def Let_def start stop stat doctor sync_command_state)
  then show ?thesis
    using assms by (simp add: agentweave_main_def split: list.split sum.split option.split prod.split)
qed

text \<open>A start forwards the data directory only, so the daemon scans the home of its own user whatever home was named.\<close>

lemma start_forgets_home:
  "Spawn b as \<in> set (fst (snd (start_command m binary polls p))) \<Longrightarrow> as = [''-data-dir'', pa_data p]"
  by (auto simp: start_command_def Let_def ask_status split: option.splits prod.splits if_splits)

text \<open>After a failed accept the pid file stays, and a stop signals whatever process has the number by then.\<close>

lemma failed_accept_keeps_pid:
  assumes "am_allows m (Listen (pa_socket p))" "am_allows m (Write_pid (pa_pid p))"
  shows "fst (serve_forever m p opt n [Accept_error] db) = Daemon_fatal
    \<and> fst (snd (serve_forever m p opt n [Accept_error] db)) = [Listen (pa_socket p), Write_pid (pa_pid p)]"
  using assms by (simp add: serve_forever_def Let_def serve_with_poll_def)

text \<open>A large interval becomes a busy loop: 18446744074 seconds are 0.29 seconds.\<close>

lemma interval_wraps: "ticker_interval (time_seconds 18446744074) = 290448384"
  by (simp add: ticker_interval_def time_seconds_def poll_interval_def signed_take_bit_eq_take_bit_shift take_bit_eq_mod)

lemma parse_int0_samples:
  "parse_int0 ''0x_1F'' = Some 31" "parse_int0 ''-07'' = Some (- 7)" "parse_int0 ''1_000'' = Some 1000"
  "parse_int0 ''08'' = None" "parse_int0 ''1__0'' = None" "parse_int0 ''_1'' = None" "parse_int0 ''0_'' = None" "parse_int0 [] = None"
  by (simp_all add: parse_int0_def base_prefix_def value_in_def underscore_ok_def digit_of_def is_digit_def lower_char_def
      has_prefix_def Let_def)

end
