(* ===== verification/Clonetree.thy ===== *)
theory Clonetree
  imports Walk_Dir Interpose_Policy Go_Flags
begin

text \<open>
  \<^verbatim>\<open>clonetree\<close> with \<^verbatim>\<open>internal/gitpath\<close>. A run mirrors a directory: repositories are cloned or become
  linked worktrees, other files are copied. What it does is a trace of actions; what exists and what git
  answers is a function of the trace, hence arbitrary. The property at the end bounds the actions of a run.

  The source is walked as it is at the start, and repositories, which the code handles at the same time, are handled one
  after another. Symbolic links are resolved by a parameter.
\<close>

section \<open>The machine\<close>

datatype ct_act = Make_dirs string | Remove_tree string | Copy_file string string | Run_git string "string list"
  | Ask_git string "string list"

datatype ct_error = Not_done ct_act | No_path | No_source | Source_no_dir | Bad_scan | Walk_failed | Unresolved
  | In_the_way | No_origin | Other_origin | Dirty_clone | No_head

record tree_host =
  th_cwd :: "string option"
  th_home :: "string option"
  th_tree :: "string \<Rightarrow> node option"
  th_is_dir :: "string \<Rightarrow> bool option"
  th_real :: "string \<Rightarrow> string option"
  th_lstat :: "string \<Rightarrow> bool"
  th_exists :: "ct_act list \<Rightarrow> string \<Rightarrow> bool"
  th_git :: "ct_act list \<Rightarrow> string \<Rightarrow> string list \<Rightarrow> string option"
  th_fails :: "ct_act list \<Rightarrow> ct_act \<Rightarrow> bool"

type_synonym 'a stepped = "('a \<times> ct_act list)"

type_synonym attempt = "(ct_error + unit) stepped"

definition ct_perform :: "tree_host \<Rightarrow> ct_act \<Rightarrow> ct_act list \<Rightarrow> attempt" where
  "ct_perform h a t = (if th_fails h t a then Inl (Not_done a) else Inr (), t @ [a])"

definition ct_then :: "attempt \<Rightarrow> (ct_act list \<Rightarrow> attempt) \<Rightarrow> attempt" where
  "ct_then m f = (case m of (Inl e, t) \<Rightarrow> (Inl e, t) | (Inr _, t) \<Rightarrow> f t)"

definition ask_git :: "tree_host \<Rightarrow> string \<Rightarrow> string list \<Rightarrow> ct_act list \<Rightarrow> string option stepped" where
  "ask_git h dir args t = (map_option trim_space (th_git h t dir args), t @ [Ask_git dir args])"

section \<open>Paths of repositories (\<^verbatim>\<open>gitpath.go\<close>)\<close>

definition has_git_dir :: "tree_host \<Rightarrow> string \<Rightarrow> bool" where
  "has_git_dir h p \<longleftrightarrow> th_lstat h (path_join [p, ''.git''])"

definition is_repo_path :: "tree_host \<Rightarrow> string \<Rightarrow> ct_act list \<Rightarrow> bool stepped" where
  "is_repo_path h p t = (if has_git_dir h p then (True, t)
     else case ask_git h [] [''-C'', p, ''rev-parse'', ''--git-dir''] t of (r, t1) \<Rightarrow> (r \<noteq> None, t1))"

definition eval_repo_path :: "tree_host \<Rightarrow> string \<Rightarrow> string option" where
  "eval_repo_path h p = Option.bind (abs_in (th_cwd h) p) (th_real h)"

definition names_host :: "string \<Rightarrow> bool" where
  "names_host p \<longleftrightarrow> contains_str p ''://'' \<or>
     (case index_of p '':'' of None \<Rightarrow> False | Some i \<Rightarrow> (case index_of p ''/'' of None \<Rightarrow> True | Some j \<Rightarrow> i < j))"

definition local_repo :: "tree_host \<Rightarrow> string \<Rightarrow> string \<Rightarrow> ct_act list \<Rightarrow> string option stepped" where
  "local_repo h repo url t =
     (let p = (if has_prefix url ''file://'' then trim_prefix (trim_prefix url ''file://'') ''localhost'' else url);
          q = (if has_prefix p ''~'' then map_option (\<lambda>home. path_join [home, tl p]) (th_home h)
               else Some (if is_abs p then p else path_join [repo, p]))
      in if names_host p then (None, t)
         else case Option.bind q (eval_repo_path h) of
             None \<Rightarrow> (None, t)
           | Some ev \<Rightarrow> (case is_repo_path h ev t of (yes, t1) \<Rightarrow> (if yes then Some ev else None, t1)))"

section \<open>Discovery (\<^verbatim>\<open>discover.go\<close>)\<close>

definition ct_skip_walk_dir :: "string \<Rightarrow> bool" where
  "ct_skip_walk_dir name \<longleftrightarrow> has_prefix name ''.'' \<or> is_protected_dir_name name"

definition visit_repos :: "tree_host \<Rightarrow> (string list, unit) visitor" where
  "visit_repos h path name n err repos =
     (case n of
        None \<Rightarrow> (repos, Go_on)
      | Some nd \<Rightarrow> if err \<or> \<not> is_dir_node nd then (repos, Go_on)
          else if ct_skip_walk_dir name then (repos, Skip_dir)
          else if has_git_dir h path then (repos @ [path], Skip_dir)
          else (repos, Go_on))"

definition ct_discover_any :: "tree_host \<Rightarrow> string \<Rightarrow> string list option" where
  "ct_discover_any h src = map_option (\<lambda>r. fst (walk_dir (visit_repos h) r (th_tree h r) [])) (abs_in (th_cwd h) src)"

definition real_or_same :: "tree_host \<Rightarrow> string \<Rightarrow> string" where
  "real_or_same h p = (case th_real h p of None \<Rightarrow> p | Some q \<Rightarrow> q)"

definition dedupe_roots :: "tree_host \<Rightarrow> string list \<Rightarrow> string list" where
  "dedupe_roots h repos = sort (remdups (map (real_or_same h) repos))"

definition ct_discover_prtag :: "tree_host \<Rightarrow> string \<Rightarrow> string list option" where
  "ct_discover_prtag h src = (case scan (\<lambda>_. False) src (th_tree h src) of
     Inr (snap, []) \<Rightarrow> Some (dedupe_roots h (concat (map pj_repos (sn_projects snap)))) | _ \<Rightarrow> None)"

text \<open>The repositories with their paths relative to the source; what leads out of it is left out.\<close>

fun relative_entries :: "string \<Rightarrow> string list \<Rightarrow> (string \<times> string) list option" where
  "relative_entries src [] = Some []"
| "relative_entries src (r # rs) =
     (case path_rel src r of
        None \<Rightarrow> None
      | Some rel \<Rightarrow> if has_prefix rel ''..'' then relative_entries src rs
          else map_option (Cons (r, rel)) (relative_entries src rs))"

definition discover :: "tree_host \<Rightarrow> string \<Rightarrow> string \<Rightarrow> (string \<times> string) list option" where
  "discover h mode src =
     (case (if mode = ''prtag'' then ct_discover_prtag h src else if mode = ''any'' then ct_discover_any h src else None) of
        None \<Rightarrow> None
      | Some repos \<Rightarrow> (case eval_repo_path h src of
          None \<Rightarrow> None
        | Some base \<Rightarrow> map_option (sort_key snd) (relative_entries base (dedupe_roots h repos))))"

section \<open>Copying (\<^verbatim>\<open>copy.go\<close>)\<close>

record ct_options =
  co_method :: string
  co_from :: string
  co_dry :: bool
  co_force :: bool

definition ct_normalize_path :: "tree_host \<Rightarrow> string \<Rightarrow> string" where
  "ct_normalize_path h p = (case abs_in (th_cwd h) p of
     None \<Rightarrow> clean p | Some a \<Rightarrow> (case th_real h a of None \<Rightarrow> clean a | Some ev \<Rightarrow> ev))"

definition is_repo_root :: "tree_host \<Rightarrow> string list \<Rightarrow> string \<Rightarrow> bool" where
  "is_repo_root h repos p \<longleftrightarrow> ct_normalize_path h p \<in> set repos"

definition below :: "string \<Rightarrow> string \<Rightarrow> bool" where
  "below r p \<longleftrightarrow> (case path_rel r p of None \<Rightarrow> False | Some rel \<Rightarrow> rel \<noteq> ''..'' \<and> \<not> has_prefix rel ''../'')"

fun under_any :: "string \<Rightarrow> string list \<Rightarrow> bool" where
  "under_any p [] = False"
| "under_any p (r # rs) = (p \<noteq> r \<and> (below r p \<or> under_any p rs))"

definition is_under_repo :: "tree_host \<Rightarrow> string list \<Rightarrow> string \<Rightarrow> bool" where
  "is_under_repo h repos p = under_any (ct_normalize_path h p) repos"

definition outcome_of :: "attempt \<Rightarrow> ct_act list \<times> ct_error verdict" where
  "outcome_of m = (case m of (Inl e, t) \<Rightarrow> (t, Stop e) | (Inr _, t) \<Rightarrow> (t, Go_on))"

definition visit_copy :: "tree_host \<Rightarrow> ct_options \<Rightarrow> string \<Rightarrow> string \<Rightarrow> string list \<Rightarrow> (ct_act list, ct_error) visitor" where
  "visit_copy h opt src dest repos path name n err t =
     (case (n, path_rel src path) of
        (Some nd, Some rel) \<Rightarrow>
          (let dir = is_dir_node nd; target = path_join [dest, rel] in
           if err then (t, Stop Walk_failed)
           else if rel = ''.'' then (t, Go_on)
           else if name = ''.git'' then (t, Skip_dir)
           else if \<not> dir \<and> name = ''.prtag'' then (t, Go_on)
           else if is_repo_root h repos path then (t, Skip_dir)
           else if is_under_repo h repos path then (t, if dir then Skip_dir else Go_on)
           else if nd = Link then (t, Go_on)
           else if dir then (if co_dry opt then (t, Go_on) else outcome_of (ct_perform h (Make_dirs target) t))
           else if th_exists h t target \<and> \<not> co_force opt then (t, Go_on)
           else if co_dry opt then (t, Go_on)
           else outcome_of (ct_then (ct_perform h (Make_dirs (path_dir target)) t) (ct_perform h (Copy_file path target))))
      | _ \<Rightarrow> (t, Stop Walk_failed))"

definition copy_non_repo_files :: "tree_host \<Rightarrow> ct_options \<Rightarrow> string \<Rightarrow> string \<Rightarrow> string list \<Rightarrow> ct_act list \<Rightarrow> attempt" where
  "copy_non_repo_files h opt src dest repos t =
     (case walk_dir (visit_copy h opt src dest (map (ct_normalize_path h) repos)) src (th_tree h src) t of
        (t1, None) \<Rightarrow> (Inr (), t1) | (t1, Some e) \<Rightarrow> (Inl e, t1))"

section \<open>Repositories (\<^verbatim>\<open>gitops.go\<close>)\<close>

definition git_run :: "tree_host \<Rightarrow> bool \<Rightarrow> string \<Rightarrow> string list \<Rightarrow> ct_act list \<Rightarrow> attempt" where
  "git_run h dry dir args t = (if dry then (Inr (), t) else ct_perform h (Run_git dir args) t)"

definition git_capture :: "tree_host \<Rightarrow> bool \<Rightarrow> string \<Rightarrow> string list \<Rightarrow> ct_act list \<Rightarrow> string option stepped" where
  "git_capture h dry dir args t = (if dry then (Some [], t) else ask_git h dir args t)"

text \<open>The commit a repository is at; the branch, which only the repository's state records.\<close>

record repo_state =
  rs_head :: string
  rs_branch :: string

definition read_repo_state :: "tree_host \<Rightarrow> string \<Rightarrow> ct_act list \<Rightarrow> repo_state option stepped" where
  "read_repo_state h repo t =
     (case ask_git h repo [''rev-parse'', ''HEAD''] t of
        (None, t1) \<Rightarrow> (None, t1)
      | (Some head, t1) \<Rightarrow> (case ask_git h repo [''symbolic-ref'', ''--short'', ''HEAD''] t1 of
          (b, t2) \<Rightarrow> (Some \<lparr>rs_head = head, rs_branch = (case b of None \<Rightarrow> [] | Some x \<Rightarrow> x)\<rparr>, t2)))"

definition remove_unless_dry :: "tree_host \<Rightarrow> bool \<Rightarrow> string \<Rightarrow> ct_act list \<Rightarrow> attempt" where
  "remove_unless_dry h dry p t = (if dry then (Inr (), t) else ct_perform h (Remove_tree p) t)"

definition replace_clone :: "tree_host \<Rightarrow> bool \<Rightarrow> string \<Rightarrow> string \<Rightarrow> ct_act list \<Rightarrow> attempt" where
  "replace_clone h dry src dest t = ct_then (remove_unless_dry h dry dest t) (git_run h dry [] [''clone'', src, dest])"

definition update_existing_clone :: "tree_host \<Rightarrow> ct_options \<Rightarrow> string \<Rightarrow> string \<Rightarrow> string \<Rightarrow> ct_act list \<Rightarrow> attempt" where
  "update_existing_clone h opt src dest head t =
     (case git_capture h (co_dry opt) dest [''remote'', ''get-url'', ''origin''] t of
        (None, t1) \<Rightarrow> if co_force opt then replace_clone h (co_dry opt) src dest t1 else (Inl No_origin, t1)
      | (Some url, t1) \<Rightarrow> (case local_repo h dest url t1 of (origin, t2) \<Rightarrow>
          if origin \<noteq> Some src then (if co_force opt then replace_clone h (co_dry opt) src dest t2 else (Inl Other_origin, t2))
          else (case ask_git h dest [''status'', ''--porcelain''] t2 of
              (None, t3) \<Rightarrow> (Inl (Not_done (Ask_git dest [''status'', ''--porcelain''])), t3)
            | (Some out, t3) \<Rightarrow>
                if trim_space out \<noteq> [] \<and> \<not> co_force opt then (Inl Dirty_clone, t3)
                else ct_then (git_run h (co_dry opt) dest [''fetch'', ''origin''] t3)
                  (git_run h (co_dry opt) dest [''checkout'', head]))))"

text \<open>The parent directory is made in a dry run too; only its failure is passed over then.\<close>

definition make_parent :: "tree_host \<Rightarrow> bool \<Rightarrow> string \<Rightarrow> ct_act list \<Rightarrow> attempt" where
  "make_parent h dry dest t = (case ct_perform h (Make_dirs (path_dir dest)) t of
     (Inl e, t1) \<Rightarrow> (if dry then Inr () else Inl e, t1) | (Inr _, t1) \<Rightarrow> (Inr (), t1))"

definition materialize_clone :: "tree_host \<Rightarrow> ct_options \<Rightarrow> string \<Rightarrow> string \<Rightarrow> string \<Rightarrow> ct_act list \<Rightarrow> attempt" where
  "materialize_clone h opt src dest head t =
     (case eval_repo_path h src of
        None \<Rightarrow> (Inl Unresolved, t)
      | Some ev \<Rightarrow>
          (let fresh = (\<lambda>u. ct_then (make_parent h (co_dry opt) dest u) (git_run h (co_dry opt) [] [''clone'', ev, dest])) in
           if th_exists h t dest then
             (case is_repo_path h dest t of (yes, t1) \<Rightarrow>
                if yes then update_existing_clone h opt ev dest head t1
                else if \<not> co_force opt then (Inl In_the_way, t1)
                else ct_then (remove_unless_dry h (co_dry opt) dest t1) fresh)
           else fresh t))"

definition worktree_paths :: "string \<Rightarrow> string list" where
  "worktree_paths out = map (\<lambda>l. trim_prefix l ''worktree '') (filter (\<lambda>l. has_prefix l ''worktree '') (split_on (CHR 0x0A) out))"

definition is_worktree_of :: "tree_host \<Rightarrow> string \<Rightarrow> string \<Rightarrow> ct_act list \<Rightarrow> bool stepped" where
  "is_worktree_of h src dest t =
     (case ask_git h src [''worktree'', ''list'', ''--porcelain''] t of
        (None, t1) \<Rightarrow> (False, t1)
      | (Some out, t1) \<Rightarrow> (case abs_in (th_cwd h) dest of
          None \<Rightarrow> (False, t1)
        | Some d \<Rightarrow> (real_or_same h d \<in> set (map (real_or_same h) (worktree_paths out)), t1)))"

definition materialize_worktree :: "tree_host \<Rightarrow> ct_options \<Rightarrow> string \<Rightarrow> string \<Rightarrow> string \<Rightarrow> ct_act list \<Rightarrow> attempt" where
  "materialize_worktree h opt src dest head t =
     (let dry = co_dry opt;
          add = (\<lambda>u. ct_then (make_parent h dry dest u) (git_run h dry src [''worktree'', ''add'', ''--detach'', dest, head]))
      in case is_worktree_of h src dest t of (yes, t1) \<Rightarrow>
        if yes then (Inr (), t1)
        else if th_exists h t1 dest then
          (if \<not> co_force opt then (Inl In_the_way, t1)
           else case git_run h dry src [''worktree'', ''remove'', ''--force'', dest] t1 of
               (Inl e, t2) \<Rightarrow> ct_then (remove_unless_dry h dry dest t2) add
             | (Inr _, t2) \<Rightarrow> add t2)
        else add t1)"

section \<open>A run (\<^verbatim>\<open>main.go\<close>)\<close>

definition materialize :: "tree_host \<Rightarrow> ct_options \<Rightarrow> string \<Rightarrow> string \<times> string \<Rightarrow> ct_act list \<Rightarrow> attempt" where
  "materialize h opt dest r t =
     (case read_repo_state h (fst r) t of
        (None, t1) \<Rightarrow> (Inl No_head, t1)
      | (Some st, t1) \<Rightarrow>
          (let target = path_join [dest, snd r] in
           if co_method opt = ''clone'' then materialize_clone h opt (fst r) target (rs_head st) t1
           else if co_method opt = ''worktree'' then materialize_worktree h opt (fst r) target (rs_head st) t1
           else (Inr (), t1)))"

text \<open>Every repository is handled; the errors are those of the ones that failed.\<close>

fun materialize_all :: "tree_host \<Rightarrow> ct_options \<Rightarrow> string \<Rightarrow> (string \<times> string) list \<Rightarrow> ct_act list \<Rightarrow> ct_error list stepped" where
  "materialize_all h opt dest [] t = ([], t)"
| "materialize_all h opt dest (r # rs) t =
     (case materialize h opt dest r t of (res, t1) \<Rightarrow>
        (case materialize_all h opt dest rs t1 of (errs, t2) \<Rightarrow> ((case res of Inl e \<Rightarrow> [e] | Inr _ \<Rightarrow> []) @ errs, t2)))"

definition clone_tree :: "tree_host \<Rightarrow> ct_options \<Rightarrow> string \<Rightarrow> string \<Rightarrow> ct_error list stepped" where
  "clone_tree h opt src dest =
     (case (abs_in (th_cwd h) src, abs_in (th_cwd h) dest) of
        (Some s, Some d) \<Rightarrow>
          (case th_is_dir h s of
             None \<Rightarrow> ([No_source], [])
           | Some is_dir \<Rightarrow>
               if \<not> is_dir then ([Source_no_dir], [])
               else (case (if co_dry opt then (Inr (), []) else ct_perform h (Make_dirs d) []) of
                   (Inl e, t) \<Rightarrow> ([e], t)
                 | (Inr _, t) \<Rightarrow> (case discover h (co_from opt) s of
                     None \<Rightarrow> ([Bad_scan], t)
                   | Some repos \<Rightarrow> (case copy_non_repo_files h opt s d (map fst repos) t of
                       (Inl e, t1) \<Rightarrow> ([e], t1)
                     | (Inr _, t1) \<Rightarrow> materialize_all h opt d repos t1))))
      | (None, _) \<Rightarrow> ([No_path], [])
      | (Some s, None) \<Rightarrow> ([if th_is_dir h s = None then No_source else if th_is_dir h s = Some False then Source_no_dir else No_path], []))"

definition ct_flags :: "string \<Rightarrow> flag_kind option" where
  "ct_flags = [''method'' \<mapsto> Flag_string, ''from'' \<mapsto> Flag_string, ''n'' \<mapsto> Flag_bool, ''v'' \<mapsto> Flag_bool, ''force'' \<mapsto> Flag_bool]"

definition ct_main :: "tree_host \<Rightarrow> string list \<Rightarrow> nat stepped" where
  "ct_main h args =
     (case parse_flags (\<lambda>_. False) ct_flags [] args of
        Inl e \<Rightarrow> (if e = Help_requested then 0 else 2, [])
      | Inr (vs, operands) \<Rightarrow>
          (let opt = \<lparr>co_method = flag_value vs ''method'' [], co_from = flag_value vs ''from'' ''prtag'',
                 co_dry = flag_set vs ''n'', co_force = flag_set vs ''force''\<rparr> in
           if co_method opt \<notin> {''clone'', ''worktree''} \<or> co_from opt \<notin> {''prtag'', ''any''} then (2, [])
           else case operands of
               [src, dest] \<Rightarrow> (case clone_tree h opt src dest of (errs, t) \<Rightarrow> (if errs = [] then 0 else 1, t))
             | _ \<Rightarrow> (2, [])))"

section \<open>What a run does\<close>

definition questions :: "string list list" where
  "questions = [[''rev-parse'', ''HEAD''], [''symbolic-ref'', ''--short'', ''HEAD''], [''remote'', ''get-url'', ''origin''],
     [''status'', ''--porcelain''], [''worktree'', ''list'', ''--porcelain'']]"

text \<open>
  The actions a run may take, by its options; \<open>src\<close> and \<open>dest\<close> are the absolute paths of its operands.
  A path inside the destination is its join with a relative path that does not begin with two dots.
\<close>

definition inside :: "string \<Rightarrow> string \<Rightarrow> bool" where
  "inside dest p \<longleftrightarrow> (\<exists>rel. \<not> has_prefix rel ''..'' \<and> p = path_join [dest, rel])"

definition git_permitted :: "ct_options \<Rightarrow> string \<Rightarrow> string \<Rightarrow> string list \<Rightarrow> bool" where
  "git_permitted opt dest dir args \<longleftrightarrow>
     (\<exists>ev p. args = [''clone'', ev, p] \<and> inside dest p)
     \<or> args = [''fetch'', ''origin''] \<and> inside dest dir
     \<or> (\<exists>head. args = [''checkout'', head] \<and> inside dest dir)
     \<or> (\<exists>p head. args = [''worktree'', ''add'', ''--detach'', p, head] \<and> inside dest p)
     \<or> (\<exists>p. args = [''worktree'', ''remove'', ''--force'', p] \<and> inside dest p \<and> co_force opt)"

definition permitted :: "ct_options \<Rightarrow> string \<Rightarrow> string \<Rightarrow> ct_act \<Rightarrow> bool" where
  "permitted opt src dest a = (case a of
     Make_dirs p \<Rightarrow> co_dry opt \<longrightarrow> (\<exists>q. inside dest q \<and> p = path_dir q)
   | Remove_tree p \<Rightarrow> co_force opt \<and> \<not> co_dry opt \<and> inside dest p
   | Copy_file p q \<Rightarrow> \<not> co_dry opt \<and> (\<exists>rel. path_rel src p = Some rel \<and> rel \<noteq> ''.'' \<and> q = path_join [dest, rel])
   | Run_git dir args \<Rightarrow> \<not> co_dry opt \<and> git_permitted opt dest dir args
   | Ask_git dir args \<Rightarrow> args \<in> set questions \<or> (\<exists>p. args = [''-C'', p, ''rev-parse'', ''--git-dir'']))"

abbreviation trace_ok :: "ct_options \<Rightarrow> string \<Rightarrow> string \<Rightarrow> ct_act list \<Rightarrow> bool" where
  "trace_ok opt src dest \<equiv> list_all (permitted opt src dest)"

lemma ct_perform_ok: "permitted opt src dest a \<Longrightarrow> trace_ok opt src dest t \<Longrightarrow> trace_ok opt src dest (snd (ct_perform h a t))"
  by (simp add: ct_perform_def)

lemma ct_then_ok:
  "trace_ok opt src dest (snd m) \<Longrightarrow> (\<And>u. trace_ok opt src dest u \<Longrightarrow> trace_ok opt src dest (snd (f u)))
     \<Longrightarrow> trace_ok opt src dest (snd (ct_then m f))"
  by (auto simp: ct_then_def split: prod.splits sum.splits)

lemma ask_git_ok: "args \<in> set questions \<Longrightarrow> trace_ok opt src dest t \<Longrightarrow> trace_ok opt src dest (snd (ask_git h dir args t))"
  by (simp add: ask_git_def permitted_def)

lemma is_repo_path_ok: "trace_ok opt src dest t \<Longrightarrow> trace_ok opt src dest (snd (is_repo_path h p t))"
  by (simp add: is_repo_path_def ask_git_def permitted_def)

lemma local_repo_ok:
  assumes "trace_ok opt src dest t"
  shows "trace_ok opt src dest (snd (local_repo h repo url t))"
proof -
  have refused: "trace_ok opt src dest (snd (if c then (None, t) else z))" if "trace_ok opt src dest (snd z)"
    for c and z :: "string option stepped"
    using that assms by simp
  have tried: "trace_ok opt src dest (snd (case q of None \<Rightarrow> (None, t)
      | Some ev \<Rightarrow> (case is_repo_path h ev t of (yes, t1) \<Rightarrow> (if yes then Some ev else None, t1))))" for q
    using assms by (cases q) (simp_all add: split_def is_repo_path_ok)
  show ?thesis
    unfolding local_repo_def Let_def by (rule refused, rule tried)
qed

lemma git_run_ok:
  "git_permitted opt dest dir args \<Longrightarrow> trace_ok opt src dest t \<Longrightarrow> trace_ok opt src dest (snd (git_run h (co_dry opt) dir args t))"
  by (auto simp: git_run_def permitted_def intro!: ct_perform_ok)

lemma git_capture_ok:
  "args \<in> set questions \<Longrightarrow> trace_ok opt src dest t \<Longrightarrow> trace_ok opt src dest (snd (git_capture h dry dir args t))"
  by (simp add: git_capture_def ask_git_ok)

lemma remove_ok: "co_force opt \<Longrightarrow> inside dest p \<Longrightarrow> trace_ok opt src dest t
    \<Longrightarrow> trace_ok opt src dest (snd (remove_unless_dry h (co_dry opt) p t))"
  by (auto simp: remove_unless_dry_def permitted_def intro!: ct_perform_ok)

lemma make_parent_ok: "inside dest p \<Longrightarrow> trace_ok opt src dest t \<Longrightarrow> trace_ok opt src dest (snd (make_parent h dry p t))"
  by (auto simp: make_parent_def ct_perform_def permitted_def split: sum.split)

lemma replace_clone_ok: "co_force opt \<Longrightarrow> inside dest d \<Longrightarrow> trace_ok opt src dest t
    \<Longrightarrow> trace_ok opt src dest (snd (replace_clone h (co_dry opt) s d t))"
  unfolding replace_clone_def by (intro ct_then_ok remove_ok git_run_ok) (simp_all add: git_permitted_def)

lemma update_ok:
  assumes "trace_ok opt src dest t" and d: "inside dest d"
  shows "trace_ok opt src dest (snd (update_existing_clone h opt s d head t))"
proof -
  obtain url t1 where 1: "git_capture h (co_dry opt) d [''remote'', ''get-url'', ''origin''] t = (url, t1)"
    by fastforce
  have ok1: "trace_ok opt src dest t1"
    using git_capture_ok [of "[''remote'', ''get-url'', ''origin'']" opt src dest t h "co_dry opt" d] assms 1
    by (simp add: questions_def)
  show ?thesis
  proof (cases url)
    case None
    then show ?thesis
      using 1 ok1 by (simp add: update_existing_clone_def replace_clone_ok d)
  next
    case (Some u)
    obtain g t2 where 2: "local_repo h d u t1 = (g, t2)"
      by fastforce
    have ok2: "trace_ok opt src dest t2"
      using local_repo_ok [OF ok1, of h d u] 2 by simp
    obtain out t3 where 3: "ask_git h d [''status'', ''--porcelain''] t2 = (out, t3)"
      by fastforce
    have ok3: "trace_ok opt src dest t3"
      using ask_git_ok [of "[''status'', ''--porcelain'']" opt src dest t2 h d] ok2 3 by (simp add: questions_def)
    have "trace_ok opt src dest (snd (ct_then (git_run h (co_dry opt) d [''fetch'', ''origin''] t3)
        (git_run h (co_dry opt) d [''checkout'', head])))"
      using d by (intro ct_then_ok git_run_ok ok3) (simp_all add: git_permitted_def)
    with Some 1 2 3 ok2 ok3 show ?thesis
      by (auto simp: update_existing_clone_def replace_clone_ok d split: option.split)
  qed
qed

lemma materialize_clone_ok:
  assumes "trace_ok opt src dest t" and d: "inside dest d"
  shows "trace_ok opt src dest (snd (materialize_clone h opt s d head t))"
proof -
  have fresh: "trace_ok opt src dest (snd (ct_then (make_parent h (co_dry opt) d u) (git_run h (co_dry opt) [] [''clone'', ev, d])))"
    if "trace_ok opt src dest u" for u ev
    using d by (intro ct_then_ok make_parent_ok git_run_ok that) (simp_all add: git_permitted_def)
  obtain yes t1 where g: "is_repo_path h d t = (yes, t1)"
    by fastforce
  have "trace_ok opt src dest t1"
    using is_repo_path_ok [OF assms(1), of h d] g by simp
  then show ?thesis
    using assms g fresh ct_then_ok [OF remove_ok [OF _ d]] by (simp add: materialize_clone_def Let_def update_ok d split: option.split)
qed

lemma materialize_worktree_ok:
  assumes "trace_ok opt src dest t" and d: "inside dest d"
  shows "trace_ok opt src dest (snd (materialize_worktree h opt s d head t))"
proof -
  have add: "trace_ok opt src dest (snd (ct_then (make_parent h (co_dry opt) d u)
      (git_run h (co_dry opt) s [''worktree'', ''add'', ''--detach'', d, head])))" if "trace_ok opt src dest u" for u
    using d by (intro ct_then_ok make_parent_ok git_run_ok that) (simp_all add: git_permitted_def)
  obtain yes t1 where w: "is_worktree_of h s d t = (yes, t1)"
    by fastforce
  have ok1: "trace_ok opt src dest t1"
    using ask_git_ok [of "[''worktree'', ''list'', ''--porcelain'']" opt src dest t h s] assms w
    by (auto simp: is_worktree_of_def questions_def split: prod.splits option.splits)
  obtain r t2 where rm: "git_run h (co_dry opt) s [''worktree'', ''remove'', ''--force'', d] t1 = (r, t2)"
    by fastforce
  have ok2: "trace_ok opt src dest t2" if "co_force opt"
    using git_run_ok [of opt dest s "[''worktree'', ''remove'', ''--force'', d]" src t1 h] ok1 rm that d by (simp add: git_permitted_def)
  then show ?thesis
    using w rm ok1 add d
    ct_then_ok [OF remove_ok [OF _ d ok2]]
    by (simp add: materialize_worktree_def Let_def split: sum.split)
qed

lemma materialize_ok:
  assumes "trace_ok opt src dest t" and r: "\<not> has_prefix (snd r) ''..''"
  shows "trace_ok opt src dest (snd (materialize h opt dest r t))"
proof -
  obtain st t1 where s: "read_repo_state h (fst r) t = (st, t1)"
    by fastforce
  have i: "inside dest (path_join [dest, snd r])"
    using r by (auto simp: inside_def)
  have "trace_ok opt src dest t1"
    using s assms by (auto simp: read_repo_state_def ask_git_def permitted_def questions_def split: option.splits prod.splits)
  then show ?thesis
    using s by (auto simp: materialize_def Let_def materialize_clone_ok [OF _ i] materialize_worktree_ok [OF _ i] split: option.split)
qed

lemma materialize_all_ok: "trace_ok opt src dest t \<Longrightarrow> \<forall>r \<in> set rs. \<not> has_prefix (snd r) ''..''
    \<Longrightarrow> trace_ok opt src dest (snd (materialize_all h opt dest rs t))"
proof (induction rs arbitrary: t)
  case (Cons r rs)
  obtain res t1 where m: "materialize h opt dest r t = (res, t1)"
    by fastforce
  then have "trace_ok opt src dest t1"
    using materialize_ok [OF Cons.prems(1), of r h] Cons.prems(2) by simp
  from Cons.IH [OF this] Cons.prems(2) m show ?case
    by (simp split: prod.split) (metis snd_conv)
qed simp

lemma relative_entries_inside: "relative_entries base rs = Some es \<Longrightarrow> \<forall>r \<in> set es. \<not> has_prefix (snd r) ''..''"
proof (induction rs arbitrary: es)
  case (Cons r rs)
  then show ?case
    by (fastforce split: option.splits if_splits)
qed simp

lemma discover_inside: "discover h mode src = Some es \<Longrightarrow> \<forall>r \<in> set es. \<not> has_prefix (snd r) ''..''"
  unfolding discover_def by (auto split: option.split_asm dest!: relative_entries_inside)

text \<open>Copying: what every visit keeps, the walk keeps.\<close>

lemma fst_outcome: "fst (outcome_of m) = snd m"
  by (auto simp: outcome_of_def split: prod.splits sum.splits)

lemma visit_copy_ok:
  assumes "trace_ok opt src dest t"
  shows "trace_ok opt src dest (fst (visit_copy h opt src dest repos path name n err t))"
proof (cases n)
  case None
  then show ?thesis using assms by (simp add: visit_copy_def)
next
  case (Some nd)
  have mk: "trace_ok opt src dest (snd (ct_perform h (Make_dirs q) t))" if "\<not> co_dry opt" for q
    using assms that by (intro ct_perform_ok) (simp_all add: permitted_def)
  have cp: "trace_ok opt src dest (snd (ct_then (ct_perform h (Make_dirs q) t) (ct_perform h (Copy_file path (path_join [dest, rel])))))"
    if "path_rel src path = Some rel" "rel \<noteq> ''.''" "\<not> co_dry opt" for q rel
    using that by (intro ct_then_ok mk ct_perform_ok) (auto simp: permitted_def)
  show ?thesis
  proof (cases "path_rel src path")
    case None
    then show ?thesis using assms by (cases n) (simp_all add: visit_copy_def)
  next
    case (Some rel)
    then show ?thesis
      using assms mk cp [OF Some] \<open>n = Some nd\<close> by (simp add: visit_copy_def Let_def fst_outcome)
  qed
qed

interpretation copy_kept: keeper "visit_copy h opt src dest repos" "trace_ok opt src dest" src tree
  for h opt src dest repos tree
  by unfold_locales (rule visit_copy_ok)

lemma copy_ok:
  assumes "trace_ok opt src dest t"
  shows "trace_ok opt src dest (snd (copy_non_repo_files h opt src dest repos t))"
proof -
  obtain t1 e where w: "walk_dir (visit_copy h opt src dest (map (ct_normalize_path h) repos)) src (th_tree h src) t = (t1, e)"
    by fastforce
  then have "trace_ok opt src dest t1"
    using copy_kept.walk_dir_keeps [OF assms, of h "map (ct_normalize_path h) repos" "th_tree h src"] by simp
  with w show ?thesis
    by (simp add: copy_non_repo_files_def split: option.split)
qed


definition mirrored_host :: "tree_host" where
  "mirrored_host = \<lparr>th_cwd = Some ''/'', th_home = None,
     th_tree = (\<lambda>p. if p = ''/s'' then Some (Dir (Some [(''f'', File None), (''r'', Dir (Some []))])) else None),
     th_is_dir = (\<lambda>p. Some True), th_real = Some, th_lstat = (\<lambda>p. p = ''/s/r/.git''),
     th_exists = (\<lambda>t p. p = ''/d/r''), th_git = (\<lambda>t dir args. Some ''c0''), th_fails = (\<lambda>t a. False)\<rparr>"

definition mirrored_options :: "ct_options" where
  "mirrored_options = \<lparr>co_method = ''worktree'', co_from = ''any'', co_dry = False, co_force = True\<rparr>"

lemma mirrored_run:
  "clone_tree mirrored_host mirrored_options ''/s'' ''/d'' = ([],
     [Make_dirs ''/d'', Make_dirs ''/d'', Copy_file ''/s/f'' ''/d/f'',
      Ask_git ''/s/r'' [''rev-parse'', ''HEAD''], Ask_git ''/s/r'' [''symbolic-ref'', ''--short'', ''HEAD''],
      Ask_git ''/s/r'' [''worktree'', ''list'', ''--porcelain''],
      Run_git ''/s/r'' [''worktree'', ''remove'', ''--force'', ''/d/r''], Make_dirs ''/d'',
      Run_git ''/s/r'' [''worktree'', ''add'', ''--detach'', ''/d/r'', ''c0'']])"
  by code_simp


end
