(* ===== verification/Forfiles.thy ===== *)
theory Forfiles
  imports Go_Json "HOL-Library.Multiset"
begin

text \<open>
  \<^verbatim>\<open>forfiles\<close>: one command for every line of the standard input, with the line in place of a pattern.
  The commands run at the same time, so what they print is a multiset of whole outputs. How a command ends is a
  parameter: what it printed, and whether it succeeded.
\<close>

text \<open>\<^verbatim>\<open>strings.ReplaceAll\<close>; an empty pattern stands before every rune and at the end.\<close>

definition substitute :: "string \<Rightarrow> string \<Rightarrow> string \<Rightarrow> string" where
  "substitute pat line s = (if pat = [] then concat (map (\<lambda>r. line @ r) (runes s)) @ line else replace_all pat line s)"

datatype forfiles_end = Index_panic
  | Ended "string list list" "string multiset" "string list multiset" bool

text \<open>The commands in the order they start, their outputs, the commands that failed, and whether all of the input was read.\<close>

definition forfiles :: "(string list \<Rightarrow> string \<times> bool) \<Rightarrow> string list \<Rightarrow> string \<Rightarrow> forfiles_end" where
  "forfiles run args input =
     (case args of
        [] \<Rightarrow> Index_panic
      | pat # cmd \<Rightarrow>
          (case scan_lines input of (lines, complete) \<Rightarrow>
             if cmd = [] \<and> lines \<noteq> [] then Index_panic
             else (let cmds = map (\<lambda>line. map (substitute pat line) cmd) lines in
               Ended cmds (mset (map (fst \<circ> run) cmds)) (filter_mset (\<lambda>c. \<not> snd (run c)) (mset cmds)) complete)))"

lemma replace_all_unchanged: "(\<And>a b. s \<noteq> a @ p @ b) \<Longrightarrow> replace_all p n s = s"
proof (induction p n s rule: replace_all.induct)
  case (2 p n x xs)
  have "\<not> has_prefix (x # xs) p"
  proof
    assume "has_prefix (x # xs) p"
    then obtain b where "x # xs = p @ b"
      by (metis append_take_drop_id has_prefix_def)
    with "2.prems" [of "[]" b] show False by simp
  qed
  moreover have "xs \<noteq> a @ p @ b" for a b
    using "2.prems" [of "x # a" b] by simp
  ultimately show ?case
    using "2.IH"(2) by simp
qed simp

lemma length_takeWhile_all: "length (takeWhile P xs) = length xs \<longleftrightarrow> (\<forall>x \<in> set xs. P x)"
  by (induction xs) auto

text \<open>
  Every line read gives one command, of which only the words with the pattern depend on the line;
  what is not read is what follows a line longer than the scanner's buffer.
\<close>

lemma forfiles_commands:
  assumes "forfiles run (pat # cmd) input = Ended cmds outs failed complete" "pat \<noteq> []"
  shows "length cmds = length (fst (scan_lines input)) \<and> size outs = length cmds
    \<and> (\<forall>i < length cmds. length (cmds ! i) = length cmd \<and> (\<forall>j < length cmd.
          (\<forall>a b. cmd ! j \<noteq> a @ pat @ b) \<longrightarrow> cmds ! i ! j = cmd ! j))
    \<and> (complete \<longleftrightarrow> (\<forall>l \<in> set (raw_lines input). length l < max_scan_token_size))"
proof -
  obtain ls c where s: "scan_lines input = (ls, c)"
    by fastforce
  have c: "c \<longleftrightarrow> (\<forall>l \<in> set (raw_lines input). length l < max_scan_token_size)"
    using s by (auto simp: scan_lines_def Let_def length_takeWhile_all)
  have "cmds = map (\<lambda>line. map (substitute pat line) cmd) ls" "complete = c" "outs = mset (map (fst \<circ> run) cmds)"
    using assms(1) s by (auto simp: forfiles_def Let_def split: if_split_asm)
  with s c assms(2) show ?thesis
    by (simp add: substitute_def replace_all_unchanged)
qed

lemma forfiles_sample:
  "forfiles (\<lambda>c. (concat c, True)) [''^'', ''echo'', ''<^>''] [CHR ''a'', CHR 0x0A, CHR ''b''] =
     Ended [[''echo'', ''<a>''], [''echo'', ''<b>'']] {#''echo<a>'', ''echo<b>''#} {#} True"
  by (simp add: forfiles_def scan_lines_def raw_lines_def drop_cr_def trim_suffix_def has_suffix_def max_scan_token_size_def
      substitute_def has_prefix_def Let_def)

end
