(* ===== verification/Spec2Isabelle.thy ===== *)
theory Spec2Isabelle
  imports Merkle Commit_Encoding Commit_Anchor Protocol Hash_Map Sandbox_Config Interpose_Policy
    Interpose_Core Interpose_Wrappers Restore Macho Daemon_Rewrite Sandbox_Daemon
    Pulse_Config Pulse Prtag Workspace Go_Flags Agentcommit Proxypass Extclean Extclean_Scan
    Gitall_Git Gitall Gitall_Safety Gitall_Run Gitall_Locks
    Walk_Dir Archive_Names Archive_Repack Archive_Parts Cleanartifacts
    Go_Glob Agentweave_Model Agentweave_Workflows Agentweave_Adapters Agentweave_Index Agentweave_Search Agentweave_Serve
    Agentweave_Commands Clonetree Forfiles
begin

text \<open>
  A verification development for the Go tools of this repository: the Merkle commitment of
  configurations, the command interposer, the macOS sandbox daemon and the tools around them.

  \<^bold>\<open>How the parts interact.\<close> \<^verbatim>\<open>agentcommit\<close> collects the leaves of all committed configurations,
  builds one Merkle tree, anchors its root in a LaunchAgent and writes a proof file beside every
  configuration. The interposer (\<^verbatim>\<open>interpose\<close>) and the sandbox daemon (\<^verbatim>\<open>sandbox/daemon\<close>) load a
  configuration, verify its leaf against the anchored root and then decide by it: which command
  may run, which path may be opened, which hash may follow a process. The git wrapper also repairs
  conflicted files (\<^verbatim>\<open>internal/restoreconflict\<close>).

  \<^bold>\<open>Theories.\<close>
  \<^item> Prelude, Go\_Strings, Go\_Path, Go\_Json: what the sources use of the Go language and library;
    strings are byte strings, maps are association lists, JSON is printed as \<^verbatim>\<open>encoding/json\<close> does.
  \<^item> Merkle (\<^verbatim>\<open>commitment/tree.go\<close>): the tree; every leaf verifies, and only committed leaves verify.
  \<^item> Commit\_Encoding (\<^verbatim>\<open>commitment/encode.go\<close>): payload encodings, and the locale
    \<open>committed_item\<close> that every committed configuration type interprets.
  \<^item> Commit\_Anchor (\<^verbatim>\<open>commitment/proof_file.go\<close>, \<^verbatim>\<open>commitment/anchor\<close>): proof files and the root.
  \<^item> Protocol (\<^verbatim>\<open>sandbox/protocol\<close>): the exec protocol; the locale \<open>field_codec\<close> is the contract of
    an encoder with its decoder, interpreted by every field type and message.
  \<^item> Hash\_Map, Sandbox\_Config (\<^verbatim>\<open>sandbox/hashmap\<close>, \<^verbatim>\<open>sandbox/config\<close>): process identities, their log,
    and the sandbox policy.
  \<^item> Interpose\_Policy, Interpose\_Core, Interpose\_Wrappers (\<^verbatim>\<open>interpose\<close>): policies, the frame of an
    invocation with its trace of effects, and the wrappers.
  \<^item> Restore (\<^verbatim>\<open>internal/restoreconflict\<close>): conflict repair; the worker pool is a step relation.
  \<^item> Macho, Daemon\_Rewrite, Sandbox\_Daemon (\<^verbatim>\<open>sandbox/daemon\<close>): the binary rewriter, the staging and
    signing of programs, and the daemon: activation of the policy, the process table with its
    invariant over reachable states, the text commands and the exec transactions.
  \<^item> Pulse\_Config, Pulse (\<^verbatim>\<open>pulse\<close>): the job and task files, and the daemon that runs them: what
    verification lets through, the service loop with its restarts, back-off and termination.
  \<^item> Prtag, Workspace (\<^verbatim>\<open>prtag\<close>, \<^verbatim>\<open>workspace\<close>): the tag files with their canonical form, and the scan of
    a directory tree for tagged projects and the repositories in them.
  \<^item> Go\_Flags, Agentcommit (\<^verbatim>\<open>agentcommit\<close>): command-line flags; the run that commits every configuration
    over an explicit map of files, down to the verifiers of the other components accepting it.
  \<^item> Proxypass (\<^verbatim>\<open>internal/proxypass\<close>): the loopback proxy; its tunnels are a step relation.
  \<^item> Extclean, Extclean\_Scan (\<^verbatim>\<open>extclean\<close>): removal of one entry from a JSON or TOML configuration; the scanners
    of four agents under the locale \<open>agent_scanner\<close>, and which files a run may change.
  \<^item> Gitall\_Git, Gitall (\<^verbatim>\<open>gitall\<close>): every branch of every repository pulled or pushed, through chains of local
    remotes, as state monads over the command trace. Gitall\_Safety bounds the commands of every run
    by a small Hoare logic; Gitall\_Run shows how much fuel the recursion needs (two more than the
    repositories links can lead to); Gitall\_Locks models the mutexes over all schedules.
  \<^item> Walk\_Dir (\<^verbatim>\<open>filepath.WalkDir\<close> with a visitor): two locales give what a walk inherits from its visitor, an
    invariant or a simulation.
  \<^item> Archive\_Names, Archive\_Repack, Archive\_Parts (\<^verbatim>\<open>archive-repack\<close>): member paths and claims; outputs, rollover
    and splitting over a disk whose answers are a parameter; a successful run implements the plan of its members.
  \<^item> Cleanartifacts (\<^verbatim>\<open>cleanartifacts\<close>, \<^verbatim>\<open>internal/fsutil\<close>): which directories are removed, in every mode and the
    daemon, and that a batch survives its failures.
  \<^item> Clonetree, Forfiles (\<^verbatim>\<open>clonetree\<close>, \<^verbatim>\<open>internal/gitpath\<close>, \<^verbatim>\<open>forfiles\<close>): a directory mirrored with its repositories,
    and what a run may do by its options; one command for every line of the input.
  \<^item> Go\_Glob (\<^verbatim>\<open>filepath.Match\<close>); Agentweave\_Model, Agentweave\_Workflows, Agentweave\_Adapters (\<^verbatim>\<open>agentweave/core\<close>):
    artifacts and their chunks, the adapters of seven local stores, and where an artifact can come from.
  \<^item> Agentweave\_Index, Agentweave\_Search, Agentweave\_Serve (\<^verbatim>\<open>agentweave/core\<close>, \<^verbatim>\<open>daemon\<close>, \<^verbatim>\<open>mcpserver\<close>, \<^verbatim>\<open>local\<close>): the index as
    tables of rows with an invariant over all synchronisations; search and read under the locale
    \<open>evidence_source\<close>; the daemon and the MCP tools, whose answers keep to the workspace asked for.
  \<^item> Agentweave\_Commands (\<^verbatim>\<open>agentweave/cmd\<close>): the two command lines; each leaves an index that synchronisations lead to.

  \<^bold>\<open>Conventions.\<close> Errors are datatypes on the left of a sum. SHA-256 is a function parameter; a
  theorem about what a hash identifies assumes that it does not collide on the finitely many
  messages hashed in the case at hand. The operating system (files, symbolic links, processes,
  terminal, clock, JSON decoding, \<^verbatim>\<open>plutil\<close>, \<^verbatim>\<open>codesign\<close>) is a parameter of the functions that use it.
  External effects of the interposer are a trace; the operations answer each request as a function
  of the trace, hence arbitrarily. Loops are structural or have a termination proof, but for two that have fuel: gitall's recursion over
  remotes (Gitall\_Run bounds what it needs) and the parents of a member path (its length is enough).

  \<^bold>\<open>Not modelled.\<close> The text of log and error messages; case folding and lower-casing beyond ASCII
  (no checked field can hold such characters where it matters); the C layers, shell scripts and
  TypeScript packages; what concurrent goroutines of
  clonetree do to each other (its property bounds every single action).
\<close>

end
